(* ===== verification/Prelude.thy ===== *)
theory Prelude
  imports Main "HOL-Library.Word" "HOL-Library.Signed_Division" "HOL-Library.Monad_Syntax"
begin

text \<open>
  Shared vocabulary of the development: the machine types of \<^verbatim>\<open>comm/types.h\<close>, the
  fault convention, C's truncating division, and the generic list and map lemmas that
  several components use.

  A pointer is \<open>'a option\<close>: \<open>None\<close> is the null pointer.  An operation that may
  dereference a null pointer, run an \<^verbatim>\<open>ASSERT\<close> that fails, or loop forever has an
  \<open>option\<close> result, and \<open>None\<close> stands for "does not return".
\<close>

unbundle bit_operations_syntax

type_synonym u8 = "8 word"
type_synonym u16 = "16 word"
type_synonym u32 = "32 word"

named_theorems op_defs \<open>definitions of the operations of a component\<close>
named_theorems frame_simps \<open>what an operation leaves unchanged\<close>

section \<open>Lists\<close>

fun hd_opt :: "'a list \<Rightarrow> 'a option \<Rightarrow> 'a option" where
  "hd_opt [] q = q"
| "hd_opt (x # xs) q = Some x"

fun last_opt :: "'a option \<Rightarrow> 'a list \<Rightarrow> 'a option" where
  "last_opt p [] = p"
| "last_opt p (x # xs) = last_opt (Some x) xs"

lemma hd_opt_append [simp]: "hd_opt (xs @ ys) q = hd_opt xs (hd_opt ys q)"
  by (cases xs) auto

lemma last_opt_append [simp]: "last_opt p (xs @ ys) = last_opt (last_opt p xs) ys"
  by (induction xs arbitrary: p) auto

lemma hd_opt_None [simp]: "hd_opt xs None = None \<longleftrightarrow> xs = []"
  by (cases xs) auto

lemma last_opt_Some_neq_None [simp]: "last_opt (Some p) xs \<noteq> None"
  by (induction xs arbitrary: p) auto

lemma last_opt_None [simp]: "last_opt None xs = None \<longleftrightarrow> xs = []"
  by (cases xs) auto

lemma hd_opt_Some_iff: "hd_opt xs None = Some x \<longleftrightarrow> (\<exists>ys. xs = x # ys)"
  by (cases xs) auto

lemma last_opt_Some_in: "last_opt None xs = Some x \<Longrightarrow> x \<in> set xs"
proof (induction xs rule: rev_induct)
  case Nil
  then show ?case by simp
next
  case (snoc y xs)
  then show ?case by simp
qed

lemma last_opt_snoc_iff: "last_opt None xs = Some x \<longleftrightarrow> (\<exists>ys. xs = ys @ [x])"
  by (cases xs rule: rev_cases) auto

lemma hd_opt_Some_in: "hd_opt xs None = Some x \<Longrightarrow> x \<in> set xs"
  by (cases xs) auto

lemma hd_opt_cases: "hd_opt xs q = Some x \<Longrightarrow> x \<in> set xs \<or> xs = [] \<and> q = Some x"
  by (cases xs) auto

lemma last_opt_cases: "last_opt p xs = Some x \<Longrightarrow> x \<in> set xs \<or> xs = [] \<and> p = Some x"
  by (cases xs rule: rev_cases) auto

lemma remove1_split: "x \<notin> set xs \<Longrightarrow> remove1 x (xs @ x # ys) = xs @ ys"
  by (simp add: remove1_append)

lemma distinct_splitE:
  assumes "distinct xs" and "x \<in> set xs"
  obtains as bs where "xs = as @ x # bs" and "x \<notin> set as" and "x \<notin> set bs"
    and "distinct as" and "distinct bs" and "set as \<inter> set bs = {}"
  using assms by (metis distinct_append disjoint_insert(1) distinct.simps(2)
      list.simps(15) not_distinct_conv_prefix split_list)

section \<open>C integers\<close>

text \<open>C's \<open>/\<close> and \<open>%\<close> on \<open>int\<close> truncate towards zero.\<close>

definition c_div :: "int \<Rightarrow> int \<Rightarrow> int" where
  "c_div a b = a sdiv b"

definition c_mod :: "int \<Rightarrow> int \<Rightarrow> int" where
  "c_mod a b = a smod b"

lemma c_div_nonneg [simp]: "0 \<le> a \<Longrightarrow> 0 \<le> b \<Longrightarrow> c_div a b = a div b"
  by (simp add: c_div_def signed_divide_int_def zsgn_def)

lemma c_mod_nonneg [simp]: "0 \<le> a \<Longrightarrow> 0 \<le> b \<Longrightarrow> c_mod a b = a mod b"
  by (cases "a = 0") (simp_all add: c_mod_def smod_int_alt_def)

text \<open>The conversion of a 32-bit value to \<open>int\<close> (two's complement, as gcc defines it).\<close>

definition to_int32 :: "int \<Rightarrow> int" where
  "to_int32 a = sint (word_of_int a :: u32)"

lemma to_int32_id: "- (2 ^ 31) \<le> a \<Longrightarrow> a < 2 ^ 31 \<Longrightarrow> to_int32 a = a"
  by (simp add: to_int32_def sint_sbintrunc' signed_take_bit_int_eq_self)

end
