(* ===== verification/Klist.thy ===== *)
theory Klist
  imports Prelude
begin

text \<open>
  The intrusive doubly linked list of \<^verbatim>\<open>kernel/tools/list.c\<close> and
  \<^verbatim>\<open>include/tools/list.h\<close> (the user-level copy \<^verbatim>\<open>utils/list.c\<close> has the same
  text).  The nodes live in objects named by \<open>'a\<close>; \<open>links\<close> is the memory of one
  \<open>node_t\<close> member of all objects (one \<open>pre\<close> and one \<open>next\<close> pointer per object),
  and a list head is a record.  Every operation takes the head and the memory and
  returns both; \<open>None\<close> is a null dereference.

  The abstraction is \<open>dll h l xs\<close>: head \<open>l\<close> in memory \<open>h\<close> represents the sequence
  \<open>xs\<close>.  Each operation is shown to implement its operation on sequences, and the
  locale \<open>node_queue\<close> states the contract that the scheduler and the IPC objects use.
\<close>

section \<open>Data\<close>

record 'a links =
  pre :: "'a \<Rightarrow> 'a option"
  nxt :: "'a \<Rightarrow> 'a option"

record 'a list_t =
  lfirst :: "'a option"
  llast :: "'a option"
  lcount :: int

section \<open>Operations\<close>

definition node_init :: "'a links \<Rightarrow> 'a \<Rightarrow> 'a links" where
  "node_init h n = h\<lparr>nxt := (nxt h)(n := None), pre := (pre h)(n := None)\<rparr>"

definition list_node_pre :: "'a links \<Rightarrow> 'a \<Rightarrow> 'a option" where
  "list_node_pre h n = pre h n"

definition list_node_next :: "'a links \<Rightarrow> 'a \<Rightarrow> 'a option" where
  "list_node_next h n = nxt h n"

definition list_init :: "'a list_t \<Rightarrow> 'a list_t" where
  "list_init l = l\<lparr>lfirst := None, llast := None, lcount := 0\<rparr>"

definition list_is_empty :: "'a list_t \<Rightarrow> bool" where
  "list_is_empty l \<longleftrightarrow> lcount l = 0"

definition list_count :: "'a list_t \<Rightarrow> int" where
  "list_count l = lcount l"

definition list_first :: "'a list_t \<Rightarrow> 'a option" where
  "list_first l = lfirst l"

definition list_last :: "'a list_t \<Rightarrow> 'a option" where
  "list_last l = llast l"

definition list_insert_first ::
    "'a list_t \<Rightarrow> 'a links \<Rightarrow> 'a \<Rightarrow> ('a list_t \<times> 'a links) option" where
  "list_insert_first l h n =
    (let h = h\<lparr>nxt := (nxt h)(n := lfirst l)\<rparr>;
         h = h\<lparr>pre := (pre h)(n := None)\<rparr>
     in if list_is_empty l
        then Some (l\<lparr>llast := Some n, lfirst := Some n, lcount := lcount l + 1\<rparr>, h)
        else (case lfirst l of
            None \<Rightarrow> None
          | Some f \<Rightarrow>
              Some (l\<lparr>lfirst := Some n, lcount := lcount l + 1\<rparr>,
                    h\<lparr>pre := (pre h)(f := Some n)\<rparr>)))"

definition list_insert_last ::
    "'a list_t \<Rightarrow> 'a links \<Rightarrow> 'a \<Rightarrow> ('a list_t \<times> 'a links) option" where
  "list_insert_last l h n =
    (let h = h\<lparr>nxt := (nxt h)(n := None)\<rparr>;
         h = h\<lparr>pre := (pre h)(n := llast l)\<rparr>
     in if list_is_empty l
        then Some (l\<lparr>llast := Some n, lfirst := Some n, lcount := lcount l + 1\<rparr>, h)
        else (case llast l of
            None \<Rightarrow> None
          | Some e \<Rightarrow>
              Some (l\<lparr>llast := Some n, lcount := lcount l + 1\<rparr>,
                    h\<lparr>nxt := (nxt h)(e := Some n)\<rparr>)))"

text \<open>The result of the two removals is the node, null when the list was empty.\<close>

definition list_remove_first ::
    "'a list_t \<Rightarrow> 'a links \<Rightarrow> ('a option \<times> 'a list_t \<times> 'a links) option" where
  "list_remove_first l h =
    (if list_is_empty l then Some (None, l, h)
     else do {
       removed \<leftarrow> lfirst l;
       let l = l\<lparr>lfirst := nxt h removed\<rparr>;
       (l, h) \<leftarrow> (if lfirst l = None then Some (l\<lparr>llast := None\<rparr>, h)
                 else do {
                   n \<leftarrow> nxt h removed;
                   Some (l, h\<lparr>pre := (pre h)(n := None)\<rparr>)
                 });
       let l = l\<lparr>lcount := lcount l - 1\<rparr>;
       Some (Some removed, l, node_init h removed)
     })"

definition list_remove_last ::
    "'a list_t \<Rightarrow> 'a links \<Rightarrow> ('a option \<times> 'a list_t \<times> 'a links) option" where
  "list_remove_last l h =
    (if list_is_empty l then Some (None, l, h)
     else do {
       removed \<leftarrow> llast l;
       let l = l\<lparr>llast := pre h removed\<rparr>;
       (l, h) \<leftarrow> (if llast l = None then Some (l\<lparr>lfirst := None\<rparr>, h)
                 else do {
                   p \<leftarrow> pre h removed;
                   Some (l, h\<lparr>nxt := (nxt h)(p := None)\<rparr>)
                 });
       let l = l\<lparr>lcount := lcount l - 1\<rparr>;
       Some (Some removed, l, node_init h removed)
     })"

text \<open>
  \<open>list_remove\<close> never checks that the node is on the list: it unlinks whatever the
  node's own pointers say and always decrements the count.
\<close>

definition list_remove :: "'a list_t \<Rightarrow> 'a links \<Rightarrow> 'a \<Rightarrow> 'a list_t \<times> 'a links" where
  "list_remove l h n =
    (let l = (if lfirst l = Some n then l\<lparr>lfirst := nxt h n\<rparr> else l);
         l = (if llast l = Some n then l\<lparr>llast := pre h n\<rparr> else l);
         h = (case pre h n of None \<Rightarrow> h
              | Some p \<Rightarrow> h\<lparr>nxt := (nxt h)(p := nxt h n)\<rparr>);
         h = (case nxt h n of None \<Rightarrow> h
              | Some q \<Rightarrow> h\<lparr>pre := (pre h)(q := pre h n)\<rparr>)
     in (l\<lparr>lcount := lcount l - 1\<rparr>, node_init h n))"

text \<open>
  \<open>offset_int_parent\<close>/\<open>parent_addr\<close>/\<open>list_node_parent\<close>: from the address of a
  member back to the object, null to null.
\<close>

definition list_node_parent :: "u32 \<Rightarrow> u32 \<Rightarrow> u32" where
  "list_node_parent offset node = (if node \<noteq> 0 then node - offset else 0)"

lemmas list_ops [op_defs] =
  node_init_def list_node_pre_def list_node_next_def list_init_def list_is_empty_def
  list_count_def list_first_def list_last_def list_insert_first_def list_insert_last_def
  list_remove_first_def list_remove_last_def list_remove_def

section \<open>The sequence a list represents\<close>

fun dseg :: "('a \<Rightarrow> 'a option) \<Rightarrow> ('a \<Rightarrow> 'a option) \<Rightarrow>
    'a option \<Rightarrow> 'a list \<Rightarrow> 'a option \<Rightarrow> bool" where
  "dseg f g p [] q \<longleftrightarrow> True"
| "dseg f g p (x # xs) q \<longleftrightarrow> f x = p \<and> g x = hd_opt xs q \<and> dseg f g (Some x) xs q"

definition dll :: "'a links \<Rightarrow> 'a list_t \<Rightarrow> 'a list \<Rightarrow> bool" where
  "dll h l xs \<longleftrightarrow> distinct xs \<and> lfirst l = hd_opt xs None \<and> llast l = last_opt None xs
     \<and> lcount l = int (length xs) \<and> dseg (pre h) (nxt h) None xs None"

text \<open>Outside \<open>A\<close> the two memories agree.\<close>

definition same_links :: "'a set \<Rightarrow> 'a links \<Rightarrow> 'a links \<Rightarrow> bool" where
  "same_links A h h' \<longleftrightarrow> (\<forall>m. m \<notin> A \<longrightarrow> pre h' m = pre h m \<and> nxt h' m = nxt h m)"

lemma dseg_append [simp]:
  "dseg f g p (xs @ ys) q \<longleftrightarrow> dseg f g p xs (hd_opt ys q) \<and> dseg f g (last_opt p xs) ys q"
  by (induction xs arbitrary: p) auto

lemma dseg_cong:
  "(\<And>x. x \<in> set xs \<Longrightarrow> f' x = f x \<and> g' x = g x) \<Longrightarrow> dseg f' g' p xs q = dseg f g p xs q"
  by (induction xs arbitrary: p) auto

lemma dseg_upd [simp]:
  "x \<notin> set xs \<Longrightarrow> dseg (f(x := a)) g p xs q = dseg f g p xs q"
  "x \<notin> set xs \<Longrightarrow> dseg f (g(x := b)) p xs q = dseg f g p xs q"
  by (auto intro!: dseg_cong)

lemma dll_frame:
  "same_links A h h' \<Longrightarrow> A \<inter> set xs = {} \<Longrightarrow> dll h' l xs = dll h l xs"
  using dseg_cong[of xs "pre h'" "pre h" "nxt h'" "nxt h" None None]
  by (auto simp: dll_def same_links_def)

lemma same_links_mono: "same_links A h h' \<Longrightarrow> A \<subseteq> B \<Longrightarrow> same_links B h h'"
  by (auto simp: same_links_def)

lemma same_links_refl [simp]: "same_links A h h"
  by (simp add: same_links_def)

lemma same_links_trans: "same_links A h h' \<Longrightarrow> same_links A h' h'' \<Longrightarrow> same_links A h h''"
  by (simp add: same_links_def)

lemma dseg_unique:
  "dseg f g p xs None \<Longrightarrow> dseg f g p ys None \<Longrightarrow> hd_opt xs None = hd_opt ys None \<Longrightarrow> xs = ys"
proof (induction xs arbitrary: p ys)
  case Nil
  then show ?case by (cases ys) auto
next
  case (Cons x xs)
  then show ?case by (cases ys) auto
qed

lemma dll_unique: "dll h l xs \<Longrightarrow> dll h l ys \<Longrightarrow> xs = ys"
  by (auto simp: dll_def intro: dseg_unique)

section \<open>Each operation implements its operation on sequences\<close>

lemma dll_init [simp]: "dll h (list_init l) xs \<longleftrightarrow> xs = []"
  by (auto simp: dll_def list_init_def)

lemma dll_simps:
  assumes "dll h l xs"
  shows "list_is_empty l \<longleftrightarrow> xs = []" and "list_count l = int (length xs)"
    and "list_first l = hd_opt xs None" and "list_last l = last_opt None xs"
    and "lfirst l = hd_opt xs None" and "llast l = last_opt None xs" and "distinct xs"
    and "lcount l = int (length xs)"
  using assms by (auto simp: dll_def op_defs)

lemma dll_insert_first:
  assumes "dll h l xs" and "n \<notin> set xs"
  shows "\<exists>l' h'. list_insert_first l h n = Some (l', h') \<and> dll h' l' (n # xs)
    \<and> same_links (insert n (set xs)) h h'"
  using assms
  by (cases xs) (auto simp: dll_def list_insert_first_def list_is_empty_def Let_def same_links_def)

lemma dll_insert_last:
  assumes "dll h l xs" and "n \<notin> set xs"
  shows "\<exists>l' h'. list_insert_last l h n = Some (l', h') \<and> dll h' l' (xs @ [n])
    \<and> same_links (insert n (set xs)) h h'"
  using assms
  by (cases xs rule: rev_cases)
    (auto simp: dll_def list_insert_last_def list_is_empty_def Let_def same_links_def)

lemma dll_remove_first_Nil:
  "dll h l [] \<Longrightarrow> list_remove_first l h = Some (None, l, h)"
  by (simp add: dll_def list_remove_first_def list_is_empty_def)

lemma dll_remove_first:
  assumes "dll h l (x # xs)"
  shows "\<exists>l' h'. list_remove_first l h = Some (Some x, l', h') \<and> dll h' l' xs
    \<and> pre h' x = None \<and> nxt h' x = None \<and> same_links (set (x # xs)) h h'"
  using assms
  by (cases xs)
    (auto simp: dll_def list_remove_first_def list_is_empty_def node_init_def same_links_def)

lemma dll_remove_last:
  assumes "dll h l (xs @ [x])"
  shows "\<exists>l' h'. list_remove_last l h = Some (Some x, l', h') \<and> dll h' l' xs
    \<and> pre h' x = None \<and> nxt h' x = None \<and> same_links (set (xs @ [x])) h h'"
  using assms
  by (cases xs rule: rev_cases)
    (auto simp: dll_def list_remove_last_def list_is_empty_def node_init_def same_links_def)

lemma dll_remove:
  assumes "dll h l xs" and "x \<in> set xs"
  shows "\<exists>l' h'. list_remove l h x = (l', h') \<and> dll h' l' (remove1 x xs)
    \<and> pre h' x = None \<and> nxt h' x = None \<and> same_links (set xs) h h'"
proof -
  from assms have "distinct xs" by (simp add: dll_def)
  then obtain as bs where xs: "xs = as @ x # bs" "x \<notin> set as" "x \<notin> set bs"
    "distinct as" "distinct bs" "set as \<inter> set bs = {}"
    using assms(2) by (rule distinct_splitE)
  have r: "remove1 x xs = as @ bs" using xs by (simp add: remove1_split)
  show ?thesis
    unfolding r using assms(1) xs
    by (cases as rule: rev_cases; cases bs)
      (auto simp: dll_def list_remove_def node_init_def Let_def same_links_def
        dest: hd_opt_cases last_opt_cases)
qed

section \<open>The contract clients use\<close>

text \<open>
  What the scheduler and the IPC objects rely on: a representation predicate, appending,
  removal of a given node and of the first node, each touching only the nodes of its own
  list and its argument.  Two lists may live in the same memory (the ready and the sleep
  queue share \<open>run_node\<close>), so the laws come with their frames.
\<close>

locale node_queue =
  fixes rep :: "'h \<Rightarrow> 'l \<Rightarrow> 'a list \<Rightarrow> bool"
    and same :: "'a set \<Rightarrow> 'h \<Rightarrow> 'h \<Rightarrow> bool"
    and ins :: "'l \<Rightarrow> 'h \<Rightarrow> 'a \<Rightarrow> ('l \<times> 'h) option"
    and rem :: "'l \<Rightarrow> 'h \<Rightarrow> 'a \<Rightarrow> 'l \<times> 'h"
    and pop :: "'l \<Rightarrow> 'h \<Rightarrow> ('a option \<times> 'l \<times> 'h) option"
  assumes rep_distinct: "rep h l xs \<Longrightarrow> distinct xs"
    and rep_frame: "same A h h' \<Longrightarrow> A \<inter> set xs = {} \<Longrightarrow> rep h' l xs = rep h l xs"
    and same_mono: "same A h h' \<Longrightarrow> A \<subseteq> B \<Longrightarrow> same B h h'"
    and same_trans: "same A h h' \<Longrightarrow> same A h' h'' \<Longrightarrow> same A h h''"
    and ins_law: "rep h l xs \<Longrightarrow> n \<notin> set xs \<Longrightarrow>
      \<exists>l' h'. ins l h n = Some (l', h') \<and> rep h' l' (xs @ [n]) \<and> same (insert n (set xs)) h h'"
    and rem_law: "rep h l xs \<Longrightarrow> n \<in> set xs \<Longrightarrow>
      \<exists>l' h'. rem l h n = (l', h') \<and> rep h' l' (remove1 n xs) \<and> same (set xs) h h'"
    and pop_law: "rep h l (x # xs) \<Longrightarrow>
      \<exists>l' h'. pop l h = Some (Some x, l', h') \<and> rep h' l' xs \<and> same (set (x # xs)) h h'"
    and pop_Nil: "rep h l [] \<Longrightarrow> pop l h = Some (None, l, h)"
begin

lemma ins_two:
  assumes "rep h l xs" and "rep h m ys" and "n \<notin> set xs" and "n \<notin> set ys"
    and "set xs \<inter> set ys = {}"
  shows "\<exists>l' h'. ins l h n = Some (l', h') \<and> rep h' l' (xs @ [n]) \<and> rep h' m ys
    \<and> same (insert n (set xs)) h h'"
proof -
  obtain l' h' where i: "ins l h n = Some (l', h')" "rep h' l' (xs @ [n])"
    "same (insert n (set xs)) h h'"
    using ins_law[OF assms(1,3)] by blast
  moreover have "rep h' m ys" using rep_frame[OF i(3), of ys m] assms by auto
  ultimately show ?thesis by blast
qed

lemma rem_two:
  assumes "rep h l xs" and "rep h m ys" and "n \<in> set xs" and "set xs \<inter> set ys = {}"
  shows "\<exists>l' h'. rem l h n = (l', h') \<and> rep h' l' (remove1 n xs) \<and> rep h' m ys
    \<and> same (set xs) h h'"
proof -
  obtain l' h' where i: "rem l h n = (l', h')" "rep h' l' (remove1 n xs)" "same (set xs) h h'"
    using rem_law[OF assms(1,3)] by blast
  moreover have "rep h' m ys" using rep_frame[OF i(3), of ys m] assms by auto
  ultimately show ?thesis by blast
qed

text \<open>Removing a node and appending it again moves it to the end of the queue.\<close>

lemma requeue:
  assumes "rep h l xs" and "n \<in> set xs"
  shows "\<exists>l1 h1 l2 h2. rem l h n = (l1, h1) \<and> ins l1 h1 n = Some (l2, h2)
    \<and> rep h2 l2 (remove1 n xs @ [n]) \<and> same (set xs) h h2"
proof -
  obtain l1 h1 where r: "rem l h n = (l1, h1)" "rep h1 l1 (remove1 n xs)" "same (set xs) h h1"
    using rem_law[OF assms] by blast
  have d: "n \<notin> set (remove1 n xs)" "insert n (set (remove1 n xs)) = set xs"
    using rep_distinct[OF assms(1)] assms(2) by auto
  obtain l2 h2 where i: "ins l1 h1 n = Some (l2, h2)" "rep h2 l2 (remove1 n xs @ [n])"
    "same (insert n (set (remove1 n xs))) h1 h2"
    using ins_law[OF r(2) d(1)] by blast
  show ?thesis using r i d(2) same_trans by metis
qed

text \<open>A node moved from one queue to the end of another queue in the same memory.\<close>

lemma transfer:
  assumes "rep h l xs" and "rep h m ys" and "n \<in> set xs" and "set xs \<inter> set ys = {}"
  shows "\<exists>l' h1 m' h2. rem l h n = (l', h1) \<and> ins m h1 n = Some (m', h2)
    \<and> rep h2 l' (remove1 n xs) \<and> rep h2 m' (ys @ [n])"
proof -
  obtain l' h1 where r: "rem l h n = (l', h1)" "rep h1 l' (remove1 n xs)" "rep h1 m ys"
    using rem_two[OF assms] by blast
  have d: "n \<notin> set (remove1 n xs)" "n \<notin> set ys" "set ys \<inter> set (remove1 n xs) = {}"
    using rep_distinct[OF assms(1)] assms(3,4) set_remove1_subset[of n xs] by auto
  obtain m' h2 where "ins m h1 n = Some (m', h2)" "rep h2 m' (ys @ [n])"
    "rep h2 l' (remove1 n xs)"
    using ins_two[OF r(3,2) d(2,1,3)] by blast
  with r show ?thesis by blast
qed

text \<open>First in, first out: what is appended to a queue leaves after what was there.\<close>

lemma ins_pop:
  assumes "rep h l xs" and "n \<notin> set xs"
  shows "\<exists>l1 h1 l2 h2. ins l h n = Some (l1, h1)
    \<and> pop l1 h1 = Some (Some (hd (xs @ [n])), l2, h2) \<and> rep h2 l2 (tl (xs @ [n]))"
proof -
  obtain l1 h1 where i: "ins l h n = Some (l1, h1)" "rep h1 l1 (xs @ [n])"
    using ins_law[OF assms] by blast
  obtain y ys where "xs @ [n] = y # ys" by (cases xs) auto
  with i pop_law[of h1 l1 y ys] show ?thesis by (metis list.sel(1,3))
qed

end

interpretation kq: node_queue dll same_links list_insert_last list_remove list_remove_first
proof unfold_locales
  fix h :: "'a links" and l xs n
  assume "dll h l xs" and "n \<in> set xs"
  then show "\<exists>l' h'. list_remove l h n = (l', h') \<and> dll h' l' (remove1 n xs)
      \<and> same_links (set xs) h h'"
    using dll_remove[of h l xs n] by auto
next
  fix h :: "'a links" and l x xs
  assume "dll h l (x # xs)"
  then show "\<exists>l' h'. list_remove_first l h = Some (Some x, l', h') \<and> dll h' l' xs
      \<and> same_links (set (x # xs)) h h'"
    using dll_remove_first[of h l x xs] by auto
qed (rule dll_simps(7) dll_frame same_links_mono same_links_trans dll_insert_last
    dll_remove_first_Nil; assumption)+

end
