(* ===== verification/Sched.thy ===== *)
theory Sched
  imports Klist
begin

text \<open>
  The scheduler of \<^verbatim>\<open>kernel/core/task.c\<close>: the ready, sleep and task queues, dispatch,
  the time slice, sleeping and waking, with the interrupt guard of
  \<^verbatim>\<open>kernel/cpu/irq.c\<close> and the hardware task switch of \<^verbatim>\<open>kernel/cpu/cpu.c\<close>.

  A \<open>task_t *\<close> is a \<open>task_ref\<close>: the two tasks inside the task manager and the slots of
  \<open>task_table\<close>.  The three \<open>node_t\<close> members of a task are three link memories.  The
  EFLAGS register is banked by the hardware task switch (the TSS saves and reloads it),
  so it is kept per execution context: \<open>eflags s (Some t)\<close> is what task \<open>t\<close> sees when it
  runs, \<open>eflags s None\<close> the boot context.  Code after a dispatch runs when the caller is
  switched back to; in these handlers that code only restores the caller's own flags.
\<close>

section \<open>Data\<close>

datatype task_ref = Idle_task | First_task | Table_task nat

datatype task_state =
  TASK_CREATED | TASK_RUNNING | TASK_SLEEP | TASK_READY | TASK_WAITTING | TASK_ZOMBIE

record tss_t =
  ts_esp0 :: u32
  ts_ss0 :: u32
  ts_cr3 :: u32
  ts_eip :: u32
  ts_eflags :: u32
  ts_eax :: u32
  ts_ecx :: u32
  ts_edx :: u32
  ts_ebx :: u32
  ts_esp :: u32
  ts_ebp :: u32
  ts_esi :: u32
  ts_edi :: u32
  ts_es :: u32
  ts_cs :: u32
  ts_ss :: u32
  ts_ds :: u32
  ts_fs :: u32
  ts_gs :: u32

record task_t =
  tstate :: task_state
  tid :: int
  parent :: "task_ref option"
  heap_start :: u32
  heap_end :: u32
  sleep_ticks :: int
  time_ticks :: int
  slice_ticks :: int
  status :: int
  file_table :: "nat option list"
  tname :: "u8 list"
  tss :: tss_t
  tss_sel :: int

record sched =
  tasks :: "task_ref \<Rightarrow> task_t"
  run_links :: "task_ref links"
  wait_links :: "task_ref links"
  all_links :: "task_ref links"
  curr_task :: "task_ref option"
  ready_list :: "task_ref list_t"
  task_list :: "task_ref list_t"
  sleep_list :: "task_ref list_t"
  app_code_sel :: int
  app_data_sel :: int
  eflags :: "task_ref option \<Rightarrow> u32"
  tr :: int

definition EFLAGS_IF :: u32 where "EFLAGS_IF = 512"

definition OS_TICKS_MS :: u32 where "OS_TICKS_MS = 10"

definition TASK_TIME_SLICE_DEFAULT :: int where "TASK_TIME_SLICE_DEFAULT = 100 div 10"

definition upd_task :: "task_ref \<Rightarrow> (task_t \<Rightarrow> task_t) \<Rightarrow> 'm sched_scheme \<Rightarrow> 'm sched_scheme" where
  "upd_task t f s = s\<lparr>tasks := (tasks s)(t := f (tasks s t))\<rparr>"

section \<open>Interrupt guard and task switch\<close>

definition task_current :: "'m sched_scheme \<Rightarrow> task_ref option" where
  "task_current s = curr_task s"

definition irq_enter_protection :: "'m sched_scheme \<Rightarrow> u32 \<times> 'm sched_scheme" where
  "irq_enter_protection s =
    (let st = eflags s (curr_task s)
     in (st, s\<lparr>eflags := (eflags s)(curr_task s := st AND NOT EFLAGS_IF)\<rparr>))"

definition irq_leave_protection ::
    "task_ref option \<Rightarrow> u32 \<Rightarrow> 'm sched_scheme \<Rightarrow> 'm sched_scheme" where
  "irq_leave_protection me st s = s\<lparr>eflags := (eflags s)(me := st)\<rparr>"

definition switch_to_tss :: "int \<Rightarrow> 'm sched_scheme \<Rightarrow> 'm sched_scheme" where
  "switch_to_tss sel s = s\<lparr>tr := sel\<rparr>"

definition task_switch_from_to ::
    "task_ref option \<Rightarrow> task_ref \<Rightarrow> 'm sched_scheme \<Rightarrow> 'm sched_scheme" where
  "task_switch_from_to from to s = switch_to_tss (tss_sel (tasks s to)) s"

section \<open>Queues\<close>

definition task_next_run :: "'m sched_scheme \<Rightarrow> task_ref option" where
  "task_next_run s =
    (if list_count (ready_list s) = 0 then Some Idle_task else list_first (ready_list s))"

definition task_set_ready :: "task_ref \<Rightarrow> 'm sched_scheme \<Rightarrow> 'm sched_scheme option" where
  "task_set_ready t s =
    (if t = Idle_task then Some s
     else do {
       (l, h) \<leftarrow> list_insert_last (ready_list s) (run_links s) t;
       Some (upd_task t (\<lambda>k. k\<lparr>tstate := TASK_READY\<rparr>) (s\<lparr>ready_list := l, run_links := h\<rparr>))
     })"

definition task_set_block :: "task_ref \<Rightarrow> 'm sched_scheme \<Rightarrow> 'm sched_scheme" where
  "task_set_block t s =
    (if t = Idle_task then s
     else let (l, h) = list_remove (ready_list s) (run_links s) t
          in s\<lparr>ready_list := l, run_links := h\<rparr>)"

definition task_set_sleep ::
    "task_ref \<Rightarrow> u32 \<Rightarrow> 'm sched_scheme \<Rightarrow> 'm sched_scheme option" where
  "task_set_sleep t ticks s =
    (if ticks \<le> 0 then Some s
     else let s = upd_task t (\<lambda>k. k\<lparr>sleep_ticks := to_int32 (uint ticks)\<rparr>) s;
              s = upd_task t (\<lambda>k. k\<lparr>tstate := TASK_SLEEP\<rparr>) s
          in do {
            (l, h) \<leftarrow> list_insert_last (sleep_list s) (run_links s) t;
            Some (s\<lparr>sleep_list := l, run_links := h\<rparr>)
          })"

definition task_set_wakeup :: "task_ref \<Rightarrow> 'm sched_scheme \<Rightarrow> 'm sched_scheme" where
  "task_set_wakeup t s =
    (let (l, h) = list_remove (sleep_list s) (run_links s) t
     in s\<lparr>sleep_list := l, run_links := h\<rparr>)"

section \<open>Dispatch, yield, sleep and the clock tick\<close>

definition task_dispatch :: "'m sched_scheme \<Rightarrow> 'm sched_scheme option" where
  "task_dispatch s =
    (let me = curr_task s;
         (st, s) = irq_enter_protection s;
         next_run = task_next_run s
     in do {
       s \<leftarrow> (if next_run \<noteq> curr_task s
            then do {
              to \<leftarrow> next_run;
              let from = task_current s;
              let s = s\<lparr>curr_task := Some to\<rparr>;
              let s = upd_task to (\<lambda>k. k\<lparr>tstate := TASK_RUNNING\<rparr>) s;
              Some (task_switch_from_to from to s)
            }
            else Some s);
       Some (irq_leave_protection me st s)
     })"

definition task_start :: "task_ref \<Rightarrow> 'm sched_scheme \<Rightarrow> 'm sched_scheme option" where
  "task_start t s =
    (let me = curr_task s; (st, s) = irq_enter_protection s
     in do { s \<leftarrow> task_set_ready t s; Some (irq_leave_protection me st s) })"

definition sys_yeild :: "'m sched_scheme \<Rightarrow> (int \<times> 'm sched_scheme) option" where
  "sys_yeild s =
    (let me = curr_task s; (st, s) = irq_enter_protection s
     in do {
       s \<leftarrow> (if list_count (ready_list s) > 1
            then do {
              c \<leftarrow> task_current s;
              let s = task_set_block c s;
              s \<leftarrow> task_set_ready c s;
              task_dispatch s
            }
            else Some s);
       Some (0, irq_leave_protection me st s)
     })"

text \<open>The scan of the sleep queue; the successor is read before the node moves.\<close>

partial_function (option) tick_sleepers ::
    "task_ref option \<Rightarrow> 'm sched_scheme \<Rightarrow> 'm sched_scheme option" where
  "tick_sleepers node s =
    (case node of
       None \<Rightarrow> Some s
     | Some t \<Rightarrow>
         let nx = list_node_next (run_links s) t;
             s = upd_task t (\<lambda>k. k\<lparr>sleep_ticks := sleep_ticks k - 1\<rparr>) s
         in do {
           s \<leftarrow> (if sleep_ticks (tasks s t) = 0
                then task_set_ready t (task_set_wakeup t s)
                else Some s);
           tick_sleepers nx s
         })"

definition task_time_tick :: "'m sched_scheme \<Rightarrow> 'm sched_scheme option" where
  "task_time_tick s =
    do {
      c \<leftarrow> task_current s;
      let s = upd_task c (\<lambda>k. k\<lparr>slice_ticks := slice_ticks k - 1\<rparr>) s;
      s \<leftarrow> (if slice_ticks (tasks s c) = 0
           then do {
             let s = upd_task c (\<lambda>k. k\<lparr>slice_ticks := time_ticks k\<rparr>) s;
             let s = task_set_block c s;
             task_set_ready c s
           }
           else Some s);
      s \<leftarrow> tick_sleepers (list_first (sleep_list s)) s;
      task_dispatch s
    }"

definition sys_sleep :: "u32 \<Rightarrow> 'm sched_scheme \<Rightarrow> 'm sched_scheme option" where
  "sys_sleep ms s =
    (let me = curr_task s; (st, s) = irq_enter_protection s
     in do {
       c \<leftarrow> curr_task s;
       let s = task_set_block c s;
       s \<leftarrow> task_set_sleep c ((ms + OS_TICKS_MS - 1) div OS_TICKS_MS) s;
       s \<leftarrow> task_dispatch s;
       Some (irq_leave_protection me st s)
     })"

definition sys_getpid :: "'m sched_scheme \<Rightarrow> int option" where
  "sys_getpid s = do { c \<leftarrow> task_current s; Some (tid (tasks s c)) }"

section \<open>What the queues represent\<close>

text \<open>
  \<open>sched_rep s R S\<close>: the ready queue holds \<open>R\<close>, the sleep queue \<open>S\<close>, no task is on
  both, and the idle task is on neither.  \<open>on_cpu s R\<close>: the scheduler's current task is
  the head of the ready queue (the idle task when it is empty), and the task register
  holds that task's selector.
\<close>

definition runner :: "task_ref list \<Rightarrow> task_ref" where
  "runner R = (case R of [] \<Rightarrow> Idle_task | t # _ \<Rightarrow> t)"

definition sched_rep :: "'m sched_scheme \<Rightarrow> task_ref list \<Rightarrow> task_ref list \<Rightarrow> bool" where
  "sched_rep s R S \<longleftrightarrow>
     dll (run_links s) (ready_list s) R \<and> dll (run_links s) (sleep_list s) S
     \<and> set R \<inter> set S = {} \<and> Idle_task \<notin> set R \<and> Idle_task \<notin> set S"

definition on_cpu :: "'m sched_scheme \<Rightarrow> task_ref list \<Rightarrow> bool" where
  "on_cpu s R \<longleftrightarrow> curr_task s = Some (runner R) \<and> tr s = tss_sel (tasks s (runner R))"

lemma runner_simps [simp]: "runner [] = Idle_task" "runner (t # R) = t"
  by (simp_all add: runner_def)

lemma runner_idle_iff: "Idle_task \<notin> set R \<Longrightarrow> runner R = Idle_task \<longleftrightarrow> R = []"
  by (cases R) auto

lemma sched_rep_upd [simp]:
  "sched_rep (s\<lparr>tasks := a\<rparr>) R S = sched_rep s R S"
  "sched_rep (s\<lparr>curr_task := b\<rparr>) R S = sched_rep s R S"
  "sched_rep (s\<lparr>tr := c\<rparr>) R S = sched_rep s R S"
  "sched_rep (s\<lparr>eflags := d\<rparr>) R S = sched_rep s R S"
  "sched_rep (s\<lparr>wait_links := e\<rparr>) R S = sched_rep s R S"
  "sched_rep (s\<lparr>all_links := f\<rparr>) R S = sched_rep s R S"
  "sched_rep (s\<lparr>task_list := g\<rparr>) R S = sched_rep s R S"
  "sched_rep (upd_task t k s) R S = sched_rep s R S"
  by (simp_all add: sched_rep_def upd_task_def)

lemma upd_task_simps [simp]:
  "run_links (upd_task t f s) = run_links s" "wait_links (upd_task t f s) = wait_links s"
  "ready_list (upd_task t f s) = ready_list s" "sleep_list (upd_task t f s) = sleep_list s"
  "task_list (upd_task t f s) = task_list s" "all_links (upd_task t f s) = all_links s"
  "curr_task (upd_task t f s) = curr_task s" "tr (upd_task t f s) = tr s"
  "eflags (upd_task t f s) = eflags s"
  "tasks (upd_task t f s) = (tasks s)(t := f (tasks s t))"
  "app_code_sel (upd_task t f s) = app_code_sel s"
  "app_data_sel (upd_task t f s) = app_data_sel s"
  "sched.more (upd_task t f s) = sched.more s"
  by (simp_all add: upd_task_def)

lemma sched_rep_facts:
  assumes "sched_rep s R S"
  shows "list_count (ready_list s) = int (length R)" and "list_first (ready_list s) = hd_opt R None"
    and "list_first (sleep_list s) = hd_opt S None" and "distinct R" and "distinct S"
    and "set R \<inter> set S = {}" and "Idle_task \<notin> set R" and "Idle_task \<notin> set S"
  using assms by (auto simp: sched_rep_def dll_simps)

lemma sched_rep_unique: "sched_rep s R S \<Longrightarrow> sched_rep s R' S' \<Longrightarrow> R' = R \<and> S' = S"
  by (auto simp: sched_rep_def dest: dll_unique)

text \<open>What the queue operations leave alone.\<close>

definition sched_frame :: "'m sched_scheme \<Rightarrow> 'm sched_scheme \<Rightarrow> bool" where
  "sched_frame s s' \<longleftrightarrow>
     curr_task s' = curr_task s \<and> tr s' = tr s \<and> eflags s' = eflags s
     \<and> wait_links s' = wait_links s \<and> all_links s' = all_links s \<and> task_list s' = task_list s
     \<and> app_code_sel s' = app_code_sel s \<and> app_data_sel s' = app_data_sel s
     \<and> sched.more s' = sched.more s"

lemma sched_frame_refl [simp]: "sched_frame s s"
  by (simp add: sched_frame_def)

lemma sched_frame_trans: "sched_frame s s' \<Longrightarrow> sched_frame s' s'' \<Longrightarrow> sched_frame s s''"
  by (simp add: sched_frame_def)

lemma sched_frame_upd [simp]: "sched_frame s (upd_task t f s') = sched_frame s s'"
  "sched_frame (upd_task t f s) s' = sched_frame s s'"
  by (simp_all add: sched_frame_def)

lemma set_ready_rep:
  assumes "sched_rep s R S" and "t \<notin> set R" and "t \<notin> set S" and "t \<noteq> Idle_task"
  shows "\<exists>s'. task_set_ready t s = Some s' \<and> sched_rep s' (R @ [t]) S \<and> sched_frame s s'
    \<and> tasks s' = (tasks s)(t := (tasks s t)\<lparr>tstate := TASK_READY\<rparr>)"
  using assms kq.ins_two[of "run_links s" "ready_list s" R "sleep_list s" S t]
  by (auto simp: sched_rep_def task_set_ready_def sched_frame_def)

lemma set_block_rep:
  assumes "sched_rep s R S" and "t \<in> set R"
  shows "sched_rep (task_set_block t s) (remove1 t R) S \<and> sched_frame s (task_set_block t s)
    \<and> tasks (task_set_block t s) = tasks s"
proof -
  have t: "t \<noteq> Idle_task" "set (remove1 t R) \<subseteq> set R"
    using assms by (auto simp: sched_rep_def set_remove1_subset)
  obtain l h where "list_remove (ready_list s) (run_links s) t = (l, h)"
    "dll h l (remove1 t R)" "dll h (sleep_list s) S"
    using assms kq.rem_two[of "run_links s" "ready_list s" R "sleep_list s" S t]
    by (auto simp: sched_rep_def)
  with assms t show ?thesis
    by (auto simp: sched_rep_def task_set_block_def sched_frame_def)
qed

lemma set_wakeup_rep:
  assumes "sched_rep s R S" and "t \<in> set S"
  shows "sched_rep (task_set_wakeup t s) R (remove1 t S) \<and> sched_frame s (task_set_wakeup t s)
    \<and> tasks (task_set_wakeup t s) = tasks s"
proof -
  have t: "set (remove1 t S) \<subseteq> set S" by (rule set_remove1_subset)
  obtain l h where "list_remove (sleep_list s) (run_links s) t = (l, h)"
    "dll h l (remove1 t S)" "dll h (ready_list s) R"
    using assms kq.rem_two[of "run_links s" "sleep_list s" S "ready_list s" R t]
    by (auto simp: sched_rep_def Int_commute)
  with assms t show ?thesis
    by (auto simp: sched_rep_def task_set_wakeup_def sched_frame_def)
qed

lemma set_sleep_rep:
  assumes "sched_rep s R S" and "t \<notin> set R" and "t \<notin> set S" and "t \<noteq> Idle_task" and "0 < n"
  shows "\<exists>s'. task_set_sleep t n s = Some s' \<and> sched_rep s' R (S @ [t]) \<and> sched_frame s s'
    \<and> tasks s' = (tasks s)(t :=
         (tasks s t)\<lparr>sleep_ticks := to_int32 (uint n), tstate := TASK_SLEEP\<rparr>)"
  using assms kq.ins_two[of "run_links s" "sleep_list s" S "ready_list s" R t]
  by (auto simp: sched_rep_def task_set_sleep_def upd_task_def Let_def word_greater_zero_iff
      Int_commute sched_frame_def)

text \<open>The interrupt guard cancels around a handler that leaves the flags alone.\<close>

lemma irq_guard_simps [simp]:
  "irq_enter_protection s = (eflags s (curr_task s),
     s\<lparr>eflags := (eflags s)(curr_task s := eflags s (curr_task s) AND NOT EFLAGS_IF)\<rparr>)"
  "irq_leave_protection me st s = s\<lparr>eflags := (eflags s)(me := st)\<rparr>"
  by (simp_all add: irq_enter_protection_def irq_leave_protection_def Let_def)

lemma next_run_rep: "sched_rep s R S \<Longrightarrow> task_next_run s = Some (runner R)"
  by (cases R) (auto simp: task_next_run_def dest: sched_rep_facts)

definition dispatched :: "task_ref \<Rightarrow> 'm sched_scheme \<Rightarrow> 'm sched_scheme" where
  "dispatched t s =
    (if curr_task s = Some t then s
     else (upd_task t (\<lambda>k. k\<lparr>tstate := TASK_RUNNING\<rparr>) s)
       \<lparr>curr_task := Some t, tr := tss_sel (tasks s t)\<rparr>)"

lemma task_dispatch_rep:
  assumes "sched_rep s R S"
  shows "task_dispatch s = Some (dispatched (runner R) s)"
proof -
  have "sched_rep (s\<lparr>eflags := f\<rparr>) R S" for f using assms by simp
  note n = next_run_rep[OF this]
  show ?thesis
    by (cases "curr_task s = Some (runner R)")
      (auto simp: task_dispatch_def n dispatched_def upd_task_def task_switch_from_to_def
        switch_to_tss_def Let_def)
qed

text \<open>What the handlers leave alone, a dispatch included.\<close>

definition ctx_frame :: "'m sched_scheme \<Rightarrow> 'm sched_scheme \<Rightarrow> bool" where
  "ctx_frame s s' \<longleftrightarrow> wait_links s' = wait_links s \<and> all_links s' = all_links s
     \<and> task_list s' = task_list s \<and> eflags s' = eflags s \<and> sched.more s' = sched.more s"

section \<open>What the handlers do to the queues\<close>

text \<open>The effect of one clock tick on the tasks of the sleep queue.\<close>

definition due :: "(task_ref \<Rightarrow> task_t) \<Rightarrow> task_ref \<Rightarrow> bool" where
  "due tk t \<longleftrightarrow> sleep_ticks (tk t) = 1"

definition ticked :: "task_ref list \<Rightarrow> (task_ref \<Rightarrow> task_t) \<Rightarrow> task_ref \<Rightarrow> task_t" where
  "ticked L tk t =
    (if t \<in> set L
     then (tk t)\<lparr>sleep_ticks := sleep_ticks (tk t) - 1,
       tstate := (if due tk t then TASK_READY else tstate (tk t))\<rparr>
     else tk t)"

lemma ticked_Nil [simp]: "ticked [] tk = tk"
  by (simp add: fun_eq_iff ticked_def)

lemma ticked_Cons:
  "t \<notin> set L \<Longrightarrow>
   ticked L (tk(t := (tk t)\<lparr>sleep_ticks := sleep_ticks (tk t) - 1,
       tstate := (if due tk t then TASK_READY else tstate (tk t))\<rparr>)) = ticked (t # L) tk"
  by (rule ext) (auto simp: ticked_def due_def)

lemma filter_due_upd:
  "t \<notin> set L \<Longrightarrow> filter (due (tk(t := k))) L = filter (due tk) L"
  "t \<notin> set L \<Longrightarrow> filter (\<lambda>x. \<not> due (tk(t := k)) x) L = filter (\<lambda>x. \<not> due tk x) L"
  by (intro filter_cong; force simp: due_def)+

lemma sched_rep_next:
  assumes "sched_rep s R (K @ t # L)"
  shows "list_node_next (run_links s) t = hd_opt L None"
  using assms by (simp add: sched_rep_def dll_def list_node_next_def)

lemma wake_ready_rep:
  assumes "sched_rep s R (K @ t # L)"
  shows "\<exists>s'. task_set_ready t (task_set_wakeup t s) = Some s' \<and> sched_rep s' (R @ [t]) (K @ L)
    \<and> sched_frame s s' \<and> tasks s' = (tasks s)(t := (tasks s t)\<lparr>tstate := TASK_READY\<rparr>)"
proof -
  note f = sched_rep_facts[OF assms]
  have r: "remove1 t (K @ t # L) = K @ L" using f(5) by (simp add: remove1_split)
  note w = set_wakeup_rep[OF assms, of t, simplified r, simplified]
  show ?thesis
    using set_ready_rep[OF w[THEN conjunct1], of t] w f by (auto intro: sched_frame_trans)
qed

lemma tick_sleepers_rep:
  assumes "sched_rep s R (K @ L)"
  shows "\<exists>s'. tick_sleepers (hd_opt L None) s = Some s'
    \<and> sched_rep s' (R @ filter (due (tasks s)) L) (K @ filter (\<lambda>x. \<not> due (tasks s) x) L)
    \<and> sched_frame s s' \<and> tasks s' = ticked L (tasks s)"
  using assms
proof (induction L arbitrary: K R s)
  case Nil
  then show ?case by (simp add: tick_sleepers.simps)
next
  case (Cons t L)
  let ?s1 = "upd_task t (\<lambda>k. k\<lparr>sleep_ticks := sleep_ticks k - 1\<rparr>) s"
  have rep1: "sched_rep ?s1 R (K @ t # L)" using Cons.prems by simp
  have t: "t \<notin> set L" using sched_rep_facts(5)[OF Cons.prems] by simp
  note nx = sched_rep_next[OF Cons.prems]
  note tc = ticked_Cons[OF t, of "tasks s"]
  show ?case
  proof (cases "due (tasks s) t")
    case True
    obtain s2 where w: "task_set_ready t (task_set_wakeup t ?s1) = Some s2"
      "sched_rep s2 (R @ [t]) (K @ L)" "sched_frame ?s1 s2"
      "tasks s2 = (tasks ?s1)(t := (tasks ?s1 t)\<lparr>tstate := TASK_READY\<rparr>)"
      using wake_ready_rep[OF rep1] by blast
    obtain s3 where "tick_sleepers (hd_opt L None) s2 = Some s3"
      "sched_rep s3 ((R @ [t]) @ filter (due (tasks s2)) L) (K @ filter (\<lambda>x. \<not> due (tasks s2) x) L)"
      "sched_frame s2 s3" "tasks s3 = ticked L (tasks s2)"
      using Cons.IH[OF w(2)] by blast
    with w True nx t tc show ?thesis
      by (auto simp: tick_sleepers.simps[of "Some t"] due_def[of "tasks s" t] Let_def
          filter_due_upd intro: sched_frame_trans)
  next
    case False
    have "sched_rep ?s1 R ((K @ [t]) @ L)" using rep1 by simp
    then obtain s3 where "tick_sleepers (hd_opt L None) ?s1 = Some s3"
      "sched_rep s3 (R @ filter (due (tasks ?s1)) L) ((K @ [t]) @ filter (\<lambda>x. \<not> due (tasks ?s1) x) L)"
      "sched_frame ?s1 s3" "tasks s3 = ticked L (tasks ?s1)"
      using Cons.IH by blast
    with False nx t tc show ?thesis
      by (auto simp: tick_sleepers.simps[of "Some t"] due_def[of "tasks s" t] Let_def
          filter_due_upd)
  qed
qed

lemma dispatched_facts [simp]:
  "sched_rep (dispatched t s) R S = sched_rep s R S"
  "curr_task (dispatched t s) = Some t"
  "sleep_ticks (tasks (dispatched t s) u) = sleep_ticks (tasks s u)"
  "slice_ticks (tasks (dispatched t s) u) = slice_ticks (tasks s u)"
  "time_ticks (tasks (dispatched t s) u) = time_ticks (tasks s u)"
  "tss_sel (tasks (dispatched t s) u) = tss_sel (tasks s u)"
  "eflags (dispatched t s) = eflags s"
  "wait_links (dispatched t s) = wait_links s"
  "all_links (dispatched t s) = all_links s"
  "task_list (dispatched t s) = task_list s"
  "app_code_sel (dispatched t s) = app_code_sel s"
  "app_data_sel (dispatched t s) = app_data_sel s"
  "sched.more (dispatched t s) = sched.more s"
  by (auto simp: dispatched_def)

text \<open>
  \<open>tr_ok s\<close>: the task register follows the current task.  It is what dispatch needs to
  leave \<open>tr\<close> alone when the current task stays.
\<close>

definition tr_ok :: "'m sched_scheme \<Rightarrow> bool" where
  "tr_ok s \<longleftrightarrow> (\<forall>t. curr_task s = Some t \<longrightarrow> tr s = tss_sel (tasks s t))"

lemma on_cpu_dispatched: "tr_ok s \<Longrightarrow> on_cpu (dispatched (runner R) s) R"
  by (auto simp: on_cpu_def tr_ok_def dispatched_def)

lemma on_cpu_tr_ok: "on_cpu s R \<Longrightarrow> tr_ok s"
  by (auto simp: on_cpu_def tr_ok_def)

lemma rotate1_remove1:
  "R \<noteq> [] \<Longrightarrow> remove1 (runner R) R @ [runner R] = rotate1 R"
  by (cases R) auto

text \<open>Blocking and readying the head of the ready queue moves it to the end.\<close>

lemma block_ready_rep:
  assumes "sched_rep s R S"
  shows "\<exists>s'. task_set_ready (runner R) (task_set_block (runner R) s) = Some s'
    \<and> sched_rep s' (rotate1 R) S \<and> sched_frame s s'
    \<and> tasks s' = (if R = [] then tasks s
        else (tasks s)(runner R := (tasks s (runner R))\<lparr>tstate := TASK_READY\<rparr>))"
proof (cases R)
  case Nil
  with assms show ?thesis by (auto simp: task_set_ready_def task_set_block_def)
next
  case (Cons t R')
  note f = sched_rep_facts[OF assms]
  have b: "sched_rep (task_set_block t s) R' S" "sched_frame s (task_set_block t s)"
    "tasks (task_set_block t s) = tasks s"
    using set_block_rep[OF assms, of t] Cons by auto
  then show ?thesis
    using set_ready_rep[OF b(1), of t] f Cons by (auto intro: sched_frame_trans)
qed

lemma tick_sleepers_list:
  assumes "sched_rep s R S"
  shows "\<exists>s'. tick_sleepers (list_first (sleep_list s)) s = Some s'
    \<and> sched_rep s' (R @ filter (due (tasks s)) S) (filter (\<lambda>x. \<not> due (tasks s) x) S)
    \<and> sched_frame s s' \<and> tasks s' = ticked S (tasks s)"
  using tick_sleepers_rep[of s R "[]" S] assms by (simp add: sched_rep_facts(3))

lemma time_tick_rep:
  assumes rep: "sched_rep s R S" and cpu: "on_cpu s R"
  defines "c \<equiv> runner R"
  defines "R1 \<equiv> (if slice_ticks (tasks s c) = 1 then rotate1 R else R)"
  defines "R2 \<equiv> R1 @ filter (due (tasks s)) S"
  shows "\<exists>s'. task_time_tick s = Some s'
    \<and> sched_rep s' R2 (filter (\<lambda>x. \<not> due (tasks s) x) S) \<and> on_cpu s' R2
    \<and> (\<forall>t. sleep_ticks (tasks s' t) = sleep_ticks (tasks s t) - (if t \<in> set S then 1 else 0))
    \<and> (\<forall>t. slice_ticks (tasks s' t) =
          (if t \<noteq> c then slice_ticks (tasks s t)
           else if slice_ticks (tasks s t) = 1 then time_ticks (tasks s t)
           else slice_ticks (tasks s t) - 1))
    \<and> (\<forall>t. time_ticks (tasks s' t) = time_ticks (tasks s t)) \<and> ctx_frame s s'"
proof -
  note f = sched_rep_facts[OF rep]
  have cS: "c \<notin> set S" unfolding c_def using f by (cases R) auto
  have cur: "task_current s = Some c" using cpu by (simp add: on_cpu_def task_current_def c_def)
  define s1 where "s1 = upd_task c (\<lambda>k. k\<lparr>slice_ticks := slice_ticks k - 1\<rparr>) s"
  define s2 where "s2 = upd_task c (\<lambda>k. k\<lparr>slice_ticks := time_ticks k\<rparr>) s1"
  have r1: "sched_rep s1 R S" and r2: "sched_rep s2 R S" using rep by (simp_all add: s1_def s2_def)
  obtain s3 where s3: "(if slice_ticks (tasks s1 c) = 0
        then task_set_ready c (task_set_block c s2) else Some s1) = Some s3"
    "sched_rep s3 R1 S" "sched_frame s s3"
    "\<forall>t. sleep_ticks (tasks s3 t) = sleep_ticks (tasks s t)"
    "\<forall>t. time_ticks (tasks s3 t) = time_ticks (tasks s t)"
    "\<forall>t. tss_sel (tasks s3 t) = tss_sel (tasks s t)"
    "\<forall>t. slice_ticks (tasks s3 t) =
          (if t \<noteq> c then slice_ticks (tasks s t)
           else if slice_ticks (tasks s t) = 1 then time_ticks (tasks s t)
           else slice_ticks (tasks s t) - 1)"
    using block_ready_rep[OF r2] r1
    by (cases "slice_ticks (tasks s c) = 1") (auto simp: c_def R1_def s1_def s2_def split: if_splits)
  have dq: "due (tasks s3) = due (tasks s)" using s3(4) by (simp add: fun_eq_iff due_def)
  obtain s4 where s4: "tick_sleepers (list_first (sleep_list s3)) s3 = Some s4"
    "sched_rep s4 R2 (filter (\<lambda>x. \<not> due (tasks s) x) S)" "sched_frame s3 s4"
    "tasks s4 = ticked S (tasks s3)"
    using tick_sleepers_list[OF s3(2)] unfolding dq R2_def by blast
  have tick: "task_time_tick s = Some (dispatched (runner R2) s4)"
    using s3(1) s4(1) task_dispatch_rep[OF s4(2)]
    by (auto simp: task_time_tick_def cur Let_def s1_def s2_def split: if_splits)
  have "tr_ok s4"
    using on_cpu_tr_ok[OF cpu] s3(3,6) s4(3,4) by (auto simp: tr_ok_def sched_frame_def ticked_def)
  with s3 s4 tick show ?thesis
    by (auto simp: on_cpu_dispatched sched_frame_def ctx_frame_def ticked_def)
qed

lemma rotate1_short: "length R \<le> 1 \<Longrightarrow> rotate1 R = R"
  by (cases R) auto

lemma sched_frame_tr_ok:
  "sched_frame s s' \<Longrightarrow> (\<And>t. tss_sel (tasks s' t) = tss_sel (tasks s t)) \<Longrightarrow> tr_ok s \<Longrightarrow> tr_ok s'"
  by (simp add: sched_frame_def tr_ok_def)

lemma yeild_rep:
  assumes rep: "sched_rep s R S" and cpu: "on_cpu s R"
  shows "\<exists>s'. sys_yeild s = Some (0, s') \<and> sched_rep s' (rotate1 R) S \<and> on_cpu s' (rotate1 R)
    \<and> ctx_frame s s' \<and> (\<forall>t. sleep_ticks (tasks s' t) = sleep_ticks (tasks s t)
      \<and> slice_ticks (tasks s' t) = slice_ticks (tasks s t)
      \<and> time_ticks (tasks s' t) = time_ticks (tasks s t))"
proof (cases "length R > 1")
  case False
  then show ?thesis
    using rep cpu sched_rep_facts(1)[OF rep]
    by (auto simp: sys_yeild_def Let_def rotate1_short on_cpu_def ctx_frame_def)
next
  case True
  define s1 where "s1 = s\<lparr>eflags := (eflags s)(curr_task s := eflags s (curr_task s) AND NOT EFLAGS_IF)\<rparr>"
  have r1: "sched_rep s1 R S" using rep by (simp add: s1_def)
  obtain s2 where s2: "task_set_ready (runner R) (task_set_block (runner R) s1) = Some s2"
    "sched_rep s2 (rotate1 R) S" "sched_frame s1 s2"
    "\<And>t. tss_sel (tasks s2 t) = tss_sel (tasks s t)"
    "\<And>t. sleep_ticks (tasks s2 t) = sleep_ticks (tasks s t)
      \<and> slice_ticks (tasks s2 t) = slice_ticks (tasks s t)
      \<and> time_ticks (tasks s2 t) = time_ticks (tasks s t)"
    using block_ready_rep[OF r1] by (auto simp: s1_def split: if_splits)
  have "tr_ok s1" using on_cpu_tr_ok[OF cpu] by (simp add: tr_ok_def s1_def)
  then have "tr_ok s2" using s2 by (auto simp: s1_def intro: sched_frame_tr_ok)
  then have d: "on_cpu (dispatched (runner (rotate1 R)) s2) (rotate1 R)"
    by (rule on_cpu_dispatched)
  have "sys_yeild s = Some (0, (dispatched (runner (rotate1 R)) s2)\<lparr>eflags := eflags s\<rparr>)"
    using True sched_rep_facts(1)[OF rep] cpu s2 task_dispatch_rep[OF s2(2)]
    by (auto simp: sys_yeild_def Let_def on_cpu_def task_current_def s1_def sched_frame_def)
  with s2 d show ?thesis by (auto simp: on_cpu_def ctx_frame_def sched_frame_def s1_def)
qed

definition sleep_ms_ticks :: "u32 \<Rightarrow> u32" where
  "sleep_ms_ticks ms = (ms + OS_TICKS_MS - 1) div OS_TICKS_MS"

lemma sleep_rep:
  fixes ms :: u32
  assumes rep: "sched_rep s (c # R) S" and cpu: "on_cpu s (c # R)"
  defines "n \<equiv> sleep_ms_ticks ms"
  defines "S' \<equiv> (if n = 0 then S else S @ [c])"
  shows "\<exists>s'. sys_sleep ms s = Some s' \<and> sched_rep s' R S' \<and> on_cpu s' R
    \<and> (n \<noteq> 0 \<longrightarrow> sleep_ticks (tasks s' c) = to_int32 (uint n) \<and> tstate (tasks s' c) = TASK_SLEEP)
    \<and> (\<forall>t. t \<noteq> c \<longrightarrow> sleep_ticks (tasks s' t) = sleep_ticks (tasks s t))
    \<and> (\<forall>t. slice_ticks (tasks s' t) = slice_ticks (tasks s t)
        \<and> time_ticks (tasks s' t) = time_ticks (tasks s t)) \<and> ctx_frame s s'"
proof -
  note f = sched_rep_facts[OF rep]
  define s1 where "s1 = s\<lparr>eflags := (eflags s)(Some c := eflags s (Some c) AND NOT EFLAGS_IF)\<rparr>"
  have cur: "curr_task s = Some c" "curr_task s1 = Some c" using cpu by (simp_all add: on_cpu_def s1_def)
  have r1: "sched_rep s1 (c # R) S" using rep by (simp add: s1_def)
  have b: "sched_rep (task_set_block c s1) R S" "sched_frame s1 (task_set_block c s1)"
    "tasks (task_set_block c s1) = tasks s"
    using set_block_rep[OF r1, of c] by (auto simp: s1_def)
  obtain s2 where s2: "task_set_sleep c n (task_set_block c s1) = Some s2"
    "sched_rep s2 R S'" "sched_frame s1 s2" "\<And>t. tss_sel (tasks s2 t) = tss_sel (tasks s t)"
    "n \<noteq> 0 \<Longrightarrow> sleep_ticks (tasks s2 c) = to_int32 (uint n) \<and> tstate (tasks s2 c) = TASK_SLEEP"
    "\<And>t. t \<noteq> c \<Longrightarrow> sleep_ticks (tasks s2 t) = sleep_ticks (tasks s t)"
    "\<And>t. slice_ticks (tasks s2 t) = slice_ticks (tasks s t)
        \<and> time_ticks (tasks s2 t) = time_ticks (tasks s t)"
  proof (cases "n = 0")
    case True
    then show ?thesis using b that[of "task_set_block c s1"]
      by (auto simp: task_set_sleep_def S'_def)
  next
    case False
    obtain s' where "task_set_sleep c n (task_set_block c s1) = Some s'"
      "sched_rep s' R (S @ [c])" "sched_frame (task_set_block c s1) s'"
      "tasks s' = (tasks s)(c := (tasks s c)\<lparr>sleep_ticks := to_int32 (uint n), tstate := TASK_SLEEP\<rparr>)"
      using set_sleep_rep[OF b(1), of c n] b(3) f False by (auto simp: word_greater_zero_iff)
    with False show ?thesis
      using that[of s'] sched_frame_trans[OF b(2)] by (simp add: S'_def)
  qed
  have "tr_ok s1" using on_cpu_tr_ok[OF cpu] by (simp add: tr_ok_def s1_def)
  then have "tr_ok s2" using s2 by (auto simp: s1_def intro: sched_frame_tr_ok)
  then have d: "on_cpu (dispatched (runner R) s2) R" by (rule on_cpu_dispatched)
  have cs2: "curr_task s2 = Some c" "eflags s2 = eflags s1" using s2(3) cur by (simp_all add: sched_frame_def)
  have "sys_sleep ms s = Some ((dispatched (runner R) s2)\<lparr>eflags := eflags s\<rparr>)"
    using cur s2(1) cs2 task_dispatch_rep[OF s2(2)]
    by (auto simp: sys_sleep_def Let_def n_def sleep_ms_ticks_def s1_def)
  moreover have "runner R \<noteq> c" using f by (cases R) auto
  ultimately show ?thesis
    using s2 cs2 d by (auto simp: on_cpu_def dispatched_def upd_task_def ctx_frame_def
        sched_frame_def s1_def)
qed

section \<open>Runs of clock ticks\<close>

fun run_ticks :: "nat \<Rightarrow> 'm sched_scheme \<Rightarrow> 'm sched_scheme option" where
  "run_ticks 0 s = Some s"
| "run_ticks (Suc n) s = do { s \<leftarrow> task_time_tick s; run_ticks n s }"

lemma run_ticks_sleeping:
  assumes "sched_rep s R S" and "on_cpu s R" and "t \<in> set S" and "sleep_ticks (tasks s t) = int n"
    and "k < n"
  shows "\<exists>s' R' S'. run_ticks k s = Some s' \<and> sched_rep s' R' S' \<and> on_cpu s' R' \<and> t \<in> set S'
    \<and> sleep_ticks (tasks s' t) = int (n - k)"
  using assms
proof (induction k arbitrary: s R S n)
  case 0
  then show ?case by auto
next
  case (Suc k)
  obtain s' R2 where s': "task_time_tick s = Some s'" "on_cpu s' R2"
    "sched_rep s' R2 (filter (\<lambda>x. \<not> due (tasks s) x) S)"
    "sleep_ticks (tasks s' t) = sleep_ticks (tasks s t) - 1"
    using time_tick_rep[OF Suc.prems(1,2)] Suc.prems(3) by auto
  have "t \<in> set (filter (\<lambda>x. \<not> due (tasks s) x) S)" "sleep_ticks (tasks s' t) = int (n - 1)"
    using Suc.prems s' by (auto simp: due_def)
  with Suc.IH[OF s'(3,2), of "n - 1"] Suc.prems(5) s'(1) show ?case by auto
qed

lemma run_ticks_Suc:
  "run_ticks k s = Some s' \<Longrightarrow> run_ticks (Suc k) s = task_time_tick s'"
proof (induction k arbitrary: s)
  case 0
  then show ?case by (simp add: bind_eq_Some_conv split: bind_splits)
next
  case (Suc k)
  from Suc.prems obtain s1 where s1: "task_time_tick s = Some s1" "run_ticks k s1 = Some s'"
    by (auto simp: bind_eq_Some_conv)
  have "run_ticks (Suc (Suc k)) s = run_ticks (Suc k) s1" using s1(1) by simp
  also have "\<dots> = task_time_tick s'" by (rule Suc.IH[OF s1(2)])
  finally show ?case .
qed

lemma run_ticks_woken:
  assumes "sched_rep s R S" and "on_cpu s R" and "t \<in> set S" and "sleep_ticks (tasks s t) = int n"
    and "0 < n"
  shows "\<exists>s' R' S'. run_ticks n s = Some s' \<and> sched_rep s' R' S' \<and> on_cpu s' R' \<and> t \<in> set R'"
proof -
  obtain s1 R1 S1 where s1: "run_ticks (n - 1) s = Some s1" "sched_rep s1 R1 S1" "on_cpu s1 R1"
    "t \<in> set S1" "sleep_ticks (tasks s1 t) = 1"
    using run_ticks_sleeping[OF assms(1-4), of "n - 1"] assms(5) by auto
  then have "run_ticks n s = task_time_tick s1"
    using run_ticks_Suc[OF s1(1)] assms(5) by simp
  moreover have "t \<in> set (filter (due (tasks s1)) S1)" using s1 by (simp add: due_def)
  ultimately show ?thesis using time_tick_rep[OF s1(2,3)] by fastforce
qed

text \<open>
  The remaining slices of the tasks ahead in the ready queue: the number of ticks until
  the next one is dispatched.
\<close>

definition slices_ahead :: "(task_ref \<Rightarrow> task_t) \<Rightarrow> task_ref list \<Rightarrow> int" where
  "slices_ahead tk A = sum_list (map (\<lambda>t. slice_ticks (tk t)) A)"

lemma run_ticks_round_robin:
  assumes "sched_rep s (A @ t # B) S" and "on_cpu s (A @ t # B)"
    and "\<And>u. u \<in> set A \<Longrightarrow> 0 < slice_ticks (tasks s u)" and "slices_ahead (tasks s) A = int n"
  shows "\<exists>s' B' S'. run_ticks n s = Some s' \<and> sched_rep s' (t # B') S' \<and> on_cpu s' (t # B')"
  using assms
proof (induction n arbitrary: s A B S)
  case 0
  have "A = []"
  proof (cases A)
    case (Cons u A')
    then have "0 < slice_ticks (tasks s u)" "\<And>x. x \<in> set A' \<Longrightarrow> 0 \<le> slice_ticks (tasks s x)"
      using "0.prems"(3) by (auto simp: order_less_imp_le)
    moreover from this(2) have "0 \<le> slices_ahead (tasks s) A'"
      by (auto simp: slices_ahead_def intro!: sum_list_nonneg)
    ultimately have False using "0.prems"(4) Cons by (auto simp: slices_ahead_def)
    then show ?thesis ..
  qed simp
  with "0.prems" show ?case by auto
next
  case (Suc n)
  then obtain u A' where A: "A = u # A'" by (cases A) (auto simp: slices_ahead_def)
  have d: "u \<notin> set A'" "u \<noteq> t" using sched_rep_facts(4)[OF Suc.prems(1)] A by auto
  let ?X = "filter (due (tasks s)) S"
  define A2 where "A2 = (if slice_ticks (tasks s u) = 1 then A' else A)"
  define B2 where "B2 = (if slice_ticks (tasks s u) = 1 then B @ [u] @ ?X else B @ ?X)"
  obtain s' where s': "task_time_tick s = Some s'" "on_cpu s' (A2 @ t # B2)"
    "sched_rep s' (A2 @ t # B2) (filter (\<lambda>x. \<not> due (tasks s) x) S)"
    "\<And>x. x \<noteq> u \<Longrightarrow> slice_ticks (tasks s' x) = slice_ticks (tasks s x)"
    "slice_ticks (tasks s u) \<noteq> 1 \<Longrightarrow> slice_ticks (tasks s' u) = slice_ticks (tasks s u) - 1"
    using time_tick_rep[OF Suc.prems(1,2)] A
    by (cases "slice_ticks (tasks s u) = 1") (auto simp: A2_def B2_def)
  have sl: "slices_ahead (tasks s') A' = slices_ahead (tasks s) A'"
  proof -
    have "slice_ticks (tasks s' x) = slice_ticks (tasks s x)" if "x \<in> set A'" for x
      using that d(1) s'(4)[of x] by auto
    then show ?thesis by (simp add: slices_ahead_def cong: map_cong)
  qed
  have "slices_ahead (tasks s') A2 = int n"
    using sl s'(5) Suc.prems(4) A by (auto simp: A2_def slices_ahead_def)
  moreover have "0 < slice_ticks (tasks s' x)" if "x \<in> set A2" for x
    using that Suc.prems(3)[of x] s'(4,5) A d by (cases "x = u") (auto simp: A2_def split: if_splits)
  ultimately show ?case using Suc.IH[OF s'(3,2)] s'(1) by auto
qed

section \<open>A concrete scheduler state\<close>

text \<open>
  Two ready tasks and one sleeper, with their links written out; the shell (slot 0) has
  just been sent to sleep for two ticks.
\<close>

definition blank_tss :: tss_t where
  "blank_tss = \<lparr>ts_esp0 = 0, ts_ss0 = 0, ts_cr3 = 0, ts_eip = 0, ts_eflags = 0, ts_eax = 0,
     ts_ecx = 0, ts_edx = 0, ts_ebx = 0, ts_esp = 0, ts_ebp = 0, ts_esi = 0, ts_edi = 0,
     ts_es = 0, ts_cs = 0, ts_ss = 0, ts_ds = 0, ts_fs = 0, ts_gs = 0\<rparr>"

definition blank_task :: task_t where
  "blank_task = \<lparr>tstate = TASK_CREATED, tid = 0, parent = None, heap_start = 0, heap_end = 0,
     sleep_ticks = 0, time_ticks = 10, slice_ticks = 10, status = 0,
     file_table = replicate 128 None, tname = [], tss = blank_tss, tss_sel = 0\<rparr>"

definition blank_links :: "task_ref links" where
  "blank_links = \<lparr>pre = (\<lambda>_. None), nxt = (\<lambda>_. None)\<rparr>"

definition blank_list :: "task_ref list_t" where
  "blank_list = \<lparr>lfirst = None, llast = None, lcount = 0\<rparr>"

definition demo_sched :: sched where
  "demo_sched = \<lparr>
     tasks = (\<lambda>t. blank_task\<lparr>sleep_ticks := (if t = Table_task 0 then 2 else 0),
        slice_ticks := (if t = First_task then 3 else 10)\<rparr>),
     run_links = \<lparr>pre = (\<lambda>t. if t = Table_task 1 then Some First_task else None),
        nxt = (\<lambda>t. if t = First_task then Some (Table_task 1) else None)\<rparr>,
     wait_links = blank_links, all_links = blank_links, curr_task = Some First_task,
     ready_list = \<lparr>lfirst = Some First_task, llast = Some (Table_task 1), lcount = 2\<rparr>,
     task_list = blank_list,
     sleep_list = \<lparr>lfirst = Some (Table_task 0), llast = Some (Table_task 0), lcount = 1\<rparr>,
     app_code_sel = 0, app_data_sel = 0, eflags = (\<lambda>_. 514), tr = 0\<rparr>"

lemma demo_sched_rep: "sched_rep demo_sched [First_task, Table_task 1] [Table_task 0]"
  by (simp add: sched_rep_def demo_sched_def dll_def)

lemma demo_sched_cpu: "on_cpu demo_sched [First_task, Table_task 1]"
  by (simp add: on_cpu_def demo_sched_def blank_task_def)

end
