(* ===== verification/Ipc.thy ===== *)
theory Ipc
  imports Sched
begin

text \<open>
  The recursive mutex of \<^verbatim>\<open>kernel/ipc/mutex.c\<close> and the counting semaphore of
  \<^verbatim>\<open>kernel/ipc/sem.c\<close>, over the scheduler state.  An operation takes the object and
  the scheduler state and returns both; the waiting queue is threaded through the
  \<open>wait_node\<close> of the tasks.  Blocking ends with a dispatch: the returned state is the one
  in which the next task runs, and the caller is on the object's queue.
\<close>

section \<open>Data and operations\<close>

record mutex_t =
  locked_count :: int
  owner :: "task_ref option"
  wait_list :: "task_ref list_t"

record sem_t =
  sem_value :: int
  sem_list :: "task_ref list_t"

definition mutex_init :: "mutex_t \<Rightarrow> mutex_t" where
  "mutex_init m = m\<lparr>locked_count := 0, owner := None, wait_list := list_init (wait_list m)\<rparr>"

definition mutex_lock ::
    "mutex_t \<Rightarrow> 'm sched_scheme \<Rightarrow> (mutex_t \<times> 'm sched_scheme) option" where
  "mutex_lock m s =
    (let me = curr_task s;
         (st, s) = irq_enter_protection s;
         cur = task_current s
     in do {
       (m, s) \<leftarrow>
         (if locked_count m = 0
          then Some (m\<lparr>locked_count := locked_count m + 1, owner := cur\<rparr>, s)
          else if owner m = cur
          then Some (m\<lparr>locked_count := locked_count m + 1\<rparr>, s)
          else do {
            c \<leftarrow> cur;
            let s = task_set_block c s;
            (l, h) \<leftarrow> list_insert_last (wait_list m) (wait_links s) c;
            s \<leftarrow> task_dispatch (s\<lparr>wait_links := h\<rparr>);
            Some (m\<lparr>wait_list := l\<rparr>, s)
          });
       Some (m, irq_leave_protection me st s)
     })"

definition select_node ::
    "mutex_t \<Rightarrow> 'm sched_scheme \<Rightarrow> (task_ref option \<times> mutex_t \<times> 'm sched_scheme) option" where
  "select_node m s =
    do {
      (n, l, h) \<leftarrow> list_remove_first (wait_list m) (wait_links s);
      Some (n, m\<lparr>wait_list := l\<rparr>, s\<lparr>wait_links := h\<rparr>)
    }"

definition mutex_unlock ::
    "mutex_t \<Rightarrow> 'm sched_scheme \<Rightarrow> (mutex_t \<times> 'm sched_scheme) option" where
  "mutex_unlock m s =
    (let me = curr_task s;
         (st, s) = irq_enter_protection s;
         cur = task_current s
     in do {
       (m, s) \<leftarrow>
         (if owner m = cur
          then let m = m\<lparr>locked_count := locked_count m - 1\<rparr>
            in if locked_count m = 0
               then let m = m\<lparr>owner := None\<rparr>
                 in if list_count (wait_list m) > 0
                    then do {
                      (n, m, s) \<leftarrow> select_node m s;
                      t \<leftarrow> n;
                      s \<leftarrow> task_set_ready t s;
                      let m = m\<lparr>locked_count := 1, owner := Some t\<rparr>;
                      s \<leftarrow> task_dispatch s;
                      Some (m, s)
                    }
                    else Some (m, s)
               else Some (m, s)
          else Some (m, s));
       Some (m, irq_leave_protection me st s)
     })"

definition sem_init :: "sem_t \<Rightarrow> int \<Rightarrow> sem_t" where
  "sem_init m init_count = m\<lparr>sem_value := init_count, sem_list := list_init (sem_list m)\<rparr>"

definition sem_wait ::
    "sem_t \<Rightarrow> 'm sched_scheme \<Rightarrow> (sem_t \<times> 'm sched_scheme) option" where
  "sem_wait m s =
    (let me = curr_task s;
         (st, s) = irq_enter_protection s
     in do {
       (m, s) \<leftarrow>
         (if sem_value m > 0
          then Some (m\<lparr>sem_value := sem_value m - 1\<rparr>, s)
          else do {
            c \<leftarrow> task_current s;
            let s = task_set_block c s;
            (l, h) \<leftarrow> list_insert_last (sem_list m) (wait_links s) c;
            s \<leftarrow> task_dispatch (s\<lparr>wait_links := h\<rparr>);
            Some (m\<lparr>sem_list := l\<rparr>, s)
          });
       Some (m, irq_leave_protection me st s)
     })"

definition sem_notify ::
    "sem_t \<Rightarrow> 'm sched_scheme \<Rightarrow> (sem_t \<times> 'm sched_scheme) option" where
  "sem_notify m s =
    (let me = curr_task s;
         (st, s) = irq_enter_protection s
     in do {
       (m, s) \<leftarrow>
         (if list_count (sem_list m) > 0
          then do {
            (n, l, h) \<leftarrow> list_remove_first (sem_list m) (wait_links s);
            t \<leftarrow> n;
            s \<leftarrow> task_set_ready t (s\<lparr>wait_links := h\<rparr>);
            s \<leftarrow> task_dispatch s;
            Some (m\<lparr>sem_list := l\<rparr>, s)
          }
          else Some (m\<lparr>sem_value := sem_value m + 1\<rparr>, s));
       Some (m, irq_leave_protection me st s)
     })"

definition sem_count :: "sem_t \<Rightarrow> 'm sched_scheme \<Rightarrow> int \<times> 'm sched_scheme" where
  "sem_count m s =
    (let me = curr_task s;
         (st, s) = irq_enter_protection s;
         n = sem_value m
     in (n, irq_leave_protection me st s))"

text \<open>
  A call that blocks hands the processor over; the argument \<open>resume\<close> of the code that goes on
  behind it gives the state in which the caller runs again (what the other tasks and the
  interrupt handlers did in between), or \<open>None\<close> if it never does.  \<open>resumed\<close> asks it only
  when another task is running.
\<close>

type_synonym 's resume = "'s \<Rightarrow> 's option"

definition resumed :: "'m sched_scheme resume \<Rightarrow> task_ref option \<Rightarrow> 'm sched_scheme \<Rightarrow> 'm sched_scheme option" where
  "resumed resume me s = (if curr_task s = me then Some s else resume s)"

section \<open>Blocking on a queue and being woken from it\<close>

abbreviation cli_state :: "'m sched_scheme \<Rightarrow> 'm sched_scheme" where
  "cli_state s \<equiv> s\<lparr>eflags := (eflags s)(curr_task s := eflags s (curr_task s) AND NOT EFLAGS_IF)\<rparr>"

text \<open>What the IPC objects leave alone outside the queues.\<close>

definition ipc_frame :: "'m sched_scheme \<Rightarrow> 'm sched_scheme \<Rightarrow> bool" where
  "ipc_frame s s' \<longleftrightarrow> all_links s' = all_links s \<and> task_list s' = task_list s
     \<and> sched.more s' = sched.more s
     \<and> (\<forall>t. tss_sel (tasks s' t) = tss_sel (tasks s t)
         \<and> sleep_ticks (tasks s' t) = sleep_ticks (tasks s t)
         \<and> slice_ticks (tasks s' t) = slice_ticks (tasks s t)
         \<and> time_ticks (tasks s' t) = time_ticks (tasks s t))"

lemma ipc_frame_refl [simp]: "ipc_frame s s"
  by (simp add: ipc_frame_def)

lemma block_on_rep:
  assumes rep: "sched_rep s (c # R) S" and "dll (wait_links s) wl W" and "c \<notin> set W" and "tr_ok s"
  shows "\<exists>l h s'. list_insert_last wl (wait_links (task_set_block c s)) c = Some (l, h)
    \<and> task_dispatch ((task_set_block c s)\<lparr>wait_links := h\<rparr>) = Some s'
    \<and> sched_rep s' R S \<and> on_cpu s' R \<and> wait_links s' = h \<and> dll h l (W @ [c])
    \<and> same_links (insert c (set W)) (wait_links s) h \<and> eflags s' = eflags s \<and> ipc_frame s s'"
proof -
  let ?s1 = "task_set_block c s"
  have b: "sched_rep ?s1 R S" "sched_frame s ?s1" "tasks ?s1 = tasks s"
    using set_block_rep[OF rep, of c] by auto
  obtain l h where i: "list_insert_last wl (wait_links s) c = Some (l, h)" "dll h l (W @ [c])"
    "same_links (insert c (set W)) (wait_links s) h"
    using kq.ins_law[OF assms(2,3)] by blast
  let ?s2 = "?s1\<lparr>wait_links := h\<rparr>"
  have d: "task_dispatch ?s2 = Some (dispatched (runner R) ?s2)"
    using b(1) by (intro task_dispatch_rep) simp
  have "tr_ok ?s2" using assms(4) b by (simp add: sched_frame_def tr_ok_def)
  then have "on_cpu (dispatched (runner R) ?s2) R" by (rule on_cpu_dispatched)
  with i d b show ?thesis by (simp add: sched_frame_def ipc_frame_def)
qed

lemma wake_from_rep:
  assumes rep: "sched_rep s R S" and "dll (wait_links s) wl (w # W)"
    and "w \<notin> set R" and "w \<notin> set S" and "w \<noteq> Idle_task" and "tr_ok s"
  shows "\<exists>l h s1 s'. list_remove_first wl (wait_links s) = Some (Some w, l, h)
    \<and> task_set_ready w (s\<lparr>wait_links := h\<rparr>) = Some s1 \<and> task_dispatch s1 = Some s'
    \<and> sched_rep s' (R @ [w]) S \<and> on_cpu s' (R @ [w]) \<and> wait_links s' = h \<and> dll h l W
    \<and> same_links (set (w # W)) (wait_links s) h \<and> eflags s' = eflags s \<and> ipc_frame s s'"
proof -
  obtain l h where i: "list_remove_first wl (wait_links s) = Some (Some w, l, h)" "dll h l W"
    "same_links (set (w # W)) (wait_links s) h"
    using kq.pop_law[OF assms(2)] by blast
  have "sched_rep (s\<lparr>wait_links := h\<rparr>) R S" using rep by simp
  then obtain s1 where r: "task_set_ready w (s\<lparr>wait_links := h\<rparr>) = Some s1"
    "sched_rep s1 (R @ [w]) S" "sched_frame (s\<lparr>wait_links := h\<rparr>) s1"
    "tasks s1 = (tasks s)(w := (tasks s w)\<lparr>tstate := TASK_READY\<rparr>)"
    using set_ready_rep[of "s\<lparr>wait_links := h\<rparr>" R S w] assms(3-5) by auto
  note d = task_dispatch_rep[OF r(2)]
  have "tr_ok s1" using assms(6) r by (simp add: sched_frame_def tr_ok_def)
  then have "on_cpu (dispatched (runner (R @ [w])) s1) (R @ [w])" by (rule on_cpu_dispatched)
  with i d r show ?thesis by (simp add: sched_frame_def ipc_frame_def)
qed

lemma eflags_restore [simp]:
  "(eflags s)(c := x, c := eflags s c) = eflags s"
  by simp

lemma on_cpu_flags [simp]: "on_cpu (s\<lparr>eflags := f\<rparr>) R = on_cpu s R"
  by (simp add: on_cpu_def)

lemma tr_ok_flags [simp]: "tr_ok (s\<lparr>eflags := f\<rparr>) = tr_ok s"
  by (simp add: tr_ok_def)

lemma ipc_frame_flags [simp]: "ipc_frame (s\<lparr>eflags := f\<rparr>) s' = ipc_frame s s'"
  "ipc_frame s (s'\<lparr>eflags := f\<rparr>) = ipc_frame s s'"
  by (simp_all add: ipc_frame_def)

section \<open>The operations, branch by branch\<close>

lemma mutex_lock_free:
  assumes "locked_count m = 0"
  shows "mutex_lock m s = Some (m\<lparr>locked_count := 1, owner := curr_task s\<rparr>, s)"
  using assms by (simp add: mutex_lock_def task_current_def Let_def)

lemma mutex_lock_owner:
  assumes "locked_count m \<noteq> 0" and "owner m = curr_task s"
  shows "mutex_lock m s = Some (m\<lparr>locked_count := locked_count m + 1\<rparr>, s)"
  using assms by (simp add: mutex_lock_def task_current_def Let_def)

lemma mutex_lock_contended:
  assumes "sched_rep s (c # R) S" and "on_cpu s (c # R)" and "dll (wait_links s) (wait_list m) W"
    and "c \<notin> set W" and "locked_count m \<noteq> 0" and "owner m \<noteq> Some c"
  shows "\<exists>l s'. mutex_lock m s = Some (m\<lparr>wait_list := l\<rparr>, s') \<and> sched_rep s' R S \<and> on_cpu s' R
    \<and> dll (wait_links s') l (W @ [c]) \<and> same_links (insert c (set W)) (wait_links s) (wait_links s')
    \<and> eflags s' = eflags s \<and> ipc_frame s s'"
proof -
  have cur: "curr_task s = Some c" using assms(2) by (simp add: on_cpu_def)
  have 1: "sched_rep (cli_state s) (c # R) S" "dll (wait_links (cli_state s)) (wait_list m) W"
    "tr_ok (cli_state s)"
    using assms(1-3) by (simp_all add: on_cpu_tr_ok)
  obtain l h s' where b: "list_insert_last (wait_list m) (wait_links (task_set_block c (cli_state s))) c
      = Some (l, h)"
    "task_dispatch ((task_set_block c (cli_state s))\<lparr>wait_links := h\<rparr>) = Some s'"
    "sched_rep s' R S" "on_cpu s' R" "wait_links s' = h" "dll h l (W @ [c])"
    "same_links (insert c (set W)) (wait_links s) h" "eflags s' = eflags (cli_state s)" "ipc_frame s s'"
    using block_on_rep[OF 1(1,2) assms(4) 1(3)] by auto
  have "mutex_lock m s = Some (m\<lparr>wait_list := l\<rparr>, s'\<lparr>eflags := eflags s\<rparr>)"
    using assms(5,6) cur b by (simp add: mutex_lock_def task_current_def Let_def)
  with b show ?thesis by (intro exI[of _ l] exI[of _ "s'\<lparr>eflags := eflags s\<rparr>"]) simp
qed

lemma mutex_unlock_other:
  "owner m \<noteq> curr_task s \<Longrightarrow> mutex_unlock m s = Some (m, s)"
  by (simp add: mutex_unlock_def task_current_def Let_def)

lemma mutex_unlock_nested:
  "owner m = curr_task s \<Longrightarrow> locked_count m \<noteq> 1 \<Longrightarrow>
   mutex_unlock m s = Some (m\<lparr>locked_count := locked_count m - 1\<rparr>, s)"
  by (simp add: mutex_unlock_def task_current_def Let_def)

lemma mutex_unlock_last:
  assumes "owner m = curr_task s" and "locked_count m = 1" and "dll (wait_links s) (wait_list m) []"
  shows "mutex_unlock m s = Some (m\<lparr>locked_count := 0, owner := None\<rparr>, s)"
  using assms by (simp add: mutex_unlock_def task_current_def Let_def dll_simps)

lemma mutex_unlock_handover:
  assumes "sched_rep s R S" and "on_cpu s R" and "dll (wait_links s) (wait_list m) (w # W)"
    and "w \<notin> set R" and "w \<notin> set S" and "w \<noteq> Idle_task"
    and "owner m = curr_task s" and "locked_count m = 1"
  shows "\<exists>l s'. mutex_unlock m s = Some (m\<lparr>owner := Some w, wait_list := l\<rparr>, s')
    \<and> sched_rep s' (R @ [w]) S \<and> on_cpu s' (R @ [w]) \<and> dll (wait_links s') l W
    \<and> same_links (set (w # W)) (wait_links s) (wait_links s') \<and> eflags s' = eflags s \<and> ipc_frame s s'"
proof -
  have 1: "sched_rep (cli_state s) R S" "dll (wait_links (cli_state s)) (wait_list m) (w # W)"
    "tr_ok (cli_state s)"
    using assms(1-3) by (simp_all add: on_cpu_tr_ok)
  obtain l h s1 s' where b: "list_remove_first (wait_list m) (wait_links (cli_state s)) = Some (Some w, l, h)"
    "task_set_ready w ((cli_state s)\<lparr>wait_links := h\<rparr>) = Some s1" "task_dispatch s1 = Some s'"
    "sched_rep s' (R @ [w]) S" "on_cpu s' (R @ [w])" "wait_links s' = h" "dll h l W"
    "same_links (set (w # W)) (wait_links s) h" "eflags s' = eflags (cli_state s)" "ipc_frame s s'"
    using wake_from_rep[OF 1(1,2) assms(4,5,6) 1(3)] by auto
  have "mutex_unlock m s = Some (m\<lparr>owner := Some w, wait_list := l\<rparr>, s'\<lparr>eflags := eflags s\<rparr>)"
    using assms(7,8) b dll_simps(2)[OF assms(3)]
    by (simp add: mutex_unlock_def task_current_def Let_def select_node_def mutex_t.defs)
  with b show ?thesis by (intro exI[of _ l] exI[of _ "s'\<lparr>eflags := eflags s\<rparr>"]) simp
qed

lemma sem_wait_pos:
  "0 < sem_value m \<Longrightarrow> sem_wait m s = Some (m\<lparr>sem_value := sem_value m - 1\<rparr>, s)"
  by (simp add: sem_wait_def Let_def)

lemma sem_wait_block:
  assumes "sched_rep s (c # R) S" and "on_cpu s (c # R)" and "dll (wait_links s) (sem_list m) W"
    and "c \<notin> set W" and "sem_value m \<le> 0"
  shows "\<exists>l s'. sem_wait m s = Some (m\<lparr>sem_list := l\<rparr>, s') \<and> sched_rep s' R S \<and> on_cpu s' R
    \<and> dll (wait_links s') l (W @ [c]) \<and> same_links (insert c (set W)) (wait_links s) (wait_links s')
    \<and> eflags s' = eflags s \<and> ipc_frame s s'"
proof -
  have cur: "curr_task s = Some c" using assms(2) by (simp add: on_cpu_def)
  have 1: "sched_rep (cli_state s) (c # R) S" "dll (wait_links (cli_state s)) (sem_list m) W"
    "tr_ok (cli_state s)"
    using assms(1-3) by (simp_all add: on_cpu_tr_ok)
  obtain l h s' where b: "list_insert_last (sem_list m) (wait_links (task_set_block c (cli_state s))) c
      = Some (l, h)"
    "task_dispatch ((task_set_block c (cli_state s))\<lparr>wait_links := h\<rparr>) = Some s'"
    "sched_rep s' R S" "on_cpu s' R" "wait_links s' = h" "dll h l (W @ [c])"
    "same_links (insert c (set W)) (wait_links s) h" "eflags s' = eflags (cli_state s)" "ipc_frame s s'"
    using block_on_rep[OF 1(1,2) assms(4) 1(3)] by auto
  have "sem_wait m s = Some (m\<lparr>sem_list := l\<rparr>, s'\<lparr>eflags := eflags s\<rparr>)"
    using assms(5) cur b by (simp add: sem_wait_def task_current_def Let_def)
  with b show ?thesis by (intro exI[of _ l] exI[of _ "s'\<lparr>eflags := eflags s\<rparr>"]) simp
qed

lemma sem_notify_none:
  "dll (wait_links s) (sem_list m) [] \<Longrightarrow>
   sem_notify m s = Some (m\<lparr>sem_value := sem_value m + 1\<rparr>, s)"
  by (simp add: sem_notify_def Let_def dll_simps)

lemma sem_notify_wake:
  assumes "sched_rep s R S" and "on_cpu s R" and "dll (wait_links s) (sem_list m) (w # W)"
    and "w \<notin> set R" and "w \<notin> set S" and "w \<noteq> Idle_task"
  shows "\<exists>l s'. sem_notify m s = Some (m\<lparr>sem_list := l\<rparr>, s')
    \<and> sched_rep s' (R @ [w]) S \<and> on_cpu s' (R @ [w]) \<and> dll (wait_links s') l W
    \<and> same_links (set (w # W)) (wait_links s) (wait_links s') \<and> eflags s' = eflags s \<and> ipc_frame s s'"
proof -
  have 1: "sched_rep (cli_state s) R S" "dll (wait_links (cli_state s)) (sem_list m) (w # W)"
    "tr_ok (cli_state s)"
    using assms(1-3) by (simp_all add: on_cpu_tr_ok)
  obtain l h s1 s' where b: "list_remove_first (sem_list m) (wait_links (cli_state s)) = Some (Some w, l, h)"
    "task_set_ready w ((cli_state s)\<lparr>wait_links := h\<rparr>) = Some s1" "task_dispatch s1 = Some s'"
    "sched_rep s' (R @ [w]) S" "on_cpu s' (R @ [w])" "wait_links s' = h" "dll h l W"
    "same_links (set (w # W)) (wait_links s) h" "eflags s' = eflags (cli_state s)" "ipc_frame s s'"
    using wake_from_rep[OF 1(1,2) assms(4,5,6) 1(3)] by auto
  have "sem_notify m s = Some (m\<lparr>sem_list := l\<rparr>, s'\<lparr>eflags := eflags s\<rparr>)"
    using b dll_simps(2)[OF assms(3)] by (simp add: sem_notify_def Let_def)
  with b show ?thesis by (intro exI[of _ l] exI[of _ "s'\<lparr>eflags := eflags s\<rparr>"]) simp
qed

section \<open>Critical sections\<close>

text \<open>
  Taking a mutex in straight-line code: a caller that finds it taken is queued and does not
  go on in this run (\<open>None\<close>).  With a free mutex the section runs with the scheduler
  state unchanged and leaves the mutex free.
\<close>

definition mutex_enter ::
    "mutex_t \<Rightarrow> 'm sched_scheme \<Rightarrow> (mutex_t \<times> 'm sched_scheme) option" where
  "mutex_enter m s =
    do {
      (m', s') \<leftarrow> mutex_lock m s;
      if owner m' = curr_task s then Some (m', s') else None
    }"

lemma mutex_enter_free:
  "locked_count m = 0 \<Longrightarrow> mutex_enter m s = Some (m\<lparr>locked_count := 1, owner := curr_task s\<rparr>, s)"
  by (simp add: mutex_enter_def mutex_lock_free)

definition mutex_free :: "mutex_t \<Rightarrow> 'm sched_scheme \<Rightarrow> bool" where
  "mutex_free m s \<longleftrightarrow> locked_count m = 0 \<and> dll (wait_links s) (wait_list m) []"

lemma mutex_section:
  assumes "mutex_free m s" and "curr_task s' = curr_task s" and "wait_links s' = wait_links s"
  shows "mutex_enter m s = Some (m\<lparr>locked_count := 1, owner := curr_task s\<rparr>, s)"
    and "mutex_unlock (m\<lparr>locked_count := 1, owner := curr_task s\<rparr>) s'
      = Some (m\<lparr>locked_count := 0, owner := None\<rparr>, s')"
    and "mutex_free (m\<lparr>locked_count := 0, owner := None\<rparr>) s'"
proof -
  show "mutex_enter m s = Some (m\<lparr>locked_count := 1, owner := curr_task s\<rparr>, s)"
    using assms(1) by (simp add: mutex_free_def mutex_enter_free)
  show "mutex_free (m\<lparr>locked_count := 0, owner := None\<rparr>) s'"
    using assms by (simp add: mutex_free_def)
  have "mutex_unlock (m\<lparr>locked_count := 1, owner := curr_task s\<rparr>) s'
      = Some ((m\<lparr>locked_count := 1, owner := curr_task s\<rparr>)\<lparr>locked_count := 0, owner := None\<rparr>, s')"
    by (rule mutex_unlock_last) (use assms in \<open>simp_all add: mutex_free_def\<close>)
  then show "mutex_unlock (m\<lparr>locked_count := 1, owner := curr_task s\<rparr>) s'
      = Some (m\<lparr>locked_count := 0, owner := None\<rparr>, s')" by simp
qed

end
