(* ===== verification/Ksync.thy ===== *)
theory Ksync
  imports Ipc
begin

text \<open>
  The kernel's scheduling and synchronisation as one transition system: the scheduler
  state with all mutexes and semaphores, stepped by the clock interrupt and by the calls
  of the running task.  Every wait queue is threaded through the same \<open>wait_node\<close> members.
  The invariant says where each task is and that no wake-up is lost.
\<close>

section \<open>State and steps\<close>

record ksys = sched +
  mutexes :: "nat \<Rightarrow> mutex_t"
  sems :: "nat \<Rightarrow> sem_t"

text \<open>The user-side stub of the sleep system call (\<^verbatim>\<open>applib/lib_syscall.c\<close>).\<close>

definition lib_sleep :: "int \<Rightarrow> 'm sched_scheme \<Rightarrow> 'm sched_scheme option" where
  "lib_sleep ms s = (if ms \<le> 0 then Some s else sys_sleep (word_of_int ms) s)"

definition lock_at :: "nat \<Rightarrow> ksys \<Rightarrow> ksys option" where
  "lock_at i s = do { (m, s') \<leftarrow> mutex_lock (mutexes s i) s;
     Some (s'\<lparr>mutexes := (mutexes s')(i := m)\<rparr>) }"

definition unlock_at :: "nat \<Rightarrow> ksys \<Rightarrow> ksys option" where
  "unlock_at i s = do { (m, s') \<leftarrow> mutex_unlock (mutexes s i) s;
     Some (s'\<lparr>mutexes := (mutexes s')(i := m)\<rparr>) }"

definition wait_at :: "nat \<Rightarrow> ksys \<Rightarrow> ksys option" where
  "wait_at j s = do { (m, s') \<leftarrow> sem_wait (sems s j) s;
     Some (s'\<lparr>sems := (sems s')(j := m)\<rparr>) }"

definition notify_at :: "nat \<Rightarrow> ksys \<Rightarrow> ksys option" where
  "notify_at j s = do { (m, s') \<leftarrow> sem_notify (sems s j) s;
     Some (s'\<lparr>sems := (sems s')(j := m)\<rparr>) }"

datatype wq = MQ nat | SQ nat

fun wlist :: "ksys \<Rightarrow> wq \<Rightarrow> task_ref list_t" where
  "wlist s (MQ i) = wait_list (mutexes s i)"
| "wlist s (SQ j) = sem_list (sems s j)"

definition waiting :: "ksys \<Rightarrow> wq \<Rightarrow> task_ref \<Rightarrow> bool" where
  "waiting s q t \<longleftrightarrow> (\<exists>xs. dll (wait_links s) (wlist s q) xs \<and> t \<in> set xs)"

definition off_queues :: "ksys \<Rightarrow> task_ref \<Rightarrow> bool" where
  "off_queues s t \<longleftrightarrow> (\<forall>q. \<not> waiting s q t)
     \<and> (\<forall>R S. sched_rep s R S \<longrightarrow> t \<notin> set R \<and> t \<notin> set S)"

text \<open>
  The idle task only halts, so it calls nothing; the clock interrupt and notifications
  (from interrupt handlers) also come while it runs.  A task is started when it is on no
  queue: \<^verbatim>\<open>sys_fork\<close> starts the fresh slot it has just initialised, and
  \<^verbatim>\<open>sys_exit\<close> readies a parent that \<^verbatim>\<open>sys_wait\<close> took off the ready queue.
\<close>

datatype kevent =
  Tick | Yield | Sleep int | Start task_ref | Lock nat | Unlock nat | Wait nat | Notify nat

fun kexec :: "kevent \<Rightarrow> ksys \<Rightarrow> ksys option" where
  "kexec Tick s = task_time_tick s"
| "kexec Yield s = map_option snd (sys_yeild s)"
| "kexec (Sleep ms) s = lib_sleep ms s"
| "kexec (Start t) s = task_start t s"
| "kexec (Lock i) s = lock_at i s"
| "kexec (Unlock i) s = unlock_at i s"
| "kexec (Wait j) s = wait_at j s"
| "kexec (Notify j) s = notify_at j s"

fun enabled :: "kevent \<Rightarrow> ksys \<Rightarrow> bool" where
  "enabled Tick s \<longleftrightarrow> True"
| "enabled (Notify j) s \<longleftrightarrow> True"
| "enabled (Sleep ms) s \<longleftrightarrow> curr_task s \<noteq> Some Idle_task \<and> ms < 2 ^ 31"
| "enabled (Start t) s \<longleftrightarrow> curr_task s \<noteq> Some Idle_task \<and> t \<noteq> Idle_task \<and> off_queues s t"
| "enabled e s \<longleftrightarrow> curr_task s \<noteq> Some Idle_task"

inductive kstep :: "ksys \<Rightarrow> kevent \<Rightarrow> ksys \<Rightarrow> bool" where
  step: "enabled e s \<Longrightarrow> kexec e s = Some s' \<Longrightarrow> kstep s e s'"

inductive_simps kstep_simps: "kstep s e s'"

section \<open>The invariant\<close>

definition timers_ok :: "'m sched_scheme \<Rightarrow> task_ref list \<Rightarrow> bool" where
  "timers_ok s S \<longleftrightarrow> (\<forall>t\<in>set S. 0 < sleep_ticks (tasks s t))
     \<and> (\<forall>t. 0 < time_ticks (tasks s t) \<longrightarrow> 0 < slice_ticks (tasks s t))"

definition ksys_rep :: "ksys \<Rightarrow> task_ref list \<Rightarrow> task_ref list \<Rightarrow> (wq \<Rightarrow> task_ref list) \<Rightarrow> bool" where
  "ksys_rep s R S W \<longleftrightarrow> sched_rep s R S \<and> on_cpu s R \<and> timers_ok s S
     \<and> (\<forall>q. dll (wait_links s) (wlist s q) (W q))
     \<and> (\<forall>q q'. q \<noteq> q' \<longrightarrow> set (W q) \<inter> set (W q') = {})
     \<and> (\<forall>q. set (W q) \<inter> (set R \<union> set S) = {} \<and> Idle_task \<notin> set (W q))"

definition lock_ok :: "mutex_t \<Rightarrow> task_ref list \<Rightarrow> bool" where
  "lock_ok m w \<longleftrightarrow> 0 \<le> locked_count m \<and> (locked_count m = 0 \<longleftrightarrow> owner m = None)
     \<and> (locked_count m = 0 \<longrightarrow> w = []) \<and> owner m \<noteq> Some Idle_task
     \<and> (\<forall>t. owner m = Some t \<longrightarrow> t \<notin> set w)"

definition sem_ok :: "sem_t \<Rightarrow> task_ref list \<Rightarrow> bool" where
  "sem_ok m w \<longleftrightarrow> 0 \<le> sem_value m \<and> (0 < sem_value m \<longrightarrow> w = [])"

definition ksys_ok :: "ksys \<Rightarrow> task_ref list \<Rightarrow> task_ref list \<Rightarrow> (wq \<Rightarrow> task_ref list) \<Rightarrow> bool" where
  "ksys_ok s R S W \<longleftrightarrow> ksys_rep s R S W \<and> (\<forall>i. lock_ok (mutexes s i) (W (MQ i)))
     \<and> (\<forall>j. sem_ok (sems s j) (W (SQ j)))"

lemma more_eqD:
  fixes s t :: ksys
  assumes "sched.more s = sched.more t"
  shows "mutexes s = mutexes t" and "sems s = sems t"
  using assms by (cases s; cases t; simp)+

lemma sched_rep_ksys [simp]:
  "sched_rep (s\<lparr>mutexes := a\<rparr>) R S = sched_rep s R S"
  "sched_rep (s\<lparr>sems := b\<rparr>) R S = sched_rep s R S"
  "on_cpu (s\<lparr>mutexes := a\<rparr>) R = on_cpu s R"
  "on_cpu (s\<lparr>sems := b\<rparr>) R = on_cpu s R"
  "timers_ok (s\<lparr>mutexes := a\<rparr>) S = timers_ok s S"
  "timers_ok (s\<lparr>sems := b\<rparr>) S = timers_ok s S"
  by (simp_all add: sched_rep_def on_cpu_def timers_ok_def)

lemma wlist_upd [simp]:
  "wlist (s\<lparr>mutexes := (mutexes s)(i := m)\<rparr>) q = (if q = MQ i then wait_list m else wlist s q)"
  "wlist (s\<lparr>sems := (sems s)(j := k)\<rparr>) q = (if q = SQ j then sem_list k else wlist s q)"
  by (cases q; simp)+

text \<open>A queue other than the ones a step touched keeps its content.\<close>

lemma wqueue_frame:
  assumes "ksys_rep s R S W" and "same_links A (wait_links s) h" and "A \<inter> set (W q) = {}"
  shows "dll h (wlist s q) (W q)"
  using assms dll_frame[of A "wait_links s" h "W q" "wlist s q"] by (auto simp: ksys_rep_def)

lemma ksys_rep_block:
  assumes k: "ksys_rep s (c # R) S W" and "sched_rep s' R S" and "on_cpu s' R"
    and "timers_ok s' S" and "dll (wait_links s') (wlist s' q) (W q @ [c])"
    and l: "same_links (insert c (set (W q))) (wait_links s) (wait_links s')"
    and w: "\<And>q'. q' \<noteq> q \<Longrightarrow> wlist s' q' = wlist s q'"
  shows "ksys_rep s' R S (W(q := W q @ [c]))"
proof -
  have c: "c \<notin> set (W q')" "c \<noteq> Idle_task" "c \<notin> set S" "c \<notin> set R" for q'
    using k sched_rep_facts[of s "c # R" S] by (auto simp: ksys_rep_def)
  have "dll (wait_links s') (wlist s' q') (W q')" if "q' \<noteq> q" for q'
    using wqueue_frame[OF k l, of q'] w[OF that] c(1)[of q'] k that by (auto simp: ksys_rep_def)
  with assms c show ?thesis by (auto simp: ksys_rep_def)
qed

lemma ksys_rep_wake:
  assumes k: "ksys_rep s R S W" and q: "W q = w # ws" and "sched_rep s' (R @ [w]) S"
    and "on_cpu s' (R @ [w])" and "timers_ok s' S" and "dll (wait_links s') (wlist s' q) ws"
    and l: "same_links (set (W q)) (wait_links s) (wait_links s')"
    and w: "\<And>q'. q' \<noteq> q \<Longrightarrow> wlist s' q' = wlist s q'"
  shows "ksys_rep s' (R @ [w]) S (W(q := ws))"
proof -
  have "distinct (W q)" using k by (auto simp: ksys_rep_def dest: dll_simps(7))
  then have c1: "w \<notin> set ws" using q by simp
  have dj: "set (W q) \<inter> set (W q') = {}" if "q' \<noteq> q" for q'
    using k that by (auto simp: ksys_rep_def)
  have c: "w \<notin> set (W q') \<and> set ws \<inter> set (W q') = {}" if "q' \<noteq> q" for q'
    using dj[OF that] q by auto
  have qd: "set (W q) \<inter> (set R \<union> set S) = {}" "Idle_task \<notin> set (W q)"
    using k unfolding ksys_rep_def by blast+
  have o: "dll (wait_links s') (wlist s' q') (W q')" if "q' \<noteq> q" for q'
    using wqueue_frame[OF k l, of q'] w[OF that] dj[OF that] by simp
  have r: "set (W q') \<inter> (set R \<union> set S) = {}" "Idle_task \<notin> set (W q')" for q'
    using k unfolding ksys_rep_def by blast+
  have d3: "set (W x) \<inter> set (W y) = {}" if "x \<noteq> y" for x y
    using k that unfolding ksys_rep_def by blast
  show ?thesis unfolding ksys_rep_def
  proof (intro conjI allI impI)
    fix x show "dll (wait_links s') (wlist s' x) ((W(q := ws)) x)"
      using o[of x] assms(6) by auto
  next
    fix x y :: wq assume "x \<noteq> y"
    then show "set ((W(q := ws)) x) \<inter> set ((W(q := ws)) y) = {}"
      using c d3 by (auto simp: Int_commute)
  next
    fix x show "set ((W(q := ws)) x) \<inter> (set (R @ [w]) \<union> set S) = {}"
      using r[of x] c[of x] c1 qd q by auto
    show "Idle_task \<notin> set ((W(q := ws)) x)" using r[of x] qd q by auto
  qed (use assms in auto)
qed

section \<open>The abstract machine\<close>

text \<open>
  The contract of the scheduler and of its two synchronisation objects over plain lists:
  the ready and sleep queues, one waiting list per object, owners, counts and timers.
  No links, no flags, no task register.
\<close>

record asys =
  aready :: "task_ref list"
  asleep :: "task_ref list"
  awq :: "wq \<Rightarrow> task_ref list"
  aowner :: "nat \<Rightarrow> task_ref option"
  acount :: "nat \<Rightarrow> int"
  avalue :: "nat \<Rightarrow> int"
  awake_in :: "task_ref \<Rightarrow> int"
  aslice :: "task_ref \<Rightarrow> int"
  aquantum :: "task_ref \<Rightarrow> int"

definition a_wait_on :: "wq \<Rightarrow> asys \<Rightarrow> asys" where
  "a_wait_on q a = a\<lparr>aready := tl (aready a),
     awq := (awq a)(q := awq a q @ [runner (aready a)])\<rparr>"

definition a_wake_from :: "wq \<Rightarrow> asys \<Rightarrow> asys" where
  "a_wake_from q a = a\<lparr>aready := aready a @ [hd (awq a q)], awq := (awq a)(q := tl (awq a q))\<rparr>"

definition a_tick :: "asys \<Rightarrow> asys" where
  "a_tick a =
    (let c = runner (aready a); expired = (aslice a c = 1)
     in a\<lparr>aready := (if expired then rotate1 (aready a) else aready a)
              @ filter (\<lambda>t. awake_in a t = 1) (asleep a),
          asleep := filter (\<lambda>t. awake_in a t \<noteq> 1) (asleep a),
          awake_in := (\<lambda>t. awake_in a t - (if t \<in> set (asleep a) then 1 else 0)),
          aslice := (aslice a)(c := if expired then aquantum a c else aslice a c - 1)\<rparr>)"

definition a_sleep :: "int \<Rightarrow> asys \<Rightarrow> asys" where
  "a_sleep ms a =
    (if ms \<le> 0 then a
     else let c = runner (aready a)
       in a\<lparr>aready := tl (aready a), asleep := asleep a @ [c],
            awake_in := (awake_in a)(c := (ms + 9) div 10)\<rparr>)"

definition a_lock :: "nat \<Rightarrow> asys \<Rightarrow> asys" where
  "a_lock i a =
    (if acount a i = 0
     then a\<lparr>acount := (acount a)(i := 1), aowner := (aowner a)(i := Some (runner (aready a)))\<rparr>
     else if aowner a i = Some (runner (aready a))
     then a\<lparr>acount := (acount a)(i := acount a i + 1)\<rparr>
     else a_wait_on (MQ i) a)"

definition a_unlock :: "nat \<Rightarrow> asys \<Rightarrow> asys" where
  "a_unlock i a =
    (if aowner a i \<noteq> Some (runner (aready a)) then a
     else if acount a i \<noteq> 1 then a\<lparr>acount := (acount a)(i := acount a i - 1)\<rparr>
     else case awq a (MQ i) of
         [] \<Rightarrow> a\<lparr>acount := (acount a)(i := 0), aowner := (aowner a)(i := None)\<rparr>
       | w # _ \<Rightarrow> (a_wake_from (MQ i) a)\<lparr>aowner := (aowner a)(i := Some w)\<rparr>)"

definition a_wait :: "nat \<Rightarrow> asys \<Rightarrow> asys" where
  "a_wait j a =
    (if 0 < avalue a j then a\<lparr>avalue := (avalue a)(j := avalue a j - 1)\<rparr>
     else a_wait_on (SQ j) a)"

definition a_notify :: "nat \<Rightarrow> asys \<Rightarrow> asys" where
  "a_notify j a =
    (if awq a (SQ j) = [] then a\<lparr>avalue := (avalue a)(j := avalue a j + 1)\<rparr>
     else a_wake_from (SQ j) a)"

fun astep :: "kevent \<Rightarrow> asys \<Rightarrow> asys" where
  "astep Tick a = a_tick a"
| "astep Yield a = a\<lparr>aready := rotate1 (aready a)\<rparr>"
| "astep (Sleep ms) a = a_sleep ms a"
| "astep (Start t) a = a\<lparr>aready := aready a @ [t]\<rparr>"
| "astep (Lock i) a = a_lock i a"
| "astep (Unlock i) a = a_unlock i a"
| "astep (Wait j) a = a_wait j a"
| "astep (Notify j) a = a_notify j a"

lemmas astep_defs = a_tick_def a_sleep_def a_lock_def a_unlock_def a_wait_def a_notify_def
  a_wait_on_def a_wake_from_def

text \<open>The abstraction: read the lists off the links, forget the rest.\<close>

definition alpha :: "ksys \<Rightarrow> task_ref list \<Rightarrow> task_ref list \<Rightarrow> (wq \<Rightarrow> task_ref list) \<Rightarrow> asys" where
  "alpha s R S W = \<lparr>aready = R, asleep = S, awq = W,
     aowner = (\<lambda>i. owner (mutexes s i)), acount = (\<lambda>i. locked_count (mutexes s i)),
     avalue = (\<lambda>j. sem_value (sems s j)), awake_in = (\<lambda>t. sleep_ticks (tasks s t)),
     aslice = (\<lambda>t. slice_ticks (tasks s t)), aquantum = (\<lambda>t. time_ticks (tasks s t))\<rparr>"

definition sim :: "ksys \<Rightarrow> asys \<Rightarrow> bool" where
  "sim s a \<longleftrightarrow> ksys_ok s (aready a) (asleep a) (awq a)
     \<and> a = alpha s (aready a) (asleep a) (awq a)"

lemma alpha_simps [simp]:
  "aready (alpha s R S W) = R" "asleep (alpha s R S W) = S" "awq (alpha s R S W) = W"
  "aowner (alpha s R S W) i = owner (mutexes s i)"
  "acount (alpha s R S W) i = locked_count (mutexes s i)"
  "avalue (alpha s R S W) j = sem_value (sems s j)"
  "awake_in (alpha s R S W) t = sleep_ticks (tasks s t)"
  "aslice (alpha s R S W) t = slice_ticks (tasks s t)"
  "aquantum (alpha s R S W) t = time_ticks (tasks s t)"
  by (simp_all add: alpha_def)

lemma simI: "ksys_ok s R S W \<Longrightarrow> a = alpha s R S W \<Longrightarrow> sim s a"
  by (simp add: sim_def)

lemma simE:
  assumes "sim s a"
  obtains R S W where "ksys_ok s R S W" and "a = alpha s R S W"
  using assms by (auto simp: sim_def)

section \<open>Every step implements the abstract one and keeps the invariant\<close>

lemma ksys_rep_more:
  assumes "ksys_rep s R S W" and "sched_rep s' R' S'" and "on_cpu s' R'" and "timers_ok s' S'"
    and "wait_links s' = wait_links s" and "sched.more s' = sched.more s"
    and "set R' \<union> set S' \<subseteq> D \<union> set R \<union> set S" and "\<And>q. D \<inter> set (W q) = {}"
  shows "ksys_rep s' R' S' W"
proof -
  have "wlist s' q = wlist s q" for q using more_eqD[OF assms(6)] by (cases q) simp_all
  moreover have "set (W q) \<inter> (set R' \<union> set S') = {}" for q
    using assms(1,7) assms(8)[of q] unfolding ksys_rep_def by blast
  ultimately show ?thesis using assms(1-5) unfolding ksys_rep_def by simp
qed

lemma alpha_ctx:
  fixes s s' :: ksys
  shows "ctx_frame s s' \<Longrightarrow> mutexes s' = mutexes s \<and> sems s' = sems s"
  using more_eqD[of s' s] by (simp add: ctx_frame_def)

lemma ksys_ok_more:
  "ksys_ok s R S W \<Longrightarrow> ctx_frame s s' \<Longrightarrow> ksys_rep s' R' S' W \<Longrightarrow> ksys_ok s' R' S' W"
  using more_eqD[of s' s] by (simp add: ksys_ok_def ctx_frame_def)

lemma tick_sim:
  assumes "sim s a"
  shows "\<exists>s'. kexec Tick s = Some s' \<and> sim s' (a_tick a)"
proof -
  from assms obtain R S W where ok: "ksys_ok s R S W" and a: "a = alpha s R S W" by (rule simE)
  have k: "ksys_rep s R S W" and r: "sched_rep s R S" "on_cpu s R" "timers_ok s S"
    using ok by (auto simp: ksys_ok_def ksys_rep_def)
  let ?R = "(if slice_ticks (tasks s (runner R)) = 1 then rotate1 R else R) @ filter (due (tasks s)) S"
  let ?S = "filter (\<lambda>x. \<not> due (tasks s) x) S"
  obtain s' where s': "task_time_tick s = Some s'" "sched_rep s' ?R ?S" "on_cpu s' ?R"
    "\<And>t. sleep_ticks (tasks s' t) = sleep_ticks (tasks s t) - (if t \<in> set S then 1 else 0)"
    "\<And>t. slice_ticks (tasks s' t) = (if t \<noteq> runner R then slice_ticks (tasks s t)
           else if slice_ticks (tasks s t) = 1 then time_ticks (tasks s t)
           else slice_ticks (tasks s t) - 1)"
    "\<And>t. time_ticks (tasks s' t) = time_ticks (tasks s t)" "ctx_frame s s'"
    using time_tick_rep[OF r(1,2)] by blast
  have "0 < sleep_ticks (tasks s' t)" if "t \<in> set ?S" for t
  proof -
    have "0 < sleep_ticks (tasks s t)" "sleep_ticks (tasks s t) \<noteq> 1"
      using that r(3) by (auto simp: timers_ok_def due_def)
    then show ?thesis using s'(4)[of t] that by simp
  qed
  moreover have "0 < slice_ticks (tasks s' t)" if "0 < time_ticks (tasks s' t)" for t
  proof -
    have "0 < time_ticks (tasks s t)" "0 < slice_ticks (tasks s t)"
      using r(3) s'(6)[of t] that by (simp_all add: timers_ok_def)
    then show ?thesis using s'(5,6)[of t] by auto
  qed
  ultimately have "timers_ok s' ?S" by (simp add: timers_ok_def)
  moreover have "set ?R \<union> set ?S \<subseteq> set R \<union> set S" by auto
  ultimately have "ksys_rep s' ?R ?S W"
    using s'(2,3,7) by (intro ksys_rep_more[OF k, where D = "{}"]) (simp_all add: ctx_frame_def)
  from ksys_ok_more[OF ok s'(7) this] have "ksys_ok s' ?R ?S W" .
  moreover have "a_tick a = alpha s' ?R ?S W"
    using s'(4-6) alpha_ctx[OF s'(7)]
    by (simp add: a a_tick_def alpha_def Let_def fun_eq_iff due_def[abs_def])
  ultimately show ?thesis using s'(1) simI by auto
qed

lemma yield_sim:
  assumes "sim s a"
  shows "\<exists>s'. kexec Yield s = Some s' \<and> sim s' (astep Yield a)"
proof -
  from assms obtain R S W where ok: "ksys_ok s R S W" and a: "a = alpha s R S W" by (rule simE)
  have k: "ksys_rep s R S W" and r: "sched_rep s R S" "on_cpu s R" "timers_ok s S"
    using ok by (auto simp: ksys_ok_def ksys_rep_def)
  obtain s' where s': "sys_yeild s = Some (0, s')" "sched_rep s' (rotate1 R) S"
    "on_cpu s' (rotate1 R)" "ctx_frame s s'"
    "\<And>t. sleep_ticks (tasks s' t) = sleep_ticks (tasks s t)
      \<and> slice_ticks (tasks s' t) = slice_ticks (tasks s t)
      \<and> time_ticks (tasks s' t) = time_ticks (tasks s t)"
    using yeild_rep[OF r(1,2)] by blast
  have "timers_ok s' S" using r(3) s'(5) by (simp add: timers_ok_def)
  then have "ksys_rep s' (rotate1 R) S W"
    using s'(2-4) by (intro ksys_rep_more[OF k, where D = "{}"]) (simp_all add: ctx_frame_def)
  from ksys_ok_more[OF ok s'(4) this] have "ksys_ok s' (rotate1 R) S W" .
  moreover have "astep Yield a = alpha s' (rotate1 R) S W"
    using s'(5) alpha_ctx[OF s'(4)] by (simp add: a alpha_def fun_eq_iff)
  ultimately show ?thesis using s'(1) simI by auto
qed

text \<open>The stub's argument check keeps the tick count positive and inside \<open>int\<close>.\<close>

lemma sleep_ticks_value:
  fixes ms :: int
  assumes "0 < ms" and "ms < 2 ^ 31"
  shows "uint (sleep_ms_ticks (word_of_int ms)) = (ms + 9) div 10"
    and "to_int32 (uint (sleep_ms_ticks (word_of_int ms))) = (ms + 9) div 10"
    and "sleep_ms_ticks (word_of_int ms) \<noteq> 0"
proof -
  have e: "(word_of_int ms :: u32) + OS_TICKS_MS - 1 = word_of_int (ms + 9)"
    by (simp add: OS_TICKS_MS_def)
  have "uint (word_of_int (ms + 9) :: u32) = ms + 9"
    using assms by (simp only: uint_word_of_int) simp
  then show v: "uint (sleep_ms_ticks (word_of_int ms)) = (ms + 9) div 10"
    unfolding sleep_ms_ticks_def e by (simp add: uint_div OS_TICKS_MS_def)
  with assms show "to_int32 (uint (sleep_ms_ticks (word_of_int ms))) = (ms + 9) div 10"
    by (simp add: to_int32_id)
  show "sleep_ms_ticks (word_of_int ms) \<noteq> 0"
  proof
    assume "sleep_ms_ticks (word_of_int ms) = 0"
    with v have "(ms + 9) div 10 = 0" by simp
    with assms show False by linarith
  qed
qed

lemma enabled_runner:
  assumes "sched_rep s R S" and "on_cpu s R" and "curr_task s \<noteq> Some Idle_task"
  obtains c R' where "R = c # R'" and "curr_task s = Some c" and "c \<noteq> Idle_task"
  using assms by (cases R) (auto simp: on_cpu_def)

lemma sleep_sim:
  assumes "sim s a" and "enabled (Sleep ms) s"
  shows "\<exists>s'. kexec (Sleep ms) s = Some s' \<and> sim s' (a_sleep ms a)"
proof (cases "ms \<le> 0")
  case True
  then have "kexec (Sleep ms) s = Some s" by (simp add: lib_sleep_def)
  with assms(1) True show ?thesis by (simp add: a_sleep_def)
next
  case False
  from assms(1) obtain R S W where ok: "ksys_ok s R S W" and a: "a = alpha s R S W" by (rule simE)
  have k: "ksys_rep s R S W" and r: "sched_rep s R S" "on_cpu s R" "timers_ok s S"
    using ok by (auto simp: ksys_ok_def ksys_rep_def)
  obtain c R' where c: "R = c # R'" by (rule enabled_runner[OF r(1,2)]) (use assms(2) in auto)
  have ms: "0 < ms" "ms < 2 ^ 31" using False assms(2) by simp_all
  note v = sleep_ticks_value[OF ms]
  obtain s' where s': "sys_sleep (word_of_int ms) s = Some s'" "sched_rep s' R' (S @ [c])" "on_cpu s' R'"
    "sleep_ticks (tasks s' c) = (ms + 9) div 10"
    "\<And>t. t \<noteq> c \<Longrightarrow> sleep_ticks (tasks s' t) = sleep_ticks (tasks s t)"
    "\<And>t. slice_ticks (tasks s' t) = slice_ticks (tasks s t)
        \<and> time_ticks (tasks s' t) = time_ticks (tasks s t)" "ctx_frame s s'"
    using sleep_rep[of s c R' S "word_of_int ms"] r v by (auto simp: c)
  have "0 < sleep_ticks (tasks s' t)" if "t \<in> set (S @ [c])" for t
    using that r(3) s'(4) s'(5)[of t] ms by (cases "t = c") (auto simp: timers_ok_def)
  then have "timers_ok s' (S @ [c])" using r(3) s'(6) by (simp add: timers_ok_def)
  then have "ksys_rep s' R' (S @ [c]) W"
    using s'(2,3,7) by (intro ksys_rep_more[OF k, where D = "{}"]) (auto simp: ctx_frame_def c)
  from ksys_ok_more[OF ok s'(7) this] have "ksys_ok s' R' (S @ [c]) W" .
  moreover have "a_sleep ms a = alpha s' R' (S @ [c]) W"
    using s'(4-6) alpha_ctx[OF s'(7)] ms by (auto simp: a a_sleep_def alpha_def c fun_eq_iff)
  ultimately show ?thesis using s'(1) False simI by (auto simp: lib_sleep_def)
qed

text \<open>The facts about one queue that the IPC branch lemmas ask for.\<close>

lemma ksys_rep_queue:
  assumes "ksys_rep s R S W"
  shows "sched_rep s R S" and "on_cpu s R" and "timers_ok s S"
    and "dll (wait_links s) (wlist s q) (W q)"
    and "t \<in> set R \<Longrightarrow> t \<notin> set (W q)"
    and "t \<in> set (W q) \<Longrightarrow> t \<notin> set R \<and> t \<notin> set S \<and> t \<noteq> Idle_task"
  using assms by (auto simp: ksys_rep_def)

lemma start_sim:
  assumes "sim s a" and "enabled (Start t) s"
  shows "\<exists>s'. kexec (Start t) s = Some s' \<and> sim s' (astep (Start t) a)"
proof -
  from assms(1) obtain R S W where ok: "ksys_ok s R S W" and a: "a = alpha s R S W" by (rule simE)
  have k: "ksys_rep s R S W" and r: "sched_rep s R S" "on_cpu s R" "timers_ok s S"
    using ok by (auto simp: ksys_ok_def ksys_rep_def)
  have t: "t \<noteq> Idle_task" "t \<notin> set R" "t \<notin> set S"
    using assms(2) r(1) by (auto simp: off_queues_def)
  have tw: "t \<notin> set (W q)" for q
    using assms(2) ksys_rep_queue(4)[OF k] by (auto simp: off_queues_def waiting_def)
  obtain c R' where c: "R = c # R'" by (rule enabled_runner[OF r(1,2)]) (use assms(2) in auto)
  have "sched_rep (cli_state s) R S" using r(1) by simp
  from set_ready_rep[OF this t(2,3,1)] obtain s1 where
    s1: "task_set_ready t (cli_state s) = Some s1" "sched_rep s1 (R @ [t]) S"
    "sched_frame (cli_state s) s1" "tasks s1 = (tasks s)(t := (tasks s t)\<lparr>tstate := TASK_READY\<rparr>)"
    by auto
  let ?s = "s1\<lparr>eflags := eflags s\<rparr>"
  have e: "task_start t s = Some ?s"
    using s1(1,3) by (simp add: task_start_def Let_def sched_frame_def)
  have f: "ctx_frame s ?s" using s1(3) by (simp add: ctx_frame_def sched_frame_def)
  have "on_cpu ?s (R @ [t])" using r(2) s1(3,4) by (simp add: on_cpu_def sched_frame_def c)
  moreover have "timers_ok ?s S" using r(3) s1(4) by (simp add: timers_ok_def)
  ultimately have "ksys_rep ?s (R @ [t]) S W"
    using s1(2,3) tw by (intro ksys_rep_more[OF k, where D = "{t}"]) (auto simp: sched_frame_def)
  from ksys_ok_more[OF ok f this] have "ksys_ok ?s (R @ [t]) S W" .
  moreover have "astep (Start t) a = alpha ?s (R @ [t]) S W"
    using s1(4) alpha_ctx[OF f] by (simp add: a alpha_def fun_eq_iff)
  ultimately show ?thesis using e simI by auto
qed

lemma ipc_frame_timers: "ipc_frame s s' \<Longrightarrow> timers_ok s S \<Longrightarrow> timers_ok s' S"
  by (simp add: ipc_frame_def timers_ok_def)

lemma ipc_frame_wlist:
  fixes s s' :: ksys
  assumes "ipc_frame s s'"
  shows "mutexes s' = mutexes s" and "sems s' = sems s" and "wlist s' q = wlist s q"
proof -
  show e: "mutexes s' = mutexes s" "sems s' = sems s"
    using assms more_eqD[of s' s] by (simp_all add: ipc_frame_def)
  show "wlist s' q = wlist s q" using e by (cases q) simp_all
qed

lemma ksys_rep_same_queues:
  assumes "ksys_rep s R S W" and "wait_list m = wait_list (mutexes s i)"
  shows "ksys_rep (s\<lparr>mutexes := (mutexes s)(i := m)\<rparr>) R S W"
proof -
  have "wlist (s\<lparr>mutexes := (mutexes s)(i := m)\<rparr>) q = wlist s q" for q using assms(2) by auto
  with assms(1) show ?thesis by (simp add: ksys_rep_def)
qed

lemma ksys_rep_same_queues_sem:
  assumes "ksys_rep s R S W" and "sem_list m = sem_list (sems s j)"
  shows "ksys_rep (s\<lparr>sems := (sems s)(j := m)\<rparr>) R S W"
proof -
  have "wlist (s\<lparr>sems := (sems s)(j := m)\<rparr>) q = wlist s q" for q using assms(2) by auto
  with assms(1) show ?thesis by (simp add: ksys_rep_def)
qed

lemma lock_sim:
  assumes sm0: "sim s a" and en: "enabled (Lock i) s"
  shows "\<exists>s'. kexec (Lock i) s = Some s' \<and> sim s' (a_lock i a)"
proof -
  from sm0 obtain R S W where ok: "ksys_ok s R S W" and a: "a = alpha s R S W" by (rule simE)
  let ?m = "mutexes s i"
  have k: "ksys_rep s R S W" and m: "\<And>i. lock_ok (mutexes s i) (W (MQ i))"
    and sm: "\<And>j. sem_ok (sems s j) (W (SQ j))"
    using ok by (auto simp: ksys_ok_def)
  note q = ksys_rep_queue(1-3)[OF k] ksys_rep_queue(4-6)[OF k, where q = "MQ i"]
  obtain c R' where c: "R = c # R'" "curr_task s = Some c" "c \<noteq> Idle_task"
    by (rule enabled_runner[OF q(1,2)]) (use en in auto)
  consider "locked_count ?m = 0" | "locked_count ?m \<noteq> 0" "owner ?m = Some c"
    | "locked_count ?m \<noteq> 0" "owner ?m \<noteq> Some c" by blast
  then show ?thesis
  proof cases
    case 1
    let ?s = "s\<lparr>mutexes := (mutexes s)(i := ?m\<lparr>locked_count := 1, owner := Some c\<rparr>)\<rparr>"
    have "lock_ok (?m\<lparr>locked_count := 1, owner := Some c\<rparr>) (W (MQ i))"
      using 1 m[of i] c by (simp add: lock_ok_def)
    with m sm ksys_rep_same_queues[OF k] have "ksys_ok ?s R S W" by (simp add: ksys_ok_def)
    then have "sim ?s (a_lock i a)" by (rule simI) (use 1 c in \<open>auto simp: a astep_defs alpha_def fun_eq_iff\<close>)
    then show ?thesis using mutex_lock_free[OF 1, of s] c by (auto simp: lock_at_def)
  next
    case 2
    let ?s = "s\<lparr>mutexes := (mutexes s)(i := ?m\<lparr>locked_count := locked_count ?m + 1\<rparr>)\<rparr>"
    have "lock_ok (?m\<lparr>locked_count := locked_count ?m + 1\<rparr>) (W (MQ i))"
      using 2 m[of i] c by (simp add: lock_ok_def)
    with m sm ksys_rep_same_queues[OF k] have "ksys_ok ?s R S W" by (simp add: ksys_ok_def)
    then have "sim ?s (a_lock i a)" by (rule simI) (use 2 c in \<open>auto simp: a astep_defs alpha_def fun_eq_iff\<close>)
    then show ?thesis using mutex_lock_owner[of ?m s] 2 c by (auto simp: lock_at_def)
  next
    case 3
    obtain l s' where s': "mutex_lock ?m s = Some (?m\<lparr>wait_list := l\<rparr>, s')" "sched_rep s' R' S"
      "on_cpu s' R'" "dll (wait_links s') l (W (MQ i) @ [c])"
      "same_links (insert c (set (W (MQ i)))) (wait_links s) (wait_links s')" "ipc_frame s s'"
      using mutex_lock_contended[of s c R' S ?m "W (MQ i)"] q(1,2,4) q(5)[of c] c 3 by auto
    note f = ipc_frame_wlist[OF s'(6)]
    let ?s = "s'\<lparr>mutexes := (mutexes s')(i := ?m\<lparr>wait_list := l\<rparr>)\<rparr>"
    have "ksys_rep ?s R' S (W(MQ i := W (MQ i) @ [c]))"
    proof (rule ksys_rep_block)
      show "ksys_rep s (c # R') S W" using k c by simp
    qed (use s' f(3) ipc_frame_timers[OF s'(6) q(3)] in simp_all)
    moreover have "lock_ok (?m\<lparr>wait_list := l\<rparr>) (W (MQ i) @ [c])"
      using 3 m[of i] by (auto simp: lock_ok_def)
    ultimately have "ksys_ok ?s R' S (W(MQ i := W (MQ i) @ [c]))"
      using m sm f(1,2) by (simp add: ksys_ok_def)
    then have "sim ?s (a_lock i a)"
      by (rule simI) (use 3 c f(1,2) s'(6) in \<open>auto simp: a astep_defs alpha_def fun_eq_iff ipc_frame_def\<close>)
    with s'(1) show ?thesis by (auto simp: lock_at_def)
  qed
qed

lemma unlock_sim:
  assumes sm0: "sim s a" and en: "enabled (Unlock i) s"
  shows "\<exists>s'. kexec (Unlock i) s = Some s' \<and> sim s' (a_unlock i a)"
proof -
  from sm0 obtain R S W where ok: "ksys_ok s R S W" and a: "a = alpha s R S W" by (rule simE)
  let ?m = "mutexes s i"
  have k: "ksys_rep s R S W" and m: "\<And>i. lock_ok (mutexes s i) (W (MQ i))"
    and sm: "\<And>j. sem_ok (sems s j) (W (SQ j))"
    using ok by (auto simp: ksys_ok_def)
  note q = ksys_rep_queue(1-3)[OF k] ksys_rep_queue(4-6)[OF k, where q = "MQ i"]
  obtain c R' where c: "R = c # R'" "curr_task s = Some c" "c \<noteq> Idle_task"
    by (rule enabled_runner[OF q(1,2)]) (use en in auto)
  consider "owner ?m \<noteq> Some c" | "owner ?m = Some c" "locked_count ?m \<noteq> 1"
    | "owner ?m = Some c" "locked_count ?m = 1" "W (MQ i) = []"
    | w ws where "owner ?m = Some c" "locked_count ?m = 1" "W (MQ i) = w # ws"
    by (cases "W (MQ i)") auto
  then show ?thesis
  proof cases
    case 1
    then have "kexec (Unlock i) s = Some s" using c by (simp add: unlock_at_def mutex_unlock_other)
    moreover have "a_unlock i a = a" using 1 q(2) c by (simp add: a a_unlock_def)
    ultimately show ?thesis using sm0 by simp
  next
    case 2
    let ?s = "s\<lparr>mutexes := (mutexes s)(i := ?m\<lparr>locked_count := locked_count ?m - 1\<rparr>)\<rparr>"
    have "lock_ok (?m\<lparr>locked_count := locked_count ?m - 1\<rparr>) (W (MQ i))"
      using 2 m[of i] c by (auto simp: lock_ok_def)
    with m sm ksys_rep_same_queues[OF k] have "ksys_ok ?s R S W" by (simp add: ksys_ok_def)
    then have "sim ?s (a_unlock i a)" by (rule simI) (use 2 c in \<open>auto simp: a astep_defs alpha_def fun_eq_iff\<close>)
    then show ?thesis using mutex_unlock_nested[of ?m s] 2 c by (auto simp: unlock_at_def)
  next
    case 3
    let ?s = "s\<lparr>mutexes := (mutexes s)(i := ?m\<lparr>locked_count := 0, owner := None\<rparr>)\<rparr>"
    have "lock_ok (?m\<lparr>locked_count := 0, owner := None\<rparr>) (W (MQ i))"
      using 3 by (simp add: lock_ok_def)
    with m sm ksys_rep_same_queues[OF k] have "ksys_ok ?s R S W" by (simp add: ksys_ok_def)
    then have "sim ?s (a_unlock i a)" by (rule simI) (use 3 c in \<open>auto simp: a astep_defs alpha_def fun_eq_iff\<close>)
    then show ?thesis using mutex_unlock_last[of ?m s] 3 q(4) c by (auto simp: unlock_at_def)
  next
    case (4 w ws)
    obtain l s' where s': "mutex_unlock ?m s = Some (?m\<lparr>owner := Some w, wait_list := l\<rparr>, s')"
      "sched_rep s' (R @ [w]) S" "on_cpu s' (R @ [w])" "dll (wait_links s') l ws"
      "same_links (set (w # ws)) (wait_links s) (wait_links s')" "ipc_frame s s'"
      using mutex_unlock_handover[of s R S ?m w ws] q(1,2,4) q(6)[of w] c 4 by auto
    note f = ipc_frame_wlist[OF s'(6)]
    let ?s = "s'\<lparr>mutexes := (mutexes s')(i := ?m\<lparr>owner := Some w, wait_list := l\<rparr>)\<rparr>"
    have "ksys_rep ?s (R @ [w]) S (W(MQ i := ws))"
      by (rule ksys_rep_wake[OF k 4(3)]) (use s' f(3) 4 ipc_frame_timers[OF s'(6) q(3)] in simp_all)
    moreover have "distinct (w # ws)" using q(4) 4(3) by (auto dest: dll_simps(7))
    then have "lock_ok (?m\<lparr>owner := Some w, wait_list := l\<rparr>) ws"
      using 4 q(6)[of w] by (simp add: lock_ok_def)
    ultimately have "ksys_ok ?s (R @ [w]) S (W(MQ i := ws))"
      using m sm f(1,2) by (simp add: ksys_ok_def)
    then have "sim ?s (a_unlock i a)"
      by (rule simI) (use 4 c f(1,2) s'(6) in \<open>auto simp: a astep_defs alpha_def fun_eq_iff ipc_frame_def\<close>)
    with s'(1) show ?thesis by (auto simp: unlock_at_def)
  qed
qed

lemma wait_sim:
  assumes sm0: "sim s a" and en: "enabled (Wait j) s"
  shows "\<exists>s'. kexec (Wait j) s = Some s' \<and> sim s' (a_wait j a)"
proof -
  from sm0 obtain R S W where ok: "ksys_ok s R S W" and a: "a = alpha s R S W" by (rule simE)
  let ?m = "sems s j"
  have k: "ksys_rep s R S W" and m: "\<And>i. lock_ok (mutexes s i) (W (MQ i))"
    and sm: "\<And>j. sem_ok (sems s j) (W (SQ j))"
    using ok by (auto simp: ksys_ok_def)
  note q = ksys_rep_queue(1-3)[OF k] ksys_rep_queue(4-6)[OF k, where q = "SQ j"]
  obtain c R' where c: "R = c # R'" "curr_task s = Some c" "c \<noteq> Idle_task"
    by (rule enabled_runner[OF q(1,2)]) (use en in auto)
  show ?thesis
  proof (cases "0 < sem_value ?m")
    case True
    let ?s = "s\<lparr>sems := (sems s)(j := ?m\<lparr>sem_value := sem_value ?m - 1\<rparr>)\<rparr>"
    have "sem_ok (?m\<lparr>sem_value := sem_value ?m - 1\<rparr>) (W (SQ j))"
      using True sm[of j] by (simp add: sem_ok_def)
    with m sm ksys_rep_same_queues_sem[OF k] have "ksys_ok ?s R S W" by (simp add: ksys_ok_def)
    then have "sim ?s (a_wait j a)" by (rule simI) (use True in \<open>auto simp: a astep_defs alpha_def fun_eq_iff\<close>)
    then show ?thesis using sem_wait_pos[OF True, of s] by (auto simp: wait_at_def)
  next
    case False
    obtain l s' where s': "sem_wait ?m s = Some (?m\<lparr>sem_list := l\<rparr>, s')" "sched_rep s' R' S"
      "on_cpu s' R'" "dll (wait_links s') l (W (SQ j) @ [c])"
      "same_links (insert c (set (W (SQ j)))) (wait_links s) (wait_links s')" "ipc_frame s s'"
      using sem_wait_block[of s c R' S ?m "W (SQ j)"] q(1,2,4) q(5)[of c] c False by auto
    note f = ipc_frame_wlist[OF s'(6)]
    let ?s = "s'\<lparr>sems := (sems s')(j := ?m\<lparr>sem_list := l\<rparr>)\<rparr>"
    have "ksys_rep ?s R' S (W(SQ j := W (SQ j) @ [c]))"
    proof (rule ksys_rep_block)
      show "ksys_rep s (c # R') S W" using k c by simp
    qed (use s' f(3) ipc_frame_timers[OF s'(6) q(3)] in simp_all)
    moreover have "sem_ok (?m\<lparr>sem_list := l\<rparr>) (W (SQ j) @ [c])"
      using False sm[of j] by (simp add: sem_ok_def)
    ultimately have "ksys_ok ?s R' S (W(SQ j := W (SQ j) @ [c]))"
      using m sm f(1,2) by (simp add: ksys_ok_def)
    then have "sim ?s (a_wait j a)"
      by (rule simI) (use False c f(1,2) s'(6) in \<open>auto simp: a astep_defs alpha_def fun_eq_iff ipc_frame_def\<close>)
    with s'(1) show ?thesis by (auto simp: wait_at_def)
  qed
qed

lemma notify_sim:
  assumes sm0: "sim s a"
  shows "\<exists>s'. kexec (Notify j) s = Some s' \<and> sim s' (a_notify j a)"
proof -
  from sm0 obtain R S W where ok: "ksys_ok s R S W" and a: "a = alpha s R S W" by (rule simE)
  let ?m = "sems s j"
  have k: "ksys_rep s R S W" and m: "\<And>i. lock_ok (mutexes s i) (W (MQ i))"
    and sm: "\<And>j. sem_ok (sems s j) (W (SQ j))"
    using ok by (auto simp: ksys_ok_def)
  note q = ksys_rep_queue(1-3)[OF k] ksys_rep_queue(4-6)[OF k, where q = "SQ j"]
  show ?thesis
  proof (cases "W (SQ j)")
    case Nil
    let ?s = "s\<lparr>sems := (sems s)(j := ?m\<lparr>sem_value := sem_value ?m + 1\<rparr>)\<rparr>"
    have "sem_ok (?m\<lparr>sem_value := sem_value ?m + 1\<rparr>) (W (SQ j))"
      using Nil sm[of j] by (simp add: sem_ok_def)
    with m sm ksys_rep_same_queues_sem[OF k] have "ksys_ok ?s R S W" by (simp add: ksys_ok_def)
    then have "sim ?s (a_notify j a)" by (rule simI) (use Nil in \<open>auto simp: a astep_defs alpha_def fun_eq_iff\<close>)
    then show ?thesis using sem_notify_none[of s ?m] q(4) Nil by (auto simp: notify_at_def)
  next
    case (Cons w ws)
    obtain l s' where s': "sem_notify ?m s = Some (?m\<lparr>sem_list := l\<rparr>, s')"
      "sched_rep s' (R @ [w]) S" "on_cpu s' (R @ [w])" "dll (wait_links s') l ws"
      "same_links (set (w # ws)) (wait_links s) (wait_links s')" "ipc_frame s s'"
      using sem_notify_wake[of s R S ?m w ws] q(1,2,4) q(6)[of w] Cons by auto
    note f = ipc_frame_wlist[OF s'(6)]
    let ?s = "s'\<lparr>sems := (sems s')(j := ?m\<lparr>sem_list := l\<rparr>)\<rparr>"
    have "ksys_rep ?s (R @ [w]) S (W(SQ j := ws))"
      by (rule ksys_rep_wake[OF k Cons]) (use s' f(3) Cons ipc_frame_timers[OF s'(6) q(3)] in simp_all)
    moreover have "sem_ok (?m\<lparr>sem_list := l\<rparr>) ws"
      using sm[of j] Cons by (simp add: sem_ok_def)
    ultimately have "ksys_ok ?s (R @ [w]) S (W(SQ j := ws))"
      using m sm f(1,2) by (simp add: ksys_ok_def)
    then have "sim ?s (a_notify j a)"
      by (rule simI) (use Cons f(1,2) s'(6) in \<open>auto simp: a astep_defs alpha_def fun_eq_iff ipc_frame_def\<close>)
    with s'(1) show ?thesis by (auto simp: notify_at_def)
  qed
qed

lemma step_sim:
  assumes "sim s a" and "enabled e s"
  shows "\<exists>s'. kexec e s = Some s' \<and> sim s' (astep e a)"
  using assms tick_sim yield_sim sleep_sim start_sim lock_sim unlock_sim wait_sim notify_sim
  by (cases e) (simp_all del: kexec.simps enabled.simps)

section \<open>Boot and reachable states\<close>

text \<open>
  The queue part of \<^verbatim>\<open>task_manager_init\<close> and \<^verbatim>\<open>task_first_init\<close>, with every mutex
  and semaphore freshly initialised: the idle task is started (which queues nothing), then
  the first task is made current, its selector loaded and the task started.
\<close>

definition kboot :: "(nat \<Rightarrow> int) \<Rightarrow> ksys \<Rightarrow> ksys option" where
  "kboot n s =
    (let s = s\<lparr>curr_task := None, ready_list := list_init (ready_list s),
               task_list := list_init (task_list s), sleep_list := list_init (sleep_list s)\<rparr>;
         s = s\<lparr>mutexes := (\<lambda>i. mutex_init (mutexes s i)), sems := (\<lambda>j. sem_init (sems s j) (n j))\<rparr>
     in do {
       s \<leftarrow> task_start Idle_task s;
       let s = s\<lparr>tr := tss_sel (tasks s First_task), curr_task := Some First_task\<rparr>;
       task_start First_task s
     })"

definition fresh_timers :: "'m sched_scheme \<Rightarrow> bool" where
  "fresh_timers s \<longleftrightarrow> (\<forall>t. slice_ticks (tasks s t) = time_ticks (tasks s t))"

lemma kboot_ok:
  assumes n: "\<And>j. 0 \<le> n j" and fr: "fresh_timers s"
  shows "\<exists>s'. kboot n s = Some s' \<and> ksys_ok s' [First_task] [] (\<lambda>q. [])
    \<and> (\<forall>i. locked_count (mutexes s' i) = 0 \<and> owner (mutexes s' i) = None)"
proof -
  define s1 where "s1 = s\<lparr>curr_task := None, ready_list := list_init (ready_list s),
      task_list := list_init (task_list s), sleep_list := list_init (sleep_list s),
      mutexes := (\<lambda>i. mutex_init (mutexes s i)), sems := (\<lambda>j. sem_init (sems s j) (n j))\<rparr>"
  define s2 where "s2 = s1\<lparr>tr := tss_sel (tasks s1 First_task), curr_task := Some First_task\<rparr>"
  have ready_idle: "task_set_ready Idle_task x = Some x" for x :: ksys
    by (simp add: task_set_ready_def)
  have "sched_rep (cli_state s2) [] []"
    by (simp add: s1_def s2_def sched_rep_def dll_init)
  from set_ready_rep[OF this, of First_task]
  obtain s3 where s3: "task_set_ready First_task (cli_state s2) = Some s3"
    "sched_rep s3 [First_task] []" "sched_frame (cli_state s2) s3"
    "tasks s3 = (tasks s2)(First_task := (tasks s2 First_task)\<lparr>tstate := TASK_READY\<rparr>)" by auto
  let ?s = "s3\<lparr>eflags := (eflags s3)(Some First_task := eflags s2 (Some First_task))\<rparr>"
  have b: "kboot n s = Some ?s"
    using s3(1) by (simp add: kboot_def s1_def s2_def task_start_def ready_idle Let_def)
  have m: "mutexes s3 = (\<lambda>i. mutex_init (mutexes s i))" "sems s3 = (\<lambda>j. sem_init (sems s j) (n j))"
    using more_eqD[of s3 "cli_state s2"] s3(3) by (simp_all add: sched_frame_def s1_def s2_def)
  have w: "wlist ?s q = list_init (wlist s q)" for q
    by (cases q) (simp_all add: m mutex_init_def sem_init_def)
  have "on_cpu ?s [First_task]"
    using s3(3,4) by (simp add: on_cpu_def sched_frame_def s2_def)
  moreover have "timers_ok ?s []"
    using fr by (simp add: timers_ok_def fresh_timers_def s3(4) s1_def s2_def)
  ultimately have "ksys_rep ?s [First_task] [] (\<lambda>q. [])"
    using s3(2) w by (simp add: ksys_rep_def dll_init)
  with n b show ?thesis
    by (simp add: ksys_ok_def m lock_ok_def sem_ok_def mutex_init_def sem_init_def)
qed

inductive kreach :: "ksys \<Rightarrow> bool" where
  boot: "kboot n s = Some s' \<Longrightarrow> (\<And>j. 0 \<le> n j) \<Longrightarrow> fresh_timers s \<Longrightarrow> kreach s'"
| step: "kreach s \<Longrightarrow> kstep s e s' \<Longrightarrow> kreach s'"

lemma kstep_sim: "sim s a \<Longrightarrow> kstep s e s' \<Longrightarrow> sim s' (astep e a)"
  using step_sim by (fastforce simp: kstep_simps)

lemma kreach_sim: "kreach s \<Longrightarrow> \<exists>a. sim s a"
proof (induction rule: kreach.induct)
  case (boot n s s')
  then show ?case using kboot_ok[of n s] by (auto intro: simI)
next
  case (step s e s')
  then show ?case using kstep_sim by blast
qed

section \<open>Facts about the abstract machine\<close>

lemma sim_dll: "sim s a \<Longrightarrow> dll (wait_links s) (wlist s q) (awq a q)"
  by (auto simp: sim_def ksys_ok_def ksys_rep_def)

lemma sim_waiting: "sim s a \<Longrightarrow> waiting s q t \<longleftrightarrow> t \<in> set (awq a q)"
  using sim_dll[of s a q] by (auto simp: waiting_def dest: dll_unique)

lemma sim_reads:
  assumes "sim s a"
  shows "aowner a i = owner (mutexes s i)" and "acount a i = locked_count (mutexes s i)"
    and "avalue a j = sem_value (sems s j)" and "curr_task s = Some (runner (aready a))"
    and "list_count (wlist s q) = int (length (awq a q))"
    and "sched_rep s (aready a) (asleep a)" and "on_cpu s (aready a)"
proof -
  have e: "a = alpha s (aready a) (asleep a) (awq a)"
    and k: "ksys_ok s (aready a) (asleep a) (awq a)" using assms by (auto simp: sim_def)
  show "aowner a i = owner (mutexes s i)" "acount a i = locked_count (mutexes s i)"
    "avalue a j = sem_value (sems s j)" by (subst e; simp)+
  show "sched_rep s (aready a) (asleep a)" "on_cpu s (aready a)"
    using k by (auto simp: ksys_ok_def ksys_rep_def)
  then show "curr_task s = Some (runner (aready a))" by (simp add: on_cpu_def)
  show "list_count (wlist s q) = int (length (awq a q))"
    using sim_dll[OF assms, of q] by (rule dll_simps(2))
qed

lemma sim_objects:
  assumes "sim s a"
  shows "lock_ok (mutexes s i) (awq a (MQ i))" and "sem_ok (sems s j) (awq a (SQ j))"
  using assms by (auto simp: sim_def ksys_ok_def)

text \<open>A task leaves the queue of a mutex only as the new owner.\<close>

lemma astep_waiter:
  assumes "t \<in> set (awq a (MQ i))"
  shows "t \<in> set (awq (astep e a) (MQ i))
    \<or> aowner (astep e a) i = Some t \<and> acount (astep e a) i = 1 \<and> t \<in> set (aready (astep e a))"
  using assms by (cases e) (auto simp: astep_defs Let_def split: list.splits)

lemma astep_owner:
  assumes "aowner a i = Some t" and "runner (aready a) \<noteq> t" and "acount a i \<noteq> 0"
  shows "aowner (astep e a) i = Some t \<and> acount (astep e a) i = acount a i"
  using assms by (cases e) (auto simp: astep_defs Let_def split: list.splits)

lemma astep_sem:
  "avalue (astep e a) j - int (length (awq (astep e a) (SQ j)))
   = avalue a j - int (length (awq a (SQ j)))
     + (if e = Notify j then 1 else if e = Wait j then - 1 else 0)"
  by (cases e; cases "awq a (SQ j)") (auto simp: astep_defs Let_def split: list.splits)

text \<open>Which events the abstract state allows; runs of events.\<close>

fun a_enabled :: "kevent \<Rightarrow> asys \<Rightarrow> bool" where
  "a_enabled Tick a \<longleftrightarrow> True"
| "a_enabled (Notify j) a \<longleftrightarrow> True"
| "a_enabled (Sleep ms) a \<longleftrightarrow> runner (aready a) \<noteq> Idle_task \<and> ms < 2 ^ 31"
| "a_enabled (Start t) a \<longleftrightarrow> runner (aready a) \<noteq> Idle_task \<and> t \<noteq> Idle_task
     \<and> t \<notin> set (aready a) \<and> t \<notin> set (asleep a) \<and> (\<forall>q. t \<notin> set (awq a q))"
| "a_enabled e a \<longleftrightarrow> runner (aready a) \<noteq> Idle_task"

lemma sim_enabled:
  assumes "sim s a"
  shows "enabled e s = a_enabled e a"
proof -
  have "off_queues s t \<longleftrightarrow> t \<notin> set (aready a) \<and> t \<notin> set (asleep a) \<and> (\<forall>q. t \<notin> set (awq a q))" for t
    using sim_reads(6)[OF assms] sim_waiting[OF assms]
    by (auto simp: off_queues_def dest: sched_rep_unique)
  then show ?thesis using sim_reads(4)[OF assms] by (cases e) auto
qed

fun a_run :: "kevent list \<Rightarrow> asys \<Rightarrow> asys option" where
  "a_run [] a = Some a"
| "a_run (e # es) a = (if a_enabled e a then a_run es (astep e a) else None)"

lemma a_run_reach:
  "a_run es a = Some a' \<Longrightarrow> sim s a \<Longrightarrow> kreach s \<Longrightarrow> \<exists>s'. kreach s' \<and> sim s' a'"
proof (induction es arbitrary: a s)
  case Nil
  then show ?case by auto
next
  case (Cons e es)
  then have en: "a_enabled e a" and r: "a_run es (astep e a) = Some a'" by (auto split: if_splits)
  then have "enabled e s" using sim_enabled[OF Cons.prems(2)] by simp
  with step_sim[OF Cons.prems(2)] obtain s1 where s1: "kexec e s = Some s1" "sim s1 (astep e a)"
    by blast
  with \<open>enabled e s\<close> have "kstep s e s1" by (simp add: kstep_simps)
  then have "kreach s1" by (rule kreach.step[OF Cons.prems(3)])
  from Cons.IH[OF r s1(2) this] show ?case .
qed

lemma sim_kstep:
  assumes "sim s a" and "a_enabled e a"
  shows "\<exists>s'. kstep s e s' \<and> sim s' (astep e a)"
  using step_sim[OF assms(1)] assms sim_enabled[OF assms(1)] by (auto simp: kstep_simps)

section \<open>Properties\<close>

definition demo_ksys :: ksys where
  "demo_ksys = sched.extend demo_sched \<lparr>
     mutexes = (\<lambda>_. \<lparr>locked_count = 0, owner = None, wait_list = blank_list\<rparr>),
     sems = (\<lambda>_. \<lparr>sem_value = 1, sem_list = blank_list\<rparr>)\<rparr>"

definition demo_boot :: ksys where
  "demo_boot = (case kboot (\<lambda>_. 1) (demo_ksys\<lparr>tasks := \<lambda>_. blank_task\<rparr>) of
     Some s \<Rightarrow> s | None \<Rightarrow> demo_ksys)"

lemma demo_boot_ok:
  "kboot (\<lambda>_. 1) (demo_ksys\<lparr>tasks := \<lambda>_. blank_task\<rparr>) = Some demo_boot
   \<and> ksys_ok demo_boot [First_task] [] (\<lambda>q. [])
   \<and> (\<forall>i. locked_count (mutexes demo_boot i) = 0 \<and> owner (mutexes demo_boot i) = None)"
  using kboot_ok[of "\<lambda>_. 1" "demo_ksys\<lparr>tasks := \<lambda>_. blank_task\<rparr>"]
  by (auto simp: demo_boot_def fresh_timers_def blank_task_def)

lemma demo_boot_free: "locked_count (mutexes demo_boot i) = 0" "owner (mutexes demo_boot i) = None"
  using demo_boot_ok by simp_all

lemma demo_boot_reach: "kreach demo_boot"
  by (rule kreach.boot[OF demo_boot_ok[THEN conjunct1]])
    (simp_all add: fresh_timers_def blank_task_def)

lemma demo_boot_sim: "sim demo_boot (alpha demo_boot [First_task] [] (\<lambda>q. []))"
  using demo_boot_ok by (auto intro: simI)

lemma demo_boot_curr: "curr_task demo_boot = Some First_task"
  using sim_reads(4)[OF demo_boot_sim] by simp

text \<open>C1: The scheduler, the mutexes and the semaphores implement the abstract machine: from
  a state that represents an abstract one, every enabled event (clock tick, yield, sleep,
  lock, unlock, wait, notify) returns, and its result represents the abstract step's.\<close>

theorem kernel_refines:
  assumes "sim s a" and "enabled e s"
  shows "\<exists>s'. kexec e s = Some s' \<and> sim s' (astep e a)"
  using step_sim[OF assms] .

theorem kernel_refines_witness:
  "\<exists>s'. kexec (Lock 0) demo_boot = Some s'
    \<and> sim s' (astep (Lock 0) (alpha demo_boot [First_task] [] (\<lambda>q. [])))"
  by (rule kernel_refines[OF demo_boot_sim]) (simp add: demo_boot_curr)

text \<open>C2: From boot, the kernel never faults and never hangs in a scan: in every reachable
  state every enabled event has a successor, which is reachable.\<close>

theorem kernel_progress:
  assumes "kreach s" and "enabled e s"
  shows "\<exists>s'. kstep s e s' \<and> kreach s'"
proof -
  obtain a where "sim s a" using kreach_sim[OF assms(1)] by blast
  from step_sim[OF this assms(2)] assms(2) obtain s' where "kstep s e s'"
    by (auto simp: kstep_simps)
  with kreach.step[OF assms(1)] show ?thesis by blast
qed

theorem kernel_progress_witness: "\<exists>s'. kstep demo_boot (Wait 3) s' \<and> kreach s'"
  by (rule kernel_progress[OF demo_boot_reach]) (simp add: demo_boot_curr)

text \<open>C3: In every reachable state the ready queue, the sleep queue and the queues of all
  mutexes and semaphores are well-formed linked lists, no task is on two of them, the idle
  task is on none, and the running task is the head of the ready queue (the idle task when
  it is empty) with its selector in the task register.\<close>

theorem reachable_queues:
  assumes "kreach s"
  shows "\<exists>R S W. sched_rep s R S \<and> curr_task s = Some (runner R)
    \<and> tr s = tss_sel (tasks s (runner R)) \<and> (\<forall>q. dll (wait_links s) (wlist s q) (W q))
    \<and> (\<forall>q. set (W q) \<inter> (set R \<union> set S) = {} \<and> Idle_task \<notin> set (W q))
    \<and> (\<forall>q q'. q \<noteq> q' \<longrightarrow> set (W q) \<inter> set (W q') = {})"
proof -
  obtain a where "sim s a" using kreach_sim[OF assms] by blast
  then have "ksys_rep s (aready a) (asleep a) (awq a)" by (simp add: sim_def ksys_ok_def)
  then show ?thesis
    by (intro exI[of _ "aready a"] exI[of _ "asleep a"] exI[of _ "awq a"])
      (simp add: ksys_rep_def on_cpu_def)
qed

theorem reachable_queues_witness:
  "\<exists>R S W. sched_rep demo_boot R S \<and> curr_task demo_boot = Some (runner R)
    \<and> tr demo_boot = tss_sel (tasks demo_boot (runner R))
    \<and> (\<forall>q. dll (wait_links demo_boot) (wlist demo_boot q) (W q))
    \<and> (\<forall>q. set (W q) \<inter> (set R \<union> set S) = {} \<and> Idle_task \<notin> set (W q))
    \<and> (\<forall>q q'. q \<noteq> q' \<longrightarrow> set (W q) \<inter> set (W q') = {})"
  by (rule reachable_queues[OF demo_boot_reach])

text \<open>C4: No wake-up is lost: in every reachable state a free mutex has no waiter, a
  semaphore with a positive value has no waiter, and no semaphore value is negative.\<close>

theorem no_lost_wakeup:
  assumes "kreach s"
  shows "(owner (mutexes s i) = None \<longrightarrow> list_is_empty (wait_list (mutexes s i)))
    \<and> (0 < sem_value (sems s j) \<longrightarrow> list_is_empty (sem_list (sems s j)))
    \<and> 0 \<le> sem_value (sems s j)"
proof -
  obtain a where a: "sim s a" using kreach_sim[OF assms] by blast
  show ?thesis
    using sim_objects[OF a] dll_simps(1)[OF sim_dll[OF a, of "MQ i"]]
      dll_simps(1)[OF sim_dll[OF a, of "SQ j"]]
    by (auto simp: lock_ok_def sem_ok_def)
qed

theorem no_lost_wakeup_witness:
  "owner (mutexes demo_boot 0) = None \<and> list_is_empty (wait_list (mutexes demo_boot 0))
    \<and> 0 \<le> sem_value (sems demo_boot 0)"
  using no_lost_wakeup[OF demo_boot_reach, of 0 0] demo_boot_free[of 0] by simp

text \<open>C5: Mutual exclusion, the waiter's side: whatever happens next, a task that waits for
  a mutex either still waits for it, or it is the owner with count one and ready; so a
  task that returns from a contended \<^verbatim>\<open>mutex_lock\<close> holds the mutex.\<close>

theorem mutex_waiter_owns:
  assumes "kreach s" and "kstep s e s'" and "waiting s (MQ i) t"
  shows "waiting s' (MQ i) t \<or> owner (mutexes s' i) = Some t
    \<and> locked_count (mutexes s' i) = 1 \<and> (\<exists>R S. sched_rep s' R S \<and> t \<in> set R)"
proof -
  obtain a where a: "sim s a" using kreach_sim[OF assms(1)] by blast
  have a': "sim s' (astep e a)" by (rule kstep_sim[OF a assms(2)])
  have "t \<in> set (awq a (MQ i))" using assms(3) sim_waiting[OF a] by simp
  from astep_waiter[where e = e, OF this] show ?thesis
    using sim_reads(1,2,6)[OF a'] sim_waiting[OF a'] by auto
qed

text \<open>A contended state: the first task holds mutex 0, the second waits for it.\<close>

definition demo_events :: "kevent list" where
  "demo_events = [Start (Table_task 0), Lock 0, Yield, Lock 0]"

lemma demo_contended:
  "\<exists>s a. kreach s \<and> sim s a \<and> aready a = [First_task] \<and> awq a (MQ 0) = [Table_task 0]
     \<and> aowner a 0 = Some First_task \<and> acount a 0 = 1"
proof -
  let ?a = "alpha demo_boot [First_task] [] (\<lambda>q. [])"
  note m = demo_boot_free[of 0]
  obtain a where a: "a_run demo_events ?a = Some a" "aready a = [First_task]"
    "awq a (MQ 0) = [Table_task 0]" "aowner a 0 = Some First_task" "acount a 0 = 1"
    by (simp add: demo_events_def astep_defs m)
  from a_run_reach[OF a(1) demo_boot_sim demo_boot_reach] a(2-) show ?thesis by blast
qed

lemma demo_held:
  "\<exists>s a. kreach s \<and> sim s a \<and> aready a = [Table_task 0, First_task]
     \<and> aowner a 0 = Some First_task \<and> acount a 0 = 1"
proof -
  let ?a = "alpha demo_boot [First_task] [] (\<lambda>q. [])"
  note m = demo_boot_free[of 0]
  obtain a where a: "a_run (take 3 demo_events) ?a = Some a" "aready a = [Table_task 0, First_task]"
    "aowner a 0 = Some First_task" "acount a 0 = 1"
    by (simp add: demo_events_def astep_defs m)
  from a_run_reach[OF a(1) demo_boot_sim demo_boot_reach] a(2-) show ?thesis by blast
qed

theorem mutex_waiter_owns_witness:
  "\<exists>s s'. kreach s \<and> kstep s (Unlock 0) s' \<and> waiting s (MQ 0) (Table_task 0)
    \<and> (waiting s' (MQ 0) (Table_task 0) \<or> owner (mutexes s' 0) = Some (Table_task 0)
       \<and> locked_count (mutexes s' 0) = 1 \<and> (\<exists>R S. sched_rep s' R S \<and> Table_task 0 \<in> set R))"
proof -
  obtain s a where a: "kreach s" "sim s a" "aready a = [First_task]" "awq a (MQ 0) = [Table_task 0]"
    using demo_contended by blast
  obtain s' where s': "kstep s (Unlock 0) s'" using sim_kstep[OF a(2), of "Unlock 0"] a(3) by auto
  have w: "waiting s (MQ 0) (Table_task 0)" using sim_waiting[OF a(2)] a(4) by simp
  from mutex_waiter_owns[OF a(1) s' w] a(1) s' w show ?thesis by blast
qed

text \<open>Mutual exclusion, the owner's side: while a task other than the owner runs, no
  event takes the mutex away from its owner or changes its nesting count.\<close>

theorem mutex_owner_stable:
  assumes "kreach s" and "kstep s e s'" and "owner (mutexes s i) = Some t"
    and "curr_task s \<noteq> Some t"
  shows "owner (mutexes s' i) = Some t \<and> locked_count (mutexes s' i) = locked_count (mutexes s i)"
proof -
  obtain a where a: "sim s a" using kreach_sim[OF assms(1)] by blast
  have a': "sim s' (astep e a)" by (rule kstep_sim[OF a assms(2)])
  have "acount a i \<noteq> 0"
    using sim_objects(1)[OF a, of i] assms(3) sim_reads(2)[OF a, of i] by (simp add: lock_ok_def)
  then have "aowner (astep e a) i = Some t \<and> acount (astep e a) i = acount a i"
    using assms(3,4) sim_reads(1,4)[OF a] by (intro astep_owner) simp_all
  then show ?thesis using sim_reads(1,2)[OF a'] sim_reads(2)[OF a] by simp
qed

theorem mutex_owner_stable_witness:
  "\<exists>s s'. kreach s \<and> kstep s (Lock 0) s' \<and> owner (mutexes s 0) = Some First_task
    \<and> curr_task s \<noteq> Some First_task
    \<and> owner (mutexes s' 0) = Some First_task \<and> locked_count (mutexes s' 0) = locked_count (mutexes s 0)"
proof -
  obtain s a where a: "kreach s" "sim s a" "aready a = [Table_task 0, First_task]"
    "aowner a 0 = Some First_task"
    using demo_held by blast
  obtain s' where s': "kstep s (Lock 0) s'" using sim_kstep[OF a(2), of "Lock 0"] a(3) by auto
  have o: "owner (mutexes s 0) = Some First_task" "curr_task s \<noteq> Some First_task"
    using sim_reads(1,4)[OF a(2)] a(3,4) by simp_all
  from mutex_owner_stable[OF a(1) s' o] a(1) s' o show ?thesis by blast
qed

text \<open>A semaphore counts exactly: its value less its waiters grows by one with every
  notify, drops by one with every wait, and no other event changes it.\<close>

theorem sem_counts:
  assumes "kreach s" and "kstep s e s'"
  shows "sem_value (sems s' j) - list_count (sem_list (sems s' j))
    = sem_value (sems s j) - list_count (sem_list (sems s j))
      + (if e = Notify j then 1 else if e = Wait j then - 1 else 0)"
proof -
  obtain a where a: "sim s a" using kreach_sim[OF assms(1)] by blast
  have a': "sim s' (astep e a)" by (rule kstep_sim[OF a assms(2)])
  show ?thesis
    using astep_sem[of e a j] sim_reads(3)[OF a, of j] sim_reads(3)[OF a', of j]
      sim_reads(5)[OF a, of "SQ j"] sim_reads(5)[OF a', of "SQ j"] by simp
qed

theorem sem_counts_witness:
  "\<exists>s'. kstep demo_boot (Notify 0) s' \<and>
    sem_value (sems s' 0) - list_count (sem_list (sems s' 0))
    = sem_value (sems demo_boot 0) - list_count (sem_list (sems demo_boot 0))
      + (if Notify 0 = Notify 0 then 1 else if Notify 0 = Wait 0 then - 1 else 0)"
proof -
  obtain s' where "kstep demo_boot (Notify 0) s'"
    using sim_kstep[OF demo_boot_sim, of "Notify 0"] by auto
  with sem_counts[OF demo_boot_reach this, of 0] show ?thesis by blast
qed

text \<open>C6: Sleep is exact: a task that sleeps \<open>ms\<close> milliseconds stays on the sleep queue for
  every number of ticks below \<open>\<lceil>ms / 10\<rceil>\<close> and is ready after exactly that many.\<close>

theorem sleep_wakes_on_time:
  assumes "sched_rep s (c # R) S" and "on_cpu s (c # R)" and "0 < ms" and "ms < 2 ^ 31"
  shows "\<exists>s0. lib_sleep ms s = Some s0
    \<and> (\<forall>k < nat ((ms + 9) div 10).
         \<exists>s' R' S'. run_ticks k s0 = Some s' \<and> sched_rep s' R' S' \<and> c \<in> set S')
    \<and> (\<exists>s' R' S'. run_ticks (nat ((ms + 9) div 10)) s0 = Some s' \<and> sched_rep s' R' S' \<and> c \<in> set R')"
proof -
  let ?n = "nat ((ms + 9) div 10)"
  have n: "0 < ?n" using assms(3) by linarith
  note v = sleep_ticks_value[OF assms(3,4)]
  obtain s0 where s0: "sys_sleep (word_of_int ms) s = Some s0" "sched_rep s0 R (S @ [c])"
    "on_cpu s0 R" "sleep_ticks (tasks s0 c) = int ?n"
    using sleep_rep[OF assms(1,2), of "word_of_int ms"] v assms(3) by auto
  have "c \<in> set (S @ [c])" by simp
  note t = run_ticks_sleeping[OF s0(2,3) this s0(4)] run_ticks_woken[OF s0(2,3) this s0(4) n]
  have l: "lib_sleep ms s = Some s0" using s0(1) assms(3) by (simp add: lib_sleep_def)
  have "\<exists>s' R' S'. run_ticks k s0 = Some s' \<and> sched_rep s' R' S' \<and> c \<in> set S'" if "k < ?n" for k
    using t(1)[OF that] by blast
  with l t(2) show ?thesis by blast
qed

theorem sleep_wakes_on_time_witness:
  "\<exists>s0. lib_sleep 25 demo_sched = Some s0
    \<and> (\<forall>k < nat ((25 + 9) div 10).
         \<exists>s' R' S'. run_ticks k s0 = Some s' \<and> sched_rep s' R' S' \<and> First_task \<in> set S')
    \<and> (\<exists>s' R' S'. run_ticks (nat ((25 + 9) div 10)) s0 = Some s' \<and> sched_rep s' R' S'
         \<and> First_task \<in> set R')"
  by (rule sleep_wakes_on_time[OF demo_sched_rep demo_sched_cpu]) simp_all

text \<open>C7: Round robin: with positive slices, a ready task runs after exactly as many ticks
  as the slices left to the tasks ahead of it in the ready queue.\<close>

theorem round_robin:
  assumes "sched_rep s (A @ t # B) S" and "on_cpu s (A @ t # B)"
    and "\<And>u. u \<in> set A \<Longrightarrow> 0 < slice_ticks (tasks s u)"
  shows "\<exists>s'. run_ticks (nat (slices_ahead (tasks s) A)) s = Some s' \<and> curr_task s' = Some t"
proof -
  have "0 \<le> slices_ahead (tasks s) A"
    unfolding slices_ahead_def by (rule sum_list_nonneg) (auto dest: assms(3))
  then have "slices_ahead (tasks s) A = int (nat (slices_ahead (tasks s) A))" by simp
  from run_ticks_round_robin[OF assms this] show ?thesis by (auto simp: on_cpu_def)
qed

theorem round_robin_witness:
  "slices_ahead (tasks demo_sched) [First_task] = 3
   \<and> (\<exists>s'. run_ticks (nat (slices_ahead (tasks demo_sched) [First_task])) demo_sched = Some s'
        \<and> curr_task s' = Some (Table_task 1))"
proof
  show "slices_ahead (tasks demo_sched) [First_task] = 3"
    by (simp add: slices_ahead_def demo_sched_def)
  show "\<exists>s'. run_ticks (nat (slices_ahead (tasks demo_sched) [First_task])) demo_sched = Some s'
      \<and> curr_task s' = Some (Table_task 1)"
    by (rule round_robin[where B = "[]" and S = "[Table_task 0]"])
      (use demo_sched_rep demo_sched_cpu in \<open>simp_all add: demo_sched_def\<close>)
qed

text \<open>The system call itself loses a caller that asks for zero ticks: it is taken off
  the ready queue and put on no queue at all (the library stub's check is the only guard).\<close>

theorem sys_sleep_zero_lost:
  assumes "sched_rep s (c # R) S" and "on_cpu s (c # R)"
  shows "\<exists>s'. sys_sleep 0 s = Some s' \<and> sched_rep s' R S \<and> c \<notin> set R \<and> c \<notin> set S"
proof -
  have z: "sleep_ms_ticks 0 = 0" by (simp add: sleep_ms_ticks_def OS_TICKS_MS_def)
  show ?thesis
    using sleep_rep[OF assms, of 0] sched_rep_facts(4,6)[OF assms(1)] by (auto simp: z)
qed

theorem sys_sleep_zero_lost_witness:
  "\<exists>s'. sys_sleep 0 demo_sched = Some s' \<and> sched_rep s' [Table_task 1] [Table_task 0]
    \<and> First_task \<notin> set [Table_task 1] \<and> First_task \<notin> set [Table_task 0]"
  by (rule sys_sleep_zero_lost[OF demo_sched_rep demo_sched_cpu])

end
