(* ===== verification/Fifo.thy ===== *)
theory Fifo
  imports Prelude
begin

text \<open>
  The character queues of a terminal (\<^verbatim>\<open>tty_fifo_t\<close> in \<^verbatim>\<open>kernel/dev/tty.c\<close>):
  a ring buffer with a read index, a write index and a count.  The interrupt guard around
  both operations makes each of them one step.

  The locale \<open>bounded_queue\<close> is the contract the terminal relies on (a first-in first-out
  queue with a capacity); its interpretation \<open>tty_q\<close> shows that the ring buffer keeps it.
\<close>

section \<open>Data and operations\<close>

record tty_fifo_t =
  fbuf :: "u8 list"
  fsz :: int
  fread :: int
  fwrite :: int
  fcount :: int

definition tty_fifo_init :: "u8 list \<Rightarrow> int \<Rightarrow> tty_fifo_t" where
  "tty_fifo_init buf sz = \<lparr>fbuf = buf, fsz = sz, fread = 0, fwrite = 0, fcount = 0\<rparr>"

definition tty_fifo_put :: "tty_fifo_t \<Rightarrow> u8 \<Rightarrow> int \<times> tty_fifo_t" where
  "tty_fifo_put q c =
    (if fcount q \<ge> fsz q then (- 1, q)
     else let q = q\<lparr>fbuf := (fbuf q)[nat (fwrite q) := c], fwrite := fwrite q + 1\<rparr>;
              q = (if fwrite q \<ge> fsz q then q\<lparr>fwrite := 0\<rparr> else q)
          in (0, q\<lparr>fcount := fcount q + 1\<rparr>))"

text \<open>The second argument of \<open>tty_fifo_get\<close> is the caller's variable, unchanged on failure.\<close>

definition tty_fifo_get :: "tty_fifo_t \<Rightarrow> u8 \<Rightarrow> int \<times> u8 \<times> tty_fifo_t" where
  "tty_fifo_get q c =
    (if fcount q \<le> 0 then (- 1, c, q)
     else let c = fbuf q ! nat (fread q);
              q = q\<lparr>fread := fread q + 1\<rparr>;
              q = (if fread q \<ge> fsz q then q\<lparr>fread := 0\<rparr> else q)
          in (0, c, q\<lparr>fcount := fcount q - 1\<rparr>))"

section \<open>The contract\<close>

locale bounded_queue =
  fixes put :: "'q \<Rightarrow> 'c \<Rightarrow> int \<times> 'q"
    and get :: "'q \<Rightarrow> 'c \<Rightarrow> int \<times> 'c \<times> 'q"
    and valid :: "'q \<Rightarrow> bool"
    and contents :: "'q \<Rightarrow> 'c list"
    and capacity :: "'q \<Rightarrow> nat"
  assumes put_room: "valid q \<Longrightarrow> length (contents q) < capacity q \<Longrightarrow>
      \<exists>q'. put q c = (0, q') \<and> valid q' \<and> contents q' = contents q @ [c] \<and> capacity q' = capacity q"
    and put_full: "valid q \<Longrightarrow> \<not> length (contents q) < capacity q \<Longrightarrow> put q c = (- 1, q)"
    and get_first: "valid q \<Longrightarrow> contents q = c # cs \<Longrightarrow>
      \<exists>q'. get q d = (0, c, q') \<and> valid q' \<and> contents q' = cs \<and> capacity q' = capacity q"
    and get_empty: "valid q \<Longrightarrow> contents q = [] \<Longrightarrow> get q d = (- 1, d, q)"
begin

primrec put_all :: "'c list \<Rightarrow> 'q \<Rightarrow> 'q" where
  "put_all [] q = q"
| "put_all (c # cs) q = put_all cs (snd (put q c))"

primrec get_all :: "nat \<Rightarrow> 'c \<Rightarrow> 'q \<Rightarrow> 'c list \<times> 'q" where
  "get_all 0 d q = ([], q)"
| "get_all (Suc n) d q =
    (case get q d of (e, c, q) \<Rightarrow> case get_all n d q of (cs, q) \<Rightarrow> (c # cs, q))"

lemma put_all_room:
  "valid q \<Longrightarrow> length (contents q) + length cs \<le> capacity q \<Longrightarrow>
   valid (put_all cs q) \<and> contents (put_all cs q) = contents q @ cs \<and> capacity (put_all cs q) = capacity q"
proof (induction cs arbitrary: q)
  case (Cons c cs)
  obtain q' where q': "put q c = (0, q')" "valid q'" "contents q' = contents q @ [c]"
    "capacity q' = capacity q"
    using put_room[of q c] Cons.prems by auto
  show ?case using Cons.IH[of q'] Cons.prems q' by simp
qed simp

lemma get_all_contents:
  "valid q \<Longrightarrow> contents q = cs @ ds \<Longrightarrow>
   \<exists>q'. get_all (length cs) d q = (cs, q') \<and> valid q' \<and> contents q' = ds \<and> capacity q' = capacity q"
proof (induction cs arbitrary: q)
  case (Cons c cs)
  then obtain q' where q': "get q d = (0, c, q')" "valid q'" "contents q' = cs @ ds" "capacity q' = capacity q"
    using get_first[of q c "cs @ ds"] by auto
  with Cons.IH[of q'] show ?case by auto
qed simp

text \<open>What was put comes out behind what was there, in order.\<close>

lemma put_get:
  assumes "valid q" and "length (contents q) + length cs \<le> capacity q"
  shows "\<exists>q'. get_all (length (contents q) + length cs) d (put_all cs q) = (contents q @ cs, q')
    \<and> valid q' \<and> contents q' = []"
  using get_all_contents[of "put_all cs q" "contents q @ cs" "[]"] put_all_room[OF assms] by auto

end

section \<open>The ring buffer keeps the contract\<close>

definition fifo_ok :: "tty_fifo_t \<Rightarrow> bool" where
  "fifo_ok q \<longleftrightarrow> int (length (fbuf q)) = fsz q \<and> 0 < fsz q \<and> 0 \<le> fcount q \<and> fcount q \<le> fsz q
     \<and> 0 \<le> fread q \<and> fread q < fsz q \<and> fwrite q = (fread q + fcount q) mod fsz q"

definition fifo_contents :: "tty_fifo_t \<Rightarrow> u8 list" where
  "fifo_contents q = map (\<lambda>i. fbuf q ! nat ((fread q + int i) mod fsz q)) [0..<nat (fcount q)]"

lemma length_fifo_contents [simp]: "length (fifo_contents q) = nat (fcount q)"
  by (simp add: fifo_contents_def)

lemma wrap_succ: "0 \<le> a \<Longrightarrow> a < n \<Longrightarrow> (if a + 1 \<ge> n then 0 else a + 1) = (a + 1) mod (n :: int)"
  by (cases "a + 1 = n") auto

lemma ring_slots_differ:
  assumes "0 < n" and "0 \<le> i" and "i < k" and "k < (n :: int)"
  shows "(r + i) mod n \<noteq> (r + k) mod n"
proof
  assume "(r + i) mod n = (r + k) mod n"
  then have "n dvd (r + k) - (r + i)" by (metis mod_eq_dvd_iff)
  then have "n dvd k - i" by simp
  with assms zdvd_not_zless[of "k - i" n] show False by auto
qed

lemma fifo_put_room:
  assumes ok: "fifo_ok q" and room: "fcount q < fsz q"
  shows "\<exists>q'. tty_fifo_put q c = (0, q') \<and> fifo_ok q' \<and> fifo_contents q' = fifo_contents q @ [c]
    \<and> fsz q' = fsz q"
proof -
  let ?w = "fwrite q"
  have w: "0 \<le> ?w" "?w < fsz q" using ok by (simp_all add: fifo_ok_def)
  define q' where "q' = q\<lparr>fbuf := (fbuf q)[nat ?w := c], fwrite := (?w + 1) mod fsz q, fcount := fcount q + 1\<rparr>"
  have "tty_fifo_put q c = (0, q')"
    using room wrap_succ[OF w] by (auto simp: tty_fifo_put_def q'_def Let_def)
  moreover have "fifo_ok q'"
  proof -
    have "((fread q + fcount q) mod fsz q + 1) mod fsz q = (fread q + (fcount q + 1)) mod fsz q"
      by (simp add: mod_add_left_eq add.assoc)
    with ok room show ?thesis by (simp add: fifo_ok_def q'_def)
  qed
  moreover have "fifo_contents q' = fifo_contents q @ [c]"
  proof -
    have n: "nat (fcount q + 1) = Suc (nat (fcount q))"
      using ok by (simp add: fifo_ok_def nat_add_distrib)
    have old: "(fbuf q)[nat ?w := c] ! nat ((fread q + int i) mod fsz q) = fbuf q ! nat ((fread q + int i) mod fsz q)"
      if "i < nat (fcount q)" for i
    proof -
      have "(fread q + int i) mod fsz q \<noteq> (fread q + fcount q) mod fsz q"
        by (rule ring_slots_differ) (use ok room that in \<open>auto simp: fifo_ok_def\<close>)
      moreover have "0 \<le> (fread q + int i) mod fsz q" using ok by (simp add: fifo_ok_def)
      ultimately have "nat ((fread q + int i) mod fsz q) \<noteq> nat ?w"
        using ok w nat_eq_iff2 by (auto simp: fifo_ok_def)
      then show ?thesis by simp
    qed
    have new: "(fbuf q)[nat ?w := c] ! nat ((fread q + fcount q) mod fsz q) = c"
    proof -
      have "nat ?w < length (fbuf q)" using ok w by (simp add: fifo_ok_def nat_less_iff)
      moreover have "(fread q + fcount q) mod fsz q = ?w" using ok by (simp add: fifo_ok_def)
      ultimately show ?thesis by simp
    qed
    show ?thesis
      using old new ok by (simp add: fifo_contents_def q'_def n fifo_ok_def del: fun_upd_apply)
  qed
  ultimately show ?thesis by (auto simp: q'_def)
qed

lemma fifo_get_first:
  assumes ok: "fifo_ok q" and c: "fifo_contents q = c # cs"
  shows "\<exists>q'. tty_fifo_get q d = (0, c, q') \<and> fifo_ok q' \<and> fifo_contents q' = cs \<and> fsz q' = fsz q"
proof -
  let ?r = "fread q"
  have r: "0 \<le> ?r" "?r < fsz q" using ok by (simp_all add: fifo_ok_def)
  obtain n where n: "nat (fcount q) = Suc n" using arg_cong[OF c, of length] by auto
  then have cnt: "fcount q = 1 + int n" by simp
  define q' where "q' = q\<lparr>fread := (?r + 1) mod fsz q, fcount := fcount q - 1\<rparr>"
  have split: "fifo_contents q = fbuf q ! nat ?r # fifo_contents q'"
  proof -
    have s: "[0..<Suc n] = 0 # map Suc [0..<n]" unfolding map_Suc_upt by (rule upt_conv_Cons) simp
    have "(?r + int (Suc i)) mod fsz q = ((?r + 1) mod fsz q + int i) mod fsz q" for i
      by (simp add: mod_add_left_eq add.assoc)
    moreover have "?r mod fsz q = ?r" using r by simp
    ultimately show ?thesis
      unfolding fifo_contents_def n s list.map map_map comp_def by (simp add: q'_def cnt)
  qed
  have "tty_fifo_get q d = (0, fbuf q ! nat ?r, q')"
    using cnt wrap_succ[OF r] by (auto simp: tty_fifo_get_def q'_def Let_def)
  moreover have "fifo_ok q'"
  proof -
    have "((?r + 1) mod fsz q + (fcount q - 1)) mod fsz q = (?r + fcount q) mod fsz q"
      by (simp add: mod_add_left_eq)
    with ok cnt show ?thesis by (simp add: fifo_ok_def q'_def)
  qed
  ultimately show ?thesis using split c by (auto simp: q'_def)
qed

interpretation tty_q: bounded_queue tty_fifo_put tty_fifo_get fifo_ok fifo_contents "\<lambda>q. nat (fsz q)"
proof (unfold_locales, goal_cases)
  case (1 q c)
  then show ?case using fifo_put_room[of q c] by (auto simp: fifo_ok_def)
next
  case (2 q c)
  then show ?case by (auto simp: tty_fifo_put_def fifo_ok_def)
next
  case (3 q c cs d)
  then show ?case using fifo_get_first[of q c cs d] by auto
next
  case (4 q d)
  then show ?case using length_fifo_contents[of q] by (auto simp: tty_fifo_get_def)
qed

lemma fifo_init_ok:
  "int (length buf) = n \<Longrightarrow> 0 < n \<Longrightarrow> fifo_ok (tty_fifo_init buf n) \<and> fifo_contents (tty_fifo_init buf n) = []"
  by (simp add: fifo_ok_def fifo_contents_def tty_fifo_init_def)

section \<open>Properties\<close>

text \<open>The terminal's ring buffer is a bounded first-in first-out queue: put appends while
  there is room and refuses otherwise, get takes the oldest character and refuses on an
  empty queue.\<close>

theorem fifo_refines:
  assumes "fifo_ok q"
  shows "(if length (fifo_contents q) < nat (fsz q)
      then \<exists>q'. tty_fifo_put q c = (0, q') \<and> fifo_ok q' \<and> fifo_contents q' = fifo_contents q @ [c]
        \<and> fsz q' = fsz q
      else tty_fifo_put q c = (- 1, q))
    \<and> (case fifo_contents q of
        [] \<Rightarrow> tty_fifo_get q d = (- 1, d, q)
      | x # xs \<Rightarrow> \<exists>q'. tty_fifo_get q d = (0, x, q') \<and> fifo_ok q' \<and> fifo_contents q' = xs \<and> fsz q' = fsz q)"
  using fifo_put_room[OF assms, of c] tty_q.put_full[OF assms, of c] fifo_get_first[OF assms, of _ _ d]
    tty_q.get_empty[OF assms, of d]
  by (auto split: list.split)

theorem fifo_refines_witness:
  "let q = snd (tty_fifo_put (tty_fifo_init [0, 0] 2) 65)
   in (\<exists>q'. tty_fifo_put q 66 = (0, q') \<and> fifo_contents q' = [65, 66]) \<and> fst (tty_fifo_get q 0) = 0"
proof -
  let ?q0 = "tty_fifo_init [0, 0 :: u8] 2"
  have i: "fifo_ok ?q0" "fifo_contents ?q0 = []" using fifo_init_ok[of "[0, 0]" 2] by simp_all
  have s: "fsz ?q0 = 2" by (simp add: tty_fifo_init_def)
  obtain q where q: "tty_fifo_put ?q0 65 = (0, q)" "fifo_ok q" "fifo_contents q = [65]" "fsz q = 2"
    using fifo_refines[OF i(1), of 65] i(2) s by auto
  with fifo_refines[OF q(2), of 66 0] show ?thesis by auto
qed

end
