(* ===== verification/Console.thy ===== *)
theory Console
  imports Ipc
begin

text \<open>
  The text consoles of \<^verbatim>\<open>kernel/dev/console.c\<close>: cursor movement, scrolling, the escape
  sequence automaton and the erasing operations.

  Video memory is a map from cell addresses (byte address divided by two) to display
  cells; all consoles share it, each with a window of 80 x 25 cells from \<open>disp_base\<close>.  It
  is a total map, so a write outside a console's window changes whatever lies there.  A
  function takes the console and the video memory and returns both; \<open>None\<close> is an access
  outside \<open>esc_param\<close>.  Cursor arithmetic is on 32-bit ints.  The unused bit of a cell and
  the CRT's cursor registers are not modelled.
\<close>

section \<open>Data\<close>

datatype color_t =
  COLOR_Black | COLOR_Blue | COLOR_Green | COLOR_Cyan | COLOR_Red | COLOR_Magenta | COLOR_Brown
  | COLOR_Gray | COLOR_Dark_Gray | COLOR_Light_Blue | COLOR_Light_Green | COLOR_Light_Cyan
  | COLOR_Light_Red | COLOR_Light_Magenta | COLOR_Yellow | COLOR_White

fun color_code :: "color_t \<Rightarrow> int" where
  "color_code COLOR_Black = 0"
| "color_code COLOR_Blue = 1"
| "color_code COLOR_Green = 2"
| "color_code COLOR_Cyan = 3"
| "color_code COLOR_Red = 4"
| "color_code COLOR_Magenta = 5"
| "color_code COLOR_Brown = 6"
| "color_code COLOR_Gray = 7"
| "color_code COLOR_Dark_Gray = 8"
| "color_code COLOR_Light_Blue = 9"
| "color_code COLOR_Light_Green = 10"
| "color_code COLOR_Light_Cyan = 11"
| "color_code COLOR_Light_Red = 12"
| "color_code COLOR_Light_Magenta = 13"
| "color_code COLOR_Yellow = 14"
| "color_code COLOR_White = 15"

definition DEFAULT_FOREGROUND :: color_t where "DEFAULT_FOREGROUND = COLOR_Gray"

record disp_char_t =
  dchar :: u8
  dfg :: "4 word"
  dbg :: "3 word"

datatype write_state = CONSOLE_WRITE_NORMAL | CONSOLE_WRITE_ESC | CONSOLE_WRITE_SQUARE

datatype console_mode = CMD_MODE | EDITOR_MODE

record history_command_t =
  htime :: int
  hcmd :: "u8 list"

record console_t =
  wstate :: write_state
  disp_base :: int
  cursor_row :: int
  cursor_col :: int
  display_rows :: int
  display_cols :: int
  foreground :: color_t
  background :: color_t
  old_cursor_row :: int
  old_cursor_col :: int
  esc_param :: "int list"
  curr_param_index :: int
  cmutex :: mutex_t
  his_idx :: int
  curr_his_idx :: int
  input_len :: int
  his_cmds :: "history_command_t list"
  cmode :: console_mode

type_synonym vram = "int \<Rightarrow> disp_char_t"

definition CONSOLE_DISP_ADDR :: int where "CONSOLE_DISP_ADDR = 0xb8000"
definition CONSOLE_ROW_MAX :: int where "CONSOLE_ROW_MAX = 25"
definition CONSOLE_COL_MAX :: int where "CONSOLE_COL_MAX = 80"
definition CONSOLE_NR :: nat where "CONSOLE_NR = 8"
definition ASCII_ESC :: u8 where "ASCII_ESC = 0x1b"
definition ESC_PARAM_MAX :: int where "ESC_PARAM_MAX = 10"
definition MAX_SAVE_CMDS_NR :: int where "MAX_SAVE_CMDS_NR = 100"
definition CLI_INPUT_SIZE :: nat where "CLI_INPUT_SIZE = 128"

section \<open>Cells and scrolling\<close>

definition set_cell :: "console_t \<Rightarrow> u8 \<Rightarrow> disp_char_t" where
  "set_cell c ch = \<lparr>dchar = ch, dfg = word_of_int (color_code (foreground c)),
     dbg = word_of_int (color_code (background c))\<rparr>"

primrec erase_cells :: "nat \<Rightarrow> int \<Rightarrow> console_t \<Rightarrow> vram \<Rightarrow> vram" where
  "erase_cells 0 p c v = v"
| "erase_cells (Suc n) p c v = erase_cells n (p + 1) c (v(p := set_cell c 32))"

definition erase_rows :: "console_t \<Rightarrow> int \<Rightarrow> int \<Rightarrow> vram \<Rightarrow> vram" where
  "erase_rows c start_row end_row v =
    (let disp_start = disp_base c + display_cols c * start_row;
         disp_end = disp_base c + display_cols c * (end_row + 1)
     in erase_cells (nat (disp_end - disp_start)) disp_start c v)"

primrec copy_cells :: "nat \<Rightarrow> int \<Rightarrow> int \<Rightarrow> vram \<Rightarrow> vram" where
  "copy_cells 0 d s v = v"
| "copy_cells (Suc n) d s v = copy_cells n (d + 1) (s + 1) (v(d := v s))"

definition scroll_up :: "int \<Rightarrow> console_t \<Rightarrow> vram \<Rightarrow> console_t \<times> vram" where
  "scroll_up n c v =
    (let v = copy_cells (nat ((display_rows c - n) * display_cols c)) (disp_base c)
               (disp_base c + display_cols c * n) v;
         v = erase_rows c (display_rows c - n) (display_rows c - 1) v
     in (c\<lparr>cursor_row := cursor_row c - n\<rparr>, v))"

primrec move_forward :: "nat \<Rightarrow> console_t \<Rightarrow> vram \<Rightarrow> console_t \<times> vram" where
  "move_forward 0 c v = (c, v)"
| "move_forward (Suc n) c v =
    (let c = c\<lparr>cursor_col := to_int32 (cursor_col c + 1)\<rparr>;
         (c, v) =
           (if cursor_col c \<ge> display_cols c
            then let c = c\<lparr>cursor_row := to_int32 (cursor_row c + 1), cursor_col := 0\<rparr>
                 in if cursor_row c \<ge> display_rows c then scroll_up 1 c v else (c, v)
            else (c, v))
     in move_forward n c v)"

definition show_char :: "u8 \<Rightarrow> console_t \<Rightarrow> vram \<Rightarrow> console_t \<times> vram" where
  "show_char ch c v =
    (let p = disp_base c + to_int32 (cursor_col c + cursor_row c * display_cols c)
     in move_forward 1 c (v(p := set_cell c ch)))"

definition clear_display :: "console_t \<Rightarrow> vram \<Rightarrow> vram" where
  "clear_display c v = erase_cells (nat (display_cols c * display_rows c)) (disp_base c) c v"

definition move_to_col0 :: "console_t \<Rightarrow> console_t" where
  "move_to_col0 c = c\<lparr>cursor_col := 0\<rparr>"

definition move_next_line :: "console_t \<Rightarrow> vram \<Rightarrow> console_t \<times> vram" where
  "move_next_line c v =
    (let c = c\<lparr>cursor_row := to_int32 (cursor_row c + 1)\<rparr>
     in if cursor_row c \<ge> display_rows c then scroll_up 1 c v else (c, v))"

fun move_back :: "nat \<Rightarrow> int \<Rightarrow> console_t \<Rightarrow> int \<times> console_t" where
  "move_back 0 st c = (st, c)"
| "move_back (Suc n) st c =
    (if cursor_col c > 0 then move_back n 0 (c\<lparr>cursor_col := cursor_col c - 1\<rparr>)
     else if cursor_row c > 0
     then move_back n 0 (c\<lparr>cursor_row := cursor_row c - 1, cursor_col := display_cols c - 1\<rparr>)
     else move_back n st c)"

definition move_backword :: "nat \<Rightarrow> console_t \<Rightarrow> int \<times> console_t" where
  "move_backword n c = move_back n (- 1) c"

primrec erase_back :: "nat \<Rightarrow> console_t \<Rightarrow> vram \<Rightarrow> console_t \<times> vram" where
  "erase_back 0 c v = (c, v)"
| "erase_back (Suc n) c v =
    (let (st, c) = move_backword 1 c;
         (c, v) = (if st = 0 then let (c, v) = show_char 32 c v in (snd (move_backword 1 c), v)
                   else (c, v))
     in erase_back n c v)"

definition erase_backword :: "int \<Rightarrow> console_t \<Rightarrow> vram \<Rightarrow> console_t \<times> vram" where
  "erase_backword n c v =
    (if n \<noteq> 0
     then let (c, v) = erase_back (nat n) c v in (c\<lparr>input_len := input_len c - n\<rparr>, v)
     else (c, v))"

section \<open>Initialisation\<close>

definition history_command_init :: "history_command_t \<Rightarrow> history_command_t" where
  "history_command_init h = h\<lparr>htime := 0, hcmd := replicate CLI_INPUT_SIZE 0\<rparr>"

text \<open>\<open>cursor_pos\<close> is what the CRT controller reports for the first console.\<close>

definition console_init :: "int \<Rightarrow> nat \<Rightarrow> console_t \<Rightarrow> vram \<Rightarrow> console_t \<times> vram" where
  "console_init cursor_pos idx c v =
    (let c = c\<lparr>background := COLOR_Black, foreground := DEFAULT_FOREGROUND,
               display_cols := CONSOLE_COL_MAX, display_rows := CONSOLE_ROW_MAX,
               disp_base := CONSOLE_DISP_ADDR div 2 + int idx * (CONSOLE_COL_MAX * CONSOLE_ROW_MAX)\<rparr>;
         (c, v) =
           (if idx = 0
            then (c\<lparr>cursor_col := c_mod cursor_pos (display_cols c),
                    cursor_row := c_div cursor_pos (display_cols c)\<rparr>, v)
            else (c\<lparr>cursor_col := 0, cursor_row := 0\<rparr>, clear_display c v));
         c = c\<lparr>old_cursor_row := cursor_row c, old_cursor_col := cursor_col c,
               wstate := CONSOLE_WRITE_NORMAL, cmode := CMD_MODE, input_len := 0,
               cmutex := mutex_init (cmutex c),
               his_idx := MAX_SAVE_CMDS_NR - 1, curr_his_idx := MAX_SAVE_CMDS_NR - 1,
               his_cmds := map history_command_init (his_cmds c)\<rparr>
     in (c, v))"

section \<open>Characters and escape sequences\<close>

text \<open>
  The result's first component tells whether the character rings the bell; the caller
  runs \<open>start_beep\<close> then, which is all this branch does.
\<close>

definition write_normal :: "u8 \<Rightarrow> console_t \<Rightarrow> vram \<Rightarrow> bool \<times> console_t \<times> vram" where
  "write_normal ch c v =
    (if ch = ASCII_ESC then (False, c\<lparr>wstate := CONSOLE_WRITE_ESC\<rparr>, v)
     else if ch = 0x7f then (False, erase_backword 1 c v)
     else if ch = 7 then (True, c, v)
     else if ch = 8 then (False, snd (move_backword 1 c), v)
     else if ch = 13 then (False, move_to_col0 c, v)
     else if ch = 10 then (False, move_next_line c v)
     else if 32 \<le> sint ch \<and> sint ch \<le> 126 then (False, show_char ch c v)
     else (False, c, v))"

definition save_cursor :: "console_t \<Rightarrow> console_t" where
  "save_cursor c = c\<lparr>old_cursor_col := cursor_col c, old_cursor_row := cursor_row c\<rparr>"

definition restore_cursor :: "console_t \<Rightarrow> console_t" where
  "restore_cursor c = c\<lparr>cursor_col := old_cursor_col c, cursor_row := old_cursor_row c\<rparr>"

definition clear_esc_param :: "console_t \<Rightarrow> console_t" where
  "clear_esc_param c = c\<lparr>esc_param := replicate (nat ESC_PARAM_MAX) 0, curr_param_index := 0\<rparr>"

definition color_table :: "color_t list" where
  "color_table = [COLOR_Black, COLOR_Red, COLOR_Green, COLOR_Yellow,
     COLOR_Blue, COLOR_Magenta, COLOR_Cyan, COLOR_White]"

definition style_param :: "int \<Rightarrow> console_t \<Rightarrow> console_t" where
  "style_param param c =
    (if 30 \<le> param \<and> param \<le> 37 then c\<lparr>foreground := color_table ! nat (param - 30)\<rparr>
     else if 40 \<le> param \<and> param \<le> 47 then c\<lparr>background := color_table ! nat (param - 40)\<rparr>
     else if param = 39 then c\<lparr>foreground := DEFAULT_FOREGROUND\<rparr>
     else if param = 49 then c\<lparr>background := COLOR_Black\<rparr>
     else c)"

definition set_font_style :: "console_t \<Rightarrow> console_t option" where
  "set_font_style c =
    (let n = nat (curr_param_index c + 1)
     in if n \<le> length (esc_param c) then Some (fold style_param (take n (esc_param c)) c) else None)"

definition write_esc :: "u8 \<Rightarrow> console_t \<Rightarrow> console_t" where
  "write_esc ch c =
    (if ch = of_char CHR ''7'' then (save_cursor c)\<lparr>wstate := CONSOLE_WRITE_NORMAL\<rparr>
     else if ch = of_char CHR ''8'' then (restore_cursor c)\<lparr>wstate := CONSOLE_WRITE_NORMAL\<rparr>
     else if ch = of_char CHR ''['' then (clear_esc_param c)\<lparr>wstate := CONSOLE_WRITE_SQUARE\<rparr>
     else c\<lparr>wstate := CONSOLE_WRITE_NORMAL\<rparr>)"

definition move_left :: "int \<Rightarrow> console_t \<Rightarrow> console_t" where
  "move_left n c =
    (let n = (if n = 0 then 1 else n); col = to_int32 (cursor_col c - n)
     in c\<lparr>cursor_col := (if col \<ge> 0 then col else 0)\<rparr>)"

definition move_right :: "int \<Rightarrow> console_t \<Rightarrow> console_t" where
  "move_right n c =
    (let n = (if n = 0 then 1 else n); col = to_int32 (cursor_col c + n)
     in c\<lparr>cursor_col := (if col \<ge> display_cols c then display_cols c - 1 else col)\<rparr>)"

definition move_cursor :: "console_t \<Rightarrow> console_t" where
  "move_cursor c = c\<lparr>cursor_row := esc_param c ! 0, cursor_col := esc_param c ! 1\<rparr>"

definition erase_in_display :: "console_t \<Rightarrow> vram \<Rightarrow> console_t \<times> vram" where
  "erase_in_display c v =
    (if curr_param_index c < 0 then (c, v)
     else if esc_param c ! 0 = 2
     then (c\<lparr>cursor_col := 0, cursor_row := 0\<rparr>, erase_rows c 0 (display_cols c - 1) v)
     else (c, v))"

definition write_esc_square :: "u8 \<Rightarrow> console_t \<Rightarrow> vram \<Rightarrow> (console_t \<times> vram) option" where
  "write_esc_square ch c v =
    (if of_char CHR ''0'' \<le> ch \<and> ch \<le> of_char CHR ''9''
     then let i = nat (curr_param_index c)
          in if i < length (esc_param c)
             then Some (c\<lparr>esc_param := (esc_param c)[i := to_int32 (esc_param c ! i * 10 + sint ch - 48)]\<rparr>, v)
             else None
     else if ch = of_char CHR '';'' \<and> curr_param_index c < ESC_PARAM_MAX
     then Some (c\<lparr>curr_param_index := curr_param_index c + 1\<rparr>, v)
     else do {
       (c, v) \<leftarrow>
         (if ch = of_char CHR ''m'' then map_option (\<lambda>c. (c, v)) (set_font_style c)
          else if ch = of_char CHR ''D'' then Some (move_left (esc_param c ! 0) c, v)
          else if ch = of_char CHR ''C'' then Some (move_right (esc_param c ! 0) c, v)
          else if ch = of_char CHR ''H'' \<or> ch = of_char CHR ''f'' then Some (move_cursor c, v)
          else if ch = of_char CHR ''J'' then Some (erase_in_display c v)
          else Some (c, v));
       Some (c\<lparr>wstate := CONSOLE_WRITE_NORMAL\<rparr>, v)
     })"

text \<open>One character through the automaton (the \<open>switch\<close> in \<open>console_write\<close>).\<close>

definition console_char :: "u8 \<Rightarrow> console_t \<Rightarrow> vram \<Rightarrow> (bool \<times> console_t \<times> vram) option" where
  "console_char ch c v =
    (case wstate c of
       CONSOLE_WRITE_NORMAL \<Rightarrow> Some (write_normal ch c v)
     | CONSOLE_WRITE_ESC \<Rightarrow> Some (False, write_esc ch c, v)
     | CONSOLE_WRITE_SQUARE \<Rightarrow> map_option (\<lambda>(c, v). (False, c, v)) (write_esc_square ch c v))"

text \<open>A string through the automaton, bells aside.\<close>

primrec console_run :: "u8 list \<Rightarrow> console_t \<Rightarrow> vram \<Rightarrow> (console_t \<times> vram) option" where
  "console_run [] c v = Some (c, v)"
| "console_run (ch # chs) c v =
    do { (b, c, v) \<leftarrow> console_char ch c v; console_run chs c v }"

lemma console_run_append:
  "console_run (xs @ ys) c v = do { (c, v) \<leftarrow> console_run xs c v; console_run ys c v }"
  by (induction xs arbitrary: c v) (auto split: Option.bind_splits)

section \<open>Cells after erasing, copying and scrolling\<close>

lemma erase_cells_at:
  "erase_cells n p c v q = (if p \<le> q \<and> q < p + int n then set_cell c 32 else v q)"
  by (induction n arbitrary: p v) auto

lemma copy_cells_at:
  "0 < k \<Longrightarrow> copy_cells n d (d + k) v q = (if d \<le> q \<and> q < d + int n then v (q + k) else v q)"
proof (induction n arbitrary: d v)
  case (Suc n)
  have "copy_cells (Suc n) d (d + k) v q = copy_cells n (d + 1) (d + 1 + k) (v(d := v (d + k))) q"
    by (simp add: algebra_simps)
  also have "\<dots> = (if d + 1 \<le> q \<and> q < d + 1 + int n then (v(d := v (d + k))) (q + k)
      else (v(d := v (d + k))) q)"
    by (rule Suc.IH[OF Suc.prems])
  finally show ?case using Suc.prems by auto
qed auto

text \<open>\<open>geom c\<close>: the dimensions are those of \<open>console_init\<close>; \<open>console_ok\<close>: cursor, saved cursor
  and parameter index are in range as well.\<close>

definition geom :: "console_t \<Rightarrow> bool" where
  "geom c \<longleftrightarrow> display_cols c = 80 \<and> display_rows c = 25"

definition console_ok :: "console_t \<Rightarrow> bool" where
  "console_ok c \<longleftrightarrow> geom c \<and> 0 \<le> cursor_row c \<and> cursor_row c < 25 \<and> 0 \<le> cursor_col c \<and> cursor_col c < 80
     \<and> 0 \<le> old_cursor_row c \<and> old_cursor_row c < 25 \<and> 0 \<le> old_cursor_col c \<and> old_cursor_col c < 80
     \<and> length (esc_param c) = 10 \<and> 0 \<le> curr_param_index c \<and> curr_param_index c \<le> 10"

definition cpos :: "console_t \<Rightarrow> int" where
  "cpos c = cursor_row c * 80 + cursor_col c"

lemma geom_upd [simp]:
  "geom (c\<lparr>cursor_row := r\<rparr>) = geom c" "geom (c\<lparr>cursor_col := k\<rparr>) = geom c"
  "geom (c\<lparr>input_len := i\<rparr>) = geom c" "geom (c\<lparr>wstate := w\<rparr>) = geom c"
  by (simp_all add: geom_def)

lemma console_ok_geom: "console_ok c \<Longrightarrow> geom c"
  by (simp add: console_ok_def)

lemma cpos_upd [simp]:
  "cpos (c\<lparr>input_len := i\<rparr>) = cpos c" "cpos (c\<lparr>wstate := w\<rparr>) = cpos c"
  by (simp_all add: cpos_def)

lemma cpos_range: "console_ok c \<Longrightarrow> 0 \<le> cpos c \<and> cpos c < 2000"
  by (auto simp: console_ok_def cpos_def)

lemma console_ok_move:
  "console_ok c \<Longrightarrow> 0 \<le> r \<Longrightarrow> r < 25 \<Longrightarrow> 0 \<le> k \<Longrightarrow> k < 80 \<Longrightarrow> console_ok (c\<lparr>cursor_row := r, cursor_col := k\<rparr>)"
  by (simp add: console_ok_def)

lemma set_cell_upd [simp]:
  "set_cell (c\<lparr>cursor_row := r\<rparr>) x = set_cell c x" "set_cell (c\<lparr>cursor_col := k\<rparr>) x = set_cell c x"
  "set_cell (c\<lparr>input_len := i\<rparr>) x = set_cell c x" "set_cell (c\<lparr>wstate := w\<rparr>) x = set_cell c x"
  by (simp_all add: set_cell_def)

text \<open>\<open>scrolled c v\<close>: the window moved up by one line, a blank line at the bottom.\<close>

definition scrolled :: "console_t \<Rightarrow> vram \<Rightarrow> vram" where
  "scrolled c v = (\<lambda>q.
     if disp_base c \<le> q \<and> q < disp_base c + 1920 then v (q + 80)
     else if disp_base c + 1920 \<le> q \<and> q < disp_base c + 2000 then set_cell c 32 else v q)"

lemma scroll_up_one:
  "geom c \<Longrightarrow> scroll_up 1 c v = (c\<lparr>cursor_row := cursor_row c - 1\<rparr>, scrolled c v)"
  by (rule prod_eqI)
    (auto simp: scroll_up_def erase_rows_def geom_def scrolled_def erase_cells_at copy_cells_at Let_def fun_eq_iff)

text \<open>The cursor one cell further.\<close>

definition advance :: "console_t \<Rightarrow> vram \<Rightarrow> console_t \<times> vram" where
  "advance c v =
    (if cursor_col c < 79 then (c\<lparr>cursor_col := cursor_col c + 1\<rparr>, v)
     else if cursor_row c < 24 then (c\<lparr>cursor_row := cursor_row c + 1, cursor_col := 0\<rparr>, v)
     else (c\<lparr>cursor_col := 0\<rparr>, scrolled c v))"

lemma move_forward_one: "console_ok c \<Longrightarrow> move_forward 1 c v = advance c v"
proof -
  assume ok: "console_ok c"
  have i: "to_int32 (cursor_col c + 1) = cursor_col c + 1" "to_int32 (cursor_row c + 1) = cursor_row c + 1"
    using ok by (simp_all add: to_int32_id console_ok_def)
  have g: "geom (c\<lparr>cursor_col := 0, cursor_row := 25\<rparr>)" using ok by (simp add: console_ok_geom)
  have s: "scrolled (c\<lparr>cursor_row := r, cursor_col := k\<rparr>) v = scrolled c v" for k r
    by (simp add: scrolled_def cong: if_cong)
  show ?thesis
    using ok i
    by (auto simp: advance_def console_ok_def geom_def Let_def scroll_up_one s)
qed

lemma show_char_ok:
  assumes "console_ok c"
  shows "show_char ch c v = advance c (v(disp_base c + cpos c := set_cell c ch))"
proof -
  have "to_int32 (cursor_col c + cursor_row c * display_cols c) = cpos c"
    using assms by (subst to_int32_id) (auto simp: console_ok_def geom_def cpos_def)
  then show ?thesis using move_forward_one[OF assms] by (simp add: show_char_def)
qed

lemma move_next_line_ok:
  assumes "console_ok c"
  shows "move_next_line c v =
    (if cursor_row c < 24 then (c\<lparr>cursor_row := cursor_row c + 1\<rparr>, v) else (c, scrolled c v))"
proof -
  have "to_int32 (cursor_row c + 1) = cursor_row c + 1"
    using assms by (simp add: to_int32_id console_ok_def)
  moreover have "scrolled (c\<lparr>cursor_row := r\<rparr>) v = scrolled c v" for r
    by (simp add: scrolled_def cong: if_cong)
  ultimately show ?thesis
    using assms by (auto simp: move_next_line_def console_ok_def geom_def Let_def scroll_up_one)
qed

section \<open>The mutex takes no part in drawing\<close>

definition with_mutex :: "mutex_t \<Rightarrow> console_t \<Rightarrow> console_t" where
  "with_mutex m c = c\<lparr>cmutex := m\<rparr>"

lemma with_mutex_sel [simp]:
  "wstate (with_mutex m c) = wstate c" "disp_base (with_mutex m c) = disp_base c"
  "cursor_row (with_mutex m c) = cursor_row c" "cursor_col (with_mutex m c) = cursor_col c"
  "display_rows (with_mutex m c) = display_rows c" "display_cols (with_mutex m c) = display_cols c"
  "foreground (with_mutex m c) = foreground c" "background (with_mutex m c) = background c"
  "old_cursor_row (with_mutex m c) = old_cursor_row c"
  "old_cursor_col (with_mutex m c) = old_cursor_col c" "esc_param (with_mutex m c) = esc_param c"
  "curr_param_index (with_mutex m c) = curr_param_index c"
  "input_len (with_mutex m c) = input_len c"
  by (simp_all add: with_mutex_def)

lemma with_mutex_upd [simp]:
  "(with_mutex m c)\<lparr>wstate := x0\<rparr> = with_mutex m (c\<lparr>wstate := x0\<rparr>)"
  "(with_mutex m c)\<lparr>disp_base := x1\<rparr> = with_mutex m (c\<lparr>disp_base := x1\<rparr>)"
  "(with_mutex m c)\<lparr>cursor_row := x2\<rparr> = with_mutex m (c\<lparr>cursor_row := x2\<rparr>)"
  "(with_mutex m c)\<lparr>cursor_col := x3\<rparr> = with_mutex m (c\<lparr>cursor_col := x3\<rparr>)"
  "(with_mutex m c)\<lparr>display_rows := x4\<rparr> = with_mutex m (c\<lparr>display_rows := x4\<rparr>)"
  "(with_mutex m c)\<lparr>display_cols := x5\<rparr> = with_mutex m (c\<lparr>display_cols := x5\<rparr>)"
  "(with_mutex m c)\<lparr>foreground := x6\<rparr> = with_mutex m (c\<lparr>foreground := x6\<rparr>)"
  "(with_mutex m c)\<lparr>background := x7\<rparr> = with_mutex m (c\<lparr>background := x7\<rparr>)"
  "(with_mutex m c)\<lparr>old_cursor_row := x8\<rparr> = with_mutex m (c\<lparr>old_cursor_row := x8\<rparr>)"
  "(with_mutex m c)\<lparr>old_cursor_col := x9\<rparr> = with_mutex m (c\<lparr>old_cursor_col := x9\<rparr>)"
  "(with_mutex m c)\<lparr>esc_param := x10\<rparr> = with_mutex m (c\<lparr>esc_param := x10\<rparr>)"
  "(with_mutex m c)\<lparr>curr_param_index := x11\<rparr> = with_mutex m (c\<lparr>curr_param_index := x11\<rparr>)"
  "(with_mutex m c)\<lparr>input_len := x12\<rparr> = with_mutex m (c\<lparr>input_len := x12\<rparr>)"
  by (simp_all add: with_mutex_def)

lemma with_mutex_twice [simp]: "with_mutex m (with_mutex n c) = with_mutex m c"
  "with_mutex (cmutex c) c = c" "cmutex (with_mutex m c) = m"
  by (simp_all add: with_mutex_def)

abbreviation lift_mutex :: "mutex_t \<Rightarrow> console_t \<times> vram \<Rightarrow> console_t \<times> vram" where
  "lift_mutex m \<equiv> \<lambda>(c, v). (with_mutex m c, v)"

lemma set_cell_mutex [simp]: "set_cell (with_mutex m c) x = set_cell c x"
  by (simp add: set_cell_def)

lemma erase_cells_mutex [simp]: "erase_cells n p (with_mutex m c) v = erase_cells n p c v"
  by (rule ext) (simp add: erase_cells_at)

lemma scroll_up_mutex [simp]: "scroll_up n (with_mutex m c) v = lift_mutex m (scroll_up n c v)"
  by (simp add: scroll_up_def erase_rows_def Let_def)

lemma move_forward_mutex [simp]: "move_forward n (with_mutex m c) v = lift_mutex m (move_forward n c v)"
  by (induction n arbitrary: c v) (auto simp: Let_def split: prod.splits)

lemma show_char_mutex [simp]: "show_char x (with_mutex m c) v = lift_mutex m (show_char x c v)"
  by (simp add: show_char_def Let_def)

lemma move_next_line_mutex [simp]: "move_next_line (with_mutex m c) v = lift_mutex m (move_next_line c v)"
  by (simp add: move_next_line_def Let_def)

lemma move_back_mutex [simp]:
  "move_back n st (with_mutex m c) = (case move_back n st c of (st, c) \<Rightarrow> (st, with_mutex m c))"
  by (induction n arbitrary: st c) auto

lemma erase_back_mutex [simp]: "erase_back n (with_mutex m c) v = lift_mutex m (erase_back n c v)"
  by (induction n arbitrary: c v) (auto simp: move_backword_def Let_def split: prod.splits)

lemma erase_backword_mutex [simp]: "erase_backword n (with_mutex m c) v = lift_mutex m (erase_backword n c v)"
  by (auto simp: erase_backword_def Let_def split: prod.splits)

lemma write_normal_mutex:
  "write_normal x (with_mutex m c) v = (case write_normal x c v of (b, c, v) \<Rightarrow> (b, with_mutex m c, v))"
  by (auto simp: write_normal_def move_backword_def move_to_col0_def split: prod.splits)

lemma style_mutex: "fold style_param ps (with_mutex m c) = with_mutex m (fold style_param ps c)"
  by (induction ps arbitrary: c) (simp_all add: style_param_def)

lemma write_esc_mutex: "write_esc x (with_mutex m c) = with_mutex m (write_esc x c)"
  by (simp add: write_esc_def save_cursor_def restore_cursor_def clear_esc_param_def)

lemma write_esc_square_mutex:
  "write_esc_square x (with_mutex m c) v = map_option (lift_mutex m) (write_esc_square x c v)"
  by (auto simp: write_esc_square_def set_font_style_def style_mutex move_left_def move_right_def
      move_cursor_def erase_in_display_def erase_rows_def Let_def split: Option.bind_splits)

lemma console_char_mutex:
  "console_char x (with_mutex m c) v
    = map_option (\<lambda>(b, c, v). (b, with_mutex m c, v)) (console_char x c v)"
  by (cases "wstate c") (auto simp: console_char_def write_normal_mutex write_esc_mutex write_esc_square_mutex
      option.map_comp comp_def case_prod_beta split: prod.splits)

lemma console_run_mutex: "console_run s (with_mutex m c) v = map_option (lift_mutex m) (console_run s c v)"
  by (induction s arbitrary: c v) (auto simp: console_char_mutex split: option.splits Option.bind_splits)

lemma console_char_bell: "console_char x c v = Some (b, c', v') \<Longrightarrow> x \<noteq> 7 \<Longrightarrow> \<not> b"
  by (auto simp: console_char_def write_normal_def split: write_state.splits if_splits)

section \<open>The cursor as a linear position\<close>

definition at_pos :: "console_t \<Rightarrow> int \<Rightarrow> console_t" where
  "at_pos c p = c\<lparr>cursor_row := p div 80, cursor_col := p mod 80\<rparr>"

lemma at_pos_simps [simp]:
  "disp_base (at_pos c p) = disp_base c" "wstate (at_pos c p) = wstate c"
  "set_cell (at_pos c p) x = set_cell c x" "cpos (at_pos c p) = p"
  "at_pos (at_pos c p) q = at_pos c q" "scrolled (at_pos c p) v = scrolled c v"
  by (simp_all add: at_pos_def cpos_def scrolled_def cong: if_cong)

lemma at_pos_cpos: "console_ok c \<Longrightarrow> at_pos c (cpos c) = c"
  by (simp add: at_pos_def cpos_def console_ok_def)

lemma at_pos_ok: "console_ok c \<Longrightarrow> 0 \<le> p \<Longrightarrow> p < 2000 \<Longrightarrow> console_ok (at_pos c p)"
  by (auto simp: at_pos_def console_ok_def geom_def)

text \<open>The window as a part of an endless roll: what is shown at roll position \<open>j\<close>.\<close>

definition roll :: "console_t \<Rightarrow> vram \<Rightarrow> u8 list \<Rightarrow> int \<Rightarrow> disp_char_t" where
  "roll c v s j =
    (if cpos c \<le> j \<and> j < cpos c + int (length s) then set_cell c (s ! nat (j - cpos c))
     else if j < 2000 then v (disp_base c + j) else set_cell c 32)"

definition roll_lines :: "console_t \<Rightarrow> int \<Rightarrow> int" where
  "roll_lines c n = max 0 ((cpos c + n) div 80 - 24)"

lemma row_col: "0 \<le> k \<Longrightarrow> k < 80 \<Longrightarrow> (r * 80 + k) div 80 = (r :: int) \<and> (r * 80 + k) mod 80 = k"
  by auto

lemma roll_lines_pos:
  assumes "0 \<le> cpos c + n"
  shows "0 \<le> roll_lines c n" and "0 \<le> cpos c + n - 80 * roll_lines c n"
    and "cpos c + n - 80 * roll_lines c n < 2000"
    and "0 < roll_lines c n \<Longrightarrow> 1920 \<le> cpos c + n - 80 * roll_lines c n"
    and "cpos c + n - 80 * roll_lines c n < 1999 \<Longrightarrow> roll_lines c (n + 1) = roll_lines c n"
    and "cpos c + n - 80 * roll_lines c n = 1999 \<Longrightarrow> roll_lines c (n + 1) = roll_lines c n + 1"
proof -
  define a where "a = cpos c + n"
  define m where "m = a div 80"
  define m' where "m' = (a + 1) div 80"
  have m: "80 * m \<le> a" "a < 80 * m + 80" unfolding m_def by presburger+
  have m': "80 * m' \<le> a + 1" "a + 1 < 80 * m' + 80" unfolding m'_def by presburger+
  with m have mm: "m' = m \<or> m' = m + 1 \<and> a + 1 = 80 * m'" by linarith
  have r: "roll_lines c n = (if m < 24 then 0 else m - 24)" by (simp add: roll_lines_def a_def m_def)
  have r': "roll_lines c (n + 1) = (if m' < 24 then 0 else m' - 24)"
    by (simp add: roll_lines_def a_def m'_def add.assoc)
  have a: "cpos c + n = a" "0 \<le> a" using assms by (simp_all add: a_def)
  show "0 \<le> roll_lines c n" by (simp add: r)
  show "0 \<le> cpos c + n - 80 * roll_lines c n" "cpos c + n - 80 * roll_lines c n < 2000"
    "0 < roll_lines c n \<Longrightarrow> 1920 \<le> cpos c + n - 80 * roll_lines c n"
    unfolding r a using m a(2) by (simp_all split: if_splits)
  show "cpos c + n - 80 * roll_lines c n < 1999 \<Longrightarrow> roll_lines c (n + 1) = roll_lines c n"
    unfolding r r' a using m m' mm by (auto split: if_splits)
  show "cpos c + n - 80 * roll_lines c n = 1999 \<Longrightarrow> roll_lines c (n + 1) = roll_lines c n + 1"
    unfolding r r' a using m m' mm by (auto split: if_splits)
qed

lemma advance_at:
  assumes "console_ok c"
  shows "advance c v = (if cpos c < 1999 then (at_pos c (cpos c + 1), v) else (at_pos c 1920, scrolled c v))"
proof -
  let ?r = "cursor_row c" and ?k = "cursor_col c"
  have ok: "0 \<le> ?r" "?r < 25" "0 \<le> ?k" "?k < 80" using assms by (simp_all add: console_ok_def)
  consider "?k < 79" | "?k = 79" "?r < 24" | "?k = 79" "?r = 24" using ok by linarith
  then show ?thesis
  proof cases
    case 1
    then have "(cpos c + 1) div 80 = ?r" "(cpos c + 1) mod 80 = ?k + 1" "cpos c < 1999"
      using ok row_col[of "?k + 1" ?r] by (simp_all add: cpos_def add.assoc)
    with 1 show ?thesis by (simp add: advance_def at_pos_def)
  next
    case 2
    then have "(cpos c + 1) div 80 = ?r + 1" "(cpos c + 1) mod 80 = 0" "cpos c < 1999"
      using row_col[of 0 "?r + 1"] by (simp_all add: cpos_def algebra_simps)
    with 2 show ?thesis by (simp add: advance_def at_pos_def)
  next
    case 3
    then show ?thesis by (simp add: advance_def at_pos_def cpos_def)
  qed
qed

lemma show_char_at:
  assumes "console_ok c" and "0 \<le> p" and "p < 2000"
  shows "show_char x (at_pos c p) v =
    (let v = v(disp_base c + p := set_cell c x)
     in if p < 1999 then (at_pos c (p + 1), v) else (at_pos c 1920, scrolled c v))"
  using show_char_ok[OF at_pos_ok[OF assms], of x v] advance_at[OF at_pos_ok[OF assms]]
  by (simp add: Let_def)

lemma move_back_at:
  assumes "console_ok c" and "0 \<le> p" and "p < 2000"
  shows "move_backword 1 (at_pos c p) = (if p = 0 then (- 1, at_pos c 0) else (0, at_pos c (p - 1)))"
proof -
  have g: "display_cols c = 80" using assms(1) by (simp add: console_ok_def geom_def)
  have "0 \<le> p mod 80" by simp
  then consider "p = 0" | "0 < p mod 80" | "p mod 80 = 0" "0 < p" using assms(2) by linarith
  then show ?thesis
  proof cases
    case 2
    then have "(p - 1) div 80 = p div 80 \<and> (p - 1) mod 80 = p mod 80 - 1 \<and> p \<noteq> 0"
      using row_col[of "p mod 80 - 1" "p div 80"] by (auto simp: algebra_simps)
    with 2 show ?thesis by (simp add: move_backword_def at_pos_def)
  next
    case 3
    then have "p = p div 80 * 80" "0 < p div 80" using div_mult_mod_eq[of p 80] by linarith+
    then have "(p - 1) div 80 = p div 80 - 1" "(p - 1) mod 80 = 79" "0 < p div 80"
      using row_col[of 79 "p div 80 - 1"] by (simp_all add: algebra_simps)
    with 3 g show ?thesis by (simp add: move_backword_def at_pos_def)
  qed (simp add: move_backword_def at_pos_def)
qed

definition printable :: "u8 \<Rightarrow> bool" where
  "printable x \<longleftrightarrow> 32 \<le> sint x \<and> sint x \<le> 126"

lemma printable_not_control:
  "printable x \<Longrightarrow> x \<noteq> 7 \<and> x \<noteq> 8 \<and> x \<noteq> 10 \<and> x \<noteq> 13 \<and> x \<noteq> 27 \<and> x \<noteq> 127"
  by (auto simp: printable_def)

lemma console_char_printable:
  assumes "printable x" and "wstate c = CONSOLE_WRITE_NORMAL"
  shows "console_char x c v = (case show_char x c v of (c, v) \<Rightarrow> Some (False, c, v))"
  using assms printable_not_control[OF assms(1)]
  by (simp add: console_char_def write_normal_def printable_def ASCII_ESC_def)

lemma roll_snoc:
  "roll c v (s @ [x]) j = (if j = cpos c + int (length s) then set_cell c x else roll c v s j)"
  by (auto simp: roll_def nth_append)

lemma print_roll:
  assumes ok: "console_ok c" and nrm: "wstate c = CONSOLE_WRITE_NORMAL" and "\<forall>x \<in> set s. printable x"
  defines "k \<equiv> \<lambda>n. roll_lines c n"
  shows "\<exists>v'. console_run s c v = Some (at_pos c (cpos c + int (length s) - 80 * k (int (length s))), v')
    \<and> (\<forall>i. 0 \<le> i \<longrightarrow> i < 2000 \<longrightarrow> v' (disp_base c + i) = roll c v s (80 * k (int (length s)) + i))
    \<and> (\<forall>q. q < disp_base c \<or> disp_base c + 2000 \<le> q \<longrightarrow> v' q = v q)"
  using assms(3)
proof (induction s rule: rev_induct)
  case Nil
  have "k 0 = 0" using cpos_range[OF ok] unfolding k_def roll_lines_def max_def by presburger
  then show ?case using at_pos_cpos[OF ok] by (auto simp: roll_def)
next
  case (snoc x s)
  let ?n = "int (length s)"
  define pos where "pos = cpos c + ?n - 80 * k ?n"
  obtain w where w: "console_run s c v = Some (at_pos c pos, w)"
    "\<And>i. 0 \<le> i \<Longrightarrow> i < 2000 \<Longrightarrow> w (disp_base c + i) = roll c v s (80 * k ?n + i)"
    "\<And>q. q < disp_base c \<or> disp_base c + 2000 \<le> q \<Longrightarrow> w q = v q"
    using snoc.IH snoc.prems unfolding pos_def by auto
  have pr: "0 \<le> pos" "pos < 2000" "k ?n > 0 \<Longrightarrow> 1920 \<le> pos" "0 \<le> k ?n"
    using roll_lines_pos[of c ?n] cpos_range[OF ok] unfolding pos_def k_def by simp_all
  define w' where "w' = w(disp_base c + pos := set_cell c x)"
  have run: "console_run (s @ [x]) c v
    = Some (if pos < 1999 then (at_pos c (pos + 1), w') else (at_pos c 1920, scrolled c w'))"
    using console_char_printable[of x "at_pos c pos" w] show_char_at[OF ok pr(1,2), of x w] snoc.prems nrm
    by (simp add: console_run_append w(1) w'_def Let_def)
  have len: "int (length (s @ [x])) = ?n + 1" by simp
  show ?case
  proof (cases "pos < 1999")
    case True
    have k: "k (?n + 1) = k ?n"
      using True roll_lines_pos(5)[of c ?n] cpos_range[OF ok] unfolding pos_def k_def by simp
    have "w' (disp_base c + i) = roll c v (s @ [x]) (80 * k ?n + i)" if "0 \<le> i" "i < 2000" for i
      using w(2)[OF that] by (auto simp: roll_snoc pos_def w'_def)
    moreover have "w' q = v q" if "q < disp_base c \<or> disp_base c + 2000 \<le> q" for q
      using w(3)[OF that] that pr by (auto simp: w'_def)
    moreover have p1: "cpos c + (?n + 1) - 80 * k ?n = pos + 1" by (simp add: pos_def)
    ultimately show ?thesis unfolding len k p1 by (simp add: run True)
  next
    case False
    then have p: "pos = 1999" using pr(2) by simp
    have k: "k (?n + 1) = k ?n + 1"
      using p roll_lines_pos(6)[of c ?n] cpos_range[OF ok] unfolding pos_def k_def by simp
    have "scrolled c w' (disp_base c + i) = roll c v (s @ [x]) (80 * (k ?n + 1) + i)"
      if "0 \<le> i" "i < 2000" for i
    proof (cases "i < 1920")
      case True
      then show ?thesis using w(2)[of "i + 80"] that p pos_def
        by (auto simp: scrolled_def roll_snoc w'_def algebra_simps)
    next
      case False
      then show ?thesis using that p pr(4) pos_def by (auto simp: scrolled_def roll_def w'_def)
    qed
    moreover have "scrolled c w' q = v q" if "q < disp_base c \<or> disp_base c + 2000 \<le> q" for q
      using w(3)[OF that] that p by (auto simp: scrolled_def w'_def)
    moreover have p1: "cpos c + (?n + 1) - 80 * (k ?n + 1) = 1920" using p by (simp add: pos_def)
    ultimately show ?thesis unfolding len k p1 by (simp add: run False)
  qed
qed

section \<open>Escape sequences\<close>

definition is_digit :: "u8 \<Rightarrow> bool" where
  "is_digit x \<longleftrightarrow> 48 \<le> x \<and> x \<le> 57"

definition dec_from :: "int \<Rightarrow> u8 list \<Rightarrow> int" where
  "dec_from n ds = foldl (\<lambda>n d. n * 10 + uint d - 48) n ds"

lemma dec_from_simps [simp]:
  "dec_from n [] = n" "dec_from n (d # ds) = dec_from (n * 10 + uint d - 48) ds"
  by (simp_all add: dec_from_def)

lemma sint_small: "x \<le> 127 \<Longrightarrow> sint (x :: u8) = uint x"
proof -
  assume "x \<le> 127"
  then have "0 \<le> uint x" "uint x \<le> 127" by (simp_all add: word_le_def)
  then have "uint x < 2 ^ 7" by simp
  moreover have "- (2 ^ 7) \<le> uint x" by (rule order_trans[OF _ uint_ge_0]) simp
  ultimately show ?thesis by (simp add: sint_uint signed_take_bit_int_eq_self)
qed

lemma digit_range: "is_digit x \<Longrightarrow> 48 \<le> uint x \<and> uint x \<le> 57 \<and> sint x = uint x"
  using sint_small[of x] by (auto simp: is_digit_def word_le_def)

lemma dec_from_mono: "0 \<le> n \<Longrightarrow> \<forall>d \<in> set ds. is_digit d \<Longrightarrow> n \<le> dec_from n ds"
proof (induction ds arbitrary: n)
  case (Cons d ds)
  from Cons.prems digit_range[of d] have "0 \<le> n * 10 + uint d - 48" "n \<le> n * 10 + uint d - 48" by auto
  with Cons.IH[of "n * 10 + uint d - 48"] Cons.prems show ?case by simp
qed simp

lemma run_digits:
  assumes "wstate c = CONSOLE_WRITE_SQUARE" and "i = nat (curr_param_index c)"
    and "i < length (esc_param c)" and "0 \<le> esc_param c ! i" and "\<forall>d \<in> set ds. is_digit d"
    and "dec_from (esc_param c ! i) ds < 2 ^ 31"
  shows "console_run ds c v = Some (c\<lparr>esc_param := (esc_param c)[i := dec_from (esc_param c ! i) ds]\<rparr>, v)"
  using assms
proof (induction ds arbitrary: c)
  case (Cons d ds)
  let ?n = "esc_param c ! i * 10 + uint d - 48"
  let ?c = "c\<lparr>esc_param := (esc_param c)[i := ?n]\<rparr>"
  have d: "is_digit d" using Cons.prems by simp
  note dr = digit_range[OF d]
  have n: "0 \<le> ?n" using dr Cons.prems(4) by simp
  moreover have "?n < 2 ^ 31"
    using dec_from_mono[OF n, of ds] Cons.prems by simp
  ultimately have "to_int32 (esc_param c ! i * 10 + sint d - 48) = ?n"
    using dr by (simp add: to_int32_id)
  then have "console_char d c v = Some (False, ?c, v)"
    using Cons.prems(1-3) d
    by (simp add: console_char_def write_esc_square_def is_digit_def Let_def)
  moreover have "console_run ds ?c v = Some (?c\<lparr>esc_param := (esc_param ?c)[i := dec_from (esc_param ?c ! i) ds]\<rparr>, v)"
    by (rule Cons.IH) (use Cons.prems n in simp_all)
  ultimately show ?case using Cons.prems(3) by simp
qed simp

lemma run_escape:
  "wstate c = CONSOLE_WRITE_NORMAL \<Longrightarrow>
   console_run [27, 91] c v = Some (c\<lparr>esc_param := replicate 10 0, curr_param_index := 0,
     wstate := CONSOLE_WRITE_SQUARE\<rparr>, v)"
  by (simp add: console_char_def write_normal_def ASCII_ESC_def write_esc_def clear_esc_param_def ESC_PARAM_MAX_def)

definition in_window :: "console_t \<Rightarrow> int \<Rightarrow> bool" where
  "in_window c q \<longleftrightarrow> disp_base c \<le> q \<and> q < disp_base c + 2000"

definition ok_step :: "console_t \<Rightarrow> vram \<Rightarrow> console_t \<Rightarrow> vram \<Rightarrow> bool" where
  "ok_step c v c' v' \<longleftrightarrow> console_ok c' \<and> disp_base c' = disp_base c \<and> (\<forall>q. v' q \<noteq> v q \<longrightarrow> in_window c q)"

lemma ok_step_show:
  assumes "console_ok c" and "show_char x c v = (c', v')"
  shows "ok_step c v c' v'"
proof -
  have p: "0 \<le> cpos c" "cpos c < 2000" using cpos_range[OF assms(1)] by simp_all
  show ?thesis
    using show_char_at[OF assms(1) p, of x v] assms(2) p at_pos_ok[OF assms(1)]
    by (auto simp: at_pos_cpos[OF assms(1)] ok_step_def in_window_def scrolled_def Let_def split: if_splits)
qed

lemma ok_step_trans: "ok_step c v c1 v1 \<Longrightarrow> ok_step c1 v1 c2 v2 \<Longrightarrow> ok_step c v c2 v2"
  unfolding ok_step_def in_window_def by metis

lemma ok_step_move_back:
  assumes "console_ok c" shows "ok_step c v (snd (move_backword 1 c)) v"
proof -
  have p: "0 \<le> cpos c" "cpos c < 2000" using cpos_range[OF assms] by simp_all
  show ?thesis using move_back_at[OF assms p] at_pos_ok[OF assms] p
    by (simp add: at_pos_cpos[OF assms] ok_step_def)
qed

lemma ok_step_same:
  assumes "console_ok c" shows "ok_step c v (c\<lparr>wstate := w\<rparr>) v" and "ok_step c v c v"
    and "ok_step c v (c\<lparr>input_len := k\<rparr>) v"
  using assms by (simp_all add: ok_step_def console_ok_def)

lemma ok_step_erase_backword:
  assumes ok: "console_ok c" and e: "erase_backword 1 c v = (c', v')"
  shows "ok_step c v c' v'"
proof -
  obtain st c1 where m: "move_backword 1 c = (st, c1)" by fastforce
  have 1: "ok_step c v c1 v" using ok_step_move_back[OF ok, of v] m by simp
  then have ok1: "console_ok c1" by (simp add: ok_step_def)
  show ?thesis
  proof (cases "st = 0")
    case True
    obtain c2 v2 where s: "show_char 32 c1 v = (c2, v2)" by fastforce
    have 2: "ok_step c1 v c2 v2" by (rule ok_step_show[OF ok1 s])
    then have "ok_step c2 v2 (snd (move_backword 1 c2)) v2" by (intro ok_step_move_back) (simp add: ok_step_def)
    with 1 2 have 3: "ok_step c v (snd (move_backword 1 c2)) v2" using ok_step_trans by blast
    then have "ok_step c v (snd (move_backword 1 c2)\<lparr>input_len := k\<rparr>) v2" for k
      using ok_step_same(3)[of "snd (move_backword 1 c2)" v2 k] ok_step_trans by (auto simp: ok_step_def)
    with e m s True show ?thesis by (auto simp: erase_backword_def Let_def)
  next
    case False
    have "ok_step c v (c1\<lparr>input_len := k\<rparr>) v" for k
      using 1 ok_step_same(3)[OF ok1] ok_step_trans by blast
    with e m False show ?thesis by (auto simp: erase_backword_def Let_def)
  qed
qed

lemma ok_step_normal:
  assumes ok: "console_ok c" and w: "write_normal ch c v = (b, c', v')"
  shows "ok_step c v c' v'"
proof -
  have nl: "ok_step c v c' v'" if "move_next_line c v = (c', v')"
    using that move_next_line_ok[OF ok, of v] ok
    by (auto simp: ok_step_def console_ok_def in_window_def scrolled_def split: if_splits)
  have col: "ok_step c v (move_to_col0 c) v" using ok by (simp add: ok_step_def console_ok_def geom_def move_to_col0_def)
  show ?thesis
    using w ok_step_same(1,2)[OF ok] ok_step_erase_backword[OF ok, of v c' v'] ok_step_move_back[OF ok, of v] nl col
      ok_step_show[OF ok, of ch v c' v']
    by (auto simp: write_normal_def split: if_splits)
qed

lemma style_fold:
  "\<exists>f b. fold style_param ps c = c\<lparr>foreground := f, background := b\<rparr>"
proof (induction ps arbitrary: c)
  case Nil
  have "c = c\<lparr>foreground := foreground c, background := background c\<rparr>" by simp
  then show ?case by (simp only: fold.simps id_apply) blast
next
  case (Cons p ps)
  have "\<exists>f b. style_param p c = c\<lparr>foreground := f, background := b\<rparr>"
  proof -
    have e: "c\<lparr>foreground := f\<rparr> = c\<lparr>foreground := f, background := background c\<rparr>"
      "c\<lparr>background := b\<rparr> = c\<lparr>foreground := foreground c, background := b\<rparr>"
      "c = c\<lparr>foreground := foreground c, background := background c\<rparr>" for f b by simp_all
    show ?thesis unfolding style_param_def by (simp, metis e)
  qed
  then obtain f b where "style_param p c = c\<lparr>foreground := f, background := b\<rparr>" by blast
  moreover obtain f' b' where "fold style_param ps (c\<lparr>foreground := f, background := b\<rparr>)
      = c\<lparr>foreground := f, background := b\<rparr>\<lparr>foreground := f', background := b'\<rparr>"
    using Cons.IH by blast
  ultimately show ?case by auto
qed

text \<open>
  The characters that get through the bounds.  \<open>sends_off\<close>: the end of a cursor sequence whose
  target lies outside the screen, which \<open>H\<close> and \<open>f\<close> take unchecked and \<open>C\<close> and \<open>D\<close> reach only
  with an argument that has wrapped; \<open>erases_all\<close>: the end of \<open>ESC [ 2 J\<close>; \<open>out_of_params\<close>: a
  use of the eleventh argument.
\<close>

definition sends_off :: "console_t \<Rightarrow> u8 \<Rightarrow> bool" where
  "sends_off c ch \<longleftrightarrow> wstate c = CONSOLE_WRITE_SQUARE \<and>
    (let n = (if esc_param c ! 0 = 0 then 1 else esc_param c ! 0)
     in if ch = of_char CHR ''H'' \<or> ch = of_char CHR ''f''
        then \<not> (0 \<le> esc_param c ! 0 \<and> esc_param c ! 0 < 25 \<and> 0 \<le> esc_param c ! 1 \<and> esc_param c ! 1 < 80)
        else if ch = of_char CHR ''D'' then 80 \<le> to_int32 (cursor_col c - n)
        else ch = of_char CHR ''C'' \<and> to_int32 (cursor_col c + n) < 0)"

definition erases_all :: "console_t \<Rightarrow> u8 \<Rightarrow> bool" where
  "erases_all c ch \<longleftrightarrow> wstate c = CONSOLE_WRITE_SQUARE \<and> ch = of_char CHR ''J'' \<and> esc_param c ! 0 = 2"

definition out_of_params :: "console_t \<Rightarrow> u8 \<Rightarrow> bool" where
  "out_of_params c ch \<longleftrightarrow> wstate c = CONSOLE_WRITE_SQUARE \<and> curr_param_index c = 10
     \<and> (is_digit ch \<or> ch = of_char CHR ''m'')"

text \<open>An argument below \<open>2 ^ 31 - 80\<close> never sends the cursor off sideways.\<close>

lemma sideways_stays:
  assumes "console_ok c" and "ch = of_char CHR ''C'' \<or> ch = of_char CHR ''D''"
    and "0 \<le> esc_param c ! 0" and "esc_param c ! 0 < 2 ^ 31 - 80"
  shows "\<not> sends_off c ch"
  using assms by (auto simp: sends_off_def console_ok_def to_int32_id Let_def)

definition tame :: "console_t \<Rightarrow> u8 \<Rightarrow> vram \<Rightarrow> console_t \<Rightarrow> vram \<Rightarrow> bool" where
  "tame c ch v c' v' \<longleftrightarrow> console_ok c' = (\<not> sends_off c ch) \<and> disp_base c' = disp_base c
     \<and> (\<forall>q. v' q \<noteq> v q \<longrightarrow> in_window c q \<or> erases_all c ch \<and> disp_base c \<le> q \<and> q < disp_base c + 6400)"

lemma tame_ok: "\<not> sends_off c ch \<Longrightarrow> ok_step c v c' v' \<Longrightarrow> tame c ch v c' v'"
  by (auto simp: tame_def ok_step_def)

lemma style_ok:
  assumes "console_ok c" and "set_font_style c = Some c1"
  shows "ok_step c v (c1\<lparr>wstate := w\<rparr>) v"
proof -
  obtain f b where "fold style_param (take (nat (curr_param_index c + 1)) (esc_param c)) c
      = c\<lparr>foreground := f, background := b\<rparr>" using style_fold by blast
  with assms(2) have "c1 = c\<lparr>foreground := f, background := b\<rparr>"
    by (simp add: set_font_style_def Let_def split: if_splits)
  with assms(1) show ?thesis by (simp add: ok_step_def console_ok_def geom_def)
qed

lemma square_params:
  assumes ok: "console_ok c" and s: "write_esc_square ch c v = Some (c', v')"
    and ch: "is_digit ch \<or> ch = 59 \<or> ch = 109 \<or> ch \<notin> {67, 68, 72, 74, 102}"
  shows "ok_step c v c' v'"
proof -
  have w: "ok_step c v (c\<lparr>wstate := x\<rparr>) v" for x by (rule ok_step_same(1)[OF ok])
  have digit: "ok_step c v (c\<lparr>esc_param := (esc_param c)[i := k]\<rparr>) v" for i k
    using ok by (simp add: ok_step_def console_ok_def geom_def)
  have semi: "ok_step c v (c\<lparr>curr_param_index := curr_param_index c + 1\<rparr>) v" if "curr_param_index c < 10"
    using that ok by (simp add: ok_step_def console_ok_def geom_def)
  show ?thesis
    using s ch w digit semi style_ok[OF ok, of _ v]
    by (auto simp: write_esc_square_def is_digit_def ESC_PARAM_MAX_def Let_def split: if_splits Option.bind_splits)
qed

lemma square_tame:
  assumes ok: "console_ok c" and sq: "wstate c = CONSOLE_WRITE_SQUARE"
    and s: "write_esc_square ch c v = Some (c', v')"
  shows "tame c ch v c' v'"
proof (cases "ch \<in> {67, 68, 72, 74, 102}")
  case False
  then have "\<not> sends_off c ch" by (simp add: sends_off_def Let_def)
  then show ?thesis using square_params[OF ok s] False by (blast intro: tame_ok)
next
  case True
  have cc: "0 \<le> cursor_col c" "cursor_col c < 80" "display_cols c = 80" using ok by (auto simp: console_ok_def geom_def)
  from True consider "ch = 67" | "ch = 68" | "ch = 72 \<or> ch = 102" | "ch = 74" by auto
  then show ?thesis
  proof cases
    case 1
    then show ?thesis using s ok sq cc
      by (auto simp: write_esc_square_def move_right_def Let_def tame_def sends_off_def console_ok_def geom_def)
  next
    case 2
    then show ?thesis using s ok sq cc
      by (auto simp: write_esc_square_def move_left_def Let_def tame_def sends_off_def console_ok_def geom_def)
  next
    case 3
    then show ?thesis using s ok sq
      by (auto simp: write_esc_square_def move_cursor_def tame_def sends_off_def console_ok_def geom_def)
  next
    case 4
    then have n: "\<not> sends_off c ch" by (simp add: sends_off_def Let_def)
    show ?thesis
    proof (cases "esc_param c ! 0 = 2")
      case True
      then show ?thesis using 4 s ok sq n cc
        by (auto simp: write_esc_square_def erase_in_display_def erase_rows_def Let_def tame_def erases_all_def
            console_ok_def geom_def erase_cells_at split: if_splits)
    next
      case False
      then have "c' = c\<lparr>wstate := CONSOLE_WRITE_NORMAL\<rparr> \<and> v' = v"
        using 4 s by (auto simp: write_esc_square_def erase_in_display_def split: if_splits)
      then show ?thesis using tame_ok[OF n ok_step_same(1)[OF ok]] by simp
    qed
  qed
qed

lemma square_fault:
  assumes "console_ok c" and "wstate c = CONSOLE_WRITE_SQUARE"
  shows "write_esc_square ch c v = None \<longleftrightarrow> out_of_params c ch"
  using assms
  by (auto simp: write_esc_square_def set_font_style_def out_of_params_def is_digit_def console_ok_def Let_def
      split: prod.splits)

section \<open>Properties\<close>

text \<open>C34: What any one character, of a text or of an escape sequence, does to a console whose
  cursor is inside the screen.  It faults exactly when it is a digit or an \<open>m\<close> after more than
  nine separators.  Otherwise the console keeps its place in video memory; its cursor is
  inside the screen again unless the character ends a cursor sequence that aims outside it;
  and video memory is changed only inside the console's own window, except by the erase-all
  sequence, which blanks at most 6400 cells from the window's start.\<close>

theorem console_safe:
  assumes "console_ok c"
  shows "case console_char ch c v of
      None \<Rightarrow> out_of_params c ch
    | Some (_, c', v') \<Rightarrow> \<not> out_of_params c ch
        \<and> (console_ok c' \<longleftrightarrow> \<not> sends_off c ch) \<and> disp_base c' = disp_base c
        \<and> (\<forall>q. v' q \<noteq> v q \<longrightarrow> in_window c q \<or> erases_all c ch \<and> disp_base c \<le> q \<and> q < disp_base c + 6400)"
proof (cases "wstate c")
  case CONSOLE_WRITE_NORMAL
  then show ?thesis using ok_step_normal[OF assms, of ch v]
    by (cases "write_normal ch c v") (auto simp: console_char_def ok_step_def out_of_params_def sends_off_def)
next
  case CONSOLE_WRITE_ESC
  have "ok_step c v (write_esc ch c) v"
    using assms by (auto simp: write_esc_def ok_step_def console_ok_def geom_def save_cursor_def
        restore_cursor_def clear_esc_param_def ESC_PARAM_MAX_def)
  with CONSOLE_WRITE_ESC show ?thesis
    by (simp add: console_char_def ok_step_def out_of_params_def sends_off_def)
next
  case CONSOLE_WRITE_SQUARE
  note f = square_fault[OF assms CONSOLE_WRITE_SQUARE, of ch v]
  show ?thesis
  proof (cases "write_esc_square ch c v")
    case None
    then show ?thesis using f CONSOLE_WRITE_SQUARE by (simp add: console_char_def)
  next
    case (Some r)
    then show ?thesis
      using f square_tame[OF assms CONSOLE_WRITE_SQUARE, of ch v] CONSOLE_WRITE_SQUARE
      by (cases r) (simp add: console_char_def tame_def)
  qed
qed

text \<open>C33: Printing text, of any length: with the screen seen as a window on an endless roll of
  paper, the characters are on consecutive cells of the roll from the cursor on, the window
  has moved up by exactly the lines needed to keep the cursor on screen, and nothing outside
  the window has changed.\<close>

theorem print_text:
  assumes "console_ok c" and "wstate c = CONSOLE_WRITE_NORMAL" and "\<And>x. x \<in> set s \<Longrightarrow> printable x"
  defines "n \<equiv> int (length s)"
  shows "\<exists>c' v'. console_run s c v = Some (c', v') \<and> cpos c' = cpos c + n - 80 * roll_lines c n
    \<and> (\<forall>i. 0 \<le> i \<longrightarrow> i < 2000 \<longrightarrow> v' (disp_base c + i) = roll c v s (80 * roll_lines c n + i))
    \<and> (\<forall>q. \<not> in_window c q \<longrightarrow> v' q = v q)"
proof -
  have "\<forall>x \<in> set s. printable x" using assms(3) by blast
  from print_roll[OF assms(1,2) this, of v] show ?thesis
    unfolding n_def in_window_def by (metis at_pos_simps(4) not_le)
qed

text \<open>Deleting (character 127) right after a printable character puts the cursor back and
  leaves a blank cell there; every other cell is as before, unless the character scrolled
  the screen.\<close>

theorem delete_undoes_print:
  assumes "console_ok c" and "wstate c = CONSOLE_WRITE_NORMAL" and "printable x" and "cpos c < 1999"
  shows "\<exists>c'. console_run [x, 127] c v = Some (c', v(disp_base c + cpos c := set_cell c 32))
    \<and> cpos c' = cpos c \<and> input_len c' = input_len c - 1 \<and> wstate c' = CONSOLE_WRITE_NORMAL"
proof -
  let ?p = "cpos c"
  have p: "0 \<le> ?p" "?p < 2000" using cpos_range[OF assms(1)] by simp_all
  have c: "at_pos c ?p = c" by (rule at_pos_cpos[OF assms(1)])
  have 1: "console_char x c v = Some (False, at_pos c (?p + 1), v(disp_base c + ?p := set_cell c x))"
    using console_char_printable[OF assms(3,2), of v] show_char_at[OF assms(1) p, of x v] assms(4)
    by (simp add: c Let_def)
  have 2: "erase_backword 1 (at_pos c (?p + 1)) v
      = (c\<lparr>input_len := input_len c - 1\<rparr>, v(disp_base c + ?p := set_cell c 32))" for v
    using move_back_at[OF assms(1), of "?p + 1"] show_char_at[OF assms(1) p, of 32] assms(4) p
    by (simp add: erase_backword_def Let_def c)
  have 3: "console_char 127 (at_pos c (?p + 1)) v
      = Some (False, c\<lparr>input_len := input_len c - 1\<rparr>, v(disp_base c + ?p := set_cell c 32))" for v
    using assms(2) by (simp add: console_char_def write_normal_def ASCII_ESC_def 2)
  show ?thesis using assms(2) by (simp add: 1 3)
qed

text \<open>The cursor sequence: \<open>ESC [ row ; column H\<close> with any decimal spelling of a row below
  25 and a column below 80 puts the cursor exactly there.\<close>

theorem goto_cursor:
  assumes "console_ok c" and "wstate c = CONSOLE_WRITE_NORMAL"
    and "\<And>x. x \<in> set ds \<union> set es \<Longrightarrow> is_digit x"
    and "dec_from 0 ds < 25" and "dec_from 0 es < 80"
  shows "\<exists>c'. console_run ([27, 91] @ ds @ [of_char CHR '';''] @ es @ [of_char CHR ''H'']) c v = Some (c', v)
    \<and> cursor_row c' = dec_from 0 ds \<and> cursor_col c' = dec_from 0 es
    \<and> wstate c' = CONSOLE_WRITE_NORMAL \<and> console_ok c'"
proof -
  let ?c1 = "c\<lparr>esc_param := replicate 10 0, curr_param_index := 0, wstate := CONSOLE_WRITE_SQUARE\<rparr>"
  let ?c2 = "?c1\<lparr>esc_param := (replicate 10 0)[0 := dec_from 0 ds]\<rparr>"
  let ?c3 = "?c2\<lparr>curr_param_index := 1\<rparr>"
  let ?c4 = "?c3\<lparr>esc_param := (replicate 10 0)[0 := dec_from 0 ds, 1 := dec_from 0 es]\<rparr>"
  have 2: "console_run ds ?c1 v = Some (?c2, v)"
    using run_digits[of ?c1 0 ds v] assms(3,4) by simp
  have 3: "console_run [of_char CHR '';''] ?c2 v = Some (?c3, v)"
    by (simp add: console_char_def write_esc_square_def ESC_PARAM_MAX_def)
  have 4: "console_run es ?c3 v = Some (?c4, v)"
    using run_digits[of ?c3 1 es v] assms(3,5) by simp
  have 5: "console_run [of_char CHR ''H''] ?c4 v = Some (?c4\<lparr>cursor_row := dec_from 0 ds,
      cursor_col := dec_from 0 es, wstate := CONSOLE_WRITE_NORMAL\<rparr>, v)"
    by (simp add: console_char_def write_esc_square_def move_cursor_def)
  have "0 \<le> dec_from 0 ds" "0 \<le> dec_from 0 es" using dec_from_mono[of 0] assms(3) by auto
  with assms(1,4,5) have ok: "console_ok (?c4\<lparr>cursor_row := dec_from 0 ds,
      cursor_col := dec_from 0 es, wstate := CONSOLE_WRITE_NORMAL\<rparr>)"
    by (simp add: console_ok_def geom_def)
  show ?thesis
    unfolding console_run_append run_escape[OF assms(2)] bind.bind_lunit prod.case 2 3 4 5
    by (intro exI conjI, rule refl) (use ok in simp_all)
qed

text \<open>The erase sequence clears by columns instead of rows: it blanks the 80 lines from the
  start of the window, so the 55 lines after the console's own 25 (the windows of the next
  consoles) are lost.\<close>

theorem erase_all_overruns:
  assumes "console_ok c" and "wstate c = CONSOLE_WRITE_NORMAL"
  shows "\<exists>c' v'. console_run (map of_char (CHR 0x1B # ''[2J'')) c v = Some (c', v') \<and> cpos c' = 0
    \<and> (\<forall>q. v' q = (if disp_base c \<le> q \<and> q < disp_base c + 6400 then set_cell c 32 else v q))"
proof -
  let ?c1 = "c\<lparr>esc_param := replicate 10 0, curr_param_index := 0, wstate := CONSOLE_WRITE_SQUARE\<rparr>"
  let ?c2 = "?c1\<lparr>esc_param := (replicate 10 0)[0 := 2]\<rparr>"
  have g: "display_cols c = 80" using assms(1) by (simp add: console_ok_def geom_def)
  have 2: "console_run [50] ?c1 v = Some (?c2, v)"
    using run_digits[of ?c1 0 "[50]" v] by (simp add: is_digit_def)
  have 3: "console_run [74] ?c2 v = Some (?c2\<lparr>cursor_col := 0, cursor_row := 0, wstate := CONSOLE_WRITE_NORMAL\<rparr>,
      erase_cells 6400 (disp_base c) ?c2 v)"
    by (simp add: console_char_def write_esc_square_def erase_in_display_def erase_rows_def g)
  have s: "map of_char (CHR 0x1B # ''[2J'') = [27, 91] @ [50] @ [74 :: u8]" by simp
  show ?thesis
    unfolding s console_run_append run_escape[OF assms(2)] bind.bind_lunit prod.case 2 3
    by (intro exI conjI, rule refl) (simp_all add: erase_cells_at set_cell_def cpos_def)
qed

section \<open>Witnesses\<close>

definition blank_console :: console_t where
  "blank_console = \<lparr>wstate = CONSOLE_WRITE_NORMAL, disp_base = 0, cursor_row = 0, cursor_col = 0,
     display_rows = 0, display_cols = 0, foreground = COLOR_Black, background = COLOR_Black,
     old_cursor_row = 0, old_cursor_col = 0, esc_param = replicate 10 0, curr_param_index = 0,
     cmutex = \<lparr>locked_count = 0, owner = None, wait_list = \<lparr>lfirst = None, llast = None, lcount = 0\<rparr>\<rparr>,
     his_idx = 0, curr_his_idx = 0, input_len = 0,
     his_cmds = replicate 100 \<lparr>htime = 0, hcmd = []\<rparr>, cmode = CMD_MODE\<rparr>"

definition demo_cell :: disp_char_t where
  "demo_cell = \<lparr>dchar = 0, dfg = 0, dbg = 0\<rparr>"

definition demo_console :: console_t where
  "demo_console = fst (console_init 0 1 blank_console (\<lambda>_. demo_cell))"

lemma console_init_ok:
  assumes "length (esc_param c) = 10" and "0 \<le> curr_param_index c" and "curr_param_index c \<le> 10"
    and "0 \<le> pos" and "pos < 2000"
  shows "console_ok (fst (console_init pos idx c v))"
    and "wstate (fst (console_init pos idx c v)) = CONSOLE_WRITE_NORMAL"
proof -
  have "pos div 80 < 25" using assms(5) by linarith
  then show "console_ok (fst (console_init pos idx c v))"
    using assms by (simp add: console_init_def Let_def console_ok_def geom_def CONSOLE_COL_MAX_def
        CONSOLE_ROW_MAX_def pos_imp_zdiv_nonneg_iff split: prod.splits)
  show "wstate (fst (console_init pos idx c v)) = CONSOLE_WRITE_NORMAL"
    by (simp add: console_init_def Let_def split: prod.splits)
qed

lemma demo_console_ok: "console_ok demo_console" "wstate demo_console = CONSOLE_WRITE_NORMAL"
  "cpos demo_console = 0"
proof -
  show "console_ok demo_console" "wstate demo_console = CONSOLE_WRITE_NORMAL"
    unfolding demo_console_def by (rule console_init_ok; simp add: blank_console_def)+
  show "cpos demo_console = 0"
    by (simp add: demo_console_def console_init_def cpos_def blank_console_def)
qed

text \<open>A letter, and the end of \<open>ESC [ 30 ; 5 H\<close>, which leaves the cursor in row 30.\<close>

theorem console_safe_witness:
  "(\<exists>b c' v'. console_char 65 demo_console (\<lambda>_. demo_cell) = Some (b, c', v') \<and> console_ok c')
   \<and> (\<exists>b c' v'. console_char 72 (demo_console\<lparr>wstate := CONSOLE_WRITE_SQUARE, esc_param := (replicate 10 0)[0 := 30, 1 := 5],
        curr_param_index := 1\<rparr>) (\<lambda>_. demo_cell) = Some (b, c', v') \<and> \<not> console_ok c')"
proof -
  let ?c = "demo_console\<lparr>wstate := CONSOLE_WRITE_SQUARE, esc_param := (replicate 10 0)[0 := 30, 1 := 5], curr_param_index := 1\<rparr>"
  have ok: "console_ok ?c" using demo_console_ok(1) by (simp add: console_ok_def geom_def)
  have "\<not> out_of_params demo_console 65" "\<not> sends_off demo_console 65"
    "\<not> out_of_params ?c 72" "sends_off ?c 72"
    using demo_console_ok(2) by (simp_all add: out_of_params_def sends_off_def)
  then show ?thesis
    using console_safe[OF demo_console_ok(1), of 65 "\<lambda>_. demo_cell"] console_safe[OF ok, of 72 "\<lambda>_. demo_cell"]
    by (auto split: option.splits)
qed

theorem print_text_witness:
  "\<exists>c' v'. console_run [104, 105] demo_console (\<lambda>_. demo_cell) = Some (c', v') \<and> cpos c' = 2
    \<and> v' (disp_base demo_console + 1) = set_cell demo_console 105"
proof -
  have "printable x" if "x \<in> set [104, 105]" for x using that by (auto simp: printable_def)
  from print_text[OF demo_console_ok(1,2) this, of "[104, 105]" "\<lambda>_. demo_cell"]
  obtain c' v' where r: "console_run [104, 105] demo_console (\<lambda>_. demo_cell) = Some (c', v')"
    "cpos c' = cpos demo_console + 2 - 80 * roll_lines demo_console 2"
    "\<And>i. 0 \<le> i \<Longrightarrow> i < 2000 \<Longrightarrow> v' (disp_base demo_console + i)
      = roll demo_console (\<lambda>_. demo_cell) [104, 105] (80 * roll_lines demo_console 2 + i)"
    by fastforce
  have k: "roll_lines demo_console 2 = 0" by (simp add: roll_lines_def demo_console_ok(3))
  show ?thesis using r(1,2) r(3)[of 1] by (auto simp: k demo_console_ok(3) roll_def)
qed

theorem delete_undoes_print_witness:
  "\<exists>c'. console_run [65, 127] demo_console (\<lambda>_. demo_cell)
      = Some (c', (\<lambda>_. demo_cell)(disp_base demo_console + cpos demo_console := set_cell demo_console 32))
    \<and> cpos c' = cpos demo_console \<and> input_len c' = input_len demo_console - 1
    \<and> wstate c' = CONSOLE_WRITE_NORMAL"
  by (rule delete_undoes_print[OF demo_console_ok(1,2)]) (simp_all add: printable_def demo_console_ok(3))

theorem goto_cursor_witness:
  "\<exists>c'. console_run ([27, 91] @ [49, 50] @ [of_char CHR '';''] @ [52] @ [of_char CHR ''H''])
      demo_console (\<lambda>_. demo_cell) = Some (c', \<lambda>_. demo_cell)
    \<and> cursor_row c' = dec_from 0 [49, 50] \<and> cursor_col c' = dec_from 0 [52]
    \<and> wstate c' = CONSOLE_WRITE_NORMAL \<and> console_ok c'"
  by (rule goto_cursor[OF demo_console_ok(1,2)]) (auto simp: is_digit_def)

theorem erase_all_overruns_witness:
  "\<exists>c' v'. console_run (map of_char (CHR 0x1B # ''[2J'')) demo_console (\<lambda>_. demo_cell) = Some (c', v')
    \<and> cpos c' = 0 \<and> (\<forall>q. v' q = (if disp_base demo_console \<le> q \<and> q < disp_base demo_console + 6400
        then set_cell demo_console 32 else demo_cell))"
  by (rule erase_all_overruns[OF demo_console_ok(1,2)])

end
