(* ===== verification/Klib.thy ===== *)
theory Klib
  imports Prelude "HOL-Library.Char_ord"
begin

text \<open>
  The kernel's C library of \<^verbatim>\<open>kernel/tools/klib.c\<close>: alignment, memory blocks, strings,
  number formatting and \<^verbatim>\<open>kernel_vsprintf\<close>.  Memory is a map from 32-bit addresses to
  bytes; a pointer is an address and 0 is the null pointer.  A loop that walks a string to
  its terminator is a partial function: a string without one is \<open>None\<close>.
\<close>

type_synonym memory = "u32 \<Rightarrow> u8"

abbreviation chr :: "char \<Rightarrow> u8" where
  "chr c \<equiv> of_char c"

section \<open>Alignment and memory blocks\<close>

definition down2 :: "u32 \<Rightarrow> u32 \<Rightarrow> u32" where
  "down2 sz bound = sz AND NOT (bound - 1)"

definition up2 :: "u32 \<Rightarrow> u32 \<Rightarrow> u32" where
  "up2 sz bound = (sz + bound - 1) AND NOT (bound - 1)"

primrec copy_bytes :: "nat \<Rightarrow> u32 \<Rightarrow> u32 \<Rightarrow> memory \<Rightarrow> memory" where
  "copy_bytes 0 d s m = m"
| "copy_bytes (Suc n) d s m = copy_bytes n (d + 1) (s + 1) (m(d := m s))"

definition kernel_memcpy :: "u32 \<Rightarrow> u32 \<Rightarrow> nat \<Rightarrow> memory \<Rightarrow> memory" where
  "kernel_memcpy dest src sz m =
    (if dest = 0 \<or> src = 0 \<or> sz = 0 then m else copy_bytes sz dest src m)"

primrec fill_bytes :: "nat \<Rightarrow> u32 \<Rightarrow> u8 \<Rightarrow> memory \<Rightarrow> memory" where
  "fill_bytes 0 d v m = m"
| "fill_bytes (Suc n) d v m = fill_bytes n (d + 1) v (m(d := v))"

definition kernel_memset :: "u32 \<Rightarrow> u8 \<Rightarrow> nat \<Rightarrow> memory \<Rightarrow> memory" where
  "kernel_memset dest v sz m =
    (if dest = 0 \<or> sz = 0 then m else fill_bytes sz dest v m)"

primrec cmp_bytes :: "nat \<Rightarrow> u32 \<Rightarrow> u32 \<Rightarrow> memory \<Rightarrow> int" where
  "cmp_bytes 0 p q m = 0"
| "cmp_bytes (Suc n) p q m = (if m p \<noteq> m q then 1 else cmp_bytes n (p + 1) (q + 1) m)"

definition kernel_memcmp :: "u32 \<Rightarrow> u32 \<Rightarrow> nat \<Rightarrow> memory \<Rightarrow> int" where
  "kernel_memcmp d1 d2 sz m = (if d1 = 0 \<or> d2 = 0 then 1 else cmp_bytes sz d1 d2 m)"

section \<open>Strings\<close>

partial_function (option) strlen_loop :: "memory \<Rightarrow> u32 \<Rightarrow> int \<Rightarrow> int option" where
  "strlen_loop m c len = (if m c = 0 then Some len else strlen_loop m (c + 1) (len + 1))"

definition kernel_strlen :: "memory \<Rightarrow> u32 \<Rightarrow> int option" where
  "kernel_strlen m str = (if str = 0 then Some 0 else strlen_loop m str 0)"

partial_function (option) strcpy_loop :: "u32 \<Rightarrow> u32 \<Rightarrow> memory \<Rightarrow> memory option" where
  "strcpy_loop d s m =
    (if m d \<noteq> 0 \<and> m s \<noteq> 0 then strcpy_loop (d + 1) (s + 1) (m(d := m s)) else Some (m(d := 0)))"

definition kernel_strcpy :: "u32 \<Rightarrow> u32 \<Rightarrow> memory \<Rightarrow> memory option" where
  "kernel_strcpy dest src m = (if dest = 0 \<or> src = 0 then Some m else strcpy_loop dest src m)"

text \<open>
  The copy loop of \<^verbatim>\<open>kernel_strncpy\<close>: \<open>size--\<close> is evaluated before the source byte is
  tested, so the counter has also been decremented when the loop ends at the terminator.
  The result is the memory, the destination cursor and the counter after the loop.
\<close>

function strncpy_loop :: "u32 \<Rightarrow> u32 \<Rightarrow> int \<Rightarrow> memory \<Rightarrow> memory \<times> u32 \<times> int" where
  "strncpy_loop d s sz m =
    (if sz > 0 \<and> m s \<noteq> 0 then strncpy_loop (d + 1) (s + 1) (sz - 1) (m(d := m s))
     else (m, d, sz - 1))"
  by auto
termination
  by (relation "measure (\<lambda>(d, s, sz, m). nat sz)") auto

declare strncpy_loop.simps [simp del]

definition kernel_strncpy :: "u32 \<Rightarrow> u32 \<Rightarrow> int \<Rightarrow> memory \<Rightarrow> memory" where
  "kernel_strncpy dest src sz m =
    (if dest = 0 \<or> src = 0 \<or> sz = 0 then m
     else let (m, d, sz) = strncpy_loop dest src sz m
          in if sz = 0 then m(d - 1 := 0) else m(d := 0))"

partial_function (option) all_strcmp_loop :: "memory \<Rightarrow> u32 \<Rightarrow> u32 \<Rightarrow> int option" where
  "all_strcmp_loop m s1 s2 =
    (if m s1 \<noteq> 0 \<and> m s2 \<noteq> 0 \<and> m s1 = m s2 then all_strcmp_loop m (s1 + 1) (s2 + 1)
     else Some (sint (m s1) - sint (m s2)))"

definition kernel_all_strcmp :: "memory \<Rightarrow> u32 \<Rightarrow> u32 \<Rightarrow> int option" where
  "kernel_all_strcmp m s1 s2 = all_strcmp_loop m s1 s2"

text \<open>\<open>size\<close> is tested but never decremented.\<close>

partial_function (option) strcmp_loop :: "memory \<Rightarrow> u32 \<Rightarrow> u32 \<Rightarrow> int \<Rightarrow> (u32 \<times> u32) option" where
  "strcmp_loop m s1 s2 sz =
    (if m s1 \<noteq> 0 \<and> m s2 \<noteq> 0 \<and> m s1 = m s2 \<and> sz \<noteq> 0
     then strcmp_loop m (s1 + 1) (s2 + 1) sz else Some (s1, s2))"

definition kernel_strcmp :: "memory \<Rightarrow> u32 \<Rightarrow> u32 \<Rightarrow> int \<Rightarrow> int option" where
  "kernel_strcmp m s1 s2 sz =
    (if s1 = 0 \<or> s2 = 0 then Some (- 1)
     else do {
       (s1, s2) \<leftarrow> strcmp_loop m s1 s2 sz;
       Some (if \<not> (m s1 = 0 \<or> m s2 = 0 \<or> m s1 = m s2) then 1 else 0)
     })"

partial_function (option) find_end :: "memory \<Rightarrow> u32 \<Rightarrow> u32 option" where
  "find_end m s = (if m s = 0 then Some s else find_end m (s + 1))"

partial_function (option) find_slash :: "memory \<Rightarrow> u32 \<Rightarrow> u32 \<Rightarrow> u32 option" where
  "find_slash m name s =
    (if m s \<noteq> chr CHR ''/'' \<and> m s \<noteq> 92 \<and> name \<le> s then find_slash m name (s - 1) else Some s)"

definition get_file_name :: "memory \<Rightarrow> u32 \<Rightarrow> u32 option" where
  "get_file_name m name =
    do { e \<leftarrow> find_end m name; s \<leftarrow> find_slash m name e; Some (s + 1) }"

section \<open>Numbers\<close>

text \<open>
  The digits of \<^verbatim>\<open>kernel_itoa\<close>, least significant first, indexed in the table
  \<open>FEDCBA9876543210123456789ABCDEF\<close> at remainder plus 15, so that the negative
  remainders of the signed loop find their digits too.
\<close>

definition num2ch :: "u8 list" where
  "num2ch = map of_char ''FEDCBA9876543210123456789ABCDEF''"

function signed_digits :: "int \<Rightarrow> int \<Rightarrow> u8 list" where
  "signed_digits num base =
    (let ch = num2ch ! nat (c_mod num base + 15); num' = c_div num base
     in if num' \<noteq> 0 \<and> 1 < base then ch # signed_digits num' base else [ch])"
  by auto
termination
proof (relation "measure (\<lambda>(num, base). nat \<bar>num\<bar>)", goal_cases)
  case (2 num base x xa)
  then have "\<bar>num\<bar> div base < \<bar>num\<bar>" by (intro int_div_less_self) auto
  moreover have "0 \<le> \<bar>num\<bar> div base" using 2 by (simp add: pos_imp_zdiv_nonneg_iff)
  then have "\<bar>c_div num base\<bar> = \<bar>num\<bar> div base" using 2
    by (auto simp: c_div_def signed_divide_int_def zsgn_def split: if_splits)
  ultimately show ?case using 2 by simp
qed simp

function unsigned_digits :: "u32 \<Rightarrow> u32 \<Rightarrow> u8 list" where
  "unsigned_digits num base =
    (let ch = num2ch ! (unat (num mod base) + 15); num' = num div base
     in if num' \<noteq> 0 \<and> 1 < base then ch # unsigned_digits num' base else [ch])"
  by auto
termination
proof (relation "measure (\<lambda>(num, base). unat num)", goal_cases)
  case (2 num base x xa)
  then have "unat num div unat base < unat num"
    by (intro div_less_dividend) (auto simp: word_less_nat_alt unat_gt_0)
  with 2 show ?case by (simp add: unat_div)
qed simp

declare signed_digits.simps [simp del] unsigned_digits.simps [simp del]

text \<open>The in-place reversal between two indices of the buffer.\<close>

function swap_between :: "u8 list \<Rightarrow> nat \<Rightarrow> nat \<Rightarrow> u8 list" where
  "swap_between xs i j =
    (if i < j then swap_between (xs[i := xs ! j, j := xs ! i]) (Suc i) (j - 1) else xs)"
  by auto
termination
  by (relation "measure (\<lambda>(xs, i, j). j - i)") auto

declare swap_between.simps [simp del]

text \<open>What \<^verbatim>\<open>kernel_itoa\<close> writes from \<open>buf\<close> on, the terminator included.\<close>

definition kernel_itoa :: "int \<Rightarrow> int \<Rightarrow> u8 list" where
  "kernel_itoa num base =
    (if base \<noteq> 2 \<and> base \<noteq> 8 \<and> base \<noteq> 10 \<and> base \<noteq> 16 then [0]
     else let signed_num = num < 0 \<and> base = 10;
              sign = (if signed_num then [chr CHR ''-''] else []);
              digits = (if signed_num then signed_digits num base
                        else unsigned_digits (word_of_int num) (word_of_int base));
              s = sign @ digits;
              start = (if num > 0 then 0 else 1)
          in swap_between s start (length s - 1) @ [0])"

text \<open>
  Formatting: a variadic argument is an integer or a string.  The result is what is written
  from \<open>buf\<close> on; \<open>itoa\<close>'s terminator is overwritten by what follows it.  A missing or
  mistyped argument is \<open>None\<close>.
\<close>

datatype va_arg = Arg_int int | Arg_str "u8 list"

datatype fmt_state = NORMAL | READ_FMT

abbreviation itoa_chars :: "int \<Rightarrow> int \<Rightarrow> u8 list" where
  "itoa_chars num base \<equiv> butlast (kernel_itoa num base)"

fun kernel_vsprintf :: "fmt_state \<Rightarrow> u8 list \<Rightarrow> va_arg list \<Rightarrow> u8 list option" where
  "kernel_vsprintf st [] args = Some []"
| "kernel_vsprintf NORMAL (ch # fmt) args =
    (if ch = chr CHR ''%'' then kernel_vsprintf READ_FMT fmt args
     else map_option ((#) ch) (kernel_vsprintf NORMAL fmt args))"
| "kernel_vsprintf READ_FMT (ch # fmt) args =
    (if ch = chr CHR ''s'' then
       (case args of Arg_str str # args \<Rightarrow> map_option ((@) str) (kernel_vsprintf NORMAL fmt args)
          | _ \<Rightarrow> None)
     else if ch = chr CHR ''d'' then
       (case args of Arg_int n # args \<Rightarrow>
            map_option ((@) (itoa_chars n 10)) (kernel_vsprintf NORMAL fmt args)
          | _ \<Rightarrow> None)
     else if ch = chr CHR ''x'' then
       (case args of Arg_int n # args \<Rightarrow>
            map_option ((@) (itoa_chars n 16)) (kernel_vsprintf NORMAL fmt args)
          | _ \<Rightarrow> None)
     else if ch = chr CHR ''c'' then
       (case args of Arg_int n # args \<Rightarrow>
            map_option ((#) (word_of_int n)) (kernel_vsprintf NORMAL fmt args)
          | _ \<Rightarrow> None)
     else kernel_vsprintf NORMAL fmt args)"

section \<open>Memory blocks, in closed form\<close>

lemma fill_bytes_ok: "fill_bytes n d v m a = (if unat (a - d) < n then v else m a)"
proof (induction n arbitrary: d m a)
  case (Suc n)
  show ?case
  proof (cases "a = d")
    case False
    then have "unat (a - (d + 1)) = unat (a - d) - 1" "0 < unat (a - d)"
      using unat_minus_one[of "a - d"] by (simp_all add: diff_diff_eq unat_gt_0)
    with False show ?thesis by (auto simp: Suc)
  qed (simp add: Suc)
qed simp

lemma copy_bytes_ok:
  assumes "\<And>i j. i < n \<Longrightarrow> j < n \<Longrightarrow> s + of_nat i \<noteq> d + of_nat j" and "n \<le> 2 ^ 32"
  shows "copy_bytes n d s m a = (if unat (a - d) < n then m (s + (a - d)) else m a)"
  using assms
proof (induction n arbitrary: d s m a)
  case (Suc n)
  have dis: "s + 1 + of_nat i \<noteq> d + 1 + of_nat j" if "i < n" "j < n" for i j
    using Suc.prems(1)[of "Suc i" "Suc j"] that by (simp add: add.assoc)
  note IH = Suc.IH[OF dis, simplified, of "m(d := m s)"]
  show ?case
  proof (cases "a = d")
    case True
    have "unat (- 1 :: u32) = 2 ^ 32 - 1"
      by (simp add: unsigned_minus_1_eq_mask mask_eq_exp_minus_1)
    with Suc.prems(2) have "\<not> unat (- 1 :: u32) < n" by simp
    with True Suc.prems(2) show ?thesis by (simp add: IH)
  next
    case False
    then have u: "unat (a - (d + 1)) = unat (a - d) - 1" "0 < unat (a - d)"
      using unat_minus_one[of "a - d"] by (simp_all add: diff_diff_eq unat_gt_0)
    have "s + (a - d) \<noteq> d" if "unat (a - d) < Suc n"
      using Suc.prems(1)[OF that, of 0] by simp
    with False u Suc.prems(2) show ?thesis by (auto simp: IH)
  qed
qed simp

section \<open>Strings in memory\<close>

fun cstr :: "memory \<Rightarrow> u32 \<Rightarrow> u8 list \<Rightarrow> bool" where
  "cstr m p [] \<longleftrightarrow> m p = 0"
| "cstr m p (x # xs) \<longleftrightarrow> m p = x \<and> x \<noteq> 0 \<and> cstr m (p + 1) xs"

lemma cstr_nth:
  "cstr m p xs \<longleftrightarrow> (\<forall>i < length xs. m (p + of_nat i) = xs ! i \<and> xs ! i \<noteq> 0)
     \<and> m (p + of_nat (length xs)) = 0"
proof (induction xs arbitrary: p)
  case (Cons x xs)
  have "(\<forall>i < length (x # xs). m (p + of_nat i) = (x # xs) ! i \<and> (x # xs) ! i \<noteq> 0)
    \<longleftrightarrow> m p = x \<and> x \<noteq> 0 \<and> (\<forall>i < length xs. m (p + 1 + of_nat i) = xs ! i \<and> xs ! i \<noteq> 0)"
    by (auto simp: All_less_Suc2 add.assoc)
  then show ?case by (simp add: Cons add.assoc)
qed simp

lemma strlen_loop_ok: "cstr m p xs \<Longrightarrow> strlen_loop m p n = Some (n + int (length xs))"
  by (induction xs arbitrary: p n) (auto simp: strlen_loop.simps)

lemma sint_eq_0_iff: "sint (a :: u8) = 0 \<longleftrightarrow> a = 0"
  by (metis signed_0 signed_word_eqI)

lemma all_strcmp_ok:
  "cstr m p xs \<Longrightarrow> cstr m q ys \<Longrightarrow>
   \<exists>r. all_strcmp_loop m p q = Some r \<and> (r = 0 \<longleftrightarrow> xs = ys)"
proof (induction xs arbitrary: p q ys)
  case Nil
  then show ?case by (cases ys) (auto simp: all_strcmp_loop.simps[of m p q] sint_eq_0_iff)
next
  case (Cons x xs)
  have s: "sint a = sint b \<longleftrightarrow> a = b" for a b :: u8
    using signed_word_eqI[of a b] by auto
  show ?case
  proof (cases ys)
    case Nil
    with Cons.prems show ?thesis by (auto simp: all_strcmp_loop.simps[of m p q] sint_eq_0_iff)
  next
    case ys: (Cons y ys')
    show ?thesis
    proof (cases "x = y")
      case True
      with Cons.prems ys have "all_strcmp_loop m p q = all_strcmp_loop m (p + 1) (q + 1)"
        by (simp add: all_strcmp_loop.simps[of m p q])
      with Cons.IH[of "p + 1" "q + 1" ys'] Cons.prems ys True show ?thesis by simp
    next
      case False
      with Cons.prems ys show ?thesis by (auto simp: s all_strcmp_loop.simps[of m p q])
    qed
  qed
qed

text \<open>\<^verbatim>\<open>kernel_strcmp\<close> decides whether one string is a prefix of the other.\<close>

fun is_prefix :: "u8 list \<Rightarrow> u8 list \<Rightarrow> bool" where
  "is_prefix [] ys \<longleftrightarrow> True"
| "is_prefix (x # xs) [] \<longleftrightarrow> False"
| "is_prefix (x # xs) (y # ys) \<longleftrightarrow> x = y \<and> is_prefix xs ys"

lemma strcmp_ok:
  assumes "cstr m p xs" and "cstr m q ys" and "n \<noteq> 0"
  shows "\<exists>p' q'. strcmp_loop m p q n = Some (p', q')
    \<and> (m p' = 0 \<or> m q' = 0 \<or> m p' = m q' \<longleftrightarrow> is_prefix xs ys \<or> is_prefix ys xs)"
  using assms
proof (induction xs arbitrary: p q ys)
  case Nil
  then show ?case by (auto simp: strcmp_loop.simps[of m p q])
next
  case (Cons x xs)
  show ?case
  proof (cases ys)
    case Nil
    with Cons.prems show ?thesis by (auto simp: strcmp_loop.simps[of m p q])
  next
    case ys: (Cons y ys')
    show ?thesis
    proof (cases "x = y")
      case True
      with Cons.prems ys have "strcmp_loop m p q n = strcmp_loop m (p + 1) (q + 1) n"
        by (simp add: strcmp_loop.simps[of m p q])
      with Cons.IH[of "p + 1" "q + 1" ys'] Cons.prems ys True show ?thesis by auto
    next
      case False
      with Cons.prems ys show ?thesis by (auto simp: strcmp_loop.simps[of m p q])
    qed
  qed
qed

section \<open>Bounded copy\<close>

text \<open>The two ranges do not overlap, for indices up to \<open>k\<close>.\<close>

definition apart :: "u32 \<Rightarrow> u32 \<Rightarrow> nat \<Rightarrow> bool" where
  "apart s d k \<longleftrightarrow> (\<forall>i \<le> k. \<forall>j \<le> k. s + of_nat i \<noteq> d + of_nat j)"

lemma apart_Suc: "apart s d (Suc k) \<Longrightarrow> apart (s + 1) (d + 1) k"
  unfolding apart_def
proof (intro allI impI)
  fix i j assume a: "\<forall>i\<le>Suc k. \<forall>j\<le>Suc k. s + of_nat i \<noteq> d + of_nat j" "i \<le> k" "j \<le> k"
  then have "s + of_nat (Suc i) \<noteq> d + of_nat (Suc j)" by blast
  then show "s + 1 + of_nat i \<noteq> d + 1 + of_nat j" by (simp add: add.assoc)
qed

lemma apartD: "apart s d k \<Longrightarrow> i \<le> k \<Longrightarrow> j \<le> k \<Longrightarrow> s + of_nat i \<noteq> d + of_nat j"
  by (simp add: apart_def)

lemma apart_mono: "apart s d k \<Longrightarrow> j \<le> k \<Longrightarrow> apart s d j"
  by (auto simp: apart_def)

lemma cstr_frame:
  "cstr m p xs \<Longrightarrow> (\<And>i. i \<le> length xs \<Longrightarrow> p + of_nat i \<noteq> d) \<Longrightarrow> cstr (m(d := v)) p xs"
  by (auto simp: cstr_nth)

lemma strncpy_loop_ok:
  assumes "cstr m s xs" and "apart s d (max n (length xs))"
  shows "strncpy_loop d s (int n) m
    = (copy_bytes (min n (length xs)) d s m, d + of_nat (min n (length xs)),
       int n - int (min n (length xs)) - 1)"
  using assms
proof (induction n arbitrary: d s m xs)
  case 0
  then show ?case by (simp add: strncpy_loop.simps)
next
  case (Suc n)
  show ?case
  proof (cases xs)
    case Nil
    with Suc.prems(1) show ?thesis by (simp add: strncpy_loop.simps)
  next
    case (Cons x xs')
    have x: "m s = x" "x \<noteq> 0" "cstr m (s + 1) xs'" using Suc.prems(1) Cons by simp_all
    have ap: "apart (s + 1) (d + 1) (max n (length xs'))"
      using Suc.prems(2) Cons by (intro apart_Suc) simp
    have "s + 1 + of_nat i \<noteq> d" if "i \<le> length xs'" for i
    proof -
      have "s + of_nat (Suc i) \<noteq> d + of_nat 0"
        by (rule apartD[OF Suc.prems(2)]) (use that Cons in simp_all)
      then show ?thesis by (simp add: add.assoc)
    qed
    define m' where "m' = m(d := x)"
    have "cstr m' (s + 1) xs'" unfolding m'_def by (rule cstr_frame[OF x(3)]) fact
    note IH = Suc.IH[OF this ap]
    have k: "min (Suc n) (length xs) = Suc (min n (length xs'))" using Cons by simp
    have "strncpy_loop d s (int (Suc n)) m = strncpy_loop (d + 1) (s + 1) (int n) m'"
      by (subst strncpy_loop.simps) (simp add: x(1,2) m'_def)
    moreover have "copy_bytes (Suc (min n (length xs'))) d s m
        = copy_bytes (min n (length xs')) (d + 1) (s + 1) m'"
      by (simp add: x(1) m'_def)
    ultimately show ?thesis unfolding k IH by (simp add: add.assoc)
  qed
qed

lemma kernel_strncpy_ok:
  assumes "cstr m s xs" and "apart s d (max n (length xs))" and "d \<noteq> 0" and "s \<noteq> 0" and "0 < n"
  shows "kernel_strncpy d s (int n) m =
    (let m' = copy_bytes (min n (length xs)) d s m
     in if length xs + 1 = n then m'(d + of_nat (length xs) - 1 := 0)
        else m'(d + of_nat (min n (length xs)) := 0))"
proof -
  have "int n - int (min n (length xs)) - 1 = 0 \<longleftrightarrow> length xs + 1 = n"
    by (auto simp: min_def)
  moreover have "min n (length xs) = length xs" if "length xs + 1 = n" using that by simp
  ultimately show ?thesis
    using assms(3-5) by (simp add: kernel_strncpy_def strncpy_loop_ok[OF assms(1,2)] Let_def)
qed

text \<open>What lies at the destination after the copy loop.\<close>

lemma copy_bytes_cstr:
  assumes "cstr m s xs" and "apart s d n" and "n < 2 ^ 32" and "k \<le> n" and "n \<le> length xs"
  shows "cstr ((copy_bytes n d s m)(d + of_nat k := 0)) d (take k xs)"
proof -
  have c: "copy_bytes n d s m a = (if unat (a - d) < n then m (s + (a - d)) else m a)" for a
    by (rule copy_bytes_ok) (use assms(2,3) in \<open>auto simp: apart_def less_imp_le\<close>)
  have "copy_bytes n d s m (d + of_nat i) = xs ! i \<and> xs ! i \<noteq> 0 \<and> d + of_nat i \<noteq> d + of_nat k"
    if "i < k" for i
  proof -
    have u: "unat (of_nat i :: u32) = i" "unat (of_nat k :: u32) = k"
      using that assms(3,4) by (simp_all add: unat_of_nat)
    then have "(of_nat i :: u32) \<noteq> of_nat k" using that by auto
    with u that assms(1,4,5) show ?thesis by (auto simp: c cstr_nth)
  qed
  then show ?thesis using assms(4,5) by (simp add: cstr_nth)
qed

section \<open>Numbers and their digits\<close>

definition dval :: "u8 \<Rightarrow> int" where
  "dval c = (if c \<le> 57 then uint c - 48 else uint c - 55)"

fun lvalue :: "int \<Rightarrow> u8 list \<Rightarrow> int" where
  "lvalue base [] = 0"
| "lvalue base (c # cs) = dval c + base * lvalue base cs"

definition parse :: "int \<Rightarrow> u8 list \<Rightarrow> int" where
  "parse base cs = foldl (\<lambda>a c. a * base + dval c) 0 cs"

lemma parse_rev: "parse base (rev cs) = lvalue base cs"
  by (induction cs) (simp_all add: parse_def foldl_append mult.commute)

lemma num2ch_eq: "num2ch =
  [70, 69, 68, 67, 66, 65, 57, 56, 55, 54, 53, 52, 51, 50, 49, 48, 49, 50, 51, 52, 53, 54, 55, 56,
   57, 65, 66, 67, 68, 69, 70]"
  by (simp add: num2ch_def of_char_Char)

lemma dval_num2ch:
  assumes "r < 16"
  shows "dval (num2ch ! (15 + r)) = int r" and "dval (num2ch ! (15 - r)) = int r"
proof -
  have r: "r \<in> {0, 1, 2, 3, 4, 5, 6, 7, 8, 9, 10, 11, 12, 13, 14, 15}"
    using assms unfolding insert_iff empty_iff by presburger
  show "dval (num2ch ! (15 + r)) = int r" using r
    by (elim insertE emptyE; simp only:) (simp_all add: num2ch_eq dval_def)
  show "dval (num2ch ! (15 - r)) = int r" using r
    by (elim insertE emptyE; simp only:) (simp_all add: num2ch_eq dval_def)
qed

lemma unsigned_digits_value:
  "2 \<le> uint base \<Longrightarrow> uint base \<le> 16 \<Longrightarrow> lvalue (uint base) (unsigned_digits u base) = uint u"
proof (induction u base rule: unsigned_digits.induct)
  case (1 num base)
  have b: "1 < base" using "1.prems" by (simp add: word_less_def)
  have r: "int (unat (num mod base)) = uint num mod uint base" by (simp add: uint_mod)
  have "uint num mod uint base < 16"
    using "1.prems" by (intro order_less_le_trans[OF pos_mod_bound]) simp_all
  then have d: "dval (num2ch ! (15 + unat (num mod base))) = uint num mod uint base"
    using dval_num2ch(1)[of "unat (num mod base)"] r by simp
  show ?case
  proof (cases "num div base = 0")
    case True
    then have "uint num div uint base = 0" using uint_div[of num base] by simp
    then have "uint num mod uint base = uint num" by (metis add.right_neutral mult_zero_right mod_div_mult_eq mult_zero_left)
    with True d show ?thesis by (subst unsigned_digits.simps) (simp add: add.commute Let_def)
  next
    case False
    have "lvalue (uint base) (unsigned_digits (num div base) base) = uint num div uint base"
      using "1.IH"[OF refl refl _ "1.prems"] False b by (simp add: uint_div)
    with False b d show ?thesis by (subst unsigned_digits.simps) (simp add: add.commute Let_def)
  qed
qed

lemma signed_digits_value:
  "num < 0 \<Longrightarrow> lvalue 10 (signed_digits num 10) = - num"
proof (induction num "10 :: int" rule: signed_digits.induct)
  case (1 num)
  have q: "c_div num 10 = - ((- num) div 10)" "c_mod num 10 = - ((- num) mod 10)"
    using "1.prems" by (simp_all add: c_div_def c_mod_def signed_divide_int_def zsgn_def smod_int_alt_def)
  have m: "0 \<le> (- num) mod 10" "(- num) mod 10 < 10" by simp_all
  then have "nat (c_mod num 10 + 15) = 15 - nat ((- num) mod 10)" by (simp add: q nat_diff_distrib')
  then have d: "dval (num2ch ! nat (c_mod num 10 + 15)) = (- num) mod 10"
    using dval_num2ch(2)[of "nat ((- num) mod 10)"] m by simp
  show ?case
  proof (cases "c_div num 10 = 0")
    case True
    then have "(- num) mod 10 = - num" using q by (metis add.right_neutral mult_zero_left neg_equal_0_iff_equal mod_div_mult_eq)
    with True d show ?thesis by (subst signed_digits.simps) (simp add: Let_def)
  next
    case False
    then have "c_div num 10 < 0" using q(1) "1.prems" by (simp add: pos_imp_zdiv_nonneg_iff order_less_le)
    with "1.hyps"[OF refl refl] False
    have "lvalue 10 (signed_digits (c_div num 10) 10) = (- num) div 10" by (simp add: q)
    with False d show ?thesis by (subst signed_digits.simps) (simp add: Let_def)
  qed
qed

lemma swap_between_length [simp]: "length (swap_between xs i j) = length xs"
  by (induction xs i j rule: swap_between.induct) (subst swap_between.simps, simp)

lemma swap_between_nth:
  "j < length xs \<Longrightarrow> k < length xs \<Longrightarrow>
   swap_between xs i j ! k = (if i \<le> k \<and> k \<le> j then xs ! (i + j - k) else xs ! k)"
proof (induction xs i j rule: swap_between.induct)
  case (1 xs i j)
  show ?case
  proof (cases "i < j")
    case True
    let ?ys = "xs[i := xs ! j, j := xs ! i]"
    have "swap_between ?ys (Suc i) (j - 1) ! k
        = (if Suc i \<le> k \<and> k \<le> j - 1 then ?ys ! (Suc i + (j - 1) - k) else ?ys ! k)"
      using "1.IH"[OF True] "1.prems" by simp
    with True "1.prems" show ?thesis
      by (subst swap_between.simps) (auto simp: nth_list_update)
  next
    case False
    then have "i \<le> k \<Longrightarrow> k \<le> j \<Longrightarrow> i + j - k = k" by simp
    with False "1.prems" show ?thesis by (subst swap_between.simps) auto
  qed
qed

lemma swap_all: "xs \<noteq> [] \<Longrightarrow> swap_between xs 0 (length xs - 1) = rev xs"
  by (rule nth_equalityI) (auto simp: swap_between_nth rev_nth)

lemma swap_tail: "xs \<noteq> [] \<Longrightarrow> swap_between (x # xs) 1 (length xs) = x # rev xs"
  by (rule nth_equalityI) (auto simp: swap_between_nth rev_nth nth_Cons split: nat.splits
      intro!: arg_cong[where f = "(!) xs"])

lemma unsigned_digits_ne [simp]: "unsigned_digits u base \<noteq> []"
  by (subst unsigned_digits.simps) (simp add: Let_def)

lemma signed_digits_ne [simp]: "signed_digits n base \<noteq> []"
  by (subst signed_digits.simps) (simp add: Let_def)

lemma itoa_pos:
  assumes "0 < num" and "base \<in> {2, 8, 10, 16}"
  shows "kernel_itoa num base = rev (unsigned_digits (word_of_int num) (word_of_int base)) @ [0]"
  using assms swap_all[of "unsigned_digits (word_of_int num) (word_of_int base)"]
  by (auto simp: kernel_itoa_def Let_def)

lemma itoa_neg:
  assumes "num < 0"
  shows "kernel_itoa num 10 = chr CHR ''-'' # rev (signed_digits num 10) @ [0]"
  using assms swap_tail[of "signed_digits num 10" "chr CHR ''-''"]
  by (simp add: kernel_itoa_def Let_def)

section \<open>Properties\<close>

lemma itoa_zero: "base \<in> {2, 8, 10, 16} \<Longrightarrow> kernel_itoa 0 base = [chr CHR ''0'', 0]"
  by (auto simp: kernel_itoa_def Let_def unsigned_digits.simps[of 0] swap_between.simps[of _ "Suc 0" 0] num2ch_eq of_char_Char)

text \<open>The reversal starts at the second character when there is no sign to skip.\<close>

lemma itoa_mixed:
  assumes "num < 0" and "base \<in> {2, 8, 16}"
    and "unsigned_digits (word_of_int num) (word_of_int base) = d # ds"
  shows "kernel_itoa num base = d # rev ds @ [0]"
proof (cases "ds = []")
  case True
  then show ?thesis using assms by (auto simp: kernel_itoa_def Let_def swap_between.simps[of _ "Suc 0" 0])
next
  case False
  then show ?thesis using assms swap_tail[OF False, of d] by (auto simp: kernel_itoa_def Let_def)
qed

lemma unsigned_parse:
  assumes "base \<in> {2, 8, 10, 16}"
  shows "parse base (rev (unsigned_digits u (word_of_int base))) = uint u"
proof -
  have "uint (word_of_int base :: u32) = base" "2 \<le> base" "base \<le> 16" using assms by auto
  then show ?thesis using unsigned_digits_value[of "word_of_int base" u] by (simp add: parse_rev)
qed

text \<open>C24: What \<^verbatim>\<open>kernel_itoa\<close> prints for every 32-bit \<open>int\<close> in each of its four bases.  Zero is
  the single digit 0; a positive number is printed as digits that read back as the number; a
  negative one in base ten as a minus sign before the digits of its magnitude.  A negative
  number in another base stands for its unsigned value and does not read back: the reversal
  leaves the last digit in front, and the characters behind it followed by it are the
  digits of the number plus \<open>2 ^ 32\<close>.\<close>

theorem itoa_parse:
  assumes "base \<in> {2, 8, 10, 16}" and "- (2 ^ 31) \<le> num" and "num < 2 ^ 31"
  shows "if num = 0 then kernel_itoa num base = [chr CHR ''0'', 0]
    else if 0 < num then \<exists>ds. kernel_itoa num base = ds @ [0] \<and> parse base ds = num
    else if base = 10 then \<exists>ds. kernel_itoa num base = chr CHR ''-'' # ds @ [0] \<and> - parse base ds = num
    else \<exists>d ds. kernel_itoa num base = d # ds @ [0] \<and> parse base (ds @ [d]) = num + 2 ^ 32"
proof -
  let ?ds = "unsigned_digits (word_of_int num) (word_of_int base)"
  consider "num = 0" | "0 < num" | "num < 0" "base = 10" | "num < 0" "base \<noteq> 10" by linarith
  then show ?thesis
  proof cases
    case 1
    then show ?thesis using itoa_zero[OF assms(1)] by simp
  next
    case 2
    then have "uint (word_of_int num :: u32) = num" using assms(3) by (simp only: uint_word_of_int) simp
    then show ?thesis using 2 itoa_pos[OF 2 assms(1)] unsigned_parse[OF assms(1), of "word_of_int num"] by auto
  next
    case 3
    then show ?thesis using itoa_neg[OF 3(1)] signed_digits_value[OF 3(1)]
      by (auto simp: parse_rev intro!: exI[of _ "rev (signed_digits num 10)"])
  next
    case 4
    obtain d ds where u: "?ds = d # ds" by (cases ?ds) auto
    have "(num + 2 ^ 32) mod 2 ^ 32 = num + 2 ^ 32" by (rule mod_pos_pos_trivial) (use 4 assms(2) in auto)
    then have "uint (word_of_int num :: u32) = num + 2 ^ 32" by (simp add: uint_word_of_int)
    then have "parse base (rev ds @ [d]) = num + 2 ^ 32"
      using unsigned_parse[OF assms(1), of "word_of_int num"] by (simp add: u)
    then show ?thesis using 4 itoa_mixed[OF 4(1) _ u] assms(1) by auto
  qed
qed

theorem itoa_parse_witness:
  "(\<exists>ds. kernel_itoa (- 120) 10 = chr CHR ''-'' # ds @ [0] \<and> - parse 10 ds = - 120)
   \<and> (\<exists>d ds. kernel_itoa (- 120) 16 = d # ds @ [0] \<and> parse 16 (ds @ [d]) = 4294967176)"
  using itoa_parse[of 10 "- 120"] itoa_parse[of 16 "- 120"] by simp

text \<open>In base sixteen a number above \<open>2 ^ 31\<close> (a negative \<open>int\<close>) comes out wrong: the
  reversal skips the first character, the lowest digit.\<close>

theorem itoa_hex_negative:
  "kernel_itoa (- 2) 16 = map of_char ''EFFFFFFF'' @ [0]"
  by (simp add: kernel_itoa_def Let_def unsigned_digits.simps num2ch_eq swap_between.simps
      of_char_Char)

lemma strncpy_dest:
  assumes "cstr m s xs" and "apart s d (max n (length xs))" and "d \<noteq> 0" and "s \<noteq> 0" and "0 < n"
    and "n < 2 ^ 32"
  shows "cstr (kernel_strncpy d s (int n) m) d
      (if length xs + 1 = n \<and> xs \<noteq> [] then butlast xs else take n xs)
    \<or> length xs + 1 = n \<and> xs = []"
proof -
  let ?k = "min n (length xs)"
  note e = kernel_strncpy_ok[OF assms(1-5)]
  have ap: "apart s d ?k" by (rule apart_mono[OF assms(2)]) simp
  show ?thesis
  proof (cases "length xs + 1 = n")
    case False
    have "cstr ((copy_bytes ?k d s m)(d + of_nat ?k := 0)) d (take ?k xs)"
      by (rule copy_bytes_cstr[OF assms(1) ap]) (use assms(6) in auto)
    then show ?thesis using False e by (simp add: Let_def min_def split: if_splits)
  next
    case True
    show ?thesis
    proof (cases "xs = []")
      case ne: False
      have k: "?k = length xs" using True by simp
      have "cstr ((copy_bytes ?k d s m)(d + of_nat (length xs - 1) := 0)) d (take (length xs - 1) xs)"
        by (rule copy_bytes_cstr[OF assms(1) ap]) (use assms(6) True k in auto)
      moreover have "d + of_nat (length xs - 1) = d + of_nat (length xs) - 1"
        using ne by (cases xs) simp_all
      ultimately have "cstr (kernel_strncpy d s (int n) m) d (take (length xs - 1) xs)"
        using True k by (simp only: e Let_def simp_thms if_True)
      then show ?thesis using True ne by (simp add: butlast_conv_take)
    qed (use True in simp)
  qed
qed

text \<open>What \<^verbatim>\<open>kernel_strncpy\<close> leaves at the destination: a string that fits with room to
  spare is copied whole; one of exactly \<open>size - 1\<close> characters loses its last character; and
  one of \<open>size\<close> characters or more is followed by a terminator one byte past the buffer.\<close>

theorem strncpy_result:
  assumes "cstr m s xs" and "apart s d (max n (length xs))" and "d \<noteq> 0" and "s \<noteq> 0" and "n < 2 ^ 32"
  shows "(length xs + 1 < n \<longrightarrow> cstr (kernel_strncpy d s (int n) m) d xs)
    \<and> (length xs + 1 = n \<longrightarrow> xs \<noteq> [] \<longrightarrow> cstr (kernel_strncpy d s (int n) m) d (butlast xs))
    \<and> (n \<le> length xs \<longrightarrow> 0 < n \<longrightarrow> kernel_strncpy d s (int n) m (d + of_nat n) = 0)"
  using strncpy_dest[OF assms(1-4) _ assms(5)] kernel_strncpy_ok[OF assms(1-4)]
  by (auto simp: Let_def)

definition demo_memory :: memory where
  "demo_memory = (\<lambda>_. 7)(100 := 97, 101 := 98, 102 := 99, 103 := 0)"

theorem strncpy_result_witness:
  "cstr (kernel_strncpy 200 100 4 demo_memory) 200 [97, 98]
   \<and> kernel_strncpy 200 100 2 demo_memory 202 = 0 \<and> demo_memory 202 = 7"
proof -
  have c: "cstr demo_memory 100 [97, 98, 99]" by (simp add: demo_memory_def)
  have a: "apart 100 200 4"
    unfolding apart_def
  proof (intro allI impI)
    fix i j :: nat assume "i \<le> 4" "j \<le> 4"
    then have "i \<in> {0, 1, 2, 3, 4}" "j \<in> {0, 1, 2, 3, 4}"
      unfolding insert_iff empty_iff by presburger+
    then show "(100 :: u32) + of_nat i \<noteq> 200 + of_nat j" by auto
  qed
  have "apart 100 200 (max k (length [97, 98, 99 :: u8]))" if "k \<le> 4" for k
    by (rule apart_mono[OF a]) (use that in simp)
  from strncpy_result[OF c this[of 4]] strncpy_result[OF c this[of 2]] show ?thesis
    by (simp add: demo_memory_def)
qed

text \<open>\<^verbatim>\<open>kernel_strcmp\<close> ignores its length and reports two strings as equal exactly when
  one is a prefix of the other, while \<^verbatim>\<open>kernel_all_strcmp\<close> decides equality.\<close>

theorem strcmp_prefix:
  assumes "cstr m p xs" and "cstr m q ys" and "p \<noteq> 0" and "q \<noteq> 0" and "n \<noteq> 0"
  shows "(kernel_strcmp m p q n = Some 0 \<longleftrightarrow> is_prefix xs ys \<or> is_prefix ys xs)
    \<and> (kernel_all_strcmp m p q = Some 0 \<longleftrightarrow> xs = ys)"
  using strcmp_ok[OF assms(1,2,5)] all_strcmp_ok[OF assms(1,2)] assms(3,4)
  by (auto simp: kernel_strcmp_def kernel_all_strcmp_def)

theorem strcmp_prefix_witness:
  "kernel_strcmp (demo_memory(110 := 97, 111 := 0)) 110 100 8 = Some 0
   \<and> kernel_all_strcmp (demo_memory(110 := 97, 111 := 0)) 110 100 \<noteq> Some 0"
proof -
  have "cstr (demo_memory(110 := 97, 111 := 0)) 110 [97]"
    "cstr (demo_memory(110 := 97, 111 := 0)) 100 [97, 98, 99]"
    by (simp_all add: demo_memory_def)
  from strcmp_prefix[OF this, of 8] show ?thesis by simp
qed

end
