(* ===== verification/History.thy ===== *)
theory History
  imports Console Klib
begin

text \<open>
  The command history of a console: \<^verbatim>\<open>kernel/base/history_cmd.c\<close> and the history
  navigation of \<^verbatim>\<open>kernel/dev/console.c\<close>.  A command is a byte array of
  \<open>CLI_INPUT_SIZE\<close> bytes; a pointer into the history is an index.  \<open>None\<close> is an access
  outside an array, an unterminated string included.  The command handed in by the caller is
  given by its characters, and the clock's value is an argument.
\<close>

section \<open>Operations\<close>

definition cstring :: "u8 list \<Rightarrow> u8 list option" where
  "cstring bs = (if 0 \<in> set bs then Some (takeWhile (\<lambda>b. b \<noteq> 0) bs) else None)"

definition his_entry :: "console_t \<Rightarrow> int \<Rightarrow> history_command_t" where
  "his_entry c i = his_cmds c ! nat i"

definition his_empty :: "console_t \<Rightarrow> int \<Rightarrow> bool" where
  "his_empty c i \<longleftrightarrow> hcmd (his_entry c i) ! 0 = 0"

text \<open>
  The local \<open>curr_his_idx\<close> of \<open>pre_cmd\<close> has no value on the path where navigation starts
  from the newest command; \<open>uninit\<close> is what the variable then holds.
\<close>

definition pre_cmd :: "int \<Rightarrow> console_t \<Rightarrow> (int \<times> console_t) option" where
  "pre_cmd uninit c =
    (let (idx, c) =
           (if curr_his_idx c = - 1 then (uninit, c\<lparr>curr_his_idx := his_idx c\<rparr>)
            else (curr_his_idx c - 1, c\<lparr>curr_his_idx := curr_his_idx c - 1\<rparr>));
         (idx, c) =
           (if curr_his_idx c < 0
            then (MAX_SAVE_CMDS_NR - 1, c\<lparr>curr_his_idx := MAX_SAVE_CMDS_NR - 1\<rparr>) else (idx, c))
     in if idx < 0 \<or> idx \<ge> MAX_SAVE_CMDS_NR then None
        else if his_empty c idx
        then let c = c\<lparr>curr_his_idx := curr_his_idx c + 1\<rparr>
             in Some (idx, if curr_his_idx c = MAX_SAVE_CMDS_NR then c\<lparr>curr_his_idx := 0\<rparr> else c)
        else Some (idx, c))"

definition peek_pre_cmd :: "console_t \<Rightarrow> int" where
  "peek_pre_cmd c =
    (let i = his_idx c - 1 in if i < 0 then MAX_SAVE_CMDS_NR - 1 else i)"

definition next_cmd :: "console_t \<Rightarrow> int \<times> console_t" where
  "next_cmd c =
    (let c = c\<lparr>curr_his_idx := curr_his_idx c + 1\<rparr>;
         idx = curr_his_idx c;
         (idx, c) = (if curr_his_idx c = MAX_SAVE_CMDS_NR then (0, c\<lparr>curr_his_idx := 0\<rparr>) else (idx, c))
     in if his_empty c idx
        then let c = c\<lparr>curr_his_idx := curr_his_idx c - 1\<rparr>
             in (idx, if curr_his_idx c = 0 then c\<lparr>curr_his_idx := MAX_SAVE_CMDS_NR - 1\<rparr> else c)
        else (idx, c))"

definition add :: "int \<Rightarrow> u8 list \<Rightarrow> console_t \<Rightarrow> console_t option" where
  "add timep cmd c =
    do {
      let p = nat (peek_pre_cmd c);
      old \<leftarrow> cstring (hcmd (his_cmds c ! p));
      if old = cmd
      then Some (c\<lparr>his_cmds := (his_cmds c)[p := (his_cmds c ! p)\<lparr>htime := timep\<rparr>]\<rparr>)
      else do {
        let c = c\<lparr>his_idx := his_idx c + 1\<rparr>;
        let c = (if his_idx c = MAX_SAVE_CMDS_NR then c\<lparr>his_idx := 0\<rparr> else c);
        let c = c\<lparr>curr_his_idx := - 1\<rparr>;
        let i = nat (his_idx c);
        let h = (history_command_init (his_cmds c ! i))\<lparr>htime := timep\<rparr>;
        if length cmd > CLI_INPUT_SIZE then None
        else Some (c\<lparr>his_cmds := (his_cmds c)[i := h\<lparr>hcmd := cmd @ drop (length cmd) (hcmd h)\<rparr>]\<rparr>)
      }
    }"

definition sys_save_history :: "int \<Rightarrow> nat \<Rightarrow> u8 list \<Rightarrow> console_t list \<Rightarrow> console_t list option" where
  "sys_save_history timep console_num cmd cs =
    (if console_num < length cs
     then do { c \<leftarrow> add timep cmd (cs ! console_num); Some (cs[console_num := c]) } else None)"

definition history_count :: "console_t \<Rightarrow> int" where
  "history_count c =
    (if \<not> his_empty c (MAX_SAVE_CMDS_NR - 1) then MAX_SAVE_CMDS_NR
     else if his_idx c = MAX_SAVE_CMDS_NR - 1 then 0
     else his_idx c + 1)"

primrec put_bytes :: "u32 \<Rightarrow> u8 list \<Rightarrow> memory \<Rightarrow> memory" where
  "put_bytes p [] m = m"
| "put_bytes p (x # xs) m = put_bytes (p + 1) xs (m(p := x))"

text \<open>
  \<open>kernel_strncpy(dest, src, kernel_strlen(src))\<close> writes all characters and a terminator
  behind them (the last case of \<^verbatim>\<open>Klib.strncpy_result\<close>).
\<close>

fun copy_cmds :: "u32 list \<Rightarrow> history_command_t list \<Rightarrow> memory \<Rightarrow> memory option" where
  "copy_cmds ds [] m = Some m"
| "copy_cmds [] (h # hs) m = None"
| "copy_cmds (d # ds) (h # hs) m =
    do {
      s \<leftarrow> cstring (hcmd h);
      copy_cmds ds hs (if d = 0 \<or> s = [] then m else put_bytes d (s @ [0]) m)
    }"

text \<open>\<open>kernel_memset(cmds, 0, sizeof(cmds))\<close> clears the first pointer of the caller's array.\<close>

definition sys_get_history :: "console_t \<Rightarrow> u32 list \<Rightarrow> memory \<Rightarrow> memory option" where
  "sys_get_history c cmds m =
    (let cnt = history_count c;
         cmds = cmds[0 := 0];
         head = (if \<not> his_empty c (MAX_SAVE_CMDS_NR - 1)
                 then (if his_idx c + 1 = MAX_SAVE_CMDS_NR then 0 else his_idx c + 1) else 0)
     in if head = 0 then copy_cmds cmds (take (nat cnt) (his_cmds c)) m
        else copy_cmds cmds (drop (nat head) (his_cmds c) @ take (nat head) (his_cmds c)) m)"

section \<open>The ring as a list of commands\<close>

definition cmd_text :: "history_command_t \<Rightarrow> u8 list" where
  "cmd_text h = takeWhile (\<lambda>b. b \<noteq> 0) (hcmd h)"

definition entry_ok :: "history_command_t \<Rightarrow> bool" where
  "entry_ok h \<longleftrightarrow> length (hcmd h) = CLI_INPUT_SIZE \<and> 0 \<in> set (hcmd h)"

text \<open>\<open>hist_rep c H\<close>: the ring of \<open>c\<close> holds the commands \<open>H\<close>, oldest first.\<close>

definition hist_rep :: "console_t \<Rightarrow> u8 list list \<Rightarrow> bool" where
  "hist_rep c H \<longleftrightarrow> length (his_cmds c) = 100 \<and> (\<forall>h \<in> set (his_cmds c). entry_ok h) \<and> [] \<notin> set H
     \<and> 0 \<le> his_idx c \<and> his_idx c < 100
     \<and> (length H < 100 \<and> his_idx c = (int (length H) + 99) mod 100
          \<and> map cmd_text (his_cmds c) = H @ replicate (100 - length H) []
        \<or> length H = 100
          \<and> map cmd_text (his_cmds c) = drop (99 - nat (his_idx c)) H @ take (99 - nat (his_idx c)) H)"

lemma entry_cstring: "entry_ok h \<Longrightarrow> cstring (hcmd h) = Some (cmd_text h)"
  by (simp add: cstring_def cmd_text_def entry_ok_def)

lemma entry_empty:
  assumes "entry_ok h" shows "hcmd h ! 0 = 0 \<longleftrightarrow> cmd_text h = []"
  using assms by (cases "hcmd h") (auto simp: cmd_text_def entry_ok_def CLI_INPUT_SIZE_def)

lemma hist_text:
  assumes "hist_rep c H" and "i < 100"
  shows "cmd_text (his_cmds c ! i) = map cmd_text (his_cmds c) ! i"
  using assms by (simp add: hist_rep_def)

lemma hist_entry_ok: "hist_rep c H \<Longrightarrow> i < 100 \<Longrightarrow> entry_ok (his_cmds c ! i)"
  by (simp add: hist_rep_def)

lemma hist_cases [consumes 1, case_names part full]:
  assumes "hist_rep c H"
  obtains "length H < 100" "his_idx c = (if H = [] then 99 else int (length H) - 1)"
      "map cmd_text (his_cmds c) = H @ replicate (100 - length H) []"
  | "length H = 100" "0 \<le> his_idx c" "his_idx c < 100"
      "map cmd_text (his_cmds c) = drop (99 - nat (his_idx c)) H @ take (99 - nat (his_idx c)) H"
proof -
  have "his_idx c = (if H = [] then 99 else int (length H) - 1)"
    if "length H < 100" "his_idx c = (int (length H) + 99) mod 100"
  proof (cases H)
    case (Cons x xs)
    then have "(int (length H) + 99) mod 100 = (int (length H) - 1 + 100) mod 100" by simp
    also have "\<dots> = (int (length H) - 1) mod 100" by (rule mod_add_self2)
    finally show ?thesis using that Cons by simp
  qed (use that in simp)
  with assms that show thesis by (auto simp: hist_rep_def)
qed

lemma peek_text:
  assumes "hist_rep c H"
  shows "nat (peek_pre_cmd c) < 100"
    and "cmd_text (his_cmds c ! nat (peek_pre_cmd c)) = (if 2 \<le> length H then H ! (length H - 2) else [])"
proof -
  note d = peek_pre_cmd_def MAX_SAVE_CMDS_NR_def Let_def
  show p: "nat (peek_pre_cmd c) < 100"
    using assms by (auto simp: d hist_rep_def)
  show "cmd_text (his_cmds c ! nat (peek_pre_cmd c)) = (if 2 \<le> length H then H ! (length H - 2) else [])"
    using assms
  proof (cases rule: hist_cases)
    case part
    consider "H = []" | x where "H = [x]" | "2 \<le> length H" by (cases H; cases "tl H") auto
    then show ?thesis
      using hist_text[OF assms p] part by cases (auto simp: d nth_append nth_Cons' nat_diff_distrib numeral_2_eq_2)
  next
    case full
    then show ?thesis
      using hist_text[OF assms p] by (auto simp: d nth_append nat_diff_distrib numeral_eq_Suc)
  qed
qed

lemma ring_push_part:
  assumes "length H < 100"
  shows "(H @ replicate (100 - length H) [])[length H := x] = (H @ [x]) @ replicate (100 - length (H @ [x])) []"
proof -
  obtain k where "100 - length H = Suc k" using assms by (cases "100 - length H") auto
  then have "100 - length (H @ [x]) = k" by simp
  with \<open>100 - length H = Suc k\<close> show ?thesis by (simp only: list_update_length replicate_Suc append_Cons append_assoc append_Nil)
qed

lemma ring_push_full:
  assumes "length H = 100" and "i < 100"
  shows "(drop (99 - i) H @ take (99 - i) H)[Suc i mod 100 := x]
    = drop (99 - Suc i mod 100) (drop 1 H @ [x]) @ take (99 - Suc i mod 100) (drop 1 H @ [x])"
proof (cases "i = 99")
  case True
  with assms show ?thesis by (cases H) (simp_all add: numeral_eq_Suc)
next
  case False
  then have i: "Suc i mod 100 = Suc i" "i < 99" using assms(2) by simp_all
  obtain k where k: "99 - i = Suc k" using i by (cases "99 - i") auto
  then have k': "99 - Suc i = k" "length (drop (99 - i) H) = Suc i" using assms by simp_all
  obtain h T where H: "H = h # T" using assms(1) by (cases H) auto
  show ?thesis
    using k k' assms(1) by (simp add: i(1) H list_update_append)
qed

lemma cmd_text_new:
  assumes "0 \<notin> set x" and "length x < CLI_INPUT_SIZE"
  shows "cmd_text \<lparr>htime = t, hcmd = x @ drop (length x) (replicate CLI_INPUT_SIZE 0)\<rparr> = x"
    and "entry_ok \<lparr>htime = t, hcmd = x @ drop (length x) (replicate CLI_INPUT_SIZE 0)\<rparr>"
proof -
  have "takeWhile (\<lambda>b. b \<noteq> 0) (x @ replicate (CLI_INPUT_SIZE - length x) 0) = x"
    using assms by (subst takeWhile_append2) (auto simp: takeWhile_replicate)
  then show "cmd_text \<lparr>htime = t, hcmd = x @ drop (length x) (replicate CLI_INPUT_SIZE 0)\<rparr> = x"
    by (simp add: cmd_text_def)
  show "entry_ok \<lparr>htime = t, hcmd = x @ drop (length x) (replicate CLI_INPUT_SIZE 0)\<rparr>"
    using assms(2) by (simp add: entry_ok_def)
qed

text \<open>What one insertion does to the ring of texts.\<close>

lemma hist_push:
  assumes rep: "hist_rep c H" and x: "x \<noteq> []" and h: "cmd_text h = x" "entry_ok h"
  defines "i \<equiv> (his_idx c + 1) mod 100"
  shows "hist_rep (c\<lparr>his_idx := i, curr_his_idx := - 1, his_cmds := (his_cmds c)[nat i := h]\<rparr>)
    (drop (length H - 99) H @ [x])"
proof -
  have idx: "0 \<le> his_idx c" "his_idx c < 100" "length (his_cmds c) = 100" "[] \<notin> set H"
    "\<And>e. e \<in> set (his_cmds c) \<Longrightarrow> entry_ok e"
    using rep by (auto simp: hist_rep_def)
  have i: "0 \<le> i" "i < 100" by (simp_all add: i_def)
  have ni: "nat i = Suc (nat (his_idx c)) mod 100" using idx by (simp add: i_def nat_mod_distrib Suc_nat_eq_nat_zadd1 add.commute)
  have ent: "\<forall>e \<in> set ((his_cmds c)[nat i := h]). entry_ok e"
    using idx(5) h(2) set_update_subset_insert[of "his_cmds c" "nat i" h] by blast
  have ne: "[] \<notin> set (drop (length H - 99) H @ [x])" using idx(4) x by (auto dest: in_set_dropD)
  have texts: "map cmd_text ((his_cmds c)[nat i := h]) = (map cmd_text (his_cmds c))[nat i := x]"
    by (simp add: map_update h(1))
  show ?thesis
    using rep
  proof (cases rule: hist_cases)
    case part
    have il: "i = int (length H)" using part(1,2) by (auto simp: i_def)
    have "map cmd_text ((his_cmds c)[nat i := h]) = (H @ [x]) @ replicate (100 - length (H @ [x])) []"
      unfolding texts part(3) using ring_push_part[OF part(1)] by (simp add: il)
    moreover have "length H - 99 = 0" using part(1) by simp
    moreover have "(int (length H + 1) + 99) mod 100 = int (length H)"
    proof -
      have "(int (length H + 1) + 99) mod 100 = (int (length H) + 100) mod 100" by simp
      also have "\<dots> = int (length H) mod 100" by (rule mod_add_self2)
      finally show ?thesis using part(1) by simp
    qed
    ultimately show ?thesis
      using idx(3) ent ne i part(1) by (cases "length H = 99") (auto simp: hist_rep_def il)
  next
    case full
    have "nat (his_idx c) < 100" using full by simp
    then have "map cmd_text ((his_cmds c)[nat i := h]) = drop (99 - nat i) (drop 1 H @ [x]) @ take (99 - nat i) (drop 1 H @ [x])"
      unfolding texts full(4) unfolding ni by (rule ring_push_full[OF full(1)])
    then show ?thesis using idx(3) ent ne i full(1) by (simp add: hist_rep_def)
  qed
qed

lemma hist_rep_time:
  assumes "hist_rep c H" and "p < 100"
  shows "hist_rep (c\<lparr>his_cmds := (his_cmds c)[p := (his_cmds c ! p)\<lparr>htime := t\<rparr>]\<rparr>) H"
proof -
  have "map cmd_text ((his_cmds c)[p := (his_cmds c ! p)\<lparr>htime := t\<rparr>]) = map cmd_text (his_cmds c)"
    using assms by (intro nth_equalityI) (auto simp: hist_rep_def nth_list_update cmd_text_def)
  moreover have "entry_ok e" if e: "e \<in> set ((his_cmds c)[p := (his_cmds c ! p)\<lparr>htime := t\<rparr>])" for e
  proof -
    have "entry_ok ((his_cmds c ! p)\<lparr>htime := t\<rparr>)"
      using hist_entry_ok[OF assms] by (simp add: entry_ok_def)
    moreover have "\<forall>h \<in> set (his_cmds c). entry_ok h" using assms(1) by (simp add: hist_rep_def)
    ultimately show ?thesis using subsetD[OF set_update_subset_insert e] by auto
  qed
  ultimately show ?thesis using assms by (simp add: hist_rep_def)
qed

text \<open>The entries in the order in which the listing visits them.\<close>

lemma listing_order:
  assumes rep: "hist_rep c H"
  shows "\<exists>hs. map cmd_text hs = H \<and> (\<forall>h \<in> set hs. entry_ok h)
    \<and> sys_get_history c cmds m = copy_cmds (cmds[0 := 0]) hs m"
proof -
  let ?T = "map cmd_text (his_cmds c)"
  have idx: "0 \<le> his_idx c" "his_idx c < 100" "length (his_cmds c) = 100" "[] \<notin> set H"
    "\<forall>e \<in> set (his_cmds c). entry_ok e"
    using rep by (auto simp: hist_rep_def)
  have last: "his_empty c (MAX_SAVE_CMDS_NR - 1) \<longleftrightarrow> ?T ! 99 = []"
    using entry_empty[OF hist_entry_ok[OF rep, of 99]] hist_text[OF rep, of 99]
    by (simp add: his_empty_def his_entry_def MAX_SAVE_CMDS_NR_def)
  show ?thesis
    using rep
  proof (cases rule: hist_cases)
    case part
    have e: "his_empty c (MAX_SAVE_CMDS_NR - 1)" unfolding last part(3) using part(1) by (simp add: nth_append)
    then have "nat (history_count c) = length H"
      using part(1,2) by (auto simp: history_count_def MAX_SAVE_CMDS_NR_def)
    moreover have "map cmd_text (take (length H) (his_cmds c)) = H" by (simp add: take_map[symmetric] part(3))
    ultimately show ?thesis
      using e idx(5) by (intro exI[of _ "take (length H) (his_cmds c)"]) (auto simp: sys_get_history_def dest: in_set_takeD)
  next
    case full
    let ?n = "nat (his_idx c)"
    have n: "?n < 100" "his_idx c = int ?n" using idx by auto
    have "?T ! 99 \<in> set H"
    proof -
      have "?T ! 99 \<in> set ?T" by (rule nth_mem) (simp add: idx(3))
      then show ?thesis unfolding full(4) by (auto dest: in_set_takeD in_set_dropD)
    qed
    then have ne: "\<not> his_empty c (MAX_SAVE_CMDS_NR - 1)" unfolding last using idx(4) by metis
    then have cnt: "history_count c = 100" by (simp add: history_count_def MAX_SAVE_CMDS_NR_def)
    show ?thesis
    proof (cases "?n = 99")
      case True
      then have "?T = H" using full(1,4) by simp
      then show ?thesis
        using True n idx ne cnt
        by (intro exI[of _ "his_cmds c"]) (simp add: sys_get_history_def MAX_SAVE_CMDS_NR_def)
    next
      case False
      have l: "length (drop (99 - ?n) H) = Suc ?n" using full(1) n False by simp
      then have "drop (Suc ?n) ?T @ take (Suc ?n) ?T = H" unfolding full(4) by simp
      then have "map cmd_text (drop (Suc ?n) (his_cmds c) @ take (Suc ?n) (his_cmds c)) = H"
        by (simp add: drop_map take_map)
      moreover have "nat (his_idx c + 1) = Suc ?n" using idx(1) by (simp add: nat_add_distrib)
      ultimately show ?thesis
        using False n idx ne
        by (intro exI[of _ "drop (Suc ?n) (his_cmds c) @ take (Suc ?n) (his_cmds c)"])
          (auto simp: sys_get_history_def MAX_SAVE_CMDS_NR_def Let_def dest: in_set_takeD in_set_dropD)
    qed
  qed
qed

fun put_strings :: "u32 list \<Rightarrow> u8 list list \<Rightarrow> memory \<Rightarrow> memory" where
  "put_strings (d # ds) (s # ss) m =
    put_strings ds ss (if d = 0 then m else put_bytes d (s @ [0]) m)"
| "put_strings ds ss m = m"

lemma copy_cmds_strings:
  assumes "\<forall>h \<in> set hs. entry_ok h" and "[] \<notin> cmd_text ` set hs" and "length hs \<le> length ds"
  shows "copy_cmds ds hs m = Some (put_strings ds (map cmd_text hs) m)"
  using assms by (induction ds hs m rule: copy_cmds.induct) (auto simp: entry_cstring)

section \<open>Properties\<close>

text \<open>C32: The history is a list of at most the 100 last commands.  A new command goes to its
  end and displaces the oldest when it is full; but a command equal to the last but one is
  not recorded (the duplicate test looks one entry too far back).\<close>

theorem history_ring:
  assumes "hist_rep c H" and "x \<noteq> []" and "0 \<notin> set x" and "length x < CLI_INPUT_SIZE"
  shows "\<exists>c'. add t x c = Some c' \<and> hist_rep c'
    (if 2 \<le> length H \<and> H ! (length H - 2) = x then H else drop (length H - 99) H @ [x])"
proof -
  let ?p = "nat (peek_pre_cmd c)"
  note p = peek_text[OF assms(1)]
  have old: "cstring (hcmd (his_cmds c ! ?p)) = Some (if 2 \<le> length H then H ! (length H - 2) else [])"
    using entry_cstring[OF hist_entry_ok[OF assms(1) p(1)]] p(2) by simp
  show ?thesis
  proof (cases "2 \<le> length H \<and> H ! (length H - 2) = x")
    case True
    then show ?thesis using hist_rep_time[OF assms(1) p(1), of t] old by (simp add: add_def Let_def)
  next
    case False
    then have ne: "(if 2 \<le> length H then H ! (length H - 2) else []) \<noteq> x" using assms(2) by auto
    let ?i = "(his_idx c + 1) mod 100"
    let ?h = "\<lparr>htime = t, hcmd = x @ drop (length x) (replicate CLI_INPUT_SIZE 0)\<rparr>"
    have i: "(if his_idx c + 1 = 100 then 0 else his_idx c + 1) = ?i"
      using assms(1) by (auto simp: hist_rep_def)
    have upd: "h\<lparr>htime := a, hcmd := b\<rparr> = \<lparr>htime = a, hcmd = b\<rparr>" for h :: history_command_t and a b
      by (cases h) simp
    have "add t x c = Some (c\<lparr>his_idx := ?i, curr_his_idx := - 1, his_cmds := (his_cmds c)[nat ?i := ?h]\<rparr>)"
      using ne assms(4) old
      by (simp add: add_def MAX_SAVE_CMDS_NR_def Let_def history_command_init_def i[symmetric] upd)
    with hist_push[OF assms(1,2) cmd_text_new[OF assms(3,4)], of t] False show ?thesis by auto
  qed
qed

text \<open>Listing the history copies the commands to the caller's buffers, oldest first; but
  the first buffer pointer has been cleared, so the oldest command is never delivered.\<close>

theorem history_listing:
  assumes "hist_rep c H" and "length H \<le> length cmds"
  shows "sys_get_history c cmds m = Some (put_strings (cmds[0 := 0]) H m)"
proof -
  obtain hs where hs: "map cmd_text hs = H" "\<forall>h \<in> set hs. entry_ok h"
    "sys_get_history c cmds m = copy_cmds (cmds[0 := 0]) hs m"
    using listing_order[OF assms(1)] by blast
  have "[] \<notin> cmd_text ` set hs" using assms(1) hs(1) by (auto simp: hist_rep_def)
  moreover have "length hs \<le> length (cmds[0 := 0])" using arg_cong[OF hs(1), of length] assms(2) by simp
  ultimately have "copy_cmds (cmds[0 := 0]) hs m = Some (put_strings (cmds[0 := 0]) (map cmd_text hs) m)"
    by (rule copy_cmds_strings[OF hs(2)])
  then show ?thesis by (simp only: hs(1,3))
qed

text \<open>After a command has been recorded, the first step back reads an index that was never
  assigned.\<close>

lemma pre_cmd_after_add:
  "curr_his_idx c = - 1 \<Longrightarrow> 0 \<le> his_idx c \<Longrightarrow> u < 0 \<or> 100 \<le> u \<Longrightarrow> pre_cmd u c = None"
  by (auto simp: pre_cmd_def MAX_SAVE_CMDS_NR_def)

lemma demo_hist: "hist_rep demo_console []"
  by (simp add: hist_rep_def demo_console_def console_init_def blank_console_def MAX_SAVE_CMDS_NR_def
      history_command_init_def entry_ok_def cmd_text_def CLI_INPUT_SIZE_def)

theorem history_ring_witness:
  "\<exists>c'. add 5 [108, 115] demo_console = Some c' \<and> hist_rep c' [[108, 115]]"
  using history_ring[OF demo_hist, of "[108, 115]" 5] by (simp add: CLI_INPUT_SIZE_def)

theorem history_listing_witness:
  "\<exists>c'. add 5 [108, 115] demo_console = Some c'
    \<and> sys_get_history c' [64, 128] m = Some (put_strings [0, 128] [[108, 115]] m)"
proof -
  obtain c' where c': "add 5 [108, 115] demo_console = Some c'" "hist_rep c' [[108, 115]]"
    using history_ring[OF demo_hist, of "[108, 115]" 5] by (auto simp: CLI_INPUT_SIZE_def)
  from history_listing[OF c'(2), of "[64, 128]" m] c'(1) show ?thesis by simp
qed

end
