(* ===== verification/Bitmap.thy ===== *)
theory Bitmap
  imports Prelude
begin

text \<open>
  The bitmap of \<^verbatim>\<open>kernel/tools/bitmap.c\<close>, which the page allocator is built on: bits in
  a byte array, range updates, and the search for a run of equal bits.  An access outside
  the byte array is \<open>None\<close>.
\<close>

section \<open>Data and operations\<close>

record bitmap_t =
  bit_count :: int
  bits :: "u8 list"

definition bitmap_byte_count :: "int \<Rightarrow> int" where
  "bitmap_byte_count n = c_div (n + 8 - 1) 8"

definition bitmap_init :: "u8 list \<Rightarrow> int \<Rightarrow> int \<Rightarrow> bitmap_t" where
  "bitmap_init mem count init_bit =
    (let bytes = nat (bitmap_byte_count count)
     in \<lparr>bit_count = count,
         bits = replicate bytes (if init_bit \<noteq> 0 then 0xFF else 0) @ drop bytes mem\<rparr>)"

definition byte_at :: "bitmap_t \<Rightarrow> int \<Rightarrow> u8 option" where
  "byte_at bm index =
    (if 0 \<le> index \<and> nat (index div 8) < length (bits bm) then Some (bits bm ! nat (index div 8))
     else None)"

definition bitmap_get_bit :: "bitmap_t \<Rightarrow> int \<Rightarrow> int option" where
  "bitmap_get_bit bm index =
    do { b \<leftarrow> byte_at bm index; Some (uint (b AND push_bit (nat (index mod 8)) 1)) }"

definition set_one :: "bitmap_t \<Rightarrow> int \<Rightarrow> int \<Rightarrow> bitmap_t option" where
  "set_one bm index b =
    do {
      old \<leftarrow> byte_at bm index;
      let m = push_bit (nat (index mod 8)) 1;
      let new = (if b \<noteq> 0 then old OR m else old AND NOT m);
      Some (bm\<lparr>bits := (bits bm)[nat (index div 8) := new]\<rparr>)
    }"

fun set_run :: "nat \<Rightarrow> bitmap_t \<Rightarrow> int \<Rightarrow> int \<Rightarrow> bitmap_t option" where
  "set_run 0 bm index b = Some bm"
| "set_run (Suc n) bm index b =
    (if index < bit_count bm
     then do { bm \<leftarrow> set_one bm index b; set_run n bm (index + 1) b }
     else Some bm)"

definition bitmap_set_bit :: "bitmap_t \<Rightarrow> int \<Rightarrow> int \<Rightarrow> int \<Rightarrow> bitmap_t option" where
  "bitmap_set_bit bm index count b = set_run (nat count) bm index b"

definition bitmap_is_set :: "bitmap_t \<Rightarrow> int \<Rightarrow> int option" where
  "bitmap_is_set bm index =
    do { b \<leftarrow> bitmap_get_bit bm index; Some (if b \<noteq> 0 then 1 else 0) }"

text \<open>
  The inner loop of the search: it re-reads from the index that was just accepted, since
  the search index has not moved past it.  The result is whether the counter reached
  \<open>count\<close>, and where the search index stands.
\<close>

fun match_run :: "bitmap_t \<Rightarrow> int \<Rightarrow> nat \<Rightarrow> int \<Rightarrow> (bool \<times> int) option" where
  "match_run bm b 0 si = Some (True, si)"
| "match_run bm b (Suc n) si =
    (if si < bit_count bm
     then do {
       v \<leftarrow> bitmap_get_bit bm si;
       if v \<noteq> b then Some (False, si + 1) else match_run bm b n (si + 1)
     }
     else Some (False, si))"

lemma match_run_progress:
  "match_run bm b n si = Some (ok, si') \<Longrightarrow> si \<le> si' \<and> (\<not> ok \<longrightarrow> si < bit_count bm \<longrightarrow> si < si')"
  by (induction n arbitrary: si)
    (force split: if_splits Option.bind_splits)+

function search_run :: "bitmap_t \<Rightarrow> int \<Rightarrow> int \<Rightarrow> int \<Rightarrow> int option" where
  "search_run bm b count si =
    (if si < bit_count bm
     then do {
       v \<leftarrow> bitmap_get_bit bm si;
       if v \<noteq> b then search_run bm b count (si + 1)
       else case match_run bm b (nat (count - 1)) si of
           None \<Rightarrow> None
         | Some (True, _) \<Rightarrow> Some si
         | Some (False, si') \<Rightarrow> search_run bm b count si'
     }
     else Some (- 1))"
  by auto
termination
  by (relation "measure (\<lambda>(bm, b, count, si). nat (bit_count bm - si))")
    (auto dest!: match_run_progress)

definition bitmap_alloc_nbits :: "bitmap_t \<Rightarrow> int \<Rightarrow> int \<Rightarrow> (int \<times> bitmap_t) option" where
  "bitmap_alloc_nbits bm b count =
    do {
      i \<leftarrow> search_run bm b count 0;
      if i \<noteq> - 1
      then do { bm \<leftarrow> bitmap_set_bit bm i count (NOT b); Some (i, bm) }
      else Some (- 1, bm)
    }"

declare search_run.simps [simp del]

section \<open>The bits a bitmap represents\<close>

definition bm_ok :: "bitmap_t \<Rightarrow> bool" where
  "bm_ok bm \<longleftrightarrow> 0 \<le> bit_count bm \<and> bit_count bm \<le> 8 * int (length (bits bm))"

definition bm_bit :: "bitmap_t \<Rightarrow> int \<Rightarrow> bool" where
  "bm_bit bm i \<longleftrightarrow> bit (bits bm ! nat (i div 8)) (nat (i mod 8))"

lemma byte_at_ok: "bm_ok bm \<Longrightarrow> 0 \<le> i \<Longrightarrow> i < bit_count bm \<Longrightarrow>
   byte_at bm i = Some (bits bm ! nat (i div 8)) \<and> nat (i div 8) < length (bits bm)"
  by (auto simp: bm_ok_def byte_at_def)

lemma uint_bit8:
  assumes "k < 8"
  shows "uint (2 ^ k :: u8) = 2 ^ k"
proof -
  have "k \<in> {0, 1, 2, 3, 4, 5, 6, 7}" using assms by auto
  then show ?thesis by auto
qed

lemma and_power_2: "uint ((w :: u8) AND 2 ^ k) = (if bit w k then 2 ^ k else 0)"
proof -
  have "w AND 2 ^ k = (if bit w k then 2 ^ k else 0)"
    by (rule bit_word_eqI) (auto simp: bit_simps)
  moreover have "k < 8" if "bit w k" using that by (auto dest: bit_imp_le_length)
  ultimately show ?thesis by (simp add: uint_bit8)
qed

lemma get_bit_ok:
  "bm_ok bm \<Longrightarrow> 0 \<le> i \<Longrightarrow> i < bit_count bm \<Longrightarrow>
   bitmap_get_bit bm i = Some (if bm_bit bm i then 2 ^ nat (i mod 8) else 0)"
  by (simp add: bitmap_get_bit_def byte_at_ok and_power_2 bm_bit_def)

lemma is_set_ok:
  "bm_ok bm \<Longrightarrow> 0 \<le> i \<Longrightarrow> i < bit_count bm \<Longrightarrow>
   bitmap_is_set bm i = Some (if bm_bit bm i then 1 else 0)"
  by (simp add: bitmap_is_set_def get_bit_ok)

section \<open>Range updates\<close>

lemma set_one_ok:
  assumes "bm_ok bm" and "0 \<le> i" and "i < bit_count bm"
  shows "\<exists>bm'. set_one bm i b = Some bm' \<and> bm_ok bm' \<and> bit_count bm' = bit_count bm
    \<and> (\<forall>j. 0 \<le> j \<longrightarrow> j < bit_count bm \<longrightarrow>
        bm_bit bm' j = (if j = i then b \<noteq> 0 else bm_bit bm j))"
proof -
  let ?k = "nat (i div 8)" and ?m = "nat (i mod 8)"
  have k: "byte_at bm i = Some (bits bm ! ?k)" "?k < length (bits bm)"
    using byte_at_ok[OF assms] by simp_all
  have m: "?m < 8" by (simp add: nat_less_iff)
  have e: "nat (j div 8) = ?k \<and> nat (j mod 8) = ?m \<longleftrightarrow> j = i" if "0 \<le> j" for j
  proof
    assume a: "nat (j div 8) = ?k \<and> nat (j mod 8) = ?m"
    then have "j div 8 = i div 8" "j mod 8 = i mod 8"
      using that assms(2) by (simp_all add: eq_nat_nat_iff pos_imp_zdiv_nonneg_iff)
    then show "j = i" by (metis div_mult_mod_eq)
  qed simp
  have b1: "bit (w OR 2 ^ ?m) n = (bit w n \<or> n = ?m)" for w :: u8 and n
    using m by (auto simp: bit_simps)
  have b2: "bit (w AND NOT (2 ^ ?m)) n = (bit w n \<and> n \<noteq> ?m)" for w :: u8 and n
    by (auto simp: bit_simps dest: bit_imp_le_length)
  define new where "new = (if b \<noteq> 0 then bits bm ! ?k OR 2 ^ ?m else bits bm ! ?k AND NOT (2 ^ ?m))"
  define bm' where "bm' = bm\<lparr>bits := (bits bm)[?k := new]\<rparr>"
  have n: "bit new n = (if n = ?m then b \<noteq> 0 else bit (bits bm ! ?k) n)" for n
    by (simp add: new_def b1 b2)
  have "bm_bit bm' j = (if j = i then b \<noteq> 0 else bm_bit bm j)" if "0 \<le> j" for j
  proof (cases "nat (j div 8) = ?k")
    case True
    then show ?thesis using e[OF that] k(2) by (simp add: bm_bit_def bm'_def n)
  next
    case False
    then show ?thesis using e[OF that] by (auto simp: bm_bit_def bm'_def)
  qed
  moreover have "set_one bm i b = Some bm'"
    unfolding set_one_def k(1) by (simp add: Let_def new_def bm'_def)
  moreover have "bm_ok bm'" "bit_count bm' = bit_count bm"
    using assms(1) by (simp_all add: bm_ok_def bm'_def)
  ultimately show ?thesis by blast
qed

lemma set_run_ok:
  assumes "bm_ok bm" and "0 \<le> i"
  shows "\<exists>bm'. set_run n bm i b = Some bm' \<and> bm_ok bm' \<and> bit_count bm' = bit_count bm
    \<and> (\<forall>j. 0 \<le> j \<longrightarrow> j < bit_count bm \<longrightarrow>
        bm_bit bm' j = (if i \<le> j \<and> j < i + int n then b \<noteq> 0 else bm_bit bm j))"
  using assms
proof (induction n arbitrary: bm i)
  case (Suc n)
  show ?case
  proof (cases "i < bit_count bm")
    case True
    obtain bm1 where b1: "set_one bm i b = Some bm1" "bm_ok bm1" "bit_count bm1 = bit_count bm"
      "\<And>j. 0 \<le> j \<Longrightarrow> j < bit_count bm \<Longrightarrow> bm_bit bm1 j = (if j = i then b \<noteq> 0 else bm_bit bm j)"
      using set_one_ok[OF Suc.prems True, of b] by blast
    obtain bm2 where b2: "set_run n bm1 (i + 1) b = Some bm2" "bm_ok bm2" "bit_count bm2 = bit_count bm"
      "\<And>j. 0 \<le> j \<Longrightarrow> j < bit_count bm \<Longrightarrow>
         bm_bit bm2 j = (if i + 1 \<le> j \<and> j < i + 1 + int n then b \<noteq> 0 else bm_bit bm1 j)"
      using Suc.IH[OF b1(2), of "i + 1"] Suc.prems(2) b1(3) by auto
    with True b1 show ?thesis by auto
  qed (use Suc.prems in auto)
qed auto

lemma set_bit_ok:
  assumes "bm_ok bm" and "0 \<le> i"
  shows "\<exists>bm'. bitmap_set_bit bm i c b = Some bm' \<and> bm_ok bm' \<and> bit_count bm' = bit_count bm
    \<and> (\<forall>j. 0 \<le> j \<longrightarrow> j < bit_count bm \<longrightarrow>
        bm_bit bm' j = (if i \<le> j \<and> j < i + c then b \<noteq> 0 else bm_bit bm j))"
proof -
  have "i \<le> j \<and> j < i + int (nat c) \<longleftrightarrow> i \<le> j \<and> j < i + c" for j by auto
  then show ?thesis using set_run_ok[OF assms, of "nat c" b] by (simp add: bitmap_set_bit_def)
qed

section \<open>The search\<close>

text \<open>Searching for one clear bit finds the first one.\<close>

lemma search_one_ok:
  assumes "bm_ok bm" and "0 \<le> si"
  shows "(\<exists>i. search_run bm 0 1 si = Some i \<and> si \<le> i \<and> i < bit_count bm \<and> \<not> bm_bit bm i
      \<and> (\<forall>j. si \<le> j \<longrightarrow> j < i \<longrightarrow> bm_bit bm j))
    \<or> search_run bm 0 1 si = Some (- 1) \<and> (\<forall>j. si \<le> j \<longrightarrow> j < bit_count bm \<longrightarrow> bm_bit bm j)"
  using assms
proof (induction "nat (bit_count bm - si)" arbitrary: si)
  case 0
  then show ?case by (simp add: search_run.simps[of bm 0 1 si])
next
  case (Suc n)
  then have si: "si < bit_count bm" by simp
  note g = get_bit_ok[OF Suc.prems si]
  show ?case
  proof (cases "bm_bit bm si")
    case False
    then show ?thesis using si g by (intro disjI1 exI[of _ si]) (simp add: search_run.simps[of bm 0 1 si])
  next
    case True
    have s: "search_run bm 0 1 si = search_run bm 0 1 (si + 1)"
      using si g True by (simp add: search_run.simps[of bm 0 1 si])
    have j: "si \<le> j \<longleftrightarrow> j = si \<or> si + 1 \<le> j" for j by auto
    have "(\<exists>i. search_run bm 0 1 (si + 1) = Some i \<and> si + 1 \<le> i \<and> i < bit_count bm \<and> \<not> bm_bit bm i
      \<and> (\<forall>j. si + 1 \<le> j \<longrightarrow> j < i \<longrightarrow> bm_bit bm j))
    \<or> search_run bm 0 1 (si + 1) = Some (- 1) \<and> (\<forall>j. si + 1 \<le> j \<longrightarrow> j < bit_count bm \<longrightarrow> bm_bit bm j)"
      by (rule Suc.hyps(1)) (use Suc in auto)
    then show ?thesis unfolding s j using True by auto
  qed
qed

lemma match_run_ok:
  "match_run bm b n si = Some (True, si') \<Longrightarrow>
   si' = si + int n \<and> (0 < n \<longrightarrow> si + int n \<le> bit_count bm)
   \<and> (\<forall>j. si \<le> j \<longrightarrow> j < si + int n \<longrightarrow> bitmap_get_bit bm j = Some b)"
proof (induction n arbitrary: si)
  case (Suc n)
  then have "si < bit_count bm" "bitmap_get_bit bm si = Some b"
    "match_run bm b n (si + 1) = Some (True, si')"
    by (auto split: if_splits Option.bind_splits)
  moreover have "si \<le> j \<longleftrightarrow> j = si \<or> si + 1 \<le> j" for j by auto
  ultimately show ?case using Suc.IH[of "si + 1"] by (cases n) auto
qed simp

lemma search_run_ok:
  "search_run bm b count si = Some i \<Longrightarrow> i = - 1 \<or> si \<le> i \<and> i < bit_count bm
   \<and> (1 < count \<longrightarrow> i + count - 1 \<le> bit_count bm)
   \<and> (\<forall>j. i \<le> j \<longrightarrow> j < i + max 1 (count - 1) \<longrightarrow> bitmap_get_bit bm j = Some b)"
proof (induction bm b count si rule: search_run.induct)
  case (1 bm b count si)
  show ?case
  proof (cases "si < bit_count bm")
    case False
    then show ?thesis using "1.prems" by (simp add: search_run.simps[of bm b count si])
  next
    case True
    then obtain v where v: "bitmap_get_bit bm si = Some v"
      using "1.prems" by (cases "bitmap_get_bit bm si") (auto simp: search_run.simps[of bm b count si])
    show ?thesis
    proof (cases "v = b")
      case False
      then have "search_run bm b count (si + 1) = Some i"
        using "1.prems" True v by (simp add: search_run.simps[of bm b count si])
      from "1.IH"(1)[OF True v False this] show ?thesis by auto
    next
      case vb: True
      then obtain ok si' where m: "match_run bm b (nat (count - 1)) si = Some (ok, si')"
        using "1.prems" True v by (auto simp: search_run.simps[of bm b count si] split: option.splits)
      show ?thesis
      proof (cases ok)
        case okt: True
        then have "i = si" using "1.prems" True v vb m by (simp add: search_run.simps[of bm b count si])
        moreover have "bitmap_get_bit bm j = Some b" if j: "si \<le> j" "j < si + max 1 (count - 1)" for j
        proof (cases "j = si")
          case False
          with j have "j < si + int (nat (count - 1))" by auto
          with j(1) m okt match_run_ok[of bm b "nat (count - 1)" si si'] show ?thesis by simp
        qed (use v vb in simp)
        ultimately show ?thesis
          using match_run_ok[of bm b "nat (count - 1)" si si'] m okt True by auto
      next
        case False
        then have r: "search_run bm b count si' = Some i"
          using "1.prems" True v vb m by (simp add: search_run.simps[of bm b count si])
        have "i = - 1 \<or> si' \<le> i \<and> i < bit_count bm \<and> (1 < count \<longrightarrow> i + count - 1 \<le> bit_count bm)
          \<and> (\<forall>j. i \<le> j \<longrightarrow> j < i + max 1 (count - 1) \<longrightarrow> bitmap_get_bit bm j = Some b)"
          by (rule "1.IH"(2)[OF True v _ m refl _ r]) (use vb False in simp_all)
        then show ?thesis using match_run_progress[OF m] by (meson order_trans)
      qed
    qed
  qed
qed

section \<open>Allocation\<close>

lemma alloc_one_ok:
  assumes "bm_ok bm"
  shows "(\<exists>i bm'. bitmap_alloc_nbits bm 0 1 = Some (i, bm') \<and> bm_ok bm' \<and> bit_count bm' = bit_count bm
      \<and> 0 \<le> i \<and> i < bit_count bm \<and> \<not> bm_bit bm i \<and> (\<forall>j. 0 \<le> j \<longrightarrow> j < i \<longrightarrow> bm_bit bm j)
      \<and> (\<forall>j. 0 \<le> j \<longrightarrow> j < bit_count bm \<longrightarrow> bm_bit bm' j = (j = i \<or> bm_bit bm j)))
    \<or> bitmap_alloc_nbits bm 0 1 = Some (- 1, bm)
      \<and> (\<forall>j. 0 \<le> j \<longrightarrow> j < bit_count bm \<longrightarrow> bm_bit bm j)"
  (is "?A \<or> ?B")
  using search_one_ok[OF assms, of 0]
proof
  assume "\<exists>i. search_run bm 0 1 0 = Some i \<and> 0 \<le> i \<and> i < bit_count bm \<and> \<not> bm_bit bm i
      \<and> (\<forall>j. 0 \<le> j \<longrightarrow> j < i \<longrightarrow> bm_bit bm j)"
  then obtain i where i: "search_run bm 0 1 0 = Some i" "0 \<le> i" "i < bit_count bm" "\<not> bm_bit bm i"
    "\<forall>j. 0 \<le> j \<longrightarrow> j < i \<longrightarrow> bm_bit bm j" by blast
  obtain bm' where b: "bitmap_set_bit bm i 1 (NOT 0) = Some bm'" "bm_ok bm'" "bit_count bm' = bit_count bm"
    "\<And>j. 0 \<le> j \<Longrightarrow> j < bit_count bm \<Longrightarrow>
       bm_bit bm' j = (if i \<le> j \<and> j < i + 1 then (NOT 0 :: int) \<noteq> 0 else bm_bit bm j)"
    using set_bit_ok[OF assms i(2), of 1 "NOT 0"] by blast
  have "bitmap_alloc_nbits bm 0 1 = Some (i, bm')"
    using i(1,2) b(1) by (simp add: bitmap_alloc_nbits_def)
  moreover have "\<forall>j. 0 \<le> j \<longrightarrow> j < bit_count bm \<longrightarrow> bm_bit bm' j = (j = i \<or> bm_bit bm j)"
    using b(4) by auto
  ultimately show "?A \<or> ?B" using i b by blast
qed (auto simp: bitmap_alloc_nbits_def)

section \<open>Properties\<close>

definition demo_bitmap :: bitmap_t where
  "demo_bitmap = \<lparr>bit_count = 12, bits = [0xFF, 0x02]\<rparr>"

lemma demo_bitmap_ok: "bm_ok demo_bitmap"
  by (simp add: bm_ok_def demo_bitmap_def)

text \<open>Setting \<open>count\<close> bits from \<open>index\<close> never leaves the byte array and changes exactly
  the bits of that range that the bitmap has, whatever its length; reading them back gives
  the value written.\<close>

theorem bitmap_set_get:
  assumes "bm_ok bm" and "0 \<le> index"
  shows "\<exists>bm'. bitmap_set_bit bm index count b = Some bm'
    \<and> (\<forall>j. 0 \<le> j \<longrightarrow> j < bit_count bm \<longrightarrow>
         bitmap_is_set bm' j = (if index \<le> j \<and> j < index + count
           then Some (if b \<noteq> 0 then 1 else 0) else bitmap_is_set bm j))"
  using set_bit_ok[OF assms, of count b] assms(1) by (auto simp: is_set_ok)

theorem bitmap_set_get_witness:
  "\<exists>bm'. bitmap_set_bit demo_bitmap 6 5 0 = Some bm'
    \<and> (\<forall>j. 0 \<le> j \<longrightarrow> j < bit_count demo_bitmap \<longrightarrow>
         bitmap_is_set bm' j = (if 6 \<le> j \<and> j < 6 + 5
           then Some (if (0 :: int) \<noteq> 0 then 1 else 0) else bitmap_is_set demo_bitmap j))"
  by (rule bitmap_set_get[OF demo_bitmap_ok]) simp

text \<open>Allocating one bit is first fit: it returns the lowest clear bit and sets it and
  nothing else; it returns \<open>-1\<close> and changes nothing exactly when all bits are set.\<close>

theorem bitmap_alloc_first_fit:
  assumes "bm_ok bm"
  shows "\<exists>i bm'. bitmap_alloc_nbits bm 0 1 = Some (i, bm')
    \<and> (if \<exists>j. 0 \<le> j \<and> j < bit_count bm \<and> \<not> bm_bit bm j
       then 0 \<le> i \<and> i < bit_count bm \<and> \<not> bm_bit bm i \<and> (\<forall>j. 0 \<le> j \<longrightarrow> j < i \<longrightarrow> bm_bit bm j)
         \<and> (\<forall>j. 0 \<le> j \<longrightarrow> j < bit_count bm \<longrightarrow> bm_bit bm' j = (j = i \<or> bm_bit bm j))
       else i = - 1 \<and> bm' = bm)"
  using alloc_one_ok[OF assms]
proof
  assume "bitmap_alloc_nbits bm 0 1 = Some (- 1, bm)
      \<and> (\<forall>j. 0 \<le> j \<longrightarrow> j < bit_count bm \<longrightarrow> bm_bit bm j)"
  then show ?thesis by (intro exI[of _ "- 1"] exI[of _ bm]) auto
qed auto

theorem bitmap_alloc_first_fit_witness:
  "\<exists>i bm'. bitmap_alloc_nbits demo_bitmap 0 1 = Some (i, bm')
    \<and> (if \<exists>j. 0 \<le> j \<and> j < bit_count demo_bitmap \<and> \<not> bm_bit demo_bitmap j
       then 0 \<le> i \<and> i < bit_count demo_bitmap \<and> \<not> bm_bit demo_bitmap i
         \<and> (\<forall>j. 0 \<le> j \<longrightarrow> j < i \<longrightarrow> bm_bit demo_bitmap j)
         \<and> (\<forall>j. 0 \<le> j \<longrightarrow> j < bit_count demo_bitmap \<longrightarrow> bm_bit bm' j = (j = i \<or> bm_bit demo_bitmap j))
       else i = - 1 \<and> bm' = demo_bitmap)"
  by (rule bitmap_alloc_first_fit[OF demo_bitmap_ok])

text \<open>What the search guarantees for a run of \<open>count \<ge> 2\<close> clear bits: all but the last
  of the bits it returns were clear.\<close>

theorem bitmap_alloc_run:
  assumes "bitmap_alloc_nbits bm 0 count = Some (i, bm')" and "1 < count" and "0 \<le> i"
  shows "i + count - 1 \<le> bit_count bm
    \<and> (\<forall>j. i \<le> j \<longrightarrow> j < i + count - 1 \<longrightarrow> bitmap_get_bit bm j = Some 0)"
proof -
  have "search_run bm 0 count 0 = Some i"
    using assms(1) by (auto simp: bitmap_alloc_nbits_def split: if_splits Option.bind_splits)
  from search_run_ok[OF this] assms(2,3) show ?thesis by auto
qed

text \<open>The last bit of the run is never looked at: with bit 1 in use, an allocation of two
  bits returns 0, so the second bit of the run is handed out twice.\<close>

theorem bitmap_alloc_overlap:
  "bitmap_alloc_nbits \<lparr>bit_count = 8, bits = [0x02]\<rparr> 0 2
     = Some (0, \<lparr>bit_count = 8, bits = [0x03]\<rparr>)
   \<and> bitmap_is_set \<lparr>bit_count = 8, bits = [0x02]\<rparr> 1 = Some 1"
proof -
  have a: "search_run \<lparr>bit_count = 8, bits = [0x02]\<rparr> 0 2 0 = Some 0"
    by (subst search_run.simps) (simp add: bitmap_get_bit_def byte_at_def)
  have "set_run 2 \<lparr>bit_count = 8, bits = [0x02]\<rparr> 0 (NOT 0)
      = Some \<lparr>bit_count = 8, bits = [0x03]\<rparr>"
    by (simp add: numeral_2_eq_2 set_one_def byte_at_def)
  with a show ?thesis
    by (simp add: bitmap_alloc_nbits_def bitmap_set_bit_def bitmap_is_set_def bitmap_get_bit_def
        byte_at_def)
qed

theorem bitmap_alloc_run_witness:
  "bitmap_get_bit \<lparr>bit_count = 8, bits = [0x02]\<rparr> 0 = Some 0"
proof -
  have "search_run \<lparr>bit_count = 8, bits = [0x02]\<rparr> 0 2 0 = Some 0"
    by (subst search_run.simps) (simp add: bitmap_get_bit_def byte_at_def)
  moreover have "set_run 2 \<lparr>bit_count = 8, bits = [0x02]\<rparr> 0 (NOT 0)
      = Some \<lparr>bit_count = 8, bits = [0x03]\<rparr>"
    by (simp add: numeral_2_eq_2 set_one_def byte_at_def)
  ultimately have "bitmap_alloc_nbits \<lparr>bit_count = 8, bits = [0x02]\<rparr> 0 2
      = Some (0, \<lparr>bit_count = 8, bits = [0x03]\<rparr>)"
    by (simp add: bitmap_alloc_nbits_def bitmap_set_bit_def)
  from bitmap_alloc_run[OF this] show ?thesis by simp
qed

end
