(* ===== verification/Memory.thy ===== *)
theory Memory
  imports Ipc Bitmap Klib
begin

text \<open>
  Physical pages and address spaces (\<^verbatim>\<open>kernel/core/memory.c\<close>,
  \<^verbatim>\<open>kernel/include/cpu/mmu.h\<close>): the page allocator behind its mutex, two-level page
  tables held in byte-addressed physical memory, and the operations that create, copy,
  extend and destroy an address space.

  Kernel code is taken to reach physical memory below 2 GB at its own address; addresses above
  go through the page directory in \<open>cr3\<close>.  \<open>create_kernel_table\<close> maps physical memory to itself
  only up to \<open>MEM_EXT_END\<close> (127 MB) while the page pool covers all the memory of the machine:
  the model agrees with the code on a machine of at most 127 MB, and on a larger one as long as
  no page above that limit has been handed out.  The kernel's first access to such a page, as
  a page directory, page table or fresh frame, is a page fault that the model does not show.
  The allocator runs with its mutex held: a caller that finds the mutex taken is queued by
  \<open>mutex_lock\<close> and does not complete here (\<open>None\<close>); it performs the same steps after the
  handover.  A failed \<^verbatim>\<open>ASSERT\<close> and a page fault are \<open>None\<close> as well.
\<close>

section \<open>Words in memory\<close>

definition load32 :: "memory \<Rightarrow> u32 \<Rightarrow> u32" where
  "load32 m a = ucast (m a) OR push_bit 8 (ucast (m (a + 1)))
     OR push_bit 16 (ucast (m (a + 2))) OR push_bit 24 (ucast (m (a + 3)))"

definition store32 :: "memory \<Rightarrow> u32 \<Rightarrow> u32 \<Rightarrow> memory" where
  "store32 m a v = m(a := ucast v, a + 1 := ucast (drop_bit 8 v),
     a + 2 := ucast (drop_bit 16 v), a + 3 := ucast (drop_bit 24 v))"

section \<open>Page table entries\<close>

definition PDE_P :: u32 where "PDE_P = 1"
definition PDE_W :: u32 where "PDE_W = 2"
definition PDE_U :: u32 where "PDE_U = 4"
definition PTE_P :: u32 where "PTE_P = 1"
definition PTE_W :: u32 where "PTE_W = 2"
definition PTE_U :: u32 where "PTE_U = 4"

definition MEM_PAGE_SIZE :: u32 where "MEM_PAGE_SIZE = 4096"
definition MEM_EXT_START :: u32 where "MEM_EXT_START = 0x100000"
definition MEM_EXT_END :: u32 where "MEM_EXT_END = 127 * 1024 * 1024"
definition MEM_EBDA_START :: u32 where "MEM_EBDA_START = 0x80000"
definition MEMORY_TASK_BASE :: u32 where "MEMORY_TASK_BASE = 0x80000000"

definition pde_index :: "u32 \<Rightarrow> u32" where "pde_index vaddr = drop_bit 22 vaddr"
definition pte_index :: "u32 \<Rightarrow> u32" where "pte_index vaddr = drop_bit 12 vaddr AND 0x3FF"
definition pte_paddr :: "u32 \<Rightarrow> u32" where "pte_paddr v = push_bit 12 (drop_bit 12 v)"
definition pde_paddr :: "u32 \<Rightarrow> u32" where "pde_paddr v = push_bit 12 (drop_bit 12 v)"
definition entry_present :: "u32 \<Rightarrow> bool" where "entry_present v \<longleftrightarrow> bit v 0"
definition get_pte_perm :: "u32 \<Rightarrow> u32" where "get_pte_perm v = v AND 0x3FF"

section \<open>State\<close>

record addr_alloc_t =
  amutex :: mutex_t
  abitmap :: bitmap_t
  astart :: u32
  asize :: u32
  apage_size :: u32

record mm = sched +
  paddr_alloc :: addr_alloc_t
  kernel_page_dir :: u32
  mem :: memory
  cr3 :: u32

definition mmu_set_page_dir :: "u32 \<Rightarrow> 'm mm_scheme \<Rightarrow> 'm mm_scheme" where
  "mmu_set_page_dir paddr s = s\<lparr>cr3 := paddr\<rparr>"

section \<open>The page allocator\<close>

definition addr_alloc_init :: "mutex_t \<Rightarrow> u8 list \<Rightarrow> u32 \<Rightarrow> u32 \<Rightarrow> u32 \<Rightarrow> addr_alloc_t" where
  "addr_alloc_init m bs start sz page_size =
    \<lparr>amutex = mutex_init m, abitmap = bitmap_init bs (uint (sz div page_size)) 0,
     astart = start, asize = sz, apage_size = page_size\<rparr>"

definition addr_alloc_page ::
    "addr_alloc_t \<Rightarrow> int \<Rightarrow> 'm sched_scheme \<Rightarrow> (u32 \<times> addr_alloc_t \<times> 'm sched_scheme) option" where
  "addr_alloc_page a page_count s =
    do {
      (m, s) \<leftarrow> mutex_enter (amutex a) s;
      (page_index, bm) \<leftarrow> bitmap_alloc_nbits (abitmap a) 0 page_count;
      let addr = (if page_index \<ge> 0 then astart a + word_of_int page_index * apage_size a else 0);
      (m, s) \<leftarrow> mutex_unlock m s;
      Some (addr, a\<lparr>amutex := m, abitmap := bm\<rparr>, s)
    }"

definition addr_free_page ::
    "addr_alloc_t \<Rightarrow> u32 \<Rightarrow> int \<Rightarrow> 'm sched_scheme \<Rightarrow> (addr_alloc_t \<times> 'm sched_scheme) option" where
  "addr_free_page a addr page_count s =
    do {
      (m, s) \<leftarrow> mutex_enter (amutex a) s;
      let page_index = (addr - astart a) div apage_size a;
      bm \<leftarrow> bitmap_set_bit (abitmap a) (to_int32 (uint page_index)) page_count 0;
      (m, s) \<leftarrow> mutex_unlock m s;
      Some (a\<lparr>amutex := m, abitmap := bm\<rparr>, s)
    }"

definition page_alloc :: "'m mm_scheme \<Rightarrow> (u32 \<times> 'm mm_scheme) option" where
  "page_alloc s = do { (addr, a, s) \<leftarrow> addr_alloc_page (paddr_alloc s) 1 s;
     Some (addr, s\<lparr>paddr_alloc := a\<rparr>) }"

definition page_free :: "u32 \<Rightarrow> int \<Rightarrow> 'm mm_scheme \<Rightarrow> 'm mm_scheme option" where
  "page_free addr n s = do { (a, s) \<leftarrow> addr_free_page (paddr_alloc s) addr n s;
     Some (s\<lparr>paddr_alloc := a\<rparr>) }"

definition memory_alloc_page :: "'m mm_scheme \<Rightarrow> (u32 \<times> 'm mm_scheme) option" where
  "memory_alloc_page s = page_alloc s"

section \<open>Page tables\<close>

definition find_pte :: "u32 \<Rightarrow> u32 \<Rightarrow> int \<Rightarrow> 'm mm_scheme \<Rightarrow> (u32 \<times> 'm mm_scheme) option" where
  "find_pte page_dir vaddr alloc s =
    (let pde = page_dir + 4 * pde_index vaddr;
         v = load32 (mem s) pde
     in if entry_present v then Some (pde_paddr v + 4 * pte_index vaddr, s)
        else if alloc = 0 then Some (0, s)
        else do {
          (pg_addr, s) \<leftarrow> page_alloc s;
          if pg_addr = 0 then Some (0, s)
          else let s = s\<lparr>mem := store32 (mem s) pde (pg_addr OR PDE_P OR PDE_W OR PDE_U)\<rparr>;
                   s = s\<lparr>mem := kernel_memset pg_addr 0 4096 (mem s)\<rparr>
               in Some (pg_addr + 4 * pte_index vaddr, s)
        })"

primrec map_pages :: "nat \<Rightarrow> u32 \<Rightarrow> u32 \<Rightarrow> u32 \<Rightarrow> u32 \<Rightarrow> 'm mm_scheme \<Rightarrow> (int \<times> 'm mm_scheme) option" where
  "map_pages 0 page_dir vaddr paddr perm s = Some (0, s)"
| "map_pages (Suc n) page_dir vaddr paddr perm s =
    do {
      (pte, s) \<leftarrow> find_pte page_dir vaddr 1 s;
      if pte = 0 then Some (- 1, s)
      else if entry_present (load32 (mem s) pte) then None
      else map_pages n page_dir (vaddr + MEM_PAGE_SIZE) (paddr + MEM_PAGE_SIZE) perm
             (s\<lparr>mem := store32 (mem s) pte (paddr OR perm OR PTE_P)\<rparr>)
    }"

definition memory_create_map :: "u32 \<Rightarrow> u32 \<Rightarrow> u32 \<Rightarrow> int \<Rightarrow> u32 \<Rightarrow> 'm mm_scheme \<Rightarrow> (int \<times> 'm mm_scheme) option" where
  "memory_create_map page_dir vaddr paddr count perm s =
     map_pages (nat count) page_dir vaddr paddr perm s"

text \<open>The linker's section symbols.\<close>

record kernel_syms =
  kernel_base :: u32
  s_text :: u32
  e_text :: u32
  s_data :: u32
  mem_free_start :: u32

definition kernel_map :: "kernel_syms \<Rightarrow> (u32 \<times> u32 \<times> u32 \<times> u32) list" where
  "kernel_map k =
    [(kernel_base k, s_text k, kernel_base k, PTE_W),
     (s_text k, e_text k, s_text k, 0),
     (s_data k, MEM_EBDA_START, s_data k, PTE_W),
     (0xb8000, 0xb8000 + 32 * 1024, 0xb8000, PTE_W),
     (MEM_EXT_START, MEM_EXT_END, MEM_EXT_START, PTE_W)]"

fun map_regions :: "(u32 \<times> u32 \<times> u32 \<times> u32) list \<Rightarrow> 'm mm_scheme \<Rightarrow> 'm mm_scheme option" where
  "map_regions [] s = Some s"
| "map_regions ((vs, ve, ps, perm) # rs) s =
    (let vstart = down2 vs MEM_PAGE_SIZE;
         vend = up2 ve MEM_PAGE_SIZE;
         paddr = down2 ps MEM_PAGE_SIZE;
         page_count = to_int32 (uint ((vend - vstart) div MEM_PAGE_SIZE))
     in do {
       (err, s) \<leftarrow> memory_create_map (kernel_page_dir s) vstart paddr page_count perm s;
       map_regions rs s
     })"

definition create_kernel_table :: "kernel_syms \<Rightarrow> 'm mm_scheme \<Rightarrow> 'm mm_scheme option" where
  "create_kernel_table k s = map_regions (kernel_map k) s"

section \<open>Address spaces\<close>

primrec copy_kernel_pdes :: "nat \<Rightarrow> u32 \<Rightarrow> u32 \<Rightarrow> memory \<Rightarrow> memory" where
  "copy_kernel_pdes 0 page_dir kdir m = m"
| "copy_kernel_pdes (Suc n) page_dir kdir m =
    (let m = copy_kernel_pdes n page_dir kdir m
     in store32 m (page_dir + 4 * of_nat n) (load32 m (kdir + 4 * of_nat n)))"

definition memory_create_uvm :: "'m mm_scheme \<Rightarrow> (u32 \<times> 'm mm_scheme) option" where
  "memory_create_uvm s =
    do {
      (page_dir, s) \<leftarrow> page_alloc s;
      if page_dir = 0 then Some (0, s)
      else let s = s\<lparr>mem := kernel_memset page_dir 0 4096 (mem s)\<rparr>;
               n = unat (pde_index MEMORY_TASK_BASE)
           in Some (page_dir, s\<lparr>mem := copy_kernel_pdes n page_dir (kernel_page_dir s) (mem s)\<rparr>)
    }"

text \<open>
  Allocation of a range.  Every path returns 0, also the two that fail; the failure path
  frees page numbers computed from the virtual address.
\<close>

fun alloc_range :: "nat \<Rightarrow> int \<Rightarrow> u32 \<Rightarrow> u32 \<Rightarrow> u32 \<Rightarrow> u32 \<Rightarrow> 'm mm_scheme \<Rightarrow> (int \<times> 'm mm_scheme) option" where
  "alloc_range 0 i page_dir vaddr curr_vaddr perm s = Some (0, s)"
| "alloc_range (Suc n) i page_dir vaddr curr_vaddr perm s =
    do {
      (paddr, s) \<leftarrow> page_alloc s;
      if paddr = 0 then Some (0, s)
      else do {
        (err, s) \<leftarrow> memory_create_map page_dir curr_vaddr paddr 1 perm s;
        if err < 0 then do { s \<leftarrow> page_free vaddr (i + 1) s; Some (0, s) }
        else alloc_range n (i + 1) page_dir vaddr (curr_vaddr + MEM_PAGE_SIZE) perm s
      }
    }"

definition memory_alloc_for_page_dir ::
    "u32 \<Rightarrow> u32 \<Rightarrow> u32 \<Rightarrow> u32 \<Rightarrow> 'm mm_scheme \<Rightarrow> (int \<times> 'm mm_scheme) option" where
  "memory_alloc_for_page_dir page_dir vaddr sz perm s =
    (let page_count = unat (up2 sz MEM_PAGE_SIZE div MEM_PAGE_SIZE)
     in alloc_range page_count 0 page_dir vaddr vaddr perm s)"

definition current_cr3 :: "'m mm_scheme \<Rightarrow> u32 option" where
  "current_cr3 s = do { c \<leftarrow> task_current s; Some (ts_cr3 (tss (tasks s c))) }"

definition memory_alloc_page_for :: "u32 \<Rightarrow> u32 \<Rightarrow> u32 \<Rightarrow> 'm mm_scheme \<Rightarrow> (int \<times> 'm mm_scheme) option" where
  "memory_alloc_page_for vaddr sz perm s =
    do { pd \<leftarrow> current_cr3 s; memory_alloc_for_page_dir pd vaddr sz perm s }"

definition memory_free_page :: "u32 \<Rightarrow> 'm mm_scheme \<Rightarrow> 'm mm_scheme option" where
  "memory_free_page addr s =
    (if addr < MEMORY_TASK_BASE then page_free addr 1 s
     else do {
       pd \<leftarrow> current_cr3 s;
       (pte, s) \<leftarrow> find_pte pd addr 0 s;
       let v = load32 (mem s) pte;
       if \<not> (pte \<noteq> 0 \<and> entry_present v) then None
       else do {
         s \<leftarrow> page_free (pte_paddr v) 1 s;
         Some (s\<lparr>mem := store32 (mem s) pte 0\<rparr>)
       }
     })"

text \<open>The two nested scans visit table entries in ascending order.\<close>

fun free_ptes :: "nat list \<Rightarrow> u32 \<Rightarrow> 'm mm_scheme \<Rightarrow> 'm mm_scheme option" where
  "free_ptes [] table s = Some s"
| "free_ptes (j # js) table s =
    (let v = load32 (mem s) (table + 4 * of_nat j)
     in if \<not> entry_present v then free_ptes js table s
        else do { s \<leftarrow> page_free (pte_paddr v) 1 s; free_ptes js table s })"

fun free_pdes :: "nat list \<Rightarrow> u32 \<Rightarrow> 'm mm_scheme \<Rightarrow> 'm mm_scheme option" where
  "free_pdes [] page_dir s = Some s"
| "free_pdes (i # is) page_dir s =
    (let v = load32 (mem s) (page_dir + 4 * of_nat i)
     in if \<not> entry_present v then free_pdes is page_dir s
        else do {
          s \<leftarrow> free_ptes [0..<1024] (pde_paddr v) s;
          s \<leftarrow> page_free (pde_paddr v) 1 s;
          free_pdes is page_dir s
        })"

definition user_pdes :: "nat list" where
  "user_pdes = [unat (pde_index MEMORY_TASK_BASE)..<1024]"

definition memory_destroy_uvm :: "u32 \<Rightarrow> 'm mm_scheme \<Rightarrow> 'm mm_scheme option" where
  "memory_destroy_uvm page_dir s =
    do { s \<leftarrow> free_pdes user_pdes page_dir s; page_free page_dir 1 s }"

text \<open>A byte at a virtual address, as the MMU resolves it.\<close>

definition mmu_walk :: "u32 \<Rightarrow> memory \<Rightarrow> u32 \<Rightarrow> u32 option" where
  "mmu_walk dir m vaddr =
    (let pde = load32 m (dir + 4 * pde_index vaddr)
     in if \<not> entry_present pde then None
        else let pte = load32 m (pde_paddr pde + 4 * pte_index vaddr)
          in if \<not> entry_present pte then None
             else Some (pte_paddr pte + (vaddr AND (MEM_PAGE_SIZE - 1))))"

definition vread :: "'m mm_scheme \<Rightarrow> u32 \<Rightarrow> u8 option" where
  "vread s a = (if a < MEMORY_TASK_BASE then Some (mem s a)
     else map_option (mem s) (mmu_walk (cr3 s) (mem s) a))"

primrec copy_from_virtual :: "nat \<Rightarrow> u32 \<Rightarrow> u32 \<Rightarrow> 'm mm_scheme \<Rightarrow> 'm mm_scheme option" where
  "copy_from_virtual 0 dest src s = Some s"
| "copy_from_virtual (Suc n) dest src s =
    do {
      b \<leftarrow> vread s src;
      copy_from_virtual n (dest + 1) (src + 1) (s\<lparr>mem := (mem s)(dest := b)\<rparr>)
    }"

fun copy_ptes :: "nat list \<Rightarrow> nat \<Rightarrow> u32 \<Rightarrow> u32 \<Rightarrow> 'm mm_scheme \<Rightarrow> (bool \<times> 'm mm_scheme) option" where
  "copy_ptes [] i table to s = Some (True, s)"
| "copy_ptes (j # js) i table to s =
    (let v = load32 (mem s) (table + 4 * of_nat j)
     in if \<not> entry_present v then copy_ptes js i table to s
        else do {
          (page, s) \<leftarrow> page_alloc s;
          if page = 0 then Some (False, s)
          else let vaddr = push_bit 22 (of_nat i) OR push_bit 12 (of_nat j)
            in do {
              (err, s) \<leftarrow> memory_create_map to vaddr page 1 (get_pte_perm v) s;
              if err < 0 then Some (False, s)
              else do {
                s \<leftarrow> copy_from_virtual 4096 page vaddr s;
                copy_ptes js i table to s
              }
            }
        })"

fun copy_pdes :: "nat list \<Rightarrow> u32 \<Rightarrow> u32 \<Rightarrow> 'm mm_scheme \<Rightarrow> (bool \<times> 'm mm_scheme) option" where
  "copy_pdes [] page_dir to s = Some (True, s)"
| "copy_pdes (i # is) page_dir to s =
    (let v = load32 (mem s) (page_dir + 4 * of_nat i)
     in if \<not> entry_present v then copy_pdes is page_dir to s
        else do {
          (ok, s) \<leftarrow> copy_ptes [0..<1024] i (pde_paddr v) to s;
          if ok then copy_pdes is page_dir to s else Some (False, s)
        })"

definition memory_copy_uvm :: "u32 \<Rightarrow> 'm mm_scheme \<Rightarrow> (u32 \<times> 'm mm_scheme) option" where
  "memory_copy_uvm page_dir s =
    do {
      (to, s) \<leftarrow> memory_create_uvm s;
      if to = 0 then Some (0, s)
      else do {
        (ok, s) \<leftarrow> copy_pdes user_pdes page_dir to s;
        if ok then Some (to, s)
        else do { s \<leftarrow> memory_destroy_uvm to s; Some (0, s) }
      }
    }"

definition memory_get_paddr :: "u32 \<Rightarrow> u32 \<Rightarrow> 'm mm_scheme \<Rightarrow> (u32 \<times> 'm mm_scheme) option" where
  "memory_get_paddr page_dir vaddr s =
    do {
      (pte, s) \<leftarrow> find_pte page_dir vaddr 0 s;
      if pte = 0 then Some (0, s)
      else Some (pte_paddr (load32 (mem s) pte) + (vaddr AND (MEM_PAGE_SIZE - 1)), s)
    }"

definition memcpy_virtual :: "u32 \<Rightarrow> u32 \<Rightarrow> nat \<Rightarrow> 'm mm_scheme \<Rightarrow> 'm mm_scheme option" where
  "memcpy_virtual dest src n s =
    (if dest = 0 \<or> src = 0 \<or> n = 0 then Some s else copy_from_virtual n dest src s)"

lemma page_off: "a AND (MEM_PAGE_SIZE - 1) = take_bit 12 a"
  by (simp add: MEM_PAGE_SIZE_def take_bit_eq_mask mask_eq_exp_minus_1)

lemma page_off_less: "uint (take_bit 12 (a :: u32)) < 4096"
  using take_bit_int_less_exp[of 12 "uint a"] by (simp add: unsigned_take_bit_eq)

lemma page_rest_pos: "0 < MEM_PAGE_SIZE - (a AND (MEM_PAGE_SIZE - 1))"
proof -
  have "take_bit 12 a < MEM_PAGE_SIZE"
    using page_off_less[of a] by (simp add: word_less_def MEM_PAGE_SIZE_def)
  then show ?thesis unfolding page_off by (simp add: word_gt_0)
qed

function memory_copy_uvm_data :: "u32 \<Rightarrow> u32 \<Rightarrow> u32 \<Rightarrow> u32 \<Rightarrow> 'm mm_scheme \<Rightarrow> (int \<times> 'm mm_scheme) option" where
  "memory_copy_uvm_data to page_dir from sz s =
    (if sz = 0 then Some (0, s)
     else do {
       (to_paddr, s) \<leftarrow> memory_get_paddr page_dir to s;
       if to_paddr = 0 then Some (- 1, s)
       else let offset_in_page = to_paddr AND (MEM_PAGE_SIZE - 1);
                curr_size = MEM_PAGE_SIZE - offset_in_page;
                curr_size = (if curr_size > sz then sz else curr_size)
            in do {
              s \<leftarrow> memcpy_virtual to_paddr from (unat curr_size) s;
              memory_copy_uvm_data (to + curr_size) page_dir (from + curr_size) (sz - curr_size) s
            }
     })"
  by auto
termination
proof (relation "measure (\<lambda>(to, page_dir, from, sz, s). unat sz)", goal_cases)
  case (2 to page_dir src sz s x to_paddr s1 off c0 c s2)
  have "0 < c0" using 2 page_rest_pos[of to_paddr] by simp
  then have "0 < c" "c \<le> sz" using 2 by (auto simp: word_gt_0)
  then have "0 < unat c" "unat c \<le> unat sz" by (simp_all add: unat_gt_0 word_gt_0 word_le_nat_alt)
  moreover from \<open>c \<le> sz\<close> have "unat (sz - c) = unat sz - unat c" by (rule unat_sub)
  ultimately have "unat (sz - c) < unat sz" by linarith
  then show ?case by simp
qed simp

declare memory_copy_uvm_data.simps [simp del]

definition total_memory_size :: "(u32 \<times> u32) list \<Rightarrow> u32" where
  "total_memory_size regions = foldl (\<lambda>a r. a + snd r) 0 regions"

definition memory_init :: "kernel_syms \<Rightarrow> (u32 \<times> u32) list \<Rightarrow> 'm mm_scheme \<Rightarrow> 'm mm_scheme option" where
  "memory_init k boot_info s =
    (let mem_free = mem_free_start k;
         mem_up1MB_free = down2 (total_memory_size boot_info - MEM_EXT_START) MEM_PAGE_SIZE;
         bytes = nat (bitmap_byte_count (uint (mem_up1MB_free div MEM_PAGE_SIZE)));
         bs = map (\<lambda>i. mem s (mem_free + of_nat i)) [0..<bytes];
         s = s\<lparr>paddr_alloc := addr_alloc_init (amutex (paddr_alloc s)) bs MEM_EXT_START
                mem_up1MB_free MEM_PAGE_SIZE\<rparr>;
         mem_free = mem_free
           + word_of_int (bitmap_byte_count (uint (asize (paddr_alloc s) div MEM_PAGE_SIZE)))
     in if \<not> mem_free < MEM_EBDA_START then None
        else do {
          s \<leftarrow> create_kernel_table k s;
          Some (mmu_set_page_dir (kernel_page_dir s) s)
        })"

text \<open>
  The heap call.  \<open>incr\<close> is signed and checked, the addresses are 32-bit.  The error test
  cannot fire: the allocation reports every failure as 0.
\<close>

definition set_heap_end :: "task_ref \<Rightarrow> u32 \<Rightarrow> 'm mm_scheme \<Rightarrow> 'm mm_scheme" where
  "set_heap_end t e s = upd_task t (\<lambda>k. k\<lparr>heap_end := e\<rparr>) s"

definition sys_sbrk :: "int \<Rightarrow> 'm mm_scheme \<Rightarrow> (u32 \<times> 'm mm_scheme) option" where
  "sys_sbrk incr s =
    do {
      t \<leftarrow> task_current s;
      let pre_heap_end = heap_end (tasks s t);
      if incr < 0 then None
      else if incr = 0 then Some (pre_heap_end, s)
      else
        let start = heap_end (tasks s t);
            fin = start + word_of_int incr;
            start_offset = uint (start mod MEM_PAGE_SIZE)
        in if start_offset \<noteq> 0 \<and> to_int32 (start_offset + incr) \<le> 4096
           then Some (pre_heap_end, set_heap_end t fin s)
           else
             let curr_size = (if start_offset \<noteq> 0 then 4096 - start_offset else 0);
                 start = start + word_of_int curr_size;
                 incr = incr - curr_size
             in if incr \<noteq> 0
                then do {
                  (err, s) \<leftarrow> memory_alloc_page_for start (fin - start) (PTE_P OR PTE_U OR PTE_W) s;
                  if err < 0 then Some (- 1, s) else Some (pre_heap_end, set_heap_end t fin s)
                }
                else Some (pre_heap_end, set_heap_end t fin s)
    }"

section \<open>The allocator's contract\<close>

text \<open>
  The pages of the pool are the slots of its bitmap.  \<open>pool_ok a s\<close> asks for a bitmap that
  fits the pool's range, 4 KB pages, and a mutex that is free.
\<close>

definition pool_page :: "addr_alloc_t \<Rightarrow> int \<Rightarrow> u32" where
  "pool_page a i = astart a + word_of_int i * apage_size a"

definition free_pages :: "addr_alloc_t \<Rightarrow> u32 set" where
  "free_pages a = {pool_page a i | i. 0 \<le> i \<and> i < bit_count (abitmap a) \<and> \<not> bm_bit (abitmap a) i}"

definition pool_pages :: "addr_alloc_t \<Rightarrow> u32 set" where
  "pool_pages a = {pool_page a i | i. 0 \<le> i \<and> i < bit_count (abitmap a)}"

definition pool_ok :: "addr_alloc_t \<Rightarrow> 'm sched_scheme \<Rightarrow> bool" where
  "pool_ok a s \<longleftrightarrow> bm_ok (abitmap a) \<and> apage_size a = 4096 \<and> 0 < uint (astart a)
     \<and> take_bit 12 (astart a) = 0
     \<and> uint (astart a) + 4096 * bit_count (abitmap a) \<le> 2 ^ 32
     \<and> locked_count (amutex a) = 0 \<and> dll (wait_links s) (wait_list (amutex a)) []"

lemma uint_pool_page:
  assumes "pool_ok a s" and "0 \<le> i" and "i < bit_count (abitmap a)"
  shows "uint (pool_page a i) = uint (astart a) + 4096 * i"
    and "uint (pool_page a i - astart a) = 4096 * i"
proof -
  have b: "uint (astart a) + 4096 * i < 2 ^ 32" "0 \<le> 4096 * i" "apage_size a = 4096"
    using assms by (auto simp: pool_ok_def)
  have b4: "4096 * i < 2 ^ 32" using b(1) uint_ge_0[of "astart a"] by linarith
  have e: "pool_page a i = word_of_int (uint (astart a) + 4096 * i)"
    "pool_page a i - astart a = word_of_int (4096 * i)"
    by (simp_all add: pool_page_def b(3) mult.commute)
  show "uint (pool_page a i) = uint (astart a) + 4096 * i"
    unfolding e(1) by (simp only: uint_word_of_int) (use b in simp)
  show "uint (pool_page a i - astart a) = 4096 * i"
    unfolding e(2) by (simp only: uint_word_of_int) (use b b4 in simp)
qed

lemma pool_page_inj:
  assumes "pool_ok a s" and "0 \<le> i" "i < bit_count (abitmap a)" and "0 \<le> j" "j < bit_count (abitmap a)"
  shows "pool_page a i = pool_page a j \<longleftrightarrow> i = j"
proof
  assume "pool_page a i = pool_page a j"
  then have "uint (astart a) + 4096 * i = uint (astart a) + 4096 * j"
    by (simp only: uint_pool_page(1)[OF assms(1-3), symmetric]
        uint_pool_page(1)[OF assms(1,4,5), symmetric])
  then show "i = j" by simp
qed simp

lemma free_pages_upd:
  assumes "pool_ok a s" and "bit_count bm = bit_count (abitmap a)" and "0 \<le> i" "i < bit_count bm"
    and "\<And>j. 0 \<le> j \<Longrightarrow> j < bit_count bm \<Longrightarrow> bm_bit bm j = (if j = i then b else bm_bit (abitmap a) j)"
  shows "free_pages (a\<lparr>amutex := m, abitmap := bm\<rparr>)
    = (if b then free_pages a - {pool_page a i} else insert (pool_page a i) (free_pages a))"
proof -
  have p: "pool_page (a\<lparr>amutex := m, abitmap := bm\<rparr>) j = pool_page a j" for j
    by (simp add: pool_page_def)
  show ?thesis
    unfolding free_pages_def p
    using assms(2-5) pool_page_inj[OF assms(1)] by (auto split: if_splits)
qed

lemma addr_alloc_page_ok:
  assumes "pool_ok a s"
  shows "\<exists>p a'. addr_alloc_page a 1 s = Some (p, a', s) \<and> pool_ok a' s
    \<and> pool_pages a' = pool_pages a
    \<and> (if free_pages a = {} then p = 0 \<and> free_pages a' = {}
       else p \<in> free_pages a \<and> free_pages a' = free_pages a - {p})"
proof -
  let ?m = "(amutex a)\<lparr>locked_count := 1, owner := curr_task s\<rparr>"
  let ?m' = "?m\<lparr>locked_count := 0, owner := None\<rparr>"
  have ok: "bm_ok (abitmap a)" and l: "locked_count (amutex a) = 0"
    and w: "dll (wait_links s) (wait_list (amutex a)) []" using assms by (auto simp: pool_ok_def)
  have u: "mutex_unlock ?m s = Some (?m', s)" by (rule mutex_unlock_last) (use w in simp_all)
  from alloc_one_ok[OF ok] show ?thesis
  proof
    assume "\<exists>i bm'. bitmap_alloc_nbits (abitmap a) 0 1 = Some (i, bm') \<and> bm_ok bm'
      \<and> bit_count bm' = bit_count (abitmap a) \<and> 0 \<le> i \<and> i < bit_count (abitmap a)
      \<and> \<not> bm_bit (abitmap a) i \<and> (\<forall>j. 0 \<le> j \<longrightarrow> j < i \<longrightarrow> bm_bit (abitmap a) j)
      \<and> (\<forall>j. 0 \<le> j \<longrightarrow> j < bit_count (abitmap a) \<longrightarrow> bm_bit bm' j = (j = i \<or> bm_bit (abitmap a) j))"
    then obtain i bm where i: "bitmap_alloc_nbits (abitmap a) 0 1 = Some (i, bm)" "bm_ok bm"
      "bit_count bm = bit_count (abitmap a)" "0 \<le> i" "i < bit_count (abitmap a)"
      "\<not> bm_bit (abitmap a) i"
      "\<And>j. 0 \<le> j \<Longrightarrow> j < bit_count (abitmap a) \<Longrightarrow> bm_bit bm j = (j = i \<or> bm_bit (abitmap a) j)"
      by blast
    let ?a = "a\<lparr>amutex := ?m', abitmap := bm\<rparr>"
    have "addr_alloc_page a 1 s = Some (pool_page a i, ?a, s)"
      using u i(1,4) by (simp add: addr_alloc_page_def mutex_enter_free[OF l] pool_page_def)
    moreover have "pool_ok ?a s" using assms i by (simp add: pool_ok_def)
    moreover have "free_pages ?a = free_pages a - {pool_page a i}"
      using free_pages_upd[OF assms i(3,4), of True ?m'] i(3,5,7) by simp
    moreover have "pool_page a i \<in> free_pages a" using i by (auto simp: free_pages_def)
    moreover have "pool_pages ?a = pool_pages a" using i(3) by (simp add: pool_pages_def pool_page_def)
    ultimately show ?thesis by (intro exI[of _ "pool_page a i"] exI[of _ ?a]) auto
  next
    assume n: "bitmap_alloc_nbits (abitmap a) 0 1 = Some (- 1, abitmap a)
      \<and> (\<forall>j. 0 \<le> j \<longrightarrow> j < bit_count (abitmap a) \<longrightarrow> bm_bit (abitmap a) j)"
    let ?a = "a\<lparr>amutex := ?m', abitmap := abitmap a\<rparr>"
    have "addr_alloc_page a 1 s = Some (0, ?a, s)"
      using u n by (simp add: addr_alloc_page_def mutex_enter_free[OF l])
    moreover have "pool_ok ?a s" using assms by (simp add: pool_ok_def)
    moreover have "free_pages ?a = {}" "free_pages a = {}" using n by (auto simp: free_pages_def)
    moreover have "pool_pages ?a = pool_pages a" by (simp add: pool_pages_def pool_page_def)
    ultimately show ?thesis by (intro exI[of _ 0] exI[of _ ?a]) auto
  qed
qed

lemma addr_free_page_ok:
  assumes "pool_ok a s" and "p \<in> pool_pages a"
  shows "\<exists>a'. addr_free_page a p 1 s = Some (a', s) \<and> pool_ok a' s \<and> pool_pages a' = pool_pages a
    \<and> free_pages a' = insert p (free_pages a)"
proof -
  let ?m = "(amutex a)\<lparr>locked_count := 1, owner := curr_task s\<rparr>"
  let ?m' = "?m\<lparr>locked_count := 0, owner := None\<rparr>"
  have ok: "bm_ok (abitmap a)" and l: "locked_count (amutex a) = 0" and ps: "apage_size a = 4096"
    and w: "dll (wait_links s) (wait_list (amutex a)) []" using assms(1) by (auto simp: pool_ok_def)
  have u: "mutex_unlock ?m s = Some (?m', s)" by (rule mutex_unlock_last) (use w in simp_all)
  obtain i where i: "p = pool_page a i" "0 \<le> i" "i < bit_count (abitmap a)"
    using assms(2) by (auto simp: pool_pages_def)
  have "uint ((p - astart a) div apage_size a) = i"
    using uint_pool_page(2)[OF assms(1) i(2,3)] by (simp add: i(1) uint_div ps)
  moreover have "i < 2 ^ 31"
    using assms(1) i(3) uint_ge_0[of "astart a"] by (simp add: pool_ok_def)
  ultimately have e: "to_int32 (uint ((p - astart a) div apage_size a)) = i"
    using i(2) by (simp add: to_int32_id)
  obtain bm where b: "bitmap_set_bit (abitmap a) i 1 0 = Some bm" "bm_ok bm"
    "bit_count bm = bit_count (abitmap a)"
    "\<And>j. 0 \<le> j \<Longrightarrow> j < bit_count (abitmap a) \<Longrightarrow>
       bm_bit bm j = (if i \<le> j \<and> j < i + 1 then (0 :: int) \<noteq> 0 else bm_bit (abitmap a) j)"
    using set_bit_ok[OF ok i(2), of 1 0] by blast
  let ?a = "a\<lparr>amutex := ?m', abitmap := bm\<rparr>"
  have "addr_free_page a p 1 s = Some (?a, s)"
    using u b(1) by (simp add: addr_free_page_def mutex_enter_free[OF l] e Let_def)
  moreover have "pool_ok ?a s" using assms b by (simp add: pool_ok_def)
  moreover have "bm_bit bm j = (if j = i then False else bm_bit (abitmap a) j)"
    if "0 \<le> j" "j < bit_count bm" for j using b(4)[of j] b(3) that by auto
  then have "free_pages ?a = insert p (free_pages a)"
    using free_pages_upd[OF assms(1) b(3) i(2), of False ?m'] i(3) b(3) by (simp add: i(1))
  moreover have "pool_pages ?a = pool_pages a" using b(3) by (simp add: pool_pages_def pool_page_def)
  ultimately show ?thesis by blast
qed

text \<open>
  The interface the page-table code uses.  \<open>same\<close> says what an allocation leaves alone.
\<close>

primrec take_pages :: "('s \<Rightarrow> (u32 \<times> 's) option) \<Rightarrow> nat \<Rightarrow> 's \<Rightarrow> (u32 list \<times> 's) option" where
  "take_pages alloc 0 s = Some ([], s)"
| "take_pages alloc (Suc n) s =
    do { (p, s) \<leftarrow> alloc s; (ps, s) \<leftarrow> take_pages alloc n s; Some (p # ps, s) }"

locale page_pool =
  fixes ok :: "'s \<Rightarrow> bool"
    and free :: "'s \<Rightarrow> u32 set"
    and pages :: "'s \<Rightarrow> u32 set"
    and same :: "'s \<Rightarrow> 's \<Rightarrow> bool"
    and alloc :: "'s \<Rightarrow> (u32 \<times> 's) option"
    and release :: "u32 \<Rightarrow> 's \<Rightarrow> 's option"
  assumes alloc_law: "ok s \<Longrightarrow> \<exists>p s'. alloc s = Some (p, s') \<and> ok s' \<and> same s s' \<and> pages s' = pages s
        \<and> (if free s = {} then p = 0 \<and> free s' = {} else p \<in> free s \<and> free s' = free s - {p})"
    and release_law: "ok s \<Longrightarrow> p \<in> pages s \<Longrightarrow> \<exists>s'. release p s = Some s' \<and> ok s' \<and> same s s'
        \<and> pages s' = pages s \<and> free s' = insert p (free s)"
    and free_pool: "ok s \<Longrightarrow> free s \<subseteq> pages s"
    and null_page: "ok s \<Longrightarrow> 0 \<notin> pages s"
    and same_refl: "same s s"
    and same_trans: "same s s' \<Longrightarrow> same s' s'' \<Longrightarrow> same s s''"
begin

lemma alloc_some:
  assumes "ok s" and "alloc s = Some (p, s')"
  shows "ok s'" and "same s s'" and "pages s' = pages s"
    and "p = 0 \<longleftrightarrow> free s = {}" and "p \<noteq> 0 \<Longrightarrow> p \<in> free s \<and> free s' = free s - {p}"
  using alloc_law[OF assms(1)] assms free_pool[OF assms(1)] null_page[OF assms(1)]
  by (auto split: if_splits)

lemma alloc_release:
  assumes "ok s" and "alloc s = Some (p, s1)" and "p \<noteq> 0"
  shows "\<exists>s2. release p s1 = Some s2 \<and> ok s2 \<and> same s s2 \<and> free s2 = free s"
proof -
  note a = alloc_some[OF assms(1,2)]
  have "p \<in> pages s1" using a(3) a(5)[OF assms(3)] free_pool[OF assms(1)] by auto
  from release_law[OF a(1) this] obtain s2 where s2: "release p s1 = Some s2" "ok s2" "same s1 s2"
    "free s2 = insert p (free s1)" by blast
  moreover have "free s2 = free s" using s2(4) a(5)[OF assms(3)] by auto
  ultimately show ?thesis using same_trans[OF a(2)] by blast
qed

text \<open>Pages taken one after another are distinct, and were free.\<close>

lemma take_pages_distinct:
  "ok s \<Longrightarrow> take_pages alloc n s = Some (ps, s') \<Longrightarrow> 0 \<notin> set ps \<Longrightarrow>
   distinct ps \<and> set ps \<subseteq> free s \<and> free s' = free s - set ps \<and> ok s' \<and> same s s'"
proof (induction n arbitrary: s ps)
  case 0
  then show ?case by (auto intro: same_refl)
next
  case (Suc n)
  then obtain p s1 qs where q: "alloc s = Some (p, s1)" "take_pages alloc n s1 = Some (qs, s')"
    "ps = p # qs" by (auto split: Option.bind_splits)
  note a = alloc_some[OF Suc.prems(1) q(1)]
  have p: "p \<noteq> 0" "0 \<notin> set qs" using Suc.prems(3) q(3) by auto
  from Suc.IH[OF a(1) q(2) p(2)] a(5)[OF p(1)] same_trans[OF a(2)] show ?case
    using q(3) by auto
qed

lemma take_pages_enough:
  "ok s \<Longrightarrow> finite (free s) \<Longrightarrow> n \<le> card (free s) \<Longrightarrow>
   \<exists>ps s'. take_pages alloc n s = Some (ps, s') \<and> 0 \<notin> set ps \<and> length ps = n"
proof (induction n arbitrary: s)
  case (Suc n)
  then have ne: "free s \<noteq> {}" by auto
  obtain p s1 where a: "alloc s = Some (p, s1)" using alloc_law[OF Suc.prems(1)] by blast
  note f = alloc_some[OF Suc.prems(1) a]
  have p: "p \<noteq> 0" using f(4) ne by simp
  have "n \<le> card (free s1)" using f(5)[OF p] Suc.prems by (simp add: card_Diff_singleton)
  with Suc.IH[OF f(1)] f(5)[OF p] Suc.prems(2) a p show ?case by auto
qed simp

end

text \<open>The kernel's allocator provides it.\<close>

definition mm_pool_ok :: "'m mm_scheme \<Rightarrow> bool" where
  "mm_pool_ok s \<longleftrightarrow> pool_ok (paddr_alloc s) s"

definition same_mm :: "'m mm_scheme \<Rightarrow> 'm mm_scheme \<Rightarrow> bool" where
  "same_mm s s' \<longleftrightarrow> s' = s\<lparr>paddr_alloc := paddr_alloc s'\<rparr>"

lemma same_mmD:
  assumes "same_mm s s'"
  shows "tasks s' = tasks s" and "mem s' = mem s" and "kernel_page_dir s' = kernel_page_dir s"
    and "curr_task s' = curr_task s"
proof -
  let ?t = "s\<lparr>paddr_alloc := paddr_alloc s'\<rparr>"
  have e: "s' = ?t" using assms by (simp add: same_mm_def)
  have "tasks s' = tasks ?t" "mem s' = mem ?t" "kernel_page_dir s' = kernel_page_dir ?t"
    "curr_task s' = curr_task ?t" by (rule arg_cong[OF e])+
  then show "tasks s' = tasks s" "mem s' = mem s" "kernel_page_dir s' = kernel_page_dir s"
    "curr_task s' = curr_task s" by simp_all
qed

lemma pool_ok_alloc_upd [simp]: "pool_ok a (s\<lparr>paddr_alloc := b\<rparr>) = pool_ok a (s :: 'm mm_scheme)"
  "pool_ok a (s\<lparr>mem := m\<rparr>) = pool_ok a (s :: 'm mm_scheme)"
  by (simp_all add: pool_ok_def)

lemma page_alloc_pool:
  assumes "mm_pool_ok s"
  shows "\<exists>p s'. page_alloc s = Some (p, s') \<and> mm_pool_ok s' \<and> same_mm s s'
    \<and> pool_pages (paddr_alloc s') = pool_pages (paddr_alloc s)
    \<and> (if free_pages (paddr_alloc s) = {} then p = 0 \<and> free_pages (paddr_alloc s') = {}
       else p \<in> free_pages (paddr_alloc s)
         \<and> free_pages (paddr_alloc s') = free_pages (paddr_alloc s) - {p})"
proof -
  obtain p a' where a: "addr_alloc_page (paddr_alloc s) 1 s = Some (p, a', s)" "pool_ok a' s"
    "pool_pages a' = pool_pages (paddr_alloc s)"
    "if free_pages (paddr_alloc s) = {} then p = 0 \<and> free_pages a' = {}
     else p \<in> free_pages (paddr_alloc s) \<and> free_pages a' = free_pages (paddr_alloc s) - {p}"
    using addr_alloc_page_ok[of "paddr_alloc s" s] assms by (auto simp: mm_pool_ok_def)
  then have "page_alloc s = Some (p, s\<lparr>paddr_alloc := a'\<rparr>)" by (simp add: page_alloc_def)
  with a(2-4) show ?thesis
    by (intro exI[of _ p] exI[of _ "s\<lparr>paddr_alloc := a'\<rparr>"]) (simp add: mm_pool_ok_def same_mm_def)
qed

lemma page_free_pool:
  assumes "mm_pool_ok s" and "p \<in> pool_pages (paddr_alloc s)"
  shows "\<exists>s'. page_free p 1 s = Some s' \<and> mm_pool_ok s' \<and> same_mm s s'
    \<and> pool_pages (paddr_alloc s') = pool_pages (paddr_alloc s)
    \<and> free_pages (paddr_alloc s') = insert p (free_pages (paddr_alloc s))"
  using addr_free_page_ok[of "paddr_alloc s" s p] assms
  by (auto simp: mm_pool_ok_def page_free_def same_mm_def)

lemma pool_page_positive: "pool_ok a s \<Longrightarrow> 0 \<notin> pool_pages a"
  using uint_pool_page(1)[of a s] by (fastforce simp: pool_pages_def pool_ok_def)

interpretation pp: page_pool mm_pool_ok "\<lambda>s. free_pages (paddr_alloc s)"
  "\<lambda>s. pool_pages (paddr_alloc s)" same_mm page_alloc "\<lambda>p s. page_free p 1 s"
proof unfold_locales
  fix s s' s'' :: "'m mm_scheme" and p
  show "mm_pool_ok s \<Longrightarrow> \<exists>p s'. page_alloc s = Some (p, s') \<and> mm_pool_ok s' \<and> same_mm s s'
    \<and> pool_pages (paddr_alloc s') = pool_pages (paddr_alloc s)
    \<and> (if free_pages (paddr_alloc s) = {} then p = 0 \<and> free_pages (paddr_alloc s') = {}
       else p \<in> free_pages (paddr_alloc s)
         \<and> free_pages (paddr_alloc s') = free_pages (paddr_alloc s) - {p})"
    by (rule page_alloc_pool)
  show "mm_pool_ok s \<Longrightarrow> p \<in> pool_pages (paddr_alloc s) \<Longrightarrow>
    \<exists>s'. page_free p 1 s = Some s' \<and> mm_pool_ok s' \<and> same_mm s s'
      \<and> pool_pages (paddr_alloc s') = pool_pages (paddr_alloc s)
      \<and> free_pages (paddr_alloc s') = insert p (free_pages (paddr_alloc s))"
    by (rule page_free_pool)
  show "mm_pool_ok s \<Longrightarrow> free_pages (paddr_alloc s) \<subseteq> pool_pages (paddr_alloc s)"
    by (auto simp: free_pages_def pool_pages_def)
  show "mm_pool_ok s \<Longrightarrow> 0 \<notin> pool_pages (paddr_alloc s)"
    unfolding mm_pool_ok_def by (rule pool_page_positive)
  show "same_mm s s" by (simp add: same_mm_def)
  show "same_mm s s' \<Longrightarrow> same_mm s' s'' \<Longrightarrow> same_mm s s''"
    unfolding same_mm_def by (cases s; cases s'; cases s'') auto
qed

section \<open>Entries in memory\<close>

lemma load32_store32_same: "load32 (store32 m a v) a = v"
proof -
  have "ucast (ucast v :: u8) OR push_bit 8 (ucast (ucast (drop_bit 8 v) :: u8))
      OR push_bit 16 (ucast (ucast (drop_bit 16 v) :: u8))
      OR push_bit 24 (ucast (ucast (drop_bit 24 v) :: u8)) = v" (is "?l = v")
  proof (rule bit_word_eqI)
    fix n assume "n < LENGTH(32)"
    then show "bit ?l n = bit v n"
      by (cases "n < 8"; cases "n < 16"; cases "n < 24") (auto simp: bit_simps)
  qed
  then show ?thesis by (simp add: load32_def store32_def)
qed

text \<open>\<open>slot P n\<close>: byte \<open>n\<close> of the page at \<open>P\<close>.\<close>

definition slot :: "u32 \<Rightarrow> nat \<Rightarrow> u32" where
  "slot P n = P + of_nat n"

abbreviation aligned :: "u32 \<Rightarrow> bool" where
  "aligned P \<equiv> take_bit 12 P = 0"

lemma slot_Suc: "slot P n + 1 = slot P (n + 1)" "slot P n + 2 = slot P (n + 2)"
  "slot P n + 3 = slot P (n + 3)"
  by (simp_all add: slot_def add.assoc)

lemma slot_off:
  assumes "aligned P" and "n < 4096"
  shows "take_bit 12 (slot P n) = of_nat n"
proof -
  have off: "uint (take_bit 12 x) = uint x mod 4096" for x :: u32
  proof -
    have "uint (take_bit 12 x) = take_bit 12 (uint x)" by (simp only: unsigned_take_bit_eq)
    then show ?thesis by (simp only: take_bit_eq_mod) simp
  qed
  have P: "uint P mod 4096 = 0" using off[of P] assms(1) by simp
  have n: "uint (of_nat n :: u32) = int n"
    using assms(2) by (simp add: uint_nat unat_of_nat)
  have "uint (slot P n) = (uint P + int n) mod 2 ^ 32"
    using uint_word_ariths(1)[of P "of_nat n"] by (simp add: slot_def n)
  then have "uint (slot P n) mod 4096 = (uint P + int n) mod 4096"
    by (simp add: mod_mod_cancel)
  also have "\<dots> = int n" using P assms(2) by (simp add: mod_add_eq[symmetric])
  finally have "uint (take_bit 12 (slot P n)) = uint (of_nat n :: u32)" using off n by simp
  then show ?thesis by (simp only: word_uint_eq_iff)
qed

lemma slot_inj:
  assumes "aligned P" and "aligned Q" and "n < 4096" and "k < 4096"
  shows "slot P n = slot Q k \<longleftrightarrow> P = Q \<and> n = k"
proof
  assume e: "slot P n = slot Q k"
  then have "(of_nat n :: u32) = of_nat k" using slot_off[OF assms(1,3)] slot_off[OF assms(2,4)] by simp
  then have "unat (of_nat n :: u32) = unat (of_nat k :: u32)" by simp
  then have "n = k" using assms(3,4) by (simp add: unat_of_nat)
  with e show "P = Q \<and> n = k" by (simp add: slot_def)
qed simp

lemma load32_store32:
  assumes "aligned P" and "aligned Q" and "i < 1024" and "j < 1024"
  shows "load32 (store32 m (slot P (4 * i)) v) (slot Q (4 * j))
    = (if P = Q \<and> i = j then v else load32 m (slot Q (4 * j)))"
proof (cases "P = Q \<and> i = j")
  case True
  then show ?thesis by (simp add: load32_store32_same)
next
  case False
  have "slot Q (4 * j + x) \<noteq> slot P (4 * i + y)" if "x < 4" "y < 4" for x y
  proof -
    have "4 * j + x = 4 * i + y \<Longrightarrow> i = j" using that by presburger
    then show ?thesis using slot_inj[OF assms(2,1), of "4 * j + x" "4 * i + y"] assms(3,4) that False
      by auto
  qed
  note ne = this
  have e: "store32 m (slot P (4 * i)) v (slot Q (4 * j + x)) = m (slot Q (4 * j + x))" if "x < 4" for x
    unfolding store32_def slot_Suc
    using ne[OF that, of 0] ne[OF that, of 1] ne[OF that, of 2] ne[OF that, of 3]
    by (simp add: fun_upd_apply del: add_Suc_right)
  show ?thesis
    unfolding load32_def slot_Suc
    using e[of 0] e[of 1] e[of 2] e[of 3] False by auto
qed

lemma load32_memset:
  assumes "aligned P" and "aligned Q" and "j < 1024" and "P \<noteq> 0"
  shows "load32 (kernel_memset P 0 4096 m) (slot Q (4 * j)) = (if P = Q then 0 else load32 m (slot Q (4 * j)))"
proof -
  have "kernel_memset P 0 4096 m (slot Q k) = (if P = Q then 0 else m (slot Q k))" if "k < 4096" for k
  proof -
    have "unat (slot Q k - P) < 4096 \<longleftrightarrow> P = Q"
    proof
      assume a: "unat (slot Q k - P) < 4096"
      have "slot P (unat (slot Q k - P)) = slot Q k" by (simp add: slot_def)
      then show "P = Q" using slot_inj[OF assms(1,2) a that] by simp
    next
      assume "P = Q"
      then show "unat (slot Q k - P) < 4096" using that by (simp add: slot_def unat_of_nat)
    qed
    then show ?thesis using assms(4) by (simp add: kernel_memset_def fill_bytes_ok)
  qed
  note e = this
  show ?thesis
    unfolding load32_def slot_Suc
    using e[of "4 * j"] e[of "4 * j + 1"] e[of "4 * j + 2"] e[of "4 * j + 3"] assms(3) by simp
qed

section \<open>What a page directory maps\<close>

abbreviation dir_entry :: "memory \<Rightarrow> u32 \<Rightarrow> nat \<Rightarrow> u32" where
  "dir_entry m pd i \<equiv> load32 m (slot pd (4 * i))"

definition lookup :: "memory \<Rightarrow> u32 \<Rightarrow> nat \<Rightarrow> nat \<Rightarrow> u32 option" where
  "lookup m pd i j =
    (let e = dir_entry m pd i; v = dir_entry m (pde_paddr e) j
     in if entry_present e \<and> entry_present v then Some v else None)"

text \<open>
  A well-formed directory: its page is aligned, its tables are distinct pages, none of them
  the directory itself or the null page.  \<open>dir_private\<close>: none of these pages is free.
\<close>

definition dir_ok :: "memory \<Rightarrow> u32 \<Rightarrow> bool" where
  "dir_ok m pd \<longleftrightarrow> aligned pd \<and> (\<forall>i < 1024. entry_present (dir_entry m pd i) \<longrightarrow>
      pde_paddr (dir_entry m pd i) \<noteq> pd \<and> pde_paddr (dir_entry m pd i) \<noteq> 0
      \<and> (\<forall>k < 1024. k \<noteq> i \<longrightarrow> entry_present (dir_entry m pd k) \<longrightarrow>
           pde_paddr (dir_entry m pd k) \<noteq> pde_paddr (dir_entry m pd i)))"

definition dir_private :: "memory \<Rightarrow> u32 \<Rightarrow> u32 set \<Rightarrow> bool" where
  "dir_private m pd fr \<longleftrightarrow> pd \<notin> fr \<and> (\<forall>i < 1024. entry_present (dir_entry m pd i) \<longrightarrow>
      pde_paddr (dir_entry m pd i) \<notin> fr)"

lemma aligned_paddr [simp]: "aligned (pde_paddr v)" "aligned (pte_paddr v)"
  unfolding pde_paddr_def pte_paddr_def by (rule bit_word_eqI; auto simp: bit_simps)+

lemma aligned_bit: "aligned P \<Longrightarrow> n < 12 \<Longrightarrow> \<not> bit P n"
  by (metis bit_take_bit_iff bit_0_eq bot_apply bot_bool_def)

lemma low_bit: "take_bit 12 f = (f :: u32) \<Longrightarrow> bit f n \<Longrightarrow> n < 12"
  by (metis bit_take_bit_iff)

lemma entry_flags:
  assumes "aligned P" and "take_bit 12 f = f"
  shows "pte_paddr (P OR f) = P" and "pde_paddr (P OR f) = P"
    and "entry_present (P OR f) = bit f 0"
proof -
  have "push_bit 12 (drop_bit 12 (P OR f)) = P"
  proof (rule bit_word_eqI)
    fix n assume "n < LENGTH(32)"
    then show "bit (push_bit 12 (drop_bit 12 (P OR f))) n = bit P n"
      using aligned_bit[OF assms(1), of n] low_bit[OF assms(2), of n]
      by (cases "n < 12") (auto simp: bit_simps)
  qed
  then show "pte_paddr (P OR f) = P" "pde_paddr (P OR f) = P"
    by (simp_all add: pte_paddr_def pde_paddr_def)
  show "entry_present (P OR f) = bit f 0"
    using aligned_bit[OF assms(1), of 0] by (simp add: entry_present_def bit_or_iff)
qed

lemma index_less:
  "unat (pde_index va) < 1024" "unat (pte_index va) < 1024"
proof -
  have "unat (pde_index va) = unat va div 2 ^ 22"
    unfolding pde_index_def unat_drop_bit_eq by (simp only: drop_bit_eq_div)
  then show "unat (pde_index va) < 1024" using unsigned_less[of va, where 'a = nat]
    by (simp add: less_mult_imp_div_less)
  have "pte_index va = take_bit 10 (drop_bit 12 va)"
    by (simp add: pte_index_def take_bit_eq_mask mask_eq_exp_minus_1)
  then have "unat (pte_index va) = take_bit 10 (unat (drop_bit 12 va))"
    by (simp only: unsigned_take_bit_eq)
  then show "unat (pte_index va) < 1024" using take_bit_nat_less_exp[of 10] by simp
qed

lemma entry_address:
  "pd + 4 * pde_index va = slot pd (4 * unat (pde_index va))"
  "pt + 4 * pte_index va = slot pt (4 * unat (pte_index va))"
  by (simp_all add: slot_def)

lemma pool_page_aligned:
  assumes "pool_ok a s" and "p \<in> pool_pages a"
  shows "aligned p"
proof -
  obtain i where i: "p = pool_page a i" "0 \<le> i" "i < bit_count (abitmap a)"
    using assms(2) by (auto simp: pool_pages_def)
  have off: "take_bit 12 x = 0 \<longleftrightarrow> uint x mod 4096 = 0" for x :: u32
  proof -
    have "take_bit 12 x = 0 \<longleftrightarrow> uint (take_bit 12 x) = 0" by (simp only: uint_0_iff)
    also have "uint (take_bit 12 x) = take_bit 12 (uint x)" by (simp only: unsigned_take_bit_eq)
    finally show ?thesis by (simp only: take_bit_eq_mod) simp
  qed
  have "uint (astart a) mod 4096 = 0" using assms(1) off[of "astart a"] by (simp add: pool_ok_def)
  then show ?thesis unfolding off i(1) uint_pool_page(1)[OF assms(1) i(2,3)] by simp
qed

lemma free_page_facts:
  assumes "mm_pool_ok s" and "p \<in> free_pages (paddr_alloc s)"
  shows "aligned p" and "p \<noteq> 0"
proof -
  have "p \<in> pool_pages (paddr_alloc s)" using pp.free_pool[OF assms(1)] assms(2) by blast
  then show "aligned p" "p \<noteq> 0"
    using pool_page_aligned pp.null_page[OF assms(1)] assms(1) by (auto simp: mm_pool_ok_def)
qed

text \<open>Writing one table entry changes one mapping.\<close>

lemma lookup_store_entry:
  fixes v :: u32
  assumes d: "dir_ok m pd" and i: "i < 1024" "j < 1024" and e: "entry_present (dir_entry m pd i)"
  defines "m' \<equiv> store32 m (slot (pde_paddr (dir_entry m pd i)) (4 * j)) v"
  shows "dir_ok m' pd" and "\<And>k. k < 1024 \<Longrightarrow> dir_entry m' pd k = dir_entry m pd k"
    and "\<And>k l. k < 1024 \<Longrightarrow> l < 1024 \<Longrightarrow> lookup m' pd k l =
      (if k = i \<and> l = j then (if entry_present v then Some v else None) else lookup m pd k l)"
proof -
  let ?t = "pde_paddr (dir_entry m pd i)"
  have a: "aligned pd" "?t \<noteq> pd" using d i e by (auto simp: dir_ok_def)
  show de: "dir_entry m' pd k = dir_entry m pd k" if "k < 1024" for k
    unfolding m'_def using load32_store32[OF aligned_paddr(1) a(1) i(2) that] a(2) by auto
  then show "dir_ok m' pd" using d by (simp add: dir_ok_def)
  fix k l :: nat assume k: "k < 1024" "l < 1024"
  have "dir_entry m' (pde_paddr (dir_entry m pd k)) l
    = (if ?t = pde_paddr (dir_entry m pd k) \<and> j = l then v else dir_entry m (pde_paddr (dir_entry m pd k)) l)"
    unfolding m'_def by (rule load32_store32[OF aligned_paddr(1) aligned_paddr(1) i(2) k(2)])
  moreover have "?t = pde_paddr (dir_entry m pd k) \<longleftrightarrow> k = i" if "entry_present (dir_entry m pd k)"
    using d i k e that by (auto simp: dir_ok_def)
  ultimately show "lookup m' pd k l =
      (if k = i \<and> l = j then (if entry_present v then Some v else None) else lookup m pd k l)"
  proof (cases "entry_present (dir_entry m pd k)")
    case True
    assume m: "dir_entry m' (pde_paddr (dir_entry m pd k)) l
      = (if ?t = pde_paddr (dir_entry m pd k) \<and> j = l then v
         else dir_entry m (pde_paddr (dir_entry m pd k)) l)"
      and t: "entry_present (dir_entry m pd k) \<Longrightarrow> ?t = pde_paddr (dir_entry m pd k) \<longleftrightarrow> k = i"
    show ?thesis unfolding lookup_def Let_def de[OF k(1)] m t[OF True] using True by auto
  next
    case False
    moreover from this have "k \<noteq> i" using e by auto
    ultimately show ?thesis unfolding lookup_def Let_def de[OF k(1)] by simp
  qed
qed

text \<open>Hanging a fresh, zeroed table into the directory changes no mapping.\<close>

lemma lookup_new_table:
  assumes d: "dir_ok m pd" and i: "i < 1024" and e: "\<not> entry_present (dir_entry m pd i)"
    and t: "aligned t" "t \<noteq> 0" "t \<noteq> pd"
    and f: "\<And>k. k < 1024 \<Longrightarrow> entry_present (dir_entry m pd k) \<Longrightarrow> pde_paddr (dir_entry m pd k) \<noteq> t"
    and v: "entry_present v" "pde_paddr v = t"
  defines "m' \<equiv> kernel_memset t 0 4096 (store32 m (slot pd (4 * i)) v)"
  shows "dir_ok m' pd" and "\<And>k. k < 1024 \<Longrightarrow> dir_entry m' pd k = (if k = i then v else dir_entry m pd k)"
    and "\<And>k l. k < 1024 \<Longrightarrow> l < 1024 \<Longrightarrow> lookup m' pd k l = lookup m pd k l"
proof -
  have a: "aligned pd" using d by (simp add: dir_ok_def)
  have ld: "dir_entry m' q k = (if q = t then 0 else if q = pd \<and> k = i then v else dir_entry m q k)"
    if "aligned q" "k < 1024" for q k
    unfolding m'_def load32_memset[OF t(1) that(1,2) t(2)] load32_store32[OF a that(1) i that(2)]
    by auto
  show de: "dir_entry m' pd k = (if k = i then v else dir_entry m pd k)" if "k < 1024" for k
    using ld[OF a that] t(3) by auto
  show "dir_ok m' pd"
    unfolding dir_ok_def
  proof (intro conjI allI impI a)
    fix x assume x: "x < 1024" "entry_present (dir_entry m' pd x)"
    show "pde_paddr (dir_entry m' pd x) \<noteq> pd" "pde_paddr (dir_entry m' pd x) \<noteq> 0"
      using d x de[OF x(1)] t v by (auto simp: dir_ok_def)
    fix k assume k: "k < 1024" "k \<noteq> x" "entry_present (dir_entry m' pd k)"
    show "pde_paddr (dir_entry m' pd k) \<noteq> pde_paddr (dir_entry m' pd x)"
    proof (cases "x = i \<or> k = i")
      case True
      then show ?thesis using de[OF x(1)] de[OF k(1)] x k v f[of x] f[of k] by auto
    next
      case False
      then show ?thesis using d x k de[OF x(1)] de[OF k(1)] by (simp add: dir_ok_def)
    qed
  qed
  fix k l :: nat assume k: "k < 1024" "l < 1024"
  show "lookup m' pd k l = lookup m pd k l"
  proof (cases "k = i")
    case True
    then have "lookup m' pd k l = None"
      using de[OF k(1)] ld[OF t(1) k(2)] v by (simp add: lookup_def entry_present_def)
    with True e show ?thesis by (simp add: lookup_def)
  next
    case False
    note dk = de[OF k(1)]
    show ?thesis
    proof (cases "entry_present (dir_entry m pd k)")
      case True
      then have "pde_paddr (dir_entry m pd k) \<noteq> pd" "pde_paddr (dir_entry m pd k) \<noteq> t"
        using d f k(1) by (auto simp: dir_ok_def)
      then show ?thesis using dk False ld[OF aligned_paddr(1) k(2), of "dir_entry m pd k"]
        by (simp add: lookup_def)
    qed (use dk False in \<open>simp add: lookup_def\<close>)
  qed
qed

lemma table_slot_nonzero: "aligned t \<Longrightarrow> t \<noteq> 0 \<Longrightarrow> j < 1024 \<Longrightarrow> slot t (4 * j) \<noteq> 0"
  using slot_inj[of t 0 "4 * j" 0] by (auto simp: slot_def)

lemma find_pte_ok:
  fixes va :: u32
  assumes d: "dir_ok (mem s) pd" and ok: "mm_pool_ok s"
    and pr: "dir_private (mem s) pd (free_pages (paddr_alloc s))"
  defines "i \<equiv> unat (pde_index va)" and "j \<equiv> unat (pte_index va)"
  shows "\<exists>p s'. find_pte pd va 1 s = Some (p, s') \<and> mm_pool_ok s'
    \<and> s' = s\<lparr>paddr_alloc := paddr_alloc s', mem := mem s'\<rparr>
    \<and> dir_ok (mem s') pd \<and> dir_private (mem s') pd (free_pages (paddr_alloc s'))
    \<and> free_pages (paddr_alloc s') \<subseteq> free_pages (paddr_alloc s)
    \<and> (\<forall>k < 1024. \<forall>l < 1024. lookup (mem s') pd k l = lookup (mem s) pd k l)
    \<and> (if p = 0 then free_pages (paddr_alloc s) = {} \<and> mem s' = mem s
       else entry_present (dir_entry (mem s') pd i)
         \<and> p = slot (pde_paddr (dir_entry (mem s') pd i)) (4 * j))"
proof -
  have ij: "i < 1024" "j < 1024" unfolding i_def j_def by (rule index_less)+
  let ?e = "dir_entry (mem s) pd i"
  show ?thesis
  proof (cases "entry_present ?e")
    case True
    then have "pde_paddr ?e \<noteq> 0" using d ij by (auto simp: dir_ok_def)
    then have "slot (pde_paddr ?e) (4 * j) \<noteq> 0" by (rule table_slot_nonzero[OF aligned_paddr(1) _ ij(2)])
    moreover have "find_pte pd va 1 s = Some (slot (pde_paddr ?e) (4 * j), s)"
      using True by (simp add: find_pte_def entry_address i_def j_def Let_def)
    ultimately show ?thesis using True d ok pr by auto
  next
    case False
    obtain p s1 where a: "page_alloc s = Some (p, s1)" using page_alloc_pool[OF ok] by blast
    note al = pp.alloc_some[OF ok a]
    have s1: "s1 = s\<lparr>paddr_alloc := paddr_alloc s1\<rparr>" using al(2) by (simp add: same_mm_def)
    then have m1: "mem s1 = mem s" by (metis mm.select_convs(3) mm.surjective mm.update_convs(1))
    show ?thesis
    proof (cases "p = 0")
      case True
      have "find_pte pd va 1 s = Some (0, s1)"
        using False a True by (simp add: find_pte_def entry_address i_def Let_def)
      moreover have "free_pages (paddr_alloc s) = {}" "free_pages (paddr_alloc s1) = {}"
        using True al page_alloc_pool[OF ok] a by auto
      moreover have "s1 = s\<lparr>paddr_alloc := paddr_alloc s1, mem := mem s1\<rparr>"
        using s1 m1 by (metis mm.surjective mm.update_convs(1) mm.update_convs(3))
      ultimately show ?thesis using True d pr al(1) m1 by (intro exI[of _ 0] exI[of _ s1]) simp
    next
      case p0: False
      have fr: "p \<in> free_pages (paddr_alloc s)"
        "free_pages (paddr_alloc s1) = free_pages (paddr_alloc s) - {p}" using al(5)[OF p0] by auto
      note pf = free_page_facts[OF ok fr(1)]
      let ?v = "p OR PDE_P OR PDE_W OR PDE_U"
      have "?v = p OR 7" by (rule bit_word_eqI) (auto simp: PDE_P_def PDE_W_def PDE_U_def bit_simps)
      then have v: "entry_present ?v" "pde_paddr ?v = p"
        using entry_flags[OF pf(1), of 7] by simp_all
      define m' where "m' = kernel_memset p 0 4096 (store32 (mem s) (slot pd (4 * i)) ?v)"
      let ?s = "s1\<lparr>mem := m'\<rparr>"
      have t: "p \<noteq> pd" "\<And>k. k < 1024 \<Longrightarrow> entry_present (dir_entry (mem s) pd k) \<Longrightarrow>
          pde_paddr (dir_entry (mem s) pd k) \<noteq> p"
        using pr fr(1) by (auto simp: dir_private_def)
      note nt = lookup_new_table[OF d ij(1) False pf t v, folded m'_def]
      have "find_pte pd va 1 s = Some (slot p (4 * j), ?s)"
        using False a p0 m1
        by (simp add: find_pte_def entry_address i_def j_def Let_def m'_def)
      moreover have "dir_private m' pd (free_pages (paddr_alloc s1))"
        using pr nt(2) v(2) fr(2) by (auto simp: dir_private_def)
      moreover have "slot p (4 * j) \<noteq> 0" by (rule table_slot_nonzero[OF pf ij(2)])
      moreover have "mm_pool_ok ?s" using al(1) by (simp add: mm_pool_ok_def)
      moreover have "?s = s\<lparr>paddr_alloc := paddr_alloc ?s, mem := mem ?s\<rparr>"
        by (subst s1) simp
      ultimately show ?thesis using nt v ij(1) fr(2)
        by (intro exI[of _ "slot p (4 * j)"] exI[of _ ?s]) auto
    qed
  qed
qed

section \<open>Mapping a page\<close>

lemma mmu_walk_lookup:
  "mmu_walk pd m va = map_option (\<lambda>v. pte_paddr v + take_bit 12 va)
     (lookup m pd (unat (pde_index va)) (unat (pte_index va)))"
  by (simp add: mmu_walk_def lookup_def entry_address page_off Let_def)

lemma same_page_iff:
  "unat (pde_index a) = unat (pde_index b) \<and> unat (pte_index a) = unat (pte_index b)
   \<longleftrightarrow> drop_bit 12 a = drop_bit 12 b"
proof -
  have p: "pde_index x = drop_bit 10 (drop_bit 12 x)" "pte_index x = take_bit 10 (drop_bit 12 x)" for x
    by (simp_all add: pde_index_def pte_index_def take_bit_eq_mask mask_eq_exp_minus_1)
  have t: "drop_bit 12 a = drop_bit 12 b"
    if e: "drop_bit 10 (drop_bit 12 a) = drop_bit 10 (drop_bit 12 b)"
      "take_bit 10 (drop_bit 12 a) = take_bit 10 (drop_bit 12 b)"
  proof -
    have "push_bit 10 (drop_bit 10 x) OR take_bit 10 x = x" for x :: u32
      by (rule bit_word_eqI) (auto simp: bit_simps)
    then show ?thesis using e by metis
  qed
  show ?thesis unfolding p word_unat_eq_iff[symmetric]
  proof
    assume "drop_bit 10 (drop_bit 12 a) = drop_bit 10 (drop_bit 12 b)
      \<and> take_bit 10 (drop_bit 12 a) = take_bit 10 (drop_bit 12 b)"
    with t show "drop_bit 12 a = drop_bit 12 b" by blast
  qed (simp only:)
qed

lemma map_page_ok:
  fixes va :: u32
  assumes d: "dir_ok (mem s) pd" and ok: "mm_pool_ok s"
    and pr: "dir_private (mem s) pd (free_pages (paddr_alloc s))"
    and pa: "aligned pa" and perm: "take_bit 12 perm = perm"
  defines "i \<equiv> unat (pde_index va)" and "j \<equiv> unat (pte_index va)"
  assumes un: "lookup (mem s) pd i j = None"
  shows "\<exists>r s'. memory_create_map pd va pa 1 perm s = Some (r, s') \<and> mm_pool_ok s'
    \<and> s' = s\<lparr>paddr_alloc := paddr_alloc s', mem := mem s'\<rparr>
    \<and> dir_ok (mem s') pd \<and> dir_private (mem s') pd (free_pages (paddr_alloc s'))
    \<and> (r = - 1 \<and> free_pages (paddr_alloc s) = {} \<and> mem s' = mem s \<or> r = 0
      \<and> (\<forall>k < 1024. \<forall>l < 1024. lookup (mem s') pd k l =
          (if k = i \<and> l = j then Some (pa OR perm OR PTE_P) else lookup (mem s) pd k l)))"
proof -
  have ij: "i < 1024" "j < 1024" unfolding i_def j_def by (rule index_less)+
  obtain p s1 where f: "find_pte pd va 1 s = Some (p, s1)" "mm_pool_ok s1"
    "s1 = s\<lparr>paddr_alloc := paddr_alloc s1, mem := mem s1\<rparr>"
    "dir_ok (mem s1) pd" "dir_private (mem s1) pd (free_pages (paddr_alloc s1))"
    "\<And>k l. k < 1024 \<Longrightarrow> l < 1024 \<Longrightarrow> lookup (mem s1) pd k l = lookup (mem s) pd k l"
    "if p = 0 then free_pages (paddr_alloc s) = {} \<and> mem s1 = mem s
       else entry_present (dir_entry (mem s1) pd i)
         \<and> p = slot (pde_paddr (dir_entry (mem s1) pd i)) (4 * j)"
    using find_pte_ok[OF d ok pr, of va] unfolding i_def j_def by blast
  show ?thesis
  proof (cases "p = 0")
    case True
    then have "memory_create_map pd va pa 1 perm s = Some (- 1, s1)"
      using f(1) by (simp add: memory_create_map_def)
    with True f show ?thesis by auto
  next
    case False
    let ?e = "dir_entry (mem s1) pd i"
    have e: "entry_present ?e" "p = slot (pde_paddr ?e) (4 * j)" using False f(7) by auto
    have np: "\<not> entry_present (load32 (mem s1) p)"
      using f(6)[OF ij] un e by (auto simp: lookup_def Let_def split: if_splits)
    let ?v = "pa OR perm OR PTE_P"
    define m' where "m' = store32 (mem s1) p ?v"
    have "take_bit 12 (perm OR PTE_P) = perm OR PTE_P"
      using perm by (simp add: PTE_P_def take_bit_or)
    then have v: "entry_present ?v"
      using entry_flags(3)[OF pa, of "perm OR PTE_P"] by (simp add: PTE_P_def bit_or_iff or.assoc)
    note st = lookup_store_entry[OF f(4) ij e(1), where v = ?v, folded e(2), folded m'_def]
    let ?s = "s1\<lparr>mem := m'\<rparr>"
    have "memory_create_map pd va pa 1 perm s = Some (0, ?s)"
      using f(1) False np by (simp add: memory_create_map_def m'_def)
    moreover have "dir_private m' pd (free_pages (paddr_alloc s1))"
      using f(5) st(2) by (simp add: dir_private_def)
    moreover have "mm_pool_ok ?s" using f(2) by (simp add: mm_pool_ok_def)
    moreover have "?s = s\<lparr>paddr_alloc := paddr_alloc ?s, mem := mem ?s\<rparr>" by (subst f(3)) simp
    moreover have "lookup m' pd k l = (if k = i \<and> l = j then Some ?v else lookup (mem s) pd k l)"
      if "k < 1024" "l < 1024" for k l
      using st(3)[OF that] f(6)[OF that] v by simp
    ultimately show ?thesis using st(1) by (intro exI[of _ 0] exI[of _ ?s]) simp
  qed
qed

section \<open>Failures of range allocation\<close>

lemma alloc_range_zero: "alloc_range n i pd va cva perm s = Some (r, s') \<Longrightarrow> r = 0"
  by (induction n arbitrary: i cva s) (auto split: Option.bind_splits if_splits)

lemma alloc_range_exhausted:
  assumes "mm_pool_ok s" and "free_pages (paddr_alloc s) = {}" and "0 < n"
  shows "\<exists>s'. alloc_range n i pd va cva perm s = Some (0, s') \<and> same_mm s s'"
proof -
  obtain p s' where a: "page_alloc s = Some (p, s')" using page_alloc_pool[OF assms(1)] by blast
  note al = pp.alloc_some[OF assms(1) a]
  have "p = 0" using al(4) assms(2) by simp
  with a al(2) assms(3) show ?thesis by (cases n) auto
qed

section \<open>Properties\<close>

text \<open>Eight pages from 1 MB on; the first holds a page directory with no tables.\<close>

definition demo_pool :: addr_alloc_t where
  "demo_pool = \<lparr>amutex = \<lparr>locked_count = 0, owner = None, wait_list = blank_list\<rparr>,
     abitmap = \<lparr>bit_count = 8, bits = [0x01]\<rparr>, astart = 0x100000, asize = 0x8000, apage_size = 4096\<rparr>"

definition demo_mm :: mm where
  "demo_mm = sched.extend demo_sched
     \<lparr>paddr_alloc = demo_pool, kernel_page_dir = 0x20000, mem = (\<lambda>_. 0), cr3 = 0x100000\<rparr>"

lemma demo_pool_ok: "pool_ok demo_pool (s :: 'm sched_scheme)"
  by (simp add: pool_ok_def demo_pool_def bm_ok_def dll_def blank_list_def)

lemma demo_mm_ok: "mm_pool_ok demo_mm" "paddr_alloc demo_mm = demo_pool" "mem demo_mm = (\<lambda>_. 0)"
  by (simp_all add: mm_pool_ok_def demo_mm_def demo_pool_ok sched.defs mm.defs)

lemma demo_empty_entry: "\<not> entry_present (load32 (\<lambda>_. 0) a)"
  by (simp add: load32_def entry_present_def)

text \<open>C23: Page allocation and release implement a set of free pages: an allocation returns 0
  exactly when none is free and otherwise takes out a page that was; a release puts its page
  back; the pages of the pool and everything else in the kernel state stay, and the mutex is
  left free.\<close>

theorem page_allocator:
  assumes "pool_ok a s"
  shows "(\<exists>p a'. addr_alloc_page a 1 s = Some (p, a', s) \<and> pool_ok a' s
      \<and> (if free_pages a = {} then p = 0 \<and> free_pages a' = {}
         else p \<in> free_pages a \<and> free_pages a' = free_pages a - {p}))
    \<and> (\<forall>p. p \<in> pool_pages a \<longrightarrow> (\<exists>a'. addr_free_page a p 1 s = Some (a', s) \<and> pool_ok a' s
      \<and> free_pages a' = insert p (free_pages a)))"
  using addr_alloc_page_ok[OF assms] addr_free_page_ok[OF assms] by blast

theorem page_allocator_witness:
  "\<exists>p a'. addr_alloc_page demo_pool 1 demo_sched = Some (p, a', demo_sched)
    \<and> pool_ok a' demo_sched \<and> p \<in> free_pages demo_pool \<and> free_pages a' = free_pages demo_pool - {p}"
proof -
  have "\<not> bm_bit (abitmap demo_pool) 1" by (simp add: bm_bit_def demo_pool_def)
  then have "free_pages demo_pool \<noteq> {}"
    by (auto simp: free_pages_def demo_pool_def intro!: exI[of _ 1])
  with page_allocator[OF demo_pool_ok[of demo_sched]] show ?thesis by auto
qed

text \<open>Pages handed out one after another by the kernel's allocator are distinct and were
  all free, and there are as many as the pool has.\<close>

theorem pages_distinct:
  assumes "mm_pool_ok s" and "n \<le> card (free_pages (paddr_alloc s))"
  shows "\<exists>ps s'. take_pages memory_alloc_page n s = Some (ps, s') \<and> length ps = n \<and> distinct ps
    \<and> set ps \<subseteq> free_pages (paddr_alloc s)"
proof (cases "finite (free_pages (paddr_alloc s))")
  case True
  have e: "memory_alloc_page = page_alloc" by (simp add: fun_eq_iff memory_alloc_page_def)
  from pp.take_pages_enough[OF assms(1) True assms(2)] obtain ps s' where
    t: "take_pages page_alloc n s = Some (ps, s')" "0 \<notin> set ps" "length ps = n" by blast
  from pp.take_pages_distinct[OF assms(1) t(1,2)] t(1,3) show ?thesis unfolding e by blast
next
  case False
  then show ?thesis using assms(2) by simp
qed

theorem pages_distinct_witness:
  "\<exists>ps s'. take_pages memory_alloc_page 1 demo_mm = Some (ps, s') \<and> length ps = 1 \<and> distinct ps
    \<and> set ps \<subseteq> free_pages (paddr_alloc demo_mm)"
proof (rule pages_distinct[OF demo_mm_ok(1)])
  have "\<not> bm_bit (abitmap demo_pool) 1" by (simp add: bm_bit_def demo_pool_def)
  then have "pool_page demo_pool 1 \<in> free_pages demo_pool"
    by (auto simp: free_pages_def demo_pool_def)
  then have "0 < card (free_pages demo_pool)" by (simp add: card_gt_0_iff) auto
  then show "1 \<le> card (free_pages (paddr_alloc demo_mm))" by (simp add: demo_mm_ok)
qed

text \<open>C22: Mapping a page does what the MMU will see: after \<^verbatim>\<open>memory_create_map\<close> of one page
  succeeds, every address of that page translates to the frame at the same offset, and the
  translation of every other address is as before; when it fails, no page was free and no
  translation has changed.  The directory stays well formed.\<close>

theorem map_then_translate:
  assumes "dir_ok (mem s) pd" and "mm_pool_ok s"
    and "dir_private (mem s) pd (free_pages (paddr_alloc s))"
    and "aligned pa" and "take_bit 12 perm = perm" and "mmu_walk pd (mem s) va = None"
  shows "\<exists>r s'. memory_create_map pd va pa 1 perm s = Some (r, s') \<and> dir_ok (mem s') pd
    \<and> (r = 0 \<or> r = - 1 \<and> free_pages (paddr_alloc s) = {})
    \<and> (\<forall>x. mmu_walk pd (mem s') x =
        (if r = 0 \<and> drop_bit 12 x = drop_bit 12 va then Some (pa + take_bit 12 x)
         else mmu_walk pd (mem s) x))"
proof -
  have un: "lookup (mem s) pd (unat (pde_index va)) (unat (pte_index va)) = None"
    using assms(6) by (simp add: mmu_walk_lookup)
  obtain r s' where m: "memory_create_map pd va pa 1 perm s = Some (r, s')" "dir_ok (mem s') pd"
    "r = - 1 \<and> free_pages (paddr_alloc s) = {} \<and> mem s' = mem s \<or> r = 0
      \<and> (\<forall>k < 1024. \<forall>l < 1024. lookup (mem s') pd k l =
          (if k = unat (pde_index va) \<and> l = unat (pte_index va) then Some (pa OR perm OR PTE_P)
           else lookup (mem s) pd k l))"
    using map_page_ok[OF assms(1-5) un] by blast
  have "take_bit 12 (perm OR PTE_P) = perm OR PTE_P"
    using assms(5) by (simp add: PTE_P_def take_bit_or)
  then have p: "pte_paddr (pa OR perm OR PTE_P) = pa"
    using entry_flags(1)[OF assms(4), of "perm OR PTE_P"] by (simp add: or.assoc)
  have "mmu_walk pd (mem s') x =
      (if drop_bit 12 x = drop_bit 12 va then Some (pa + take_bit 12 x) else mmu_walk pd (mem s) x)"
    if "r = 0" for x
    using m(3) that index_less[of x] same_page_iff[of x va] p
    unfolding mmu_walk_lookup by auto
  with m show ?thesis by (intro exI[of _ r] exI[of _ s']) auto
qed

theorem map_then_translate_witness:
  "\<exists>r s'. memory_create_map 0x100000 0x80001000 0x107000 1 PTE_W demo_mm = Some (r, s')
    \<and> dir_ok (mem s') 0x100000
    \<and> (r = 0 \<or> r = - 1 \<and> free_pages (paddr_alloc demo_mm) = {})
    \<and> (\<forall>x. mmu_walk 0x100000 (mem s') x =
        (if r = 0 \<and> drop_bit 12 x = drop_bit 12 0x80001000 then Some (0x107000 + take_bit 12 x)
         else mmu_walk 0x100000 (mem demo_mm) x))"
proof (rule map_then_translate)
  show "dir_ok (mem demo_mm) 0x100000" by (simp add: dir_ok_def demo_mm_ok demo_empty_entry)
  have "0x100000 \<noteq> pool_page demo_pool i" if "0 < i" "i < 8" for i
    using uint_pool_page(1)[OF demo_pool_ok, of i] that by (auto simp: demo_pool_def)
  moreover have "bm_bit (abitmap demo_pool) 0" by (simp add: bm_bit_def demo_pool_def)
  ultimately have "0x100000 \<notin> free_pages demo_pool"
    by (auto simp: free_pages_def order_le_less) (auto simp: demo_pool_def)
  then show "dir_private (mem demo_mm) 0x100000 (free_pages (paddr_alloc demo_mm))"
    by (simp add: dir_private_def demo_mm_ok demo_empty_entry)
  show "mmu_walk 0x100000 (mem demo_mm) 0x80001000 = None"
    by (simp add: mmu_walk_def demo_mm_ok demo_empty_entry)
qed (simp_all add: demo_mm_ok PTE_W_def)

lemma page_count_up2:
  assumes "uint sz < 2 ^ 31"
  shows "unat (up2 sz MEM_PAGE_SIZE div MEM_PAGE_SIZE) = nat ((uint sz + 4095) div 4096)"
proof -
  have d: "w div MEM_PAGE_SIZE = drop_bit 12 w" for w :: u32
    unfolding MEM_PAGE_SIZE_def drop_bit_eq_div by simp
  have u: "up2 sz MEM_PAGE_SIZE = (sz + 4095) AND NOT (mask 12)"
    by (simp add: up2_def MEM_PAGE_SIZE_def mask_eq_exp_minus_1 add.commute)
  have "drop_bit 12 (w AND NOT (mask 12)) = drop_bit 12 w" for w :: u32
    by (rule bit_word_eqI) (auto simp: bit_simps dest: bit_imp_le_length)
  then have "unat (up2 sz MEM_PAGE_SIZE div MEM_PAGE_SIZE) = unat (drop_bit 12 (sz + 4095))"
    unfolding d u by (simp only:)
  also have "\<dots> = unat (sz + 4095) div 2 ^ 12"
    unfolding unat_drop_bit_eq by (simp only: drop_bit_eq_div)
  also have "int (unat (sz + 4095)) = uint sz + 4095"
    using assms uint_word_ariths(1)[of sz 4095] by simp
  then have "unat (sz + 4095) = nat (uint sz + 4095)" by linarith
  finally show ?thesis by (simp add: nat_div_distrib)
qed

text \<open>Range allocation reports no failure: whenever it returns, it returns 0, whether or not
  the pages were there (its callers test for a negative result).\<close>

theorem alloc_never_fails:
  assumes "memory_alloc_for_page_dir pd va sz perm s = Some (r, s')"
  shows "r = 0"
  using assms alloc_range_zero unfolding memory_alloc_for_page_dir_def Let_def by blast

text \<open>So the heap grows without memory: with no free page, \<^verbatim>\<open>sys_sbrk\<close> still moves the
  end of a page-aligned heap by the whole increment and returns the old end, having mapped
  nothing.\<close>

theorem sbrk_without_memory:
  assumes "mm_pool_ok s" and "free_pages (paddr_alloc s) = {}" and "curr_task s = Some t"
    and "heap_end (tasks s t) mod MEM_PAGE_SIZE = 0" and "0 < incr" and "incr < 2 ^ 31"
  shows "\<exists>s'. sys_sbrk incr s = Some (heap_end (tasks s t), s')
    \<and> heap_end (tasks s' t) = heap_end (tasks s t) + word_of_int incr \<and> mem s' = mem s"
proof -
  let ?pd = "ts_cr3 (tss (tasks s t))" and ?h = "heap_end (tasks s t)"
  have u: "uint (word_of_int incr :: u32) = incr" using assms(5,6) by (simp only: uint_word_of_int) simp
  have n: "0 < unat (up2 (word_of_int incr) MEM_PAGE_SIZE div MEM_PAGE_SIZE)"
    using page_count_up2[of "word_of_int incr"] assms(5,6) unfolding u by simp
  obtain s1 where s1: "alloc_range (unat (up2 (word_of_int incr) MEM_PAGE_SIZE div MEM_PAGE_SIZE)) 0
      ?pd ?h ?h (PTE_P OR PTE_U OR PTE_W) s = Some (0, s1)" "same_mm s s1"
    using alloc_range_exhausted[OF assms(1,2) n] by blast
  then have al: "memory_alloc_page_for ?h (word_of_int incr) (PTE_P OR PTE_U OR PTE_W) s = Some (0, s1)"
    using assms(3) by (simp add: memory_alloc_page_for_def current_cr3_def task_current_def
        memory_alloc_for_page_dir_def)
  have "sys_sbrk incr s = Some (?h, set_heap_end t (?h + word_of_int incr) s1)"
    using assms(3-5) al by (simp add: sys_sbrk_def task_current_def Let_def)
  moreover have "tasks s1 = tasks s" "mem s1 = mem s"
    using same_mmD[OF s1(2)] by simp_all
  ultimately show ?thesis by (simp add: set_heap_end_def upd_task_def)
qed

text \<open>The pool of the demo state with every page in use.\<close>

definition demo_full :: mm where
  "demo_full = demo_mm\<lparr>paddr_alloc := demo_pool\<lparr>abitmap := \<lparr>bit_count = 8, bits = [0xFF]\<rparr>\<rparr>\<rparr>"

lemma demo_full_ok: "mm_pool_ok demo_full" "free_pages (paddr_alloc demo_full) = {}"
proof -
  show "mm_pool_ok demo_full"
    by (simp add: mm_pool_ok_def demo_full_def pool_ok_def demo_pool_def bm_ok_def dll_def blank_list_def)
  have "(0xFF :: u8) = mask 8" by (simp add: mask_eq_exp_minus_1)
  then have "bit (0xFF :: u8) n" if "n < 8" for n using that by (simp only: bit_mask_iff) simp
  then have "bm_bit \<lparr>bit_count = 8, bits = [0xFF]\<rparr> i" if "0 \<le> i" "i < 8" for i
    using that by (simp add: bm_bit_def)
  then show "free_pages (paddr_alloc demo_full) = {}"
    by (auto simp: free_pages_def demo_full_def)
qed

lemma demo_full_task: "curr_task demo_full = Some First_task" "heap_end (tasks demo_full First_task) = 0"
  by (simp_all add: demo_full_def demo_mm_def sched.defs mm.defs demo_sched_def blank_task_def)

theorem alloc_never_fails_witness:
  "\<exists>r s'. memory_alloc_for_page_dir 0x100000 0x80000000 8192 PTE_W demo_full = Some (r, s') \<and> r = 0"
proof -
  have "0 < unat (up2 8192 MEM_PAGE_SIZE div MEM_PAGE_SIZE)" by (subst page_count_up2) simp_all
  from alloc_range_exhausted[OF demo_full_ok this] obtain s' where
    "memory_alloc_for_page_dir 0x100000 0x80000000 8192 PTE_W demo_full = Some (0, s')"
    unfolding memory_alloc_for_page_dir_def Let_def by blast
  with alloc_never_fails[OF this] show ?thesis by blast
qed

theorem sbrk_without_memory_witness:
  "\<exists>s'. sys_sbrk 100 demo_full = Some (heap_end (tasks demo_full First_task), s')
    \<and> heap_end (tasks s' First_task) = heap_end (tasks demo_full First_task) + word_of_int 100
    \<and> mem s' = mem demo_full"
  by (rule sbrk_without_memory[OF demo_full_ok]) (simp_all add: demo_full_task)

end
