(* ===== verification/Cpu.thy ===== *)
theory Cpu
  imports Memory
begin

text \<open>
  Segment and gate descriptors (\<^verbatim>\<open>kernel/cpu/cpu.c\<close>), the interrupt table and the interrupt
  controller (\<^verbatim>\<open>kernel/cpu/irq.c\<close>), and the port instructions of \<^verbatim>\<open>comm/cpu_instr.h\<close>.

  The devices behind the ports are the component \<open>hw\<close> of the state, of any type; what a port
  instruction does to them is the argument \<open>ports\<close>.  Entry points are addresses.  Loading the
  table registers (\<^verbatim>\<open>lgdt\<close>, \<^verbatim>\<open>lidt\<close>) has no effect on the modelled state.  An index outside a
  table is \<open>None\<close>.
\<close>

section \<open>State and ports\<close>

record segment_desc_t =
  limit15_0 :: u16
  base15_0 :: u16
  base23_16 :: u8
  sattr :: u16
  base31_24 :: u8

record gate_desc_t =
  offset15_0 :: u16
  gselector :: u16
  gattr :: u16
  offset31_16 :: u16

record 'h cpu = mm +
  gdt_table :: "segment_desc_t list"
  gdt_mutex :: mutex_t
  idt_table :: "gate_desc_t list"
  hw :: 'h

record 'h ports =
  p_inb :: "u16 \<Rightarrow> 'h \<Rightarrow> u8 \<times> 'h"
  p_outb :: "u16 \<Rightarrow> u8 \<Rightarrow> 'h \<Rightarrow> 'h"
  p_inw :: "u16 \<Rightarrow> 'h \<Rightarrow> u16 \<times> 'h"
  p_outw :: "u16 \<Rightarrow> u16 \<Rightarrow> 'h \<Rightarrow> 'h"

definition inb :: "'h ports \<Rightarrow> u16 \<Rightarrow> ('h, 'm) cpu_scheme \<Rightarrow> u8 \<times> ('h, 'm) cpu_scheme" where
  "inb io port s = (case p_inb io port (hw s) of (v, h) \<Rightarrow> (v, s\<lparr>hw := h\<rparr>))"

definition outb :: "'h ports \<Rightarrow> u16 \<Rightarrow> u8 \<Rightarrow> ('h, 'm) cpu_scheme \<Rightarrow> ('h, 'm) cpu_scheme" where
  "outb io port v s = s\<lparr>hw := p_outb io port v (hw s)\<rparr>"

definition inw :: "'h ports \<Rightarrow> u16 \<Rightarrow> ('h, 'm) cpu_scheme \<Rightarrow> u16 \<times> ('h, 'm) cpu_scheme" where
  "inw io port s = (case p_inw io port (hw s) of (v, h) \<Rightarrow> (v, s\<lparr>hw := h\<rparr>))"

definition outw :: "'h ports \<Rightarrow> u16 \<Rightarrow> u16 \<Rightarrow> ('h, 'm) cpu_scheme \<Rightarrow> ('h, 'm) cpu_scheme" where
  "outw io port v s = s\<lparr>hw := p_outw io port v (hw s)\<rparr>"

definition GDT_TABLE_SIZE :: nat where "GDT_TABLE_SIZE = 256"
definition KERNEL_SELECTOR_CS :: int where "KERNEL_SELECTOR_CS = 8"
definition KERNEL_SELECTOR_DS :: int where "KERNEL_SELECTOR_DS = 16"
definition SELECTOR_SYSCALL :: int where "SELECTOR_SYSCALL = 24"
definition SYSCALL_PARAM_COUNT :: u16 where "SYSCALL_PARAM_COUNT = 5"
definition SEG_G :: u16 where "SEG_G = 0x8000"
definition SEG_D :: u16 where "SEG_D = 0x4000"
definition SEG_P_PRESENT :: u16 where "SEG_P_PRESENT = 0x80"
definition SEG_DPL_0 :: u16 where "SEG_DPL_0 = 0"
definition SEG_DPL_3 :: u16 where "SEG_DPL_3 = 0x60"
definition SEG_CPL_3 :: int where "SEG_CPL_3 = 3"
definition SEG_S_NORMAL :: u16 where "SEG_S_NORMAL = 0x10"
definition SEG_TYPE_CODE :: u16 where "SEG_TYPE_CODE = 8"
definition SEG_TYPE_DATA :: u16 where "SEG_TYPE_DATA = 0"
definition SEG_TYPE_TSS :: u16 where "SEG_TYPE_TSS = 9"
definition SEG_TYPE_RW :: u16 where "SEG_TYPE_RW = 2"
definition GATE_TYPE_INT :: u16 where "GATE_TYPE_INT = 0xE00"
definition GATE_TYPE_SYSCALL :: u16 where "GATE_TYPE_SYSCALL = 0xC00"
definition GATE_P_PRESENT :: u16 where "GATE_P_PRESENT = 0x8000"
definition GATE_DPL_0 :: u16 where "GATE_DPL_0 = 0"
definition GATE_DPL_3 :: u16 where "GATE_DPL_3 = 0x6000"

section \<open>Descriptors\<close>

definition set_gdt :: "int \<Rightarrow> segment_desc_t \<Rightarrow> ('h, 'm) cpu_scheme \<Rightarrow> ('h, 'm) cpu_scheme option" where
  "set_gdt i d s =
    (if 0 \<le> i \<and> i < int (length (gdt_table s)) then Some (s\<lparr>gdt_table := (gdt_table s)[nat i := d]\<rparr>) else None)"

definition segment_desc :: "u32 \<Rightarrow> u32 \<Rightarrow> u16 \<Rightarrow> segment_desc_t" where
  "segment_desc base limit attr =
    (let (attr, limit) = (if limit > 0xFFFFF then (attr OR 0x8000, limit div 0x1000) else (attr, limit))
     in \<lparr>limit15_0 = ucast (limit AND 0xFFFF), base15_0 = ucast (base AND 0xFFFF),
         base23_16 = ucast (drop_bit 16 base AND 0xFF),
         sattr = attr OR ucast (push_bit 8 (drop_bit 16 limit AND 0xF)),
         base31_24 = ucast (drop_bit 24 base AND 0xFF)\<rparr>)"

definition segment_desc_set ::
    "int \<Rightarrow> u32 \<Rightarrow> u32 \<Rightarrow> u16 \<Rightarrow> ('h, 'm) cpu_scheme \<Rightarrow> ('h, 'm) cpu_scheme option" where
  "segment_desc_set selector base limit attr s = set_gdt (selector div 8) (segment_desc base limit attr) s"

definition gate_desc_set :: "u16 \<Rightarrow> u32 \<Rightarrow> u16 \<Rightarrow> gate_desc_t" where
  "gate_desc_set selector offset attr =
    \<lparr>offset15_0 = ucast (offset AND 0xFFFF), gselector = selector, gattr = attr,
     offset31_16 = ucast (drop_bit 16 offset AND 0xFFFF)\<rparr>"

text \<open>A gate written into an entry of the descriptor table: the same eight bytes.\<close>

definition gate_as_segment :: "gate_desc_t \<Rightarrow> segment_desc_t" where
  "gate_as_segment g =
    \<lparr>limit15_0 = offset15_0 g, base15_0 = gselector g, base23_16 = ucast (gattr g),
     sattr = drop_bit 8 (gattr g) OR push_bit 8 (offset31_16 g),
     base31_24 = ucast (drop_bit 8 (offset31_16 g))\<rparr>"

primrec clear_gdt :: "nat \<Rightarrow> ('h, 'm) cpu_scheme \<Rightarrow> ('h, 'm) cpu_scheme option" where
  "clear_gdt 0 s = Some s"
| "clear_gdt (Suc n) s =
    do {
      s \<leftarrow> clear_gdt n s;
      segment_desc_set (8 * int n) 0 0 0 s
    }"

text \<open>\<open>syscall_entry\<close> is the address of \<^verbatim>\<open>exception_handle_syscall\<close>.\<close>

definition init_gdt :: "u32 \<Rightarrow> ('h, 'm) cpu_scheme \<Rightarrow> ('h, 'm) cpu_scheme option" where
  "init_gdt syscall_entry s =
    do {
      s \<leftarrow> clear_gdt GDT_TABLE_SIZE s;
      s \<leftarrow> segment_desc_set KERNEL_SELECTOR_DS 0 0xFFFFFFFF
             (SEG_P_PRESENT OR SEG_DPL_0 OR SEG_S_NORMAL OR SEG_TYPE_DATA OR SEG_TYPE_RW OR SEG_D) s;
      s \<leftarrow> segment_desc_set KERNEL_SELECTOR_CS 0 0xFFFFFFFF
             (SEG_P_PRESENT OR SEG_DPL_0 OR SEG_S_NORMAL OR SEG_TYPE_CODE OR SEG_TYPE_RW OR SEG_D) s;
      set_gdt (SELECTOR_SYSCALL div 8)
        (gate_as_segment (gate_desc_set (word_of_int KERNEL_SELECTOR_CS) syscall_entry
          (GATE_P_PRESENT OR GATE_DPL_3 OR GATE_TYPE_SYSCALL OR SYSCALL_PARAM_COUNT))) s
    }"

text \<open>The first descriptor from index \<open>i\<close> on whose attributes are zero.\<close>

fun find_free_desc :: "nat \<Rightarrow> segment_desc_t list \<Rightarrow> nat option" where
  "find_free_desc i [] = None"
| "find_free_desc i (d # ds) = (if sattr d = 0 then Some i else find_free_desc (Suc i) ds)"

definition gdt_alloc_desc :: "('h, 'm) cpu_scheme \<Rightarrow> (int \<times> ('h, 'm) cpu_scheme) option" where
  "gdt_alloc_desc s =
    do {
      (m, s) \<leftarrow> mutex_enter (gdt_mutex s) s;
      let sel = (case find_free_desc 1 (drop 1 (gdt_table s)) of Some i \<Rightarrow> 8 * int i | None \<Rightarrow> - 1);
      (m, s) \<leftarrow> mutex_unlock m s;
      Some (sel, s\<lparr>gdt_mutex := m\<rparr>)
    }"

text \<open>\<^verbatim>\<open>sel / sizeof\<close> is an unsigned division.\<close>

definition gdt_free_sel :: "int \<Rightarrow> ('h, 'm) cpu_scheme \<Rightarrow> ('h, 'm) cpu_scheme option" where
  "gdt_free_sel sel s =
    do {
      (m, s) \<leftarrow> mutex_enter (gdt_mutex s) s;
      let i = sel mod 2 ^ 32 div 8;
      s \<leftarrow> (if i < int (length (gdt_table s))
            then Some (s\<lparr>gdt_table := (gdt_table s)[nat i := (gdt_table s ! nat i)\<lparr>sattr := 0\<rparr>]\<rparr>) else None);
      (m, s) \<leftarrow> mutex_unlock m s;
      Some (s\<lparr>gdt_mutex := m\<rparr>)
    }"

definition cpu_init :: "u32 \<Rightarrow> ('h, 'm) cpu_scheme \<Rightarrow> ('h, 'm) cpu_scheme option" where
  "cpu_init syscall_entry s = init_gdt syscall_entry (s\<lparr>gdt_mutex := mutex_init (gdt_mutex s)\<rparr>)"

section \<open>Interrupts\<close>

definition IDT_TABLE_NR :: int where "IDT_TABLE_NR = 128"
definition IRQ_PIC_START :: int where "IRQ_PIC_START = 0x20"
definition PIC0_ICW1 :: u16 where "PIC0_ICW1 = 0x20"
definition PIC0_ICW2 :: u16 where "PIC0_ICW2 = 0x21"
definition PIC0_ICW3 :: u16 where "PIC0_ICW3 = 0x21"
definition PIC0_ICW4 :: u16 where "PIC0_ICW4 = 0x21"
definition PIC0_OCW2 :: u16 where "PIC0_OCW2 = 0x20"
definition PIC0_IMR :: u16 where "PIC0_IMR = 0x21"
definition PIC1_ICW1 :: u16 where "PIC1_ICW1 = 0xA0"
definition PIC1_ICW2 :: u16 where "PIC1_ICW2 = 0xA1"
definition PIC1_ICW3 :: u16 where "PIC1_ICW3 = 0xA1"
definition PIC1_ICW4 :: u16 where "PIC1_ICW4 = 0xA1"
definition PIC1_OCW2 :: u16 where "PIC1_OCW2 = 0xA0"
definition PIC1_IMR :: u16 where "PIC1_IMR = 0xA1"
definition PIC_ICW1_ICW4 :: u8 where "PIC_ICW1_ICW4 = 1"
definition PIC_ICW1_ALWAYS_1 :: u8 where "PIC_ICW1_ALWAYS_1 = 0x10"
definition PIC_ICW4_8086 :: u8 where "PIC_ICW4_8086 = 1"
definition PIC_OCW2_EOI :: u8 where "PIC_OCW2_EOI = 0x20"

text \<open>The exceptions with a handler of their own, by number, and the entry points.\<close>

datatype exception =
  E_divide | E_Debug | E_NMI | E_breakpoint | E_overflow | E_bound_range | E_invalid_opcode
| E_device_unavailable | E_double_fault | E_invalid_tss | E_segment_not_present
| E_stack_segment_fault | E_general_protection | E_page_fault | E_fpu_error | E_alignment_check
| E_machine_check | E_smd_exception | E_virtual_exception | E_control_exception | E_unknown

definition exception_table :: "(int \<times> exception) list" where
  "exception_table =
    [(0, E_divide), (1, E_Debug), (2, E_NMI), (3, E_breakpoint), (4, E_overflow), (5, E_bound_range),
     (6, E_invalid_opcode), (7, E_device_unavailable), (8, E_double_fault), (10, E_invalid_tss),
     (11, E_segment_not_present), (12, E_stack_segment_fault), (13, E_general_protection),
     (14, E_page_fault), (16, E_fpu_error), (17, E_alignment_check), (18, E_machine_check),
     (19, E_smd_exception), (20, E_virtual_exception), (21, E_control_exception)]"

definition int_gate :: "u32 \<Rightarrow> gate_desc_t" where
  "int_gate entry = gate_desc_set (word_of_int KERNEL_SELECTOR_CS) entry
     (GATE_P_PRESENT OR GATE_DPL_0 OR GATE_TYPE_INT)"

definition irq_install :: "int \<Rightarrow> u32 \<Rightarrow> ('h, 'm) cpu_scheme \<Rightarrow> (int \<times> ('h, 'm) cpu_scheme) option" where
  "irq_install irq_num entry s =
    (if irq_num \<ge> IDT_TABLE_NR then Some (- 1, s)
     else if 0 \<le> irq_num \<and> irq_num < int (length (idt_table s))
     then Some (0, s\<lparr>idt_table := (idt_table s)[nat irq_num := int_gate entry]\<rparr>)
     else None)"

primrec irq_install_all ::
    "(exception \<Rightarrow> u32) \<Rightarrow> (int \<times> exception) list \<Rightarrow> ('h, 'm) cpu_scheme \<Rightarrow> ('h, 'm) cpu_scheme option" where
  "irq_install_all entries [] s = Some s"
| "irq_install_all entries (x # xs) s =
    do {
      (_, s) \<leftarrow> irq_install (fst x) (entries (snd x)) s;
      irq_install_all entries xs s
    }"

definition irq_mask_bit :: "int \<Rightarrow> u8" where
  "irq_mask_bit n = push_bit (nat n) 1"

definition irq_enable :: "'h ports \<Rightarrow> int \<Rightarrow> ('h, 'm) cpu_scheme \<Rightarrow> ('h, 'm) cpu_scheme" where
  "irq_enable io irq_num s =
    (if irq_num < IRQ_PIC_START then s
     else let irq_num = irq_num - IRQ_PIC_START
          in if irq_num < 8
             then let (v, s) = inb io PIC0_IMR s in outb io PIC0_IMR (v AND NOT (irq_mask_bit irq_num)) s
             else let irq_num = irq_num - 8; (v, s) = inb io PIC1_IMR s
                  in outb io PIC1_IMR (v AND NOT (irq_mask_bit irq_num)) s)"

definition irq_disable :: "'h ports \<Rightarrow> int \<Rightarrow> ('h, 'm) cpu_scheme \<Rightarrow> ('h, 'm) cpu_scheme" where
  "irq_disable io irq_num s =
    (if irq_num < IRQ_PIC_START then s
     else let irq_num = irq_num - IRQ_PIC_START
          in if irq_num < 8
             then let (v, s) = inb io PIC0_IMR s in outb io PIC0_IMR (v OR irq_mask_bit irq_num) s
             else let irq_num = irq_num - 8; (v, s) = inb io PIC1_IMR s
                  in outb io PIC1_IMR (v OR irq_mask_bit irq_num) s)"

definition pic_send_eoi :: "'h ports \<Rightarrow> int \<Rightarrow> ('h, 'm) cpu_scheme \<Rightarrow> ('h, 'm) cpu_scheme" where
  "pic_send_eoi io irq_num s =
    (let irq_num = irq_num - IRQ_PIC_START;
         s = (if irq_num \<ge> 8 then outb io PIC1_OCW2 PIC_OCW2_EOI s else s)
     in outb io PIC0_OCW2 PIC_OCW2_EOI s)"

definition pic_init :: "'h ports \<Rightarrow> ('h, 'm) cpu_scheme \<Rightarrow> ('h, 'm) cpu_scheme" where
  "pic_init io s =
    (let s = outb io PIC0_ICW1 (PIC_ICW1_ALWAYS_1 OR PIC_ICW1_ICW4) s;
         s = outb io PIC0_ICW2 (word_of_int IRQ_PIC_START) s;
         s = outb io PIC0_ICW3 (push_bit 2 1) s;
         s = outb io PIC0_ICW4 PIC_ICW4_8086 s;
         s = outb io PIC1_ICW1 (PIC_ICW1_ICW4 OR PIC_ICW1_ALWAYS_1) s;
         s = outb io PIC1_ICW2 (word_of_int (IRQ_PIC_START + 8)) s;
         s = outb io PIC1_ICW3 2 s;
         s = outb io PIC1_ICW4 PIC_ICW4_8086 s;
         s = outb io PIC0_IMR (0xFF AND NOT (push_bit 2 1)) s
     in outb io PIC1_IMR 0xFF s)"

definition irq_init :: "'h ports \<Rightarrow> (exception \<Rightarrow> u32) \<Rightarrow> ('h, 'm) cpu_scheme \<Rightarrow> ('h, 'm) cpu_scheme option" where
  "irq_init io entries s =
    do {
      let s = s\<lparr>idt_table := map (\<lambda>_. int_gate (entries E_unknown)) (idt_table s)\<rparr>;
      s \<leftarrow> irq_install_all entries exception_table s;
      Some (pic_init io s)
    }"

section \<open>What the descriptors say\<close>

text \<open>The base and the limit as the processor reads them.\<close>

definition seg_base :: "segment_desc_t \<Rightarrow> u32" where
  "seg_base d = ucast (base15_0 d) OR push_bit 16 (ucast (base23_16 d)) OR push_bit 24 (ucast (base31_24 d))"

definition seg_limit :: "segment_desc_t \<Rightarrow> u32" where
  "seg_limit d =
    (let l = ucast (limit15_0 d) OR push_bit 16 (ucast (drop_bit 8 (sattr d) AND 0xF))
     in if bit (sattr d) 15 then push_bit 12 l OR 0xFFF else l)"

definition gate_offset :: "gate_desc_t \<Rightarrow> u32" where
  "gate_offset g = ucast (offset15_0 g) OR push_bit 16 (ucast (offset31_16 g))"

lemma low_masks: "(0xFFFF :: u32) = mask 16" "(0xFFF :: u32) = mask 12" "(0xFF :: u32) = mask 8"
  "(0xF :: u32) = mask 4" "(0xF :: u16) = mask 4"
  by (simp_all add: mask_eq_exp_minus_1)

lemma seg_base_desc: "seg_base (segment_desc base limit attr) = base"
  unfolding seg_base_def segment_desc_def Let_def low_masks
proof (rule bit_word_eqI, goal_cases)
  case (1 n)
  consider "n < 16" | "16 \<le> n" "n < 24" | "24 \<le> n" by linarith
  then show ?case using 1 by cases (auto simp: bit_simps split: if_splits)
qed

lemma gate_offset_set: "gate_offset (gate_desc_set sel offset attr) = offset"
  unfolding gate_offset_def gate_desc_set_def low_masks
  by (rule bit_word_eqI) (auto simp: bit_simps)

lemma seg_limit_split:
  "ucast (ucast (l AND mask 16 :: u32) :: u16) OR push_bit 16 (ucast (ucast (drop_bit 16 l AND mask 4) :: u16))
    = take_bit 20 (l :: u32)"
  by (rule bit_word_eqI) (auto simp: bit_simps)

lemma seg_attr_limit:
  assumes "attr AND 0xF00 = (0 :: u16)"
  shows "drop_bit 8 ((attr OR 0x8000) OR ucast (push_bit 8 (l AND mask 4 :: u32))) AND mask 4 = (ucast (l AND mask 4) :: u16)"
    and "drop_bit 8 (attr OR ucast (push_bit 8 (l AND mask 4 :: u32))) AND mask 4 = (ucast (l AND mask 4) :: u16)"
proof -
  have e: "(0xF00 :: u16) = push_bit 8 (mask 4)" "(0x8000 :: u16) = push_bit 15 1" by (simp_all add: mask_eq_exp_minus_1)
  have "\<not> bit attr (8 + n)" if "n < 4" for n
  proof -
    have "\<not> bit (attr AND push_bit 8 (mask 4)) (8 + n)" using assms by (simp add: e)
    then show ?thesis using that by (auto simp: bit_simps)
  qed
  moreover have "\<not> bit (128 :: u16) n" if "n < 4" for n
  proof -
    have "(128 :: u16) = push_bit 7 1" by simp
    then show ?thesis using that by (simp only: bit_simps) simp
  qed
  ultimately show "drop_bit 8 ((attr OR 0x8000) OR ucast (push_bit 8 (l AND mask 4 :: u32))) AND mask 4 = (ucast (l AND mask 4) :: u16)"
    "drop_bit 8 (attr OR ucast (push_bit 8 (l AND mask 4 :: u32))) AND mask 4 = (ucast (l AND mask 4) :: u16)"
    unfolding e by (auto intro!: bit_word_eqI simp: bit_simps)
qed

lemma seg_limit_desc:
  assumes "attr AND 0x8F00 = 0"
  shows "seg_limit (segment_desc base limit attr) = (if limit \<le> 0xFFFFF then limit else limit OR 0xFFF)"
proof -
  have "attr AND 0xF00 = (attr AND 0x8F00) AND 0xF00" by (simp add: and.assoc)
  then have a: "attr AND 0xF00 = 0" using assms by simp
  have "\<not> bit (attr AND 0x8F00) 15" using assms by simp
  moreover have "bit (0x8F00 :: u16) 15" by (simp add: bit_iff_odd)
  ultimately have b: "\<not> bit attr 15" unfolding bit_and_iff by simp
  have c: "bit (0x8000 :: u16) 15" by (simp add: bit_iff_odd)
  show ?thesis
  proof (cases "limit \<le> 0xFFFFF")
    case True
    then have "take_bit 20 limit = limit" by (simp add: word_unat_eq_iff unsigned_take_bit_eq take_bit_nat_eq_self word_le_nat_alt)
    moreover have "\<not> bit (attr OR ucast (push_bit 8 (drop_bit 16 limit AND mask 4))) 15"
      using b by (simp add: bit_simps)
    moreover have "limit15_0 (segment_desc base limit attr) = ucast (limit AND mask 16)"
      "sattr (segment_desc base limit attr) = attr OR ucast (push_bit 8 (drop_bit 16 limit AND mask 4))"
      using True by (auto simp: segment_desc_def low_masks[symmetric] not_less)
    ultimately show ?thesis using True
      unfolding seg_limit_def Let_def by (simp only: low_masks seg_attr_limit(2)[OF a] seg_limit_split if_False if_True)
  next
    case False
    have d: "limit div 0x1000 = drop_bit 12 limit" by (simp add: drop_bit_eq_div)
    have "take_bit 20 (drop_bit 12 limit) = drop_bit 12 limit"
      by (rule bit_word_eqI) (auto simp: bit_simps dest: bit_imp_le_length)
    moreover have "push_bit 12 (drop_bit 12 limit) OR mask 12 = limit OR mask 12"
      by (rule bit_word_eqI) (auto simp: bit_simps)
    moreover have "limit15_0 (segment_desc base limit attr) = ucast (drop_bit 12 limit AND mask 16)"
      "sattr (segment_desc base limit attr)
        = (attr OR 0x8000) OR ucast (push_bit 8 (drop_bit 16 (drop_bit 12 limit) AND mask 4))"
      using False by (auto simp: segment_desc_def low_masks[symmetric] d[symmetric])
    moreover have "bit ((attr OR 0x8000) OR ucast (push_bit 8 (drop_bit 16 (drop_bit 12 limit) AND mask 4))) 15"
      unfolding bit_or_iff using c by simp
    ultimately show ?thesis using False
      unfolding seg_limit_def Let_def by (simp only: low_masks seg_attr_limit(1)[OF a] seg_limit_split if_False if_True)
  qed
qed

text \<open>A descriptor means what was asked for.  Whatever base, limit and attributes
  \<^verbatim>\<open>segment_desc_set\<close> is given (attributes with the four limit bits and the granularity bit
  clear), the processor reads back the same base, and the same limit up to \<^verbatim>\<open>0xFFFFF\<close>; a
  larger limit is rounded up to the end of its page.
\<close>

theorem segment_decodes:
  assumes "segment_desc_set selector base limit attr s = Some s'" and "attr AND 0x8F00 = 0"
  shows "seg_base (gdt_table s' ! nat (selector div 8)) = base
    \<and> seg_limit (gdt_table s' ! nat (selector div 8)) = (if limit \<le> 0xFFFFF then limit else limit OR 0xFFF)"
proof -
  have "gdt_table s' ! nat (selector div 8) = segment_desc base limit attr"
    using assms(1) by (auto simp: segment_desc_set_def set_gdt_def split: if_splits)
  then show ?thesis by (simp add: seg_base_desc seg_limit_desc[OF assms(2)])
qed

section \<open>Allocating descriptors\<close>

lemma find_free_desc_Some:
  "find_free_desc i ds = Some j \<Longrightarrow> i \<le> j \<and> j < i + length ds \<and> sattr (ds ! (j - i)) = 0
    \<and> (\<forall>k < j - i. sattr (ds ! k) \<noteq> 0)"
proof (induction ds arbitrary: i)
  case (Cons d ds)
  show ?case
  proof (cases "sattr d = 0")
    case False
    then have "find_free_desc (Suc i) ds = Some j" using Cons.prems by simp
    note IH = Cons.IH[OF this]
    then obtain n where n: "j = Suc i + n" using le_Suc_ex by blast
    then have "j - i = Suc n" by simp
    with IH n False show ?thesis by (auto simp: less_Suc_eq_0_disj nth_Cons')
  qed (use Cons.prems in simp)
qed simp

lemma find_free_desc_None: "find_free_desc i ds = None \<longleftrightarrow> (\<forall>d \<in> set ds. sattr d \<noteq> 0)"
  by (induction ds arbitrary: i) auto

lemma gdt_alloc_result:
  assumes "mutex_free (gdt_mutex s) s"
  shows "gdt_alloc_desc s = Some (case find_free_desc 1 (drop 1 (gdt_table s)) of Some i \<Rightarrow> 8 * int i | None \<Rightarrow> - 1,
      s\<lparr>gdt_mutex := (gdt_mutex s)\<lparr>locked_count := 0, owner := None\<rparr>\<rparr>)"
    and "mutex_free ((gdt_mutex s)\<lparr>locked_count := 0, owner := None\<rparr>) s"
  using mutex_section[OF assms, of s] by (simp_all add: gdt_alloc_desc_def)

text \<open>
  The lock is dropped before the caller fills the descriptor, which stays free until then:
  the next allocation returns it again.
\<close>

lemma gdt_alloc_not_reserved:
  assumes "mutex_free (gdt_mutex s) s" and "gdt_alloc_desc s = Some (sel, s1)"
  shows "\<exists>s2. gdt_alloc_desc s1 = Some (sel, s2)"
  using assms(2) gdt_alloc_result[OF assms(1)] gdt_alloc_result(1)[of s1]
  by (auto simp: mutex_free_def)

definition demo_cpu :: "'h \<Rightarrow> 'h cpu" where
  "demo_cpu h = mm.extend demo_mm
     \<lparr>gdt_table = replicate GDT_TABLE_SIZE (segment_desc 0 0 0),
      gdt_mutex = \<lparr>locked_count = 0, owner = None, wait_list = blank_list\<rparr>,
      idt_table = replicate (nat IDT_TABLE_NR) (int_gate 0), hw = h\<rparr>"

theorem segment_decodes_witness:
  "\<exists>s'. segment_desc_set 8 0x1000 0x123456 0x409A (demo_cpu ()) = Some s'
    \<and> seg_base (gdt_table s' ! 1) = 0x1000 \<and> seg_limit (gdt_table s' ! 1) = 0x123FFF"
proof -
  obtain s' where s': "segment_desc_set 8 0x1000 0x123456 0x409A (demo_cpu ()) = Some s'"
    by (simp add: segment_desc_set_def set_gdt_def demo_cpu_def mm.defs GDT_TABLE_SIZE_def)
  with segment_decodes[OF this] show ?thesis by simp
qed

end
