(* ===== verification/Vfs.thy ===== *)
theory Vfs
  imports Cpu Klib
begin

text \<open>
  Open files: the system file table (\<^verbatim>\<open>kernel/fs/file.c\<close>), the descriptor table of a
  task (\<^verbatim>\<open>task_alloc_fd\<close> and its companions in \<^verbatim>\<open>kernel/core/task.c\<close>) and the
  virtual file system calls of \<^verbatim>\<open>kernel/fs/fs.c\<close>.

  A \<open>file_t *\<close> is an index into the file table, an \<open>fs_t *\<close> an index into the table of
  file systems.  The operation table of a file system type is a record of functions over
  the state below the file system (\<open>'w\<close>: devices, disk, memory); the calls take the table
  as the argument \<open>ops\<close>.  Paths are the characters of C strings without the terminator.
  Log output is not modelled.
\<close>

section \<open>Data\<close>

datatype file_type = FILE_UNKNOWN | FILE_TTY | FILE_DIR | FILE_NORMAL

datatype fs_type = FS_DEVFS | FS_FATFS16

record file_t =
  file_name :: "u8 list"
  ftype :: file_type
  fsize :: u32
  fref :: int
  fdev_id :: int
  fpos :: int
  fmode :: int
  sblk :: int
  cblk :: int
  p_index :: int
  ffs :: "nat option"

record fs_t =
  mount_point :: "u8 list"
  fs_kind :: fs_type
  fs_op_type :: fs_type
  fs_dev_id :: int
  fs_mutex :: "mutex_t option"

text \<open>A directory stream and an entry read from it (\<^verbatim>\<open>applib/lib_syscall.h\<close>), passed by value.\<close>

record dirent =
  de_index :: int
  de_type :: int
  de_name :: "u8 list"
  de_size :: int

record DIR =
  dir_index :: int
  dir_dirent :: dirent

record 'w fs_op_t =
  op_mount :: "nat \<Rightarrow> fs_t \<Rightarrow> int \<Rightarrow> int \<Rightarrow> 'w \<Rightarrow> (int \<times> fs_t \<times> 'w) option"
  op_open :: "nat \<Rightarrow> u8 list option \<Rightarrow> file_t \<Rightarrow> 'w \<Rightarrow> (int \<times> file_t \<times> 'w) option"
  op_read :: "u32 \<Rightarrow> int \<Rightarrow> file_t \<Rightarrow> 'w \<Rightarrow> (int \<times> file_t \<times> 'w) option"
  op_write :: "u32 \<Rightarrow> int \<Rightarrow> file_t \<Rightarrow> 'w \<Rightarrow> (int \<times> file_t \<times> 'w) option"
  op_close :: "file_t \<Rightarrow> 'w \<Rightarrow> (file_t \<times> 'w) option"
  op_seek :: "file_t \<Rightarrow> u32 \<Rightarrow> int \<Rightarrow> 'w \<Rightarrow> (int \<times> file_t \<times> 'w) option"
  op_ioctl :: "(file_t \<Rightarrow> int \<Rightarrow> int \<Rightarrow> int \<Rightarrow> 'w \<Rightarrow> (int \<times> file_t \<times> 'w) option) option"
  op_opendir :: "nat \<Rightarrow> u8 list \<Rightarrow> DIR \<Rightarrow> 'w \<Rightarrow> ((int \<times> DIR) \<times> 'w) option"
  op_readdir :: "nat \<Rightarrow> DIR \<Rightarrow> dirent \<Rightarrow> 'w \<Rightarrow> ((int \<times> DIR \<times> dirent) \<times> 'w) option"
  op_closedir :: "nat \<Rightarrow> DIR \<Rightarrow> 'w \<Rightarrow> ((int \<times> DIR) \<times> 'w) option"
  op_unlink :: "nat \<Rightarrow> u8 list \<Rightarrow> 'w \<Rightarrow> (int \<times> 'w) option"

type_synonym 'w fs_ops = "fs_type \<Rightarrow> 'w fs_op_t"

record ('h, 'w) vfs = "'h cpu" +
  files :: "file_t list"
  file_alloc_mutex :: mutex_t
  fs_table :: "nat \<Rightarrow> fs_t"
  fs_links :: "nat links"
  mounted_list :: "nat list_t"
  free_list :: "nat list_t"
  root_fs :: nat
  world :: 'w

definition TASK_OFILE_NR :: int where "TASK_OFILE_NR = 128"
definition FILE_TABLE_SIZE :: nat where "FILE_TABLE_SIZE = 512"
definition FILE_NAME_SIZE :: nat where "FILE_NAME_SIZE = 32"
definition FS_TABLE_SIZE :: nat where "FS_TABLE_SIZE = 8"
definition FS_MOUNT_SIZE :: nat where "FS_MOUNT_SIZE = 512"

definition zero_file :: file_t where
  "zero_file = \<lparr>file_name = [], ftype = FILE_UNKNOWN, fsize = 0, fref = 0, fdev_id = 0, fpos = 0,
     fmode = 0, sblk = 0, cblk = 0, p_index = 0, ffs = None\<rparr>"

text \<open>What \<^verbatim>\<open>kernel_strncpy\<close> leaves in a name field of \<open>n\<close> bytes, read as a string.\<close>

definition name_copy :: "nat \<Rightarrow> u8 list \<Rightarrow> u8 list" where
  "name_copy n xs = (if length xs + 1 = n then butlast xs else take n xs)"

section \<open>The file table\<close>

fun find_free_file :: "nat \<Rightarrow> file_t list \<Rightarrow> nat option" where
  "find_free_file i [] = None"
| "find_free_file i (f # fs) = (if fref f = 0 then Some i else find_free_file (Suc i) fs)"

definition upd_file :: "nat \<Rightarrow> (file_t \<Rightarrow> file_t) \<Rightarrow> ('h, 'w, 'm) vfs_scheme \<Rightarrow> ('h, 'w, 'm) vfs_scheme" where
  "upd_file f g s = s\<lparr>files := (files s)[f := g (files s ! f)]\<rparr>"

definition file_lock :: "('h, 'w, 'm) vfs_scheme \<Rightarrow> ('h, 'w, 'm) vfs_scheme option" where
  "file_lock s = do { (m, s) \<leftarrow> mutex_enter (file_alloc_mutex s) s; Some (s\<lparr>file_alloc_mutex := m\<rparr>) }"

definition file_unlock :: "('h, 'w, 'm) vfs_scheme \<Rightarrow> ('h, 'w, 'm) vfs_scheme option" where
  "file_unlock s = do { (m, s) \<leftarrow> mutex_unlock (file_alloc_mutex s) s; Some (s\<lparr>file_alloc_mutex := m\<rparr>) }"

definition file_alloc :: "('h, 'w, 'm) vfs_scheme \<Rightarrow> (nat option \<times> ('h, 'w, 'm) vfs_scheme) option" where
  "file_alloc s =
    do {
      s \<leftarrow> file_lock s;
      let f = find_free_file 0 (files s);
      let s = (case f of None \<Rightarrow> s | Some i \<Rightarrow> upd_file i (\<lambda>_. zero_file\<lparr>fref := 1\<rparr>) s);
      s \<leftarrow> file_unlock s;
      Some (f, s)
    }"

definition file_free :: "nat \<Rightarrow> ('h, 'w, 'm) vfs_scheme \<Rightarrow> ('h, 'w, 'm) vfs_scheme option" where
  "file_free f s =
    do {
      s \<leftarrow> file_lock s;
      let s = (if fref (files s ! f) \<noteq> 0 then upd_file f (\<lambda>x. x\<lparr>fref := fref x - 1\<rparr>) s else s);
      file_unlock s
    }"

definition file_inc_ref :: "nat \<Rightarrow> ('h, 'w, 'm) vfs_scheme \<Rightarrow> ('h, 'w, 'm) vfs_scheme option" where
  "file_inc_ref f s =
    do { s \<leftarrow> file_lock s; file_unlock (upd_file f (\<lambda>x. x\<lparr>fref := fref x + 1\<rparr>) s) }"

definition file_table_init :: "('h, 'w, 'm) vfs_scheme \<Rightarrow> ('h, 'w, 'm) vfs_scheme" where
  "file_table_init s = s\<lparr>file_alloc_mutex := mutex_init (file_alloc_mutex s),
     files := replicate FILE_TABLE_SIZE zero_file\<rparr>"

section \<open>The descriptor table of a task\<close>

fun find_free_fd :: "nat \<Rightarrow> nat option list \<Rightarrow> nat option" where
  "find_free_fd i [] = None"
| "find_free_fd i (p # ps) = (if p = None then Some i else find_free_fd (Suc i) ps)"

definition set_fd :: "task_ref \<Rightarrow> nat \<Rightarrow> nat option \<Rightarrow> 'm sched_scheme \<Rightarrow> 'm sched_scheme" where
  "set_fd t fd v s = upd_task t (\<lambda>k. k\<lparr>file_table := (file_table k)[fd := v]\<rparr>) s"

definition task_alloc_fd :: "nat \<Rightarrow> 'm sched_scheme \<Rightarrow> (int \<times> 'm sched_scheme) option" where
  "task_alloc_fd file s =
    do {
      c \<leftarrow> task_current s;
      case find_free_fd 0 (file_table (tasks s c)) of
        Some i \<Rightarrow> Some (int i, set_fd c i (Some file) s)
      | None \<Rightarrow> Some (- 1, s)
    }"

definition task_remove_fd :: "int \<Rightarrow> 'm sched_scheme \<Rightarrow> 'm sched_scheme option" where
  "task_remove_fd fd s =
    (if fd > 0 \<and> fd < TASK_OFILE_NR
     then do { c \<leftarrow> task_current s; Some (set_fd c (nat fd) None s) }
     else Some s)"

definition task_file :: "int \<Rightarrow> 'm sched_scheme \<Rightarrow> nat option option" where
  "task_file fd s =
    (if fd \<ge> 0 \<and> fd < TASK_OFILE_NR
     then do { c \<leftarrow> task_current s; Some (file_table (tasks s c) ! nat fd) }
     else Some None)"

text \<open>The child of a fork shares the parent's open files.\<close>

fun copy_fds :: "nat list \<Rightarrow> task_ref \<Rightarrow> task_ref \<Rightarrow> ('h, 'w, 'm) vfs_scheme \<Rightarrow> ('h, 'w, 'm) vfs_scheme option" where
  "copy_fds [] par child s = Some s"
| "copy_fds (fd # fds) par child s =
    (case file_table (tasks s par) ! fd of
       None \<Rightarrow> copy_fds fds par child s
     | Some f \<Rightarrow> do { s \<leftarrow> file_inc_ref f s; copy_fds fds par child (set_fd child fd (Some f) s) })"

definition copy_opened_files :: "task_ref \<Rightarrow> ('h, 'w, 'm) vfs_scheme \<Rightarrow> ('h, 'w, 'm) vfs_scheme option" where
  "copy_opened_files child s =
    do { par \<leftarrow> task_current s; copy_fds [0..<nat TASK_OFILE_NR] par child s }"

section \<open>Paths\<close>

abbreviation slash :: u8 where "slash \<equiv> 47"

fun path_num_from :: "int \<Rightarrow> u8 list \<Rightarrow> int" where
  "path_num_from n [] = n"
| "path_num_from n (c # cs) = path_num_from (to_int32 (n * 10 + sint c - 48)) cs"

definition path_to_num :: "u8 list \<Rightarrow> int \<times> int" where
  "path_to_num path = (0, path_num_from 0 path)"

fun skip_slashes :: "u8 list \<Rightarrow> u8 list" where
  "skip_slashes [] = []"
| "skip_slashes (c # cs) = (if c = slash then skip_slashes cs else cs)"

fun skip_component :: "u8 list \<Rightarrow> u8 list" where
  "skip_component [] = []"
| "skip_component (c # cs) = (if c \<noteq> slash then skip_component cs else cs)"

definition path_next_child :: "u8 list \<Rightarrow> u8 list option" where
  "path_next_child path =
    (let c = skip_component (skip_slashes path) in if c \<noteq> [] then Some c else None)"

fun path_begin_with :: "u8 list \<Rightarrow> u8 list \<Rightarrow> bool" where
  "path_begin_with (a # as) (b # bs) = (if a = b then path_begin_with as bs else False)"
| "path_begin_with as [] = True"
| "path_begin_with [] (b # bs) = False"

definition is_fd_bed :: "int \<Rightarrow> bool" where
  "is_fd_bed file \<longleftrightarrow> file < 0 \<or> file > TASK_OFILE_NR"

section \<open>Calls\<close>

definition fs_protect :: "nat \<Rightarrow> ('h, 'w, 'm) vfs_scheme \<Rightarrow> ('h, 'w, 'm) vfs_scheme option" where
  "fs_protect fs s =
    (case fs_mutex (fs_table s fs) of
       None \<Rightarrow> Some s
     | Some m \<Rightarrow> do { (m, s) \<leftarrow> mutex_enter m s;
         Some (s\<lparr>fs_table := (fs_table s)(fs := (fs_table s fs)\<lparr>fs_mutex := Some m\<rparr>)\<rparr>) })"

definition fs_unprotect :: "nat \<Rightarrow> ('h, 'w, 'm) vfs_scheme \<Rightarrow> ('h, 'w, 'm) vfs_scheme option" where
  "fs_unprotect fs s =
    (case fs_mutex (fs_table s fs) of
       None \<Rightarrow> Some s
     | Some m \<Rightarrow> do { (m, s) \<leftarrow> mutex_unlock m s;
         Some (s\<lparr>fs_table := (fs_table s)(fs := (fs_table s fs)\<lparr>fs_mutex := Some m\<rparr>)\<rparr>) })"

text \<open>A call into a file's operations under the file system's mutex.\<close>

definition with_fs_file ::
    "nat \<Rightarrow> nat \<Rightarrow> (file_t \<Rightarrow> 'w \<Rightarrow> ('a \<times> file_t \<times> 'w) option) \<Rightarrow> ('h, 'w, 'm) vfs_scheme \<Rightarrow> ('a \<times> ('h, 'w, 'm) vfs_scheme) option" where
  "with_fs_file fs f op s =
    do {
      s \<leftarrow> fs_protect fs s;
      (r, x, w) \<leftarrow> op (files s ! f) (world s);
      s \<leftarrow> fs_unprotect fs (upd_file f (\<lambda>_. x) (s\<lparr>world := w\<rparr>));
      Some (r, s)
    }"

partial_function (option) find_mount ::
    "nat option \<Rightarrow> u8 list \<Rightarrow> ('h, 'w, 'm) vfs_scheme \<Rightarrow> nat option option" where
  "find_mount node name s =
    (case node of
       None \<Rightarrow> Some None
     | Some i \<Rightarrow>
         if path_begin_with name (mount_point (fs_table s i)) then Some (Some i)
         else find_mount (list_node_next (fs_links s) i) name s)"

definition sys_open_failed :: "nat \<Rightarrow> int \<Rightarrow> ('h, 'w, 'm) vfs_scheme \<Rightarrow> (int \<times> ('h, 'w, 'm) vfs_scheme) option" where
  "sys_open_failed f fd s =
    do {
      s \<leftarrow> file_free f s;
      s \<leftarrow> (if fd \<ge> 0 then task_remove_fd fd s else Some s);
      Some (- 1, s)
    }"

definition sys_open :: "'w fs_ops \<Rightarrow> u8 list \<Rightarrow> int \<Rightarrow> ('h, 'w, 'm) vfs_scheme \<Rightarrow> (int \<times> ('h, 'w, 'm) vfs_scheme) option" where
  "sys_open ops name flags s =
    do {
      (file, s) \<leftarrow> file_alloc s;
      case file of
        None \<Rightarrow> Some (- 1, s)
      | Some f \<Rightarrow> do {
          (fd, s) \<leftarrow> task_alloc_fd f s;
          if fd < 0 then sys_open_failed f fd s
          else do {
            found \<leftarrow> find_mount (list_first (mounted_list s)) name s;
            let (fs, path) = (case found of Some i \<Rightarrow> (i, path_next_child name)
                                | None \<Rightarrow> (root_fs s, Some name));
            let s = upd_file f (\<lambda>x. x\<lparr>fmode := flags, fref := 1, ffs := Some fs\<rparr>) s;
            let s = (case path of None \<Rightarrow> s
                       | Some p \<Rightarrow> upd_file f (\<lambda>x. x\<lparr>file_name := name_copy FILE_NAME_SIZE p\<rparr>) s);
            (err, s) \<leftarrow> with_fs_file fs f (op_open (ops (fs_op_type (fs_table s fs))) fs path) s;
            if err < 0 then sys_open_failed f fd s else Some (fd, s)
          }
        }
    }"

text \<open>\<open>file_op\<close>: the common part of the calls on an open file; a file without a file system
  is a null dereference.\<close>

definition file_op ::
    "nat \<Rightarrow> (nat \<Rightarrow> file_t \<Rightarrow> 'w \<Rightarrow> ('a \<times> file_t \<times> 'w) option) \<Rightarrow> ('h, 'w, 'm) vfs_scheme \<Rightarrow> ('a \<times> ('h, 'w, 'm) vfs_scheme) option" where
  "file_op f op s = do { fs \<leftarrow> ffs (files s ! f); with_fs_file fs f (op fs) s }"

definition sys_read :: "'w fs_ops \<Rightarrow> int \<Rightarrow> u32 \<Rightarrow> int \<Rightarrow> ('h, 'w, 'm) vfs_scheme \<Rightarrow> (int \<times> ('h, 'w, 'm) vfs_scheme) option" where
  "sys_read ops file ptr len s =
    (if is_fd_bed file \<or> ptr = 0 \<or> len = 0 then Some (0, s)
     else do {
       p_file \<leftarrow> task_file file s;
       case p_file of None \<Rightarrow> Some (- 1, s)
       | Some f \<Rightarrow> file_op f (\<lambda>fs. op_read (ops (fs_op_type (fs_table s fs))) ptr len) s
     })"

definition sys_write :: "'w fs_ops \<Rightarrow> int \<Rightarrow> u32 \<Rightarrow> int \<Rightarrow> ('h, 'w, 'm) vfs_scheme \<Rightarrow> (int \<times> ('h, 'w, 'm) vfs_scheme) option" where
  "sys_write ops file ptr len s =
    (if is_fd_bed file \<or> ptr = 0 \<or> len = 0 then Some (0, s)
     else do {
       p_file \<leftarrow> task_file file s;
       case p_file of None \<Rightarrow> Some (- 1, s)
       | Some f \<Rightarrow> file_op f (\<lambda>fs. op_write (ops (fs_op_type (fs_table s fs))) ptr len) s
     })"

definition sys_lseek :: "'w fs_ops \<Rightarrow> int \<Rightarrow> int \<Rightarrow> int \<Rightarrow> ('h, 'w, 'm) vfs_scheme \<Rightarrow> (int \<times> ('h, 'w, 'm) vfs_scheme) option" where
  "sys_lseek ops file ptr dir s =
    (if is_fd_bed file then Some (0, s)
     else do {
       p_file \<leftarrow> task_file file s;
       case p_file of None \<Rightarrow> Some (- 1, s)
       | Some f \<Rightarrow> file_op f
           (\<lambda>fs x w. op_seek (ops (fs_op_type (fs_table s fs))) x (word_of_int ptr) dir w) s
     })"

definition sys_close :: "'w fs_ops \<Rightarrow> int \<Rightarrow> ('h, 'w, 'm) vfs_scheme \<Rightarrow> (int \<times> ('h, 'w, 'm) vfs_scheme) option" where
  "sys_close ops file s =
    (if is_fd_bed file then Some (0, s)
     else do {
       p_file \<leftarrow> task_file file s;
       case p_file of None \<Rightarrow> Some (- 1, s)
       | Some f \<Rightarrow>
           if \<not> fref (files s ! f) > 0 then None
           else let last = (fref (files s ! f) = 1);
                    s = upd_file f (\<lambda>x. x\<lparr>fref := fref x - 1\<rparr>) s
             in do {
               s \<leftarrow> (if last
                    then do {
                      (_, s) \<leftarrow> file_op f (\<lambda>fs x w. map_option (\<lambda>(x, w). ((), x, w))
                        (op_close (ops (fs_op_type (fs_table s fs))) x w)) s;
                      file_free f s
                    }
                    else Some s);
               s \<leftarrow> task_remove_fd file s;
               Some (0, s)
             }
     })"

definition sys_isatty :: "int \<Rightarrow> ('h, 'w, 'm) vfs_scheme \<Rightarrow> int option" where
  "sys_isatty file s =
    (if is_fd_bed file then Some 0
     else do {
       p_file \<leftarrow> task_file file s;
       case p_file of None \<Rightarrow> Some (- 1)
       | Some f \<Rightarrow> Some (if ftype (files s ! f) = FILE_TTY then 1 else 0)
     })"

definition sys_ioctl :: "'w fs_ops \<Rightarrow> int \<Rightarrow> int \<Rightarrow> int \<Rightarrow> int \<Rightarrow> ('h, 'w, 'm) vfs_scheme \<Rightarrow> (int \<times> ('h, 'w, 'm) vfs_scheme) option" where
  "sys_ioctl ops fd cmd arg0 arg1 s =
    (if is_fd_bed fd then Some (- 1, s)
     else do {
       p_file \<leftarrow> task_file fd s;
       case p_file of None \<Rightarrow> Some (- 1, s)
       | Some f \<Rightarrow> file_op f (\<lambda>fs x w.
           case op_ioctl (ops (fs_op_type (fs_table s fs))) of
             None \<Rightarrow> Some (- 1, x, w) | Some op \<Rightarrow> op x cmd arg0 arg1 w) s
     })"

definition sys_fstat :: "int \<Rightarrow> ('h, 'w, 'm) vfs_scheme \<Rightarrow> (int \<times> ('h, 'w, 'm) vfs_scheme) option" where
  "sys_fstat file s = Some (- 1, s)"

definition sys_dup :: "int \<Rightarrow> ('h, 'w, 'm) vfs_scheme \<Rightarrow> (int \<times> ('h, 'w, 'm) vfs_scheme) option" where
  "sys_dup file s =
    (if is_fd_bed file then Some (- 1, s)
     else do {
       p_file \<leftarrow> task_file file s;
       case p_file of None \<Rightarrow> Some (- 1, s)
       | Some f \<Rightarrow> do {
           (fd, s) \<leftarrow> task_alloc_fd f s;
           if fd \<ge> 0 then do { s \<leftarrow> file_inc_ref f s; Some (fd, s) } else Some (- 1, s)
         }
     })"

text \<open>The directory calls go to the root file system.\<close>

definition with_root ::
    "(nat \<Rightarrow> 'w \<Rightarrow> ('a \<times> 'w) option) \<Rightarrow> ('h, 'w, 'm) vfs_scheme \<Rightarrow> ('a \<times> ('h, 'w, 'm) vfs_scheme) option" where
  "with_root op s =
    do {
      s \<leftarrow> fs_protect (root_fs s) s;
      (err, w) \<leftarrow> op (root_fs s) (world s);
      s \<leftarrow> fs_unprotect (root_fs s) (s\<lparr>world := w\<rparr>);
      Some (err, s)
    }"

definition root_op :: "'w fs_ops \<Rightarrow> ('h, 'w, 'm) vfs_scheme \<Rightarrow> 'w fs_op_t" where
  "root_op ops s = ops (fs_op_type (fs_table s (root_fs s)))"

definition sys_opendir :: "'w fs_ops \<Rightarrow> u8 list \<Rightarrow> DIR \<Rightarrow> ('h, 'w, 'm) vfs_scheme \<Rightarrow> ((int \<times> DIR) \<times> ('h, 'w, 'm) vfs_scheme) option" where
  "sys_opendir ops name dir s = with_root (\<lambda>fs. op_opendir (root_op ops s) fs name dir) s"

definition sys_readdir :: "'w fs_ops \<Rightarrow> DIR \<Rightarrow> dirent \<Rightarrow> ('h, 'w, 'm) vfs_scheme \<Rightarrow> ((int \<times> DIR \<times> dirent) \<times> ('h, 'w, 'm) vfs_scheme) option" where
  "sys_readdir ops dir dirent s = with_root (\<lambda>fs. op_readdir (root_op ops s) fs dir dirent) s"

definition sys_closedir :: "'w fs_ops \<Rightarrow> DIR \<Rightarrow> ('h, 'w, 'm) vfs_scheme \<Rightarrow> ((int \<times> DIR) \<times> ('h, 'w, 'm) vfs_scheme) option" where
  "sys_closedir ops dir s = with_root (\<lambda>fs. op_closedir (root_op ops s) fs dir) s"

definition sys_unlink :: "'w fs_ops \<Rightarrow> u8 list \<Rightarrow> ('h, 'w, 'm) vfs_scheme \<Rightarrow> (int \<times> ('h, 'w, 'm) vfs_scheme) option" where
  "sys_unlink ops path s = with_root (\<lambda>fs. op_unlink (root_op ops s) fs path) s"

section \<open>Mounting\<close>

definition zero_fs :: fs_t where
  "zero_fs = \<lparr>mount_point = [], fs_kind = FS_DEVFS, fs_op_type = FS_DEVFS, fs_dev_id = 0, fs_mutex = None\<rparr>"

primrec free_nodes :: "nat \<Rightarrow> ('h, 'w, 'm) vfs_scheme \<Rightarrow> ('h, 'w, 'm) vfs_scheme option" where
  "free_nodes 0 s = Some s"
| "free_nodes (Suc n) s =
    do {
      s \<leftarrow> free_nodes n s;
      (l, h) \<leftarrow> list_insert_first (free_list s) (fs_links s) n;
      Some (s\<lparr>free_list := l, fs_links := h\<rparr>)
    }"

definition mount_list_init :: "('h, 'w, 'm) vfs_scheme \<Rightarrow> ('h, 'w, 'm) vfs_scheme option" where
  "mount_list_init s =
    do {
      s \<leftarrow> free_nodes FS_TABLE_SIZE (s\<lparr>free_list := list_init (free_list s)\<rparr>);
      Some (s\<lparr>mounted_list := list_init (mounted_list s)\<rparr>)
    }"

text \<open>\<^verbatim>\<open>kernel_strcmp\<close> accepts a prefix as equal (see \<^verbatim>\<open>Klib\<close>).\<close>

partial_function (option) already_mounted ::
    "nat option \<Rightarrow> u8 list \<Rightarrow> ('h, 'w, 'm) vfs_scheme \<Rightarrow> bool option" where
  "already_mounted node name s =
    (case node of
       None \<Rightarrow> Some False
     | Some i \<Rightarrow>
         if is_prefix (mount_point (fs_table s i)) name \<or> is_prefix name (mount_point (fs_table s i))
         then Some True
         else already_mounted (list_node_next (fs_links s) i) name s)"

definition mount_failed :: "nat \<Rightarrow> ('h, 'w, 'm) vfs_scheme \<Rightarrow> (nat option \<times> ('h, 'w, 'm) vfs_scheme) option" where
  "mount_failed i s =
    do {
      (l, h) \<leftarrow> list_insert_last (free_list s) (fs_links s) i;
      Some (None, s\<lparr>free_list := l, fs_links := h\<rparr>)
    }"

definition mount ::
    "'w fs_ops \<Rightarrow> fs_type \<Rightarrow> u8 list \<Rightarrow> int \<Rightarrow> int \<Rightarrow> ('h, 'w, 'm) vfs_scheme \<Rightarrow> (nat option \<times> ('h, 'w, 'm) vfs_scheme) option" where
  "mount ops type mount_at dev_major dev_minor s =
    do {
      dup \<leftarrow> already_mounted (list_first (mounted_list s)) mount_at s;
      if dup then Some (None, s)
      else do {
        (free_node, l, h) \<leftarrow> list_remove_first (free_list s) (fs_links s);
        let s = s\<lparr>free_list := l, fs_links := h\<rparr>;
        case free_node of
          None \<Rightarrow> Some (None, s)
        | Some i \<Rightarrow> do {
            let fs = zero_fs\<lparr>mount_point := name_copy FS_MOUNT_SIZE mount_at, fs_op_type := type\<rparr>;
            let s = s\<lparr>fs_links := node_init (fs_links s) i\<rparr>;
            (err, fs, w) \<leftarrow> op_mount (ops type) i fs dev_major dev_minor (world s);
            let s = s\<lparr>fs_table := (fs_table s)(i := fs), world := w\<rparr>;
            if err < 0 then mount_failed i s
            else do {
              (l, h) \<leftarrow> list_insert_last (mounted_list s) (fs_links s) i;
              Some (Some i, s\<lparr>mounted_list := l, fs_links := h\<rparr>)
            }
          }
      }
    }"

text \<open>
  Start-up of the file systems; \<open>disk_init\<close> is the disk driver's part of the state below.
\<close>

definition fs_init :: "'w fs_ops \<Rightarrow> ('w \<Rightarrow> 'w) \<Rightarrow> ('h, 'w, 'm) vfs_scheme \<Rightarrow> ('h, 'w, 'm) vfs_scheme option" where
  "fs_init ops disk_init s =
    do {
      s \<leftarrow> mount_list_init s;
      let s = file_table_init s;
      let s = s\<lparr>world := disk_init (world s)\<rparr>;
      (fs, s) \<leftarrow> mount ops FS_DEVFS (map of_char ''/dev'') 0 0 s;
      if fs = None then None
      else do {
        (root, s) \<leftarrow> mount ops FS_FATFS16 (map of_char ''/home'') 2 0xb1 s;
        r \<leftarrow> root;
        Some (s\<lparr>root_fs := r\<rparr>)
      }
    }"

section \<open>Reference counts\<close>

text \<open>
  The tasks whose descriptor tables exist, and the number of descriptors that refer to a
  file.  \<open>refs_ok\<close>: every descriptor refers to a slot of the file table, and the count of
  each slot is the number of descriptors that refer to it.
\<close>

definition all_tasks :: "task_ref list" where
  "all_tasks = Idle_task # First_task # map Table_task [0..<128]"

definition fd_refs :: "'m sched_scheme \<Rightarrow> nat \<Rightarrow> nat" where
  "fd_refs s f = sum_list (map (\<lambda>t. count_list (file_table (tasks s t)) (Some f)) all_tasks)"

definition refs_ok :: "('h, 'w, 'm) vfs_scheme \<Rightarrow> bool" where
  "refs_ok s \<longleftrightarrow> (\<forall>f < length (files s). fref (files s ! f) = int (fd_refs s f))
     \<and> (\<forall>t \<in> set all_tasks. length (file_table (tasks s t)) = nat TASK_OFILE_NR
         \<and> (\<forall>f. Some f \<in> set (file_table (tasks s t)) \<longrightarrow> f < length (files s)))"

definition files_ready :: "('h, 'w, 'm) vfs_scheme \<Rightarrow> bool" where
  "files_ready s \<longleftrightarrow> mutex_free (file_alloc_mutex s) s
     \<and> (\<exists>c \<in> set all_tasks. curr_task s = Some c)"

lemma distinct_all_tasks: "distinct all_tasks"
  by (auto simp: all_tasks_def distinct_map inj_on_def)

lemma count_list_update:
  "i < length xs \<Longrightarrow> count_list (xs[i := v]) x + (if xs ! i = x then 1 else 0)
    = count_list xs x + (if v = x then 1 else 0)"
proof (induction xs arbitrary: i)
  case (Cons a xs)
  show ?case
  proof (cases i)
    case (Suc j)
    then show ?thesis using Cons.IH[of j] Cons.prems by (auto split: if_splits)
  qed simp
qed simp

lemma sum_list_upd_one:
  fixes g :: "'a \<Rightarrow> nat"
  assumes "distinct xs" and "t \<in> set xs" and "\<And>u. u \<in> set xs \<Longrightarrow> u \<noteq> t \<Longrightarrow> g' u = g u"
    and "g' t + a = g t + b"
  shows "sum_list (map g' xs) + a = sum_list (map g xs) + b"
  using assms
proof (induction xs)
  case (Cons x xs)
  show ?case
  proof (cases "x = t")
    case True
    have "map g' xs = map g xs" using Cons.prems True by (intro map_cong) auto
    then have "sum_list (map g' xs) = sum_list (map g xs)" by (rule arg_cong)
    with Cons.prems(4) True show ?thesis by simp
  next
    case False
    then show ?thesis using Cons by auto
  qed
qed simp

text \<open>Changing one descriptor moves one reference.\<close>

lemma fd_refs_set_fd:
  assumes "t \<in> set all_tasks" and "fd < length (file_table (tasks s t))"
  shows "fd_refs (set_fd t fd v s) f + (if file_table (tasks s t) ! fd = Some f then 1 else 0)
    = fd_refs s f + (if v = Some f then 1 else 0)"
  unfolding fd_refs_def
  by (rule sum_list_upd_one[OF distinct_all_tasks assms(1)])
    (use assms(2) in \<open>simp_all add: set_fd_def count_list_update\<close>)

lemma find_free_file_Some:
  "find_free_file i fs = Some k \<Longrightarrow> i \<le> k \<and> k < i + length fs \<and> fref (fs ! (k - i)) = 0"
  by (induction fs arbitrary: i) (fastforce split: if_splits simp: nth_Cons')+

lemma find_free_fd_Some:
  "find_free_fd i ps = Some k \<Longrightarrow> i \<le> k \<and> k < i + length ps \<and> ps ! (k - i) = None"
  by (induction ps arbitrary: i) (fastforce split: if_splits simp: nth_Cons')+

section \<open>The file table operations, with the mutex free\<close>

text \<open>\<open>rel s F\<close>: the file table is \<open>F\<close> and its mutex has been taken and released.\<close>

definition rel :: "('h, 'w, 'm) vfs_scheme \<Rightarrow> file_t list \<Rightarrow> ('h, 'w, 'm) vfs_scheme" where
  "rel s F = s\<lparr>files := F,
     file_alloc_mutex := (file_alloc_mutex s)\<lparr>locked_count := 0, owner := None\<rparr>\<rparr>"

lemma rel_simps [simp]:
  "files (rel s F) = F" "tasks (rel s F) = tasks s" "curr_task (rel s F) = curr_task s"
  "fs_table (rel s F) = fs_table s" "world (rel s F) = world s" "wait_links (rel s F) = wait_links s"
  "mounted_list (rel s F) = mounted_list s" "fs_links (rel s F) = fs_links s"
  "root_fs (rel s F) = root_fs s" "fd_refs (rel s F) f = fd_refs s f"
  "rel (rel s F) G = rel s G"
  by (simp_all add: rel_def fd_refs_def)

lemma files_ready_rel [simp]: "files_ready s \<Longrightarrow> files_ready (rel s F)"
  by (simp add: files_ready_def mutex_free_def rel_def)

lemma file_section:
  assumes "files_ready s"
  defines "m \<equiv> (file_alloc_mutex s)\<lparr>locked_count := 1, owner := curr_task s\<rparr>"
  shows "file_lock s = Some (s\<lparr>file_alloc_mutex := m\<rparr>)"
    and "file_unlock (s\<lparr>file_alloc_mutex := m, files := F\<rparr>) = Some (rel s F)"
proof -
  have f: "mutex_free (file_alloc_mutex s) s" using assms(1) by (simp add: files_ready_def)
  show "file_lock s = Some (s\<lparr>file_alloc_mutex := m\<rparr>)"
    using mutex_section(1)[OF f refl refl] by (simp add: file_lock_def m_def)
  have "mutex_unlock m (s\<lparr>file_alloc_mutex := m, files := F\<rparr>)
      = Some ((file_alloc_mutex s)\<lparr>locked_count := 0, owner := None\<rparr>, s\<lparr>file_alloc_mutex := m, files := F\<rparr>)"
    using mutex_section(2)[OF f, of "s\<lparr>file_alloc_mutex := m, files := F\<rparr>"] by (simp add: m_def)
  then show "file_unlock (s\<lparr>file_alloc_mutex := m, files := F\<rparr>) = Some (rel s F)"
    by (simp add: file_unlock_def rel_def)
qed

lemma file_alloc_eq:
  assumes "files_ready s"
  shows "file_alloc s = Some (find_free_file 0 (files s),
    rel s (case find_free_file 0 (files s) of None \<Rightarrow> files s
           | Some i \<Rightarrow> (files s)[i := zero_file\<lparr>fref := 1\<rparr>]))"
  using file_section(1)[OF assms] file_section(2)[OF assms, of "files s"]
    file_section(2)[OF assms, of "(files s)[i := zero_file\<lparr>fref := 1\<rparr>]" for i]
  by (cases "find_free_file 0 (files s)") (simp_all add: file_alloc_def upd_file_def)

lemma file_free_eq:
  assumes "files_ready s"
  shows "file_free f s = Some (rel s
    (if fref (files s ! f) \<noteq> 0 then (files s)[f := (files s ! f)\<lparr>fref := fref (files s ! f) - 1\<rparr>]
     else files s))"
  using file_section(1)[OF assms] file_section(2)[OF assms, of "files s"]
    file_section(2)[OF assms, of "(files s)[f := (files s ! f)\<lparr>fref := fref (files s ! f) - 1\<rparr>]"]
  by (simp add: file_free_def upd_file_def)

lemma file_inc_ref_eq:
  assumes "files_ready s"
  shows "file_inc_ref f s
    = Some (rel s ((files s)[f := (files s ! f)\<lparr>fref := fref (files s ! f) + 1\<rparr>]))"
  using file_section(1)[OF assms]
    file_section(2)[OF assms, of "(files s)[f := (files s ! f)\<lparr>fref := fref (files s ! f) + 1\<rparr>]"]
  by (simp add: file_inc_ref_def upd_file_def)

lemma set_fd_simps [simp]:
  "file_table (tasks (set_fd t fd v s) u) =
     (if u = t then (file_table (tasks s t))[fd := v] else file_table (tasks s u))"
  "curr_task (set_fd t fd v s) = curr_task s" "wait_links (set_fd t fd v s) = wait_links s"
  "sched.more (set_fd t fd v s) = sched.more s"
  by (auto simp: set_fd_def)

lemma set_fd_vfs [simp]:
  fixes s :: "('h, 'w, 'm) vfs_scheme"
  shows "files (set_fd t fd v s) = files s" "fs_table (set_fd t fd v s) = fs_table s"
    "world (set_fd t fd v s) = world s" "mounted_list (set_fd t fd v s) = mounted_list s"
    "fs_links (set_fd t fd v s) = fs_links s" "root_fs (set_fd t fd v s) = root_fs s"
    "file_alloc_mutex (set_fd t fd v s) = file_alloc_mutex s"
  by (simp_all add: set_fd_def upd_task_def)

lemma files_ready_set_fd [simp]: "files_ready (set_fd t fd v s) = files_ready s"
  by (simp add: files_ready_def mutex_free_def)

text \<open>Descriptor changes that keep the counts right.\<close>

lemma refs_ok_install:
  assumes ok: "refs_ok s" and t: "t \<in> set all_tasks" and fd: "fd < nat TASK_OFILE_NR"
    and e: "file_table (tasks s t) ! fd = None" and f: "f < length (files s)"
    and r: "fref x = fref (files s ! f) + 1"
  shows "refs_ok (set_fd t fd (Some f) (rel s ((files s)[f := x])))"
proof -
  let ?s = "rel s ((files s)[f := x])"
  have l: "length (file_table (tasks s u)) = nat TASK_OFILE_NR" if "u \<in> set all_tasks" for u
    using ok that by (simp add: refs_ok_def)
  have c: "fd_refs (set_fd t fd (Some f) ?s) g = fd_refs s g + (if g = f then 1 else 0)" for g
    using fd_refs_set_fd[OF t, of fd ?s "Some f" g] l[OF t] fd e by auto
  have "fref ((files s)[f := x] ! g) = int (fd_refs s g + (if g = f then 1 else 0))"
    if "g < length (files s)" for g
    using ok that r f by (auto simp: refs_ok_def nth_list_update)
  moreover have "g < length (files s)"
    if "u \<in> set all_tasks" "Some g \<in> set (file_table (tasks (set_fd t fd (Some f) ?s) u))" for u g
    using ok that f set_update_subset_insert[of "file_table (tasks s t)" fd "Some f"]
    by (auto simp: refs_ok_def split: if_splits)
  ultimately show ?thesis using c l t by (simp add: refs_ok_def)
qed

lemma refs_ok_remove:
  assumes ok: "refs_ok s" and t: "t \<in> set all_tasks" and fd: "fd < nat TASK_OFILE_NR"
    and e: "file_table (tasks s t) ! fd = Some f"
    and r: "fref x = fref (files s ! f) - 1"
  shows "refs_ok (set_fd t fd None (s\<lparr>files := (files s)[f := x]\<rparr>))" and "0 < fref (files s ! f)"
proof -
  let ?s = "s\<lparr>files := (files s)[f := x]\<rparr>"
  have l: "length (file_table (tasks s u)) = nat TASK_OFILE_NR" if "u \<in> set all_tasks" for u
    using ok that by (simp add: refs_ok_def)
  have m: "Some f \<in> set (file_table (tasks s t))" using e fd l[OF t] by (metis nth_mem)
  then have f: "f < length (files s)" using ok t by (simp add: refs_ok_def)
  have s0: "fd_refs ?s g = fd_refs s g" for g by (simp add: fd_refs_def)
  have c: "fd_refs (set_fd t fd None ?s) g + (if g = f then 1 else 0) = fd_refs s g" for g
    using fd_refs_set_fd[OF t, of fd ?s None g] l[OF t] fd e s0 by auto
  have rf: "fref (files s ! g) = int (fd_refs s g)" if "g < length (files s)" for g
    using ok that by (simp add: refs_ok_def)
  show "0 < fref (files s ! f)" using rf[OF f] c[of f] by simp
  have "fref ((files s)[f := x] ! g) = int (fd_refs (set_fd t fd None ?s) g)"
    if "g < length (files s)" for g
    using rf[OF that] c[of g] r f by (auto simp: nth_list_update)
  moreover have "g < length (files s)"
    if "u \<in> set all_tasks" "Some g \<in> set (file_table (tasks (set_fd t fd None ?s) u))" for u g
    using ok that set_update_subset_insert[of "file_table (tasks s t)" fd None]
    by (auto simp: refs_ok_def split: if_splits)
  ultimately show "refs_ok (set_fd t fd None ?s)" using l t by (simp add: refs_ok_def)
qed

lemma refs_ok_cong:
  "files s' = files s \<Longrightarrow> tasks s' = tasks s \<Longrightarrow> refs_ok s' = refs_ok s"
  by (simp add: refs_ok_def fd_refs_def)

lemma rel_set_fd: "rel (set_fd t fd v s) F = set_fd t fd v (rel s F)"
  by (simp add: rel_def set_fd_def upd_task_def)

lemma set_fd_tasks: "tasks s' = tasks s \<Longrightarrow> tasks (set_fd t fd v s') = tasks (set_fd t fd v s)"
  by (simp add: set_fd_def)

section \<open>Calls under a file system's mutex\<close>

definition fs_ready :: "nat \<Rightarrow> ('h, 'w, 'm) vfs_scheme \<Rightarrow> bool" where
  "fs_ready fs s \<longleftrightarrow> (\<forall>m. fs_mutex (fs_table s fs) = Some m \<longrightarrow> mutex_free m s)"

text \<open>A change of the file layer alone, which leaves free mutexes free.\<close>

definition vfs_only :: "('h, 'w, 'm) vfs_scheme \<Rightarrow> ('h, 'w, 'm) vfs_scheme \<Rightarrow> bool" where
  "vfs_only s s' \<longleftrightarrow> (\<exists>F m T w. s' = s\<lparr>files := F, file_alloc_mutex := m, fs_table := T, world := w\<rparr>)
     \<and> (\<forall>i. fs_ready i s \<longrightarrow> fs_ready i s')
     \<and> (\<forall>i. fs_op_type (fs_table s' i) = fs_op_type (fs_table s i))"

lemma vfs_onlyI:
  "s' = s\<lparr>files := F, file_alloc_mutex := m, fs_table := T, world := w\<rparr>
   \<Longrightarrow> (\<And>i. fs_ready i s \<Longrightarrow> fs_ready i s')
   \<Longrightarrow> (\<And>i. fs_op_type (fs_table s' i) = fs_op_type (fs_table s i)) \<Longrightarrow> vfs_only s s'"
  unfolding vfs_only_def by blast

lemma vfs_only_trans: "vfs_only s s' \<Longrightarrow> vfs_only s' s'' \<Longrightarrow> vfs_only s s''"
  unfolding vfs_only_def by force

lemma vfs_only_files [simp]: "vfs_only s (s\<lparr>world := w, files := F, file_alloc_mutex := m\<rparr>)"
  by (rule vfs_onlyI[where T = "fs_table s" and w = w and F = F and m = m])
    (auto simp: fs_ready_def mutex_free_def)

lemma vfs_only_rel [simp]:
  fixes s :: "('h, 'w, 'm) vfs_scheme"
  shows "vfs_only s (rel s F)" and "vfs_only s (s\<lparr>files := F\<rparr>)"
    and "vfs_only s (s\<lparr>world := w, files := F\<rparr>)"
  using vfs_only_files[where s = s and F = F and m = "file_alloc_mutex s" and w = "world s"]
    vfs_only_files[where s = s and F = F and m = "(file_alloc_mutex s)\<lparr>locked_count := 0, owner := None\<rparr>"
      and w = "world s"]
    vfs_only_files[where s = s and F = F and m = "file_alloc_mutex s" and w = w]
  by (simp_all add: rel_def)

lemma with_fs_file_ok:
  assumes "fs_ready fs s" and "op (files s ! f) (world s) = Some (r, x, w)"
  shows "\<exists>s'. with_fs_file fs f op s = Some (r, s') \<and> files s' = (files s)[f := x]
    \<and> world s' = w \<and> tasks s' = tasks s \<and> curr_task s' = curr_task s
    \<and> wait_links s' = wait_links s \<and> file_alloc_mutex s' = file_alloc_mutex s
    \<and> mounted_list s' = mounted_list s \<and> root_fs s' = root_fs s \<and> fs_links s' = fs_links s
    \<and> vfs_only s s'"
proof (cases "fs_mutex (fs_table s fs)")
  case None
  let ?s2 = "s\<lparr>world := w, files := (files s)[f := x]\<rparr>"
  from None show ?thesis using assms(2)
    by (simp add: with_fs_file_def fs_protect_def fs_unprotect_def upd_file_def)
next
  case (Some m)
  let ?m = "m\<lparr>locked_count := 1, owner := curr_task s\<rparr>"
  let ?s1 = "s\<lparr>fs_table := (fs_table s)(fs := (fs_table s fs)\<lparr>fs_mutex := Some ?m\<rparr>)\<rparr>"
  let ?s2 = "?s1\<lparr>world := w, files := (files s)[f := x]\<rparr>"
  have fr: "mutex_free m s" using assms(1) Some by (simp add: fs_ready_def)
  have p: "fs_protect fs s = Some ?s1"
    using mutex_section(1)[OF fr refl refl] Some by (simp add: fs_protect_def)
  have "mutex_unlock ?m ?s2 = Some (m\<lparr>locked_count := 0, owner := None\<rparr>, ?s2)"
    using mutex_section(2)[OF fr, of ?s2] by simp
  then have u: "fs_unprotect fs ?s2 = Some (?s2\<lparr>fs_table := (fs_table ?s2)(fs :=
      (fs_table ?s2 fs)\<lparr>fs_mutex := Some (m\<lparr>locked_count := 0, owner := None\<rparr>)\<rparr>)\<rparr>)"
    (is "_ = Some ?s3") by (simp add: fs_unprotect_def)
  have "vfs_only s ?s3"
    by (rule vfs_onlyI[where T = "fs_table ?s3" and w = w and m = "file_alloc_mutex s" and F = "files ?s3"])
      (use fr in \<open>auto simp: fs_ready_def mutex_free_def\<close>)
  with u p assms(2) show ?thesis by (simp add: with_fs_file_def upd_file_def)
qed

definition open_at :: "('h, 'w, 'm) vfs_scheme \<Rightarrow> task_ref \<Rightarrow> int \<Rightarrow> nat \<Rightarrow> bool" where
  "open_at s t fd f \<longleftrightarrow> 0 \<le> fd \<and> fd < TASK_OFILE_NR \<and> file_table (tasks s t) ! nat fd = Some f"

lemma open_at_task_file:
  "open_at s t fd f \<Longrightarrow> curr_task s = Some t \<Longrightarrow> task_file fd s = Some (Some f) \<and> \<not> is_fd_bed fd"
  by (simp add: open_at_def task_file_def task_current_def is_fd_bed_def)

text \<open>What the file system answers when the last reference of file \<open>f\<close> goes: the file as it
  leaves it, its count untouched, and its state.\<close>

definition close_answer :: "'w fs_ops \<Rightarrow> ('h, 'w, 'm) vfs_scheme \<Rightarrow> nat \<Rightarrow> file_t \<Rightarrow> 'w \<Rightarrow> bool" where
  "close_answer ops s f x w \<longleftrightarrow> (\<exists>i. ffs (files s ! f) = Some i \<and> fs_ready i s
     \<and> op_close (ops (fs_op_type (fs_table s i))) ((files s ! f)\<lparr>fref := 0\<rparr>) (world s) = Some (x, w) \<and> fref x = 0)"

text \<open>The part of \<^verbatim>\<open>sys_close\<close> before the descriptor is dropped.\<close>

lemma close_body:
  assumes rdy: "files_ready s" and o: "open_at s t fd f"
    and c: "curr_task s = Some t" and p: "0 < fref (files s ! f)" and len: "f < length (files s)"
    and fs: "fref (files s ! f) = 1 \<Longrightarrow> close_answer ops s f x w"
  shows "\<exists>s1. sys_close ops fd s = do { s' \<leftarrow> task_remove_fd fd s1; Some (0, s') }
    \<and> files s1 = (files s)[f := if fref (files s ! f) = 1 then x
        else (files s ! f)\<lparr>fref := fref (files s ! f) - 1\<rparr>]
    \<and> world s1 = (if fref (files s ! f) = 1 then w else world s) \<and> tasks s1 = tasks s
    \<and> curr_task s1 = Some t \<and> files_ready s1 \<and> vfs_only s s1"
proof -
  note tf = open_at_task_file[OF o c]
  let ?y = "(files s ! f)\<lparr>fref := fref (files s ! f) - 1\<rparr>"
  let ?u = "s\<lparr>files := (files s)[f := ?y]\<rparr>"
  have ur: "files_ready ?u" using rdy by (simp add: files_ready_def mutex_free_def)
  show ?thesis
  proof (cases "fref (files s ! f) = 1")
    case False
    then have "sys_close ops fd s = do { s' \<leftarrow> task_remove_fd fd ?u; Some (0, s') }"
      using tf p by (simp add: sys_close_def upd_file_def Let_def)
    then show ?thesis using c ur False by (intro exI[of _ ?u]) simp
  next
    case True
    obtain i where i: "ffs (files s ! f) = Some i" "fs_ready i s"
      "op_close (ops (fs_op_type (fs_table s i))) ?y (world s) = Some (x, w)" "fref x = 0"
      using fs[OF True] True by (auto simp: close_answer_def)
    have iu: "fs_ready i ?u" using i(2) by (simp add: fs_ready_def mutex_free_def)
    let ?op = "\<lambda>x w. map_option (\<lambda>(x, w). ((), x, w)) (op_close (ops (fs_op_type (fs_table s i))) x w)"
    have "?op (files ?u ! f) (world ?u) = Some ((), x, w)" using i(3) len by simp
    from with_fs_file_ok[where op = ?op, OF iu this] obtain s2 where s2:
      "with_fs_file i f ?op ?u = Some ((), s2)" "files s2 = (files ?u)[f := x]" "world s2 = w"
      "tasks s2 = tasks s" "curr_task s2 = curr_task s" "wait_links s2 = wait_links s"
      "file_alloc_mutex s2 = file_alloc_mutex s" "vfs_only ?u s2" by auto
    have "vfs_only s ?u" by simp
    then have "vfs_only s s2" using s2(8) by (rule vfs_only_trans)
    then have v2: "vfs_only s (rel s2 (files s2))" by (rule vfs_only_trans) simp
    have r2: "files_ready s2" using rdy s2(5-7) by (simp add: files_ready_def mutex_free_def)
    have x0: "fref (files s2 ! f) = 0" using s2(2) i(4) len by simp
    have ff: "file_free f s2 = Some (rel s2 (files s2))" using file_free_eq[OF r2, of f] x0 by simp
    have "sys_close ops fd s = do { s' \<leftarrow> task_remove_fd fd (rel s2 (files s2)); Some (0, s') }"
      using tf p True i(1) s2(1) ff len
      by (simp add: sys_close_def upd_file_def file_op_def Let_def)
    then show ?thesis using s2 r2 c v2 True
      by (intro exI[of _ "rel s2 (files s2)"]) simp
  qed
qed

lemma refs_ok_same_ref:
  assumes "refs_ok s" and "files s' = (files s)[f := x]" and "fref x = fref (files s ! f)"
    and "tasks s' = tasks s"
  shows "refs_ok s'"
proof -
  have "fref (files s' ! g) = fref (files s ! g)" if "g < length (files s)" for g
    using assms(2,3) that by (cases "g = f") auto
  then show ?thesis using assms(1,2,4) by (simp add: refs_ok_def fd_refs_def)
qed

lemma find_mount_ok:
  assumes "dll (fs_links s) l (as @ L)"
  shows "find_mount (hd_opt L None) name s
    = Some (find (\<lambda>i. path_begin_with name (mount_point (fs_table s i))) L)"
  using assms
proof (induction L arbitrary: as)
  case Nil
  then show ?case by (simp add: find_mount.simps)
next
  case (Cons i L)
  have "list_node_next (fs_links s) i = hd_opt L None"
    using Cons.prems by (simp add: dll_def list_node_next_def)
  moreover have "dll (fs_links s) l ((as @ [i]) @ L)" using Cons.prems by simp
  ultimately show ?case using Cons.IH[of "as @ [i]"] by (simp add: find_mount.simps[of "Some i"])
qed

lemma open_failed_ok:
  assumes ok: "refs_ok s" and rdy: "files_ready s" and t: "t \<in> set all_tasks"
    and c: "curr_task s = Some t" and o: "open_at s t (int k) f" and x: "fref (files s ! f) = 1"
  shows "\<exists>s'. sys_open_failed f (int k) s = Some (- 1, s') \<and> world s' = world s \<and> fref (files s' ! f) = 0
    \<and> (0 < k \<longrightarrow> refs_ok s' \<and> file_table (tasks s' t) ! k = None)"
proof -
  have kl: "k < nat TASK_OFILE_NR" and e: "file_table (tasks s t) ! k = Some f"
    using o by (simp_all add: open_at_def TASK_OFILE_NR_def)
  have len: "length (file_table (tasks s t)) = nat TASK_OFILE_NR" using ok t by (simp add: refs_ok_def)
  then have fl: "f < length (files s)"
    using ok t kl e nth_mem[of k "file_table (tasks s t)"] by (auto simp: refs_ok_def)
  let ?x = "(files s ! f)\<lparr>fref := 0\<rparr>"
  have ff: "file_free f s = Some (rel s ((files s)[f := ?x]))"
    using file_free_eq[OF rdy, of f] x by simp
  let ?s = "set_fd t k None (rel s ((files s)[f := ?x]))"
  have r: "task_remove_fd (int k) (rel s ((files s)[f := ?x]))
      = Some (if 0 < k then ?s else rel s ((files s)[f := ?x]))"
    using o c by (simp add: task_remove_fd_def open_at_def task_current_def)
  have "refs_ok ?s = refs_ok (set_fd t k None (s\<lparr>files := (files s)[f := ?x]\<rparr>))"
    by (rule refs_ok_cong, simp, rule set_fd_tasks, simp)
  then have "refs_ok ?s" using refs_ok_remove(1)[OF ok t kl e, of ?x] x by simp
  moreover have "file_table (tasks ?s t) ! k = None" using kl len by simp
  moreover have "sys_open_failed f (int k) s = Some (- 1, if 0 < k then ?s else rel s ((files s)[f := ?x]))"
    using ff r by (simp add: sys_open_failed_def)
  ultimately show ?thesis using fl by auto
qed

text \<open>Where the name of an open leads, \<open>L\<close> being the mounted file systems in order, and the
  file the file system is handed.\<close>

definition open_route :: "nat list \<Rightarrow> u8 list \<Rightarrow> ('h, 'w, 'm) vfs_scheme \<Rightarrow> nat \<times> u8 list option" where
  "open_route L name s = (case find (\<lambda>i. path_begin_with name (mount_point (fs_table s i))) L of
     Some i \<Rightarrow> (i, path_next_child name) | None \<Rightarrow> (root_fs s, Some name))"

definition fresh_file :: "int \<Rightarrow> nat \<Rightarrow> u8 list option \<Rightarrow> file_t" where
  "fresh_file flags fs path = zero_file\<lparr>fref := 1, fmode := flags, ffs := Some fs,
     file_name := (case path of None \<Rightarrow> [] | Some p \<Rightarrow> name_copy FILE_NAME_SIZE p)\<rparr>"

lemma fresh_file_ref [simp]: "fref (fresh_file flags fs path) = 1" "ffs (fresh_file flags fs path) = Some fs"
  by (simp_all add: fresh_file_def)

lemma sys_open_ok:
  assumes ok: "refs_ok s" and rdy: "files_ready s"
    and c: "curr_task s = Some t" and t: "t \<in> set all_tasks"
    and f: "find_free_file 0 (files s) = Some f" and k: "find_free_fd 0 (file_table (tasks s t)) = Some k"
    and L: "dll (fs_links s) (mounted_list s) L" and rt: "open_route L name s = (i, path)"
    and fsr: "fs_ready i s"
    and op: "op_open (ops (fs_op_type (fs_table s i))) i path (fresh_file flags i path) (world s) = Some (err, x, w)"
    and x: "fref x = 1"
  shows "\<exists>s'. sys_open ops name flags s = Some (if err < 0 then - 1 else int k, s') \<and> world s' = w
    \<and> (if err < 0 then fref (files s' ! f) = 0 \<and> (0 < k \<longrightarrow> refs_ok s' \<and> file_table (tasks s' t) ! k = None)
       else open_at s' t (int k) f \<and> files s' = (files s)[f := x] \<and> refs_ok s')"
proof -
  have fl: "f < length (files s)" "fref (files s ! f) = 0"
    using find_free_file_Some[OF f] by simp_all
  have kl: "k < length (file_table (tasks s t))" "file_table (tasks s t) ! k = None"
    using find_free_fd_Some[OF k] by simp_all
  have lt: "length (file_table (tasks s t)) = nat TASK_OFILE_NR" using ok t by (simp add: refs_ok_def)
  let ?s1 = "rel s ((files s)[f := zero_file\<lparr>fref := 1\<rparr>])"
  let ?s2 = "set_fd t k (Some f) ?s1"
  have a: "file_alloc s = Some (Some f, ?s1)" using file_alloc_eq[OF rdy] f by simp
  have b: "task_alloc_fd f ?s1 = Some (int k, ?s2)"
    using c k by (simp add: task_alloc_fd_def task_current_def)
  have r2: "refs_ok ?s2"
    by (rule refs_ok_install[OF ok t _ kl(2) fl(1)]) (use kl(1) lt fl(2) in simp_all)
  let ?m = "find (\<lambda>i. path_begin_with name (mount_point (fs_table s i))) L"
  have m: "find_mount (list_first (mounted_list ?s2)) name ?s2 = Some ?m"
    using find_mount_ok[of ?s2 "mounted_list s" "[]" L name] L by (simp add: dll_simps)
  have route: "(case ?m of Some i \<Rightarrow> (i, path_next_child name) | None \<Rightarrow> (root_fs s, Some name)) = (i, path)"
    using rt by (simp add: open_route_def)
  define s3 where "s3 = ?s2\<lparr>files := (files s)[f := fresh_file flags i path]\<rparr>"
  have s3: "(case path of None \<Rightarrow> upd_file f (\<lambda>x. x\<lparr>fmode := flags, fref := 1, ffs := Some i\<rparr>) ?s2
       | Some p \<Rightarrow> upd_file f (\<lambda>x. x\<lparr>file_name := name_copy FILE_NAME_SIZE p\<rparr>)
          (upd_file f (\<lambda>x. x\<lparr>fmode := flags, fref := 1, ffs := Some i\<rparr>) ?s2)) = s3"
    using fl(1) by (simp add: s3_def fresh_file_def upd_file_def zero_file_def split: option.split)
  have r3: "refs_ok s3"
    by (rule refs_ok_same_ref[OF r2, of _ f "fresh_file flags i path"]) (use fl(1) in \<open>simp_all add: s3_def\<close>)
  have fs3: "fs_ready i s3" using fsr by (simp add: fs_ready_def mutex_free_def s3_def)
  have "op_open (ops (fs_op_type (fs_table s i))) i path (files s3 ! f) (world s3) = Some (err, x, w)"
    using op fl(1) by (simp add: s3_def)
  from with_fs_file_ok[where op = "op_open (ops (fs_op_type (fs_table s i))) i path", OF fs3 this]
  obtain s4 where s4: "with_fs_file i f (op_open (ops (fs_op_type (fs_table s i))) i path) s3 = Some (err, s4)"
    "files s4 = (files s3)[f := x]" "tasks s4 = tasks s3" "curr_task s4 = curr_task s3"
    "wait_links s4 = wait_links s3" "file_alloc_mutex s4 = file_alloc_mutex s3" "world s4 = w" by blast
  have F: "files s4 = (files s)[f := x]" using s4(2) by (simp add: s3_def)
  have "fref x = fref (files s3 ! f)" using x fl(1) by (simp add: s3_def)
  then have r4: "refs_ok s4" by (rule refs_ok_same_ref[OF r3 s4(2) _ s4(3)])
  have o4: "open_at s4 t (int k) f"
    using kl(1) lt by (simp add: open_at_def s4(3) s3_def TASK_OFILE_NR_def)
  have eq: "sys_open ops name flags s
      = (if err < 0 then sys_open_failed f (int k) s4 else Some (int k, s4))"
    using a b m s3 s4(1) route
    by (cases ?m; cases path) (auto simp: sys_open_def Let_def s3_def)
  have rdy4: "files_ready s4" "curr_task s4 = Some t"
    using rdy c s4(4-6) by (simp_all add: files_ready_def mutex_free_def s3_def rel_def)
  have x1: "fref (files s4 ! f) = 1" using F x fl(1) by simp
  show ?thesis
    using eq o4 r4 F s4(7) open_failed_ok[OF r4 rdy4(1) t rdy4(2) o4 x1] by auto
qed

section \<open>Duplication and inheritance\<close>

lemma sys_dup_ok:
  assumes ok: "refs_ok s" and rdy: "files_ready s" and c: "curr_task s = Some t"
    and t: "t \<in> set all_tasks" and o: "open_at s t fd f"
    and k: "find_free_fd 0 (file_table (tasks s t)) = Some k"
  shows "\<exists>s'. sys_dup fd s = Some (int k, s') \<and> refs_ok s' \<and> open_at s' t (int k) f
    \<and> fref (files s' ! f) = fref (files s ! f) + 1"
proof -
  have kl: "k < length (file_table (tasks s t))" "file_table (tasks s t) ! k = None"
    using find_free_fd_Some[OF k] by simp_all
  have lt: "length (file_table (tasks s t)) = nat TASK_OFILE_NR" using ok t by (simp add: refs_ok_def)
  have "Some f \<in> set (file_table (tasks s t))"
    using o lt nth_mem[of "nat fd" "file_table (tasks s t)"] by (auto simp: open_at_def)
  then have fl: "f < length (files s)" using ok t by (simp add: refs_ok_def)
  let ?x = "(files s ! f)\<lparr>fref := fref (files s ! f) + 1\<rparr>"
  let ?s = "set_fd t k (Some f) (rel s ((files s)[f := ?x]))"
  have "refs_ok ?s" by (rule refs_ok_install[OF ok t _ kl(2) fl]) (use kl(1) lt in simp_all)
  moreover have "task_alloc_fd f s = Some (int k, set_fd t k (Some f) s)"
    using c k by (simp add: task_alloc_fd_def task_current_def)
  moreover have "file_inc_ref f (set_fd t k (Some f) s) = Some ?s"
    using file_inc_ref_eq[of "set_fd t k (Some f) s" f] rdy by (simp add: rel_set_fd)
  moreover have "open_at ?s t (int k) f" using kl(1) lt by (simp add: open_at_def TASK_OFILE_NR_def)
  ultimately show ?thesis using open_at_task_file[OF o c] fl by (simp add: sys_dup_def)
qed

lemma copy_fds_ok:
  assumes "refs_ok s" and "files_ready s" and "par \<in> set all_tasks" and "child \<in> set all_tasks"
    and "par \<noteq> child" and "distinct fds" and "set fds \<subseteq> {0..<nat TASK_OFILE_NR}"
    and "\<And>fd. fd \<in> set fds \<Longrightarrow> file_table (tasks s child) ! fd = None"
  shows "\<exists>s'. copy_fds fds par child s = Some s' \<and> refs_ok s'
    \<and> file_table (tasks s' par) = file_table (tasks s par)
    \<and> (\<forall>fd < nat TASK_OFILE_NR. file_table (tasks s' child) ! fd =
        (if fd \<in> set fds then file_table (tasks s par) ! fd else file_table (tasks s child) ! fd))"
  using assms
proof (induction fds arbitrary: s)
  case Nil
  then show ?case by simp
next
  case (Cons fd fds)
  have l: "length (file_table (tasks s u)) = nat TASK_OFILE_NR" if "u \<in> set all_tasks" for u
    using Cons.prems(1) that by (simp add: refs_ok_def)
  have fd: "fd < nat TASK_OFILE_NR" "fd \<notin> set fds" using Cons.prems(6,7) by auto
  show ?case
  proof (cases "file_table (tasks s par) ! fd")
    case None
    have e: "file_table (tasks s child) ! fd = None" using Cons.prems(8)[of fd] by simp
    have "\<exists>s'. copy_fds fds par child s = Some s' \<and> refs_ok s'
      \<and> file_table (tasks s' par) = file_table (tasks s par)
      \<and> (\<forall>fd < nat TASK_OFILE_NR. file_table (tasks s' child) ! fd =
          (if fd \<in> set fds then file_table (tasks s par) ! fd else file_table (tasks s child) ! fd))"
      by (rule Cons.IH) (use Cons.prems in auto)
    then show ?thesis using None e by auto
  next
    case (Some f)
    have e: "file_table (tasks s child) ! fd = None" using Cons.prems(8)[of fd] by simp
    have "Some f \<in> set (file_table (tasks s par))"
      using Some fd(1) l[OF Cons.prems(3)] by (metis nth_mem)
    then have fl: "f < length (files s)" using Cons.prems(1,3) by (simp add: refs_ok_def)
    let ?x = "(files s ! f)\<lparr>fref := fref (files s ! f) + 1\<rparr>"
    let ?s = "set_fd child fd (Some f) (rel s ((files s)[f := ?x]))"
    have r: "refs_ok ?s"
      by (rule refs_ok_install[OF Cons.prems(1,4) fd(1) e fl]) simp
    have "\<exists>s'. copy_fds fds par child ?s = Some s' \<and> refs_ok s'
      \<and> file_table (tasks s' par) = file_table (tasks ?s par)
      \<and> (\<forall>x < nat TASK_OFILE_NR. file_table (tasks s' child) ! x =
          (if x \<in> set fds then file_table (tasks ?s par) ! x else file_table (tasks ?s child) ! x))"
    proof (rule Cons.IH[OF r])
      show "files_ready ?s" using Cons.prems(2) by simp
      show "file_table (tasks ?s child) ! x = None" if "x \<in> set fds" for x
        using that Cons.prems(8)[of x] fd(2) by (cases "x = fd") auto
    qed (use Cons.prems in auto)
    moreover have "copy_fds (fd # fds) par child s = copy_fds fds par child ?s"
      using Some file_inc_ref_eq[OF Cons.prems(2), of f] by simp
    moreover have "(file_table (tasks s child))[fd := Some f] ! fd = Some f"
      using fd(1) l[OF Cons.prems(4)] by simp
    ultimately show ?thesis using Some Cons.prems(5) fd(2) by (auto simp: nth_list_update)
  qed
qed

section \<open>Closing\<close>

lemma sys_close_ok:
  assumes "refs_ok s" and "files_ready s" and "curr_task s = Some t"
    and "t \<in> set all_tasks" and "open_at s t fd f" and "0 < fd"
    and "fref (files s ! f) = 1 \<Longrightarrow> close_answer ops s f x w"
  shows "\<exists>s'. sys_close ops fd s = Some (0, s') \<and> refs_ok s' \<and> task_file fd s' = Some None
    \<and> fref (files s' ! f) = fref (files s ! f) - 1
    \<and> world s' = (if fref (files s ! f) = 1 then w else world s)"
proof -
  have fdl: "nat fd < nat TASK_OFILE_NR" "file_table (tasks s t) ! nat fd = Some f" "fd < TASK_OFILE_NR"
    using assms(5) by (auto simp: open_at_def TASK_OFILE_NR_def)
  have lt: "length (file_table (tasks s t)) = nat TASK_OFILE_NR" using assms(1,4) by (simp add: refs_ok_def)
  then have fl: "f < length (files s)"
    using assms(1,4) fdl nth_mem[of "nat fd" "file_table (tasks s t)"] by (auto simp: refs_ok_def)
  note pos = refs_ok_remove(2)[OF assms(1,4) fdl(1,2),
      of "(files s ! f)\<lparr>fref := fref (files s ! f) - 1\<rparr>", simplified]
  define y where "y = (if fref (files s ! f) = 1 then x else (files s ! f)\<lparr>fref := fref (files s ! f) - 1\<rparr>)"
  have y: "fref y = fref (files s ! f) - 1" using assms(7) by (auto simp: y_def close_answer_def)
  obtain s1 where s1: "sys_close ops fd s = do { s' \<leftarrow> task_remove_fd fd s1; Some (0, s') }"
    "files s1 = (files s)[f := y]" "world s1 = (if fref (files s ! f) = 1 then w else world s)"
    "tasks s1 = tasks s" "curr_task s1 = Some t"
    using close_body[OF assms(2,5,3) pos fl assms(7)] unfolding y_def by blast
  let ?s = "set_fd t (nat fd) None s1"
  have "task_remove_fd fd s1 = Some ?s"
    using assms(6) fdl(3) s1(5) by (simp add: task_remove_fd_def task_current_def)
  moreover have "refs_ok ?s"
  proof -
    have "refs_ok ?s = refs_ok (set_fd t (nat fd) None (s\<lparr>files := (files s)[f := y]\<rparr>))"
      by (rule refs_ok_cong, simp add: s1(2), rule set_fd_tasks, simp add: s1(4))
    with refs_ok_remove(1)[OF assms(1,4) fdl(1,2) y] show ?thesis by simp
  qed
  moreover have "task_file fd ?s = Some None"
    using assms(6) fdl lt s1(4,5) by (simp add: task_file_def task_current_def)
  moreover have "fref (files ?s ! f) = fref (files s ! f) - 1" using s1(2) y fl by simp
  ultimately show ?thesis using s1(1,3) by auto
qed

text \<open>Descriptor 0 survives its close: the call returns 0 and drops the reference, but the
  descriptor still refers to the file; closing it again when that was the last reference
  fails the kernel's assertion.\<close>

theorem close_zero_dangles:
  assumes "refs_ok s" and "files_ready s" and "curr_task s = Some t"
    and "t \<in> set all_tasks" and "open_at s t 0 f"
    and "fref (files s ! f) = 1" and "close_answer ops s f x w"
  shows "\<exists>s'. sys_close ops 0 s = Some (0, s') \<and> open_at s' t 0 f \<and> fref (files s' ! f) = 0
    \<and> sys_close ops 0 s' = None"
proof -
  have e: "file_table (tasks s t) ! 0 = Some f" using assms(5) by (simp add: open_at_def)
  have lt: "length (file_table (tasks s t)) = nat TASK_OFILE_NR" using assms(1,4) by (simp add: refs_ok_def)
  then have fl: "f < length (files s)"
    using assms(1,4) e nth_mem[of 0 "file_table (tasks s t)"]
    by (auto simp: refs_ok_def TASK_OFILE_NR_def)
  obtain s1 where s1: "sys_close ops 0 s = do { s' \<leftarrow> task_remove_fd 0 s1; Some (0, s') }"
    "files s1 = (files s)[f := x]" "tasks s1 = tasks s" "curr_task s1 = Some t"
    using close_body[OF assms(2,5,3) _ fl assms(7)] assms(6) by auto
  have "sys_close ops 0 s = Some (0, s1)" using s1(1) by (simp add: task_remove_fd_def)
  moreover have o: "open_at s1 t 0 f" using e by (simp add: open_at_def s1(3) TASK_OFILE_NR_def)
  moreover have z: "fref (files s1 ! f) = 0" using s1(2) fl assms(7) by (auto simp: close_answer_def)
  moreover have "sys_close ops 0 s1 = None"
    using open_at_task_file[OF o s1(4)] z by (simp add: sys_close_def)
  ultimately show ?thesis by blast
qed

text \<open>A forked child has exactly its parent's descriptors, the parent keeps its own, and
  every shared file's count has grown by the descriptors that now refer to it.\<close>

lemma fork_shares_files:
  assumes "refs_ok s" and "files_ready s" and "curr_task s = Some par" and "par \<in> set all_tasks"
    and "child \<in> set all_tasks" and "par \<noteq> child"
    and "file_table (tasks s child) = replicate (nat TASK_OFILE_NR) None"
  shows "\<exists>s'. copy_opened_files child s = Some s' \<and> refs_ok s'
    \<and> file_table (tasks s' child) = file_table (tasks s par)
    \<and> file_table (tasks s' par) = file_table (tasks s par)"
proof -
  obtain s' where s': "copy_fds [0..<nat TASK_OFILE_NR] par child s = Some s'" "refs_ok s'"
    "file_table (tasks s' par) = file_table (tasks s par)"
    "\<And>fd. fd < nat TASK_OFILE_NR \<Longrightarrow> file_table (tasks s' child) ! fd = file_table (tasks s par) ! fd"
    using copy_fds_ok[OF assms(1,2,4,5,6), of "[0..<nat TASK_OFILE_NR]"] assms(7) by fastforce
  have "length (file_table (tasks s' child)) = nat TASK_OFILE_NR"
    "length (file_table (tasks s par)) = nat TASK_OFILE_NR"
    using s'(2) assms(1,4,5) by (simp_all add: refs_ok_def)
  then have "file_table (tasks s' child) = file_table (tasks s par)"
    using s'(4) by (intro nth_equalityI) simp_all
  with s' assms(3) show ?thesis by (simp add: copy_opened_files_def task_current_def)
qed

section \<open>A concrete state\<close>

text \<open>
  The device file system is mounted as file system 0 at \<^verbatim>\<open>/dev\<close>, a FAT volume, the root, as
  file system 1 at \<^verbatim>\<open>/home\<close>; \<open>w\<close> is the state below them.  No file is open.
\<close>

definition demo_fs_table :: "nat \<Rightarrow> fs_t" where
  "demo_fs_table i =
    (if i = 0 then zero_fs\<lparr>mount_point := map of_char ''/dev''\<rparr>
     else zero_fs\<lparr>mount_point := map of_char ''/home'', fs_kind := FS_FATFS16, fs_op_type := FS_FATFS16,
       fs_mutex := Some \<lparr>locked_count = 0, owner = None, wait_list = blank_list\<rparr>\<rparr>)"

definition demo_files :: "'w \<Rightarrow> (unit, 'w) vfs" where
  "demo_files w = cpu.extend (demo_cpu ()) \<lparr>files = replicate 4 zero_file,
     file_alloc_mutex = \<lparr>locked_count = 0, owner = None, wait_list = blank_list\<rparr>,
     fs_table = demo_fs_table,
     fs_links = \<lparr>pre = (\<lambda>i. if i = 1 then Some 0 else None), nxt = (\<lambda>i. if i = 0 then Some 1 else None)\<rparr>,
     mounted_list = \<lparr>lfirst = Some 0, llast = Some 1, lcount = 2\<rparr>,
     free_list = \<lparr>lfirst = None, llast = None, lcount = 0\<rparr>, root_fs = 1, world = w\<rparr>"

lemma demo_files_facts [simp]:
  "files (demo_files w) = replicate 4 zero_file" "curr_task (demo_files w) = Some First_task"
  "tasks (demo_files w) = tasks demo_sched" "root_fs (demo_files w) = 1" "world (demo_files w) = w"
  "fs_table (demo_files w) = demo_fs_table"
  by (simp_all add: demo_files_def demo_cpu_def demo_mm_def cpu.defs mm.defs sched.defs demo_sched_def)

lemma demo_mounts: "dll (fs_links (demo_files w)) (mounted_list (demo_files w)) [0, 1]"
  by (simp add: demo_files_def cpu.defs dll_def)

lemma demo_table: "file_table (tasks demo_sched t) = replicate 128 None"
  by (simp add: demo_sched_def blank_task_def)

lemma demo_files_ok: "refs_ok (demo_files w)" "files_ready (demo_files w)" "fs_ready i (demo_files w)"
proof -
  have "count_list (replicate n None) (Some f) = 0" for n and f :: nat by (induction n) auto
  then have "fd_refs (demo_files w) f = 0" for f by (simp add: fd_refs_def demo_table)
  then show "refs_ok (demo_files w)" by (simp add: refs_ok_def demo_table TASK_OFILE_NR_def zero_file_def)
  show "files_ready (demo_files w)"
    by (auto simp: files_ready_def mutex_free_def demo_files_def demo_cpu_def demo_mm_def cpu.defs mm.defs sched.defs
        demo_sched_def dll_def blank_list_def all_tasks_def)
  show "fs_ready i (demo_files w)"
    by (simp add: fs_ready_def demo_fs_table_def zero_fs_def)
      (simp add: mutex_free_def demo_files_def demo_cpu_def demo_mm_def cpu.defs mm.defs sched.defs dll_def blank_list_def)
qed

text \<open>The first task has file 0, in the state \<open>x\<close>, open at one descriptor.\<close>

definition demo_open :: "'w \<Rightarrow> nat \<Rightarrow> file_t \<Rightarrow> (unit, 'w) vfs" where
  "demo_open w fd x = set_fd First_task fd (Some 0) (rel (demo_files w) ((files (demo_files w))[0 := x]))"

lemma demo_open_ok:
  assumes "fd < 128" and "fref x = 1"
  shows "refs_ok (demo_open w fd x)" and "files_ready (demo_open w fd x)" and "fs_ready i (demo_open w fd x)"
    and "open_at (demo_open w fd x) First_task (int fd) 0" and "curr_task (demo_open w fd x) = Some First_task"
    and "files (demo_open w fd x) ! 0 = x" and "world (demo_open w fd x) = w"
    and "fs_table (demo_open w fd x) = demo_fs_table"
proof -
  show "refs_ok (demo_open w fd x)"
    unfolding demo_open_def
    by (rule refs_ok_install[OF demo_files_ok(1)])
      (use assms in \<open>simp_all add: demo_table TASK_OFILE_NR_def zero_file_def all_tasks_def\<close>)
  show "files_ready (demo_open w fd x)" using demo_files_ok(2)[of w] by (simp add: demo_open_def)
  show "fs_ready i (demo_open w fd x)"
    using demo_files_ok(3)[of i w] by (simp add: demo_open_def fs_ready_def mutex_free_def rel_def)
  show "open_at (demo_open w fd x) First_task (int fd) 0"
    using assms by (simp add: open_at_def demo_open_def TASK_OFILE_NR_def demo_table)
  show "curr_task (demo_open w fd x) = Some First_task" by (simp add: demo_open_def)
  show "files (demo_open w fd x) ! 0 = x" by (simp add: demo_open_def numeral_eq_Suc)
  show "world (demo_open w fd x) = w" "fs_table (demo_open w fd x) = demo_fs_table"
    by (simp_all add: demo_open_def rel_def)
qed

lemma first_in_all: "First_task \<in> set all_tasks" "Table_task 0 \<in> set all_tasks"
  by (simp_all add: all_tasks_def)

end
