(* ===== verification/Dev.thy ===== *)
theory Dev
  imports Vfs
begin

text \<open>
  The device table of \<^verbatim>\<open>kernel/dev/dev.c\<close> and the device file system of
  \<^verbatim>\<open>kernel/fs/devfs/devfs.c\<close>.

  A device number is an index into the table; a device type is a record of driver functions
  over the drivers' state \<open>'s\<close>, and the descriptor table \<open>descs\<close> is an argument of the
  calls.  A driver's open may change the table entry it is given.  The interrupt guards make
  \<open>dev_open\<close> and \<open>dev_close\<close> one step each.
\<close>

section \<open>The device table\<close>

record device_t =
  ddesc :: "nat option"
  dmode :: int
  dminor :: int
  ddata :: u32
  open_count :: int

record 's dev_desc_t =
  desc_major :: int
  d_open :: "device_t \<Rightarrow> 's \<Rightarrow> (int \<times> device_t \<times> 's) option"
  d_read :: "device_t \<Rightarrow> int \<Rightarrow> u32 \<Rightarrow> int \<Rightarrow> 's \<Rightarrow> (int \<times> 's) option"
  d_write :: "device_t \<Rightarrow> int \<Rightarrow> u32 \<Rightarrow> int \<Rightarrow> 's \<Rightarrow> (int \<times> 's) option"
  d_control :: "device_t \<Rightarrow> int \<Rightarrow> int \<Rightarrow> int \<Rightarrow> 's \<Rightarrow> (int \<times> 's) option"
  d_close :: "device_t \<Rightarrow> 's \<Rightarrow> 's option"

record 's dev_state =
  dev_tbl :: "device_t list"
  drv :: 's

definition DEV_TABLE_SIZE :: nat where "DEV_TABLE_SIZE = 128"

definition zero_dev :: device_t where
  "zero_dev = \<lparr>ddesc = None, dmode = 0, dminor = 0, ddata = 0, open_count = 0\<rparr>"

definition is_devid_bad :: "int \<Rightarrow> ('s, 'm) dev_state_scheme \<Rightarrow> bool" where
  "is_devid_bad dev_id s \<longleftrightarrow>
     dev_id < 0 \<or> dev_id \<ge> int (length (dev_tbl s)) \<or> ddesc (dev_tbl s ! nat dev_id) = None"

text \<open>
  The scan: the last free entry seen so far, or the open entry that matches.  Reading the
  descriptor of an entry without one is a null dereference.
\<close>

fun scan_devs :: "'s dev_desc_t list \<Rightarrow> int \<Rightarrow> int \<Rightarrow> nat \<Rightarrow> device_t list \<Rightarrow> nat option
    \<Rightarrow> (nat option \<times> nat option) option" where
  "scan_devs descs major minor i [] free_dev = Some (free_dev, None)"
| "scan_devs descs major minor i (d # ds) free_dev =
    (if open_count d = 0 then scan_devs descs major minor (Suc i) ds (Some i)
     else case ddesc d of
         None \<Rightarrow> None
       | Some k \<Rightarrow>
           if desc_major (descs ! k) = major \<and> dminor d = minor then Some (free_dev, Some i)
           else scan_devs descs major minor (Suc i) ds free_dev)"

fun find_desc :: "int \<Rightarrow> nat \<Rightarrow> 's dev_desc_t list \<Rightarrow> nat option" where
  "find_desc major i [] = None"
| "find_desc major i (d # ds) = (if desc_major d = major then Some i else find_desc major (Suc i) ds)"

definition upd_dev :: "nat \<Rightarrow> (device_t \<Rightarrow> device_t) \<Rightarrow> ('s, 'm) dev_state_scheme \<Rightarrow> ('s, 'm) dev_state_scheme" where
  "upd_dev i f s = s\<lparr>dev_tbl := (dev_tbl s)[i := f (dev_tbl s ! i)]\<rparr>"

definition dev_open ::
    "'s dev_desc_t list \<Rightarrow> int \<Rightarrow> int \<Rightarrow> u32 \<Rightarrow> ('s, 'm) dev_state_scheme \<Rightarrow> (int \<times> ('s, 'm) dev_state_scheme) option" where
  "dev_open descs major minor data s =
    do {
      (free_dev, found) \<leftarrow> scan_devs descs major minor 0 (dev_tbl s) None;
      case found of
        Some i \<Rightarrow> Some (int i, upd_dev i (\<lambda>d. d\<lparr>open_count := open_count d + 1\<rparr>) s)
      | None \<Rightarrow>
          (case (find_desc major 0 descs, free_dev) of
             (Some k, Some f) \<Rightarrow> do {
               let d = (dev_tbl s ! f)\<lparr>dminor := minor, ddata := data, ddesc := Some k\<rparr>;
               (err, d, w) \<leftarrow> d_open (descs ! k) d (drv s);
               let s = s\<lparr>dev_tbl := (dev_tbl s)[f := d], drv := w\<rparr>;
               if err = 0 then Some (int f, upd_dev f (\<lambda>d. d\<lparr>open_count := 1\<rparr>) s)
               else Some (- 1, s)
             }
           | _ \<Rightarrow> Some (- 1, s))
    }"

text \<open>The driver of an entry; the calls below run only when it exists.\<close>

definition dev_desc :: "'s dev_desc_t list \<Rightarrow> device_t \<Rightarrow> 's dev_desc_t" where
  "dev_desc descs d = descs ! the (ddesc d)"

definition dev_read ::
    "'s dev_desc_t list \<Rightarrow> int \<Rightarrow> int \<Rightarrow> u32 \<Rightarrow> int \<Rightarrow> ('s, 'm) dev_state_scheme \<Rightarrow> (int \<times> ('s, 'm) dev_state_scheme) option" where
  "dev_read descs dev_id addr buf n s =
    (if is_devid_bad dev_id s then Some (- 1, s)
     else let d = dev_tbl s ! nat dev_id
          in do { (r, w) \<leftarrow> d_read (dev_desc descs d) d addr buf n (drv s); Some (r, s\<lparr>drv := w\<rparr>) })"

definition dev_write ::
    "'s dev_desc_t list \<Rightarrow> int \<Rightarrow> int \<Rightarrow> u32 \<Rightarrow> int \<Rightarrow> ('s, 'm) dev_state_scheme \<Rightarrow> (int \<times> ('s, 'm) dev_state_scheme) option" where
  "dev_write descs dev_id addr buf n s =
    (if is_devid_bad dev_id s then Some (- 1, s)
     else let d = dev_tbl s ! nat dev_id
          in do { (r, w) \<leftarrow> d_write (dev_desc descs d) d addr buf n (drv s); Some (r, s\<lparr>drv := w\<rparr>) })"

definition dev_control ::
    "'s dev_desc_t list \<Rightarrow> int \<Rightarrow> int \<Rightarrow> int \<Rightarrow> int \<Rightarrow> ('s, 'm) dev_state_scheme \<Rightarrow> (int \<times> ('s, 'm) dev_state_scheme) option" where
  "dev_control descs dev_id cmd arg0 arg1 s =
    (if is_devid_bad dev_id s then Some (- 1, s)
     else let d = dev_tbl s ! nat dev_id
          in do { (r, w) \<leftarrow> d_control (dev_desc descs d) d cmd arg0 arg1 (drv s); Some (r, s\<lparr>drv := w\<rparr>) })"

definition dev_close :: "'s dev_desc_t list \<Rightarrow> int \<Rightarrow> ('s, 'm) dev_state_scheme \<Rightarrow> ('s, 'm) dev_state_scheme option" where
  "dev_close descs dev_id s =
    (if is_devid_bad dev_id s then Some s
     else let i = nat dev_id;
              s = upd_dev i (\<lambda>d. d\<lparr>open_count := open_count d - 1\<rparr>) s;
              d = dev_tbl s ! i
          in if open_count d = 0
             then do { w \<leftarrow> d_close (dev_desc descs d) d (drv s);
                       Some (upd_dev i (\<lambda>_. zero_dev) (s\<lparr>drv := w\<rparr>)) }
             else Some s)"

section \<open>The device file system\<close>

definition DEV_TTY :: int where "DEV_TTY = 1"
definition DEV_DISK :: int where "DEV_DISK = 2"

text \<open>\<open>dev_type_list\<close> has one entry: name \<open>tty\<close>, device type and file type.\<close>

definition dev_type_list :: "(u8 list \<times> int \<times> file_type) list" where
  "dev_type_list = [(map of_char ''tty'', DEV_TTY, FILE_TTY)]"

text \<open>The functions without a \<open>return\<close>: the value in the return register is an argument.\<close>

definition devfs_mount :: "int \<Rightarrow> nat \<Rightarrow> fs_t \<Rightarrow> int \<Rightarrow> int \<Rightarrow> ('s, 'm) dev_state_scheme \<Rightarrow> (int \<times> fs_t \<times> ('s, 'm) dev_state_scheme) option" where
  "devfs_mount noret i fs major minor s = Some (noret, fs\<lparr>fs_kind := FS_DEVFS\<rparr>, s)"

text \<open>\<open>uninit\<close>: the local \<open>minor\<close> when the path has no number after the type name.\<close>

fun devfs_try :: "int \<Rightarrow> 's dev_desc_t list \<Rightarrow> (u8 list \<times> int \<times> file_type) list \<Rightarrow> nat \<Rightarrow> u8 list option
    \<Rightarrow> file_t \<Rightarrow> ('s, 'm) dev_state_scheme \<Rightarrow> (int \<times> file_t \<times> ('s, 'm) dev_state_scheme) option" where
  "devfs_try uninit descs [] fs path file s = Some (0, file, s)"
| "devfs_try uninit descs ((name, dev_type, ftyp) # ts) fs path file s =
    (case path of
       None \<Rightarrow> devfs_try uninit descs ts fs path file s
     | Some p \<Rightarrow>
         if is_prefix p name \<or> is_prefix name p
         then let n = length name;
                  minor = (if length p > n then snd (path_to_num (drop n p)) else uninit)
              in if length p > n \<and> fst (path_to_num (drop n p)) < 0 then Some (0, file, s)
                 else do {
                   (dev_id, s) \<leftarrow> dev_open descs dev_type minor 0 s;
                   Some (0, file\<lparr>fdev_id := dev_id, ffs := Some fs, fpos := 0, fsize := 0, ftype := ftyp\<rparr>, s)
                 }
         else devfs_try uninit descs ts fs path file s)"

definition devfs_open :: "int \<Rightarrow> 's dev_desc_t list \<Rightarrow> nat \<Rightarrow> u8 list option \<Rightarrow> file_t \<Rightarrow> ('s, 'm) dev_state_scheme
    \<Rightarrow> (int \<times> file_t \<times> ('s, 'm) dev_state_scheme) option" where
  "devfs_open uninit descs fs path file s = devfs_try uninit descs dev_type_list fs path file s"

definition devfs_read :: "'s dev_desc_t list \<Rightarrow> u32 \<Rightarrow> int \<Rightarrow> file_t \<Rightarrow> ('s, 'm) dev_state_scheme
    \<Rightarrow> (int \<times> file_t \<times> ('s, 'm) dev_state_scheme) option" where
  "devfs_read descs buf n file s =
    map_option (\<lambda>(r, s). (r, file, s)) (dev_read descs (fdev_id file) (fpos file) buf n s)"

definition devfs_write :: "'s dev_desc_t list \<Rightarrow> u32 \<Rightarrow> int \<Rightarrow> file_t \<Rightarrow> ('s, 'm) dev_state_scheme
    \<Rightarrow> (int \<times> file_t \<times> ('s, 'm) dev_state_scheme) option" where
  "devfs_write descs buf n file s =
    map_option (\<lambda>(r, s). (r, file, s)) (dev_write descs (fdev_id file) (fpos file) buf n s)"

definition devfs_close :: "'s dev_desc_t list \<Rightarrow> file_t \<Rightarrow> ('s, 'm) dev_state_scheme \<Rightarrow> (file_t \<times> ('s, 'm) dev_state_scheme) option" where
  "devfs_close descs file s = map_option (\<lambda>s. (file, s)) (dev_close descs (fdev_id file) s)"

definition devfs_seek :: "file_t \<Rightarrow> u32 \<Rightarrow> int \<Rightarrow> ('s, 'm) dev_state_scheme \<Rightarrow> (int \<times> file_t \<times> ('s, 'm) dev_state_scheme) option" where
  "devfs_seek file offset dir s = Some (- 1, file, s)"

definition devfs_ioctl :: "'s dev_desc_t list \<Rightarrow> file_t \<Rightarrow> int \<Rightarrow> int \<Rightarrow> int \<Rightarrow> ('s, 'm) dev_state_scheme
    \<Rightarrow> (int \<times> file_t \<times> ('s, 'm) dev_state_scheme) option" where
  "devfs_ioctl descs file cmd arg0 arg1 s =
    map_option (\<lambda>(r, s). (r, file, s)) (dev_control descs (fdev_id file) cmd arg0 arg1 s)"

text \<open>The operation table; the directory operations are null pointers.\<close>

definition devfs_op :: "int \<Rightarrow> int \<Rightarrow> 's dev_desc_t list \<Rightarrow> ('s, 'm) dev_state_scheme fs_op_t" where
  "devfs_op noret uninit descs = \<lparr>op_mount = devfs_mount noret, op_open = devfs_open uninit descs,
     op_read = devfs_read descs, op_write = devfs_write descs, op_close = devfs_close descs,
     op_seek = devfs_seek, op_ioctl = Some (devfs_ioctl descs),
     op_opendir = (\<lambda>_ _ _ _. None), op_readdir = (\<lambda>_ _ _ _. None), op_closedir = (\<lambda>_ _ _. None),
     op_unlink = (\<lambda>_ _ _. None)\<rparr>"

section \<open>One entry per open device\<close>

text \<open>\<open>opened descs d major minor\<close>: the entry is open and stands for this device.\<close>

definition opened :: "'s dev_desc_t list \<Rightarrow> device_t \<Rightarrow> int \<Rightarrow> int \<Rightarrow> bool" where
  "opened descs d major minor \<longleftrightarrow> open_count d \<noteq> 0 \<and> dminor d = minor
     \<and> (\<exists>k. ddesc d = Some k \<and> k < length descs \<and> desc_major (descs ! k) = major)"

definition dev_inv :: "'s dev_desc_t list \<Rightarrow> ('s, 'm) dev_state_scheme \<Rightarrow> bool" where
  "dev_inv descs s \<longleftrightarrow>
     (\<forall>d \<in> set (dev_tbl s). 0 \<le> open_count d
        \<and> (open_count d \<noteq> 0 \<longrightarrow> (\<exists>k. ddesc d = Some k \<and> k < length descs)))
     \<and> (\<forall>i j major minor. i < length (dev_tbl s) \<longrightarrow> j < length (dev_tbl s)
        \<longrightarrow> opened descs (dev_tbl s ! i) major minor \<longrightarrow> opened descs (dev_tbl s ! j) major minor \<longrightarrow> i = j)"

text \<open>What the table needs of the drivers: the open of the device asked for returns and keeps the
  key and the count of its entry, and every close returns.\<close>

definition drivers_ok :: "'s dev_desc_t list \<Rightarrow> int \<Rightarrow> int \<Rightarrow> bool" where
  "drivers_ok descs major minor \<longleftrightarrow>
     (\<forall>D \<in> set descs. (desc_major D = major \<longrightarrow> (\<forall>d w. dminor d = minor \<longrightarrow>
         (\<exists>r d' w'. d_open D d w = Some (r, d', w') \<and> dminor d' = dminor d
           \<and> ddesc d' = ddesc d \<and> open_count d' = open_count d)))
      \<and> (\<forall>d w. \<exists>w'. d_close D d w = Some w'))"

lemma scan_devs_result:
  assumes "\<And>d. d \<in> set ds \<Longrightarrow> open_count d \<noteq> 0 \<Longrightarrow> \<exists>k. ddesc d = Some k \<and> k < length descs"
  shows "\<exists>free found. scan_devs descs major minor i ds fr = Some (free, found)
    \<and> (case found of
         Some j \<Rightarrow> i \<le> j \<and> j < i + length ds \<and> opened descs (ds ! (j - i)) major minor
       | None \<Rightarrow> (\<forall>d \<in> set ds. \<not> opened descs d major minor)
           \<and> (case free of Some f \<Rightarrow> fr = Some f \<or> i \<le> f \<and> f < i + length ds \<and> open_count (ds ! (f - i)) = 0
              | None \<Rightarrow> fr = None \<and> (\<forall>d \<in> set ds. open_count d \<noteq> 0)))"
  using assms
proof (induction ds arbitrary: i fr)
  case (Cons d ds)
  have IH: "\<exists>free found. scan_devs descs major minor (Suc i) ds fr' = Some (free, found)
    \<and> (case found of
         Some j \<Rightarrow> Suc i \<le> j \<and> j < Suc i + length ds \<and> opened descs (ds ! (j - Suc i)) major minor
       | None \<Rightarrow> (\<forall>d \<in> set ds. \<not> opened descs d major minor)
           \<and> (case free of Some f \<Rightarrow> fr' = Some f \<or> Suc i \<le> f \<and> f < Suc i + length ds \<and> open_count (ds ! (f - Suc i)) = 0
              | None \<Rightarrow> fr' = None \<and> (\<forall>d \<in> set ds. open_count d \<noteq> 0)))" for fr'
    using Cons.IH[of "Suc i" fr'] Cons.prems by simp
  show ?case
  proof (cases "open_count d = 0")
    case True
    obtain free found where r: "scan_devs descs major minor (Suc i) ds (Some i) = Some (free, found)"
      and p: "case found of
         Some j \<Rightarrow> Suc i \<le> j \<and> j < Suc i + length ds \<and> opened descs (ds ! (j - Suc i)) major minor
       | None \<Rightarrow> (\<forall>d \<in> set ds. \<not> opened descs d major minor)
           \<and> (case free of Some f \<Rightarrow> Some i = Some f \<or> Suc i \<le> f \<and> f < Suc i + length ds \<and> open_count (ds ! (f - Suc i)) = 0
              | None \<Rightarrow> Some i = None \<and> (\<forall>d \<in> set ds. open_count d \<noteq> 0))"
      using IH[of "Some i"] by blast
    have "\<not> opened descs d major minor" using True by (simp add: opened_def)
    with r p True show ?thesis by (auto split: option.splits simp: nth_Cons')
  next
    case False
    obtain k where k: "ddesc d = Some k" "k < length descs" using Cons.prems False by auto
    show ?thesis
    proof (cases "desc_major (descs ! k) = major \<and> dminor d = minor")
      case True
      then show ?thesis using False k by (auto simp: opened_def)
    next
      case nm: False
      then have no: "\<not> opened descs d major minor" using k by (auto simp: opened_def)
      obtain free found where r: "scan_devs descs major minor (Suc i) ds fr = Some (free, found)"
        and p: "case found of
         Some j \<Rightarrow> Suc i \<le> j \<and> j < Suc i + length ds \<and> opened descs (ds ! (j - Suc i)) major minor
       | None \<Rightarrow> (\<forall>d \<in> set ds. \<not> opened descs d major minor)
           \<and> (case free of Some f \<Rightarrow> fr = Some f \<or> Suc i \<le> f \<and> f < Suc i + length ds \<and> open_count (ds ! (f - Suc i)) = 0
              | None \<Rightarrow> fr = None \<and> (\<forall>d \<in> set ds. open_count d \<noteq> 0))"
        using IH[of fr] by blast
      have "scan_devs descs major minor i (d # ds) fr = Some (free, found)"
        using False nm k r by auto
      with p no False show ?thesis by (auto split: option.splits simp: nth_Cons')
    qed
  qed
qed (simp split: option.split)

lemma find_desc_result:
  "case find_desc major i ds of
     Some k \<Rightarrow> i \<le> k \<and> k < i + length ds \<and> desc_major (ds ! (k - i)) = major
   | None \<Rightarrow> \<forall>d \<in> set ds. desc_major d \<noteq> major"
proof (induction ds arbitrary: i)
  case (Cons d ds)
  show ?case using Cons.IH[of "Suc i"] by (auto split: option.splits simp: nth_Cons')
qed simp

text \<open>An entry that gets a key no other open entry has keeps the invariant.\<close>

lemma dev_inv_upd:
  assumes inv: "dev_inv descs s" and i: "i < length (dev_tbl s)" and n: "0 \<le> open_count d"
    and k: "open_count d \<noteq> 0 \<Longrightarrow> \<exists>k. ddesc d = Some k \<and> k < length descs"
    and u: "\<And>major minor j. opened descs d major minor \<Longrightarrow> j < length (dev_tbl s) \<Longrightarrow> j \<noteq> i
      \<Longrightarrow> \<not> opened descs (dev_tbl s ! j) major minor"
  shows "dev_inv descs (s\<lparr>dev_tbl := (dev_tbl s)[i := d], drv := w\<rparr>)"
proof -
  have "0 \<le> open_count e \<and> (open_count e \<noteq> 0 \<longrightarrow> (\<exists>k. ddesc e = Some k \<and> k < length descs))"
    if "e \<in> set ((dev_tbl s)[i := d])" for e
    using that inv n k set_update_subset_insert[of "dev_tbl s" i d] by (auto simp: dev_inv_def)
  moreover have "a = b"
    if "a < length (dev_tbl s)" "b < length (dev_tbl s)" "opened descs ((dev_tbl s)[i := d] ! a) major minor"
      "opened descs ((dev_tbl s)[i := d] ! b) major minor" for a b major minor
    using that inv u i unfolding dev_inv_def by (metis nth_list_update)
  ultimately show ?thesis by (simp add: dev_inv_def)
qed

lemma opened_key_unique: "opened descs d a b \<Longrightarrow> opened descs d a' b' \<Longrightarrow> a = a' \<and> b = b'"
  by (auto simp: opened_def)

lemma dev_open_result:
  assumes "dev_inv descs s" and "drivers_ok descs major minor"
  shows "\<exists>r s'. dev_open descs major minor data s = Some (r, s') \<and>
    ((\<exists>j < length (dev_tbl s). opened descs (dev_tbl s ! j) major minor \<and> r = int j
        \<and> s' = s\<lparr>dev_tbl := (dev_tbl s)[j := (dev_tbl s ! j)\<lparr>open_count := open_count (dev_tbl s ! j) + 1\<rparr>],
             drv := drv s\<rparr>)
     \<or> (\<forall>d \<in> set (dev_tbl s). \<not> opened descs d major minor) \<and>
       (r = - 1 \<and> s' = s
        \<or> (\<exists>f d w. f < length (dev_tbl s) \<and> open_count (dev_tbl s ! f) = 0 \<and> open_count d = 0
             \<and> opened descs (d\<lparr>open_count := 1\<rparr>) major minor
             \<and> (r = - 1 \<and> s' = s\<lparr>dev_tbl := (dev_tbl s)[f := d], drv := w\<rparr>
                \<or> r = int f \<and> s' = s\<lparr>dev_tbl := (dev_tbl s)[f := d\<lparr>open_count := 1\<rparr>], drv := w\<rparr>))))"
proof -
  have nn: "\<And>d. d \<in> set (dev_tbl s) \<Longrightarrow> open_count d \<noteq> 0 \<Longrightarrow> \<exists>k. ddesc d = Some k \<and> k < length descs"
    using assms(1) by (auto simp: dev_inv_def)
  obtain free found where scan: "scan_devs descs major minor 0 (dev_tbl s) None = Some (free, found)"
    and res: "case found of
         Some j \<Rightarrow> j < length (dev_tbl s) \<and> opened descs (dev_tbl s ! j) major minor
       | None \<Rightarrow> (\<forall>d \<in> set (dev_tbl s). \<not> opened descs d major minor)
           \<and> (case free of Some f \<Rightarrow> f < length (dev_tbl s) \<and> open_count (dev_tbl s ! f) = 0 | None \<Rightarrow> True)"
    using scan_devs_result[of "dev_tbl s" descs major minor 0 None, OF nn] by (force split: option.splits)
  show ?thesis
  proof (cases found)
    case (Some j)
    have "dev_open descs major minor data s = Some (int j, s\<lparr>dev_tbl := (dev_tbl s)[j :=
        (dev_tbl s ! j)\<lparr>open_count := open_count (dev_tbl s ! j) + 1\<rparr>], drv := drv s\<rparr>)"
      using scan Some by (simp add: dev_open_def upd_dev_def)
    with res Some show ?thesis by fastforce
  next
    case None
    then have none: "\<forall>d \<in> set (dev_tbl s). \<not> opened descs d major minor" using res by simp
    show ?thesis
    proof (cases "find_desc major 0 descs = None \<or> free = None")
      case True
      then have "dev_open descs major minor data s = Some (- 1, s)"
        using scan None by (auto simp: dev_open_def split: option.splits)
      with none show ?thesis by blast
    next
      case False
      then obtain k f where kf: "find_desc major 0 descs = Some k" "free = Some f" by auto
      then have k: "k < length descs" "desc_major (descs ! k) = major"
        using find_desc_result[where major = major and i = 0 and ds = descs] by simp_all
      have f: "f < length (dev_tbl s)" "open_count (dev_tbl s ! f) = 0" using res None kf by simp_all
      let ?d = "(dev_tbl s ! f)\<lparr>dminor := minor, ddata := data, ddesc := Some k\<rparr>"
      have "\<forall>d w. dminor d = minor \<longrightarrow> (\<exists>r d' w'. d_open (descs ! k) d w = Some (r, d', w')
        \<and> dminor d' = dminor d \<and> ddesc d' = ddesc d \<and> open_count d' = open_count d)"
        using assms(2) nth_mem[OF k(1)] k(2) unfolding drivers_ok_def by blast
      from this[rule_format, of ?d "drv s"]
      have "\<exists>r d' w'. d_open (descs ! k) ?d (drv s) = Some (r, d', w') \<and> dminor d' = dminor ?d
        \<and> ddesc d' = ddesc ?d \<and> open_count d' = open_count ?d" by simp
      then obtain err d w where op: "d_open (descs ! k) ?d (drv s) = Some (err, d, w)" "dminor d = minor"
        "ddesc d = Some k" "open_count d = 0" using f(2) by auto
      have o: "opened descs (d\<lparr>open_count := 1\<rparr>) major minor" using op k by (simp add: opened_def)
      have "dev_open descs major minor data s = Some (if err = 0
          then (int f, s\<lparr>dev_tbl := (dev_tbl s)[f := d\<lparr>open_count := 1\<rparr>], drv := w\<rparr>)
          else (- 1, s\<lparr>dev_tbl := (dev_tbl s)[f := d], drv := w\<rparr>))"
        using scan None kf op f by (simp add: dev_open_def upd_dev_def)
      with none f op(4) o show ?thesis by (cases "err = 0") auto
    qed
  qed
qed

lemma dev_inv_keeps:
  assumes "dev_inv descs s" and "j < length (dev_tbl s)" and "opened descs (dev_tbl s ! j) a b"
    and "opened descs d a b" and "0 \<le> open_count d"
  shows "dev_inv descs (s\<lparr>dev_tbl := (dev_tbl s)[j := d], drv := w\<rparr>)"
proof (rule dev_inv_upd[OF assms(1,2,5)])
  show "\<not> opened descs (dev_tbl s ! i) x y"
    if "opened descs d x y" "i < length (dev_tbl s)" "i \<noteq> j" for x y i
    using that opened_key_unique[OF assms(4) that(1)] assms(1-3) by (auto simp: dev_inv_def)
qed (use assms(4) in \<open>auto simp: opened_def\<close>)

lemma dev_inv_closed:
  assumes "dev_inv descs s" and "j < length (dev_tbl s)" and "open_count d = 0"
  shows "dev_inv descs (s\<lparr>dev_tbl := (dev_tbl s)[j := d], drv := w\<rparr>)"
  by (rule dev_inv_upd[OF assms(1,2)]) (use assms(3) in \<open>auto simp: opened_def\<close>)

lemma dev_inv_new:
  assumes "dev_inv descs s" and "j < length (dev_tbl s)" and "opened descs d a b" and "0 \<le> open_count d"
    and "\<forall>d \<in> set (dev_tbl s). \<not> opened descs d a b"
  shows "dev_inv descs (s\<lparr>dev_tbl := (dev_tbl s)[j := d], drv := w\<rparr>)"
proof (rule dev_inv_upd[OF assms(1,2,4)])
  show "\<not> opened descs (dev_tbl s ! i) x y"
    if "opened descs d x y" "i < length (dev_tbl s)" "i \<noteq> j" for x y i
    using opened_key_unique[OF assms(3) that(1)] assms(5) that(2) by auto
qed (use assms(3) in \<open>auto simp: opened_def\<close>)

lemma dev_open_inv:
  assumes "dev_inv descs s" and "drivers_ok descs major minor" and "dev_open descs major minor data s = Some (r, s')"
  shows "dev_inv descs s'"
proof -
  have c: "0 \<le> open_count (dev_tbl s ! j)" if "j < length (dev_tbl s)" for j
    using assms(1) that by (simp add: dev_inv_def)
  then have o: "opened descs ((dev_tbl s ! j)\<lparr>open_count := open_count (dev_tbl s ! j) + 1\<rparr>) major minor"
    if "j < length (dev_tbl s)" "opened descs (dev_tbl s ! j) major minor" for j
    using that(2) c[OF that(1)] by (auto simp: opened_def)
  from dev_open_result[OF assms(1,2), of data] assms(3)
  consider (again) j where "j < length (dev_tbl s)" "opened descs (dev_tbl s ! j) major minor"
      "s' = s\<lparr>dev_tbl := (dev_tbl s)[j := (dev_tbl s ! j)\<lparr>open_count := open_count (dev_tbl s ! j) + 1\<rparr>],
             drv := drv s\<rparr>"
    | (same) "s' = s"
    | (failed) f d w where "f < length (dev_tbl s)" "open_count d = 0"
      "s' = s\<lparr>dev_tbl := (dev_tbl s)[f := d], drv := w\<rparr>"
    | (new) f d w where "\<forall>d \<in> set (dev_tbl s). \<not> opened descs d major minor" "f < length (dev_tbl s)"
      "opened descs (d\<lparr>open_count := 1\<rparr>) major minor"
      "s' = s\<lparr>dev_tbl := (dev_tbl s)[f := d\<lparr>open_count := 1\<rparr>], drv := w\<rparr>"
    by fastforce
  then show ?thesis
  proof cases
    case again
    show ?thesis unfolding again(3)
      by (rule dev_inv_keeps[OF assms(1) again(1,2) o[OF again(1,2)]]) (use c[OF again(1)] in simp)
  next
    case same
    then show ?thesis using assms(1) by simp
  next
    case failed
    then show ?thesis using dev_inv_closed[OF assms(1) failed(1,2)] by simp
  next
    case new
    then show ?thesis using dev_inv_new[OF assms(1) new(2,3) _ new(1)] by simp
  qed
qed

section \<open>Properties\<close>

text \<open>Opening a device returns an entry of the table that is open for exactly this device,
  or -1, and no device ever has two open entries: a device that is open already gets its
  entry back with one more reference, without its driver being called.\<close>

theorem dev_open_unique:
  assumes "dev_inv descs s" and "drivers_ok descs major minor"
  shows "\<exists>r s'. dev_open descs major minor data s = Some (r, s') \<and> dev_inv descs s'
    \<and> (r \<noteq> - 1 \<longrightarrow> 0 \<le> r \<and> nat r < length (dev_tbl s') \<and> opened descs (dev_tbl s' ! nat r) major minor)
    \<and> (\<forall>i < length (dev_tbl s). opened descs (dev_tbl s ! i) major minor \<longrightarrow>
        r = int i \<and> open_count (dev_tbl s' ! i) = open_count (dev_tbl s ! i) + 1 \<and> drv s' = drv s)"
proof -
  obtain r s' where d: "dev_open descs major minor data s = Some (r, s')"
    and c: "(\<exists>j < length (dev_tbl s). opened descs (dev_tbl s ! j) major minor \<and> r = int j
        \<and> s' = s\<lparr>dev_tbl := (dev_tbl s)[j := (dev_tbl s ! j)\<lparr>open_count := open_count (dev_tbl s ! j) + 1\<rparr>],
             drv := drv s\<rparr>)
     \<or> (\<forall>d \<in> set (dev_tbl s). \<not> opened descs d major minor) \<and>
       (r = - 1 \<and> s' = s
        \<or> (\<exists>f d w. f < length (dev_tbl s) \<and> open_count (dev_tbl s ! f) = 0 \<and> open_count d = 0
             \<and> opened descs (d\<lparr>open_count := 1\<rparr>) major minor
             \<and> (r = - 1 \<and> s' = s\<lparr>dev_tbl := (dev_tbl s)[f := d], drv := w\<rparr>
                \<or> r = int f \<and> s' = s\<lparr>dev_tbl := (dev_tbl s)[f := d\<lparr>open_count := 1\<rparr>], drv := w\<rparr>)))"
    using dev_open_result[OF assms, of data] by blast
  have inv: "dev_inv descs s'" by (rule dev_open_inv[OF assms d])
  from c show ?thesis
  proof (elim disjE conjE exE)
    fix j assume j: "j < length (dev_tbl s)" "opened descs (dev_tbl s ! j) major minor" "r = int j"
      "s' = s\<lparr>dev_tbl := (dev_tbl s)[j := (dev_tbl s ! j)\<lparr>open_count := open_count (dev_tbl s ! j) + 1\<rparr>],
             drv := drv s\<rparr>"
    have "0 \<le> open_count (dev_tbl s ! j)" using assms(1) j(1) by (simp add: dev_inv_def)
    then have o: "opened descs (dev_tbl s' ! j) major minor" using j by (simp add: opened_def)
    have u: "i = j" if "i < length (dev_tbl s)" "opened descs (dev_tbl s ! i) major minor" for i
      using that j(1,2) assms(1) by (auto simp: dev_inv_def)
    have l: "length (dev_tbl s') = length (dev_tbl s)" "drv s' = drv s"
      "open_count (dev_tbl s' ! j) = open_count (dev_tbl s ! j) + 1" using j(1,4) by simp_all
    show ?thesis
      by (intro exI conjI, rule d, rule inv) (use j(1,3) o l u in auto)
  qed (use d inv in auto)
qed

text \<open>Opening a device and closing it again leaves the table as it was when the device was
  open before, and clears its entry when it was not.\<close>

theorem dev_open_close:
  assumes "dev_inv descs s" and "drivers_ok descs major minor" and "dev_open descs major minor data s = Some (r, s')"
    and "r \<noteq> - 1"
  shows "\<exists>s''. dev_close descs r s' = Some s'' \<and> dev_inv descs s''
    \<and> (if \<exists>d \<in> set (dev_tbl s). opened descs d major minor then dev_tbl s'' = dev_tbl s
       else dev_tbl s'' = (dev_tbl s)[nat r := zero_dev])"
proof -
  have inv: "dev_inv descs s'" by (rule dev_open_inv[OF assms(1-3)])
  from dev_open_result[OF assms(1,2), of data] assms(3,4)
  consider (again) j where "j < length (dev_tbl s)" "opened descs (dev_tbl s ! j) major minor" "r = int j"
      "s' = s\<lparr>dev_tbl := (dev_tbl s)[j := (dev_tbl s ! j)\<lparr>open_count := open_count (dev_tbl s ! j) + 1\<rparr>],
             drv := drv s\<rparr>"
    | (new) f d w where "\<forall>d \<in> set (dev_tbl s). \<not> opened descs d major minor" "f < length (dev_tbl s)"
      "opened descs (d\<lparr>open_count := 1\<rparr>) major minor" "r = int f"
      "s' = s\<lparr>dev_tbl := (dev_tbl s)[f := d\<lparr>open_count := 1\<rparr>], drv := w\<rparr>"
    by fastforce
  then show ?thesis
  proof cases
    case again
    have "0 \<le> open_count (dev_tbl s ! j)" using assms(1) again(1) by (simp add: dev_inv_def)
    then have c: "0 < open_count (dev_tbl s ! j)" using again(2) by (simp add: opened_def)
    obtain k where k: "ddesc (dev_tbl s ! j) = Some k" using again(2) by (auto simp: opened_def)
    have "dev_close descs r s' = Some (s\<lparr>dev_tbl := dev_tbl s, drv := drv s\<rparr>)"
      using again c k by (simp add: dev_close_def is_devid_bad_def upd_dev_def Let_def)
    moreover have "\<exists>d \<in> set (dev_tbl s). opened descs d major minor" using again(1,2) nth_mem by blast
    ultimately show ?thesis using assms(1) by simp
  next
    case new
    obtain k where k: "ddesc d = Some k" "k < length descs" using new(3) by (auto simp: opened_def)
    have "\<forall>e w. \<exists>w'. d_close (descs ! k) e w = Some w'"
      using assms(2) nth_mem[OF k(2)] by (simp add: drivers_ok_def)
    then obtain w' where w': "d_close (descs ! k) (d\<lparr>open_count := 0\<rparr>) w = Some w'" by blast
    have "dev_close descs r s' = Some (s\<lparr>dev_tbl := (dev_tbl s)[f := zero_dev], drv := w'\<rparr>)"
      using new(2,4,5) k w' by (simp add: dev_close_def is_devid_bad_def upd_dev_def dev_desc_def Let_def)
    moreover have "dev_inv descs (s\<lparr>dev_tbl := (dev_tbl s)[f := zero_dev], drv := w'\<rparr>)"
      by (rule dev_inv_closed[OF assms(1) new(2)]) (simp add: zero_dev_def)
    ultimately show ?thesis using new(1,4) by auto
  qed
qed

section \<open>Closing through the device file system\<close>

text \<open>\<open>devs_ok\<close>: the entries refer to existing drivers, and open entries have one.  It is kept by
  opening and closing whatever identifiers the files hold.\<close>

definition devs_ok :: "'s dev_desc_t list \<Rightarrow> ('s, 'm) dev_state_scheme \<Rightarrow> bool" where
  "devs_ok descs s \<longleftrightarrow> (\<forall>d \<in> set (dev_tbl s). (open_count d \<noteq> 0 \<longrightarrow> ddesc d \<noteq> None)
     \<and> (\<forall>k. ddesc d = Some k \<longrightarrow> k < length descs))"

lemma devs_ok_upd:
  assumes "devs_ok descs s" and "open_count d \<noteq> 0 \<Longrightarrow> ddesc d \<noteq> None"
    and "\<And>k. ddesc d = Some k \<Longrightarrow> k < length descs" and "dev_tbl s' = (dev_tbl s)[i := d]"
  shows "devs_ok descs s'"
  using assms set_update_subset_insert[of "dev_tbl s" i d] by (auto simp: devs_ok_def)

text \<open>The drivers of the code have nothing to do when their device is closed.\<close>

definition quiet_close :: "'s dev_desc_t list \<Rightarrow> bool" where
  "quiet_close descs \<longleftrightarrow> (\<forall>D \<in> set descs. \<forall>d w. d_close D d w = Some w)"

lemma dev_close_ok:
  fixes s :: "('s, 'm) dev_state_scheme"
  assumes ok: "devs_ok descs s" and D: "quiet_close descs"
  shows "\<exists>s'. dev_close descs i s = Some s' \<and> devs_ok descs s'
    \<and> (s' = s \<or> 0 \<le> i \<and> (\<exists>d. s' = s\<lparr>dev_tbl := (dev_tbl s)[nat i := d]\<rparr>))"
proof (cases "is_devid_bad i s")
  case True
  then show ?thesis using ok by (simp add: dev_close_def)
next
  case False
  then obtain k where i: "0 \<le> i" "nat i < length (dev_tbl s)" "ddesc (dev_tbl s ! nat i) = Some k"
    by (auto simp: is_devid_bad_def)
  then have k: "k < length descs" using ok nth_mem[OF i(2)] by (auto simp: devs_ok_def)
  let ?d = "(dev_tbl s ! nat i)\<lparr>open_count := open_count (dev_tbl s ! nat i) - 1\<rparr>"
  define e where "e = (if open_count (dev_tbl s ! nat i) = 1 then zero_dev else ?d)"
  have "d_close (descs ! k) d w = Some w" for d w using D nth_mem[OF k] by (simp add: quiet_close_def)
  then have "dev_close descs i s = Some (s\<lparr>dev_tbl := (dev_tbl s)[nat i := e]\<rparr>)"
    using False i by (cases s) (simp add: dev_close_def upd_dev_def dev_desc_def Let_def e_def)
  moreover have "devs_ok descs (s\<lparr>dev_tbl := (dev_tbl s)[nat i := e]\<rparr>)"
    by (rule devs_ok_upd[OF ok, of e _ "nat i"]) (use i k in \<open>simp_all add: e_def zero_dev_def split: if_splits\<close>)
  ultimately show ?thesis using i(1) by blast
qed

section \<open>Witnesses\<close>

definition demo_driver :: "unit dev_desc_t" where
  "demo_driver = \<lparr>desc_major = 1, d_open = (\<lambda>d w. Some (0, d, w)), d_read = (\<lambda>_ _ _ _ w. Some (0, w)),
     d_write = (\<lambda>_ _ _ _ w. Some (0, w)), d_control = (\<lambda>_ _ _ _ w. Some (0, w)), d_close = (\<lambda>_ w. Some w)\<rparr>"

definition demo_devs :: "unit dev_state" where
  "demo_devs = \<lparr>dev_tbl = replicate 2 zero_dev, drv = ()\<rparr>"

lemma demo_devs_ok: "dev_inv [demo_driver] demo_devs" "drivers_ok [demo_driver] major minor"
proof -
  show "dev_inv [demo_driver] demo_devs"
    by (auto simp: dev_inv_def demo_devs_def zero_dev_def opened_def)
  show "drivers_ok [demo_driver] major minor" by (simp add: drivers_ok_def demo_driver_def)
qed

theorem dev_open_unique_witness:
  "\<exists>r s'. dev_open [demo_driver] 1 3 0 demo_devs = Some (r, s') \<and> dev_inv [demo_driver] s'"
  using dev_open_unique[OF demo_devs_ok(1), of 1 3 0] demo_devs_ok(2) by blast

theorem dev_open_close_witness:
  "\<exists>s' s''. dev_open [demo_driver] 1 3 0 demo_devs = Some (1, s')
    \<and> dev_close [demo_driver] 1 s' = Some s'' \<and> dev_tbl s'' = dev_tbl demo_devs"
proof -
  obtain s' where s': "dev_open [demo_driver] 1 3 0 demo_devs = Some (1, s')"
    by (simp add: dev_open_def demo_devs_def demo_driver_def zero_dev_def numeral_2_eq_2 upd_dev_def)
  have none: "\<not> (\<exists>d \<in> set (dev_tbl demo_devs). opened [demo_driver] d 1 3)"
    by (simp add: demo_devs_def zero_dev_def opened_def)
  obtain s'' where "dev_close [demo_driver] 1 s' = Some s''" "dev_tbl s'' = (dev_tbl demo_devs)[nat 1 := zero_dev]"
    using dev_open_close[OF demo_devs_ok(1) demo_devs_ok(2) s'] none by auto
  with s' show ?thesis by (simp add: demo_devs_def numeral_2_eq_2)
qed

end
