(* ===== verification/Blocks.thy ===== *)
theory Blocks
  imports Klib
begin

text \<open>
  Blocks of bytes in memory: reading and writing a list of bytes at an address, and the
  16-bit words of packed structures.  The lemmas describe them by offsets from the start of
  the block, modulo the address space.
\<close>

primrec store_bytes :: "memory \<Rightarrow> u32 \<Rightarrow> u8 list \<Rightarrow> memory" where
  "store_bytes m a [] = m"
| "store_bytes m a (x # xs) = store_bytes (m(a := x)) (a + 1) xs"

definition load_bytes :: "memory \<Rightarrow> u32 \<Rightarrow> nat \<Rightarrow> u8 list" where
  "load_bytes m a n = map (\<lambda>i. m (a + of_nat i)) [0..<n]"

definition load16 :: "memory \<Rightarrow> u32 \<Rightarrow> u16" where
  "load16 m a = ucast (m a) OR push_bit 8 (ucast (m (a + 1)))"

definition store16 :: "memory \<Rightarrow> u32 \<Rightarrow> u16 \<Rightarrow> memory" where
  "store16 m a v = m(a := ucast v, a + 1 := ucast (drop_bit 8 v))"

definition mem_has :: "memory \<Rightarrow> u32 \<Rightarrow> u8 list \<Rightarrow> bool" where
  "mem_has m p xs \<longleftrightarrow> (\<forall>j < length xs. m (p + of_nat j) = xs ! j)"

lemma load_bytes_length [simp]: "length (load_bytes m a n) = n"
  by (simp add: load_bytes_def)

lemma load_bytes_nth [simp]: "i < n \<Longrightarrow> load_bytes m a n ! i = m (a + of_nat i)"
  by (simp add: load_bytes_def)

lemma mem_has_load: "mem_has m a xs \<longleftrightarrow> load_bytes m a (length xs) = xs"
  by (auto simp: mem_has_def list_eq_iff_nth_eq)

lemma mem_hasD: "mem_has m a xs \<Longrightarrow> j < length xs \<Longrightarrow> m (a + of_nat j) = xs ! j"
  by (simp add: mem_has_def)

lemma mem_has_load_bytes [simp]: "mem_has m a (load_bytes m a n)"
  by (simp add: mem_has_def)

lemma mem_has_snoc:
  assumes "mem_has m p xs" and "length xs < 2 ^ 32"
  shows "mem_has (m(p + of_nat (length xs) := x)) p (xs @ [x])"
proof -
  have "p + of_nat j \<noteq> p + of_nat (length xs)" if "j < length xs" for j
    using that assms(2) by (simp add: word_of_nat_eq_iff take_bit_nat_eq_self)
  with assms(1) show ?thesis by (auto simp: mem_has_def nth_append less_Suc_eq)
qed

lemma mem_has_butlast: "mem_has m p xs \<Longrightarrow> mem_has m p (butlast xs)"
  by (simp add: mem_has_def nth_butlast)

lemma mem_has_append:
  "mem_has m p (xs @ ys) \<longleftrightarrow> mem_has m p xs \<and> mem_has m (p + of_nat (length xs)) ys"
proof
  assume h: "mem_has m p (xs @ ys)"
  have "m (p + of_nat (length xs) + of_nat j) = ys ! j" if "j < length ys" for j
    using mem_hasD[OF h, of "length xs + j"] that by (simp add: add.assoc)
  moreover have "m (p + of_nat j) = xs ! j" if "j < length xs" for j
    using mem_hasD[OF h, of j] that by (simp add: nth_append)
  ultimately show "mem_has m p xs \<and> mem_has m (p + of_nat (length xs)) ys"
    by (simp add: mem_has_def)
next
  assume h: "mem_has m p xs \<and> mem_has m (p + of_nat (length xs)) ys"
  show "mem_has m p (xs @ ys)" unfolding mem_has_def
  proof (intro allI impI)
    fix j assume j: "j < length (xs @ ys)"
    show "m (p + of_nat j) = (xs @ ys) ! j"
    proof (cases "j < length xs")
      case True
      then show ?thesis using h by (simp add: mem_has_def nth_append)
    next
      case False
      then have "m (p + of_nat (length xs) + of_nat (j - length xs)) = ys ! (j - length xs)"
        using mem_hasD[OF conjunct2[OF h], of "j - length xs"] j by fastforce
      moreover have "p + of_nat (length xs) + of_nat (j - length xs) = (p + of_nat j :: u32)"
        using False by (simp add: of_nat_diff)
      ultimately have "m (p + of_nat j) = ys ! (j - length xs)" by metis
      then show ?thesis using False by (simp add: nth_append)
    qed
  qed
qed

lemma mem_has_take: "mem_has m p xs \<Longrightarrow> mem_has m p (take n xs)"
  by (simp add: mem_has_def)

text \<open>The offset of an address in a block.\<close>

lemma unat_of_nat32: "i < 2 ^ 32 \<Longrightarrow> unat (of_nat i :: u32) = i"
  by (simp add: unsigned_of_nat take_bit_nat_eq_self)

lemma offset_of_nat [simp]: "i < 2 ^ 32 \<Longrightarrow> unat (a + of_nat i - a :: u32) = i"
  by (simp add: unat_of_nat32)

lemma store_bytes_ok:
  "length xs \<le> 2 ^ 32 \<Longrightarrow>
    store_bytes m a xs x = (if unat (x - a) < length xs then xs ! unat (x - a) else m x)"
proof (induction xs arbitrary: m a)
  case (Cons y ys)
  have IH: "store_bytes (m(a := y)) (a + 1) ys x
    = (if unat (x - (a + 1)) < length ys then ys ! unat (x - (a + 1)) else (m(a := y)) x)"
    by (rule Cons.IH) (use Cons.prems in simp)
  show ?case
  proof (cases "x = a")
    case True
    have "unat (- 1 :: u32) = 2 ^ 32 - 1"
      by (simp add: unsigned_minus_1_eq_mask mask_eq_exp_minus_1)
    with Cons.prems have "\<not> unat (- 1 :: u32) < length ys" by simp
    with True IH show ?thesis by simp
  next
    case False
    then have "unat (x - (a + 1)) = unat (x - a) - 1" "0 < unat (x - a)"
      using unat_minus_one[of "x - a"] by (simp_all add: diff_diff_eq unat_gt_0)
    with False IH show ?thesis by (auto simp: nth_Cons' less_diff_conv)
  qed
qed simp

lemma mem_has_store: "length xs \<le> 2 ^ 32 \<Longrightarrow> mem_has (store_bytes m a xs) a xs"
  by (auto simp: mem_has_def store_bytes_ok unat_of_nat32)

lemma mem_has_frame:
  "mem_has m p xs \<Longrightarrow> (\<And>x. unat (x - p) < length xs \<Longrightarrow> m' x = m x) \<Longrightarrow> length xs \<le> 2 ^ 32
    \<Longrightarrow> mem_has m' p xs"
  by (auto simp: mem_has_def unat_of_nat32)

section \<open>Arithmetic on addresses\<close>

lemma of_nat_div32: "a < 2 ^ 32 \<Longrightarrow> b < 2 ^ 32 \<Longrightarrow> (of_nat a :: u32) div of_nat b = of_nat (a div b)"
  by (simp add: word_arith_nat_div unat_of_nat32)

lemma of_nat_mod32: "a < 2 ^ 32 \<Longrightarrow> b < 2 ^ 32 \<Longrightarrow> (of_nat a :: u32) mod of_nat b = of_nat (a mod b)"
  by (simp add: word_arith_nat_mod unat_of_nat32)

lemma of_nat_le32: "a < 2 ^ 32 \<Longrightarrow> b < 2 ^ 32 \<Longrightarrow> (of_nat a :: u32) \<le> of_nat b \<longleftrightarrow> a \<le> b"
  by (simp add: word_le_nat_alt unat_of_nat32)

lemma stretch_offset:
  fixes x buf :: u32
  assumes "w \<le> unat (x - buf)"
  shows "unat (x - (buf + of_nat w)) = unat (x - buf) - w"
proof -
  have e: "x - (buf + of_nat w) = (x - buf) - of_nat w" by simp
  have w: "unat (of_nat w :: u32) = w"
    using assms unsigned_less[of "x - buf", where ?'a = nat] by (simp add: unat_of_nat32)
  have "of_nat w \<le> x - buf" using assms w by (simp only: word_le_nat_alt)
  then show ?thesis unfolding e using unat_sub[of "of_nat w" "x - buf"] w by simp
qed

lemma before_stretch:
  fixes buf :: u32
  assumes "i < w" and "w \<le> r" and "r \<le> 2 ^ 32"
  shows "r - w \<le> unat (buf + of_nat i - (buf + of_nat w))"
proof (cases "r = w")
  case False
  then have "w < 2 ^ 32" using assms by simp
  then have "buf + of_nat i - (buf + of_nat w) = (of_nat (2 ^ 32 - (w - i)) :: u32)"
    using assms(1) by (simp add: of_nat_diff)
  moreover have "2 ^ 32 - (w - i) < (2 ^ 32 :: nat)" using assms(1) \<open>w < 2 ^ 32\<close> by simp
  ultimately have "unat (buf + of_nat i - (buf + of_nat w)) = 2 ^ 32 - (w - i)" by (simp only: unat_of_nat32)
  then show ?thesis using assms by simp
qed simp

section \<open>Parts of a block\<close>

lemma mem_has_drop: "mem_has m p xs \<Longrightarrow> n \<le> length xs \<Longrightarrow> mem_has m (p + of_nat n) (drop n xs)"
  using mem_has_append[of m p "take n xs" "drop n xs"] by simp

lemma mem_has_splice:
  assumes "mem_has m a ys" and "n + length xs \<le> length ys" and "length ys \<le> 2 ^ 32"
  shows "mem_has (store_bytes m (a + of_nat n) xs) a (take n ys @ xs @ drop (n + length xs) ys)"
proof -
  have "store_bytes m (a + of_nat n) xs (a + of_nat j) = (take n ys @ xs @ drop (n + length xs) ys) ! j"
    if j: "j < length ys" for j
  proof -
    have u: "unat (a + of_nat j - a) = j" using j assms(3) unat_of_nat32[of j] by simp
    show ?thesis
    proof (cases "n \<le> j")
      case True
      then have "unat (a + of_nat j - (a + of_nat n)) = j - n" using stretch_offset[of n "a + of_nat j" a] u by simp
      then show ?thesis using True j assms mem_hasD[OF assms(1) j]
        by (simp add: store_bytes_ok nth_append nth_drop min_def)
    next
      case False
      then have "length xs \<le> unat (a + of_nat j - (a + of_nat n))"
        using before_stretch[of j n "n + length xs" a] assms(2,3) by simp
      then show ?thesis using False j assms mem_hasD[OF assms(1) j] by (simp add: store_bytes_ok nth_append min_def)
    qed
  qed
  moreover have "length (take n ys @ xs @ drop (n + length xs) ys) = length ys" using assms(2) by simp
  ultimately show ?thesis unfolding mem_has_def by metis
qed

lemma slice_splice_same:
  "n + length xs \<le> length ys \<Longrightarrow> take (length xs) (drop n (take n ys @ xs @ drop (n + length xs) ys)) = xs"
  by simp

lemma slice_splice_other:
  assumes "n + length xs \<le> length ys" and "m + l \<le> n \<or> n + length xs \<le> m"
  shows "take l (drop m (take n ys @ xs @ drop (n + length xs) ys)) = take l (drop m ys)"
proof (rule nth_equalityI)
  let ?zs = "take n ys @ xs @ drop (n + length xs) ys"
  have zl: "length ?zs = length ys" using assms(1) by simp
  show "length (take l (drop m ?zs)) = length (take l (drop m ys))"
    by (simp only: length_take length_drop zl)
  fix i assume "i < length (take l (drop m ?zs))"
  then have i: "i < l" "m + i < length ys" unfolding length_take length_drop zl by auto
  then have "?zs ! (m + i) = ys ! (m + i)" using assms by (auto simp: nth_append min_def)
  then show "take l (drop m ?zs) ! i = take l (drop m ys) ! i"
    using i zl by (simp only: nth_take nth_drop less_imp_le)
qed

lemma drop_concat_blocks:
  "(\<And>x. x \<in> set xs \<Longrightarrow> length (f x) = b) \<Longrightarrow> drop (b * n) (concat (map f xs)) = concat (map f (drop n xs))"
proof (induction n arbitrary: xs)
  case (Suc n)
  show ?case
  proof (cases xs)
    case (Cons x ys)
    then show ?thesis using Suc.IH[of ys] Suc.prems by simp
  qed simp
qed simp

section \<open>16-bit words in a list of bytes\<close>

definition le16 :: "u8 list \<Rightarrow> nat \<Rightarrow> u16" where
  "le16 xs i = ucast (xs ! i) OR push_bit 8 (ucast (xs ! (i + 1)))"

definition le32 :: "u8 list \<Rightarrow> nat \<Rightarrow> u32" where
  "le32 xs i = ucast (xs ! i) OR push_bit 8 (ucast (xs ! (i + 1)))
     OR push_bit 16 (ucast (xs ! (i + 2))) OR push_bit 24 (ucast (xs ! (i + 3)))"

definition put16 :: "u8 list \<Rightarrow> nat \<Rightarrow> u16 \<Rightarrow> u8 list" where
  "put16 xs i v = xs[i := ucast v, i + 1 := ucast (drop_bit 8 v)]"

lemma put16_length [simp]: "length (put16 xs i v) = length xs"
  by (simp add: put16_def)

lemma load16_le16:
  assumes "mem_has m a xs" and "i + 1 < length xs"
  shows "load16 m (a + of_nat i) = le16 xs i"
  using mem_hasD[OF assms(1), of i] mem_hasD[OF assms(1), of "i + 1"] assms(2)
  by (simp add: load16_def le16_def add_ac)

lemma bytes_of_u16: "ucast (ucast v :: u8) OR push_bit 8 (ucast (ucast (drop_bit 8 v) :: u8)) = (v :: u16)"
  by (rule bit_word_eqI) (auto simp: bit_simps)

lemma le16_put16 [simp]: "i + 1 < length xs \<Longrightarrow> le16 (put16 xs i v) i = v"
  by (simp add: le16_def put16_def bytes_of_u16)

lemma le16_put16_other [simp]:
  "j + 1 < i \<or> i + 1 < j \<Longrightarrow> le16 (put16 xs i v) j = le16 xs j"
  by (auto simp: le16_def put16_def)

lemma mem_has_store16:
  assumes "mem_has m a xs" and "i + 1 < length xs" and "length xs \<le> 2 ^ 32"
  shows "mem_has (store16 m (a + of_nat i) v) a (put16 xs i v)"
proof -
  have eq: "a + of_nat j = a + of_nat i' \<longleftrightarrow> j = i'" if "j < length xs" "i' < length xs" for j i'
    using that assms(3) by (simp add: word_of_nat_eq_iff take_bit_nat_eq_self)
  have s: "a + of_nat i + 1 = (a + of_nat (i + 1) :: u32)" by (simp add: add_ac)
  show ?thesis unfolding mem_has_def store16_def s
  proof (intro allI impI)
    fix j assume "j < length (put16 xs i v)"
    then have j: "j < length xs" by simp
    show "(m(a + of_nat i := ucast v, a + of_nat (i + 1) := ucast (drop_bit 8 v))) (a + of_nat j)
      = put16 xs i v ! j"
      using mem_hasD[OF assms(1) j] j assms(2) eq[OF j, of i] eq[OF j, of "i + 1"]
      by (auto simp: put16_def nth_list_update)
  qed
qed

lemma store16_frame: "2 \<le> n \<Longrightarrow> n \<le> 2 ^ 32 \<Longrightarrow> i + 1 < n \<Longrightarrow> \<not> unat (x - a) < n \<Longrightarrow> store16 m (a + of_nat i) v x = m x"
proof -
  assume h: "n \<le> 2 ^ 32" "i + 1 < n" "\<not> unat (x - a) < n"
  have "x \<noteq> a + of_nat i" "x \<noteq> a + of_nat (i + 1)"
    using h offset_of_nat[of i a] offset_of_nat[of "i + 1" a] by auto
  then show ?thesis by (simp add: store16_def add_ac)
qed

end
