(* ===== verification/Tty.thy ===== *)
theory Tty
  imports Fifo History Dev Blocks
begin

text \<open>
  The terminals of \<^verbatim>\<open>kernel/dev/tty.c\<close>, the console writer and console selection of
  \<^verbatim>\<open>kernel/dev/console.c\<close>, and the bell of \<^verbatim>\<open>kernel/dev/clock.c\<close>, over
  the scheduler's state.

  Calls that block take the argument \<open>resume\<close> (theory \<open>Ipc\<close>).  Video registers and the
  speaker port are hardware output and not modelled.
\<close>

section \<open>Data\<close>

record tty_t =
  ofifo :: tty_fifo_t
  ififo :: tty_fifo_t
  osem :: sem_t
  isem :: sem_t
  oflags :: int
  iflags :: int
  console_idx :: nat

record keyboard_state_t =
  lshift_press :: bool
  rshift_press :: bool
  caps_lock :: bool
  lalt_press :: bool
  ralt_press :: bool
  lctrl_press :: bool
  rctrl_press :: bool

datatype recv_state = NORMAL | BEGIN_E0 | BEGIN_E1

record ttys = sched +
  tty_devs :: "tty_t list"
  curr_tty :: nat
  consoles :: "console_t list"
  curr_console_idx :: nat
  video :: vram
  umem :: memory
  beeping :: bool
  kbd :: keyboard_state_t
  kbd_inited :: bool
  kbd_recv :: recv_state

definition TTY_NR :: nat where "TTY_NR = 8"
definition TTY_OBUF_SIZE :: int where "TTY_OBUF_SIZE = 512"
definition TTY_IBUF_SIZE :: int where "TTY_IBUF_SIZE = 512"
definition TTY_OCRLF :: int where "TTY_OCRLF = 1"
definition TTY_INCLR :: int where "TTY_INCLR = 1"
definition TTY_IECHO :: int where "TTY_IECHO = 2"
definition TTY_CMD_ECHO :: int where "TTY_CMD_ECHO = 1"
definition BEEP_MS :: u32 where "BEEP_MS = 100"

definition upd_tty :: "nat \<Rightarrow> (tty_t \<Rightarrow> tty_t) \<Rightarrow> ttys \<Rightarrow> ttys" where
  "upd_tty i f s = s\<lparr>tty_devs := (tty_devs s)[i := f (tty_devs s ! i)]\<rparr>"

definition upd_console :: "nat \<Rightarrow> (console_t \<Rightarrow> console_t) \<Rightarrow> ttys \<Rightarrow> ttys" where
  "upd_console i f s = s\<lparr>consoles := (consoles s)[i := f (consoles s ! i)]\<rparr>"

section \<open>The bell and the console writer\<close>

definition start_beep :: "ttys resume \<Rightarrow> ttys \<Rightarrow> ttys option" where
  "start_beep resume s =
    (if \<not> beeping s
     then do {
       let me = curr_task s;
       s \<leftarrow> sys_sleep BEEP_MS (s\<lparr>beeping := True\<rparr>);
       s \<leftarrow> resumed resume me s;
       Some (s\<lparr>beeping := False\<rparr>)
     }
     else Some s)"

definition lock_console :: "ttys resume \<Rightarrow> nat \<Rightarrow> ttys \<Rightarrow> ttys option" where
  "lock_console resume k s =
    do {
      (m, s') \<leftarrow> mutex_lock (cmutex (consoles s ! k)) s;
      resumed resume (curr_task s) (upd_console k (\<lambda>c. c\<lparr>cmutex := m\<rparr>) s')
    }"

definition unlock_console :: "ttys resume \<Rightarrow> nat \<Rightarrow> ttys \<Rightarrow> ttys option" where
  "unlock_console resume k s =
    do {
      (m, s') \<leftarrow> mutex_unlock (cmutex (consoles s ! k)) s;
      resumed resume (curr_task s) (upd_console k (\<lambda>c. c\<lparr>cmutex := m\<rparr>) s')
    }"

definition wait_osem :: "ttys resume \<Rightarrow> nat \<Rightarrow> ttys \<Rightarrow> ttys option" where
  "wait_osem resume i s =
    do {
      (m, s') \<leftarrow> sem_wait (osem (tty_devs s ! i)) s;
      resumed resume (curr_task s) (upd_tty i (\<lambda>t. t\<lparr>osem := m\<rparr>) s')
    }"

definition notify_osem :: "ttys resume \<Rightarrow> nat \<Rightarrow> ttys \<Rightarrow> ttys option" where
  "notify_osem resume i s =
    do {
      (m, s') \<leftarrow> sem_notify (osem (tty_devs s ! i)) s;
      resumed resume (curr_task s) (upd_tty i (\<lambda>t. t\<lparr>osem := m\<rparr>) s')
    }"

definition wait_isem :: "ttys resume \<Rightarrow> nat \<Rightarrow> ttys \<Rightarrow> ttys option" where
  "wait_isem resume i s =
    do {
      (m, s') \<leftarrow> sem_wait (isem (tty_devs s ! i)) s;
      resumed resume (curr_task s) (upd_tty i (\<lambda>t. t\<lparr>isem := m\<rparr>) s')
    }"

definition notify_isem :: "ttys resume \<Rightarrow> nat \<Rightarrow> ttys \<Rightarrow> ttys option" where
  "notify_isem resume i s =
    do {
      (m, s') \<leftarrow> sem_notify (isem (tty_devs s ! i)) s;
      resumed resume (curr_task s) (upd_tty i (\<lambda>t. t\<lparr>isem := m\<rparr>) s')
    }"

text \<open>One character taken from the output queue and drawn.\<close>

definition draw_char :: "ttys resume \<Rightarrow> nat \<Rightarrow> u8 \<Rightarrow> ttys \<Rightarrow> ttys option" where
  "draw_char resume k ch s =
    do {
      (bell, c, v) \<leftarrow> console_char ch (consoles s ! k) (video s);
      let s = (upd_console k (\<lambda>_. c) s)\<lparr>video := v\<rparr>;
      if bell then start_beep resume s else Some s
    }"

partial_function (option) drain_output :: "ttys resume \<Rightarrow> nat \<Rightarrow> nat \<Rightarrow> int \<Rightarrow> ttys \<Rightarrow> (int \<times> ttys) option" where
  "drain_output resume i k len s =
    (case tty_fifo_get (ofifo (tty_devs s ! i)) 0 of
       (err, ch, q) \<Rightarrow>
         if err < 0 then Some (len, s)
         else do {
           s \<leftarrow> notify_osem resume i (upd_tty i (\<lambda>t. t\<lparr>ofifo := q\<rparr>) s);
           s \<leftarrow> draw_char resume k ch s;
           drain_output resume i k (len + 1) s
         })"

definition console_write :: "ttys resume \<Rightarrow> nat \<Rightarrow> ttys \<Rightarrow> (int \<times> ttys) option" where
  "console_write resume i s =
    (let k = console_idx (tty_devs s ! i)
     in do {
       s \<leftarrow> lock_console resume k s;
       (len, s) \<leftarrow> drain_output resume i k 0 s;
       s \<leftarrow> unlock_console resume k s;
       Some (len, s)
     })"

definition get_console :: "int \<Rightarrow> nat" where
  "get_console idx = nat idx"

text \<open>\<open>cursor_pos\<close> is the position the CRT controller reports (used by console 0 only).\<close>

definition console_select :: "int \<Rightarrow> nat \<Rightarrow> ttys \<Rightarrow> ttys option" where
  "console_select cursor_pos idx s =
    (if idx < length (consoles s)
     then let s = (if disp_base (consoles s ! idx) = 0
                   then case console_init cursor_pos idx (consoles s ! idx) (video s) of
                      (c, v) \<Rightarrow> (upd_console idx (\<lambda>_. c) s)\<lparr>video := v\<rparr>
                   else s)
          in Some (s\<lparr>curr_console_idx := idx\<rparr>)
     else None)"

section \<open>Terminal calls\<close>

text \<open>The log lines of \<^verbatim>\<open>get_tty\<close> and \<^verbatim>\<open>tty_open\<close> on their error paths, for a number that is not
  a terminal's or a terminal that is not open, are left out.\<close>

definition get_tty :: "device_t \<Rightarrow> nat option" where
  "get_tty device =
    (if dminor device < 0 \<or> dminor device \<ge> int TTY_NR \<or> open_count device = 0 then None
     else Some (nat (dminor device)))"

definition keyboard_init :: "ttys \<Rightarrow> ttys" where
  "keyboard_init s =
    (if \<not> kbd_inited s
     then s\<lparr>kbd := \<lparr>lshift_press = False, rshift_press = False, caps_lock = False, lalt_press = False,
              ralt_press = False, lctrl_press = False, rctrl_press = False\<rparr>, kbd_inited := True\<rparr>
     else s)"

definition tty_open :: "int \<Rightarrow> device_t \<Rightarrow> ttys \<Rightarrow> (int \<times> ttys) option" where
  "tty_open cursor_pos dev s =
    (if dminor dev < 0 \<or> dminor dev \<ge> int TTY_NR then Some (- 1, s)
     else let i = nat (dminor dev);
              s = upd_tty i (\<lambda>t. t\<lparr>ofifo := tty_fifo_init (fbuf (ofifo t)) TTY_OBUF_SIZE,
                    ififo := tty_fifo_init (fbuf (ififo t)) TTY_IBUF_SIZE,
                    osem := sem_init (osem t) TTY_OBUF_SIZE, isem := sem_init (isem t) 0,
                    oflags := TTY_OCRLF, iflags := TTY_INCLR OR TTY_IECHO, console_idx := i\<rparr>) s;
              s = keyboard_init s
          in case console_init cursor_pos i (consoles s ! i) (video s) of
               (c, v) \<Rightarrow> Some (0, (upd_console i (\<lambda>_. c) s)\<lparr>video := v\<rparr>))"

text \<open>One character to the output queue.\<close>

definition put_output :: "ttys resume \<Rightarrow> nat \<Rightarrow> u8 \<Rightarrow> ttys \<Rightarrow> (int \<times> ttys) option" where
  "put_output resume i c s =
    do {
      s \<leftarrow> wait_osem resume i s;
      case tty_fifo_put (ofifo (tty_devs s ! i)) c of
        (err, q) \<Rightarrow> Some (err, upd_tty i (\<lambda>t. t\<lparr>ofifo := q\<rparr>) s)
    }"

text \<open>
  The loop of \<open>tty_write\<close>; \<open>src k\<close> is the caller's \<open>k\<close>th byte, read when its turn comes.
\<close>

primrec tty_write_loop ::
    "ttys resume \<Rightarrow> nat \<Rightarrow> (nat \<Rightarrow> ttys \<Rightarrow> u8) \<Rightarrow> nat \<Rightarrow> nat \<Rightarrow> int \<Rightarrow> ttys \<Rightarrow> (int \<times> ttys) option" where
  "tty_write_loop resume i src 0 k len s = Some (len, s)"
| "tty_write_loop resume i src (Suc n) k len s =
    do {
      let c = src k s;
      (err, s) \<leftarrow> (if c = 10 \<and> oflags (tty_devs s ! i) AND TTY_OCRLF \<noteq> 0
                   then put_output resume i 13 s else Some (0, s));
      if err < 0 then Some (len, s)
      else do {
        (err, s) \<leftarrow> put_output resume i c s;
        if err < 0 then Some (len, s)
        else do {
          (_, s) \<leftarrow> console_write resume i s;
          tty_write_loop resume i src n (k + 1) (len + 1) s
        }
      }
    }"

definition tty_write_from ::
    "ttys resume \<Rightarrow> device_t \<Rightarrow> (nat \<Rightarrow> ttys \<Rightarrow> u8) \<Rightarrow> int \<Rightarrow> ttys \<Rightarrow> (int \<times> ttys) option" where
  "tty_write_from resume dev src n s =
    (if n < 0 then Some (- 1, s)
     else case get_tty dev of
         None \<Rightarrow> Some (- 1, s)
       | Some i \<Rightarrow> tty_write_loop resume i src (nat n) 0 0 s)"

definition tty_write :: "ttys resume \<Rightarrow> device_t \<Rightarrow> int \<Rightarrow> u32 \<Rightarrow> int \<Rightarrow> ttys \<Rightarrow> (int \<times> ttys) option" where
  "tty_write resume dev addr buf n s = tty_write_from resume dev (\<lambda>k s. umem s (buf + of_nat k)) n s"

text \<open>
  Reading: \<open>pbuf\<close> is the write pointer, and \<open>uninit\<close> what the local \<open>ch\<close> holds when the queue
  is empty (its failure is not checked).
\<close>

partial_function (option) tty_read_loop ::
    "ttys resume \<Rightarrow> u8 \<Rightarrow> device_t \<Rightarrow> nat \<Rightarrow> u32 \<Rightarrow> int \<Rightarrow> int \<Rightarrow> ttys \<Rightarrow> (int \<times> ttys) option" where
  "tty_read_loop resume uninit dev i pbuf len n s =
    (if len < n
     then do {
       s \<leftarrow> wait_isem resume i s;
       let (_, ch, q) = tty_fifo_get (ififo (tty_devs s ! i)) uninit;
       let s = upd_tty i (\<lambda>t. t\<lparr>ififo := q\<rparr>) s;
       let k = get_console (int (console_idx (tty_devs s ! i)));
       if ch = 0x7f \<and> len = 0 then tty_read_loop resume uninit dev i pbuf len n s
       else do {
         let (pbuf, len, s) =
           (if ch = 0x7f then (pbuf - 1, len - 1, upd_console k (\<lambda>c. c\<lparr>input_len := input_len c - 1\<rparr>) s)
            else if ch = 10
            then let (pbuf, len, s) =
                       (if iflags (tty_devs s ! i) \<noteq> 0 \<and> len < n - 1
                        then (pbuf + 1, len + 1, s\<lparr>umem := (umem s)(pbuf := 13)\<rparr>) else (pbuf, len, s))
                 in (pbuf + 1, len + 1, upd_console k (\<lambda>c. c\<lparr>input_len := 0\<rparr>) (s\<lparr>umem := (umem s)(pbuf := 10)\<rparr>))
            else (pbuf + 1, len + 1,
                  upd_console k (\<lambda>c. c\<lparr>input_len := input_len c + 1\<rparr>) (s\<lparr>umem := (umem s)(pbuf := ch)\<rparr>)));
         s \<leftarrow> (if iflags (tty_devs s ! i) AND TTY_IECHO \<noteq> 0
              then map_option snd (tty_write_from resume dev (\<lambda>_ _. ch) 1 s) else Some s);
         if ch = 10 \<or> ch = 13 then Some (len, s)
         else tty_read_loop resume uninit dev i pbuf len n s
       }
     }
     else Some (len, s))"

definition tty_read :: "ttys resume \<Rightarrow> u8 \<Rightarrow> device_t \<Rightarrow> int \<Rightarrow> u32 \<Rightarrow> int \<Rightarrow> ttys \<Rightarrow> (int \<times> ttys) option" where
  "tty_read resume uninit dev addr buf n s =
    (if n < 0 then Some (- 1, s)
     else case get_tty dev of
         None \<Rightarrow> (if n = 0 then Some (0, s) else None)
       | Some i \<Rightarrow> tty_read_loop resume uninit dev i buf 0 n s)"

definition tty_control :: "device_t \<Rightarrow> int \<Rightarrow> int \<Rightarrow> int \<Rightarrow> ttys \<Rightarrow> (int \<times> ttys) option" where
  "tty_control dev cmd arg0 arg1 s =
    (if cmd = TTY_CMD_ECHO
     then do {
       i \<leftarrow> get_tty dev;
       Some (0, upd_tty i (\<lambda>t. t\<lparr>iflags := (if arg0 \<noteq> 0 then iflags t OR TTY_IECHO
                                            else iflags t AND NOT TTY_IECHO)\<rparr>) s)
     }
     else Some (0, s))"

definition tty_close :: "device_t \<Rightarrow> ttys \<Rightarrow> ttys option" where
  "tty_close dev s = Some s"

section \<open>Input from the keyboard\<close>

definition tty_in :: "ttys resume \<Rightarrow> u8 \<Rightarrow> ttys \<Rightarrow> ttys option" where
  "tty_in resume ch s =
    (let i = curr_tty s; (n, s) = sem_count (isem (tty_devs s ! i)) s
     in if n \<ge> TTY_IBUF_SIZE then Some s
        else case tty_fifo_put (ififo (tty_devs s ! i)) ch of
          (_, q) \<Rightarrow> notify_isem resume i (upd_tty i (\<lambda>t. t\<lparr>ififo := q\<rparr>) s))"

primrec feed_cmd :: "ttys resume \<Rightarrow> u8 list \<Rightarrow> ttys \<Rightarrow> ttys option" where
  "feed_cmd resume [] s = Some s"
| "feed_cmd resume (ch # chs) s =
    (if ch \<noteq> 0 then do { s \<leftarrow> tty_in resume ch s; feed_cmd resume chs s } else Some s)"

definition show_his_cmd :: "ttys resume \<Rightarrow> nat \<Rightarrow> u8 list \<Rightarrow> ttys \<Rightarrow> ttys option" where
  "show_his_cmd resume k cmd s =
    (case erase_backword (input_len (consoles s ! k)) (consoles s ! k) (video s) of
       (c, v) \<Rightarrow> feed_cmd resume (take CLI_INPUT_SIZE cmd) ((upd_console k (\<lambda>_. c) s)\<lparr>video := v\<rparr>))"

definition KEY_UP :: int where "KEY_UP = 0x48"
definition KEY_DOWN :: int where "KEY_DOWN = 0x50"

text \<open>\<open>uninit\<close> is the uninitialised index of \<open>pre_cmd\<close>.\<close>

definition tty_handle_key :: "ttys resume \<Rightarrow> int \<Rightarrow> int \<Rightarrow> ttys \<Rightarrow> ttys option" where
  "tty_handle_key resume uninit key s =
    (let k = get_console (int (curr_tty s)); c = consoles s ! k
     in if cmode c = CMD_MODE
        then if key = KEY_UP
             then do {
               (i, c) \<leftarrow> pre_cmd uninit c;
               let s = upd_console k (\<lambda>_. c) s;
               if his_empty c i then Some s else show_his_cmd resume k (hcmd (his_entry c i)) s
             }
             else if key = KEY_DOWN
             then let (i, c) = next_cmd c; s = upd_console k (\<lambda>_. c) s
                  in if his_empty c i then Some s else show_his_cmd resume k (hcmd (his_entry c i)) s
             else Some s
        else Some s)"

definition tty_select :: "int \<Rightarrow> nat \<Rightarrow> ttys \<Rightarrow> ttys option" where
  "tty_select cursor_pos tty s =
    (if tty \<noteq> curr_tty s
     then do { s \<leftarrow> console_select cursor_pos tty s; Some (s\<lparr>curr_tty := tty\<rparr>) }
     else Some s)"

text \<open>The driver's descriptor, for the device table.\<close>

definition dev_tty_desc :: "ttys resume \<Rightarrow> int \<Rightarrow> u8 \<Rightarrow> ttys dev_desc_t" where
  "dev_tty_desc resume cursor_pos uninit = \<lparr>desc_major = DEV_TTY,
     d_open = (\<lambda>d s. map_option (\<lambda>(r, s). (r, d, s)) (tty_open cursor_pos d s)),
     d_read = tty_read resume uninit, d_write = tty_write resume,
     d_control = tty_control, d_close = tty_close\<rparr>"

section \<open>Writing without waiting\<close>

text \<open>
  The writer's view of a terminal: output queue, count of the output semaphore, console and
  video memory.
\<close>

definition out_view :: "ttys \<Rightarrow> nat \<Rightarrow> nat \<Rightarrow> tty_fifo_t \<Rightarrow> int \<Rightarrow> console_t \<Rightarrow> vram \<Rightarrow> ttys" where
  "out_view s i k q n c v =
    s\<lparr>tty_devs := (tty_devs s)[i := (tty_devs s ! i)\<lparr>ofifo := q,
         osem := (osem (tty_devs s ! i))\<lparr>sem_value := n\<rparr>\<rparr>],
      consoles := (consoles s)[k := c], video := v\<rparr>"

text \<open>The terminal and its console exist, and nobody waits for room or for the console.\<close>

definition out_idle :: "ttys \<Rightarrow> nat \<Rightarrow> nat \<Rightarrow> bool" where
  "out_idle s i k \<longleftrightarrow> i < length (tty_devs s) \<and> k < length (consoles s) \<and> console_idx (tty_devs s ! i) = k
     \<and> dll (wait_links s) (sem_list (osem (tty_devs s ! i))) []
     \<and> mutex_free (cmutex (consoles s ! k)) s"

lemma tty_upd_order: "(t :: tty_t)\<lparr>osem := a, ofifo := b\<rparr> = t\<lparr>ofifo := b, osem := a\<rparr>"
  by simp

lemma out_view_simps [simp]:
  assumes "out_idle s i k"
  shows "tty_devs (out_view s i k q n c v) ! i = (tty_devs s ! i)\<lparr>ofifo := q,
         osem := (osem (tty_devs s ! i))\<lparr>sem_value := n\<rparr>\<rparr>"
    and "consoles (out_view s i k q n c v) ! k = c"
    and "video (out_view s i k q n c v) = v"
    and "curr_task (out_view s i k q n c v) = curr_task s"
    and "wait_links (out_view s i k q n c v) = wait_links s"
    and "umem (out_view s i k q n c v) = umem s"
    and "(upd_console k f (out_view s i k q n c v)) = out_view s i k q n (f c) v"
    and "(out_view s i k q n c v)\<lparr>video := v'\<rparr> = out_view s i k q n c v'"
    and "upd_tty i (\<lambda>t. t\<lparr>ofifo := q'\<rparr>) (out_view s i k q n c v) = out_view s i k q' n c v"
    and "upd_tty i (\<lambda>t. t\<lparr>osem := (osem (tty_devs s ! i))\<lparr>sem_value := n'\<rparr>\<rparr>) (out_view s i k q n c v)
      = out_view s i k q n' c v"
  using assms
  by (simp_all add: out_view_def out_idle_def upd_tty_def upd_console_def tty_upd_order)

lemma out_view_self:
  "out_idle s i k \<Longrightarrow> out_view s i k (ofifo (tty_devs s ! i)) (sem_value (osem (tty_devs s ! i)))
     (consoles s ! k) (video s) = s"
  by (simp add: out_view_def out_idle_def)

lemma drain_output_run:
  assumes idle: "out_idle s i k" and "fifo_ok q" and "fifo_contents q = xs" and "7 \<notin> set xs"
    and "console_run xs c v = Some (c', v')"
  shows "\<exists>q'. drain_output resume i k len (out_view s i k q n c v)
      = Some (len + int (length xs), out_view s i k q' (n + int (length xs)) c' v')
    \<and> fifo_ok q' \<and> fifo_contents q' = [] \<and> fsz q' = fsz q"
  using assms(2-)
proof (induction xs arbitrary: q n c v len)
  case Nil
  then show ?case
    using tty_q.get_empty[OF Nil(1), of 0] idle
    by (intro exI[of _ q]) (simp add: drain_output.simps)
next
  case (Cons x xs)
  obtain q1 where q1: "tty_fifo_get q 0 = (0, x, q1)" "fifo_ok q1" "fifo_contents q1 = xs" "fsz q1 = fsz q"
    using fifo_get_first[OF Cons.prems(1,2), of 0] by blast
  obtain b c1 v1 where c1: "console_char x c v = Some (b, c1, v1)" "console_run xs c1 v1 = Some (c', v')"
    using Cons.prems(4) by (auto split: Option.bind_splits)
  have b: "\<not> b" using console_char_bell[OF c1(1)] Cons.prems(3) by simp
  have "notify_osem resume i (out_view s i k q1 n c v) = Some (out_view s i k q1 (n + 1) c v)"
    using idle by (simp add: notify_osem_def sem_notify_none out_idle_def resumed_def)
  moreover have "draw_char resume k x (out_view s i k q1 (n + 1) c v) = Some (out_view s i k q1 (n + 1) c1 v1)"
    using idle c1(1) b by (simp add: draw_char_def)
  ultimately have "drain_output resume i k len (out_view s i k q n c v)
    = drain_output resume i k (len + 1) (out_view s i k q1 (n + 1) c1 v1)"
    using idle q1(1) by (subst drain_output.simps) simp
  with Cons.IH[OF q1(2,3) _ c1(2), of "len + 1" "n + 1"] Cons.prems(3) q1(4) show ?case
    by (simp add: algebra_simps)
qed

lemma console_write_run:
  assumes idle: "out_idle s i k" and q: "fifo_ok q" "fifo_contents q = xs" "7 \<notin> set xs"
    and run: "console_run xs c v = Some (c', v')" and m: "mutex_free (cmutex c) s"
  shows "\<exists>q' m'. console_write resume i (out_view s i k q n c v)
      = Some (int (length xs), out_view s i k q' (n + int (length xs)) (with_mutex m' c') v')
    \<and> fifo_ok q' \<and> fifo_contents q' = [] \<and> fsz q' = fsz q \<and> mutex_free m' s"
proof -
  let ?held = "(cmutex c)\<lparr>locked_count := 1, owner := curr_task s\<rparr>"
  let ?free = "(cmutex c)\<lparr>locked_count := 0, owner := None\<rparr>"
  have lock: "lock_console resume k (out_view s i k q n c v) = Some (out_view s i k q n (with_mutex ?held c) v)"
    using idle m by (simp add: lock_console_def mutex_lock_free mutex_free_def resumed_def with_mutex_def)
  have "console_run xs (with_mutex ?held c) v = Some (with_mutex ?held c', v')"
    using run by (simp add: console_run_mutex)
  from drain_output_run[OF idle q this, of resume 0 n] obtain q' where q':
    "drain_output resume i k 0 (out_view s i k q n (with_mutex ?held c) v)
      = Some (int (length xs), out_view s i k q' (n + int (length xs)) (with_mutex ?held c') v')"
    "fifo_ok q'" "fifo_contents q' = []" "fsz q' = fsz q" by auto
  have "mutex_unlock ?held (out_view s i k q' n' c'' v') = Some (?free, out_view s i k q' n' c'' v')" for n' c''
    by (rule mutex_section(2)[OF m]) (use idle in simp_all)
  then have unlock: "unlock_console resume k (out_view s i k q' n' (with_mutex ?held c') v')
      = Some (out_view s i k q' n' (with_mutex ?free c') v')" for n'
    using idle by (simp add: unlock_console_def resumed_def with_mutex_def)
  have "mutex_free ?free s" using m by (simp add: mutex_free_def)
  with idle lock q' unlock show ?thesis
    by (intro exI[of _ q'] exI[of _ ?free]) (simp add: console_write_def out_idle_def)
qed

definition expand_nl :: "int \<Rightarrow> u8 \<Rightarrow> u8 list" where
  "expand_nl flags c = (if c = 10 \<and> flags AND TTY_OCRLF \<noteq> 0 then [13, c] else [c])"

lemma put_output_run:
  assumes idle: "out_idle s i k" and q: "fifo_ok q" "int (length (fifo_contents q)) < fsz q" and "0 < n"
  shows "\<exists>q'. put_output resume i x (out_view s i k q n c v) = Some (0, out_view s i k q' (n - 1) c v)
    \<and> fifo_ok q' \<and> fifo_contents q' = fifo_contents q @ [x] \<and> fsz q' = fsz q"
proof -
  have "fcount q < fsz q" using q by (simp add: fifo_ok_def)
  then obtain q' where q': "tty_fifo_put q x = (0, q')" "fifo_ok q'" "fifo_contents q' = fifo_contents q @ [x]"
    "fsz q' = fsz q" using fifo_put_room[OF q(1), of x] by auto
  have "wait_osem resume i (out_view s i k q n c v) = Some (out_view s i k q (n - 1) c v)"
    using idle assms(4) by (simp add: wait_osem_def sem_wait_pos resumed_def)
  with q' idle show ?thesis by (intro exI[of _ q']) (simp add: put_output_def)
qed

lemma tty_write_loop_run:
  assumes idle: "out_idle s i k" and "7 \<notin> set bs"
    and src: "\<And>j s'. j < length bs \<Longrightarrow> umem s' = umem s \<Longrightarrow> src (j0 + j) s' = bs ! j"
    and "fifo_ok q" and "fifo_contents q = []" and "2 \<le> fsz q" and "2 \<le> n"
    and "console_run (concat (map (expand_nl (oflags (tty_devs s ! i))) bs)) c v = Some (c', v')"
    and "mutex_free (cmutex c) s"
  shows "\<exists>q' m'. tty_write_loop resume i src (length bs) j0 len (out_view s i k q n c v)
      = Some (len + int (length bs), out_view s i k q' n (with_mutex m' c') v')
    \<and> fifo_ok q' \<and> fifo_contents q' = [] \<and> fsz q' = fsz q \<and> mutex_free m' s"
  using assms(2-)
proof (induction bs arbitrary: q c v c' v' j0 len)
  case Nil
  then show ?case by (intro exI[of _ q] exI[of _ "cmutex c"]) simp
next
  case (Cons b bs)
  let ?fl = "oflags (tty_devs s ! i)"
  let ?x = "expand_nl ?fl b"
  let ?s = "out_view s i k q n c v"
  obtain c1 v1 where r1: "console_run ?x c v = Some (c1, v1)"
    and r2: "console_run (concat (map (expand_nl ?fl) bs)) c1 v1 = Some (c', v')"
    using Cons.prems(7) by (auto simp: console_run_append split: Option.bind_splits)
  let ?g = "\<lambda>t. do { (_, t) \<leftarrow> console_write resume i t;
      tty_write_loop resume i src (length bs) (j0 + 1) (len + 1) t }"
  have b: "src j0 ?s = b" using Cons.prems(2)[of 0 ?s] idle by simp
  have ql: "0 < fsz q" using Cons.prems(5) by simp
  have "\<exists>q2. tty_write_loop resume i src (length (b # bs)) j0 len ?s
      = ?g (out_view s i k q2 (n - int (length ?x)) c v) \<and> fifo_ok q2 \<and> fifo_contents q2 = ?x \<and> fsz q2 = fsz q"
  proof (cases "b = 10 \<and> ?fl AND TTY_OCRLF \<noteq> 0")
    case True
    obtain q1 where q1: "put_output resume i 13 ?s = Some (0, out_view s i k q1 (n - 1) c v)"
      "fifo_ok q1" "fifo_contents q1 = [13]" "fsz q1 = fsz q"
      using put_output_run[OF idle Cons.prems(3), of n resume 13 c v] Cons.prems(4,6) ql by auto
    obtain q2 where q2: "put_output resume i b (out_view s i k q1 (n - 1) c v) = Some (0, out_view s i k q2 (n - 1 - 1) c v)"
      "fifo_ok q2" "fifo_contents q2 = [13, b]" "fsz q2 = fsz q"
      using put_output_run[OF idle q1(2), of "n - 1" resume b c v] q1(3,4) Cons.prems(5,6) by auto
    show ?thesis using True q1 q2 idle b by (intro exI[of _ q2]) (simp add: expand_nl_def)
  next
    case False
    obtain q2 where q2: "put_output resume i b ?s = Some (0, out_view s i k q2 (n - 1) c v)"
      "fifo_ok q2" "fifo_contents q2 = [b]" "fsz q2 = fsz q"
      using put_output_run[OF idle Cons.prems(3), of n resume b c v] Cons.prems(4,6) ql by auto
    show ?thesis using False q2 idle b by (intro exI[of _ q2]) (auto simp: expand_nl_def)
  qed
  then obtain q2 where step: "tty_write_loop resume i src (length (b # bs)) j0 len ?s
      = ?g (out_view s i k q2 (n - int (length ?x)) c v)"
    and q2: "fifo_ok q2" "fifo_contents q2 = ?x" "fsz q2 = fsz q"
    by blast
  have x7: "7 \<notin> set ?x" using Cons.prems(1) by (auto simp: expand_nl_def)
  obtain q3 m3 where w: "console_write resume i (out_view s i k q2 (n - int (length ?x)) c v)
      = Some (int (length ?x), out_view s i k q3 n (with_mutex m3 c1) v1)"
    "fifo_ok q3" "fifo_contents q3 = []" "fsz q3 = fsz q2" "mutex_free m3 s"
    using console_write_run[OF idle q2(1,2) x7 r1 Cons.prems(8), of resume "n - int (length ?x)"] by auto
  have r3: "console_run (concat (map (expand_nl ?fl) bs)) (with_mutex m3 c1) v1 = Some (with_mutex m3 c', v')"
    using r2 by (simp add: console_run_mutex)
  have "\<exists>q' m'. tty_write_loop resume i src (length bs) (j0 + 1) (len + 1) (out_view s i k q3 n (with_mutex m3 c1) v1)
      = Some (len + 1 + int (length bs), out_view s i k q' n (with_mutex m' (with_mutex m3 c')) v')
    \<and> fifo_ok q' \<and> fifo_contents q' = [] \<and> fsz q' = fsz q3 \<and> mutex_free m' s"
  proof (rule Cons.IH[OF _ _ w(2,3) _ Cons.prems(6) r3])
    show "src (j0 + 1 + j) s' = bs ! j" if "j < length bs" "umem s' = umem s" for j s'
      using Cons.prems(2)[of "Suc j" s'] that by simp
  qed (use Cons.prems w q2 in simp_all)
  with step w q2(3) show ?case by (simp add: algebra_simps)
qed

section \<open>Reading a line\<close>

text \<open>
  What a read of \<open>n\<close> bytes makes of the typed characters, echo apart: the line so far is
  \<open>acc\<close>; the result is the finished line and what stays in the queue.  \<open>None\<close>: more input
  is needed.
\<close>

fun line_edit :: "bool \<Rightarrow> int \<Rightarrow> u8 list \<Rightarrow> u8 list \<Rightarrow> (u8 list \<times> u8 list) option" where
  "line_edit cr n [] acc = (if int (length acc) < n then None else Some (acc, []))"
| "line_edit cr n (x # xs) acc =
    (if \<not> int (length acc) < n then Some (acc, x # xs)
     else if x = 127 then line_edit cr n xs (butlast acc)
     else if x = 10
     then Some ((if cr \<and> int (length acc) < n - 1 then acc @ [13] else acc) @ [10], xs)
     else if x = 13 then Some (acc @ [x], xs)
     else line_edit cr n xs (acc @ [x]))"

definition in_view :: "ttys \<Rightarrow> nat \<Rightarrow> nat \<Rightarrow> tty_fifo_t \<Rightarrow> int \<Rightarrow> int \<Rightarrow> memory \<Rightarrow> ttys" where
  "in_view s i k q n l m =
    s\<lparr>tty_devs := (tty_devs s)[i := (tty_devs s ! i)\<lparr>ififo := q,
         isem := (isem (tty_devs s ! i))\<lparr>sem_value := n\<rparr>\<rparr>],
      consoles := (consoles s)[k := (consoles s ! k)\<lparr>input_len := l\<rparr>], umem := m\<rparr>"

definition tty_at :: "ttys \<Rightarrow> nat \<Rightarrow> nat \<Rightarrow> bool" where
  "tty_at s i k \<longleftrightarrow> i < length (tty_devs s) \<and> k < length (consoles s) \<and> console_idx (tty_devs s ! i) = k"

lemma tty_upd_order2: "(t :: tty_t)\<lparr>isem := a, ififo := b\<rparr> = t\<lparr>ififo := b, isem := a\<rparr>"
  by simp

lemma in_view_simps [simp]:
  assumes "tty_at s i k"
  shows "tty_devs (in_view s i k q n l m) ! i = (tty_devs s ! i)\<lparr>ififo := q,
         isem := (isem (tty_devs s ! i))\<lparr>sem_value := n\<rparr>\<rparr>"
    and "umem (in_view s i k q n l m) = m"
    and "curr_task (in_view s i k q n l m) = curr_task s"
    and "upd_console k (\<lambda>c. c\<lparr>input_len := input_len c + d\<rparr>) (in_view s i k q n l m) = in_view s i k q n (l + d) m"
    and "upd_console k (\<lambda>c. c\<lparr>input_len := input_len c - d\<rparr>) (in_view s i k q n l m) = in_view s i k q n (l - d) m"
    and "upd_console k (\<lambda>c. c\<lparr>input_len := 0\<rparr>) (in_view s i k q n l m) = in_view s i k q n 0 m"
    and "(in_view s i k q n l m)\<lparr>umem := m'\<rparr> = in_view s i k q n l m'"
    and "upd_tty i (\<lambda>t. t\<lparr>ififo := q'\<rparr>) (in_view s i k q n l m) = in_view s i k q' n l m"
    and "upd_tty i (\<lambda>t. t\<lparr>isem := (isem (tty_devs s ! i))\<lparr>sem_value := n'\<rparr>\<rparr>) (in_view s i k q n l m)
      = in_view s i k q n' l m"
  using assms
  by (simp_all add: in_view_def tty_at_def upd_tty_def upd_console_def tty_upd_order2)

lemma wait_isem_run:
  assumes "tty_at s i k" and "0 < w"
  shows "wait_isem resume i (in_view s i k q w l m) = Some (in_view s i k q (w - 1) l m)"
  using assms by (simp add: wait_isem_def sem_wait_pos resumed_def)

lemma tty_read_loop_line:
  assumes at: "tty_at s i k" and noecho: "iflags (tty_devs s ! i) AND TTY_IECHO = 0" and n: "n < 2 ^ 31"
    and cr: "cr \<longleftrightarrow> iflags (tty_devs s ! i) \<noteq> 0"
    and "fifo_ok q" and "fifo_contents q = xs" and "w = int (length xs)"
    and "mem_has m buf acc" and "line_edit cr n xs acc = Some (line, rest)"
  shows "\<exists>q' l' m'. tty_read_loop resume uninit dev i (buf + of_nat (length acc)) (int (length acc)) n (in_view s i k q w l m)
      = Some (int (length line), in_view s i k q' (int (length rest)) l' m')
    \<and> fifo_ok q' \<and> fifo_contents q' = rest \<and> mem_has m' buf line"
  using assms(5-)
proof (induction xs arbitrary: acc q w l m)
  case Nil
  then show ?case by (intro exI[of _ q] exI[of _ l] exI[of _ m]) (auto simp: tty_read_loop.simps split: if_splits)
next
  case (Cons x xs)
  let ?L = "int (length acc)" and ?p = "buf + of_nat (length acc)"
  let ?loop = "\<lambda>p len s. tty_read_loop resume uninit dev i p len n s"
  show ?case
  proof (cases "?L < n")
    case False
    then have r: "line = acc" "rest = x # xs" using Cons.prems(5) by simp_all
    show ?thesis
      using Cons.prems(1-4) False unfolding r
      by (intro exI[of _ q] exI[of _ l] exI[of _ m]) (simp add: tty_read_loop.simps)
  next
    case True
    obtain q1 where q1: "tty_fifo_get q uninit = (0, x, q1)" "fifo_ok q1" "fifo_contents q1 = xs"
      using fifo_get_first[OF Cons.prems(1,2), of uninit] by blast
    have wait: "wait_isem resume i (in_view s i k q w l m) = Some (in_view s i k q (w - 1) l m)"
      by (rule wait_isem_run[OF at]) (use Cons.prems(3) in simp)
    have w1: "w - 1 = int (length xs)" using Cons.prems(3) by simp
    have k: "console_idx (tty_devs s ! i) = k" using at by (simp add: tty_at_def)
    have small: "length acc < 2 ^ 32" using True n by simp
    note step = tty_read_loop.simps[of resume uninit dev i ?p ?L n "in_view s i k q w l m"]
    note facts = wait at q1(1) k noecho True
    have len1: "?L + 1 = int (length (acc @ [y]))" "?p + 1 = buf + of_nat (length (acc @ [y]))" for y
      by (simp_all add: add.assoc)
    have put: "mem_has (m(?p := y)) buf (acc @ [y])" for y by (rule mem_has_snoc[OF Cons.prems(4) small])
    consider (del0) "x = 127" "acc = []" | (del) "x = 127" "acc \<noteq> []" | (nl) "x = 10" | (cr) "x = 13"
      | (other) "x \<noteq> 127" "x \<noteq> 10" "x \<noteq> 13" by blast
    then show ?thesis
    proof cases
      case del0
      then have "?loop ?p ?L (in_view s i k q w l m) = ?loop ?p ?L (in_view s i k q1 (w - 1) l m)"
        using True by (subst step) (simp add: facts get_console_def Let_def)
      moreover have "line_edit cr n xs acc = Some (line, rest)" using Cons.prems(5) True del0 by simp
      ultimately show ?thesis using Cons.IH[OF q1(2,3) w1 Cons.prems(4)] by simp
    next
      case del
      have b: "?L - 1 = int (length (butlast acc))" "?p - 1 = buf + of_nat (length (butlast acc))"
        using del(2) by (cases acc rule: rev_cases; simp)+
      have "?loop ?p ?L (in_view s i k q w l m)
          = ?loop (?p - 1) (?L - 1) (in_view s i k q1 (w - 1) (l - 1) m)"
        by (subst step) (simp add: facts get_console_def Let_def del)
      moreover have "line_edit cr n xs (butlast acc) = Some (line, rest)" using Cons.prems(5) True del by simp
      ultimately show ?thesis
        unfolding b using Cons.IH[OF q1(2,3) w1 mem_has_butlast[OF Cons.prems(4)]] by simp
    next
      case nl
      show ?thesis
      proof (cases "cr \<and> ?L < n - 1")
        case yes: True
        let ?m = "m(?p := 13, ?p + 1 := 10)"
        have "?loop ?p ?L (in_view s i k q w l m) = Some (?L + 1 + 1, in_view s i k q1 (w - 1) 0 ?m)"
          using nl yes cr by (subst step) (simp add: facts get_console_def Let_def)
        moreover have "line = acc @ [13] @ [10]" "rest = xs" using Cons.prems(5) True nl yes by auto
        moreover have "mem_has ?m buf ((acc @ [13]) @ [10])"
          using mem_has_snoc[OF put[of 13], of 10] small True n unfolding len1(2)[of 13] by simp
        ultimately show ?thesis using q1 w1 by auto
      next
        case no: False
        have "?loop ?p ?L (in_view s i k q w l m) = Some (?L + 1, in_view s i k q1 (w - 1) 0 (m(?p := 10)))"
          using nl no cr by (subst step) (auto simp: facts get_console_def Let_def)
        moreover have "line = acc @ [10]" "rest = xs" using Cons.prems(5) True nl no by auto
        ultimately show ?thesis using q1 w1 put[of 10] by auto
      qed
    next
      case cr
      have "?loop ?p ?L (in_view s i k q w l m) = Some (?L + 1, in_view s i k q1 (w - 1) (l + 1) (m(?p := 13)))"
        using cr by (subst step) (simp add: facts get_console_def Let_def)
      moreover have "line = acc @ [13]" "rest = xs" using Cons.prems(5) True cr by auto
      ultimately show ?thesis using q1 w1 put[of 13] by auto
    next
      case other
      have 1: "?loop ?p ?L (in_view s i k q w l m)
          = ?loop (?p + 1) (?L + 1) (in_view s i k q1 (w - 1) (l + 1) (m(?p := x)))"
        using other by (subst step) (simp add: facts get_console_def Let_def)
      have 2: "line_edit cr n xs (acc @ [x]) = Some (line, rest)" using Cons.prems(5) True other by simp
      show ?thesis unfolding 1 len1[of x] by (rule Cons.IH[OF q1(2,3) w1 put[of x] 2])
    qed
  qed
qed

section \<open>Properties\<close>

text \<open>C28: Writing to an idle terminal never waits and writes everything: the console and the
  screen are those of the escape automaton run over the bytes, with a carriage return before
  each newline when the terminal is set so; the output queue is empty again and the console's
  mutex free.  (The bell, which puts the writer to sleep, is excluded.)\<close>

theorem tty_write_draws:
  assumes "get_tty dev = Some i" and "out_idle s i k" and "fifo_ok (ofifo (tty_devs s ! i))"
    and "fifo_contents (ofifo (tty_devs s ! i)) = []" and "2 \<le> fsz (ofifo (tty_devs s ! i))"
    and "2 \<le> sem_value (osem (tty_devs s ! i))"
    and "mem_has (umem s) buf bs" and "7 \<notin> set bs"
    and "console_run (concat (map (expand_nl (oflags (tty_devs s ! i))) bs)) (consoles s ! k) (video s) = Some (c', v')"
  shows "\<exists>q' m'. tty_write resume dev addr buf (int (length bs)) s
      = Some (int (length bs), out_view s i k q' (sem_value (osem (tty_devs s ! i))) (with_mutex m' c') v')
    \<and> fifo_ok q' \<and> fifo_contents q' = [] \<and> mutex_free m' s"
proof -
  have src: "umem s' (buf + of_nat (0 + j)) = bs ! j" if "j < length bs" "umem s' = umem s" for j and s' :: ttys
    using that assms(7) by (simp add: mem_has_def)
  have "mutex_free (cmutex (consoles s ! k)) s" using assms(2) by (simp add: out_idle_def)
  from tty_write_loop_run[OF assms(2,8) src assms(3-6,9) this, of "\<lambda>_ s. s" resume 0]
  show ?thesis
    unfolding out_view_self[OF assms(2)] by (auto simp: tty_write_def tty_write_from_def assms(1))
qed

text \<open>C29: Reading from a terminal without echo returns the edited line: characters in order,
  each delete taking back the one before it, up to the newline or return or until the buffer
  is full; what was typed behind it stays in the queue, and the input semaphore counts
  exactly that.\<close>

theorem tty_read_line:
  assumes "get_tty dev = Some i" and "tty_at s i k" and "iflags (tty_devs s ! i) AND TTY_IECHO = 0"
    and "0 \<le> n" and "n < 2 ^ 31" and "fifo_ok (ififo (tty_devs s ! i))"
    and "sem_value (isem (tty_devs s ! i)) = int (length (fifo_contents (ififo (tty_devs s ! i))))"
    and "line_edit (iflags (tty_devs s ! i) \<noteq> 0) n (fifo_contents (ififo (tty_devs s ! i))) [] = Some (line, rest)"
  shows "\<exists>s'. tty_read resume uninit dev addr buf n s = Some (int (length line), s')
    \<and> mem_has (umem s') buf line \<and> fifo_ok (ififo (tty_devs s' ! i))
    \<and> fifo_contents (ififo (tty_devs s' ! i)) = rest \<and> sem_value (isem (tty_devs s' ! i)) = int (length rest)"
proof -
  have self: "in_view s i k (ififo (tty_devs s ! i)) (sem_value (isem (tty_devs s ! i)))
      (input_len (consoles s ! k)) (umem s) = s"
    using assms(2) by (simp add: in_view_def tty_at_def)
  have "mem_has (umem s) buf []" by (simp add: mem_has_def)
  from tty_read_loop_line[OF assms(2,3,5) refl assms(6) refl assms(7) this assms(8), of resume uninit dev
      "input_len (consoles s ! k)"] self
  show ?thesis using assms(1,2,4) by (auto simp: tty_read_def)
qed

section \<open>Witnesses\<close>

definition demo_tty :: tty_t where
  "demo_tty = \<lparr>ofifo = tty_fifo_init (replicate 512 0) 512, ififo = tty_fifo_init (replicate 512 0) 512,
     osem = \<lparr>sem_value = 512, sem_list = blank_list\<rparr>, isem = \<lparr>sem_value = 0, sem_list = blank_list\<rparr>,
     oflags = 1, iflags = 1, console_idx = 0\<rparr>"

definition demo_ttys :: ttys where
  "demo_ttys = sched.extend demo_sched
     \<lparr>tty_devs = [demo_tty], curr_tty = 0, consoles = [demo_console], curr_console_idx = 0,
      video = (\<lambda>_. demo_cell), umem = (\<lambda>_. 0)(100 := 104, 101 := 105), beeping = False,
      kbd = \<lparr>lshift_press = False, rshift_press = False, caps_lock = False, lalt_press = False,
              ralt_press = False, lctrl_press = False, rctrl_press = False\<rparr>, kbd_inited = False,
      kbd_recv = NORMAL\<rparr>"

definition demo_dev :: device_t where
  "demo_dev = \<lparr>ddesc = Some 0, dmode = 0, dminor = 0, ddata = 0, open_count = 1\<rparr>"

lemma demo_dev_tty: "get_tty demo_dev = Some 0"
  by (simp add: get_tty_def demo_dev_def TTY_NR_def)

lemma demo_simps [simp]:
  "tty_devs demo_ttys = [demo_tty]" "consoles demo_ttys = [demo_console]" "video demo_ttys = (\<lambda>_. demo_cell)"
  "umem demo_ttys = (\<lambda>_. 0)(100 := 104, 101 := 105)"
  by (simp_all add: demo_ttys_def sched.defs)

lemma demo_idle: "out_idle demo_ttys 0 0"
  by (simp add: out_idle_def demo_tty_def dll_def blank_list_def demo_console_def console_init_def
      mutex_init_def list_init_def blank_console_def mutex_free_def Let_def)

theorem tty_write_draws_witness:
  "\<exists>s'. tty_write (\<lambda>_. None) demo_dev 0 100 2 demo_ttys = Some (2, s')
    \<and> video s' (disp_base demo_console + 1) = set_cell demo_console 105"
proof -
  have "\<forall>x \<in> set [104, 105]. printable x" by (simp add: printable_def)
  from print_roll[OF demo_console_ok(1,2) this, of "\<lambda>_. demo_cell"]
  obtain c' v' where r: "console_run [104, 105] demo_console (\<lambda>_. demo_cell) = Some (c', v')"
    "\<And>i. 0 \<le> i \<Longrightarrow> i < 2000 \<Longrightarrow> v' (disp_base demo_console + i)
      = roll demo_console (\<lambda>_. demo_cell) [104, 105] (80 * roll_lines demo_console 2 + i)"
    by auto
  have k: "roll_lines demo_console 2 = 0" by (simp add: roll_lines_def demo_console_ok(3))
  have v: "v' (disp_base demo_console + 1) = set_cell demo_console 105"
    using r(2)[of 1] by (simp add: k demo_console_ok(3) roll_def)
  have f: "fifo_ok (ofifo (tty_devs demo_ttys ! 0))" "fifo_contents (ofifo (tty_devs demo_ttys ! 0)) = []"
    "2 \<le> fsz (ofifo (tty_devs demo_ttys ! 0))"
    using fifo_init_ok[of "replicate 512 0" 512] by (simp_all add: demo_tty_def tty_fifo_init_def)
  have m: "mem_has (umem demo_ttys) 100 [104, 105]" by (auto simp: mem_has_def less_Suc_eq)
  have run: "console_run (concat (map (expand_nl (oflags (tty_devs demo_ttys ! 0))) [104, 105]))
      (consoles demo_ttys ! 0) (video demo_ttys) = Some (c', v')"
    using r(1) by (simp add: expand_nl_def)
  obtain q' m' where w: "tty_write (\<lambda>_. None) demo_dev 0 100 (int (length [104, 105 :: u8])) demo_ttys
      = Some (int (length [104, 105 :: u8]),
          out_view demo_ttys 0 0 q' (sem_value (osem (tty_devs demo_ttys ! 0))) (with_mutex m' c') v')"
    using tty_write_draws[OF demo_dev_tty demo_idle f _ m _ run, of "\<lambda>_. None" 0] by (auto simp: demo_tty_def)
  then show ?thesis using v by (auto simp: out_view_def)
qed

definition demo_typed :: ttys where
  "demo_typed = demo_ttys\<lparr>tty_devs := [demo_tty\<lparr>ififo := \<lparr>fbuf = [97, 98, 127, 10] @ replicate 508 0,
     fsz = 512, fread = 0, fwrite = 4, fcount = 4\<rparr>, isem := \<lparr>sem_value = 4, sem_list = blank_list\<rparr>\<rparr>]\<rparr>"

theorem tty_read_line_witness:
  "\<exists>s'. tty_read (\<lambda>_. None) 0 demo_dev 0 200 80 demo_typed = Some (3, s') \<and> mem_has (umem s') 200 [97, 13, 10]"
proof -
  let ?q = "ififo (tty_devs demo_typed ! 0)"
  have q: "fifo_ok ?q" by (simp add: fifo_ok_def demo_typed_def)
  have c: "fifo_contents ?q = [97, 98, 127, 10]"
    by (simp add: fifo_contents_def demo_typed_def upt_rec)
  have at: "tty_at demo_typed 0 0" by (simp add: tty_at_def demo_typed_def demo_tty_def)
  have fl: "iflags (tty_devs demo_typed ! 0) = 1" by (simp add: demo_typed_def demo_tty_def)
  have noecho: "iflags (tty_devs demo_typed ! 0) AND TTY_IECHO = 0" by (simp add: fl TTY_IECHO_def)
  have sem: "sem_value (isem (tty_devs demo_typed ! 0)) = int (length (fifo_contents ?q))"
    unfolding c by (simp add: demo_typed_def)
  have line: "line_edit (iflags (tty_devs demo_typed ! 0) \<noteq> 0) 80 (fifo_contents ?q) [] = Some ([97, 13, 10], [])"
    unfolding c fl by simp
  from tty_read_line[OF demo_dev_tty at noecho _ _ q sem line, of "\<lambda>_. None" 0 0 200] show ?thesis by auto
qed

end
