(* ===== verification/Keyboard.thy ===== *)
theory Keyboard
  imports Tty
begin

text \<open>
  The keyboard driver of \<^verbatim>\<open>kernel/dev/keyboard.c\<close>: the key map, the modifier state and
  the automaton that joins the bytes of the extended keys.  The bytes read from the
  controller's status and data ports are arguments; the acknowledgement to the interrupt
  controller is hardware output.
\<close>

section \<open>Keys\<close>

definition KEY_LSHIFT :: u8 where "KEY_LSHIFT = 0x36"
definition KEY_RSHIFT :: u8 where "KEY_RSHIFT = 0x2A"
definition KEY_CAPS :: u8 where "KEY_CAPS = 0x3A"
definition KEY_ALT :: u8 where "KEY_ALT = 0x38"
definition KEY_CTRL :: u8 where "KEY_CTRL = 0x1D"
definition KEY_F1 :: u8 where "KEY_F1 = 0x3B"
definition KEY_E0 :: u8 where "KEY_E0 = 0xE0"
definition KEY_E1 :: u8 where "KEY_E1 = 0xE1"
definition KBD_STAT_RECV_READY :: u32 where "KBD_STAT_RECV_READY = 1"

record key_map_t =
  normal :: u8
  func :: u8

text \<open>Scan code, plain and shifted character; keys not in the list have two zeros.\<close>

definition map_entries :: "(u8 \<times> u8 \<times> u8) list" where
  "map_entries =
   [(0x02, 49, 33), (0x03, 50, 64), (0x04, 51, 35), (0x05, 52, 36), (0x06, 53, 37),
     (0x07, 54, 94), (0x08, 55, 38), (0x09, 56, 42), (0x0A, 57, 40), (0x0B, 48, 41),
     (0x0C, 45, 95), (0x0D, 61, 43), (0x0E, 127, 127), (0x0F, 9, 9), (0x10, 113, 81),
     (0x11, 119, 87), (0x12, 101, 69), (0x13, 114, 82), (0x14, 116, 84), (0x15, 121, 89),
     (0x16, 117, 85), (0x17, 105, 73), (0x18, 111, 79), (0x19, 112, 80), (0x1A, 91, 123),
     (0x1B, 93, 125), (0x1C, 10, 10), (0x1E, 97, 65), (0x1F, 115, 66), (0x20, 100, 68),
     (0x21, 102, 70), (0x22, 103, 71), (0x23, 104, 72), (0x24, 106, 74), (0x25, 107, 75),
     (0x26, 108, 76), (0x27, 59, 58), (0x28, 39, 34), (0x29, 96, 126), (0x2B, 92, 124),
     (0x2C, 122, 90), (0x2D, 120, 88), (0x2E, 99, 67), (0x2F, 118, 86), (0x30, 98, 66),
     (0x31, 110, 78), (0x32, 109, 77), (0x33, 44, 60), (0x34, 46, 62), (0x35, 47, 63),
     (0x39, 32, 32), (0x47, 55, 0), (0x48, 56, 0), (0x49, 57, 0), (0x4A, 45, 45), (0x4B, 52, 0),
     (0x4C, 53, 0), (0x4D, 54, 0), (0x4E, 43, 43), (0x4F, 49, 0), (0x50, 50, 0), (0x51, 51, 0),
     (0x52, 48, 0), (0x53, 46, 127)]"

definition map_table :: "u8 \<Rightarrow> key_map_t" where
  "map_table k =
    (case map_of map_entries k of
       Some (a, b) \<Rightarrow> \<lparr>normal = a, func = b\<rparr> | None \<Rightarrow> \<lparr>normal = 0, func = 0\<rparr>)"

definition is_make_code :: "u8 \<Rightarrow> bool" where
  "is_make_code key_code \<longleftrightarrow> key_code AND 0x80 = 0"

definition get_key :: "u8 \<Rightarrow> u8" where
  "get_key key_code = key_code AND 0x7F"

section \<open>Handlers\<close>

definition do_fx_key :: "int \<Rightarrow> u8 \<Rightarrow> ttys \<Rightarrow> ttys option" where
  "do_fx_key cursor_pos key s = tty_select cursor_pos (unat (key - KEY_F1)) s"

definition swap_case :: "u8 \<Rightarrow> u8" where
  "swap_case key =
    (if 65 \<le> key \<and> key \<le> 90 then key - 65 + 97
     else if 97 \<le> key \<and> key \<le> 122 then key - 97 + 65 else key)"

definition do_normal_key :: "ttys resume \<Rightarrow> int \<Rightarrow> u8 \<Rightarrow> ttys \<Rightarrow> ttys option" where
  "do_normal_key resume cursor_pos raw_code s =
    (let key = get_key raw_code; is_make = is_make_code raw_code; ks = kbd s
     in if key = KEY_LSHIFT then Some (s\<lparr>kbd := ks\<lparr>lshift_press := is_make\<rparr>\<rparr>)
        else if key = KEY_RSHIFT then Some (s\<lparr>kbd := ks\<lparr>rshift_press := is_make\<rparr>\<rparr>)
        else if key = KEY_CAPS
        then Some (if is_make then s\<lparr>kbd := ks\<lparr>caps_lock := \<not> caps_lock ks\<rparr>\<rparr> else s)
        else if key = KEY_ALT then Some (s\<lparr>kbd := ks\<lparr>lalt_press := is_make\<rparr>\<rparr>)
        else if key = KEY_CTRL then Some (s\<lparr>kbd := ks\<lparr>lctrl_press := is_make\<rparr>\<rparr>)
        else if 0x3B \<le> key \<and> key \<le> 0x42 then do_fx_key cursor_pos key s
        else if key = 0x43 \<or> key = 0x44 \<or> key = 0x57 \<or> key = 0x58 then Some s
        else if is_make
        then let ch = (if rshift_press ks \<or> lshift_press ks then func (map_table key)
                       else normal (map_table key));
                 ch = (if caps_lock ks then swap_case ch else ch)
             in tty_in resume ch s
        else Some s)"

definition do_e0_key :: "ttys resume \<Rightarrow> int \<Rightarrow> u8 \<Rightarrow> ttys \<Rightarrow> ttys option" where
  "do_e0_key resume uninit raw_code s =
    (let key = get_key raw_code; is_make = is_make_code raw_code; ks = kbd s
     in if key = KEY_CTRL then Some (s\<lparr>kbd := ks\<lparr>rctrl_press := is_make\<rparr>\<rparr>)
        else if key = KEY_ALT then Some (s\<lparr>kbd := ks\<lparr>ralt_press := is_make\<rparr>\<rparr>)
        else if uint key = KEY_UP \<or> uint key = KEY_DOWN then tty_handle_key resume uninit (uint key) s
        else Some s)"

definition do_handle_keyboard ::
    "ttys resume \<Rightarrow> int \<Rightarrow> int \<Rightarrow> u32 \<Rightarrow> u8 \<Rightarrow> ttys \<Rightarrow> ttys option" where
  "do_handle_keyboard resume cursor_pos uninit kbd_status raw_code s =
    (if kbd_status AND KBD_STAT_RECV_READY = 0 then Some s
     else if raw_code = KEY_E0 then Some (s\<lparr>kbd_recv := BEGIN_E0\<rparr>)
     else if raw_code = KEY_E1 then Some (s\<lparr>kbd_recv := BEGIN_E1\<rparr>)
     else (case kbd_recv s of
         NORMAL \<Rightarrow> do_normal_key resume cursor_pos raw_code s
       | BEGIN_E0 \<Rightarrow> map_option (\<lambda>s. s\<lparr>kbd_recv := NORMAL\<rparr>) (do_e0_key resume uninit raw_code s)
       | BEGIN_E1 \<Rightarrow> Some (s\<lparr>kbd_recv := NORMAL\<rparr>)))"

section \<open>Properties\<close>

definition letter_keys :: "(u8 \<times> u8) list" where
  "letter_keys = [
    (0x10, 113), (0x11, 119), (0x12, 101), (0x13, 114), (0x14, 116), (0x15, 121), (0x16, 117),
    (0x17, 105), (0x18, 111), (0x19, 112), (0x1E, 97), (0x1F, 115), (0x20, 100), (0x21, 102),
    (0x22, 103), (0x23, 104), (0x24, 106), (0x25, 107), (0x26, 108), (0x2C, 122), (0x2D, 120),
    (0x2E, 99), (0x2F, 118), (0x30, 98), (0x31, 110), (0x32, 109)]"

text \<open>What the handler needs to know of a letter key, checked over the whole map.\<close>

definition letter_key_ok :: "u8 \<times> u8 \<Rightarrow> bool" where
  "letter_key_ok = (\<lambda>(c, l). get_key c = c \<and> is_make_code c \<and> c \<noteq> KEY_LSHIFT \<and> c \<noteq> KEY_RSHIFT \<and> c \<noteq> KEY_CAPS
     \<and> c \<noteq> KEY_ALT \<and> c \<noteq> KEY_CTRL \<and> \<not> (0x3B \<le> c \<and> c \<le> 0x42) \<and> c \<noteq> 0x43 \<and> c \<noteq> 0x44 \<and> c \<noteq> 0x57
     \<and> c \<noteq> 0x58 \<and> c \<noteq> KEY_E0 \<and> c \<noteq> KEY_E1 \<and> normal (map_table c) = l
     \<and> func (map_table c) = (if c = 0x1F then 66 else l - 32) \<and> swap_case l = l - 32 \<and> swap_case (l - 32) = l)"

lemma letter_keys_ok: "list_all letter_key_ok letter_keys"
  by code_simp

text \<open>Pressing a letter key types that letter, in upper case exactly when one of shift and
  caps lock is on but not both; with one exception: shift and the S key type a B (the key map
  has the wrong entry).\<close>

theorem letter_keys_type:
  assumes "(code, l) \<in> set letter_keys" and "kbd_recv s = NORMAL" and "kbd_status AND KBD_STAT_RECV_READY \<noteq> 0"
  defines "shift \<equiv> lshift_press (kbd s) \<or> rshift_press (kbd s)"
  defines "letter \<equiv> (if code = 0x1F \<and> shift then of_char CHR ''b'' else l)"
  shows "do_handle_keyboard resume cursor_pos uninit kbd_status code s
    = tty_in resume (if shift \<noteq> caps_lock (kbd s) then letter - 32 else letter) s"
proof -
  have k: "letter_key_ok (code, l)" using letter_keys_ok assms(1) by (auto simp: list_all_iff)
  have sw: "swap_case 66 = 98" "swap_case 98 = 66" by (simp_all add: swap_case_def)
  have "do_normal_key resume cursor_pos code s
    = tty_in resume (if shift \<noteq> caps_lock (kbd s) then letter - 32 else letter) s"
    using k unfolding shift_def letter_def
    by (auto simp: letter_key_ok_def do_normal_key_def Let_def sw)
  with k show ?thesis using assms(2,3) by (simp add: do_handle_keyboard_def letter_key_ok_def)
qed

theorem letter_keys_type_witness:
  "do_handle_keyboard (\<lambda>_. None) 0 0 1 0x1F (demo_ttys\<lparr>kbd := (kbd demo_ttys)\<lparr>lshift_press := True\<rparr>\<rparr>)
    = tty_in (\<lambda>_. None) (of_char CHR ''B'') (demo_ttys\<lparr>kbd := (kbd demo_ttys)\<lparr>lshift_press := True\<rparr>\<rparr>)"
proof -
  let ?s = "demo_ttys\<lparr>kbd := (kbd demo_ttys)\<lparr>lshift_press := True\<rparr>\<rparr>"
  have "(0x1F, 115) \<in> set letter_keys" by (simp add: letter_keys_def)
  moreover have "kbd_recv ?s = NORMAL" by (simp add: demo_ttys_def sched.defs)
  moreover have "1 AND KBD_STAT_RECV_READY \<noteq> 0" by (simp add: KBD_STAT_RECV_READY_def)
  ultimately have "do_handle_keyboard (\<lambda>_. None) 0 0 1 0x1F ?s = tty_in (\<lambda>_. None)
      (if (lshift_press (kbd ?s) \<or> rshift_press (kbd ?s)) \<noteq> caps_lock (kbd ?s)
       then (if 0x1F = (0x1F :: u8) \<and> (lshift_press (kbd ?s) \<or> rshift_press (kbd ?s)) then of_char CHR ''b'' else 115) - 32
       else (if 0x1F = (0x1F :: u8) \<and> (lshift_press (kbd ?s) \<or> rshift_press (kbd ?s)) then of_char CHR ''b'' else 115)) ?s"
    by (rule letter_keys_type)
  then show ?thesis by (simp add: demo_ttys_def sched.defs)
qed

end
