(* ===== verification/Time.thy ===== *)
theory Time
  imports Prelude
begin

text \<open>
  The clock of \<^verbatim>\<open>kernel/dev/time.c\<close> (and the tick counter of
  \<^verbatim>\<open>kernel/dev/clock.c\<close>): the CMOS reading, the conversion of a date to seconds since
  1970 and back.  \<open>time_t\<close> is 64 bits wide, \<open>int\<close> and \<open>long\<close> 32 bits; the products that can
  leave 32 bits are wrapped.  What the CMOS answers to its \<open>n\<close>th read of a register is the
  argument \<open>cmos\<close>.
\<close>

section \<open>Data\<close>

record tm_t =
  tm_sec :: int
  tm_min :: int
  tm_hour :: int
  tm_mday :: int
  tm_mon :: int
  tm_year :: int
  tm_wday :: int
  tm_yday :: int
  tm_isdst :: int

definition MINUTE :: int where "MINUTE = 60"
definition HOUR :: int where "HOUR = 60 * MINUTE"
definition DAY :: int where "DAY = 24 * HOUR"
definition YEAR :: int where "YEAR = 365 * DAY"
definition CLOCK_TICK_MS :: u32 where "CLOCK_TICK_MS = 10"

text \<open>Days before each month of a leap year; months count from 1.\<close>

definition month :: "int list" where
  "month = [0, 0, 31, 31 + 29, 31 + 29 + 31, 31 + 29 + 31 + 30, 31 + 29 + 31 + 30 + 31,
     31 + 29 + 31 + 30 + 31 + 30, 31 + 29 + 31 + 30 + 31 + 30 + 31,
     31 + 29 + 31 + 30 + 31 + 30 + 31 + 31, 31 + 29 + 31 + 30 + 31 + 30 + 31 + 31 + 30,
     31 + 29 + 31 + 30 + 31 + 30 + 31 + 31 + 30 + 31,
     31 + 29 + 31 + 30 + 31 + 30 + 31 + 31 + 30 + 31 + 30]"

section \<open>Reading the CMOS clock\<close>

definition bcd_to_bin :: "u8 \<Rightarrow> u8" where
  "bcd_to_bin v = (v AND 0xF) + drop_bit 4 v * 10"

definition bin_to_bcd :: "u8 \<Rightarrow> u8" where
  "bin_to_bcd v = (v div 10) * 0x10 + v mod 10"

text \<open>One pass over the registers from read number \<open>n\<close> on, in the order of the code.\<close>

definition read_pass :: "(nat \<Rightarrow> u8 \<Rightarrow> u8) \<Rightarrow> nat \<Rightarrow> tm_t \<Rightarrow> tm_t \<times> int" where
  "read_pass cmos n t =
    (t\<lparr>tm_sec := uint (cmos n 0), tm_min := uint (cmos (n + 1) 2), tm_hour := uint (cmos (n + 2) 4),
       tm_wday := uint (cmos (n + 3) 6), tm_mday := uint (cmos (n + 4) 7), tm_mon := uint (cmos (n + 5) 8),
       tm_year := uint (cmos (n + 6) 9)\<rparr>,
     uint (cmos (n + 7) 0x32))"

partial_function (option) time_read_bcd :: "(nat \<Rightarrow> u8 \<Rightarrow> u8) \<Rightarrow> nat \<Rightarrow> tm_t \<Rightarrow> (tm_t \<times> int) option" where
  "time_read_bcd cmos n t =
    (case read_pass cmos n t of
       (t, century) \<Rightarrow>
         if tm_sec t \<noteq> uint (cmos (n + 8) 0) then time_read_bcd cmos (n + 9) t else Some (t, century))"

text \<open>The table is an array of 13 entries: a month outside it is an access out of bounds.\<close>

definition month_at :: "int \<Rightarrow> int option" where
  "month_at m = (if 0 \<le> m \<and> m < int (length month) then Some (month ! nat m) else None)"

definition get_yday :: "tm_t \<Rightarrow> int option" where
  "get_yday t =
    do {
      before \<leftarrow> month_at (tm_mon t);
      let res = before + tm_mday t;
      let year = (if tm_year t \<ge> 70 then tm_year t - 70 else tm_year t - 70 + 100);
      Some (if c_mod (year + 2) 4 \<noteq> 0 \<and> tm_mon t > 2 then res - 1 else res)
    }"

definition bcd_int :: "int \<Rightarrow> int" where
  "bcd_int v = uint (bcd_to_bin (word_of_int v))"

definition time_read :: "(nat \<Rightarrow> u8 \<Rightarrow> u8) \<Rightarrow> nat \<Rightarrow> tm_t \<Rightarrow> (tm_t \<times> int) option" where
  "time_read cmos n t =
    do {
      (t, century) \<leftarrow> time_read_bcd cmos n t;
      let t = t\<lparr>tm_sec := bcd_int (tm_sec t), tm_min := bcd_int (tm_min t), tm_hour := bcd_int (tm_hour t),
                tm_wday := bcd_int (tm_wday t), tm_mday := bcd_int (tm_mday t), tm_mon := bcd_int (tm_mon t),
                tm_year := bcd_int (tm_year t)\<rparr>;
      yday \<leftarrow> get_yday t;
      Some (t\<lparr>tm_yday := yday, tm_isdst := - 1\<rparr>, bcd_int century)
    }"

section \<open>Dates and seconds\<close>

text \<open>
  The product of the year is an \<open>int\<close> and wraps; the sums run in the 64 bits of \<^verbatim>\<open>time_t\<close>.
\<close>

definition sys_mktime :: "tm_t \<Rightarrow> int option" where
  "sys_mktime t =
    do {
      let year = (if tm_year t \<ge> 70 then tm_year t - 70 else tm_year t - 70 + 100);
      let res = to_int32 (YEAR * year);
      let res = res + DAY * c_div (year + 1) 4;
      before \<leftarrow> month_at (tm_mon t);
      let res = res + before * DAY;
      let res = (if tm_mon t > 2 \<and> c_mod (year + 2) 4 \<noteq> 0 then res - DAY else res);
      let res = res + DAY * (tm_mday t - 1);
      let res = res + HOUR * tm_hour t;
      let res = res + MINUTE * tm_min t;
      Some (res + tm_sec t)
    }"

text \<open>The line \<^verbatim>\<open>time_init\<close> logs is left out.\<close>

definition time_init :: "(nat \<Rightarrow> u8 \<Rightarrow> u8) \<Rightarrow> tm_t \<Rightarrow> int option" where
  "time_init cmos t = do { (t, century) \<leftarrow> time_read cmos 0 t; sys_mktime t }"

text \<open>\<open>sys_tick\<close> is the 32-bit tick counter, \<open>startup_time\<close> what \<open>time_init\<close> stored.\<close>

definition sys_time :: "int \<Rightarrow> u32 \<Rightarrow> int" where
  "sys_time startup_time sys_tick = startup_time + uint ((sys_tick * CLOCK_TICK_MS) div 1000)"

definition sys_gettimeofday :: "int \<Rightarrow> u32 \<Rightarrow> int \<times> int" where
  "sys_gettimeofday startup_time sys_tick =
    (sys_time startup_time sys_tick, uint ((sys_tick * (1000 div CLOCK_TICK_MS)) mod 1000))"

text \<open>The loop over the years; \<open>year\<close> is 16 bits wide.\<close>

definition is_leap :: "int \<Rightarrow> bool" where
  "is_leap year \<longleftrightarrow> year mod 4 = 0 \<and> year mod 100 \<noteq> 0 \<or> year mod 400 = 0"

function stamp_year :: "int \<Rightarrow> int \<Rightarrow> int \<times> int" where
  "stamp_year year days =
    (let ydays = (if is_leap year then 366 else 365)
     in if days < ydays then (year, days) else stamp_year ((year + 1) mod 65536) (days - ydays))"
  by auto
termination
  by (relation "measure (\<lambda>(year, days). nat days)") (auto split: if_splits)

declare stamp_year.simps [simp del]

definition days_in_month :: "int list" where
  "days_in_month = [31, 28, 31, 30, 31, 30, 31, 31, 30, 31, 30, 31]"

text \<open>The loop over the months; \<open>\<and>\<close> binds the month only to the first two tests of the year.\<close>

fun stamp_month :: "int \<Rightarrow> int \<Rightarrow> int list \<Rightarrow> int \<Rightarrow> int \<times> int" where
  "stamp_month year m [] days = (m, days)"
| "stamp_month year m (mdays # ms) days =
    (let mdays = (if m = 1 \<and> (year mod 4 = 0 \<and> year mod 100 \<noteq> 0) \<or> year mod 400 = 0 then 29 else mdays)
     in if days < mdays then (m, days) else stamp_month year (m + 1) ms (days - mdays))"

definition fml_stamp_to_time :: "int \<Rightarrow> tm_t" where
  "fml_stamp_to_time timep =
    (let days = uint (word_of_int (c_div timep 86400) :: u32);
         rem = uint (word_of_int (c_mod timep 86400) :: u32);
         (year, yday) = stamp_year 1970 days;
         (mon, mday) = stamp_month year 0 days_in_month yday
     in \<lparr>tm_sec = (rem mod 3600) mod 60, tm_min = (rem mod 3600) div 60, tm_hour = rem div 3600,
         tm_mday = mday + 1, tm_mon = mon, tm_year = year - 1900, tm_wday = yday mod 7 + 1,
         tm_yday = yday, tm_isdst = 0\<rparr>)"

definition sys_gmtime_r :: "int \<Rightarrow> tm_t" where
  "sys_gmtime_r timep = fml_stamp_to_time (to_int32 timep)"

section \<open>The calendar\<close>

text \<open>Reference: the Gregorian calendar, counted year by year and month by month.\<close>

definition year_days :: "int \<Rightarrow> int" where
  "year_days y = (if is_leap y then 366 else 365)"

definition month_days :: "int \<Rightarrow> int \<Rightarrow> int" where
  "month_days y m = (if m = 2 then if is_leap y then 29 else 28
     else if m \<in> {4, 6, 9, 11} then 30 else 31)"

fun days_to_year :: "nat \<Rightarrow> int" where
  "days_to_year 0 = 0"
| "days_to_year (Suc n) = days_to_year n + year_days (1970 + int n)"

fun days_to_month :: "int \<Rightarrow> nat \<Rightarrow> int" where
  "days_to_month y 0 = 0"
| "days_to_month y (Suc m) = days_to_month y m + month_days y (int m + 1)"

text \<open>Days from 1 January 1970 to the given day.\<close>

definition day_number :: "int \<Rightarrow> int \<Rightarrow> int \<Rightarrow> int" where
  "day_number y m d = days_to_year (nat (y - 1970)) + days_to_month y (nat (m - 1)) + (d - 1)"

definition calendar_year :: "tm_t \<Rightarrow> int" where
  "calendar_year t = (if tm_year t \<ge> 70 then 1900 else 2000) + tm_year t"

definition valid_tm :: "tm_t \<Rightarrow> bool" where
  "valid_tm t \<longleftrightarrow> 0 \<le> tm_sec t \<and> tm_sec t < 60 \<and> 0 \<le> tm_min t \<and> tm_min t < 60 \<and> 0 \<le> tm_hour t \<and> tm_hour t < 24
     \<and> 1 \<le> tm_mon t \<and> tm_mon t \<le> 12 \<and> 1 \<le> tm_mday t \<and> tm_mday t \<le> month_days (calendar_year t) (tm_mon t)
     \<and> 0 \<le> tm_year t \<and> 1970 \<le> calendar_year t \<and> calendar_year t \<le> 2037"

lemma is_leap_4: "1901 \<le> y \<Longrightarrow> y \<le> 2099 \<Longrightarrow> is_leap y \<longleftrightarrow> y mod 4 = 0"
  unfolding is_leap_def by presburger

lemma days_to_year_closed: "n \<le> 100 \<Longrightarrow> days_to_year n = 365 * int n + (int n + 1) div 4"
proof (induction n)
  case (Suc n)
  then have "year_days (1970 + int n) = (if (int n + 2) mod 4 = 0 then 366 else 365)"
    using is_leap_4[of "1970 + int n"] by (simp add: year_days_def) presburger
  moreover have "(int n + 1 + 1) div 4 = (int n + 1) div 4 + (if (int n + 2) mod 4 = 0 then 1 else 0)"
    by presburger
  ultimately show ?case using Suc by (simp add: algebra_simps)
qed simp

lemma month_closed:
  assumes "1 \<le> m" and "m \<le> 12"
  shows "month_at m = Some (days_to_month y (nat (m - 1)) + (if 2 < m \<and> \<not> is_leap y then 1 else 0))"
proof -
  have "m = 1 \<or> m = 2 \<or> m = 3 \<or> m = 4 \<or> m = 5 \<or> m = 6 \<or> m = 7 \<or> m = 8 \<or> m = 9 \<or> m = 10 \<or> m = 11 \<or> m = 12"
    using assms by presburger
  then show ?thesis
    by (elim disjE) (simp_all add: month_at_def month_def month_days_def eval_nat_numeral)
qed

lemma month_days_range: "28 \<le> month_days y m" "month_days y m \<le> 31"
  by (auto simp: month_days_def)

lemma days_to_month_nonneg: "0 \<le> days_to_month y m"
proof (induction m)
  case (Suc m)
  then show ?case using month_days_range(1)[of y "int m + 1"] by simp
qed simp

lemma days_to_year_nonneg: "0 \<le> days_to_year n"
  by (induction n) (auto simp: year_days_def)

text \<open>The year loop undoes the sum over the years.\<close>

lemma stamp_year_ok:
  assumes "0 \<le> yd" and "yd < year_days (1970 + int (n + k))" and "n + k < 1000"
  shows "stamp_year (1970 + int n) (days_to_year (n + k) - days_to_year n + yd) = (1970 + int (n + k), yd)"
  using assms
proof (induction k arbitrary: n)
  case 0
  then show ?case by (simp add: stamp_year.simps[of "1970 + int n"] year_days_def)
next
  case (Suc k)
  have IH: "stamp_year (1970 + int (Suc n)) (days_to_year (Suc n + k) - days_to_year (Suc n) + yd)
    = (1970 + int (Suc n + k), yd)"
    by (rule Suc.IH) (use Suc.prems in simp_all)
  have mono: "days_to_year (Suc n) \<le> days_to_year (Suc n + k)"
    by (induction k) (auto simp: year_days_def)
  let ?d = "days_to_year (n + Suc k) - days_to_year n + yd"
  have d: "?d - year_days (1970 + int n) = days_to_year (Suc n + k) - days_to_year (Suc n) + yd" by simp
  have "\<not> ?d < year_days (1970 + int n)" using mono Suc.prems(1) by simp
  moreover have "(1970 + int n + 1) mod 65536 = 1970 + int (Suc n)" using Suc.prems(3) by simp
  ultimately have "stamp_year (1970 + int n) ?d = stamp_year (1970 + int (Suc n)) (?d - year_days (1970 + int n))"
    by (subst stamp_year.simps) (simp add: year_days_def Let_def)
  then show ?case unfolding d IH by simp
qed

text \<open>The month loop undoes the sum over the months, except in a year divisible by 400.\<close>

lemma stamp_month_ok:
  assumes "y mod 400 \<noteq> 0" and "1 \<le> m" and "m \<le> 12" and "0 \<le> d" and "d < month_days y m"
  shows "stamp_month y 0 days_in_month (days_to_month y (nat (m - 1)) + d) = (m - 1, d)"
proof -
  have leap: "is_leap y \<longleftrightarrow> y mod 4 = 0 \<and> y mod 100 \<noteq> 0" using assms(1) by (simp add: is_leap_def)
  have "m = 1 \<or> m = 2 \<or> m = 3 \<or> m = 4 \<or> m = 5 \<or> m = 6 \<or> m = 7 \<or> m = 8 \<or> m = 9 \<or> m = 10 \<or> m = 11 \<or> m = 12"
    using assms by presburger
  then show ?thesis
    using assms(4,5)
    by (elim disjE) (simp_all add: days_in_month_def month_days_def leap assms(1) eval_nat_numeral split: if_splits)
qed

lemma yday_range:
  assumes "1 \<le> m" and "m \<le> 12" and "0 \<le> d" and "d < month_days y m"
  shows "days_to_month y (nat (m - 1)) + d < year_days y"
proof -
  have "m = 1 \<or> m = 2 \<or> m = 3 \<or> m = 4 \<or> m = 5 \<or> m = 6 \<or> m = 7 \<or> m = 8 \<or> m = 9 \<or> m = 10 \<or> m = 11 \<or> m = 12"
    using assms by presburger
  then show ?thesis
    using assms(4)
    by (elim disjE) (auto simp: month_days_def year_days_def eval_nat_numeral split: if_splits)
qed

lemma mktime_calendar_closed:
  assumes "valid_tm t"
  shows "sys_mktime t = Some (day_number (calendar_year t) (tm_mon t) (tm_mday t) * 86400
    + tm_hour t * 3600 + tm_min t * 60 + tm_sec t)"
proof -
  let ?y = "calendar_year t - 1970"
  have y: "0 \<le> ?y" "?y \<le> 67" and m: "1 \<le> tm_mon t" "tm_mon t \<le> 12"
    using assms by (simp_all add: valid_tm_def)
  have year: "(if tm_year t \<ge> 70 then tm_year t - 70 else tm_year t - 70 + 100) = ?y"
    by (simp add: calendar_year_def)
  have w: "to_int32 (YEAR * ?y) = YEAR * ?y"
    by (rule to_int32_id) (use y in \<open>simp_all add: YEAR_def DAY_def HOUR_def MINUTE_def\<close>)
  have leap: "(?y + 2) mod 4 \<noteq> 0 \<longleftrightarrow> \<not> is_leap (calendar_year t)"
    using is_leap_4[of "calendar_year t"] y by simp presburger
  have dy: "days_to_year (nat ?y) = 365 * ?y + (?y + 1) div 4"
    using days_to_year_closed[of "nat ?y"] y by simp
  show ?thesis
    unfolding sys_mktime_def year Let_def w month_closed[OF m, of "calendar_year t"] day_number_def dy
    using y leap by (simp add: YEAR_def DAY_def HOUR_def MINUTE_def algebra_simps)
qed

section \<open>Properties\<close>

text \<open>C30: The conversion of a date to seconds agrees with the Gregorian calendar, counted year
  by year and month by month, for every valid date from 1970 to 2037.\<close>

theorem mktime_calendar:
  assumes "valid_tm t"
  shows "sys_mktime t = Some (day_number (calendar_year t) (tm_mon t) (tm_mday t) * 86400
    + tm_hour t * 3600 + tm_min t * 60 + tm_sec t)"
  by (rule mktime_calendar_closed[OF assms])

text \<open>C31: Converting a date to seconds and back gives the date again (months counted from 0
  on the way back), for every valid date from 1970 to 2037 except in 2000.\<close>

theorem time_roundtrip:
  assumes "valid_tm t" and "calendar_year t \<noteq> 2000"
  shows "\<exists>secs. sys_mktime t = Some secs \<and> (let r = sys_gmtime_r secs in tm_year r = calendar_year t - 1900 \<and> tm_mon r = tm_mon t - 1 \<and> tm_mday r = tm_mday t
    \<and> tm_hour r = tm_hour t \<and> tm_min r = tm_min t \<and> tm_sec r = tm_sec t)"
proof -
  let ?y = "calendar_year t" and ?m = "tm_mon t" and ?d = "tm_mday t - 1"
  let ?n = "nat (?y - 1970)" and ?D = "day_number (calendar_year t) (tm_mon t) (tm_mday t)"
  define S where "S = tm_hour t * 3600 + tm_min t * 60 + tm_sec t"
  let ?yd = "days_to_month ?y (nat (?m - 1)) + ?d"
  have r: "0 \<le> tm_sec t" "tm_sec t < 60" "0 \<le> tm_min t" "tm_min t < 60" "0 \<le> tm_hour t" "tm_hour t < 24"
    "1 \<le> ?m" "?m \<le> 12" "0 \<le> ?d" "?d < month_days ?y ?m" "1970 \<le> ?y" "?y \<le> 2037"
    using assms(1) by (simp_all add: valid_tm_def)
  have n: "int ?n = ?y - 1970" "?n \<le> 67" using r by simp_all
  have s: "0 \<le> S" "S < 86400" using r(1-6) unfolding S_def by linarith+
  have yd: "0 \<le> ?yd" "?yd < year_days ?y"
    using yday_range[OF r(7-10)] days_to_month_nonneg r(9) by (simp_all add: add_nonneg_nonneg)
  have D: "?D = days_to_year ?n - days_to_year 0 + ?yd" by (simp add: day_number_def)
  have Dr: "0 \<le> ?D" "?D < 24840"
  proof -
    show "0 \<le> ?D" using D days_to_year_nonneg yd by simp
    have "365 * int ?n + (int ?n + 1) div 4 \<le> 24472" using n(2) by linarith
    moreover have "days_to_year ?n = 365 * int ?n + (int ?n + 1) div 4"
      by (rule days_to_year_closed) (use n in simp)
    moreover have "year_days ?y \<le> 366" by (simp add: year_days_def)
    moreover have "days_to_year 0 = 0" by simp
    ultimately show "?D < 24840" using D yd(2) by linarith
  qed
  have mk: "sys_mktime t = Some (?D * 86400 + S)"
    using mktime_calendar_closed[OF assms(1)] by (simp add: S_def)
  have i32: "to_int32 (?D * 86400 + S) = ?D * 86400 + S"
  proof (rule to_int32_id)
    have "0 \<le> ?D * 86400" "?D * 86400 \<le> 24839 * 86400" using Dr by simp_all
    with s have b: "0 \<le> ?D * 86400 + S" "?D * 86400 + S < 2147483648" by linarith+
    show "?D * 86400 + S < 2 ^ 31" using b(2) by simp
    show "- (2 ^ 31) \<le> ?D * 86400 + S" by (rule order_trans[OF _ b(1)]) simp
  qed
  have q: "(?D * 86400 + S) div 86400 = ?D" "(?D * 86400 + S) mod 86400 = S"
    using s by auto
  have u: "uint (word_of_int ?D :: u32) = ?D" "uint (word_of_int S :: u32) = S"
    using Dr s by (simp_all add: uint_word_of_int_eq take_bit_int_eq_self)
  have sy: "stamp_year 1970 ?D = (?y, ?yd)"
    using stamp_year_ok[of ?yd 0 ?n] yd n unfolding D by simp
  have sm: "stamp_month ?y 0 days_in_month ?yd = (?m - 1, ?d)"
    by (rule stamp_month_ok[OF _ r(7-10)]) (use assms(2) r in presburger)
  have t1: "S div 3600 = tm_hour t"
    by (rule int_div_pos_eq[of _ _ _ "tm_min t * 60 + tm_sec t"]) (use r(1-6) in \<open>simp_all add: S_def\<close>)
  have t2: "S mod 3600 = tm_min t * 60 + tm_sec t"
    by (rule int_mod_pos_eq[of _ _ "tm_hour t"]) (use r(1-6) in \<open>simp_all add: S_def\<close>)
  have t3: "(tm_min t * 60 + tm_sec t) div 60 = tm_min t" "(tm_min t * 60 + tm_sec t) mod 60 = tm_sec t"
    using r(1,2) by auto
  note t = t1 t2 t3
  show ?thesis
    using Dr s r(1,2) by (simp add: sys_gmtime_r_def mk i32 fml_stamp_to_time_def q u sy sm t)
qed

text \<open>In 2000 every month is taken to have 29 days: 30 January comes back as 1 February.\<close>

lemma stamp_2000_wrong:
  "map_option (\<lambda>secs. tm_mon (sys_gmtime_r secs)) (sys_mktime \<lparr>tm_sec = 0, tm_min = 0, tm_hour = 0, tm_mday = 30,
     tm_mon = 1, tm_year = 0, tm_wday = 0, tm_yday = 0, tm_isdst = 0\<rparr>) = Some 1"
  by code_simp

definition demo_date :: tm_t where
  "demo_date = \<lparr>tm_sec = 30, tm_min = 15, tm_hour = 12, tm_mday = 29, tm_mon = 2, tm_year = 24,
     tm_wday = 0, tm_yday = 0, tm_isdst = 0\<rparr>"

lemma demo_date_valid: "valid_tm demo_date" "calendar_year demo_date = 2024"
  by (simp_all add: valid_tm_def demo_date_def calendar_year_def month_days_def is_leap_def)

theorem mktime_calendar_witness:
  "sys_mktime demo_date = Some (day_number 2024 2 29 * 86400 + 12 * 3600 + 15 * 60 + 30)"
  using mktime_calendar[OF demo_date_valid(1)] demo_date_valid(2) by (simp add: demo_date_def)

theorem time_roundtrip_witness:
  "\<exists>secs. sys_mktime demo_date = Some secs \<and> tm_mday (sys_gmtime_r secs) = 29 \<and> tm_mon (sys_gmtime_r secs) = 1"
  using time_roundtrip[OF demo_date_valid(1)] demo_date_valid(2) by (auto simp: demo_date_def Let_def)

end
