(* ===== verification/Fatfs.thy ===== *)
theory Fatfs
  imports Dev Memory Blocks
begin

text \<open>
  The FAT16 file system of \<^verbatim>\<open>kernel/fs/fatfs/fatfs.c\<close>.

  The state is the device layer over a state with memory (\<open>'m mm_scheme\<close>) and the volume
  structures \<open>fats\<close>, one per file system.  \<open>fat_fs_dev\<close> is \<^verbatim>\<open>fat->fs->dev_id\<close>.  A \<open>diritem_t *\<close>
  is an address in the sector buffer; directory items and names that are local variables are
  byte lists.  A file operation takes the open file as a record and returns it.  A division
  by zero and a null dereference are \<open>None\<close>; the loops that need not end are partial
  functions.  Log output is not modelled.
\<close>

section \<open>Data\<close>

record fat_t =
  tbl_start :: u32
  tbl_cnt :: u32
  tbl_sectors :: u32
  bytes_per_sec :: u32
  sec_per_cluster :: u32
  root_ent_cnt :: u32
  root_start :: u32
  data_start :: u32
  cluster_byte_size :: u32
  fat_buffer :: u32
  curr_sector :: int
  fat_fs_dev :: int

record 's fat_state = "'s dev_state" +
  fats :: "nat \<Rightarrow> fat_t"

type_synonym 'm fat_sys = "'m mm_scheme fat_state"
type_synonym 'm disk_descs = "'m mm_scheme dev_desc_t list"

definition FAT_CLUSTER_INVALID :: u16 where "FAT_CLUSTER_INVALID = 0xFFF8"
definition FAT_CLUSTER_FREE :: u16 where "FAT_CLUSTER_FREE = 0"
definition DIRITEM_NAME_FREE :: u8 where "DIRITEM_NAME_FREE = 0xE5"
definition DIRITEM_NAME_END :: u8 where "DIRITEM_NAME_END = 0"
definition DIRITEM_ATTR_HIDDEN :: u8 where "DIRITEM_ATTR_HIDDEN = 2"
definition DIRITEM_ATTR_SYSTEM :: u8 where "DIRITEM_ATTR_SYSTEM = 4"
definition DIRITEM_ATTR_VOLUME_ID :: u8 where "DIRITEM_ATTR_VOLUME_ID = 8"
definition DIRITEM_ATTR_DIRECTORY :: u8 where "DIRITEM_ATTR_DIRECTORY = 0x10"
definition DIRITEM_ATTR_LONG_NAME :: u8 where "DIRITEM_ATTR_LONG_NAME = 0x0F"
definition SFN_LEN :: nat where "SFN_LEN = 11"
definition SECTOR_SIZE :: u32 where "SECTOR_SIZE = 512"
definition O_RDONLY :: int where "O_RDONLY = 0"
definition O_CREAT :: int where "O_CREAT = 0x200"
definition O_TRUNC :: int where "O_TRUNC = 0x400"

text \<open>The fields of a packed directory item, by offset.\<close>

definition DIR_Attr :: u32 where "DIR_Attr = 11"
definition DIR_FstClusHI :: u32 where "DIR_FstClusHI = 20"
definition DIR_FstClusL0 :: u32 where "DIR_FstClusL0 = 26"
definition DIR_FileSize :: u32 where "DIR_FileSize = 28"

text \<open>An unsigned division; by zero it is a fault.\<close>

definition u_div_mod :: "u32 \<Rightarrow> u32 \<Rightarrow> (u32 \<times> u32) option" where
  "u_div_mod a b = (if b = 0 then None else Some (a div b, a mod b))"

definition fmem :: "'m fat_sys \<Rightarrow> memory" where
  "fmem s = mem (drv s)"

definition set_fmem :: "memory \<Rightarrow> 'm fat_sys \<Rightarrow> 'm fat_sys" where
  "set_fmem m s = s\<lparr>drv := (drv s)\<lparr>mem := m\<rparr>\<rparr>"

definition upd_fat :: "nat \<Rightarrow> (fat_t \<Rightarrow> fat_t) \<Rightarrow> 'm fat_sys \<Rightarrow> 'm fat_sys" where
  "upd_fat k f s = s\<lparr>fats := (fats s)(k := f (fats s k))\<rparr>"

section \<open>Sectors and directory items\<close>

definition bread_sector :: "'m disk_descs \<Rightarrow> nat \<Rightarrow> int \<Rightarrow> 'm fat_sys \<Rightarrow> (int \<times> 'm fat_sys) option" where
  "bread_sector descs k sector s =
    (if sector = curr_sector (fats s k) then Some (0, s)
     else do {
       (cnt, s) \<leftarrow> dev_read descs (fat_fs_dev (fats s k)) sector (fat_buffer (fats s k)) 1 s;
       if cnt = 1 then Some (0, upd_fat k (\<lambda>f. f\<lparr>curr_sector := sector\<rparr>) s)
       else Some (- 1, s)
     })"

definition bwrite_sector :: "'m disk_descs \<Rightarrow> nat \<Rightarrow> int \<Rightarrow> 'm fat_sys \<Rightarrow> (int \<times> 'm fat_sys) option" where
  "bwrite_sector descs k sector s =
    do {
      (cnt, s) \<leftarrow> dev_write descs (fat_fs_dev (fats s k)) sector (fat_buffer (fats s k)) 1 s;
      Some (if cnt = 1 then 0 else - 1, s)
    }"

definition read_dir_entry :: "'m disk_descs \<Rightarrow> nat \<Rightarrow> int \<Rightarrow> 'm fat_sys \<Rightarrow> (u32 \<times> 'm fat_sys) option" where
  "read_dir_entry descs k index s =
    (let fat = fats s k
     in if index < 0 \<or> word_of_int index \<ge> root_ent_cnt fat then Some (0, s)
        else do {
          (sec, off) \<leftarrow> u_div_mod (word_of_int (index * 32)) (bytes_per_sec fat);
          (err, s) \<leftarrow> bread_sector descs k (sint (root_start fat + sec)) s;
          Some (if err < 0 then 0 else fat_buffer fat + off, s)
        })"

definition write_dir_entry ::
    "'m disk_descs \<Rightarrow> nat \<Rightarrow> u8 list \<Rightarrow> int \<Rightarrow> 'm fat_sys \<Rightarrow> (int \<times> 'm fat_sys) option" where
  "write_dir_entry descs k item index s =
    (let fat = fats s k
     in if index < 0 \<or> word_of_int index \<ge> root_ent_cnt fat then Some (- 1, s)
        else do {
          (sec, off) \<leftarrow> u_div_mod (word_of_int (index * 32)) (bytes_per_sec fat);
          let sector = sint (root_start fat + sec);
          (err, s) \<leftarrow> bread_sector descs k sector s;
          if err < 0 then Some (- 1, s)
          else bwrite_sector descs k sector (set_fmem (store_bytes (fmem s) (fat_buffer fat + off) item) s)
        })"

definition diritem_get_type :: "memory \<Rightarrow> u32 \<Rightarrow> file_type" where
  "diritem_get_type m item =
    (let attr = m (item + DIR_Attr)
     in if attr AND (DIRITEM_ATTR_VOLUME_ID OR DIRITEM_ATTR_HIDDEN OR DIRITEM_ATTR_SYSTEM) \<noteq> 0
        then FILE_UNKNOWN
        else if attr AND DIRITEM_ATTR_LONG_NAME = DIRITEM_ATTR_LONG_NAME then FILE_UNKNOWN
        else if attr AND DIRITEM_ATTR_DIRECTORY \<noteq> 0 then FILE_DIR else FILE_NORMAL)"

text \<open>The first cluster of an item, as an \<open>int\<close>.\<close>

definition diritem_cluster :: "memory \<Rightarrow> u32 \<Rightarrow> int" where
  "diritem_cluster m item =
    sint (push_bit 16 (ucast (load16 m (item + DIR_FstClusHI)) :: u32) OR ucast (load16 m (item + DIR_FstClusL0)))"

definition read_from_diritem :: "memory \<Rightarrow> file_t \<Rightarrow> u32 \<Rightarrow> int \<Rightarrow> file_t" where
  "read_from_diritem m file item index =
    file\<lparr>ftype := diritem_get_type m item, fsize := load32 m (item + DIR_FileSize), fpos := 0,
      p_index := index, sblk := diritem_cluster m item, cblk := diritem_cluster m item\<rparr>"

text \<open>
  \<open>to_sfn\<close> writes the 8.3 form of a name into a buffer of 11 blanks: \<open>cur\<close> is the write
  position, a dot moves it to the extension.
\<close>

fun sfn_loop :: "u8 list \<Rightarrow> nat \<Rightarrow> u8 list \<Rightarrow> u8 list" where
  "sfn_loop [] cur dest = dest"
| "sfn_loop (c # cs) cur dest =
    (if cur < SFN_LEN
     then if c = chr CHR ''.'' then sfn_loop cs 8 dest
          else let c' = (if sint c \<ge> sint (chr CHR ''a'') \<and> sint c \<le> sint (chr CHR ''z'')
                         then c - chr CHR ''a'' + chr CHR ''A'' else c)
               in sfn_loop cs (cur + 1) (dest[cur := c'])
     else dest)"

definition to_sfn :: "u8 list \<Rightarrow> u8 list" where
  "to_sfn src = sfn_loop src 0 (replicate SFN_LEN (chr CHR '' ''))"

definition diritem_name_match :: "memory \<Rightarrow> u32 \<Rightarrow> u8 list \<Rightarrow> bool" where
  "diritem_name_match m item path \<longleftrightarrow> to_sfn path = load_bytes m item SFN_LEN"

text \<open>
  A fresh item: name, attribute, the reserved byte, the creation time in milliseconds (which
  is never set: \<open>uninit\<close>), times, dates, cluster and size.
\<close>

definition diritem_init :: "u8 \<Rightarrow> u8 \<Rightarrow> u8 list \<Rightarrow> u8 list" where
  "diritem_init uninit attr name =
    to_sfn name @ [attr, 0, uninit] @ replicate 6 0 @ [0, 0] @ replicate 4 0
      @ [ucast FAT_CLUSTER_INVALID, ucast (drop_bit 8 FAT_CLUSTER_INVALID)] @ replicate 4 0"

section \<open>The allocation table\<close>

definition cluster_is_valid :: "u16 \<Rightarrow> bool" where
  "cluster_is_valid cluster \<longleftrightarrow> uint cluster < 0xFFF8 \<and> uint cluster \<ge> 2"

definition cluster_get_next :: "'m disk_descs \<Rightarrow> nat \<Rightarrow> u16 \<Rightarrow> 'm fat_sys \<Rightarrow> (u16 \<times> 'm fat_sys) option" where
  "cluster_get_next descs k cur s =
    (if \<not> cluster_is_valid cur then Some (FAT_CLUSTER_INVALID, s)
     else do {
       (sector, off) \<leftarrow> u_div_mod (ucast cur * 2) (bytes_per_sec (fats s k));
       if sector \<ge> tbl_sectors (fats s k) then Some (FAT_CLUSTER_INVALID, s)
       else do {
         (err, s) \<leftarrow> bread_sector descs k (sint (tbl_start (fats s k) + sector)) s;
         if err < 0 then Some (FAT_CLUSTER_INVALID, s)
         else Some (load16 (fmem s) (fat_buffer (fats s k) + off), s)
       }
     })"

text \<open>The changed sector goes to every copy of the table.\<close>

primrec write_copies :: "nat \<Rightarrow> 'm disk_descs \<Rightarrow> nat \<Rightarrow> u32 \<Rightarrow> 'm fat_sys \<Rightarrow> (int \<times> 'm fat_sys) option" where
  "write_copies 0 descs k sector s = Some (0, s)"
| "write_copies (Suc n) descs k sector s =
    do {
      (err, s) \<leftarrow> bwrite_sector descs k (sint (tbl_start (fats s k) + sector)) s;
      if err < 0 then Some (- 1, s)
      else write_copies n descs k (sector + tbl_sectors (fats s k)) s
    }"

definition cluster_set_next ::
    "'m disk_descs \<Rightarrow> nat \<Rightarrow> u16 \<Rightarrow> u16 \<Rightarrow> 'm fat_sys \<Rightarrow> (int \<times> 'm fat_sys) option" where
  "cluster_set_next descs k cur nx s =
    (if \<not> cluster_is_valid cur then Some (- 1, s)
     else do {
       (sector, off) \<leftarrow> u_div_mod (ucast cur * 2) (bytes_per_sec (fats s k));
       if sector \<ge> tbl_sectors (fats s k) then Some (uint FAT_CLUSTER_INVALID, s)
       else do {
         (err, s) \<leftarrow> bread_sector descs k (sint (tbl_start (fats s k) + sector)) s;
         if err < 0 then Some (uint FAT_CLUSTER_INVALID, s)
         else write_copies (unat (tbl_cnt (fats s k))) descs k sector
                (set_fmem (store16 (fmem s) (fat_buffer (fats s k) + off) nx) s)
       }
     })"

partial_function (option) cluster_free_chain ::
    "'m disk_descs \<Rightarrow> nat \<Rightarrow> u16 \<Rightarrow> 'm fat_sys \<Rightarrow> 'm fat_sys option" where
  "cluster_free_chain descs k start s =
    (if cluster_is_valid start
     then do {
       (nx, s) \<leftarrow> cluster_get_next descs k start s;
       (_, s) \<leftarrow> cluster_set_next descs k start FAT_CLUSTER_FREE s;
       cluster_free_chain descs k nx s
     }
     else Some s)"

text \<open>
  The search for free clusters.  The result is the counter, the last and the first cluster
  of the new chain, or \<open>None\<close> in the second component when a link could not be written.
\<close>

partial_function (option) alloc_loop ::
    "'m disk_descs \<Rightarrow> nat \<Rightarrow> int \<Rightarrow> int \<Rightarrow> u16 \<Rightarrow> u16 \<Rightarrow> u16 \<Rightarrow> 'm fat_sys
      \<Rightarrow> (int \<times> u16 option \<times> u16 \<times> 'm fat_sys) option" where
  "alloc_loop descs k c_total cnt cur pr start s =
    (if cnt \<noteq> 0 \<and> uint cur < c_total
     then do {
       (free, s) \<leftarrow> cluster_get_next descs k cur s;
       if free = FAT_CLUSTER_FREE
       then let start = (if \<not> cluster_is_valid start then cur else start)
            in do {
              (err, s) \<leftarrow> (if cluster_is_valid pr then cluster_set_next descs k pr cur s
                          else Some (0, s));
              if err < 0 then Some (cnt, None, start, s)
              else alloc_loop descs k c_total (cnt - 1) (cur + 1) cur start s
            }
       else alloc_loop descs k c_total cnt (cur + 1) pr start s
     }
     else Some (cnt, Some pr, start, s))"

definition cluster_alloc_free :: "'m disk_descs \<Rightarrow> nat \<Rightarrow> int \<Rightarrow> 'm fat_sys \<Rightarrow> (u16 \<times> 'm fat_sys) option" where
  "cluster_alloc_free descs k cnt s =
    do {
      let c_total = sint (tbl_sectors (fats s k) * bytes_per_sec (fats s k) div 2);
      (cnt, pr, start, s) \<leftarrow> alloc_loop descs k c_total cnt 2 FAT_CLUSTER_INVALID FAT_CLUSTER_INVALID s;
      case pr of
        None \<Rightarrow> do { s \<leftarrow> cluster_free_chain descs k start s; Some (FAT_CLUSTER_INVALID, s) }
      | Some pr \<Rightarrow> do {
          (err, s) \<leftarrow> (if cnt = 0 then cluster_set_next descs k pr FAT_CLUSTER_INVALID s
                      else Some (- 1, s));
          if cnt = 0 \<and> err = 0 then Some (start, s)
          else do { s \<leftarrow> cluster_free_chain descs k start s; Some (FAT_CLUSTER_INVALID, s) }
        }
    }"

section \<open>Open, expand, move\<close>

text \<open>
  The scan of the root directory for a name: an item, the index for a new one, or a read
  error.  \<open>at\<close> is the last free index seen.
\<close>

datatype scan_result = Found u32 nat | Absent int | Bad_read

fun open_scan :: "'m disk_descs \<Rightarrow> nat \<Rightarrow> u8 list \<Rightarrow> nat list \<Rightarrow> int \<Rightarrow> 'm fat_sys
    \<Rightarrow> (scan_result \<times> 'm fat_sys) option" where
  "open_scan descs k path [] at s = Some (Absent at, s)"
| "open_scan descs k path (i # is) at s =
    do {
      (item, s) \<leftarrow> read_dir_entry descs k (int i) s;
      if item = 0 then Some (Bad_read, s)
      else if fmem s item = DIRITEM_NAME_END then Some (Absent (int i), s)
      else if fmem s item = DIRITEM_NAME_FREE then open_scan descs k path is (int i) s
      else if diritem_name_match (fmem s) item path then Some (Found item i, s)
      else open_scan descs k path is at s
    }"

definition dir_indices :: "nat \<Rightarrow> 'm fat_sys \<Rightarrow> nat list" where
  "dir_indices k s = [0..<unat (root_ent_cnt (fats s k))]"

definition fatfs_open :: "u8 \<Rightarrow> 'm disk_descs \<Rightarrow> nat \<Rightarrow> u8 list option \<Rightarrow> file_t \<Rightarrow> 'm fat_sys
    \<Rightarrow> (int \<times> file_t \<times> 'm fat_sys) option" where
  "fatfs_open uninit descs k path file s =
    do {
      path \<leftarrow> path;
      (r, s) \<leftarrow> open_scan descs k path (dir_indices k s) (- 1) s;
      case r of
        Bad_read \<Rightarrow> Some (- 1, file, s)
      | Found item i \<Rightarrow>
          let file = read_from_diritem (fmem s) file item (int i)
          in if fmode file AND O_TRUNC \<noteq> 0
             then do {
               s \<leftarrow> cluster_free_chain descs k (word_of_int (sblk file)) s;
               Some (0, file\<lparr>cblk := uint FAT_CLUSTER_INVALID, sblk := uint FAT_CLUSTER_INVALID, fsize := 0\<rparr>, s)
             }
             else Some (0, file, s)
      | Absent at \<Rightarrow>
          if fmode file AND O_CREAT \<noteq> 0
          then do {
            let item = diritem_init uninit 0 path;
            (err, s) \<leftarrow> write_dir_entry descs k item at s;
            if err < 0 then Some (- 1, file, s)
            else Some (0, read_from_diritem (store_bytes (\<lambda>_. 0) 0 item) file 0 at, s)
          }
          else Some (- 1, file, s)
    }"

definition cluster_count :: "int \<Rightarrow> u32 \<Rightarrow> int" where
  "cluster_count bytes cbs = sint (up2 (word_of_int bytes) cbs div cbs)"

definition expand_file :: "'m disk_descs \<Rightarrow> file_t \<Rightarrow> int \<Rightarrow> 'm fat_sys \<Rightarrow> (int \<times> file_t \<times> 'm fat_sys) option" where
  "expand_file descs file incr_bytes s =
    do {
      k \<leftarrow> ffs file;
      let cbs = cluster_byte_size (fats s k);
      (_, rem) \<leftarrow> u_div_mod (fsize file) cbs;
      let cfree = sint (cbs - rem);
      if fsize file \<noteq> 0 \<and> cfree > incr_bytes then Some (0, file, s)
      else do {
        let n = (if fsize file = 0 then cluster_count incr_bytes cbs
                 else let n = cluster_count (incr_bytes - cfree) cbs in if n = 0 then 1 else n);
        (start, s) \<leftarrow> cluster_alloc_free descs k n s;
        if \<not> cluster_is_valid start then Some (- 1, file, s)
        else if \<not> cluster_is_valid (word_of_int (sblk file))
        then Some (0, file\<lparr>cblk := uint start, sblk := uint start\<rparr>, s)
        else do {
          (err, s) \<leftarrow> cluster_set_next descs k (word_of_int (cblk file)) start s;
          Some (if err < 0 then - 1 else 0, file, s)
        }
      }
    }"

definition move_file_pos :: "'m disk_descs \<Rightarrow> file_t \<Rightarrow> nat \<Rightarrow> u32 \<Rightarrow> bool \<Rightarrow> 'm fat_sys
    \<Rightarrow> (int \<times> file_t \<times> 'm fat_sys) option" where
  "move_file_pos descs file k move_bytes expand s =
    do {
      let cbs = cluster_byte_size (fats s k);
      (_, c_offset) \<leftarrow> u_div_mod (word_of_int (fpos file)) cbs;
      (err, file, s) \<leftarrow>
        (if c_offset + move_bytes \<ge> cbs
         then do {
           (nx, s) \<leftarrow> cluster_get_next descs k (word_of_int (cblk file)) s;
           if nx = FAT_CLUSTER_INVALID \<and> expand
           then do {
             (err, file, s) \<leftarrow> expand_file descs file (sint cbs) s;
             if err < 0 then Some (- 1 :: int, file, s)
             else do {
               (nx, s) \<leftarrow> cluster_get_next descs k (word_of_int (cblk file)) s;
               Some (0, file\<lparr>cblk := uint nx\<rparr>, s)
             }
           }
           else Some (0, file\<lparr>cblk := uint nx\<rparr>, s)
         }
         else Some (0, file, s));
      if err < 0 then Some (- 1, file, s)
      else Some (0, file\<lparr>fpos := to_int32 (fpos file + uint move_bytes)\<rparr>, s)
    }"

section \<open>Read, write, close, seek\<close>

definition cluster_sector :: "fat_t \<Rightarrow> int \<Rightarrow> u32" where
  "cluster_sector fat c = data_start fat + word_of_int (c - 2) * sec_per_cluster fat"

definition drop_cache :: "nat \<Rightarrow> 'm fat_sys \<Rightarrow> 'm fat_sys" where
  "drop_cache k s = upd_fat k (\<lambda>f. f\<lparr>curr_sector := - 1\<rparr>) s"

text \<open>
  One pass of the read loop: a whole cluster goes straight to the destination, a part of one
  through the sector buffer.  The result is the driver's, and the number of bytes.
\<close>

definition read_chunk :: "'m disk_descs \<Rightarrow> nat \<Rightarrow> u32 \<Rightarrow> u32 \<Rightarrow> u32 \<Rightarrow> int \<Rightarrow> 'm fat_sys
    \<Rightarrow> (int \<times> u32 \<times> 'm fat_sys) option" where
  "read_chunk descs k buf nbytes cluster_offset start_sector s =
    (let fat = fats s k
     in if cluster_offset = 0 \<and> nbytes = cluster_byte_size fat
        then do {
          (err, s) \<leftarrow> dev_read descs (fat_fs_dev fat) start_sector buf (sint (sec_per_cluster fat)) s;
          Some (err, cluster_byte_size fat, s)
        }
        else let cur_read = (if cluster_offset + nbytes > cluster_byte_size fat
                             then cluster_byte_size fat - cluster_offset else nbytes)
             in do {
               (err, s) \<leftarrow> dev_read descs (fat_fs_dev fat) start_sector (fat_buffer fat)
                             (sint (sec_per_cluster fat)) (drop_cache k s);
               Some (err, cur_read, if err < 0 then s
                 else set_fmem (kernel_memcpy buf (fat_buffer fat + cluster_offset) (unat cur_read) (fmem s)) s)
             })"

partial_function (option) fatfs_read_loop ::
    "'m disk_descs \<Rightarrow> nat \<Rightarrow> u32 \<Rightarrow> u32 \<Rightarrow> u32 \<Rightarrow> file_t \<Rightarrow> 'm fat_sys
      \<Rightarrow> (int \<times> file_t \<times> 'm fat_sys) option" where
  "fatfs_read_loop descs k buf nbytes total_read file s =
    (if nbytes = 0 then Some (sint total_read, file, s)
     else do {
       (_, cluster_offset) \<leftarrow> u_div_mod (word_of_int (fpos file)) (cluster_byte_size (fats s k));
       let start_sector = sint (cluster_sector (fats s k) (cblk file));
       (err, cur_read, s) \<leftarrow> read_chunk descs k buf nbytes cluster_offset start_sector s;
       if err < 0 then Some (sint total_read, file, s)
       else do {
         (err, file, s) \<leftarrow> move_file_pos descs file k cur_read False s;
         if err < 0 then Some (sint (total_read + cur_read), file, s)
         else fatfs_read_loop descs k (buf + cur_read) (nbytes - cur_read) (total_read + cur_read) file s
       }
     })"

definition fatfs_read :: "'m disk_descs \<Rightarrow> u32 \<Rightarrow> int \<Rightarrow> file_t \<Rightarrow> 'm fat_sys
    \<Rightarrow> (int \<times> file_t \<times> 'm fat_sys) option" where
  "fatfs_read descs buf n file s =
    do {
      k \<leftarrow> ffs file;
      let nbytes = word_of_int n;
      let nbytes = (if word_of_int (fpos file) + nbytes > fsize file
                    then fsize file - word_of_int (fpos file) else nbytes);
      fatfs_read_loop descs k buf nbytes 0 file s
    }"

text \<open>One pass of the write loop; a part of a cluster is read, changed and written back.\<close>

definition write_chunk :: "'m disk_descs \<Rightarrow> nat \<Rightarrow> u32 \<Rightarrow> u32 \<Rightarrow> u32 \<Rightarrow> int \<Rightarrow> 'm fat_sys
    \<Rightarrow> (int \<times> u32 \<times> 'm fat_sys) option" where
  "write_chunk descs k buf nbytes cluster_offset start_sector s =
    (let fat = fats s k
     in if cluster_offset = 0 \<and> nbytes = cluster_byte_size fat
        then do {
          (err, s) \<leftarrow> dev_write descs (fat_fs_dev fat) start_sector buf (sint (sec_per_cluster fat)) s;
          Some (err, cluster_byte_size fat, s)
        }
        else let cur_write = (if cluster_offset + nbytes > cluster_byte_size fat
                              then cluster_byte_size fat - cluster_offset else nbytes)
             in do {
               (err, s) \<leftarrow> dev_read descs (fat_fs_dev fat) start_sector (fat_buffer fat)
                             (sint (sec_per_cluster fat)) (drop_cache k s);
               if err < 0 then Some (err, cur_write, s)
               else do {
                 let s = set_fmem (kernel_memcpy (fat_buffer fat + cluster_offset) buf (unat cur_write) (fmem s)) s;
                 (err, s) \<leftarrow> dev_write descs (fat_fs_dev fat) start_sector (fat_buffer fat)
                               (sint (sec_per_cluster fat)) s;
                 Some (err, cur_write, s)
               }
             })"

partial_function (option) fatfs_write_loop ::
    "'m disk_descs \<Rightarrow> nat \<Rightarrow> u32 \<Rightarrow> u32 \<Rightarrow> u32 \<Rightarrow> file_t \<Rightarrow> 'm fat_sys
      \<Rightarrow> (int \<times> file_t \<times> 'm fat_sys) option" where
  "fatfs_write_loop descs k buf nbytes total_write file s =
    (if nbytes = 0 then Some (sint total_write, file, s)
     else do {
       (_, cluster_offset) \<leftarrow> u_div_mod (word_of_int (fpos file)) (cluster_byte_size (fats s k));
       let start_sector = sint (cluster_sector (fats s k) (cblk file));
       (err, cur_write, s) \<leftarrow> write_chunk descs k buf nbytes cluster_offset start_sector s;
       if err < 0 then Some (sint total_write, file, s)
       else do {
         (err, file, s) \<leftarrow> move_file_pos descs (file\<lparr>fsize := fsize file + cur_write\<rparr>) k cur_write True s;
         if err < 0 then Some (sint (total_write + cur_write), file, s)
         else fatfs_write_loop descs k (buf + cur_write) (nbytes - cur_write) (total_write + cur_write) file s
       }
     })"

definition fatfs_write :: "'m disk_descs \<Rightarrow> u32 \<Rightarrow> int \<Rightarrow> file_t \<Rightarrow> 'm fat_sys
    \<Rightarrow> (int \<times> file_t \<times> 'm fat_sys) option" where
  "fatfs_write descs buf n file s =
    do {
      k \<leftarrow> ffs file;
      let new_end = word_of_int (fpos file + n);
      (err, file, s) \<leftarrow> (if new_end > fsize file
                          then expand_file descs file (sint (new_end - fsize file)) s
                          else Some (0, file, s));
      if err < 0 then Some (0, file, s)
      else fatfs_write_loop descs k buf (word_of_int n) 0 file s
    }"

text \<open>\<open>O_RDONLY\<close> is 0, so the early return is never taken.  The item is in the sector buffer.\<close>

definition fatfs_close :: "'m disk_descs \<Rightarrow> file_t \<Rightarrow> 'm fat_sys \<Rightarrow> (file_t \<times> 'm fat_sys) option" where
  "fatfs_close descs file s =
    (if fmode file AND O_RDONLY \<noteq> 0 then Some (file, s)
     else do {
       k \<leftarrow> ffs file;
       (item, s) \<leftarrow> read_dir_entry descs k (p_index file) s;
       if item = 0 then Some (file, s)
       else do {
         let cluster = (word_of_int (sblk file) :: u32);
         let m = store32 (fmem s) (item + DIR_FileSize) (fsize file);
         let m = store16 m (item + DIR_FstClusHI) (ucast (drop_bit 16 cluster));
         let m = store16 m (item + DIR_FstClusL0) (ucast cluster);
         (_, s) \<leftarrow> write_dir_entry descs k (load_bytes m item 32) (p_index file) (set_fmem m s);
         Some (file, s)
       }
     })"

text \<open>The seek walks the chain from the current cluster, not from the first one.\<close>

partial_function (option) seek_loop ::
    "'m disk_descs \<Rightarrow> nat \<Rightarrow> u32 \<Rightarrow> u32 \<Rightarrow> u16 \<Rightarrow> 'm fat_sys \<Rightarrow> ((u32 \<times> u16) option \<times> 'm fat_sys) option" where
  "seek_loop descs k cur_pos offset_to_move cluster s =
    (if offset_to_move = 0 then Some (Some (cur_pos, cluster), s)
     else do {
       let cbs = cluster_byte_size (fats s k);
       (_, c_offset) \<leftarrow> u_div_mod cur_pos cbs;
       if c_offset + offset_to_move < cbs then Some (Some (cur_pos + offset_to_move, cluster), s)
       else do {
         let cur_move = cbs - c_offset;
         (nx, s) \<leftarrow> cluster_get_next descs k cluster s;
         if \<not> cluster_is_valid nx then Some (None, s)
         else seek_loop descs k (cur_pos + cur_move) (offset_to_move - cur_move) nx s
       }
     })"

definition fatfs_seek :: "'m disk_descs \<Rightarrow> file_t \<Rightarrow> u32 \<Rightarrow> int \<Rightarrow> 'm fat_sys
    \<Rightarrow> (int \<times> file_t \<times> 'm fat_sys) option" where
  "fatfs_seek descs file offset dir s =
    (if dir \<noteq> 0 then Some (- 1, file, s)
     else do {
       k \<leftarrow> ffs file;
       (r, s) \<leftarrow> seek_loop descs k 0 offset (word_of_int (cblk file)) s;
       case r of
         None \<Rightarrow> Some (- 1, file, s)
       | Some (pos, cluster) \<Rightarrow> Some (0, file\<lparr>fpos := sint pos, cblk := uint cluster\<rparr>, s)
     })"

section \<open>Directories\<close>

definition fatfs_opendir :: "nat \<Rightarrow> u8 list \<Rightarrow> DIR \<Rightarrow> 'm fat_sys \<Rightarrow> ((int \<times> DIR) \<times> 'm fat_sys) option" where
  "fatfs_opendir k name dir s = Some ((0, dir\<lparr>dir_index := 0\<rparr>), s)"

text \<open>
  The readable name: the characters that are not blank, a dot after the eighth, and the dot
  taken back when nothing follows it.  \<open>dest\<close> is the name field, of which the first 12 bytes
  are cleared.
\<close>

fun name_loop :: "nat \<Rightarrow> u8 list \<Rightarrow> nat \<Rightarrow> nat option \<Rightarrow> u8 list \<Rightarrow> nat option \<times> u8 list" where
  "name_loop i [] c ext dest = (ext, dest)"
| "name_loop i (x # xs) c ext dest =
    (let (c, dest) = (if x \<noteq> chr CHR '' '' then (c + 1, dest[c := x]) else (c, dest))
     in if i = 7 then name_loop (i + 1) xs (c + 1) (Some c) (dest[c := chr CHR ''.''])
        else name_loop (i + 1) xs c ext dest)"

definition diritem_get_name :: "u8 list \<Rightarrow> u8 list \<Rightarrow> u8 list" where
  "diritem_get_name dir_name dest =
    (let (ext, dest) = name_loop 0 dir_name 0 None (replicate (SFN_LEN + 1) 0 @ drop (SFN_LEN + 1) dest)
     in case ext of
          Some e \<Rightarrow> if dest ! (e + 1) = 0 then dest[e := 0] else dest
        | None \<Rightarrow> dest)"

definition file_type_code :: "file_type \<Rightarrow> int" where
  "file_type_code t = (case t of FILE_UNKNOWN \<Rightarrow> 0 | FILE_TTY \<Rightarrow> 1 | FILE_DIR \<Rightarrow> 2 | FILE_NORMAL \<Rightarrow> 3)"

function readdir_loop :: "'m disk_descs \<Rightarrow> nat \<Rightarrow> nat \<Rightarrow> nat \<Rightarrow> dirent \<Rightarrow> 'm fat_sys
    \<Rightarrow> ((int \<times> nat \<times> dirent) \<times> 'm fat_sys) option" where
  "readdir_loop descs k n i de s =
    (if \<not> i < n then Some ((- 1, i, de), s)
     else do {
       (item, s) \<leftarrow> read_dir_entry descs k (int i) s;
       let m = fmem s;
       if item = 0 then Some ((- 1, i, de), s)
       else if m item = DIRITEM_NAME_END then Some ((- 1, i, de), s)
       else if m item \<noteq> DIRITEM_NAME_FREE
               \<and> (diritem_get_type m item = FILE_NORMAL \<or> diritem_get_type m item = FILE_DIR)
       then Some ((0, i + 1, de\<lparr>de_size := sint (load32 m (item + DIR_FileSize)),
              de_type := file_type_code (diritem_get_type m item),
              de_name := diritem_get_name (load_bytes m item SFN_LEN) (de_name de), de_index := int i\<rparr>), s)
       else readdir_loop descs k n (i + 1) de s
     })"
  by auto
termination
  by (relation "measure (\<lambda>(descs, k, n, i, de, s). n - i)") auto

declare readdir_loop.simps [simp del]

definition fatfs_readdir :: "'m disk_descs \<Rightarrow> nat \<Rightarrow> DIR \<Rightarrow> dirent \<Rightarrow> 'm fat_sys
    \<Rightarrow> ((int \<times> DIR \<times> dirent) \<times> 'm fat_sys) option" where
  "fatfs_readdir descs k dir de s =
    (if dir_index dir < 0 then Some ((- 1, dir, de), s)
     else do {
       ((r, i, de), s) \<leftarrow> readdir_loop descs k (unat (root_ent_cnt (fats s k))) (nat (dir_index dir)) de s;
       Some ((r, dir\<lparr>dir_index := int i\<rparr>, de), s)
     })"

definition fatfs_closedir :: "nat \<Rightarrow> DIR \<Rightarrow> 'm fat_sys \<Rightarrow> ((int \<times> DIR) \<times> 'm fat_sys) option" where
  "fatfs_closedir k dir s = Some ((0, dir), s)"

fun unlink_scan :: "'m disk_descs \<Rightarrow> nat \<Rightarrow> u8 list \<Rightarrow> nat list \<Rightarrow> 'm fat_sys \<Rightarrow> (int \<times> 'm fat_sys) option" where
  "unlink_scan descs k path [] s = Some (- 1, s)"
| "unlink_scan descs k path (i # is) s =
    do {
      (item, s) \<leftarrow> read_dir_entry descs k (int i) s;
      if item = 0 then Some (- 1, s)
      else if fmem s item = DIRITEM_NAME_END then Some (- 1, s)
      else if fmem s item = DIRITEM_NAME_FREE then unlink_scan descs k path is s
      else if diritem_name_match (fmem s) item path
      then do {
        s \<leftarrow> cluster_free_chain descs k (word_of_int (diritem_cluster (fmem s) item)) s;
        write_dir_entry descs k (replicate 32 0) (int i) s
      }
      else unlink_scan descs k path is s
    }"

definition fatfs_unlink :: "'m disk_descs \<Rightarrow> nat \<Rightarrow> u8 list \<Rightarrow> 'm fat_sys \<Rightarrow> (int \<times> 'm fat_sys) option" where
  "fatfs_unlink descs k path s = unlink_scan descs k path (dir_indices k s) s"

section \<open>Mounting\<close>

text \<open>The fields of the boot record, by offset, and what mount makes of them.\<close>

definition fat_of_dbr :: "memory \<Rightarrow> u32 \<Rightarrow> int \<Rightarrow> fat_t" where
  "fat_of_dbr m dbr dev =
    (let bps = ucast (load16 m (dbr + 11));
         spc = ucast (m (dbr + 13));
         tstart = ucast (load16 m (dbr + 14));
         tsect = ucast (load16 m (dbr + 22));
         tcnt = ucast (m (dbr + 16));
         ents = ucast (load16 m (dbr + 17));
         rstart = tstart + tsect * tcnt
     in \<lparr>tbl_start = tstart, tbl_cnt = tcnt, tbl_sectors = tsect, bytes_per_sec = bps,
         sec_per_cluster = spc, root_ent_cnt = ents, root_start = rstart,
         data_start = rstart + ents * 32 div SECTOR_SIZE, cluster_byte_size = spc * bps,
         fat_buffer = dbr, curr_sector = - 1, fat_fs_dev = dev\<rparr>)"

definition zero_mutex :: mutex_t where
  "zero_mutex = \<lparr>locked_count = 0, owner = None, wait_list = \<lparr>lfirst = None, llast = None, lcount = 0\<rparr>\<rparr>"

text \<open>The failure exit has no \<open>return\<close>: \<open>noret\<close> is the value left in the return register.\<close>

definition mount_failed_exit :: "int \<Rightarrow> 'm disk_descs \<Rightarrow> int \<Rightarrow> u32 \<Rightarrow> fs_t \<Rightarrow> 'm fat_sys
    \<Rightarrow> (int \<times> fs_t \<times> 'm fat_sys) option" where
  "mount_failed_exit noret descs dev_id dbr fs s =
    do {
      w \<leftarrow> (if dbr \<noteq> 0 then memory_free_page dbr (drv s) else Some (drv s));
      s \<leftarrow> dev_close descs dev_id (s\<lparr>drv := w\<rparr>);
      Some (noret, fs, s)
    }"

definition fatfs_mount :: "int \<Rightarrow> 'm disk_descs \<Rightarrow> nat \<Rightarrow> fs_t \<Rightarrow> int \<Rightarrow> int \<Rightarrow> 'm fat_sys
    \<Rightarrow> (int \<times> fs_t \<times> 'm fat_sys) option" where
  "fatfs_mount noret descs k fs major minor s =
    do {
      (dev_id, s) \<leftarrow> dev_open descs major minor 0 s;
      if dev_id < 0 then Some (- 1, fs, s)
      else do {
        (dbr, w) \<leftarrow> memory_alloc_page (drv s);
        let s = s\<lparr>drv := w\<rparr>;
        if dbr = 0 then mount_failed_exit noret descs dev_id dbr fs s
        else do {
          (cnt, s) \<leftarrow> dev_read descs dev_id 0 dbr 1 s;
          if cnt < 1 then mount_failed_exit noret descs dev_id dbr fs s
          else let fat = fat_of_dbr (fmem s) dbr dev_id;
                   s = upd_fat k (\<lambda>_. fat) s;
                   fs = fs\<lparr>fs_mutex := Some (mutex_init zero_mutex)\<rparr>
               in if tbl_cnt fat \<noteq> 2 \<or> load_bytes (fmem s) (dbr + 54) 5 \<noteq> map of_char ''FAT16''
                  then mount_failed_exit noret descs dev_id dbr fs s
                  else Some (0, fs\<lparr>fs_kind := FS_FATFS16, fs_dev_id := dev_id\<rparr>, s)
        }
      }
    }"

definition fatfs_unmount :: "'m disk_descs \<Rightarrow> nat \<Rightarrow> 'm fat_sys \<Rightarrow> 'm fat_sys option" where
  "fatfs_unmount descs k s =
    do {
      s \<leftarrow> dev_close descs (fat_fs_dev (fats s k)) s;
      w \<leftarrow> memory_free_page (fat_buffer (fats s k)) (drv s);
      Some (s\<lparr>drv := w\<rparr>)
    }"

text \<open>The operation table; there is no \<^verbatim>\<open>ioctl\<close>.\<close>

definition fatfs_op :: "int \<Rightarrow> u8 \<Rightarrow> 'm disk_descs \<Rightarrow> 'm fat_sys fs_op_t" where
  "fatfs_op noret uninit descs = \<lparr>op_mount = fatfs_mount noret descs, op_open = fatfs_open uninit descs,
     op_read = fatfs_read descs, op_write = fatfs_write descs, op_close = fatfs_close descs,
     op_seek = fatfs_seek descs, op_ioctl = None, op_opendir = fatfs_opendir,
     op_readdir = fatfs_readdir descs, op_closedir = fatfs_closedir, op_unlink = fatfs_unlink descs\<rparr>"

end
