(* ===== verification/Fatname.thy ===== *)
theory Fatname
  imports Fatfs
begin

text \<open>
  8.3 names: the form \<^verbatim>\<open>to_sfn\<close> stores and the form \<^verbatim>\<open>diritem_get_name\<close> shows are
  inverse on names of one to eight and up to three characters, up to case.
\<close>

section \<open>Storing a name\<close>

abbreviation blank :: u8 where "blank \<equiv> chr CHR '' ''"
abbreviation dot :: u8 where "dot \<equiv> chr CHR ''.''"

definition upcase :: "u8 \<Rightarrow> u8" where
  "upcase c = (if sint c \<ge> sint (chr CHR ''a'') \<and> sint c \<le> sint (chr CHR ''z'')
    then c - chr CHR ''a'' + chr CHR ''A'' else c)"

lemma sfn_loop_plain:
  assumes "dot \<notin> set cs" and "cur + length cs \<le> 11" and "length dest = 11"
  shows "sfn_loop (cs @ rest) cur dest
    = sfn_loop rest (cur + length cs) (take cur dest @ map upcase cs @ drop (cur + length cs) dest)"
  using assms
proof (induction cs arbitrary: cur dest)
  case (Cons c cs)
  have "sfn_loop ((c # cs) @ rest) cur dest = sfn_loop (cs @ rest) (cur + 1) (dest[cur := upcase c])"
    using Cons.prems by (simp add: SFN_LEN_def upcase_def Let_def)
  also have "\<dots> = sfn_loop rest (cur + 1 + length cs)
      (take (cur + 1) (dest[cur := upcase c]) @ map upcase cs @ drop (cur + 1 + length cs) (dest[cur := upcase c]))"
    by (rule Cons.IH) (use Cons.prems in simp_all)
  also have "take (cur + 1) (dest[cur := upcase c]) = take cur dest @ [upcase c]"
    using Cons.prems by (simp add: take_Suc_conv_app_nth)
  finally show ?case using Cons.prems by simp
qed simp

text \<open>A name in 8.3 form: the base padded to eight, the extension to three.\<close>

definition sfn :: "u8 list \<Rightarrow> u8 list \<Rightarrow> u8 list" where
  "sfn base ext = base @ replicate (8 - length base) blank @ ext @ replicate (3 - length ext) blank"

lemma to_sfn_dotted:
  assumes "dot \<notin> set base" and "dot \<notin> set ext" and "length base \<le> 8" and "length ext \<le> 3"
  shows "to_sfn (base @ dot # ext) = sfn (map upcase base) (map upcase ext)"
proof -
  let ?d = "replicate 11 blank"
  let ?d1 = "map upcase base @ replicate (11 - length base) blank"
  have "to_sfn (base @ dot # ext) = sfn_loop (dot # ext) (length base) ?d1"
    using sfn_loop_plain[OF assms(1), of 0 ?d "dot # ext"] assms(3) by (simp add: to_sfn_def SFN_LEN_def)
  also have "\<dots> = sfn_loop (ext @ []) 8 ?d1" using assms(3) by (simp add: SFN_LEN_def)
  also have "\<dots> = take 8 ?d1 @ map upcase ext @ drop (8 + length ext) ?d1"
    using sfn_loop_plain[OF assms(2), of 8 ?d1 "[]"] assms(3,4) by simp
  finally show ?thesis using assms(3,4) by (simp add: sfn_def min_def)
qed

lemma to_sfn_plain:
  assumes "dot \<notin> set base" and "length base \<le> 8"
  shows "to_sfn base = sfn (map upcase base) []"
  using sfn_loop_plain[OF assms(1), of 0 "replicate 11 blank" "[]"] assms(2)
  by (simp add: to_sfn_def SFN_LEN_def sfn_def replicate_add[symmetric])

section \<open>Showing a name\<close>

text \<open>The characters the loop writes, and where it puts the dot.\<close>

fun shown :: "nat \<Rightarrow> u8 list \<Rightarrow> u8 list" where
  "shown i [] = []"
| "shown i (x # xs) = (if x \<noteq> blank then [x] else []) @ (if i = 7 then [dot] else []) @ shown (i + 1) xs"

lemma shown_append: "shown i (xs @ ys) = shown i xs @ shown (i + length xs) ys"
  by (induction xs arbitrary: i) simp_all

lemma shown_ext: "8 \<le> i \<Longrightarrow> shown i xs = filter (\<lambda>x. x \<noteq> blank) xs"
  by (induction xs arbitrary: i) auto

lemma shown_base: "i + length xs = 8 \<Longrightarrow> xs \<noteq> [] \<Longrightarrow> shown i xs = filter (\<lambda>x. x \<noteq> blank) xs @ [dot]"
proof (induction xs arbitrary: i)
  case (Cons x xs)
  then show ?case by (cases "xs = []") auto
qed simp

lemma name_loop_shown:
  assumes "c + length (shown i xs) \<le> length dest"
  shows "name_loop i xs c ext dest
    = (if i \<le> 7 \<and> 7 < i + length xs then Some (c + length (shown i (take (8 - i) xs)) - 1) else ext,
       take c dest @ shown i xs @ drop (c + length (shown i xs)) dest)"
  using assms
proof (induction xs arbitrary: i c ext dest)
  case (Cons x xs)
  let ?c1 = "if x \<noteq> blank then c + 1 else c" and ?d1 = "if x \<noteq> blank then dest[c := x] else dest"
  have d1: "take ?c1 ?d1 = take c dest @ (if x \<noteq> blank then [x] else [])" "length ?d1 = length dest"
    "\<And>n. drop (?c1 + n) ?d1 = drop (?c1 + n) dest"
    using Cons.prems by (auto simp: take_Suc_conv_app_nth)
  show ?case
  proof (cases "i = 7")
    case True
    have len: "?c1 + 1 + length (shown 8 xs) \<le> length dest" using Cons.prems True by (simp split: if_splits)
    have "name_loop i (x # xs) c ext dest = name_loop 8 xs (?c1 + 1) (Some ?c1) (?d1[?c1 := dot])"
      using True by (simp add: Let_def)
    also have "\<dots> = (Some ?c1, take (?c1 + 1) (?d1[?c1 := dot]) @ shown 8 xs
        @ drop (?c1 + 1 + length (shown 8 xs)) (?d1[?c1 := dot]))"
      by (subst Cons.IH) (use len d1(2) in simp_all)
    also have "take (?c1 + 1) (?d1[?c1 := dot]) = take ?c1 ?d1 @ [dot]"
      using len d1(2) by (simp add: take_Suc_conv_app_nth)
    also have "drop (?c1 + 1 + length (shown 8 xs)) (?d1[?c1 := dot]) = drop (?c1 + (1 + length (shown 8 xs))) ?d1"
      by simp
    finally show ?thesis unfolding d1 using True by simp
  next
    case False
    have len: "?c1 + length (shown (i + 1) xs) \<le> length ?d1" using Cons.prems False d1(2) by (simp split: if_splits)
    have "name_loop i (x # xs) c ext dest = name_loop (i + 1) xs ?c1 ext ?d1" using False by (simp add: Let_def)
    also have "\<dots> = (if i + 1 \<le> 7 \<and> 7 < i + 1 + length xs then Some (?c1 + length (shown (i + 1) (take (8 - (i + 1)) xs)) - 1) else ext,
        take ?c1 ?d1 @ shown (i + 1) xs @ drop (?c1 + length (shown (i + 1) xs)) ?d1)"
      by (rule Cons.IH[OF len])
    finally have e: "name_loop i (x # xs) c ext dest = \<dots>" .
    have t: "i \<le> 7 \<Longrightarrow> take (8 - i) (x # xs) = x # take (8 - (i + 1)) xs"
    proof -
      assume "i \<le> 7"
      then have "8 - i = Suc (7 - i)" by simp
      then show "take (8 - i) (x # xs) = x # take (8 - (i + 1)) xs" by simp
    qed
    show ?thesis unfolding e d1 using False t by (cases "i < 7") (auto split: if_splits)
  qed
qed auto

lemma shown_sfn:
  assumes "blank \<notin> set base" and "blank \<notin> set ext" and "length base \<le> 8" and "length ext \<le> 3"
  shows "shown 0 (sfn base ext) = base @ dot # ext" and "shown 0 (take 8 (sfn base ext)) = base @ [dot]"
proof -
  let ?b = "base @ replicate (8 - length base) blank" and ?e = "ext @ replicate (3 - length ext) blank"
  have f: "filter (\<lambda>x. x \<noteq> blank) base = base" "filter (\<lambda>x. x \<noteq> blank) ext = ext"
    using assms(1,2) by (auto simp: filter_id_conv)
  have "length ?b = 8" using assms(3) by simp
  then have b: "shown 0 ?b = base @ [dot]" using shown_base[of 0 ?b] f(1) by auto
  have s: "sfn base ext = ?b @ ?e" by (simp add: sfn_def)
  have e: "shown 8 ?e = ext" using shown_ext[of 8 ?e] f(2) by simp
  have "shown 0 (?b @ ?e) = (base @ [dot]) @ ext"
    using shown_append[of 0 ?b ?e] \<open>length ?b = 8\<close> unfolding b by (simp only: add_0 e)
  then show "shown 0 (sfn base ext) = base @ dot # ext" unfolding s by simp
  have "take 8 (sfn base ext) = ?b" unfolding s using assms(3) by simp
  then show "shown 0 (take 8 (sfn base ext)) = base @ [dot]" using b by simp
qed

lemma get_name_sfn:
  assumes "blank \<notin> set base" and "blank \<notin> set ext" and "length base \<le> 8" and "length ext \<le> 3"
    and "0 \<notin> set ext" and "12 \<le> length dest"
  defines "name \<equiv> if ext = [] then base else base @ dot # ext"
  shows "diritem_get_name (sfn base ext) dest = name @ replicate (12 - length name) 0 @ drop 12 dest"
proof -
  let ?z = "replicate 12 0 @ drop 12 dest" and ?w = "base @ dot # ext"
  note sh = shown_sfn[OF assms(1-4)]
  have len: "length (sfn base ext) = 11" using assms(3,4) by (simp add: sfn_def)
  have wl: "length ?w \<le> 12" using assms(3,4) by simp
  have dz: "drop n ?z = replicate (12 - n) 0 @ drop 12 dest" if "n \<le> 12" for n using that by simp
  have "name_loop 0 (sfn base ext) 0 None ?z = (Some (length base), ?w @ replicate (12 - length ?w) 0 @ drop 12 dest)"
    using name_loop_shown[of 0 0 "sfn base ext" ?z None] sh len assms(6) wl dz[OF wl] by simp
  then have g: "diritem_get_name (sfn base ext) dest
    = (let d = ?w @ replicate (12 - length ?w) 0 @ drop 12 dest
       in if d ! (length base + 1) = 0 then d[length base := 0] else d)"
    by (simp add: diritem_get_name_def SFN_LEN_def Let_def)
  show ?thesis
  proof (cases "ext = []")
    case True
    then have "(12 - length base) = Suc (11 - length base)" using assms(3) by simp
    moreover have "replicate (11 - length base) (0 :: u8) ! 0 = 0" using assms(3) by simp
    ultimately show ?thesis unfolding g using True assms(3)
      by (simp add: name_def Let_def nth_append list_update_append)
  next
    case False
    then have "hd ext \<noteq> 0" using assms(5) by (metis hd_in_set)
    then show ?thesis unfolding g using False by (simp add: name_def Let_def nth_append hd_conv_nth)
  qed
qed

lemma upcase_special: "upcase c = blank \<longleftrightarrow> c = blank" "upcase c = dot \<longleftrightarrow> c = dot" "upcase c = 0 \<longleftrightarrow> c = 0"
proof -
  have eq: "upcase c = v \<longleftrightarrow> c = v" if "v \<in> {blank, dot, 0}" for v
  proof (cases "sint c \<ge> sint (chr CHR ''a'') \<and> sint c \<le> sint (chr CHR ''z'')")
    case True
    have "v = blank \<or> v = dot \<or> v = 0" using that by simp
    then have "c \<noteq> v" "c \<noteq> v + chr CHR ''a'' - chr CHR ''A''" using True by auto
    then show ?thesis using True by (auto simp: upcase_def algebra_simps)
  qed (auto simp: upcase_def)
  show "upcase c = blank \<longleftrightarrow> c = blank" "upcase c = dot \<longleftrightarrow> c = dot" "upcase c = 0 \<longleftrightarrow> c = 0"
    using eq by simp_all
qed

lemmas upcase_eq [simp] = upcase_special upcase_special [simplified]

text \<open>C35: A stored 8.3 name reads back in upper case.  A name of one to eight characters, with or
  without an extension of up to three, is stored by \<^verbatim>\<open>to_sfn\<close> so that \<^verbatim>\<open>diritem_get_name\<close> puts the
  same name in upper case into the destination, followed by zeros up to twelve bytes; the
  bytes after that are left alone, so a full 8.3 name (twelve characters) has no terminator
  of its own.
\<close>

theorem name_roundtrip:
  assumes "blank \<notin> set (base @ ext)" and "dot \<notin> set (base @ ext)" and "0 \<notin> set (base @ ext)"
    and "length base \<le> 8" and "length ext \<le> 3" and "12 \<le> length dest"
  shows "diritem_get_name (to_sfn (if ext = [] then base else base @ dot # ext)) dest
    = map upcase (if ext = [] then base else base @ dot # ext)
      @ replicate (12 - length (if ext = [] then base else base @ dot # ext)) 0 @ drop 12 dest"
proof -
  have up: "blank \<notin> set (map upcase base)" "blank \<notin> set (map upcase ext)" "0 \<notin> set (map upcase ext)"
    using assms(1,3) by (auto simp: image_iff)
  have t: "to_sfn (if ext = [] then base else base @ dot # ext) = sfn (map upcase base) (map upcase ext)"
    using to_sfn_plain[of base] to_sfn_dotted[of base ext] assms(2,4,5) by simp
  have "upcase dot = dot" by simp
  then show ?thesis unfolding t
    using get_name_sfn[OF up(1,2) _ _ up(3) assms(6)] assms(4,5) by (cases "ext = []") simp_all
qed

theorem name_roundtrip_witness:
  "diritem_get_name (to_sfn (map of_char ''readme.txt'')) (replicate 255 0)
    = map of_char ''README.TXT'' @ replicate 245 0"
  using name_roundtrip[of "map of_char ''readme''" "map of_char ''txt''" "replicate 255 0"]
  by (simp add: upcase_def flip: replicate_add)

end
