(* ===== verification/Fatvol.thy ===== *)
theory Fatvol
  imports Fatfs
begin

text \<open>
  The allocation table of a mounted FAT16 volume as a map from clusters to entries.  The
  locale \<open>block_dev\<close> is the contract of a disk under the file system: reading and writing
  whole sectors.  Inside it, \<open>vol_ok\<close> is the invariant of a mounted volume (its geometry and
  the coherence of the one-sector cache), and the chain operations of the code are
  operations on the map.
\<close>

section \<open>The disk under a volume\<close>

locale block_dev =
  fixes descs :: "'m disk_descs" and dev :: int
    and ready :: "'m fat_sys \<Rightarrow> bool"
    and sect :: "'m mm_scheme \<Rightarrow> int \<Rightarrow> u8 list"
    and nsect :: int
  assumes sect_length: "ready s \<Longrightarrow> length (sect (drv s) a) = 512"
    and read_ok: "ready s \<Longrightarrow> 0 \<le> a \<Longrightarrow> 0 < n \<Longrightarrow> a + n \<le> nsect \<Longrightarrow> n \<le> 8 \<Longrightarrow>
      \<exists>s'. dev_read descs dev a buf n s = Some (n, s') \<and> ready s' \<and> fats s' = fats s
        \<and> sect (drv s') = sect (drv s)
        \<and> fmem s' = store_bytes (fmem s) buf (concat (map (sect (drv s)) [a..a + n - 1]))"
    and write_ok: "ready s \<Longrightarrow> 0 \<le> a \<Longrightarrow> 0 < n \<Longrightarrow> a + n \<le> nsect \<Longrightarrow> n \<le> 8 \<Longrightarrow>
      \<exists>s'. dev_write descs dev a buf n s = Some (n, s') \<and> ready s' \<and> fats s' = fats s
        \<and> fmem s' = fmem s
        \<and> sect (drv s') = (\<lambda>i. if a \<le> i \<and> i < a + n
            then load_bytes (fmem s) (buf + of_nat (512 * nat (i - a))) 512 else sect (drv s) i)"
    and ready_mem: "ready (set_fmem m s) = ready s" "sect (drv (set_fmem m s)) = sect (drv s)"
    and ready_fat: "ready (upd_fat k f s) = ready s"

section \<open>Geometry\<close>

definition fat_geom :: "fat_t \<Rightarrow> int \<Rightarrow> bool" where
  "fat_geom f nsect \<longleftrightarrow> bytes_per_sec f = 512 \<and> tbl_cnt f = 2 \<and> 0 < uint (tbl_sectors f)
     \<and> uint (tbl_sectors f) \<le> 256 \<and> 0 < uint (sec_per_cluster f) \<and> uint (sec_per_cluster f) \<le> 8
     \<and> cluster_byte_size f = sec_per_cluster f * 512
     \<and> uint (root_start f) = uint (tbl_start f) + 2 * uint (tbl_sectors f)
     \<and> uint (root_ent_cnt f) * 32 = 512 * (uint (data_start f) - uint (root_start f))
     \<and> uint (root_ent_cnt f) < 2 ^ 16 \<and> uint (data_start f) \<le> nsect \<and> nsect < 2 ^ 31
     \<and> fat_buffer f \<noteq> 0 \<and> unat (fat_buffer f) + 4096 \<le> 2 ^ 32"

lemma fat_geomD:
  assumes "fat_geom f nsect"
  shows "uint (root_start f) = uint (tbl_start f) + 2 * uint (tbl_sectors f)"
    "uint (root_start f) \<le> uint (data_start f) \<and> uint (data_start f) \<le> nsect" "nsect < 2 ^ 31"
    "bytes_per_sec f = 512" "tbl_cnt f = 2" "0 < uint (tbl_sectors f)" "uint (tbl_sectors f) \<le> 256"
    "fat_buffer f \<noteq> 0" "uint (root_ent_cnt f) * 32 = 512 * (uint (data_start f) - uint (root_start f))"
    "uint (root_ent_cnt f) < 2 ^ 16"
proof -
  have "0 \<le> uint (root_ent_cnt f) * 32" by simp
  then have "uint (root_start f) \<le> uint (data_start f)"
    using assms unfolding fat_geom_def by (metis zero_le_mult_iff diff_ge_0_iff_ge zero_less_numeral not_less)
  then show "uint (root_start f) \<le> uint (data_start f) \<and> uint (data_start f) \<le> nsect"
    using assms by (simp add: fat_geom_def del: uint_ge_0)
qed (use assms in \<open>simp_all add: fat_geom_def\<close>)

text \<open>The number of entries of one copy of the table.\<close>

definition n_entries :: "fat_t \<Rightarrow> nat" where
  "n_entries f = 256 * unat (tbl_sectors f)"

lemma fat_geom_cache [simp]: "fat_geom (f\<lparr>curr_sector := c\<rparr>) n = fat_geom f n"
  by (simp add: fat_geom_def)

lemma n_entries_cache [simp]: "n_entries (f\<lparr>curr_sector := c\<rparr>) = n_entries f"
  by (simp add: n_entries_def)

text \<open>Where an entry is: the sector of the table and the offset in it.\<close>

lemma entry_place:
  "u_div_mod (ucast c * 2) 512 = Some (of_nat (unat (c :: u16) div 256), of_nat (2 * (unat c mod 256)))"
proof -
  have c: "ucast c * 2 = (of_nat (2 * unat c) :: u32)" by simp
  have "2 * unat c < 2 ^ 32" using unsigned_less[of c, where ?'a=nat] by simp
  from of_nat_div32[OF this, of 512] of_nat_mod32[OF this, of 512]
  show ?thesis unfolding c u_div_mod_def
    by (simp add: mult_mod_right div_mult2_eq[symmetric])
qed

definition entry_sector :: "fat_t \<Rightarrow> nat \<Rightarrow> int" where
  "entry_sector f c = uint (tbl_start f) + int (c div 256)"

definition in_tables :: "fat_t \<Rightarrow> int \<Rightarrow> bool" where
  "in_tables f a \<longleftrightarrow> uint (tbl_start f) \<le> a \<and> a < uint (root_start f)"

lemma sint_sector:
  assumes "fat_geom f nsect" and "a < 2 * unat (tbl_sectors f)"
  shows "sint (tbl_start f + of_nat a) = uint (tbl_start f) + int a"
    and "0 \<le> uint (tbl_start f) + int a" and "uint (tbl_start f) + int a < nsect"
proof -
  define t where "t = uint (tbl_start f)"
  define w where "w = uint (tbl_sectors f)"
  have "int a < int (2 * unat (tbl_sectors f))" using assms(2) by (simp only: of_nat_less_iff)
  then have "int a < 2 * w" by (simp add: w_def)
  moreover have "t + 2 * w \<le> uint (data_start f)" "uint (data_start f) \<le> nsect" "nsect < 2 ^ 31"
    using fat_geomD(1,2,3)[OF assms(1)] by (simp_all add: t_def w_def)
  moreover have t: "0 \<le> t" by (simp add: t_def)
  ultimately have b: "t + int a < nsect" "t + int a < 2 ^ 31" "int a < 2 ^ 32" by simp_all
  then have "uint (of_nat a :: u32) = int a" by (simp add: unsigned_of_nat take_bit_nat_eq_self)
  then have u: "uint (tbl_start f + of_nat a) = t + int a"
    using b t by (simp add: uint_word_ariths t_def[symmetric])
  show "sint (tbl_start f + of_nat a) = uint (tbl_start f) + int a"
    unfolding sint_uint u using b t by (simp add: t_def[symmetric] signed_take_bit_int_eq_self)
  show "0 \<le> uint (tbl_start f) + int a" by simp
  show "uint (tbl_start f) + int a < nsect" using b by (simp add: t_def)
qed

section \<open>A mounted volume\<close>

text \<open>
  \<open>same_vol\<close>: the volumes are as before but for the cached sector number of \<open>k\<close>, and memory
  is as before outside the page of its buffer.
\<close>

definition cur_only :: "nat \<Rightarrow> 'm fat_sys \<Rightarrow> 'm fat_sys \<Rightarrow> bool" where
  "cur_only k s s' \<longleftrightarrow> (\<exists>c. fats s' = (fats s)(k := (fats s k)\<lparr>curr_sector := c\<rparr>))"

definition same_vol :: "nat \<Rightarrow> 'm fat_sys \<Rightarrow> 'm fat_sys \<Rightarrow> bool" where
  "same_vol k s s' \<longleftrightarrow> cur_only k s s'
     \<and> (\<forall>x. 4096 \<le> unat (x - fat_buffer (fats s k)) \<longrightarrow> fmem s' x = fmem s x)"

lemma cur_only_fat:
  assumes "cur_only k s s'"
  shows "fat_geom (fats s' k) n = fat_geom (fats s k) n" "n_entries (fats s' k) = n_entries (fats s k)"
    "tbl_start (fats s' k) = tbl_start (fats s k)" "tbl_sectors (fats s' k) = tbl_sectors (fats s k)"
    "root_start (fats s' k) = root_start (fats s k)" "fat_buffer (fats s' k) = fat_buffer (fats s k)"
    "root_ent_cnt (fats s' k) = root_ent_cnt (fats s k)" "data_start (fats s' k) = data_start (fats s k)"
    "sec_per_cluster (fats s' k) = sec_per_cluster (fats s k)"
    "cluster_byte_size (fats s' k) = cluster_byte_size (fats s k)"
    "bytes_per_sec (fats s' k) = bytes_per_sec (fats s k)" "tbl_cnt (fats s' k) = tbl_cnt (fats s k)"
    "fat_fs_dev (fats s' k) = fat_fs_dev (fats s k)"
    "entry_sector (fats s' k) = entry_sector (fats s k)" "in_tables (fats s' k) = in_tables (fats s k)"
  using assms by (auto simp: cur_only_def entry_sector_def in_tables_def fun_eq_iff)

lemma cur_only_refl [simp]: "cur_only k s s"
  by (auto simp: cur_only_def intro!: exI[of _ "curr_sector (fats s k)"])

lemma cur_only_trans: "cur_only k s s' \<Longrightarrow> cur_only k s' s'' \<Longrightarrow> cur_only k s s''"
  unfolding cur_only_def by fastforce

lemma same_vol_refl [simp]: "same_vol k s s"
  by (simp add: same_vol_def)

lemma same_vol_trans: "same_vol k s s' \<Longrightarrow> same_vol k s' s'' \<Longrightarrow> same_vol k s s''"
  unfolding same_vol_def using cur_only_trans cur_only_fat(6)[of k s s'] by metis

lemma same_vol_cur: "same_vol k s s' \<Longrightarrow> cur_only k s s'"
  by (simp add: same_vol_def)

lemmas same_vol_fat = cur_only_fat[OF same_vol_cur]

lemma fmem_set [simp]: "fmem (set_fmem m s) = m" "fats (set_fmem m s) = fats s"
  by (simp_all add: fmem_def set_fmem_def)

lemma upd_fat_simps [simp]: "fmem (upd_fat k f s) = fmem s" "drv (upd_fat k f s) = drv s"
  "fats (upd_fat k f s) = (fats s)(k := f (fats s k))"
  by (simp_all add: fmem_def upd_fat_def)

context block_dev
begin

definition cache_ok :: "nat \<Rightarrow> 'm fat_sys \<Rightarrow> bool" where
  "cache_ok k s \<longleftrightarrow> (let c = curr_sector (fats s k)
     in c = - 1 \<or> 0 \<le> c \<and> c < nsect \<and> mem_has (fmem s) (fat_buffer (fats s k)) (sect (drv s) c))"

definition vol_ok :: "nat \<Rightarrow> 'm fat_sys \<Rightarrow> bool" where
  "vol_ok k s \<longleftrightarrow> ready s \<and> fat_fs_dev (fats s k) = dev \<and> fat_geom (fats s k) nsect \<and> cache_ok k s"

definition entries :: "nat \<Rightarrow> 'm fat_sys \<Rightarrow> nat \<Rightarrow> u16" where
  "entries k s c = (if c < n_entries (fats s k)
     then le16 (sect (drv s) (entry_sector (fats s k) c)) (2 * (c mod 256)) else FAT_CLUSTER_INVALID)"

text \<open>The two copies of the table agree.\<close>

definition mirrored :: "nat \<Rightarrow> 'm fat_sys \<Rightarrow> bool" where
  "mirrored k s \<longleftrightarrow> (\<forall>i < unat (tbl_sectors (fats s k)).
     sect (drv s) (uint (tbl_start (fats s k)) + int i)
     = sect (drv s) (uint (tbl_start (fats s k)) + uint (tbl_sectors (fats s k)) + int i))"

text \<open>
  What the operations on the table keep: the invariant, the volume, every sector outside the
  tables, and the agreement of the copies.
\<close>

definition table_change :: "nat \<Rightarrow> 'm fat_sys \<Rightarrow> 'm fat_sys \<Rightarrow> bool" where
  "table_change k s s' \<longleftrightarrow> vol_ok k s' \<and> same_vol k s s'
     \<and> (\<forall>a. \<not> in_tables (fats s k) a \<longrightarrow> sect (drv s') a = sect (drv s) a)
     \<and> (mirrored k s \<longrightarrow> mirrored k s')"

lemma table_change_refl: "vol_ok k s \<Longrightarrow> table_change k s s"
  by (simp add: table_change_def)

lemma table_change_trans: "table_change k s s' \<Longrightarrow> table_change k s' s'' \<Longrightarrow> table_change k s s''"
  unfolding table_change_def by (metis same_vol_trans same_vol_fat(15))

lemma table_changeD:
  "table_change k s s' \<Longrightarrow> vol_ok k s'" "table_change k s s' \<Longrightarrow> same_vol k s s'"
  "table_change k s s' \<Longrightarrow> n_entries (fats s' k) = n_entries (fats s k)"
  by (auto simp: table_change_def same_vol_fat)

lemma entries_same: "cur_only k s s' \<Longrightarrow> sect (drv s') = sect (drv s) \<Longrightarrow> entries k s' = entries k s"
  by (simp add: entries_def cur_only_fat fun_eq_iff)

lemma same_sectors_change:
  assumes "vol_ok k s'" and "same_vol k s s'" and "sect (drv s') = sect (drv s)"
  shows "table_change k s s'" and "entries k s' = entries k s"
  using assms same_vol_fat[OF assms(2)]
  by (auto simp: table_change_def mirrored_def entries_def fun_eq_iff)

text \<open>Bringing a sector into the buffer.\<close>

lemma bread_sector_ok:
  assumes ok: "vol_ok k s" and a: "0 \<le> a" "a < nsect"
  shows "\<exists>s'. bread_sector descs k a s = Some (0, s') \<and> vol_ok k s' \<and> same_vol k s s'
    \<and> sect (drv s') = sect (drv s) \<and> curr_sector (fats s' k) = a
    \<and> mem_has (fmem s') (fat_buffer (fats s k)) (sect (drv s) a)"
proof (cases "a = curr_sector (fats s k)")
  case True
  then show ?thesis using ok a by (auto simp: bread_sector_def vol_ok_def cache_ok_def)
next
  case False
  let ?b = "fat_buffer (fats s k)"
  have r: "ready s" "fat_fs_dev (fats s k) = dev" "fat_geom (fats s k) nsect" using ok by (auto simp: vol_ok_def)
  obtain s1 where s1: "dev_read descs dev a ?b 1 s = Some (1, s1)" "ready s1" "fats s1 = fats s"
    "sect (drv s1) = sect (drv s)" "fmem s1 = store_bytes (fmem s) ?b (sect (drv s) a)"
    using read_ok[OF r(1) a(1), of 1 ?b] a(2) by auto
  let ?s = "upd_fat k (\<lambda>f. f\<lparr>curr_sector := a\<rparr>) s1"
  have len: "length (sect (drv s) a) = 512" by (rule sect_length[OF r(1)])
  have m: "mem_has (fmem s1) ?b (sect (drv s) a)" using len by (simp add: s1(5) mem_has_store)
  have "same_vol k s ?s" using len by (auto simp: same_vol_def cur_only_def s1 store_bytes_ok)
  moreover have "vol_ok k ?s" using r a m s1 by (simp add: vol_ok_def cache_ok_def ready_fat)
  moreover have "bread_sector descs k a s = Some (0, ?s)" using False r(2) s1(1) by (simp add: bread_sector_def)
  ultimately show ?thesis using m s1 by auto
qed

text \<open>The entry of a cluster in its sector.\<close>

lemma entry_sector_ok:
  assumes "fat_geom f nsect" and "c < n_entries f"
  shows "sint (tbl_start f + of_nat (c div 256)) = entry_sector f c"
    and "0 \<le> entry_sector f c" and "entry_sector f c < nsect" and "\<not> tbl_sectors f \<le> of_nat (c div 256)"
proof -
  have d: "c div 256 < unat (tbl_sectors f)" using assms(2) by (auto simp: n_entries_def less_mult_imp_div_less mult.commute)
  note p = sint_sector[OF assms(1), of "c div 256"]
  show "sint (tbl_start f + of_nat (c div 256)) = entry_sector f c" "0 \<le> entry_sector f c" "entry_sector f c < nsect"
    using p d by (simp_all add: entry_sector_def)
  have "c div 256 < 2 ^ 32" using d unsigned_less[of "tbl_sectors f", where ?'a = nat] by simp
  then show "\<not> tbl_sectors f \<le> of_nat (c div 256)" using d by (simp add: word_le_nat_alt unat_of_nat32)
qed

lemma entry_beyond:
  assumes "fat_geom f nsect" and "\<not> unat (c :: u16) < n_entries f"
  shows "tbl_sectors f \<le> of_nat (unat c div 256)"
proof -
  have "unat c div 256 < 2 ^ 32" using unsigned_less[of c, where ?'a = nat] by simp
  moreover have "unat (tbl_sectors f) \<le> unat c div 256"
    using assms(2) by (simp add: n_entries_def less_eq_div_iff_mult_less_eq mult.commute)
  ultimately show ?thesis by (simp add: word_le_nat_alt unat_of_nat32)
qed

lemma cluster_get_next_ok:
  assumes ok: "vol_ok k s"
  shows "\<exists>s'. cluster_get_next descs k c s
      = Some (if cluster_is_valid c then entries k s (unat c) else FAT_CLUSTER_INVALID, s')
    \<and> table_change k s s' \<and> entries k s' = entries k s \<and> sect (drv s') = sect (drv s)"
proof (cases "cluster_is_valid c \<and> unat c < n_entries (fats s k)")
  case True
  let ?f = "fats s k" let ?a = "entry_sector ?f (unat c)"
  have g: "fat_geom ?f nsect" "bytes_per_sec ?f = 512" "ready s"
    using ok by (auto simp: vol_ok_def dest: fat_geomD)
  note p = entry_sector_ok[OF g(1) conjunct2[OF True]]
  obtain s' where s': "bread_sector descs k ?a s = Some (0, s')" "vol_ok k s'" "same_vol k s s'"
    "sect (drv s') = sect (drv s)" "mem_has (fmem s') (fat_buffer ?f) (sect (drv s) ?a)"
    using bread_sector_ok[OF ok p(2,3)] by auto
  have "load16 (fmem s') (fat_buffer ?f + of_nat (2 * (unat c mod 256))) = entries k s (unat c)"
    using load16_le16[OF s'(5), of "2 * (unat c mod 256)"] sect_length[OF g(3)] True
    by (simp add: entries_def)
  then show ?thesis using True s' p(1,4) same_vol_fat(6)[OF s'(3)] same_sectors_change[OF s'(2,3,4)]
    by (simp add: cluster_get_next_def g(2) entry_place del: of_nat_mult)
next
  case False
  then show ?thesis using ok entry_beyond[of "fats s k" c]
      table_change_refl[OF ok]
    by (auto simp: cluster_get_next_def vol_ok_def entries_def fat_geomD(4) entry_place)
qed

text \<open>Writing the buffer back.\<close>

lemma bwrite_sector_ok:
  assumes "ready s" and "fat_fs_dev (fats s k) = dev" and "0 \<le> a" and "a < nsect"
    and "mem_has (fmem s) (fat_buffer (fats s k)) xs" and "length xs = 512"
  shows "\<exists>s'. bwrite_sector descs k a s = Some (0, s') \<and> ready s' \<and> fats s' = fats s
    \<and> fmem s' = fmem s \<and> sect (drv s') = (sect (drv s))(a := xs)"
proof -
  have "load_bytes (fmem s) (fat_buffer (fats s k)) 512 = xs" using assms(5,6) by (simp add: mem_has_load)
  moreover have "a \<le> i \<and> i < a + 1 \<longleftrightarrow> i = a" for i by auto
  ultimately show ?thesis using write_ok[OF assms(1,3), of 1 "fat_buffer (fats s k)"] assms(2,4)
    by (auto simp: bwrite_sector_def fun_eq_iff)
qed

lemma write_copies_ok:
  assumes "ready s" and "fat_fs_dev (fats s k) = dev" and g: "fat_geom (fats s k) nsect"
    and i: "i < unat (tbl_sectors (fats s k))"
    and "mem_has (fmem s) (fat_buffer (fats s k)) xs" and "length xs = 512"
  shows "\<exists>s'. write_copies 2 descs k (of_nat i) s = Some (0, s') \<and> ready s' \<and> fats s' = fats s
    \<and> fmem s' = fmem s \<and> sect (drv s') = (sect (drv s))(uint (tbl_start (fats s k)) + int i := xs,
        uint (tbl_start (fats s k)) + uint (tbl_sectors (fats s k)) + int i := xs)"
proof -
  let ?f = "fats s k" let ?a = "uint (tbl_start ?f) + int i"
  let ?b = "uint (tbl_start ?f) + uint (tbl_sectors ?f) + int i"
  have i2: "i < 2 * unat (tbl_sectors ?f)" "unat (tbl_sectors ?f) + i < 2 * unat (tbl_sectors ?f)"
    using i by auto
  note p = sint_sector[OF g i2(1)] and q = sint_sector[OF g i2(2)]
  have e: "of_nat i + tbl_sectors ?f = of_nat (unat (tbl_sectors ?f) + i)" by simp
  have q1: "sint (tbl_start ?f + (of_nat i + tbl_sectors ?f)) = ?b" unfolding e q(1) by simp
  obtain s1 where s1: "bwrite_sector descs k ?a s = Some (0, s1)" "ready s1" "fats s1 = fats s"
    "fmem s1 = fmem s" "sect (drv s1) = (sect (drv s))(?a := xs)"
    using bwrite_sector_ok[OF assms(1,2) p(2,3) assms(5,6)] by auto
  have m1: "mem_has (fmem s1) (fat_buffer (fats s1 k)) xs" "fat_fs_dev (fats s1 k) = dev"
    using s1 assms by simp_all
  have "0 \<le> ?b" "?b < nsect" using q(2,3) by simp_all
  from bwrite_sector_ok[OF s1(2) m1(2) this m1(1) assms(6)]
  obtain s2 where s2: "bwrite_sector descs k ?b s1 = Some (0, s2)" "ready s2" "fats s2 = fats s1"
    "fmem s2 = fmem s1" "sect (drv s2) = (sect (drv s1))(?b := xs)" by auto
  show ?thesis using s1 s2 p(1) q1
    by (intro exI[of _ s2]) (simp add: numeral_2_eq_2)
qed

text \<open>Setting an entry changes exactly this entry, in both copies.\<close>

lemma entries_put:
  assumes "c < n_entries f" and "length (S (entry_sector f c)) = 512" and "\<And>a. length (S a) = 512"
    and S': "S' = S(entry_sector f c := put16 (S (entry_sector f c)) (2 * (c mod 256)) v,
      entry_sector f c + uint (tbl_sectors f) := x)"
    and d: "d < n_entries f"
  shows "le16 (S' (entry_sector f d)) (2 * (d mod 256))
    = (if d = c then v else le16 (S (entry_sector f d)) (2 * (d mod 256)))"
proof -
  have less: "c div 256 < unat (tbl_sectors f)" "d div 256 < unat (tbl_sectors f)"
    using assms(1) d by (auto simp: n_entries_def less_mult_imp_div_less mult.commute)
  have "int (d div 256) < uint (tbl_sectors f)" using less(2) by (metis of_nat_less_iff uint_nat)
  then have ne: "entry_sector f d \<noteq> entry_sector f c + uint (tbl_sectors f)"
    using zdiv_int[of c 256] by (simp add: entry_sector_def)
  show ?thesis
  proof (cases "entry_sector f d = entry_sector f c")
    case True
    then have q: "d div 256 = c div 256" by (simp add: entry_sector_def)
    show ?thesis
    proof (cases "d = c")
      case False
      then have "d mod 256 \<noteq> c mod 256" using q by (metis mult_div_mod_eq)
      then have "2 * (d mod 256) + 1 < 2 * (c mod 256) \<or> 2 * (c mod 256) + 1 < 2 * (d mod 256)" by arith
      then show ?thesis using True ne False by (simp add: S')
    qed (use ne assms(2) in \<open>simp add: S'\<close>)
  next
    case False
    then show ?thesis using ne by (auto simp: S')
  qed
qed

lemma cluster_set_next_ok:
  assumes ok: "vol_ok k s" and v: "cluster_is_valid c" "unat c < n_entries (fats s k)"
  shows "\<exists>s'. cluster_set_next descs k c v s = Some (0, s')
    \<and> table_change k s s' \<and> entries k s' = (entries k s)(unat c := v)"
proof -
  let ?f = "fats s k" let ?c = "unat c" let ?i = "unat c div 256" let ?a = "entry_sector ?f (unat c)"
  let ?o = "2 * (unat c mod 256)" let ?xs = "put16 (sect (drv s) ?a) ?o v"
  have g: "fat_geom ?f nsect" "bytes_per_sec ?f = 512" "ready s" "tbl_cnt ?f = 2" "fat_fs_dev ?f = dev"
    using ok by (auto simp: vol_ok_def dest: fat_geomD)
  note p = entry_sector_ok[OF g(1) v(2)]
  have len: "length (sect (drv s) a) = 512" for a by (rule sect_length[OF g(3)])
  obtain s1 where s1: "bread_sector descs k ?a s = Some (0, s1)" "vol_ok k s1" "same_vol k s s1"
    "sect (drv s1) = sect (drv s)" "curr_sector (fats s1 k) = ?a"
    "mem_has (fmem s1) (fat_buffer ?f) (sect (drv s) ?a)"
    using bread_sector_ok[OF ok p(2,3)] by auto
  note f1 = same_vol_fat[OF s1(3)]
  let ?m = "store16 (fmem s1) (fat_buffer ?f + of_nat ?o) v"
  let ?s = "set_fmem ?m s1"
  have m: "mem_has (fmem ?s) (fat_buffer (fats ?s k)) ?xs"
    using mem_has_store16[OF s1(6), of ?o v] len f1(6) by simp
  have r: "ready ?s" "fat_fs_dev (fats ?s k) = dev" "fat_geom (fats ?s k) nsect"
    using s1(2) by (simp_all add: vol_ok_def ready_mem)
  have i: "?i < unat (tbl_sectors (fats ?s k))"
    using v(2) f1(4) by (auto simp: n_entries_def less_mult_imp_div_less mult.commute)
  obtain s2 where s2: "write_copies 2 descs k (of_nat ?i) ?s = Some (0, s2)" "ready s2"
    "fats s2 = fats s1" "fmem s2 = ?m"
    "sect (drv s2) = (sect (drv s))(uint (tbl_start ?f) + int ?i := ?xs,
        uint (tbl_start ?f) + uint (tbl_sectors ?f) + int ?i := ?xs)"
    using write_copies_ok[OF r i m] len s1(4) f1(3,4) by (auto simp: ready_mem)
  have S: "sect (drv s2) = (sect (drv s))(?a := ?xs, ?a + uint (tbl_sectors ?f) := ?xs)"
    unfolding s2(5) by (simp add: entry_sector_def add_ac)
  have il: "int ?i < uint (tbl_sectors ?f)" using i f1(4) by (metis of_nat_less_iff uint_nat fmem_set(2))
  have ne: "?a \<noteq> ?a + uint (tbl_sectors ?f)" using il by (metis add_cancel_left_right of_nat_0_le_iff not_less)
  have "fmem s2 x = fmem s x" if "4096 \<le> unat (x - fat_buffer ?f)" for x
    using that s1(3) s2(4) store16_frame[of 512 ?o x "fat_buffer ?f" "fmem s1" v]
    by (simp add: same_vol_def)
  then have same: "same_vol k s s2" using s1(3) s2(3) by (auto simp: same_vol_def cur_only_def)
  have "cache_ok k s2"
    using m s2(3,4) f1(6) s1(5) S p(2,3) ne by (simp add: cache_ok_def)
  then have vol: "vol_ok k s2" using s2(2,3) s1(2) by (simp add: vol_ok_def)
  have ent: "entries k s2 d = ((entries k s)(?c := v)) d" for d
    using entries_put[OF v(2) len len S, of d] same_vol_fat(2,14)[OF same] v(2)
    by (auto simp: entries_def)
  have out: "sect (drv s2) a = sect (drv s) a" if "\<not> in_tables ?f a" for a
    using that il unfolding S in_tables_def fat_geomD(1)[OF g(1)] entry_sector_def
    by (auto simp del: zdiv_int)
  have mir: "mirrored k s2" if m: "mirrored k s"
    unfolding mirrored_def same_vol_fat[OF same]
  proof (intro allI impI)
    fix j assume j: "j < unat (tbl_sectors ?f)"
    then have jl: "int j < uint (tbl_sectors ?f)" by (metis of_nat_less_iff uint_nat)
    have "sect (drv s) (uint (tbl_start ?f) + int j) = sect (drv s) (uint (tbl_start ?f) + uint (tbl_sectors ?f) + int j)"
      using m j by (simp add: mirrored_def)
    then show "sect (drv s2) (uint (tbl_start ?f) + int j)
        = sect (drv s2) (uint (tbl_start ?f) + uint (tbl_sectors ?f) + int j)"
      using il jl unfolding s2(5) by (auto simp del: zdiv_int)
  qed
  show ?thesis
    using s1(1) s2(1) vol same ent out mir p(1,4) g(2,4) f1(4,6) v(1)
    by (intro exI[of _ s2]) (auto simp: table_change_def cluster_set_next_def entry_place fun_eq_iff f1 simp del: of_nat_mult)
qed

lemma cluster_set_next_beyond:
  assumes "vol_ok k s" and "cluster_is_valid c" and "\<not> unat c < n_entries (fats s k)"
  shows "cluster_set_next descs k c v s = Some (uint FAT_CLUSTER_INVALID, s)"
proof -
  have g: "fat_geom (fats s k) nsect" using assms(1) by (simp add: vol_ok_def)
  from fat_geomD(4)[OF g] entry_beyond[OF g assms(3)] show ?thesis
    using assms(2) by (simp add: cluster_set_next_def entry_place)
qed

section \<open>Chains\<close>

text \<open>\<open>chain n E c xs\<close>: the clusters from \<open>c\<close> on are \<open>xs\<close>, all entries of a table of \<open>n\<close>.\<close>

end

fun chain :: "nat \<Rightarrow> (nat \<Rightarrow> u16) \<Rightarrow> u16 \<Rightarrow> u16 list \<Rightarrow> bool" where
  "chain n E c [] \<longleftrightarrow> \<not> cluster_is_valid c"
| "chain n E c (x # xs) \<longleftrightarrow> c = x \<and> cluster_is_valid x \<and> unat x < n \<and> chain n E (E (unat x)) xs"

lemma chain_unique: "chain n E c xs \<Longrightarrow> chain n E c ys \<Longrightarrow> xs = ys"
proof (induction xs arbitrary: c ys)
  case Nil
  then show ?case by (cases ys) auto
next
  case (Cons x xs)
  then show ?case by (cases ys) auto
qed

lemma chain_suffix: "chain n E c (xs @ y # ys) \<Longrightarrow> chain n E y (y # ys)"
  by (induction xs arbitrary: c) auto

lemma chain_distinct: "chain n E c xs \<Longrightarrow> distinct xs"
proof (induction xs arbitrary: c)
  case (Cons x xs)
  have "x \<notin> set xs"
  proof
    assume "x \<in> set xs"
    then obtain ys zs where xs: "xs = ys @ x # zs" by (auto simp: in_set_conv_decomp)
    have "chain n E x (x # zs)" using Cons.prems chain_suffix[of n E c "x # ys" x zs] by (simp add: xs)
    moreover have "chain n E x (x # xs)" using Cons.prems by simp
    ultimately have "x # zs = x # xs" by (rule chain_unique)
    then show False by (simp add: xs)
  qed
  then show ?case using Cons by auto
qed simp

lemma chain_upd: "d \<notin> unat ` set xs \<Longrightarrow> chain n (E(d := v)) c xs = chain n E c xs"
  by (induction xs arbitrary: c) auto

context block_dev
begin

lemma cluster_free_chain_ok:
  assumes "vol_ok k s" and "chain (n_entries (fats s k)) (entries k s) c xs"
  shows "\<exists>s'. cluster_free_chain descs k c s = Some s' \<and> table_change k s s'
    \<and> entries k s' = (\<lambda>d. if d \<in> unat ` set xs then 0 else entries k s d)"
  using assms
proof (induction xs arbitrary: c s)
  case Nil
  then show ?case by (subst cluster_free_chain.simps) (simp add: table_change_refl)
next
  case (Cons x xs)
  have c: "c = x" "cluster_is_valid x" "unat x < n_entries (fats s k)" using Cons.prems(2) by auto
  have x: "unat x \<notin> unat ` set xs" using chain_distinct[OF Cons.prems(2)] by (auto dest: unsigned_word_eqI)
  obtain s1 where s1: "cluster_get_next descs k x s = Some (entries k s (unat x), s1)"
    "table_change k s s1" "entries k s1 = entries k s"
    using cluster_get_next_ok[OF Cons.prems(1), of x] c(2) by auto
  obtain s2 where s2: "cluster_set_next descs k x FAT_CLUSTER_FREE s1 = Some (0, s2)"
    "table_change k s1 s2" "entries k s2 = (entries k s)(unat x := FAT_CLUSTER_FREE)"
    using cluster_set_next_ok[OF table_changeD(1)[OF s1(2)] c(2), of FAT_CLUSTER_FREE] c(3)
      table_changeD(3)[OF s1(2)] s1(3) by auto
  note tc = table_change_trans[OF s1(2) s2(2)]
  have ch: "chain (n_entries (fats s2 k)) (entries k s2) (entries k s (unat x)) xs"
    using Cons.prems(2) x table_changeD(3)[OF tc] by (simp add: s2(3) chain_upd)
  obtain s3 where s3: "cluster_free_chain descs k (entries k s (unat x)) s2 = Some s3" "table_change k s2 s3"
    "entries k s3 = (\<lambda>d. if d \<in> unat ` set xs then 0 else entries k s2 d)"
    using Cons.IH[OF table_changeD(1)[OF tc] ch] by auto
  have "cluster_free_chain descs k c s = Some s3"
    by (subst cluster_free_chain.simps) (simp add: c s1(1) s2(1) s3(1))
  moreover have "entries k s3 = (\<lambda>d. if d \<in> unat ` set (x # xs) then 0 else entries k s d)"
    by (auto simp: s3(3) s2(3) FAT_CLUSTER_FREE_def fun_eq_iff)
  ultimately show ?case using table_change_trans[OF tc s3(2)] by blast
qed

text \<open>
  Freeing ends from every cluster, on a cyclic chain too: each step clears an entry, and a
  cleared entry ends the walk.
\<close>

lemma cluster_free_chain_ends:
  assumes "vol_ok k s"
  shows "\<exists>s'. cluster_free_chain descs k c s = Some s' \<and> table_change k s s'"
  using assms
proof (induction "card {d. d < n_entries (fats s k) \<and> entries k s d \<noteq> 0}" arbitrary: c s rule: less_induct)
  case less
  obtain s1 where s1: "cluster_get_next descs k c s
      = Some (if cluster_is_valid c then entries k s (unat c) else FAT_CLUSTER_INVALID, s1)"
    "table_change k s s1" "entries k s1 = entries k s"
    using cluster_get_next_ok[OF less.prems, of c] by auto
  note v1 = table_changeD(1)[OF s1(2)] and n1 = table_changeD(3)[OF s1(2)]
  have stop: "cluster_free_chain descs k x t = Some t" if "\<not> cluster_is_valid x" for x t
    using that by (subst cluster_free_chain.simps) simp
  show ?case
  proof (cases "cluster_is_valid c")
    case False
    then show ?thesis using stop table_change_refl[OF less.prems] by blast
  next
    case c: True
    show ?thesis
    proof (cases "unat c < n_entries (fats s k)")
      case False
      then have "entries k s (unat c) = FAT_CLUSTER_INVALID" by (simp add: entries_def)
      moreover have "\<not> cluster_is_valid FAT_CLUSTER_INVALID" by (simp add: cluster_is_valid_def FAT_CLUSTER_INVALID_def)
      ultimately have "cluster_free_chain descs k c s = Some s1"
        using cluster_set_next_beyond[OF v1 c, of FAT_CLUSTER_FREE] False c s1(1) n1 stop
        by (subst cluster_free_chain.simps) simp
      then show ?thesis using s1(2) by blast
    next
      case n: True
      obtain s2 where s2: "cluster_set_next descs k c FAT_CLUSTER_FREE s1 = Some (0, s2)"
        "table_change k s1 s2" "entries k s2 = (entries k s)(unat c := FAT_CLUSTER_FREE)"
        using cluster_set_next_ok[OF v1 c, of FAT_CLUSTER_FREE] n n1 s1(3) by auto
      note tc = table_change_trans[OF s1(2) s2(2)]
      have rec: "cluster_free_chain descs k c s = cluster_free_chain descs k (entries k s (unat c)) s2"
        by (subst cluster_free_chain.simps) (simp add: c s1(1) s2(1))
      show ?thesis
      proof (cases "entries k s (unat c) = 0")
        case True
        have "\<not> cluster_is_valid 0" by (simp add: cluster_is_valid_def)
        then show ?thesis using rec True stop tc by auto
      next
        case False
        have "{d. d < n_entries (fats s2 k) \<and> entries k s2 d \<noteq> 0} = {d. d < n_entries (fats s k) \<and> entries k s d \<noteq> 0} - {unat c}"
          using table_changeD(3)[OF tc] by (auto simp: s2(3) FAT_CLUSTER_FREE_def)
        then have "card {d. d < n_entries (fats s2 k) \<and> entries k s2 d \<noteq> 0}
            < card {d. d < n_entries (fats s k) \<and> entries k s d \<noteq> 0}"
          using False n by (simp only:) (rule card_Diff1_less; simp)
        from less.hyps[OF this table_changeD(1)[OF tc]] show ?thesis
          using rec tc table_change_trans by metis
      qed
    qed
  qed
qed

end

section \<open>Allocation\<close>

text \<open>\<open>link ds E\<close>: the map with each of the clusters \<open>ds\<close> pointing to the next; the last is left.\<close>

fun link :: "nat list \<Rightarrow> (nat \<Rightarrow> u16) \<Rightarrow> nat \<Rightarrow> u16" where
  "link (d # e # ds) E = link (e # ds) (E(d := of_nat e))"
| "link [d] E = E"
| "link [] E = E"

lemma link_other: "x \<notin> set ds \<Longrightarrow> link ds E x = E x"
  by (induction ds E rule: link.induct) auto

lemma link_last: "distinct ds \<Longrightarrow> ds \<noteq> [] \<Longrightarrow> link ds E (last ds) = E (last ds)"
  by (induction ds E rule: link.induct) auto

lemma cluster_of_nat:
  "2 \<le> d \<Longrightarrow> d < 65280 \<Longrightarrow> cluster_is_valid (of_nat d) \<and> unat (of_nat d :: u16) = d"
  by (simp add: cluster_is_valid_def unsigned_of_nat take_bit_nat_eq_self)

text \<open>The linked clusters, with the last entry \<open>v\<close>, are a chain when \<open>v\<close> ends one.\<close>

lemma chain_link:
  assumes "ds \<noteq> []" and "distinct ds" and "\<forall>d \<in> set ds. 2 \<le> d \<and> d < n" and "n \<le> 65280"
    and "\<not> cluster_is_valid v"
  shows "chain n ((link ds E)(last ds := v)) (of_nat (hd ds)) (map of_nat ds)"
  using assms
proof (induction ds E rule: link.induct)
  case (1 d e ds E)
  have d: "cluster_is_valid (of_nat d)" "unat (of_nat d :: u16) = d" "d < n"
    using cluster_of_nat[of d] "1.prems" by auto
  let ?F = "(link (e # ds) (E(d := of_nat e)))(last (e # ds) := v)"
  have "link (e # ds) (E(d := of_nat e)) d = of_nat e"
    using "1.prems"(2) link_other[of d "e # ds"] by (simp del: link.simps)
  moreover have "d \<noteq> last (e # ds)" using "1.prems"(2) last_in_set[of "e # ds"] by auto
  ultimately have F: "?F d = of_nat e" by simp
  have "chain n ?F (of_nat (hd (e # ds))) (map of_nat (e # ds))"
    by (rule "1.IH") (use "1.prems" in simp_all)
  then have "chain n ?F (?F (unat (of_nat d :: u16))) (map of_nat (e # ds))"
    unfolding d(2) F by (simp only: list.sel)
  then have "chain n ?F (of_nat d) (of_nat d # map of_nat (e # ds))"
    using d by (simp only: chain.simps simp_thms)
  then show ?case by (simp only: link.simps list.map list.sel last_ConsR list.distinct simp_thms if_False last.simps)
next
  case (2 d E)
  then show ?case using cluster_of_nat[of d] by auto
qed simp

definition free_from :: "(nat \<Rightarrow> u16) \<Rightarrow> nat \<Rightarrow> nat \<Rightarrow> nat list" where
  "free_from E c n = filter (\<lambda>d. E d = 0) [c..<n]"

lemma free_from_Suc: "c < n \<Longrightarrow> free_from E c n = (if E c = 0 then [c] else []) @ free_from E (Suc c) n"
  by (simp add: free_from_def upt_conv_Cons)

lemma free_from_end [simp]: "free_from E n n = []"
  by (simp add: free_from_def)

lemma free_from_upd: "x < c \<Longrightarrow> free_from (E(x := v)) c n = free_from E c n"
  unfolding free_from_def by (rule filter_cong) auto

lemma free_from_props:
  "distinct (take j (free_from E c n))" "d \<in> set (take j (free_from E c n)) \<Longrightarrow> c \<le> d \<and> d < n \<and> E d = 0"
  by (auto simp: free_from_def dest: in_set_takeD)

context block_dev
begin

lemma alloc_loop_ok:
  fixes cnt :: nat
  assumes "vol_ok k s" and "n = n_entries (fats s k)" and "n \<le> 65280" and "2 \<le> c" and "c \<le> n"
    and "cluster_is_valid pr \<longrightarrow> unat pr < c"
  defines "xs \<equiv> take cnt (free_from (entries k s) c n)"
  shows "\<exists>s'. alloc_loop descs k (int n) (int cnt) (of_nat c) pr start s
      = Some (int cnt - int (length xs), Some (if xs = [] then pr else of_nat (last xs)),
          if xs = [] \<or> cluster_is_valid start then start else of_nat (hd xs), s')
    \<and> table_change k s s'
    \<and> entries k s' = link ((if cluster_is_valid pr then [unat pr] else []) @ xs) (entries k s)"
  using assms(1-6) unfolding xs_def
proof (induction "n - c" arbitrary: c cnt pr start s)
  case 0
  then have "c = n" by simp
  have "uint (of_nat n :: u16) = int n" using 0 by (simp add: unsigned_of_nat take_bit_nat_eq_self)
  with \<open>c = n\<close> table_change_refl[OF "0.prems"(1)] show ?case by (subst alloc_loop.simps) simp
next
  case (Suc i)
  let ?E = "entries k s"
  show ?case
  proof (cases "cnt = 0")
    case True
    then show ?thesis using table_change_refl[OF Suc.prems(1)] by (subst alloc_loop.simps) simp
  next
    case False
    then obtain j where j: "cnt = Suc j" by (cases cnt) auto
    have c: "c < n" "c < 65280" using Suc.hyps(2) Suc.prems(3) by auto
    note vc = cluster_of_nat[OF Suc.prems(4) c(2)]
    have lt: "uint (of_nat c :: u16) < int n" using c by (simp add: unsigned_of_nat take_bit_nat_eq_self)
    obtain s1 where s1: "cluster_get_next descs k (of_nat c) s = Some (?E c, s1)"
      "table_change k s s1" "entries k s1 = ?E"
      using cluster_get_next_ok[OF Suc.prems(1), of "of_nat c"] vc by auto
    note v1 = table_changeD(1)[OF s1(2)] and n1 = table_changeD(3)[OF s1(2)]
    have step: "of_nat c + 1 = (of_nat (Suc c) :: u16)" "i = n - Suc c" "Suc c \<le> n" "2 \<le> Suc c"
      using Suc.hyps(2) c Suc.prems(4) by simp_all
    note unfold = alloc_loop.simps[of descs k "int n" "int cnt" "of_nat c" pr start s]
    show ?thesis
    proof (cases "?E c = 0")
      case taken: False
      have "cluster_is_valid pr \<longrightarrow> unat pr < Suc c" using Suc.prems(6) by auto
      from Suc.hyps(1)[OF step(2) v1 _ Suc.prems(3) step(4,3) this, of cnt start] Suc.prems(2) n1 s1(3)
      obtain s' where s': "alloc_loop descs k (int n) (int cnt) (of_nat c + 1) pr start s1
        = Some (int cnt - int (length (take cnt (free_from ?E (Suc c) n))),
            Some (if take cnt (free_from ?E (Suc c) n) = [] then pr else of_nat (last (take cnt (free_from ?E (Suc c) n)))),
            if take cnt (free_from ?E (Suc c) n) = [] \<or> cluster_is_valid start then start
            else of_nat (hd (take cnt (free_from ?E (Suc c) n))), s')"
        "table_change k s1 s'"
        "entries k s' = link ((if cluster_is_valid pr then [unat pr] else []) @ take cnt (free_from ?E (Suc c) n)) ?E"
        unfolding step(1) by auto
      have "alloc_loop descs k (int n) (int cnt) (of_nat c) pr start s
        = alloc_loop descs k (int n) (int cnt) (of_nat c + 1) pr start s1"
        unfolding unfold using False lt s1(1) taken by (simp add: FAT_CLUSTER_FREE_def)
      then show ?thesis
        using s' table_change_trans[OF s1(2) s'(2)] taken by (simp add: free_from_Suc[OF c(1)])
    next
      case free: True
      let ?st = "if \<not> cluster_is_valid start then of_nat c else start"
      let ?E2 = "if cluster_is_valid pr then ?E(unat pr := of_nat c) else ?E"
      obtain s2 where s2: "(if cluster_is_valid pr then cluster_set_next descs k pr (of_nat c) s1
            else Some (0, s1)) = Some (0, s2)" "table_change k s1 s2" "entries k s2 = ?E2"
        using cluster_set_next_ok[OF v1, of pr "of_nat c"] Suc.prems(2,6) c n1 s1(3) table_change_refl[OF v1]
        by (cases "cluster_is_valid pr") auto
      note tc = table_change_trans[OF s1(2) s2(2)]
      let ?xs = "take j (free_from ?E (Suc c) n)"
      have same: "free_from ?E2 (Suc c) n = free_from ?E (Suc c) n"
        using Suc.prems(6) by (auto intro: free_from_upd)
      have vp: "cluster_is_valid (of_nat c) \<longrightarrow> unat (of_nat c :: u16) < Suc c" using vc by simp
      from Suc.hyps(1)[OF step(2) table_changeD(1)[OF tc] _ Suc.prems(3) step(4,3) vp, of j ?st]
        Suc.prems(2) table_changeD(3)[OF tc] s2(3) same vc
      obtain s' where s': "alloc_loop descs k (int n) (int j) (of_nat c + 1) (of_nat c) ?st s2
        = Some (int j - int (length ?xs), Some (if ?xs = [] then of_nat c else of_nat (last ?xs)),
            if ?xs = [] \<or> cluster_is_valid ?st then ?st else of_nat (hd ?xs), s')"
        "table_change k s2 s'" "entries k s' = link (c # ?xs) ?E2"
        unfolding step(1) by auto
      have "alloc_loop descs k (int n) (int cnt) (of_nat c) pr start s
        = alloc_loop descs k (int n) (int j) (of_nat c + 1) (of_nat c) ?st s2"
        unfolding unfold using lt s1(1) s2(1) free j by (simp add: FAT_CLUSTER_FREE_def Let_def)
      moreover have "take cnt (free_from ?E c n) = c # ?xs" using free j by (simp add: free_from_Suc[OF c(1)])
      moreover have "link (c # ?xs) ?E2 = link ((if cluster_is_valid pr then [unat pr] else []) @ c # ?xs) ?E"
        by simp
      ultimately show ?thesis
        using s' table_change_trans[OF tc s'(2)] vc j by (cases "cluster_is_valid start") simp_all
    qed
  qed
qed

lemma c_total_ok:
  assumes "fat_geom f nsect"
  shows "sint (tbl_sectors f * bytes_per_sec f div 2) = int (n_entries f)"
proof -
  have t: "unat (tbl_sectors f) \<le> 256" using fat_geomD(7)[OF assms] unfolding unat_eq_nat_uint by linarith
  have "tbl_sectors f * bytes_per_sec f = (of_nat (512 * unat (tbl_sectors f)) :: u32)"
    using fat_geomD(4)[OF assms] by (simp add: mult.commute)
  moreover have "512 * unat (tbl_sectors f) < 2 ^ 32" using t by simp
  ultimately have "tbl_sectors f * bytes_per_sec f div 2 = of_nat (n_entries f)"
    using of_nat_div32[of "512 * unat (tbl_sectors f)" 2] by (simp add: n_entries_def)
  moreover have "n_entries f \<le> 65536" using t by (simp add: n_entries_def)
  ultimately show ?thesis
    by (simp add: sint_uint unsigned_of_nat take_bit_nat_eq_self signed_take_bit_int_eq_self)
qed

lemma cluster_alloc_free_ok:
  fixes cnt :: nat
  assumes ok: "vol_ok k s" and n: "n_entries (fats s k) \<le> 65280" and "0 < cnt"
  shows "\<exists>start s'. cluster_alloc_free descs k (int cnt) s = Some (start, s') \<and> table_change k s s'
    \<and> (let ds = take cnt (free_from (entries k s) 2 (n_entries (fats s k)))
       in if length ds = cnt
          then chain (n_entries (fats s k)) (entries k s') start (map of_nat ds)
            \<and> (\<forall>d. d \<notin> set ds \<longrightarrow> entries k s' d = entries k s d)
          else start = FAT_CLUSTER_INVALID \<and> entries k s' = entries k s)"
proof -
  let ?n = "n_entries (fats s k)" let ?E = "entries k s" let ?I = FAT_CLUSTER_INVALID
  define ds where "ds = take cnt (free_from ?E 2 ?n)"
  have g: "fat_geom (fats s k) nsect" using ok by (simp add: vol_ok_def)
  have inv: "\<not> cluster_is_valid ?I" by (simp add: cluster_is_valid_def FAT_CLUSTER_INVALID_def)
  have "1 \<le> unat (tbl_sectors (fats s k))" using fat_geomD(6)[OF g] unfolding unat_eq_nat_uint by linarith
  then have "2 \<le> ?n" by (simp add: n_entries_def)
  from alloc_loop_ok[OF ok refl n order_refl this, of ?I cnt ?I, folded ds_def] inv
  obtain s1 where s1: "alloc_loop descs k (int ?n) (int cnt) 2 ?I ?I s
      = Some (int cnt - int (length ds), Some (if ds = [] then ?I else of_nat (last ds)),
          if ds = [] then ?I else of_nat (hd ds), s1)"
    "table_change k s s1" "entries k s1 = link ds ?E"
    by (auto simp: FAT_CLUSTER_INVALID_def cong: if_cong)
  have ds: "distinct ds" "\<forall>d \<in> set ds. 2 \<le> d \<and> d < ?n" "\<And>d. d \<in> set ds \<Longrightarrow> ?E d = 0"
    unfolding ds_def using free_from_props by blast+
  note v1 = table_changeD(1)[OF s1(2)] and n1 = table_changeD(3)[OF s1(2)]
  show ?thesis
  proof (cases "length ds = cnt")
    case True
    then have ne: "ds \<noteq> []" using assms(3) by (metis length_greater_0_conv)
    then have l: "last ds \<in> set ds" by simp
    then have vl: "cluster_is_valid (of_nat (last ds))" "unat (of_nat (last ds) :: u16) = last ds" "last ds < ?n"
      using ds(2) n cluster_of_nat[of "last ds"] by auto
    obtain s2 where s2: "cluster_set_next descs k (of_nat (last ds)) ?I s1 = Some (0, s2)"
      "table_change k s1 s2" "entries k s2 = (link ds ?E)(last ds := ?I)"
      using cluster_set_next_ok[OF v1 vl(1), of ?I] vl(2,3) n1 s1(3) by auto
    have "cluster_alloc_free descs k (int cnt) s = Some (of_nat (hd ds), s2)"
      unfolding cluster_alloc_free_def c_total_ok[OF g] using s1(1) s2(1) True ne by simp
    moreover have "chain ?n (entries k s2) (of_nat (hd ds)) (map of_nat ds)"
      unfolding s2(3) by (rule chain_link[OF ne ds(1,2) n inv])
    moreover have "entries k s2 d = ?E d" if "d \<notin> set ds" for d
      using that l link_other[OF that] by (auto simp: s2(3))
    ultimately show ?thesis using table_change_trans[OF s1(2) s2(2)] True
      by (auto simp: Let_def ds_def[symmetric])
  next
    case False
    have cnt: "int cnt - int (length ds) \<noteq> 0" using False by simp
    let ?start = "if ds = [] then ?I else of_nat (hd ds)"
    have "\<exists>xs. chain (n_entries (fats s1 k)) (entries k s1) ?start xs \<and> unat ` set xs = set ds"
    proof (cases "ds = []")
      case True
      then show ?thesis using inv by (intro exI[of _ "[]"]) simp
    next
      case ne: False
      have z: "\<not> cluster_is_valid 0" by (simp add: cluster_is_valid_def)
      have "link ds ?E (last ds) = 0" using link_last[OF ds(1) ne, of ?E] ds(3) ne by simp
      then have "(link ds ?E)(last ds := 0) = link ds ?E" by (metis fun_upd_triv)
      then have "chain ?n (link ds ?E) (of_nat (hd ds)) (map of_nat ds)"
        using chain_link[OF ne ds(1,2) n z, of ?E] by simp
      moreover have "unat ` set (map (of_nat :: nat \<Rightarrow> u16) ds) = set ds"
        using ds(2) n cluster_of_nat by (force simp: image_image)
      ultimately show ?thesis using ne n1 s1(3) by (intro exI[of _ "map of_nat ds"]) simp
    qed
    then obtain xs where xs: "chain (n_entries (fats s1 k)) (entries k s1) ?start xs" "unat ` set xs = set ds"
      by blast
    obtain s2 where s2: "cluster_free_chain descs k ?start s1 = Some s2" "table_change k s1 s2"
      "entries k s2 = (\<lambda>d. if d \<in> set ds then 0 else link ds ?E d)"
      using cluster_free_chain_ok[OF v1 xs(1)] unfolding xs(2) s1(3) by blast
    have "cluster_alloc_free descs k (int cnt) s = Some (?I, s2)"
      unfolding cluster_alloc_free_def c_total_ok[OF g] using s1(1) s2(1) cnt by simp
    moreover have "entries k s2 = ?E"
      using ds(3) link_other[of _ ds ?E] by (auto simp: s2(3) fun_eq_iff)
    ultimately show ?thesis using table_change_trans[OF s1(2) s2(2)] False
      by (auto simp: Let_def ds_def[symmetric])
  qed
qed

text \<open>
  With a table of 65536 entries the 16-bit cluster number never reaches the bound: on a full
  volume the search does not end.
\<close>

lemma alloc_loop_hangs:
  assumes "vol_ok k s" and "n_entries (fats s k) = 65536" and "cnt \<noteq> 0"
    and "\<And>d. cluster_is_valid d \<Longrightarrow> entries k s (unat d) \<noteq> 0"
  shows "alloc_loop descs k 65536 cnt c pr start s = None"
proof -
  define good where "good t \<longleftrightarrow> vol_ok k t \<and> n_entries (fats t k) = 65536
    \<and> (\<forall>d. cluster_is_valid d \<longrightarrow> entries k t (unat d) \<noteq> 0)" for t
  have next_good: "good t' \<and> x \<noteq> FAT_CLUSTER_FREE" if t: "good t" "cluster_get_next descs k d t = Some (x, t')" for d t x t'
  proof -
    obtain t1 where "cluster_get_next descs k d t
        = Some (if cluster_is_valid d then entries k t (unat d) else FAT_CLUSTER_INVALID, t1)"
      "table_change k t t1" "entries k t1 = entries k t"
      using cluster_get_next_ok[of k t d] t(1) by (auto simp: good_def)
    then show ?thesis using t table_changeD[of k t t1]
      by (auto simp: good_def FAT_CLUSTER_FREE_def FAT_CLUSTER_INVALID_def split: if_splits)
  qed
  have "good s" using assms by (simp add: good_def)
  have "\<not> (ds = descs \<and> j = k \<and> n = 65536 \<and> good t \<and> cnt \<noteq> 0)"
    if "alloc_loop ds j n cnt c pr start t = Some r" for ds j n cnt c pr start t r
  proof (rule alloc_loop.raw_induct[OF _ that, where P =
      "\<lambda>ds j n cnt c pr start t r. \<not> (ds = descs \<and> j = k \<and> n = 65536 \<and> good t \<and> cnt \<noteq> 0)"])
    fix al ds j n cnt c pr start t r
    assume IH: "\<And>ds j n cnt c pr start t r. al ds j n cnt c pr start t = Some r
        \<Longrightarrow> \<not> (ds = descs \<and> j = k \<and> n = 65536 \<and> good t \<and> cnt \<noteq> 0)"
      and body: "(if cnt \<noteq> 0 \<and> uint c < n
       then cluster_get_next ds j c t \<bind> (\<lambda>(free, s).
         if free = FAT_CLUSTER_FREE
         then let start = if \<not> cluster_is_valid start then c else start
              in (if cluster_is_valid pr then cluster_set_next ds j pr c s else Some (0, s)) \<bind>
                (\<lambda>(err, s). if err < 0 then Some (cnt, None, start, s)
                  else al ds j n (cnt - 1) (c + 1) c start s)
         else al ds j n cnt (c + 1) pr start s)
       else Some (cnt, Some pr, start, t)) = Some r"
    show "\<not> (ds = descs \<and> j = k \<and> n = 65536 \<and> good t \<and> cnt \<noteq> 0)"
    proof
      assume h: "ds = descs \<and> j = k \<and> n = 65536 \<and> good t \<and> cnt \<noteq> 0"
      have lt: "uint c < 65536" using unsigned_less[of c, where ?'a = int] by simp
      obtain x t' where g: "cluster_get_next descs k c t = Some (x, t')"
        using body h lt by (cases "cluster_get_next descs k c t") auto
      have "good t'" "x \<noteq> FAT_CLUSTER_FREE" using next_good[OF _ g] h by auto
      with body h lt g have "al descs k 65536 cnt (c + 1) pr start t' = Some r" by simp
      from IH[OF this] \<open>good t'\<close> h show False by simp
    qed
  qed
  with \<open>good s\<close> assms(3) show ?thesis by (cases "alloc_loop descs k 65536 cnt c pr start s") auto
qed

lemma cluster_alloc_free_hangs:
  assumes "vol_ok k s" and n: "n_entries (fats s k) = 65536" and "cnt \<noteq> 0"
    and "\<And>d. cluster_is_valid d \<Longrightarrow> entries k s (unat d) \<noteq> 0"
  shows "cluster_alloc_free descs k cnt s = None"
proof -
  have g: "fat_geom (fats s k) nsect" using assms(1) by (simp add: vol_ok_def)
  show ?thesis unfolding cluster_alloc_free_def c_total_ok[OF g] n
    using alloc_loop_hangs[OF assms] by simp
qed

end

end
