(* ===== verification/Disk.thy ===== *)
theory Disk
  imports Cpu Blocks Fatvol
begin

text \<open>
  The IDE disk driver of \<^verbatim>\<open>kernel/dev/disk.c\<close>, over the ports of theory \<open>Cpu\<close>.

  A \<^verbatim>\<open>disk_t *\<close> is an index into \<open>disk_buf\<close>; a \<^verbatim>\<open>partinfo_t *\<close> kept in a device entry is one
  more than \<open>5 * disk + partition\<close>, 0 the null pointer.  The pointers to the driver's mutex
  and semaphore in a disk are the flag \<open>sync_set\<close>.  Names are the characters without the
  terminator.  Waiting for a transfer takes two arguments: \<open>intr\<close> makes the interrupts that
  arrive before the wait, \<open>resume\<close> (theory \<open>Ipc\<close>) what happens while the caller is blocked.
  Log output is not modelled.
\<close>

section \<open>Data\<close>

record partinfo_t =
  pname :: "u8 list"
  pdisk :: "nat option"
  pstart :: int
  ptotal :: int
  ptype :: int

record disk_t =
  dname :: "u8 list"
  drive :: u8
  port_base :: u16
  sector_size :: int
  sector_count :: int
  partinfo :: "partinfo_t list"
  sync_set :: bool

record 'h disk_sys = "'h cpu" +
  disk_mutex :: mutex_t
  op_sem :: sem_t
  disk_buf :: "disk_t list"
  task_on_op :: int

definition DISK_CNT :: nat where "DISK_CNT = 2"
definition DISK_PER_CHANNEL :: nat where "DISK_PER_CHANNEL = 2"
definition DISK_PRIMARY_PART_CNT :: nat where "DISK_PRIMARY_PART_CNT = 4 + 1"
definition MBR_PRIMARY_PART_NR :: nat where "MBR_PRIMARY_PART_NR = 4"
definition IOBASE_PRIMARY :: u16 where "IOBASE_PRIMARY = 0x1F0"
definition DISK_MASTER :: u8 where "DISK_MASTER = 0"
definition DISK_SLAVE :: u8 where "DISK_SLAVE = 0x10"
definition DISK_DRIVE_BASE :: u8 where "DISK_DRIVE_BASE = 0xE0"
definition DISK_STATUS_ERR :: u8 where "DISK_STATUS_ERR = 1"
definition DISK_STATUS_DRQ :: u8 where "DISK_STATUS_DRQ = 8"
definition DISK_STATUS_BUSY :: u8 where "DISK_STATUS_BUSY = 0x80"
definition DISK_CMD_IDENTIFY :: u8 where "DISK_CMD_IDENTIFY = 0xEC"
definition DISK_CMD_READ :: u8 where "DISK_CMD_READ = 0x24"
definition DISK_CMD_WRITE :: u8 where "DISK_CMD_WRITE = 0x34"
definition FS_INVALID :: int where "FS_INVALID = 0"
definition IRQ14_HARDDISK_PRIMARY :: int where "IRQ14_HARDDISK_PRIMARY = 0x2E"

definition DISK_DATA :: "disk_t \<Rightarrow> u16" where "DISK_DATA d = port_base d + 0"
definition DISK_SECTOR_COUNT :: "disk_t \<Rightarrow> u16" where "DISK_SECTOR_COUNT d = port_base d + 2"
definition DISK_LBA_LO :: "disk_t \<Rightarrow> u16" where "DISK_LBA_LO d = port_base d + 3"
definition DISK_LBA_MID :: "disk_t \<Rightarrow> u16" where "DISK_LBA_MID d = port_base d + 4"
definition DISK_LBA_HI :: "disk_t \<Rightarrow> u16" where "DISK_LBA_HI d = port_base d + 5"
definition DISK_DRIVE :: "disk_t \<Rightarrow> u16" where "DISK_DRIVE d = port_base d + 6"
definition DISK_STATUS :: "disk_t \<Rightarrow> u16" where "DISK_STATUS d = port_base d + 7"
definition DISK_CMD :: "disk_t \<Rightarrow> u16" where "DISK_CMD d = port_base d + 7"

definition zero_part :: partinfo_t where
  "zero_part = \<lparr>pname = [], pdisk = None, pstart = 0, ptotal = 0, ptype = 0\<rparr>"

definition zero_disk :: disk_t where
  "zero_disk = \<lparr>dname = [], drive = 0, port_base = 0, sector_size = 0, sector_count = 0,
     partinfo = replicate DISK_PRIMARY_PART_CNT zero_part, sync_set = False\<rparr>"

definition upd_disk :: "nat \<Rightarrow> (disk_t \<Rightarrow> disk_t) \<Rightarrow> 'h disk_sys \<Rightarrow> 'h disk_sys" where
  "upd_disk i f s = s\<lparr>disk_buf := (disk_buf s)[i := f (disk_buf s ! i)]\<rparr>"

definition upd_part :: "nat \<Rightarrow> (partinfo_t \<Rightarrow> partinfo_t) \<Rightarrow> disk_t \<Rightarrow> disk_t" where
  "upd_part j f d = d\<lparr>partinfo := (partinfo d)[j := f (partinfo d ! j)]\<rparr>"

section \<open>Talking to the drive\<close>

definition disk_send_cmd :: "'h ports \<Rightarrow> disk_t \<Rightarrow> u32 \<Rightarrow> u32 \<Rightarrow> u8 \<Rightarrow> 'h disk_sys \<Rightarrow> 'h disk_sys" where
  "disk_send_cmd io d start_sector sector_cnt cmd s =
    (let s = outb io (DISK_DRIVE d) (DISK_DRIVE_BASE OR drive d) s;
         s = outb io (DISK_SECTOR_COUNT d) (ucast (drop_bit 8 sector_cnt)) s;
         s = outb io (DISK_LBA_LO d) (ucast (drop_bit 24 start_sector)) s;
         s = outb io (DISK_LBA_MID d) 0 s;
         s = outb io (DISK_LBA_HI d) 0 s;
         s = outb io (DISK_SECTOR_COUNT d) (ucast sector_cnt) s;
         s = outb io (DISK_LBA_LO d) (ucast (drop_bit 0 start_sector)) s;
         s = outb io (DISK_LBA_MID d) (ucast (drop_bit 8 start_sector)) s;
         s = outb io (DISK_LBA_HI d) (ucast (drop_bit 16 start_sector)) s
     in outb io (DISK_CMD d) cmd s)"

primrec read_words :: "'h ports \<Rightarrow> disk_t \<Rightarrow> nat \<Rightarrow> 'h disk_sys \<Rightarrow> u16 list \<times> 'h disk_sys" where
  "read_words io d 0 s = ([], s)"
| "read_words io d (Suc n) s =
    (case inw io (DISK_DATA d) s of (w, s) \<Rightarrow>
      (case read_words io d n s of (ws, s) \<Rightarrow> (w # ws, s)))"

definition word_bytes :: "u16 \<Rightarrow> u8 list" where
  "word_bytes w = [ucast w, ucast (drop_bit 8 w)]"

definition disk_read_datas :: "'h ports \<Rightarrow> disk_t \<Rightarrow> u32 \<Rightarrow> int \<Rightarrow> 'h disk_sys \<Rightarrow> 'h disk_sys" where
  "disk_read_datas io d buf n s =
    (case read_words io d (nat (n div 2)) s of (ws, s) \<Rightarrow>
      s\<lparr>mem := store_bytes (mem s) buf (concat (map word_bytes ws))\<rparr>)"

primrec write_words :: "'h ports \<Rightarrow> disk_t \<Rightarrow> u32 \<Rightarrow> nat \<Rightarrow> 'h disk_sys \<Rightarrow> 'h disk_sys" where
  "write_words io d buf 0 s = s"
| "write_words io d buf (Suc n) s = write_words io d (buf + 2) n (outw io (DISK_DATA d) (load16 (mem s) buf) s)"

definition disk_write_datas :: "'h ports \<Rightarrow> disk_t \<Rightarrow> u32 \<Rightarrow> int \<Rightarrow> 'h disk_sys \<Rightarrow> 'h disk_sys" where
  "disk_write_datas io d buf n s = write_words io d buf (nat (n div 2)) s"

partial_function (option) disk_wait_data :: "'h ports \<Rightarrow> disk_t \<Rightarrow> 'h disk_sys \<Rightarrow> (int \<times> 'h disk_sys) option" where
  "disk_wait_data io d s =
    (case inb io (DISK_STATUS d) s of (v, s) \<Rightarrow>
      if v AND (DISK_STATUS_BUSY OR DISK_STATUS_DRQ OR DISK_STATUS_ERR) \<noteq> DISK_STATUS_BUSY
      then Some (if v AND DISK_STATUS_ERR \<noteq> 0 then - 1 else 0, s)
      else disk_wait_data io d s)"

section \<open>Finding the disks\<close>

text \<open>
  The fields of a partition table entry, by offset in the boot sector: entry \<open>i\<close> starts at
  \<open>446 + 16 * i\<close>, the system id is at 4, the start sector at 8, the length at 12.
\<close>

definition part_name :: "u8 list \<Rightarrow> int \<Rightarrow> u8 list option" where
  "part_name name n = kernel_vsprintf NORMAL (map of_char ''%s%d'') [Arg_str name, Arg_int n]"

definition detect_part :: "u8 list \<Rightarrow> nat \<Rightarrow> nat \<Rightarrow> 'h disk_sys \<Rightarrow> 'h disk_sys option" where
  "detect_part mbr i k s =
    (let item = 446 + 16 * k;
         sys_id = uint (mbr ! (item + 4));
         s = upd_disk i (upd_part (k + 1) (\<lambda>p. p\<lparr>ptype := sys_id\<rparr>)) s
     in if sys_id = FS_INVALID
        then Some (upd_disk i (upd_part (k + 1) (\<lambda>p. p\<lparr>ptotal := 0, pstart := 0, pdisk := None\<rparr>)) s)
        else do {
          name \<leftarrow> part_name (dname (disk_buf s ! i)) (int k + 1);
          Some (upd_disk i (upd_part (k + 1) (\<lambda>p. p\<lparr>pname := name,
            pstart := sint (le32 mbr (item + 8)), ptotal := sint (le32 mbr (item + 12)), pdisk := Some i\<rparr>)) s)
        })"

primrec detect_parts :: "u8 list \<Rightarrow> nat \<Rightarrow> nat list \<Rightarrow> 'h disk_sys \<Rightarrow> 'h disk_sys option" where
  "detect_parts mbr i [] s = Some s"
| "detect_parts mbr i (k # ks) s = do { s \<leftarrow> detect_part mbr i k s; detect_parts mbr i ks s }"

text \<open>Its result is not used (on success there is none).\<close>

definition detect_part_info :: "'h ports \<Rightarrow> nat \<Rightarrow> 'h disk_sys \<Rightarrow> 'h disk_sys option" where
  "detect_part_info io i s =
    (let d = disk_buf s ! i; s = disk_send_cmd io d 0 1 DISK_CMD_READ s
     in do {
       (err, s) \<leftarrow> disk_wait_data io d s;
       if err < 0 then Some s
       else case read_words io d (512 div 2) s of (ws, s) \<Rightarrow>
         detect_parts (concat (map word_bytes ws)) i [0..<MBR_PRIMARY_PART_NR] s
     })"

text \<open>\<^verbatim>\<open>if (err = 0)\<close> assigns: the test for a missing disk never succeeds.\<close>

definition identify_disk :: "'h ports \<Rightarrow> nat \<Rightarrow> 'h disk_sys \<Rightarrow> (int \<times> 'h disk_sys) option" where
  "identify_disk io i s =
    (let d = disk_buf s ! i;
         s = disk_send_cmd io d 0 0 DISK_CMD_IDENTIFY s;
         (_, s) = inb io (DISK_STATUS d) s
     in do {
       (err, s) \<leftarrow> disk_wait_data io d s;
       if err < 0 then Some (err, s)
       else case read_words io d 256 s of (ws, s) \<Rightarrow> do {
         let cnt = sint (le32 (concat (map word_bytes ws)) 200);
         let s = upd_disk i (\<lambda>d. d\<lparr>sector_count := cnt, sector_size := 512\<rparr>) s;
         name \<leftarrow> part_name (dname d) 0;
         let s = upd_disk i (upd_part 0 (\<lambda>p. p\<lparr>pdisk := Some i, pname := name, pstart := 0,
                   ptotal := cnt, ptype := FS_INVALID\<rparr>)) s;
         s \<leftarrow> detect_part_info io i s;
         Some (0, s)
       }
     })"

primrec init_disks :: "'h ports \<Rightarrow> nat list \<Rightarrow> 'h disk_sys \<Rightarrow> 'h disk_sys option" where
  "init_disks io [] s = Some s"
| "init_disks io (i # is) s =
    do {
      name \<leftarrow> kernel_vsprintf NORMAL (map of_char ''sd%c'') [Arg_int (int i + 97)];
      let s = upd_disk i (\<lambda>d. d\<lparr>dname := name, drive := (if i = 0 then DISK_MASTER else DISK_SLAVE),
                port_base := IOBASE_PRIMARY, sync_set := True\<rparr>) s;
      (_, s) \<leftarrow> identify_disk io i s;
      init_disks io is s
    }"

definition disk_init :: "'h ports \<Rightarrow> 'h disk_sys \<Rightarrow> 'h disk_sys option" where
  "disk_init io s =
    (let s = s\<lparr>disk_mutex := mutex_init (disk_mutex s), op_sem := sem_init (op_sem s) 0,
               disk_buf := replicate DISK_CNT zero_disk\<rparr>
     in init_disks io [0..<DISK_PER_CHANNEL] s)"

section \<open>The device calls\<close>

definition part_ptr :: "nat \<Rightarrow> nat \<Rightarrow> u32" where
  "part_ptr i j = of_nat (DISK_PRIMARY_PART_CNT * i + j + 1)"

definition part_at :: "u32 \<Rightarrow> (nat \<times> nat) option" where
  "part_at p =
    (if 0 < unat p \<and> unat p \<le> DISK_PRIMARY_PART_CNT * DISK_CNT
     then Some ((unat p - 1) div DISK_PRIMARY_PART_CNT, (unat p - 1) mod DISK_PRIMARY_PART_CNT) else None)"

text \<open>\<open>ide_entry\<close> is the address of \<^verbatim>\<open>exception_handler_ide_primary\<close>.\<close>

definition disk_open ::
    "'h ports \<Rightarrow> u32 \<Rightarrow> device_t \<Rightarrow> 'h disk_sys \<Rightarrow> (int \<times> device_t \<times> 'h disk_sys) option" where
  "disk_open io ide_entry dev s =
    (let disk_idx = dminor dev div 16 - 0xA; part_idx = dminor dev mod 16
     in if disk_idx \<ge> int DISK_CNT \<or> part_idx \<ge> int DISK_PRIMARY_PART_CNT then Some (- 1, dev, s)
        else if disk_idx < 0 then None
        else let i = nat disk_idx; j = nat part_idx; d = disk_buf s ! i
          in if sector_size d = 0 then Some (- 1, dev, s)
             else if ptotal (partinfo d ! j) = 0 then Some (- 1, dev, s)
             else do {
               let dev = dev\<lparr>ddata := part_ptr i j\<rparr>;
               (_, s) \<leftarrow> irq_install IRQ14_HARDDISK_PRIMARY ide_entry s;
               Some (0, dev, irq_enable io IRQ14_HARDDISK_PRIMARY s)
             })"

definition lock_disk :: "'h disk_sys resume \<Rightarrow> disk_t \<Rightarrow> 'h disk_sys \<Rightarrow> 'h disk_sys option" where
  "lock_disk resume d s =
    (if \<not> sync_set d then None
     else do {
       (m, s') \<leftarrow> mutex_lock (disk_mutex s) s;
       resumed resume (curr_task s) (s'\<lparr>disk_mutex := m\<rparr>)
     })"

definition unlock_disk :: "'h disk_sys resume \<Rightarrow> disk_t \<Rightarrow> 'h disk_sys \<Rightarrow> 'h disk_sys option" where
  "unlock_disk resume d s =
    do {
      (m, s') \<leftarrow> mutex_unlock (disk_mutex s) s;
      resumed resume (curr_task s) (s'\<lparr>disk_mutex := m\<rparr>)
    }"

definition wait_op ::
    "('h disk_sys \<Rightarrow> 'h disk_sys option) \<Rightarrow> 'h disk_sys resume \<Rightarrow> 'h disk_sys \<Rightarrow> 'h disk_sys option" where
  "wait_op intr resume s =
    (if task_current s \<noteq> None
     then do {
       s \<leftarrow> intr s;
       (m, s') \<leftarrow> sem_wait (op_sem s) s;
       resumed resume (curr_task s) (s'\<lparr>op_sem := m\<rparr>)
     }
     else Some s)"

primrec read_sectors ::
    "'h ports \<Rightarrow> ('h disk_sys \<Rightarrow> 'h disk_sys option) \<Rightarrow> 'h disk_sys resume \<Rightarrow> disk_t \<Rightarrow> nat \<Rightarrow> int \<Rightarrow> u32
     \<Rightarrow> 'h disk_sys \<Rightarrow> (int \<times> 'h disk_sys) option" where
  "read_sectors io intr resume d 0 cnt buf s = Some (cnt, s)"
| "read_sectors io intr resume d (Suc n) cnt buf s =
    do {
      s \<leftarrow> wait_op intr resume s;
      (err, s) \<leftarrow> disk_wait_data io d s;
      if err < 0 then Some (cnt, s)
      else read_sectors io intr resume d n (cnt + 1) (buf + word_of_int (sector_size d))
             (disk_read_datas io d buf (sector_size d) s)
    }"

definition disk_read ::
    "'h ports \<Rightarrow> ('h disk_sys \<Rightarrow> 'h disk_sys option) \<Rightarrow> 'h disk_sys resume \<Rightarrow>
     device_t \<Rightarrow> int \<Rightarrow> u32 \<Rightarrow> int \<Rightarrow> 'h disk_sys \<Rightarrow> (int \<times> 'h disk_sys) option" where
  "disk_read io intr resume dev addr buf n s =
    do {
      (i, j) \<leftarrow> part_at (ddata dev);
      let p = partinfo (disk_buf s ! i) ! j;
      case pdisk p of None \<Rightarrow> Some (- 1, s)
      | Some k \<Rightarrow> do {
          let d = disk_buf s ! k;
          s \<leftarrow> lock_disk resume d s;
          let s = disk_send_cmd io d (word_of_int (pstart p + addr)) (word_of_int n) DISK_CMD_READ (s\<lparr>task_on_op := 1\<rparr>);
          (cnt, s) \<leftarrow> read_sectors io intr resume d (nat n) 0 buf s;
          s \<leftarrow> unlock_disk resume d s;
          Some (cnt, s)
        }
    }"

primrec write_sectors ::
    "'h ports \<Rightarrow> ('h disk_sys \<Rightarrow> 'h disk_sys option) \<Rightarrow> 'h disk_sys resume \<Rightarrow> disk_t \<Rightarrow> nat \<Rightarrow> int \<Rightarrow> u32
     \<Rightarrow> 'h disk_sys \<Rightarrow> (int \<times> 'h disk_sys) option" where
  "write_sectors io intr resume d 0 cnt buf s = Some (cnt, s)"
| "write_sectors io intr resume d (Suc n) cnt buf s =
    do {
      let s = disk_write_datas io d buf (sector_size d) s;
      s \<leftarrow> wait_op intr resume s;
      (err, s) \<leftarrow> disk_wait_data io d s;
      if err < 0 then Some (cnt, s)
      else write_sectors io intr resume d n (cnt + 1) (buf + word_of_int (sector_size d)) s
    }"

text \<open>Unlike reading, writing checks the pointer to the partition.\<close>

definition disk_write ::
    "'h ports \<Rightarrow> ('h disk_sys \<Rightarrow> 'h disk_sys option) \<Rightarrow> 'h disk_sys resume \<Rightarrow>
     device_t \<Rightarrow> int \<Rightarrow> u32 \<Rightarrow> int \<Rightarrow> 'h disk_sys \<Rightarrow> (int \<times> 'h disk_sys) option" where
  "disk_write io intr resume dev addr buf n s =
    (if ddata dev = 0 then Some (- 1, s)
     else do {
       (i, j) \<leftarrow> part_at (ddata dev);
       let p = partinfo (disk_buf s ! i) ! j;
       case pdisk p of None \<Rightarrow> Some (- 1, s)
       | Some k \<Rightarrow> do {
           let d = disk_buf s ! k;
           s \<leftarrow> lock_disk resume d s;
           let s = disk_send_cmd io d (word_of_int (pstart p + addr)) (word_of_int n) DISK_CMD_WRITE (s\<lparr>task_on_op := 1\<rparr>);
           (cnt, s) \<leftarrow> write_sectors io intr resume d (nat n) 0 buf s;
           s \<leftarrow> unlock_disk resume d s;
           Some (cnt, s)
         }
     })"

definition disk_control :: "device_t \<Rightarrow> int \<Rightarrow> int \<Rightarrow> int \<Rightarrow> 'h disk_sys \<Rightarrow> (int \<times> 'h disk_sys) option" where
  "disk_control dev cmd arg0 arg1 s = Some (- 1, s)"

definition disk_close :: "device_t \<Rightarrow> 'h disk_sys \<Rightarrow> 'h disk_sys option" where
  "disk_close dev s = Some s"

definition do_handle_ide_primary :: "'h ports \<Rightarrow> 'h disk_sys \<Rightarrow> 'h disk_sys option" where
  "do_handle_ide_primary io s =
    (let s = pic_send_eoi io IRQ14_HARDDISK_PRIMARY s
     in if task_on_op s = 1
        then do { (m, s) \<leftarrow> sem_notify (op_sem s) s; Some (s\<lparr>op_sem := m\<rparr>) }
        else Some s)"

definition dev_disk_desc ::
    "'h ports \<Rightarrow> u32 \<Rightarrow> ('h disk_sys \<Rightarrow> 'h disk_sys option) \<Rightarrow> 'h disk_sys resume \<Rightarrow> 'h disk_sys dev_desc_t" where
  "dev_disk_desc io ide_entry intr resume =
    \<lparr>desc_major = DEV_DISK, d_open = disk_open io ide_entry, d_read = disk_read io intr resume,
     d_write = disk_write io intr resume, d_control = disk_control, d_close = disk_close\<rparr>"

end
