(* ===== verification/Ata.thy ===== *)
theory Ata
  imports Disk
begin

text \<open>
  What the disk driver promises the file system.  The locale \<open>ata\<close> states what reading relies on
  in an ATA drive: after the registers of a 48-bit read command it sends that many sectors, one
  word per access of the data port; its status register leaves the busy state after finitely
  many reads, with the data request set when a sector is ready; and it reports no error
  (\<open>no_error\<close>: the contract is about a drive without bad sectors).  \<open>ata_part\<close> puts the driver on
  top of such a drive with one interrupt per sector.

  Writing needs more than ATA promises.  \<^verbatim>\<open>disk_write\<close> sends the first sector without waiting for
  the data request, so it works only on a drive that takes data as soon as it has the command.
  This is the assumption \<open>takes_at_once\<close> of the locale \<open>ata_eager_part\<close>, on which the driver is a
  \<open>block_dev\<close>, as the file system needs it; nothing about reading uses it.
\<close>

section \<open>The contract of the drive\<close>

text \<open>
  A drive is idle, has \<open>n\<close> sectors from \<open>lba\<close> still to send of which \<open>k\<close> words are out, or
  has \<open>n\<close> sectors still to take from \<open>lba\<close> on, of which it holds the words \<open>ws\<close>.
\<close>

datatype ata_phase = Idle | Rd int nat nat | Wr int nat "u16 list"

definition command_writes :: "u16 \<Rightarrow> u8 \<Rightarrow> u32 \<Rightarrow> u32 \<Rightarrow> u8 \<Rightarrow> (u16 \<times> u8) list" where
  "command_writes base sel lba n cmd =
    [(base + 6, 0xE0 OR sel), (base + 2, ucast (drop_bit 8 n)), (base + 3, ucast (drop_bit 24 lba)),
     (base + 4, 0), (base + 5, 0), (base + 2, ucast n), (base + 3, ucast lba),
     (base + 4, ucast (drop_bit 8 lba)), (base + 5, ucast (drop_bit 16 lba)), (base + 7, cmd)]"

definition port_writes :: "'h ports \<Rightarrow> (u16 \<times> u8) list \<Rightarrow> 'h \<Rightarrow> 'h" where
  "port_writes io ws h = fold (\<lambda>(p, v). p_outb io p v) ws h"

locale ata =
  fixes io :: "'h ports" and base :: u16 and sel :: u8
    and phase :: "'h \<Rightarrow> ata_phase" and sects :: "'h \<Rightarrow> int \<Rightarrow> u8 list" and drq :: "'h \<Rightarrow> bool"
    and busy :: "'h \<Rightarrow> nat" and nlba :: int
  assumes small: "nlba \<le> 2 ^ 31"
    and sects_length: "length (sects h a) = 512"
    and command: "phase h = Idle \<Longrightarrow> 0 \<le> lba \<Longrightarrow> 0 < n \<Longrightarrow> lba + int n \<le> nlba \<Longrightarrow> n < 2 ^ 16 \<Longrightarrow>
      phase (port_writes io (command_writes base sel (word_of_int lba) (of_nat n) c) h)
        = (if c = DISK_CMD_READ then Rd lba n 0 else if c = DISK_CMD_WRITE then Wr lba n [] else phase h)
      \<and> sects (port_writes io (command_writes base sel (word_of_int lba) (of_nat n) c) h) = sects h"
    and poll: "p_inb io (base + 7) h = (v, h') \<Longrightarrow> phase h' = phase h \<and> sects h' = sects h
      \<and> (if v AND 0x89 = 0x80 then busy h' < busy h else drq h' \<or> (\<forall>lba n k. phase h \<noteq> Rd lba n k))"
    and no_error: "p_inb io (base + 7) h = (v, h') \<Longrightarrow> v AND 1 = 0"
    and recv: "phase h = Rd lba n k \<Longrightarrow> drq h \<Longrightarrow> k < 256 \<Longrightarrow> 0 < n \<Longrightarrow> p_inw io base h = (w, h') \<Longrightarrow>
      w = le16 (sects h lba) (2 * k) \<and> sects h' = sects h
      \<and> (if k < 255 then phase h' = Rd lba n (k + 1) \<and> drq h'
         else phase h' = (if n = 1 then Idle else Rd (lba + 1) (n - 1) 0))"
    and pic: "p = PIC0_OCW2 \<or> p = PIC1_OCW2 \<Longrightarrow>
      phase (p_outb io p v h) = phase h \<and> sects (p_outb io p v h) = sects h"

section \<open>Bytes and words\<close>

lemma concat_word_bytes_length [simp]: "length (concat (map word_bytes ws)) = 2 * length ws"
  by (induction ws) (simp_all add: word_bytes_def)

lemma word_bytes_le16: "word_bytes (le16 xs i) = [xs ! i, xs ! (i + 1)]"
proof -
  have "ucast (ucast a OR push_bit 8 (ucast b) :: u16) = (a :: u8)" for a b :: u8
    by (rule bit_word_eqI) (auto simp: bit_simps)
  moreover have "ucast (drop_bit 8 (ucast a OR push_bit 8 (ucast b) :: u16)) = (b :: u8)" for a b :: u8
    by (rule bit_word_eqI) (auto simp: bit_simps dest: bit_imp_le_length)
  ultimately show ?thesis by (simp add: word_bytes_def le16_def)
qed

lemma le16_words: "length xs = 2 * n \<Longrightarrow> concat (map (\<lambda>k. word_bytes (le16 xs (2 * k))) [0..<n]) = xs"
proof (induction n arbitrary: xs)
  case (Suc n)
  then obtain a b ys where xs: "xs = a # b # ys" "length ys = 2 * n"
    by (cases xs; cases "tl xs") auto
  have "concat (map (\<lambda>k. word_bytes (le16 xs (2 * Suc k))) [0..<n]) = ys"
    using Suc.IH[OF xs(2)] by (simp add: word_bytes_le16 xs(1))
  then show ?case
    by (simp add: upt_conv_Cons map_Suc_upt[symmetric] comp_def word_bytes_le16 xs(1) del: upt_Suc)
qed simp

lemma load16_words:
  "concat (map (\<lambda>k. word_bytes (load16 m (a + of_nat (2 * k)))) [0..<n]) = load_bytes m a (2 * n)"
proof -
  have "load16 m (a + of_nat (2 * k)) = le16 (load_bytes m a (2 * n)) (2 * k)" if "k < n" for k
    using that load16_le16[of m a "load_bytes m a (2 * n)" "2 * k"] by simp
  then have "map (\<lambda>k. word_bytes (load16 m (a + of_nat (2 * k)))) [0..<n]
    = map (\<lambda>k. word_bytes (le16 (load_bytes m a (2 * n)) (2 * k))) [0..<n]" by simp
  then show ?thesis using le16_words[of "load_bytes m a (2 * n)" n] by (simp only: load_bytes_length)
qed

lemma store_bytes_append:
  "store_bytes m a (xs @ ys) = store_bytes (store_bytes m a xs) (a + of_nat (length xs)) ys"
  by (induction xs arbitrary: m a) (simp_all add: add_ac)

section \<open>The driver on the drive\<close>

context ata
begin

definition my_disk :: "disk_t \<Rightarrow> bool" where
  "my_disk d \<longleftrightarrow> port_base d = base \<and> drive d = sel \<and> sector_size d = 512"

lemma send_cmd_writes:
  "my_disk d \<Longrightarrow> disk_send_cmd io d lba n cmd s = s\<lparr>hw := port_writes io (command_writes base sel lba n cmd) (hw s)\<rparr>"
  by (simp add: disk_send_cmd_def outb_def port_writes_def command_writes_def my_disk_def Let_def
      DISK_DRIVE_def DISK_SECTOR_COUNT_def DISK_LBA_LO_def DISK_LBA_MID_def DISK_LBA_HI_def DISK_CMD_def
      DISK_DRIVE_BASE_def)

lemma wait_data_ok:
  assumes "my_disk d"
  shows "\<exists>h'. disk_wait_data io d s = Some (0, s\<lparr>hw := h'\<rparr>) \<and> phase h' = phase (hw s)
    \<and> sects h' = sects (hw s) \<and> (drq h' \<or> (\<forall>lba n k. phase (hw s) \<noteq> Rd lba n k))"
proof (induction "busy (hw s)" arbitrary: s rule: less_induct)
  case less
  obtain v h where p: "p_inb io (base + 7) (hw s) = (v, h)" by fastforce
  note pl = poll[OF p] no_error[OF p]
  have st: "DISK_STATUS d = base + 7" using assms by (simp add: DISK_STATUS_def my_disk_def)
  note mask = DISK_STATUS_BUSY_def DISK_STATUS_DRQ_def DISK_STATUS_ERR_def
  show ?case
  proof (cases "v AND 0x89 = 0x80")
    case True
    then have "busy (hw (s\<lparr>hw := h\<rparr>)) < busy (hw s)" using pl by simp
    from less[OF this] obtain h' where "disk_wait_data io d (s\<lparr>hw := h\<rparr>) = Some (0, s\<lparr>hw := h'\<rparr>)"
      "phase h' = phase h" "sects h' = sects h" "drq h' \<or> (\<forall>lba n k. phase h \<noteq> Rd lba n k)" by auto
    moreover have "disk_wait_data io d s = disk_wait_data io d (s\<lparr>hw := h\<rparr>)"
      using True by (subst disk_wait_data.simps) (simp add: inb_def st p mask)
    ultimately show ?thesis using pl by auto
  next
    case False
    then have "disk_wait_data io d s = Some (0, s\<lparr>hw := h\<rparr>)"
      using pl by (subst disk_wait_data.simps) (simp add: inb_def st p mask)
    then show ?thesis using pl False by auto
  qed
qed

lemma read_words_ok:
  assumes "my_disk d" and "phase (hw s) = Rd lba n k" and "drq (hw s)" and "0 < n" and "k + m \<le> 256" and "0 < m"
  shows "\<exists>h'. read_words io d m s = (map (\<lambda>i. le16 (sects (hw s) lba) (2 * i)) [k..<k + m], s\<lparr>hw := h'\<rparr>)
    \<and> sects h' = sects (hw s)
    \<and> phase h' = (if k + m < 256 then Rd lba n (k + m) else if n = 1 then Idle else Rd (lba + 1) (n - 1) 0)"
  using assms(2,3,5,6)
proof (induction m arbitrary: s k)
  case (Suc m)
  obtain w h where p: "p_inw io base (hw s) = (w, h)" by fastforce
  have "k < 256" using Suc.prems by simp
  note r = recv[OF Suc.prems(1,2) this assms(4) p]
  have i: "inw io (DISK_DATA d) s = (w, s\<lparr>hw := h\<rparr>)"
    using assms(1) p by (simp add: inw_def DISK_DATA_def my_disk_def)
  show ?case
  proof (cases "m = 0")
    case True
    then have "k + Suc m < 256 \<longleftrightarrow> k < 255" by simp
    then show ?thesis using r i True by (intro exI[of _ h]) simp
  next
    case False
    then have "phase (hw (s\<lparr>hw := h\<rparr>)) = Rd lba n (k + 1)" "drq (hw (s\<lparr>hw := h\<rparr>))" using r Suc.prems by auto
    from Suc.IH[OF this] False Suc.prems(3) obtain h' where
      "read_words io d m (s\<lparr>hw := h\<rparr>) = (map (\<lambda>i. le16 (sects h lba) (2 * i)) [k + 1..<k + 1 + m], s\<lparr>hw := h'\<rparr>)"
      "sects h' = sects h"
      "phase h' = (if k + 1 + m < 256 then Rd lba n (k + 1 + m) else if n = 1 then Idle else Rd (lba + 1) (n - 1) 0)"
      by auto
    then show ?thesis using r i by (intro exI[of _ h']) (simp add: upt_conv_Cons del: upt_Suc)
  qed
next
  case 0
  then show ?case by blast
qed

text \<open>One interrupt before each wait: the semaphore is back at zero after it.\<close>

definition quiet :: "'h disk_sys \<Rightarrow> bool" where
  "quiet s \<longleftrightarrow> task_on_op s = 1 \<and> sem_value (op_sem s) = 0 \<and> dll (wait_links s) (sem_list (op_sem s)) []"

lemma quiet_hw [simp]: "quiet (s\<lparr>hw := h\<rparr>) = quiet s" "quiet (s\<lparr>mem := m\<rparr>) = quiet s"
  by (simp_all add: quiet_def)

lemma eoi_ok:
  "\<exists>h'. pic_send_eoi io n s = s\<lparr>hw := h'\<rparr> \<and> phase h' = phase (hw s) \<and> sects h' = sects (hw s)"
  using pic by (simp add: pic_send_eoi_def outb_def Let_def PIC_OCW2_EOI_def) (metis cpu.update_convs(4))

lemma wait_op_ok:
  assumes "quiet s"
  shows "\<exists>h'. wait_op (do_handle_ide_primary io) resume s = Some (s\<lparr>hw := h'\<rparr>)
    \<and> phase h' = phase (hw s) \<and> sects h' = sects (hw s)"
proof (cases "task_current s = None")
  case True
  then show ?thesis by (intro exI[of _ "hw s"]) (simp add: wait_op_def)
next
  case False
  obtain h' where h': "pic_send_eoi io IRQ14_HARDDISK_PRIMARY s = s\<lparr>hw := h'\<rparr>"
    "phase h' = phase (hw s)" "sects h' = sects (hw s)"
    using eoi_ok by blast
  let ?m = "(op_sem s)\<lparr>sem_value := 1\<rparr>"
  have "sem_notify (op_sem s) (s\<lparr>hw := h'\<rparr>) = Some (?m, s\<lparr>hw := h'\<rparr>)"
    using assms sem_notify_none[of "s\<lparr>hw := h'\<rparr>" "op_sem s"] by (simp add: quiet_def)
  then have "do_handle_ide_primary io s = Some (s\<lparr>hw := h', op_sem := ?m\<rparr>)"
    using assms h'(1) by (simp add: do_handle_ide_primary_def quiet_def)
  moreover have "?m\<lparr>sem_value := 0\<rparr> = op_sem s" using assms by (simp add: quiet_def)
  ultimately have "wait_op (do_handle_ide_primary io) resume s = Some (s\<lparr>hw := h'\<rparr>)"
    using False sem_wait_pos[of ?m "s\<lparr>hw := h', op_sem := ?m\<rparr>"]
    by (simp add: wait_op_def resumed_def)
  then show ?thesis using h' by blast
qed

definition first_phase :: "int \<Rightarrow> nat \<Rightarrow> (int \<Rightarrow> nat \<Rightarrow> ata_phase) \<Rightarrow> ata_phase" where
  "first_phase lba n P = (if n = 0 then Idle else P lba n)"

lemma upto_Cons: "[lba..lba + int (Suc n) - 1] = lba # [lba + 1..lba + 1 + int n - 1]"
  by (simp add: upto_rec1)

lemma read_sectors_ok:
  assumes d: "my_disk d"
  shows "quiet s \<Longrightarrow> phase (hw s) = first_phase lba n (\<lambda>a m. Rd a m 0) \<Longrightarrow>
    \<exists>h'. read_sectors io (do_handle_ide_primary io) resume d n c buf s
        = Some (c + int n, s\<lparr>mem := store_bytes (mem s) buf (concat (map (sects (hw s)) [lba..lba + int n - 1])), hw := h'\<rparr>)
      \<and> phase h' = Idle \<and> sects h' = sects (hw s)"
proof (induction n arbitrary: s lba c buf)
  case (Suc n)
  obtain h1 where 1: "wait_op (do_handle_ide_primary io) resume s = Some (s\<lparr>hw := h1\<rparr>)"
    "phase h1 = phase (hw s)" "sects h1 = sects (hw s)"
    using wait_op_ok[OF Suc.prems(1)] by blast
  have rd: "phase h1 = Rd lba (Suc n) 0" using Suc.prems(2) 1(2) by (simp add: first_phase_def)
  obtain h2 where 2: "disk_wait_data io d (s\<lparr>hw := h1\<rparr>) = Some (0, s\<lparr>hw := h2\<rparr>)" "phase h2 = phase h1"
    "sects h2 = sects h1" "drq h2"
    using wait_data_ok[OF d, of "s\<lparr>hw := h1\<rparr>"] rd by auto
  have p2: "phase (hw (s\<lparr>hw := h2\<rparr>)) = Rd lba (Suc n) 0" "drq (hw (s\<lparr>hw := h2\<rparr>))" using 2 rd by simp_all
  obtain h3 where 3: "read_words io d 256 (s\<lparr>hw := h2\<rparr>)
      = (map (\<lambda>i. le16 (sects (hw s) lba) (2 * i)) [0..<256], s\<lparr>hw := h3\<rparr>)"
    "sects h3 = sects (hw s)" "phase h3 = first_phase (lba + 1) n (\<lambda>a m. Rd a m 0)"
    using read_words_ok[OF d p2, of 256] 1(3) 2(3) by (auto simp: first_phase_def)
  let ?xs = "sects (hw s) lba"
  let ?s = "s\<lparr>mem := store_bytes (mem s) buf ?xs, hw := h3\<rparr>"
  have bytes: "concat (map (word_bytes \<circ> (\<lambda>i. le16 ?xs (2 * i))) [0..<256]) = ?xs"
    using le16_words[of ?xs 256] sects_length by (simp add: comp_def)
  have rdat: "disk_read_datas io d buf (sector_size d) (s\<lparr>hw := h2\<rparr>) = ?s"
    using 3(1) d bytes by (simp add: disk_read_datas_def my_disk_def)
  have "quiet ?s" using Suc.prems(1) by simp
  moreover have "phase (hw ?s) = first_phase (lba + 1) n (\<lambda>a m. Rd a m 0)" using 3 by simp
  ultimately obtain h' where "read_sectors io (do_handle_ide_primary io) resume d n (c + 1) (buf + 512) ?s
      = Some (c + 1 + int n, ?s\<lparr>mem := store_bytes (mem ?s) (buf + 512)
          (concat (map (sects (hw ?s)) [lba + 1..lba + 1 + int n - 1])), hw := h'\<rparr>)"
    "phase h' = Idle" "sects h' = sects (hw ?s)"
    using Suc.IH[of ?s "lba + 1" "c + 1" "buf + 512"] by blast
  moreover have "read_sectors io (do_handle_ide_primary io) resume d (Suc n) c buf s
      = read_sectors io (do_handle_ide_primary io) resume d n (c + 1) (buf + 512) ?s"
    using 1(1) 2(1) rdat d by (simp add: my_disk_def)
  ultimately show ?case using 3(2) sects_length
    by (intro exI[of _ h']) (simp add: upto_Cons store_bytes_append add_ac del: of_nat_Suc)
next
  case 0
  then show ?case by (intro exI[of _ "hw s"]) (simp add: first_phase_def)
qed

end

section \<open>A partition is a block device\<close>

text \<open>
  \<open>part_ready\<close>: the device entry stands for partition \<open>j\<close> of disk \<open>i\<close>, the drive is idle,
  nobody holds or waits for the driver's mutex, and no completion is pending.
\<close>

locale ata_part = ata io for io :: "'h ports" +
  fixes descs :: "'h disk_sys dev_desc_t list" and dev :: int and ide_entry :: u32
    and resume :: "'h disk_sys resume" and start nsect :: int
  assumes place: "0 \<le> start" "start + nsect \<le> nlba"
begin

definition entry_ok :: "device_t \<Rightarrow> 'h disk_sys \<Rightarrow> bool" where
  "entry_ok e w \<longleftrightarrow> (\<exists>i j k. part_at (ddata e) = Some (i, j)
     \<and> pdisk (partinfo (disk_buf w ! i) ! j) = Some k \<and> pstart (partinfo (disk_buf w ! i) ! j) = start
     \<and> my_disk (disk_buf w ! k) \<and> sync_set (disk_buf w ! k))"

definition driver_idle :: "'h disk_sys \<Rightarrow> bool" where
  "driver_idle w \<longleftrightarrow> phase (hw w) = Idle \<and> mutex_free (disk_mutex w) w \<and> sem_value (op_sem w) = 0
     \<and> dll (wait_links w) (sem_list (op_sem w)) []"

definition part_ready :: "'h disk_sys fat_state \<Rightarrow> bool" where
  "part_ready s \<longleftrightarrow> \<not> is_devid_bad dev s
     \<and> dev_desc descs (dev_tbl s ! nat dev) = dev_disk_desc io ide_entry (do_handle_ide_primary io) resume
     \<and> entry_ok (dev_tbl s ! nat dev) (drv s) \<and> driver_idle (drv s)"

definition part_sect :: "'h disk_sys \<Rightarrow> int \<Rightarrow> u8 list" where
  "part_sect w a = sects (hw w) (start + a)"


lemma word_of_int_nat: "0 \<le> n \<Longrightarrow> (word_of_int n :: u32) = of_nat (nat n)"
  by simp

lemma lock_disk_free:
  assumes "mutex_free (disk_mutex w) w" and "sync_set d"
  shows "lock_disk resume d w = Some (w\<lparr>disk_mutex := (disk_mutex w)\<lparr>locked_count := 1, owner := curr_task w\<rparr>\<rparr>)"
  using assms mutex_lock_free[of "disk_mutex w" w] by (simp add: lock_disk_def resumed_def mutex_free_def)

lemma unlock_disk_free:
  assumes "mutex_free m w" and "disk_mutex w = m\<lparr>locked_count := 1, owner := curr_task w\<rparr>"
  shows "unlock_disk resume d w = Some (w\<lparr>disk_mutex := m\<lparr>locked_count := 0, owner := None\<rparr>\<rparr>)"
  using assms mutex_section(2)[OF assms(1), of w] by (simp add: unlock_disk_def resumed_def)

lemma upto_shift: "map f [start + a..start + a + n - 1] = map (\<lambda>i. f (start + i)) [a..a + n - 1]"
proof (rule nth_equalityI)
  fix i assume i: "i < length (map f [start + a..start + a + n - 1])"
  then have "int i < n" by auto
  then show "map f [start + a..start + a + n - 1] ! i = map (\<lambda>i. f (start + i)) [a..a + n - 1] ! i"
    using i by (simp add: nth_upto add_ac)
qed simp

text \<open>Taking the lock and sending the command.\<close>

lemma started:
  assumes w: "driver_idle w" and a: "0 \<le> a" "0 < n" "a + n \<le> nsect" "n < 2 ^ 16" and d: "my_disk d"
    and c: "c = DISK_CMD_READ \<or> c = DISK_CMD_WRITE"
  shows "\<exists>h. disk_send_cmd io d (word_of_int (start + a)) (word_of_int n) c
        (w\<lparr>disk_mutex := (disk_mutex w)\<lparr>locked_count := 1, owner := curr_task w\<rparr>, task_on_op := 1\<rparr>)
      = w\<lparr>disk_mutex := (disk_mutex w)\<lparr>locked_count := 1, owner := curr_task w\<rparr>, task_on_op := 1, hw := h\<rparr>
    \<and> sects h = sects (hw w)
    \<and> phase h = first_phase (start + a) (nat n) (\<lambda>a m. if c = DISK_CMD_READ then Rd a m 0 else Wr a m [])"
proof -
  have pre: "phase (hw w) = Idle" "0 \<le> start + a" "0 < nat n" "start + a + int (nat n) \<le> nlba" "nat n < 2 ^ 16"
    using w a place by (simp_all add: driver_idle_def)
  define h where "h = port_writes io (command_writes base sel (word_of_int (start + a)) (of_nat (nat n)) c) (hw w)"
  have "phase h = first_phase (start + a) (nat n) (\<lambda>a m. if c = DISK_CMD_READ then Rd a m 0 else Wr a m [])"
    "sects h = sects (hw w)"
    using command[OF pre, of c] pre(3) c unfolding h_def[symmetric] by (auto simp: first_phase_def)
  moreover have "disk_send_cmd io d (word_of_int (start + a)) (word_of_int n) c
        (w\<lparr>disk_mutex := (disk_mutex w)\<lparr>locked_count := 1, owner := curr_task w\<rparr>, task_on_op := 1\<rparr>)
      = w\<lparr>disk_mutex := (disk_mutex w)\<lparr>locked_count := 1, owner := curr_task w\<rparr>, task_on_op := 1, hw := h\<rparr>"
    unfolding h_def word_of_int_nat[OF less_imp_le[OF a(2)]] by (subst send_cmd_writes[OF d]) simp
  ultimately show ?thesis by (intro exI[of _ h]) simp
qed

text \<open>What is left of the driver's state after a transfer.\<close>

lemma finished:
  assumes w: "driver_idle w" and e: "entry_ok e w"
    and w2: "w2 = w\<lparr>disk_mutex := (disk_mutex w)\<lparr>locked_count := 1, owner := curr_task w\<rparr>, task_on_op := 1,
      mem := m, hw := h\<rparr>" and h: "phase h = Idle"
  shows "\<exists>w'. unlock_disk resume d w2 = Some w' \<and> entry_ok e w' \<and> driver_idle w' \<and> mem w' = m
    \<and> part_sect w' = (\<lambda>i. sects h (start + i))"
proof -
  let ?w' = "w2\<lparr>disk_mutex := (disk_mutex w)\<lparr>locked_count := 0, owner := None\<rparr>\<rparr>"
  have "mutex_free (disk_mutex w) w2" using w by (simp add: w2 driver_idle_def mutex_free_def)
  then have "unlock_disk resume d w2 = Some ?w'" by (intro unlock_disk_free) (simp_all add: w2)
  moreover have "entry_ok e ?w'" using e by (simp add: entry_ok_def w2)
  moreover have "driver_idle ?w'" using w h by (simp add: driver_idle_def mutex_free_def w2)
  ultimately show ?thesis by (intro exI[of _ ?w']) (simp add: w2 part_sect_def fun_eq_iff)
qed

lemma disk_read_ok:
  assumes e: "entry_ok e w" and w: "driver_idle w" and a: "0 \<le> a" "0 < n" "a + n \<le> nsect" "n < 2 ^ 16"
  shows "\<exists>w'. disk_read io (do_handle_ide_primary io) resume e a buf n w = Some (n, w')
    \<and> entry_ok e w' \<and> driver_idle w' \<and> part_sect w' = part_sect w
    \<and> mem w' = store_bytes (mem w) buf (concat (map (part_sect w) [a..a + n - 1]))"
proof -
  obtain i j k where p: "part_at (ddata e) = Some (i, j)" "pdisk (partinfo (disk_buf w ! i) ! j) = Some k"
    "pstart (partinfo (disk_buf w ! i) ! j) = start" "my_disk (disk_buf w ! k)" "sync_set (disk_buf w ! k)"
    using e by (auto simp: entry_ok_def)
  let ?d = "disk_buf w ! k"
  let ?w1 = "w\<lparr>disk_mutex := (disk_mutex w)\<lparr>locked_count := 1, owner := curr_task w\<rparr>, task_on_op := 1\<rparr>"
  have mf: "mutex_free (disk_mutex w) w" using w by (simp add: driver_idle_def)
  obtain h where c: "disk_send_cmd io ?d (word_of_int (start + a)) (word_of_int n) DISK_CMD_READ ?w1 = ?w1\<lparr>hw := h\<rparr>"
    "sects h = sects (hw w)" "phase h = first_phase (start + a) (nat n) (\<lambda>a m. Rd a m 0)"
    using started[OF w a p(4), of DISK_CMD_READ] by auto
  let ?w0 = "?w1\<lparr>hw := h\<rparr>"
  have q: "quiet ?w0" "phase (hw ?w0) = first_phase (start + a) (nat n) (\<lambda>a m. Rd a m 0)"
    using w c by (simp_all add: quiet_def driver_idle_def)
  obtain h' where r: "read_sectors io (do_handle_ide_primary io) resume ?d (nat n) 0 buf ?w0
      = Some (0 + int (nat n), ?w0\<lparr>mem := store_bytes (mem ?w0) buf
          (concat (map (sects (hw ?w0)) [start + a..start + a + int (nat n) - 1])), hw := h'\<rparr>)"
    "phase h' = Idle" "sects h' = sects (hw ?w0)"
    using read_sectors_ok[OF p(4) q, of resume 0 buf] by blast
  have m: "map (sects (hw ?w0)) [start + a..start + a + int (nat n) - 1] = map (part_sect w) [a..a + n - 1]"
    using c(2) a(2) by (simp add: upto_shift part_sect_def)
  let ?w2 = "?w1\<lparr>mem := store_bytes (mem w) buf (concat (map (part_sect w) [a..a + n - 1])), hw := h'\<rparr>"
  obtain w' where w': "unlock_disk resume ?d ?w2 = Some w'" "entry_ok e w'" "driver_idle w'"
    "mem w' = store_bytes (mem w) buf (concat (map (part_sect w) [a..a + n - 1]))"
    "part_sect w' = (\<lambda>i. sects h' (start + i))"
    using finished[OF w e refl r(2)] by blast
  have "disk_read io (do_handle_ide_primary io) resume e a buf n w = Some (n, w')"
    using p(1-3) lock_disk_free[OF mf p(5)] c(1) r(1)[unfolded m] w'(1) a(2) by (simp add: disk_read_def)
  then show ?thesis using w'(2-5) r(3) c(2) by (intro exI[of _ w']) (simp add: part_sect_def fun_eq_iff)
qed

end

section \<open>A drive that takes data at once\<close>

locale ata_eager_part = ata_part +
  assumes takes_at_once: "phase h = Wr lba n ws \<Longrightarrow> length ws < 256 \<Longrightarrow> 0 < n \<Longrightarrow>
      (if length ws < 255 then phase (p_outw io base w h) = Wr lba n (ws @ [w]) \<and> sects (p_outw io base w h) = sects h
       else phase (p_outw io base w h) = (if n = 1 then Idle else Wr (lba + 1) (n - 1) [])
         \<and> sects (p_outw io base w h) = (sects h)(lba := concat (map word_bytes (ws @ [w]))))"
begin

lemma write_words_ok:
  assumes "my_disk d" and "phase (hw s) = Wr lba n ws" and "0 < n" and "length ws + m = 256" and "0 < m"
  shows "\<exists>h'. write_words io d buf m s = s\<lparr>hw := h'\<rparr>
    \<and> sects h' = (sects (hw s))(lba := concat (map word_bytes (ws @ map (\<lambda>i. load16 (mem s) (buf + of_nat (2 * i))) [0..<m])))
    \<and> phase h' = (if n = 1 then Idle else Wr (lba + 1) (n - 1) [])"
  using assms(2,4,5)
proof (induction m arbitrary: s ws buf)
  case (Suc m)
  let ?w = "load16 (mem s) buf"
  let ?h = "p_outw io base ?w (hw s)"
  have l: "length ws < 256" using Suc.prems by simp
  note r = takes_at_once[OF Suc.prems(1) l assms(3), of ?w]
  have o: "outw io (DISK_DATA d) ?w s = s\<lparr>hw := ?h\<rparr>"
    using assms(1) by (simp add: outw_def DISK_DATA_def my_disk_def)
  show ?case
  proof (cases "m = 0")
    case True
    then have "\<not> length ws < 255" using Suc.prems by simp
    then show ?thesis using r o True by (intro exI[of _ ?h]) simp
  next
    case False
    then have r': "phase ?h = Wr lba n (ws @ [?w])" "sects ?h = sects (hw s)" using r Suc.prems by auto
    let ?s = "s\<lparr>hw := ?h\<rparr>"
    have p: "phase (hw ?s) = Wr lba n (ws @ [?w])" "length (ws @ [?w]) + m = 256" "0 < m"
      using r' Suc.prems(2) False by simp_all
    obtain h' where "write_words io d (buf + 2) m ?s = ?s\<lparr>hw := h'\<rparr>"
      and "sects h' = (sects (hw ?s))(lba := concat (map word_bytes ((ws @ [?w])
         @ map (\<lambda>i. load16 (mem ?s) (buf + 2 + of_nat (2 * i))) [0..<m])))"
      and "phase h' = (if n = 1 then Idle else Wr (lba + 1) (n - 1) [])"
      using Suc.IH[OF p, of "buf + 2"] by blast
    moreover have "map (\<lambda>i. load16 (mem s) (buf + of_nat (2 * i))) [0..<Suc m]
      = ?w # map (\<lambda>i. load16 (mem s) (buf + 2 + of_nat (2 * i))) [0..<m]"
      by (simp add: upt_conv_Cons map_Suc_upt[symmetric] comp_def add_ac del: upt_Suc)
    ultimately show ?thesis using o r' by (intro exI[of _ h']) (simp del: upt_Suc)
  qed
next
  case 0
  then show ?case by blast
qed

lemma write_sectors_ok:
  assumes d: "my_disk d"
  shows "quiet s \<Longrightarrow> phase (hw s) = first_phase lba n (\<lambda>a m. Wr a m []) \<Longrightarrow>
    \<exists>h'. write_sectors io (do_handle_ide_primary io) resume d n c buf s = Some (c + int n, s\<lparr>hw := h'\<rparr>)
      \<and> phase h' = Idle
      \<and> sects h' = (\<lambda>i. if lba \<le> i \<and> i < lba + int n
          then load_bytes (mem s) (buf + of_nat (512 * nat (i - lba))) 512 else sects (hw s) i)"
proof (induction n arbitrary: s lba c buf)
  case (Suc n)
  have p: "phase (hw s) = Wr lba (Suc n) []" using Suc.prems(2) by (simp add: first_phase_def)
  let ?xs = "load_bytes (mem s) buf 512"
  have bytes: "concat (map word_bytes (map (\<lambda>i. load16 (mem s) (buf + of_nat (2 * i))) [0..<256])) = ?xs"
    using load16_words[of "mem s" buf 256] by (simp add: comp_def)
  obtain h0 where 0: "write_words io d buf 256 s = s\<lparr>hw := h0\<rparr>" "sects h0 = (sects (hw s))(lba := ?xs)"
    "phase h0 = first_phase (lba + 1) n (\<lambda>a m. Wr a m [])"
    using write_words_ok[OF d p, of 256 buf] bytes by (auto simp: first_phase_def)
  have w: "disk_write_datas io d buf (sector_size d) s = s\<lparr>hw := h0\<rparr>"
    using 0(1) d by (simp add: disk_write_datas_def my_disk_def)
  have "quiet (s\<lparr>hw := h0\<rparr>)" using Suc.prems(1) by simp
  then obtain h1 where 1: "wait_op (do_handle_ide_primary io) resume (s\<lparr>hw := h0\<rparr>) = Some (s\<lparr>hw := h1\<rparr>)"
    "phase h1 = phase h0" "sects h1 = sects h0"
    using wait_op_ok by fastforce
  obtain h2 where 2: "disk_wait_data io d (s\<lparr>hw := h1\<rparr>) = Some (0, s\<lparr>hw := h2\<rparr>)" "phase h2 = phase h1"
    "sects h2 = sects h1"
    using wait_data_ok[OF d, of "s\<lparr>hw := h1\<rparr>"] by auto
  let ?s = "s\<lparr>hw := h2\<rparr>"
  have "quiet ?s" "phase (hw ?s) = first_phase (lba + 1) n (\<lambda>a m. Wr a m [])"
    using Suc.prems(1) 0(3) 1(2) 2(2) by simp_all
  from Suc.IH[OF this, of "c + 1" "buf + 512"] obtain h' where IH:
    "write_sectors io (do_handle_ide_primary io) resume d n (c + 1) (buf + 512) ?s = Some (c + 1 + int n, ?s\<lparr>hw := h'\<rparr>)"
    "phase h' = Idle"
    "sects h' = (\<lambda>i. if lba + 1 \<le> i \<and> i < lba + 1 + int n
       then load_bytes (mem ?s) (buf + 512 + of_nat (512 * nat (i - (lba + 1)))) 512 else sects (hw ?s) i)"
    by blast
  have "write_sectors io (do_handle_ide_primary io) resume d (Suc n) c buf s
      = write_sectors io (do_handle_ide_primary io) resume d n (c + 1) (buf + 512) ?s"
    using 1(1) 2(1) w d by (simp add: my_disk_def)
  moreover have "sects h' = (\<lambda>i. if lba \<le> i \<and> i < lba + int (Suc n)
       then load_bytes (mem s) (buf + of_nat (512 * nat (i - lba))) 512 else sects (hw s) i)"
  proof
    fix i
    have "buf + 512 + of_nat (512 * nat (i - (lba + 1))) = buf + of_nat (512 * nat (i - lba))" if "lba + 1 \<le> i"
    proof -
      have "nat (i - lba) = Suc (nat (i - (lba + 1)))" using that by simp
      then show ?thesis by (simp only: mult_Suc_right of_nat_add) (simp add: add_ac)
    qed
    then show "sects h' i = (if lba \<le> i \<and> i < lba + int (Suc n)
       then load_bytes (mem s) (buf + of_nat (512 * nat (i - lba))) 512 else sects (hw s) i)"
      using 0(2) 1(3) 2(3) unfolding IH(3) by auto
  qed
  ultimately show ?case using IH(1,2) by (intro exI[of _ h']) simp
next
  case 0
  then show ?case by (intro exI[of _ "hw s"]) (auto simp: first_phase_def fun_eq_iff)
qed

lemma disk_write_ok:
  assumes e: "entry_ok e w" and w: "driver_idle w" and a: "0 \<le> a" "0 < n" "a + n \<le> nsect" "n < 2 ^ 16"
  shows "\<exists>w'. disk_write io (do_handle_ide_primary io) resume e a buf n w = Some (n, w')
    \<and> entry_ok e w' \<and> driver_idle w' \<and> mem w' = mem w
    \<and> part_sect w' = (\<lambda>i. if a \<le> i \<and> i < a + n then load_bytes (mem w) (buf + of_nat (512 * nat (i - a))) 512
        else part_sect w i)"
proof -
  obtain i j k where p: "part_at (ddata e) = Some (i, j)" "pdisk (partinfo (disk_buf w ! i) ! j) = Some k"
    "pstart (partinfo (disk_buf w ! i) ! j) = start" "my_disk (disk_buf w ! k)" "sync_set (disk_buf w ! k)"
    using e by (auto simp: entry_ok_def)
  let ?d = "disk_buf w ! k"
  let ?w1 = "w\<lparr>disk_mutex := (disk_mutex w)\<lparr>locked_count := 1, owner := curr_task w\<rparr>, task_on_op := 1\<rparr>"
  have mf: "mutex_free (disk_mutex w) w" using w by (simp add: driver_idle_def)
  have "DISK_CMD_WRITE \<noteq> DISK_CMD_READ" by (simp add: DISK_CMD_READ_def DISK_CMD_WRITE_def)
  then obtain h where c: "disk_send_cmd io ?d (word_of_int (start + a)) (word_of_int n) DISK_CMD_WRITE ?w1 = ?w1\<lparr>hw := h\<rparr>"
    "sects h = sects (hw w)" "phase h = first_phase (start + a) (nat n) (\<lambda>a m. Wr a m [])"
    using started[OF w a p(4), of DISK_CMD_WRITE] by auto
  let ?w0 = "?w1\<lparr>hw := h\<rparr>"
  have q: "quiet ?w0" "phase (hw ?w0) = first_phase (start + a) (nat n) (\<lambda>a m. Wr a m [])"
    using w c by (simp_all add: quiet_def driver_idle_def)
  obtain h' where r: "write_sectors io (do_handle_ide_primary io) resume ?d (nat n) 0 buf ?w0
      = Some (0 + int (nat n), ?w0\<lparr>hw := h'\<rparr>)" "phase h' = Idle"
    "sects h' = (\<lambda>i. if start + a \<le> i \<and> i < start + a + int (nat n)
       then load_bytes (mem ?w0) (buf + of_nat (512 * nat (i - (start + a)))) 512 else sects (hw ?w0) i)"
    using write_sectors_ok[OF p(4) q, of 0 buf] by blast
  let ?w2 = "?w1\<lparr>mem := mem w, hw := h'\<rparr>"
  obtain w' where w': "unlock_disk resume ?d ?w2 = Some w'" "entry_ok e w'" "driver_idle w'"
    "mem w' = mem w" "part_sect w' = (\<lambda>i. sects h' (start + i))"
    using finished[OF w e refl r(2)] by blast
  have "?w0\<lparr>hw := h'\<rparr> = ?w2" by simp
  then have "disk_write io (do_handle_ide_primary io) resume e a buf n w = Some (n, w')"
    using p(1-3) lock_disk_free[OF mf p(5)] c(1) r(1) w'(1) a(2) by (auto simp: disk_write_def part_at_def)
  then show ?thesis using w'(2-5) r(3) c(2) a(2)
    by (intro exI[of _ w']) (simp add: part_sect_def fun_eq_iff)
qed

end

sublocale ata_eager_part \<subseteq> block_dev descs dev part_ready part_sect nsect
proof (unfold_locales, goal_cases)
  case (1 s a)
  then show ?case by (simp add: part_sect_def sects_length)
next
  case (2 s a n buf)
  let ?e = "dev_tbl s ! nat dev"
  from 2 have e: "entry_ok ?e (drv s)" "driver_idle (drv s)" by (simp_all add: part_ready_def)
  obtain w' where w': "disk_read io (do_handle_ide_primary io) resume ?e a buf n (drv s) = Some (n, w')"
    "entry_ok ?e w'" "driver_idle w'" "part_sect w' = part_sect (drv s)"
    "mem w' = store_bytes (mem (drv s)) buf (concat (map (part_sect (drv s)) [a..a + n - 1]))"
    using disk_read_ok[OF e 2(2-4)] 2(5) by force
  with 2(1) have "dev_read descs dev a buf n s = Some (n, s\<lparr>drv := w'\<rparr>)"
    by (simp add: dev_read_def part_ready_def dev_disk_desc_def)
  with 2(1) w' show ?case
    by (intro exI[of _ "s\<lparr>drv := w'\<rparr>"]) (simp add: part_ready_def fmem_def is_devid_bad_def)
next
  case (3 s a n buf)
  let ?e = "dev_tbl s ! nat dev"
  from 3 have e: "entry_ok ?e (drv s)" "driver_idle (drv s)" by (simp_all add: part_ready_def)
  obtain w' where w': "disk_write io (do_handle_ide_primary io) resume ?e a buf n (drv s) = Some (n, w')"
    "entry_ok ?e w'" "driver_idle w'" "mem w' = mem (drv s)"
    "part_sect w' = (\<lambda>i. if a \<le> i \<and> i < a + n then load_bytes (mem (drv s)) (buf + of_nat (512 * nat (i - a))) 512
        else part_sect (drv s) i)"
    using disk_write_ok[OF e 3(2-4)] 3(5) by force
  with 3(1) have "dev_write descs dev a buf n s = Some (n, s\<lparr>drv := w'\<rparr>)"
    by (simp add: dev_write_def part_ready_def dev_disk_desc_def)
  with 3(1) w' show ?case unfolding fmem_def
    by (intro exI[of _ "s\<lparr>drv := w'\<rparr>"]) (simp add: part_ready_def is_devid_bad_def)
next
  case (4 m s)
  then show ?case
    by (simp add: part_ready_def set_fmem_def is_devid_bad_def entry_ok_def driver_idle_def mutex_free_def)
next
  case (5 m s)
  then show ?case by (simp add: part_sect_def set_fmem_def fun_eq_iff)
next
  case (6 k f s)
  then show ?case by (simp add: part_ready_def upd_fat_def is_devid_bad_def)
qed

end
