(* ===== verification/Fatfile.thy ===== *)
theory Fatfile
  imports Fatvol
begin

text \<open>
  Reading a file: the bytes of its clusters, in chain order, from the current position on.
\<close>

section \<open>Clusters of the data area\<close>

definition data_sector :: "fat_t \<Rightarrow> u16 \<Rightarrow> int" where
  "data_sector f c = uint (data_start f) + (uint c - 2) * uint (sec_per_cluster f)"

definition in_data :: "fat_t \<Rightarrow> int \<Rightarrow> u16 \<Rightarrow> bool" where
  "in_data f nsect c \<longleftrightarrow> 2 \<le> uint c \<and> data_sector f c + uint (sec_per_cluster f) \<le> nsect"

definition cluster_bytes :: "fat_t \<Rightarrow> nat" where
  "cluster_bytes f = 512 * unat (sec_per_cluster f)"

lemma cur_only_data:
  assumes "cur_only k s s'"
  shows "data_sector (fats s' k) = data_sector (fats s k)" "in_data (fats s' k) = in_data (fats s k)"
    "cluster_bytes (fats s' k) = cluster_bytes (fats s k)"
  using cur_only_fat[OF assms] by (auto simp: data_sector_def in_data_def cluster_bytes_def fun_eq_iff)

lemma cluster_bytes_ok:
  assumes "fat_geom f nsect"
  shows "cluster_byte_size f = of_nat (cluster_bytes f)" "0 < cluster_bytes f" "cluster_bytes f \<le> 4096"
    "sint (sec_per_cluster f) = uint (sec_per_cluster f)" "0 < uint (sec_per_cluster f)"
    "uint (sec_per_cluster f) \<le> 8"
proof -
  have u: "0 < uint (sec_per_cluster f)" "uint (sec_per_cluster f) \<le> 8"
    using assms by (simp_all add: fat_geom_def)
  then show "0 < uint (sec_per_cluster f)" "uint (sec_per_cluster f) \<le> 8" by auto
  have "0 < unat (sec_per_cluster f)" "unat (sec_per_cluster f) \<le> 8"
    using u unfolding unat_eq_nat_uint by linarith+
  then show "0 < cluster_bytes f" "cluster_bytes f \<le> 4096" by (simp_all add: cluster_bytes_def)
  show "cluster_byte_size f = of_nat (cluster_bytes f)"
    using assms by (simp add: fat_geom_def cluster_bytes_def mult.commute)
  show "sint (sec_per_cluster f) = uint (sec_per_cluster f)"
    using u by (simp add: sint_uint signed_take_bit_int_eq_self)
qed

lemma sint_cluster_sector:
  assumes "fat_geom f nsect" and "in_data f nsect c"
  shows "sint (cluster_sector f (uint c)) = data_sector f c" "0 \<le> data_sector f c"
    "data_sector f c + uint (sec_per_cluster f) \<le> nsect"
proof -
  define x where "x = (uint c - 2) * uint (sec_per_cluster f)"
  have x: "0 \<le> x" using assms(2) by (simp add: x_def in_data_def)
  have e: "data_sector f c + uint (sec_per_cluster f) \<le> nsect" "nsect < 2 ^ 31" "0 < uint (sec_per_cluster f)"
    using assms by (simp_all add: in_data_def fat_geom_def)
  have d: "data_sector f c = uint (data_start f) + x" by (simp add: data_sector_def x_def)
  show "0 \<le> data_sector f c" using x d by simp
  show "data_sector f c + uint (sec_per_cluster f) \<le> nsect" using e(1) by simp
  have "cluster_sector f (uint c) = word_of_int (data_sector f c)"
    by (simp add: cluster_sector_def data_sector_def)
  moreover have "- (2 ^ 31) \<le> data_sector f c" "data_sector f c < 2 ^ 31"
    using e \<open>0 \<le> data_sector f c\<close> by linarith+
  ultimately show "sint (cluster_sector f (uint c)) = data_sector f c"
    using to_int32_id[of "data_sector f c"] by (simp add: to_int32_def)
qed

context block_dev
begin

definition clus :: "nat \<Rightarrow> 'm fat_sys \<Rightarrow> u16 \<Rightarrow> u8 list" where
  "clus k s c = concat (map (sect (drv s))
     [data_sector (fats s k) c..data_sector (fats s k) c + uint (sec_per_cluster (fats s k)) - 1])"

lemma concat_sectors_length:
  "ready s \<Longrightarrow> length (concat (map (sect (drv s)) [a..a + int n - 1])) = 512 * n"
proof (induction n)
  case (Suc n)
  have "[a..a + int (Suc n) - 1] = [a..a + int n - 1] @ [a + int n]"
    using upto_rec2[of a "a + int n"] by simp
  then show ?case using Suc sect_length by simp
qed simp

lemma clus_length: "ready s \<Longrightarrow> length (clus k s c) = cluster_bytes (fats s k)"
  using concat_sectors_length[of s "data_sector (fats s k) c" "unat (sec_per_cluster (fats s k))"]
  by (simp add: clus_def cluster_bytes_def)

lemma clus_same: "cur_only k s s' \<Longrightarrow> sect (drv s') = sect (drv s) \<Longrightarrow> clus k s' = clus k s"
  using cur_only_data(1)[of k s s'] cur_only_fat(9)[of k s s'] by (intro ext) (simp add: clus_def)

text \<open>Reading one cluster to an address.\<close>

lemma read_cluster:
  assumes r: "ready s" "fat_fs_dev f = dev" "fat_geom f nsect" and d: "in_data f nsect c"
    and f: "data_sector (fats s k) = data_sector f" "sec_per_cluster (fats s k) = sec_per_cluster f"
  shows "\<exists>s'. dev_read descs (fat_fs_dev f) (sint (cluster_sector f (uint c))) b (sint (sec_per_cluster f)) s
      = Some (uint (sec_per_cluster f), s') \<and> ready s' \<and> fats s' = fats s
    \<and> sect (drv s') = sect (drv s) \<and> fmem s' = store_bytes (fmem s) b (clus k s c)"
  using read_ok[OF r(1) sint_cluster_sector(2)[OF r(3) d] _ sint_cluster_sector(3)[OF r(3) d], of b]
    cluster_bytes_ok(4,5,6)[OF r(3)] sint_cluster_sector(1)[OF r(3) d]
  by (simp add: clus_def r(2) f)

text \<open>Advancing in a file without extending it: at the end of a cluster follow the chain.\<close>

lemma word_pos: "p < 2 ^ 32 \<Longrightarrow> b < 2 ^ 32 \<Longrightarrow> 0 < b
    \<Longrightarrow> u_div_mod (word_of_int (int p)) (of_nat b) = Some (of_nat (p div b), of_nat (p mod b))"
  using of_nat_div32[of p b] of_nat_mod32[of p b] unat_of_nat32[of b]
  by (auto simp: u_div_mod_def simp flip: unat_0)

lemma move_file_pos_ok:
  assumes ok: "vol_ok k s" and fl: "fpos fl = int p" "cblk fl = uint c"
    and w: "w \<le> cluster_bytes (fats s k)" and small: "p + w < 2 ^ 31"
  defines "c' \<equiv> if cluster_bytes (fats s k) \<le> p mod cluster_bytes (fats s k) + w
    then (if cluster_is_valid c then entries k s (unat c) else FAT_CLUSTER_INVALID) else c"
  shows "\<exists>s'. move_file_pos descs fl k (of_nat w) False s
      = Some (0, fl\<lparr>fpos := int (p + w), cblk := uint c'\<rparr>, s')
    \<and> table_change k s s' \<and> entries k s' = entries k s \<and> sect (drv s') = sect (drv s)"
proof -
  let ?b = "cluster_bytes (fats s k)"
  have g: "fat_geom (fats s k) nsect" using ok by (simp add: vol_ok_def)
  note b = cluster_bytes_ok[OF g]
  have m: "p mod ?b < ?b" using b(2) by simp
  have d: "u_div_mod (word_of_int (int p)) (cluster_byte_size (fats s k)) = Some (of_nat (p div ?b), of_nat (p mod ?b))"
    unfolding b(1) by (rule word_pos) (use small b in simp_all)
  have le: "cluster_byte_size (fats s k) \<le> of_nat (p mod ?b) + of_nat w \<longleftrightarrow> ?b \<le> p mod ?b + w"
    unfolding b(1) of_nat_add[symmetric] by (rule of_nat_le32) (use m w b(3) in auto)
  have pos: "to_int32 (int p + uint (of_nat w :: u32)) = int (p + w)"
    using small w b(3) by (simp add: unsigned_of_nat take_bit_nat_eq_self to_int32_id)
  obtain s' where s': "cluster_get_next descs k c s
      = Some (if cluster_is_valid c then entries k s (unat c) else FAT_CLUSTER_INVALID, s')"
    "table_change k s s'" "entries k s' = entries k s" "sect (drv s') = sect (drv s)"
    using cluster_get_next_ok[OF ok, of c] by auto
  have self: "fl\<lparr>fpos := int p + int w, cblk := uint c\<rparr> = fl\<lparr>fpos := int p + int w\<rparr>"
    using fl(2) by simp
  show ?thesis
  proof (cases "?b \<le> p mod ?b + w")
    case True
    then show ?thesis using s' d le pos fl
      by (intro exI[of _ s']) (simp add: move_file_pos_def c'_def)
  next
    case False
    then show ?thesis using d le pos fl table_change_refl[OF ok] self
      by (intro exI[of _ s]) (simp add: move_file_pos_def c'_def)
  qed
qed

end

text \<open>
  The memory a read may change: the page of the sector buffer and the destination.
  \<open>clear\<close>: the destination does not meet the page and does not wrap.
\<close>

definition clear :: "fat_t \<Rightarrow> u32 \<Rightarrow> nat \<Rightarrow> bool" where
  "clear f buf n \<longleftrightarrow> buf \<noteq> 0 \<and> unat buf + n \<le> 2 ^ 32
     \<and> (\<forall>i < n. 4096 \<le> unat (buf + of_nat i - fat_buffer f))"

definition outside_kept :: "fat_t \<Rightarrow> u32 \<Rightarrow> nat \<Rightarrow> memory \<Rightarrow> memory \<Rightarrow> bool" where
  "outside_kept f buf n m m' \<longleftrightarrow> (\<forall>x. 4096 \<le> unat (x - fat_buffer f) \<longrightarrow> n \<le> unat (x - buf) \<longrightarrow> m' x = m x)"

lemma clear_page:
  assumes "clear f buf n" and "unat (x - fat_buffer f) < 4096"
  shows "n \<le> unat (x - buf)"
proof (rule ccontr)
  assume "\<not> n \<le> unat (x - buf)"
  then have "4096 \<le> unat (buf + of_nat (unat (x - buf)) - fat_buffer f)"
    using assms(1) unfolding clear_def by (meson not_le)
  then show False using assms(2) by simp
qed

context block_dev
begin

text \<open>A volume whose buffer page may have changed: coherent when nothing is cached.\<close>

lemma vol_ok_kept:
  assumes "vol_ok k s" and "ready s'" and f: "fats s' = (fats s)(k := (fats s k)\<lparr>curr_sector := x\<rparr>)"
    and "x = - 1 \<or> x = curr_sector (fats s k) \<and> sect (drv s') = sect (drv s)
      \<and> (\<forall>a. unat (a - fat_buffer (fats s k)) < 4096 \<longrightarrow> fmem s' a = fmem s a)"
  shows "vol_ok k s'"
proof -
  have "cache_ok k s'" if "x \<noteq> - 1"
  proof -
    have x: "x = curr_sector (fats s k)" "sect (drv s') = sect (drv s)"
      "\<And>a. unat (a - fat_buffer (fats s k)) < 4096 \<Longrightarrow> fmem s' a = fmem s a"
      using assms(4) that by auto
    have c: "0 \<le> x" "x < nsect" "mem_has (fmem s) (fat_buffer (fats s k)) (sect (drv s) x)"
      using assms(1) that x(1) by (auto simp: vol_ok_def cache_ok_def Let_def)
    have "length (sect (drv s) x) = 512" using assms(1) by (simp add: vol_ok_def sect_length)
    then have "mem_has (fmem s') (fat_buffer (fats s k)) (sect (drv s) x)"
      using mem_has_frame[OF c(3), of "fmem s'"] x(3) by simp
    then show ?thesis using c x(2) by (simp add: cache_ok_def f)
  qed
  then have "cache_ok k s'" by (cases "x = - 1") (simp_all add: cache_ok_def f)
  then show ?thesis using assms(1,2) by (simp add: vol_ok_def f)
qed

text \<open>What one pass of the loop transfers.\<close>

definition pass_bytes :: "fat_t \<Rightarrow> nat \<Rightarrow> nat \<Rightarrow> nat" where
  "pass_bytes f off r = min r (cluster_bytes f - off)"

lemma chunk_size:
  assumes "fat_geom f nsect" and "off < cluster_bytes f" and "r < 2 ^ 31"
  shows "(if of_nat off + of_nat r > cluster_byte_size f then cluster_byte_size f - of_nat off else of_nat r :: u32)
    = of_nat (pass_bytes f off r)"
    and "(of_nat off :: u32) = 0 \<longleftrightarrow> off = 0"
    and "(of_nat r :: u32) = cluster_byte_size f \<longleftrightarrow> r = cluster_bytes f"
proof -
  note b = cluster_bytes_ok[OF assms(1)]
  have o: "off < 2 ^ 32" using assms(2) b(3) by simp
  have gt: "(of_nat off + of_nat r > (of_nat (cluster_bytes f) :: u32)) = (cluster_bytes f < off + r)"
    unfolding of_nat_add[symmetric] using of_nat_le32[of "off + r" "cluster_bytes f"] assms(2,3) b(3)
    by (simp add: not_le[symmetric])
  have sub: "(of_nat (cluster_bytes f) :: u32) - of_nat off = of_nat (cluster_bytes f - off)"
    using assms(2) by (simp add: of_nat_diff)
  have "min r (cluster_bytes f - off) = (if cluster_bytes f < off + r then cluster_bytes f - off else r)"
    by auto
  then show "(if of_nat off + of_nat r > cluster_byte_size f then cluster_byte_size f - of_nat off else of_nat r :: u32)
    = of_nat (pass_bytes f off r)"
    unfolding b(1) pass_bytes_def gt sub by presburger
  show "(of_nat off :: u32) = 0 \<longleftrightarrow> off = 0"
    using of_nat_le32[OF o, of 0] by simp
  have "unat (of_nat r :: u32) = r" "unat (of_nat (cluster_bytes f) :: u32) = cluster_bytes f"
    using assms(3) b(3) by (simp_all add: unat_of_nat32)
  then show "(of_nat r :: u32) = cluster_byte_size f \<longleftrightarrow> r = cluster_bytes f"
    unfolding b(1) by metis
qed

lemma read_chunk_ok:
  assumes ok: "vol_ok k s" and d: "in_data (fats s k) nsect c" and off: "off < cluster_bytes (fats s k)"
    and r: "0 < r" "r < 2 ^ 31" and cl: "clear (fats s k) buf r"
  defines "w \<equiv> pass_bytes (fats s k) off r"
  shows "\<exists>e s'. read_chunk descs k buf (of_nat r) (of_nat off) (sint (cluster_sector (fats s k) (uint c))) s
      = Some (e, of_nat w, s') \<and> 0 \<le> e \<and> vol_ok k s' \<and> cur_only k s s'
        \<and> sect (drv s') = sect (drv s) \<and> outside_kept (fats s k) buf w (fmem s) (fmem s')
        \<and> mem_has (fmem s') buf (take w (drop off (clus k s c)))"
proof -
  let ?f = "fats s k"
  have g: "ready s" "fat_fs_dev ?f = dev" "fat_geom ?f nsect" using ok by (simp_all add: vol_ok_def)
  note sz = chunk_size[OF g(3) off r(2)] and b = cluster_bytes_ok[OF g(3)]
  have len: "length (clus k s c) = cluster_bytes ?f" by (rule clus_length[OF g(1)])
  show ?thesis
  proof (cases "off = 0 \<and> r = cluster_bytes ?f")
    case True
    then have w: "w = r" "w = cluster_bytes ?f" by (simp_all add: w_def pass_bytes_def)
    obtain s' where s': "dev_read descs (fat_fs_dev ?f) (sint (cluster_sector ?f (uint c))) buf
        (sint (sec_per_cluster ?f)) s = Some (uint (sec_per_cluster ?f), s')" "ready s'" "fats s' = fats s"
      "sect (drv s') = sect (drv s)" "fmem s' = store_bytes (fmem s) buf (clus k s c)"
      using read_cluster[OF g d refl refl] by blast
    have out: "fmem s' x = fmem s x" if "w \<le> unat (x - buf)" for x
      using that len w b(3) by (simp add: s'(5) store_bytes_ok)
    have "vol_ok k s'"
      by (rule vol_ok_kept[OF ok s'(2), of "curr_sector ?f"])
        (use s' out clear_page[OF cl] w(1) in auto)
    moreover have "mem_has (fmem s') buf (clus k s c)" using len b(3) by (simp add: s'(5) mem_has_store)
    ultimately show ?thesis using s'(1,3,4) True out w len sz(3) b(1)
      by (intro exI[of _ "uint (sec_per_cluster ?f)"] exI[of _ s'])
        (auto simp: read_chunk_def outside_kept_def cur_only_def intro!: exI[of _ "curr_sector ?f"])
  next
    case False
    let ?s = "drop_cache k s"
    have sf: "fats ?s = (fats s)(k := ?f\<lparr>curr_sector := - 1\<rparr>)" "fmem ?s = fmem s" "drv ?s = drv s" "ready ?s"
      using g(1) by (simp_all add: drop_cache_def ready_fat)
    have df: "data_sector (fats ?s k) = data_sector ?f" "sec_per_cluster (fats ?s k) = sec_per_cluster ?f"
      by (simp_all add: sf(1) data_sector_def fun_eq_iff)
    have cs: "clus k ?s c = clus k s c" by (simp add: clus_def df sf(3))
    obtain s1 where s1: "dev_read descs (fat_fs_dev ?f) (sint (cluster_sector ?f (uint c))) (fat_buffer ?f)
        (sint (sec_per_cluster ?f)) ?s = Some (uint (sec_per_cluster ?f), s1)" "ready s1" "fats s1 = fats ?s"
      "sect (drv s1) = sect (drv s)" "fmem s1 = store_bytes (fmem s) (fat_buffer ?f) (clus k s c)"
      using read_cluster[OF sf(4) g(2,3) d df, of "fat_buffer ?f"] unfolding sf(2,3) cs by blast
    have w: "w \<le> r" "off + w \<le> cluster_bytes ?f" "w < 2 ^ 32" "0 < w"
      using off r by (auto simp: w_def pass_bytes_def)
    let ?src = "fat_buffer ?f + of_nat off"
    let ?m = "kernel_memcpy buf ?src w (fmem s1)"
    let ?s' = "set_fmem ?m s1"
    have fb: "fat_buffer ?f \<noteq> 0" "unat (fat_buffer ?f) + 4096 \<le> 2 ^ 32" using g(3) by (simp_all add: fat_geom_def)
    have "unat (of_nat off :: u32) = off" using off b(3) by (simp add: unat_of_nat32)
    then have "unat ?src = unat (fat_buffer ?f) + off"
      using fb(2) off b(3) by (subst unat_add_lem[THEN iffD1]) simp_all
    moreover have "0 < unat (fat_buffer ?f)" using fb(1) by (simp add: unat_gt_0)
    ultimately have src: "?src \<noteq> 0" by auto
    have in_page: "unat (?src + of_nat i - fat_buffer ?f) = off + i" if "i < w" for i
      using that w(2) b(3) by (simp add: unat_of_nat32 flip: of_nat_add)
    have apart: "?src + of_nat i \<noteq> buf + of_nat j" if "i < w" "j < w" for i j
    proof
      assume "?src + of_nat i = buf + of_nat j"
      moreover have "4096 \<le> unat (buf + of_nat j - fat_buffer ?f)"
        using cl that(2) w(1) unfolding clear_def by (meson less_le_trans)
      ultimately have "4096 \<le> off + i" using in_page[OF that(1)] by simp
      then show False using that(1) w(2) b(3) by simp
    qed
    have m: "?m x = (if unat (x - buf) < w then fmem s1 (?src + (x - buf)) else fmem s1 x)" for x
      using copy_bytes_ok[OF apart, of w] w src cl by (simp add: kernel_memcpy_def clear_def)
    have "fmem s1 (?src + of_nat j) = take w (drop off (clus k s c)) ! j" if "j < w" for j
      using that in_page[OF that] w(2) len b(3) by (simp add: s1(5) store_bytes_ok)
    then have has: "mem_has ?m buf (take w (drop off (clus k s c)))"
      using w(2,3) len by (auto simp: mem_has_def m unat_of_nat32)
    have "fmem s1 x = fmem s x" if "4096 \<le> unat (x - fat_buffer ?f)" for x
      using that len b(3) by (simp add: s1(5) store_bytes_ok)
    then have keep: "outside_kept ?f buf w (fmem s) ?m" by (simp add: outside_kept_def m)
    have "vol_ok k ?s'" by (rule vol_ok_kept[OF ok, of _ "- 1"]) (use s1(2,3) sf(1) in \<open>simp_all add: ready_mem\<close>)
    moreover have "read_chunk descs k buf (of_nat r) (of_nat off) (sint (cluster_sector ?f (uint c))) s
        = Some (uint (sec_per_cluster ?f), of_nat w, ?s')"
      using False sz s1(1) w(3) by (auto simp: read_chunk_def Let_def w_def[symmetric] unat_of_nat32)
    moreover have "fats ?s' = (fats s)(k := ?f\<lparr>curr_sector := - 1\<rparr>)" using s1(3) sf(1) by simp
    moreover have "sect (drv ?s') = sect (drv s)" using s1(4) by (simp add: ready_mem)
    ultimately show ?thesis using has keep
      by (intro exI[of _ "uint (sec_per_cluster ?f)"] exI[of _ ?s']) (auto simp: cur_only_def intro!: exI[of _ "- 1"])
  qed
qed

text \<open>Two stretches of a destination, one after the other.\<close>

lemma clear_rest:
  assumes "clear f buf r" and "w < r"
  shows "clear f (buf + of_nat w) (r - w)"
proof -
  have b: "buf \<noteq> 0" "unat buf + r \<le> 2 ^ 32" using assms(1) by (simp_all add: clear_def)
  have u: "unat (buf + of_nat w) = unat buf + w"
    using b(2) assms(2) unat_of_nat32[of w] by (subst unat_add_lem[THEN iffD1]) simp_all
  moreover have "0 < unat buf" using b(1) by (simp add: unat_gt_0)
  ultimately have "buf + of_nat w \<noteq> 0" by auto
  moreover have "4096 \<le> unat (buf + of_nat w + of_nat i - fat_buffer f)" if "i < r - w" for i
    using assms(1) that by (auto simp: clear_def add.assoc simp flip: of_nat_add)
  ultimately show ?thesis using b(2) assms(2) by (simp add: clear_def u)
qed

lemma outside_kept_trans:
  assumes "outside_kept f buf w m m1" and "\<And>x. 4096 \<le> unat (x - fat_buffer f) \<Longrightarrow> m2 x = m1 x"
    and "outside_kept f (buf + of_nat w) (r - w) m2 m3" and "w \<le> r"
  shows "outside_kept f buf r m m3"
  unfolding outside_kept_def
proof (intro allI impI)
  fix x assume x: "4096 \<le> unat (x - fat_buffer f)" "r \<le> unat (x - buf)"
  then have w: "w \<le> unat (x - buf)" using assms(4) by simp
  then have "r - w \<le> unat (x - (buf + of_nat w))" using x(2) stretch_offset[OF w] by simp
  then show "m3 x = m x" using assms(1-3) x w by (simp add: outside_kept_def)
qed

lemma mem_has_two:
  assumes has: "mem_has m1 buf xs" and len: "length xs = w" and w: "w \<le> r" and cl: "clear f buf r"
    and page: "\<And>x. 4096 \<le> unat (x - fat_buffer f) \<Longrightarrow> m2 x = m1 x"
    and k: "outside_kept f (buf + of_nat w) (r - w) m2 m3" and has2: "mem_has m3 (buf + of_nat w) ys"
  shows "mem_has m3 buf (xs @ ys)"
proof -
  have "m3 (buf + of_nat i) = xs ! i" if "i < w" for i
  proof -
    have "4096 \<le> unat (buf + of_nat i - fat_buffer f)" using cl that w by (simp add: clear_def)
    moreover have "r - w \<le> unat (buf + of_nat i - (buf + of_nat w))"
      by (rule before_stretch[OF that w]) (use cl in \<open>simp add: clear_def\<close>)
    ultimately show ?thesis using k page has len that by (simp add: outside_kept_def mem_has_def)
  qed
  then have "mem_has m3 buf xs" by (simp add: mem_has_def len)
  then show ?thesis using has2 len by (simp add: mem_has_append)
qed

text \<open>The read loop delivers the bytes of the chain from the position on.\<close>

lemma read_loop_ok:
  assumes "vol_ok k s" and "fpos fl = int p" and "cblk fl = uint c"
    and "chain (n_entries (fats s k)) (entries k s) c ds" and "\<forall>d \<in> set ds. in_data (fats s k) nsect d"
    and "p mod cluster_bytes (fats s k) + r \<le> cluster_bytes (fats s k) * length ds \<or> r = 0"
    and "p + r < 2 ^ 31" and "r = 0 \<or> clear (fats s k) buf r"
  shows "\<exists>c' s'. fatfs_read_loop descs k buf (of_nat r) t fl s
      = Some (sint (t + of_nat r), fl\<lparr>fpos := int (p + r), cblk := uint c'\<rparr>, s')
    \<and> vol_ok k s' \<and> cur_only k s s' \<and> sect (drv s') = sect (drv s) \<and> outside_kept (fats s k) buf r (fmem s) (fmem s')
    \<and> mem_has (fmem s') buf (take r (drop (p mod cluster_bytes (fats s k)) (concat (map (clus k s) ds))))
    \<and> chain (n_entries (fats s k)) (entries k s) c' (drop ((p mod cluster_bytes (fats s k) + r) div cluster_bytes (fats s k)) ds)"
  using assms
proof (induction r arbitrary: p c ds fl s buf t rule: less_induct)
  case (less r)
  let ?f = "fats s k" let ?b = "cluster_bytes (fats s k)" let ?off = "p mod cluster_bytes (fats s k)"
  have g: "ready s" "fat_geom ?f nsect" using less.prems(1) by (simp_all add: vol_ok_def)
  note b = cluster_bytes_ok[OF g(2)]
  have off: "?off < ?b" using b(2) by simp
  show ?case
  proof (cases "r = 0")
    case True
    have self: "fl\<lparr>fpos := int p, cblk := uint c\<rparr> = fl" using less.prems(2,3) by simp
    show ?thesis unfolding True using less.prems(1-4) off self
      by (subst fatfs_read_loop.simps) (auto simp: outside_kept_def mem_has_def intro!: exI[of _ c])
  next
    case False
    then obtain d ds' where ds: "ds = d # ds'" using less.prems(6) off by (cases ds) auto
    have d: "c = d" "cluster_is_valid d" "in_data ?f nsect d" "chain (n_entries ?f) (entries k s) (entries k s (unat d)) ds'"
      using less.prems(4,5) ds by auto
    have r: "0 < r" "r < 2 ^ 31" "clear ?f buf r" using False less.prems(7,8) by auto
    let ?w = "pass_bytes ?f ?off r"
    have w: "0 < ?w" "?w \<le> r" "?off + ?w \<le> ?b" "?w = r \<or> ?off + ?w = ?b" using off r(1) by (auto simp: pass_bytes_def)
    obtain e s1 where s1: "read_chunk descs k buf (of_nat r) (of_nat ?off) (sint (cluster_sector ?f (uint d))) s
        = Some (e, of_nat ?w, s1)" "0 \<le> e" "vol_ok k s1" "cur_only k s s1" "sect (drv s1) = sect (drv s)"
      "outside_kept ?f buf ?w (fmem s) (fmem s1)" "mem_has (fmem s1) buf (take ?w (drop ?off (clus k s d)))"
      using read_chunk_ok[OF less.prems(1) d(3) off r] by blast
    note e1 = entries_same[OF s1(4,5)] and b1 = cur_only_data(3)[OF s1(4)]
    let ?c' = "if ?b \<le> ?off + ?w then entries k s (unat d) else d"
    have small: "p + ?w < 2 ^ 31" "?w \<le> cluster_bytes (fats s1 k)" using less.prems(7) w(2,3) b1 by auto
    have pc: "fpos fl = int p" "cblk fl = uint d" using less.prems(2,3) d(1) by auto
    obtain s2 where s2: "move_file_pos descs fl k (of_nat ?w) False s1
        = Some (0, fl\<lparr>fpos := int (p + ?w), cblk := uint ?c'\<rparr>, s2)"
      "table_change k s1 s2" "sect (drv s2) = sect (drv s1)"
      using move_file_pos_ok[OF s1(3) pc small(2,1)] d(2) unfolding b1 e1 by auto
    have v2: "vol_ok k s2" "cur_only k s1 s2" using s2(2) by (simp_all add: table_change_def same_vol_def)
    have page: "fmem s2 x = fmem s1 x" if "4096 \<le> unat (x - fat_buffer ?f)" for x
      using s2(2) that cur_only_fat(6)[OF s1(4)] by (simp add: table_change_def same_vol_def)
    note tc = cur_only_trans[OF s1(4) v2(2)]
    have sec: "sect (drv s2) = sect (drv s)" using s1(5) s2(3) by simp
    note e2 = entries_same[OF tc sec] and c2 = clus_same[OF tc sec] and b2 = cur_only_data[OF tc] and f2 = cur_only_fat[OF tc]
    let ?ds = "if ?b \<le> ?off + ?w then ds' else ds"
    let ?fl = "fl\<lparr>fpos := int (p + ?w), cblk := uint ?c'\<rparr>"
    have pm: "(p + ?w) mod ?b = (if ?b \<le> ?off + ?w then 0 else ?off + ?w)"
    proof -
      have "(p + ?w) mod ?b = (?off + ?w) mod ?b" by (simp add: mod_add_left_eq)
      then show ?thesis using w(3) by auto
    qed
    have lenr: "(p + ?w) mod ?b + (r - ?w) \<le> ?b * length ?ds \<or> r - ?w = 0"
      using less.prems(6) False w ds pm by (auto split: if_splits)
    have cl: "r - ?w = 0 \<or> clear ?f (buf + of_nat ?w) (r - ?w)" using clear_rest[OF r(3)] w(2) by (cases "?w = r") auto
    have ch: "chain (n_entries ?f) (entries k s) ?c' ?ds" using d ds less.prems(4) by auto
    have dd: "\<forall>x \<in> set ?ds. in_data ?f nsect x" using less.prems(5) ds by auto
    have lt: "r - ?w < r" using w(1) r(1) by simp
    have small2: "p + ?w + (r - ?w) < 2 ^ 31" using less.prems(7) w(2) by simp
    have "fpos ?fl = int (p + ?w)" "cblk ?fl = uint ?c'" by simp_all
    from less.IH[OF lt v2(1) this, unfolded e2 c2 b2 f2(2), OF ch dd lenr small2, of "buf + of_nat ?w" "t + of_nat ?w"]
    obtain c' s3 where s3: "fatfs_read_loop descs k (buf + of_nat ?w) (of_nat (r - ?w)) (t + of_nat ?w) ?fl s2
        = Some (sint (t + of_nat ?w + of_nat (r - ?w)), ?fl\<lparr>fpos := int (p + ?w + (r - ?w)), cblk := uint c'\<rparr>, s3)"
      "vol_ok k s3" "cur_only k s2 s3" "sect (drv s3) = sect (drv s2)"
      "outside_kept (fats s2 k) (buf + of_nat ?w) (r - ?w) (fmem s2) (fmem s3)"
      "mem_has (fmem s3) (buf + of_nat ?w) (take (r - ?w) (drop ((p + ?w) mod ?b) (concat (map (clus k s) ?ds))))"
      "chain (n_entries ?f) (entries k s) c' (drop (((p + ?w) mod ?b + (r - ?w)) div ?b) ?ds)"
      using cl f2(6) by (auto simp: clear_def)
    have len: "length (clus k s d) = ?b" by (rule clus_length[OF g(1)])
    have bytes: "take r (drop ?off (concat (map (clus k s) ds)))
        = take ?w (drop ?off (clus k s d)) @ take (r - ?w) (drop ((p + ?w) mod ?b) (concat (map (clus k s) ?ds)))"
    proof (cases "?b \<le> ?off + ?w")
      case True
      then have "?w = ?b - ?off" using w(3) by simp
      moreover have "(p + ?w) mod ?b = 0" using True pm by simp
      ultimately show ?thesis using True off len w(2) by (simp only:) (simp add: ds)
    next
      case False
      then have "?w = r" using w(4) w(3) by auto
      then show ?thesis using False len w(3) by (simp add: ds)
    qed
    have rest: "drop (((p + ?w) mod ?b + (r - ?w)) div ?b) ?ds = drop ((?off + r) div ?b) ds"
    proof (cases "?b \<le> ?off + ?w")
      case True
      then have "?off + r = ?b + (r - ?w)" using w(2,3) by simp
      then have "(?off + r) div ?b = Suc ((r - ?w) div ?b)"
        using b(2) div_add_self1[of ?b "r - ?w"] by simp
      then show ?thesis using True by (simp add: pm ds)
    next
      case False
      then have "?w = r" using w(3,4) by auto
      then show ?thesis using False by (simp add: pm)
    qed
    have nz: "of_nat r \<noteq> (0 :: u32)" using r(1,2) of_nat_le32[of r 0] by auto
    have dm: "u_div_mod (word_of_int (int p)) (cluster_byte_size ?f) = Some (of_nat (p div ?b), of_nat ?off)"
      unfolding b(1) by (rule word_pos) (use small b in simp_all)
    have sub: "of_nat r - of_nat ?w = (of_nat (r - ?w) :: u32)" using w(2) by (simp add: of_nat_diff)
    have run: "fatfs_read_loop descs k buf (of_nat r) t fl s
        = fatfs_read_loop descs k (buf + of_nat ?w) (of_nat (r - ?w)) (t + of_nat ?w) ?fl s2"
      using s1(1,2) s2(1) nz pc dm unfolding sub[symmetric]
      by (subst fatfs_read_loop.simps) simp
    have tot: "t + of_nat ?w + of_nat (r - ?w) = t + of_nat r" using w(2) by (simp add: of_nat_diff)
    have upd: "?fl\<lparr>fpos := int (p + ?w + (r - ?w)), cblk := uint c'\<rparr> = fl\<lparr>fpos := int (p + r), cblk := uint c'\<rparr>"
      using w(2) by simp
    have kept3: "outside_kept ?f (buf + of_nat ?w) (r - ?w) (fmem s2) (fmem s3)" using s3(5) f2(6) by (simp add: outside_kept_def)
    have wl: "length (take ?w (drop ?off (clus k s d))) = ?w" using len w(3) by simp
    have has: "mem_has (fmem s3) buf (take r (drop ?off (concat (map (clus k s) ds))))"
      unfolding bytes by (rule mem_has_two[OF s1(7) wl w(2) r(3) page kept3 s3(6)])
    have kp: "outside_kept ?f buf r (fmem s) (fmem s3)" by (rule outside_kept_trans[OF s1(6) page kept3 w(2)])
    show ?thesis unfolding run s3(1) tot upd
      using s3(2,4,7) cur_only_trans[OF tc s3(3)] sec has kp unfolding rest
      by (intro exI[of _ c'] exI[of _ s3]) simp
  qed
qed

text \<open>
  \<open>file_at k s fl cs p\<close>: the open file of volume \<open>k\<close> has the clusters \<open>cs\<close> and stands at
  byte \<open>p\<close>; \<open>file_bytes\<close> are its contents.
\<close>

definition file_at :: "nat \<Rightarrow> 'm fat_sys \<Rightarrow> file_t \<Rightarrow> u16 list \<Rightarrow> nat \<Rightarrow> bool" where
  "file_at k s fl cs p \<longleftrightarrow> ffs fl = Some k \<and> fpos fl = int p \<and> p \<le> unat (fsize fl) \<and> unat (fsize fl) < 2 ^ 31
     \<and> unat (fsize fl) \<le> cluster_bytes (fats s k) * length cs
     \<and> chain (n_entries (fats s k)) (entries k s) (word_of_int (sblk fl)) cs
     \<and> (\<forall>d \<in> set cs. in_data (fats s k) nsect d)
     \<and> (\<exists>c. cblk fl = uint c \<and> chain (n_entries (fats s k)) (entries k s) c (drop (p div cluster_bytes (fats s k)) cs))"

definition file_bytes :: "nat \<Rightarrow> 'm fat_sys \<Rightarrow> file_t \<Rightarrow> u16 list \<Rightarrow> u8 list" where
  "file_bytes k s fl cs = take (unat (fsize fl)) (concat (map (clus k s) cs))"

lemma fatfs_read_ok:
  assumes ok: "vol_ok k s" and at: "file_at k s fl cs p" and n: "0 \<le> n" "n < 2 ^ 31"
  defines "m \<equiv> min (nat n) (unat (fsize fl) - p)"
  assumes cl: "m = 0 \<or> clear (fats s k) buf m"
  shows "\<exists>fl' s'. fatfs_read descs buf n fl s = Some (int m, fl', s') \<and> vol_ok k s' \<and> cur_only k s s'
    \<and> sect (drv s') = sect (drv s) \<and> outside_kept (fats s k) buf m (fmem s) (fmem s')
    \<and> mem_has (fmem s') buf (take m (drop p (file_bytes k s fl cs)))
    \<and> file_at k s' fl' cs (p + m) \<and> fsize fl' = fsize fl"
proof -
  let ?b = "cluster_bytes (fats s k)" let ?z = "unat (fsize fl)"
  have g: "ready s" "fat_geom (fats s k) nsect" using ok by (simp_all add: vol_ok_def)
  note b = cluster_bytes_ok[OF g(2)]
  have a: "ffs fl = Some k" "fpos fl = int p" "p \<le> ?z" "?z < 2 ^ 31" "?z \<le> ?b * length cs"
    "chain (n_entries (fats s k)) (entries k s) (word_of_int (sblk fl)) cs" "\<forall>d \<in> set cs. in_data (fats s k) nsect d"
    using at by (auto simp: file_at_def)
  obtain c where c: "cblk fl = uint c" "chain (n_entries (fats s k)) (entries k s) c (drop (p div ?b) cs)"
    using at by (auto simp: file_at_def)
  have dd: "\<forall>d \<in> set (drop (p div ?b) cs). in_data (fats s k) nsect d" using a(7) by (auto dest: in_set_dropD)
  have m: "m \<le> ?z - p" "p + m < 2 ^ 31" using a(3,4) by (auto simp: m_def)
  have pd: "p = ?b * (p div ?b) + p mod ?b" by simp
  have cap: "p mod ?b + m \<le> ?b * length (drop (p div ?b) cs) \<or> m = 0"
  proof -
    have "?b * (p div ?b) + (p mod ?b + m) \<le> ?b * length cs" using m a(3,5) pd by linarith
    then have "p mod ?b + m \<le> ?b * length cs - ?b * (p div ?b)" by linarith
    then show ?thesis by (simp add: diff_mult_distrib2)
  qed
  from read_loop_ok[OF ok a(2) c(1,2) dd cap m(2) cl, of 0]
  obtain c' s' where r: "fatfs_read_loop descs k buf (of_nat m) 0 fl s
      = Some (sint (0 + of_nat m :: u32), fl\<lparr>fpos := int (p + m), cblk := uint c'\<rparr>, s')" "vol_ok k s'"
    "cur_only k s s'" "sect (drv s') = sect (drv s)" "outside_kept (fats s k) buf m (fmem s) (fmem s')"
    "mem_has (fmem s') buf (take m (drop (p mod ?b) (concat (map (clus k s) (drop (p div ?b) cs)))))"
    "chain (n_entries (fats s k)) (entries k s) c' (drop ((p mod ?b + m) div ?b) (drop (p div ?b) cs))"
    by blast
  let ?fl = "fl\<lparr>fpos := int (p + m), cblk := uint c'\<rparr>"
  have nb: "(if word_of_int (fpos fl) + word_of_int n > fsize fl then fsize fl - word_of_int (fpos fl)
      else word_of_int n) = (of_nat m :: u32)"
  proof -
    have w: "word_of_int n = (of_nat (nat n) :: u32)" "word_of_int (fpos fl) = (of_nat p :: u32)"
      using n(1) a(2) by simp_all
    have f: "fsize fl = of_nat ?z" by simp
    have gt: "(of_nat p + of_nat (nat n) :: u32) > fsize fl \<longleftrightarrow> ?z < p + nat n"
      by (subst f, unfold of_nat_add[symmetric], subst not_le[symmetric], subst of_nat_le32) (use a(3,4) n(2) in auto)
    have "(of_nat ?z :: u32) - of_nat p = of_nat (?z - p)" using a(3) by (simp only: of_nat_diff)
    then have sub: "fsize fl - of_nat p = of_nat (?z - p)" using f by argo
    show ?thesis
    proof (cases "?z < p + nat n")
      case True
      then have "m = ?z - p" by (simp add: m_def)
      then show ?thesis using True gt sub unfolding w by (simp only: if_True)
    next
      case False
      then have "m = nat n" by (simp add: m_def)
      then show ?thesis using False gt unfolding w by (simp only: if_False)
    qed
  qed
  have tot: "sint (0 + of_nat m :: u32) = int m" using m(2) to_int32_id[of "int m"] by (simp add: to_int32_def)
  have run: "fatfs_read descs buf n fl s = Some (int m, ?fl, s')"
    unfolding fatfs_read_def using a(1) nb r(1) tot by (simp add: Let_def)
  have e: "drop (?b * (p div ?b)) (concat (map (clus k s) cs)) = concat (map (clus k s) (drop (p div ?b) cs))"
    by (rule drop_concat_blocks) (rule clus_length[OF g(1)])
  have "drop (p mod ?b) (drop (?b * (p div ?b)) (concat (map (clus k s) cs))) = drop p (concat (map (clus k s) cs))"
    by simp
  then have "drop (p mod ?b) (concat (map (clus k s) (drop (p div ?b) cs))) = drop p (concat (map (clus k s) cs))"
    unfolding e .
  then have bytes: "mem_has (fmem s') buf (take m (drop p (file_bytes k s fl cs)))"
    using r(6) m(1) by (simp add: file_bytes_def drop_take min_def)
  have "?b \<noteq> 0" using b(2) by simp
  moreover have "(p mod ?b + m) + ?b * (p div ?b) = p + m" by simp
  ultimately have "(p mod ?b + m) div ?b + p div ?b = (p + m) div ?b"
    using div_mult_self2[of ?b "p mod ?b + m" "p div ?b"] by (simp add: add.commute)
  then have ch: "chain (n_entries (fats s k)) (entries k s) c' (drop ((p + m) div ?b) cs)"
    using r(7) by (simp add: add.commute)
  have "file_at k s' ?fl cs (p + m)"
    unfolding file_at_def cur_only_fat[OF r(3)] cur_only_data[OF r(3)] entries_same[OF r(3,4)]
    using a c ch m by auto
  then show ?thesis using run r(2-5) bytes by auto
qed

end

end
