(* ===== verification/Fatdir.thy ===== *)
theory Fatdir
  imports Fatfile
begin

text \<open>
  The root directory of a volume as a function from indices to items of 32 bytes: what open,
  readdir and unlink find, and the 8.3 names.
\<close>

section \<open>Items\<close>

text \<open>What the scan of \<^verbatim>\<open>fatfs_open\<close> means for the items \<open>I\<close>: the item with the name, or where a new one goes.\<close>

fun dir_scan :: "(nat \<Rightarrow> u8 list) \<Rightarrow> u8 list \<Rightarrow> nat list \<Rightarrow> int \<Rightarrow> nat + int" where
  "dir_scan I sfn [] at = Inr at"
| "dir_scan I sfn (i # is) at =
    (if I i ! 0 = DIRITEM_NAME_END then Inr (int i)
     else if I i ! 0 = DIRITEM_NAME_FREE then dir_scan I sfn is (int i)
     else if take SFN_LEN (I i) = sfn then Inl i
     else dir_scan I sfn is at)"

context block_dev
begin

definition dir_item :: "nat \<Rightarrow> 'm fat_sys \<Rightarrow> nat \<Rightarrow> u8 list" where
  "dir_item k s i = take 32 (drop (32 * (i mod 16)) (sect (drv s) (uint (root_start (fats s k)) + int (i div 16))))"

lemma dir_item_length: "ready s \<Longrightarrow> length (dir_item k s i) = 32"
  using mod_less_divisor[of 16 i] by (simp add: dir_item_def sect_length)

lemma dir_item_same: "cur_only k s s' \<Longrightarrow> sect (drv s') = sect (drv s) \<Longrightarrow> dir_item k s' = dir_item k s"
  by (intro ext) (simp add: dir_item_def cur_only_fat)

lemma dir_sector:
  assumes "fat_geom f nsect" and "i < unat (root_ent_cnt f)"
  shows "sint (root_start f + of_nat (i div 16)) = uint (root_start f) + int (i div 16)"
    and "uint (root_start f) + int (i div 16) < nsect"
    and "u_div_mod (word_of_int (int i * 32)) 512 = Some (of_nat (i div 16), of_nat (32 * (i mod 16)))"
    and "\<not> root_ent_cnt f \<le> word_of_int (int i)"
proof -
  define a where "a = i div 16"
  define R where "R = uint (root_start f)"
  define E where "E = uint (root_ent_cnt f)"
  define D where "D = uint (data_start f)"
  have z: "0 \<le> R" by (simp add: R_def)
  have i: "int i < uint (root_ent_cnt f)" using assms(2) by (metis of_nat_less_iff uint_nat)
  have E: "E = 16 * (D - R)"
    using fat_geomD(9)[OF assms(1)] by (simp add: R_def E_def D_def)
  have "16 * int a \<le> int i" by (simp add: a_def)
  then have "16 * int a < 16 * (D - R)" using i E by (simp add: E_def)
  then have "int a < D - R" by simp
  moreover have "int i < E" using i by (simp add: E_def)
  moreover have "D \<le> nsect" "nsect < 2 ^ 31" using fat_geomD(2,3)[OF assms(1)] by (auto simp: D_def)
  moreover have "E < 2 ^ 16" unfolding E_def by (rule fat_geomD(10)[OF assms(1)])
  ultimately have b: "R + int a < nsect" "R + int a < 2 ^ 31" "int i < 2 ^ 16" using z by linarith+
  have "int a < 2 ^ 32" using b z by simp
  then have "uint (of_nat a :: u32) = int a" by (simp add: unsigned_of_nat take_bit_nat_eq_self)
  then have u: "uint (root_start f + of_nat a) = R + int a"
    using b z by (simp add: uint_word_ariths R_def[symmetric])
  show "sint (root_start f + of_nat (i div 16)) = uint (root_start f) + int (i div 16)"
    unfolding a_def[symmetric] sint_uint u using b z by (simp add: R_def[symmetric] signed_take_bit_int_eq_self)
  show "uint (root_start f) + int (i div 16) < nsect" using b(1) by (simp add: R_def a_def)
  have i32: "32 * i < 2 ^ 32" using b(3) by simp
  have w: "word_of_int (int i * 32) = (of_nat (32 * i) :: u32)" by (simp add: mult.commute)
  show "u_div_mod (word_of_int (int i * 32)) 512 = Some (of_nat (i div 16), of_nat (32 * (i mod 16)))"
    unfolding w u_div_mod_def using of_nat_div32[OF i32, of 512] of_nat_mod32[OF i32, of 512]
    by (simp add: mult_mod_right)
  show "\<not> root_ent_cnt f \<le> word_of_int (int i)"
    using assms(2) i32 by (simp add: word_le_nat_alt unat_of_nat32)
qed

lemma read_dir_entry_ok:
  assumes ok: "vol_ok k s" and i: "i < unat (root_ent_cnt (fats s k))"
  shows "\<exists>p s'. read_dir_entry descs k (int i) s = Some (p, s') \<and> p \<noteq> 0 \<and> vol_ok k s' \<and> same_vol k s s'
    \<and> sect (drv s') = sect (drv s) \<and> mem_has (fmem s') p (dir_item k s i)
    \<and> p = fat_buffer (fats s k) + of_nat (32 * (i mod 16))
    \<and> curr_sector (fats s' k) = uint (root_start (fats s k)) + int (i div 16)"
proof -
  let ?f = "fats s k" let ?a = "uint (root_start ?f) + int (i div 16)" let ?p = "fat_buffer ?f + of_nat (32 * (i mod 16))"
  have g: "fat_geom ?f nsect" "ready s" using ok by (simp_all add: vol_ok_def)
  note d = dir_sector[OF g(1) i]
  have "0 \<le> ?a" by simp
  from bread_sector_ok[OF ok this d(2)] obtain s' where s': "bread_sector descs k ?a s = Some (0, s')" "vol_ok k s'"
    "same_vol k s s'" "sect (drv s') = sect (drv s)" "curr_sector (fats s' k) = ?a"
    "mem_has (fmem s') (fat_buffer ?f) (sect (drv s) ?a)" by auto
  have o: "32 * (i mod 16) \<le> 480" using mod_less_divisor[of 16 i] by linarith
  have fb: "fat_buffer ?f \<noteq> 0" "unat (fat_buffer ?f) + 4096 \<le> 2 ^ 32" using g(1) by (simp_all add: fat_geom_def)
  then have "unat ?p = unat (fat_buffer ?f) + 32 * (i mod 16)"
    using o unat_of_nat32[of "32 * (i mod 16)"] by (subst unat_add_lem[THEN iffD1]) simp_all
  moreover have "0 < unat (fat_buffer ?f)" using fb(1) by (simp add: unat_gt_0)
  ultimately have p: "?p \<noteq> 0" by auto
  have "mem_has (fmem s') ?p (drop (32 * (i mod 16)) (sect (drv s) ?a))"
    by (rule mem_has_drop[OF s'(6)]) (use o sect_length[OF g(2)] in simp)
  then have "mem_has (fmem s') ?p (dir_item k s i)" unfolding dir_item_def by (rule mem_has_take)
  moreover have "read_dir_entry descs k (int i) s = Some (?p, s')"
    using d s'(1) fat_geomD(4)[OF g(1)] by (simp add: read_dir_entry_def Let_def)
  ultimately show ?thesis using p s' by blast
qed

text \<open>The scan of \<^verbatim>\<open>fatfs_open\<close> on a volume.\<close>

lemma name_match_item:
  assumes "mem_has m p item" and "length item = 32"
  shows "diritem_name_match m p path \<longleftrightarrow> take SFN_LEN item = to_sfn path" "m p = item ! 0"
proof -
  have "mem_has m p (take SFN_LEN item)" by (rule mem_has_take[OF assms(1)])
  then have "load_bytes m p SFN_LEN = take SFN_LEN item"
    using assms(2) by (simp add: mem_has_load SFN_LEN_def)
  then show "diritem_name_match m p path \<longleftrightarrow> take SFN_LEN item = to_sfn path"
    by (auto simp: diritem_name_match_def)
  show "m p = item ! 0" using mem_hasD[OF assms(1), of 0] assms(2) by simp
qed

lemma open_scan_ok:
  assumes "vol_ok k s" and "\<forall>i \<in> set is. i < unat (root_ent_cnt (fats s k))"
  shows "\<exists>r s'. open_scan descs k path is at s = Some (r, s') \<and> vol_ok k s' \<and> same_vol k s s'
    \<and> sect (drv s') = sect (drv s)
    \<and> (case dir_scan (dir_item k s) (to_sfn path) is at of
         Inl i \<Rightarrow> \<exists>p. r = Found p i \<and> mem_has (fmem s') p (dir_item k s i) | Inr at' \<Rightarrow> r = Absent at')"
  using assms
proof (induction "is" arbitrary: at s)
  case Nil
  then show ?case by simp
next
  case (Cons i "is")
  obtain p s1 where s1: "read_dir_entry descs k (int i) s = Some (p, s1)" "p \<noteq> 0" "vol_ok k s1" "same_vol k s s1"
    "sect (drv s1) = sect (drv s)" "mem_has (fmem s1) p (dir_item k s i)"
    using read_dir_entry_ok[OF Cons.prems(1), of i] Cons.prems(2) by auto
  have len: "length (dir_item k s i) = 32" using Cons.prems(1) by (simp add: vol_ok_def dir_item_length)
  note it = name_match_item[OF s1(6) len]
  have same: "dir_item k s1 = dir_item k s" by (rule dir_item_same[OF same_vol_cur[OF s1(4)] s1(5)])
  have "\<forall>i \<in> set is. i < unat (root_ent_cnt (fats s1 k))" using Cons.prems(2) same_vol_fat(7)[OF s1(4)] by simp
  note IH = Cons.IH[OF s1(3) this, unfolded same s1(5)]
  consider (stop) "dir_item k s i ! 0 = DIRITEM_NAME_END" | (free) "dir_item k s i ! 0 = DIRITEM_NAME_FREE"
      "dir_item k s i ! 0 \<noteq> DIRITEM_NAME_END"
    | (found) "dir_item k s i ! 0 \<noteq> DIRITEM_NAME_END" "dir_item k s i ! 0 \<noteq> DIRITEM_NAME_FREE"
      "take SFN_LEN (dir_item k s i) = to_sfn path"
    | (other) "dir_item k s i ! 0 \<noteq> DIRITEM_NAME_END" "dir_item k s i ! 0 \<noteq> DIRITEM_NAME_FREE"
      "take SFN_LEN (dir_item k s i) \<noteq> to_sfn path" by blast
  then show ?case
  proof cases
    case free
    then show ?thesis using IH[of "int i"] s1(1,2) it same_vol_trans[OF s1(4)] by auto
  next
    case other
    then show ?thesis using IH[of at] s1(1,2) it same_vol_trans[OF s1(4)] by auto
  qed (use s1 it in auto)
qed

text \<open>Writing an item changes exactly this item.\<close>

lemma write_dir_entry_ok:
  assumes ok: "vol_ok k s" and i: "i < unat (root_ent_cnt (fats s k))" and xs: "length xs = 32"
  shows "\<exists>s'. write_dir_entry descs k xs (int i) s = Some (0, s') \<and> vol_ok k s' \<and> same_vol k s s'
    \<and> dir_item k s' = (dir_item k s)(i := xs) \<and> entries k s' = entries k s
    \<and> (\<forall>a. a \<noteq> uint (root_start (fats s k)) + int (i div 16) \<longrightarrow> sect (drv s') a = sect (drv s) a)"
proof -
  let ?f = "fats s k" let ?a = "uint (root_start ?f) + int (i div 16)" let ?o = "32 * (i mod 16)"
  have g: "fat_geom ?f nsect" "ready s" "fat_fs_dev ?f = dev" using ok by (simp_all add: vol_ok_def)
  note d = dir_sector[OF g(1) i]
  have a0: "0 \<le> ?a" by simp
  obtain s1 where s1: "bread_sector descs k ?a s = Some (0, s1)" "vol_ok k s1" "same_vol k s s1"
    "sect (drv s1) = sect (drv s)" "curr_sector (fats s1 k) = ?a" "mem_has (fmem s1) (fat_buffer ?f) (sect (drv s) ?a)"
    using bread_sector_ok[OF ok a0 d(2)] by auto
  note f1 = same_vol_fat[OF s1(3)]
  let ?ys = "sect (drv s) ?a" let ?new = "take ?o ?ys @ xs @ drop (?o + length xs) ?ys"
  let ?m = "store_bytes (fmem s1) (fat_buffer ?f + of_nat ?o) xs" let ?s = "set_fmem ?m s1"
  have o: "?o + 32 \<le> 512" using mod_less_divisor[of 16 i] by linarith
  have len: "length ?ys = 512" "length ?new = 512" using sect_length[OF g(2)] o xs by simp_all
  have m: "mem_has ?m (fat_buffer ?f) ?new" by (rule mem_has_splice[OF s1(6)]) (use o len xs in simp_all)
  have r: "ready ?s" "fat_fs_dev (fats ?s k) = dev" using s1(2) by (simp_all add: vol_ok_def ready_mem)
  obtain s2 where s2: "bwrite_sector descs k ?a ?s = Some (0, s2)" "ready s2" "fats s2 = fats s1" "fmem s2 = ?m"
    "sect (drv s2) = (sect (drv s))(?a := ?new)"
    using bwrite_sector_ok[OF r a0 d(2), of ?new] m len(2) f1(6) s1(4) by (auto simp: ready_mem)
  have "fmem s2 x = fmem s x" if x: "4096 \<le> unat (x - fat_buffer ?f)" for x
  proof -
    have "?o \<le> unat (x - fat_buffer ?f)" using x o by linarith
    from stretch_offset[OF this] have "unat (x - (fat_buffer ?f + of_nat ?o)) = unat (x - fat_buffer ?f) - ?o" .
    then have "\<not> unat (x - (fat_buffer ?f + of_nat ?o)) < length xs" using x o xs by linarith
    then show ?thesis using s1(3) x xs s2(4) by (simp add: store_bytes_ok same_vol_def)
  qed
  then have same: "same_vol k s s2" using s1(3) s2(3) by (auto simp: same_vol_def cur_only_def)
  have "cache_ok k s2" using s2(3,4,5) s1(5) m f1(6) d(2) a0 by (simp add: cache_ok_def)
  then have vol: "vol_ok k s2" using s2(2,3) s1(2) by (simp add: vol_ok_def)
  have item: "dir_item k s2 j = ((dir_item k s)(i := xs)) j" for j
  proof (cases "j = i")
    case True
    have "take (length xs) (drop ?o ?new) = xs" by (rule slice_splice_same) (use o len(1) xs in simp)
    then show ?thesis using True xs by (simp add: dir_item_def s2(5) same_vol_fat(5)[OF same])
  next
    case ne: False
    show ?thesis
    proof (cases "j div 16 = i div 16")
      case True
      then have "j mod 16 \<noteq> i mod 16" using ne by (metis mult_div_mod_eq)
      then have "32 * (j mod 16) + 32 \<le> ?o \<or> ?o + length xs \<le> 32 * (j mod 16)" using xs by arith
      then have "take 32 (drop (32 * (j mod 16)) ?new) = take 32 (drop (32 * (j mod 16)) ?ys)"
        by (intro slice_splice_other) (use o len(1) xs in simp_all)
      then show ?thesis using ne True by (simp add: dir_item_def s2(5) same_vol_fat(5)[OF same])
    next
      case False
      then show ?thesis using ne by (simp add: dir_item_def s2(5) same_vol_fat(5)[OF same] flip: zdiv_int)
    qed
  qed
  have "entries k s2 c = entries k s c" for c
  proof (cases "c < n_entries ?f")
    case True
    have "c div 256 < unat (tbl_sectors ?f)" using True by (auto simp: n_entries_def less_mult_imp_div_less mult.commute)
    then have "int (c div 256) < uint (tbl_sectors ?f)" by (metis of_nat_less_iff uint_nat)
    then have "entry_sector ?f c < uint (root_start ?f)"
      unfolding entry_sector_def fat_geomD(1)[OF g(1)] using uint_ge_0[of "tbl_sectors ?f"] by linarith
    then have "entry_sector ?f c \<noteq> ?a" by simp
    then show ?thesis by (simp add: entries_def same_vol_fat(2,14)[OF same] s2(5))
  qed (simp add: entries_def same_vol_fat(2)[OF same])
  moreover have "write_dir_entry descs k xs (int i) s = Some (0, s2)"
    using d s1(1) s2(1) fat_geomD(4)[OF g(1)] by (simp add: write_dir_entry_def Let_def)
  ultimately show ?thesis using vol same item s2(5) by auto
qed

text \<open>The first cluster of an item, as the 16-bit number the table functions take.\<close>

lemma item_cluster:
  assumes "mem_has m p item" and "length item = 32"
  shows "(word_of_int (diritem_cluster m p) :: u16) = le16 item 26"
    and "le16 item 20 = 0 \<Longrightarrow> diritem_cluster m p = uint (le16 item 26)"
proof -
  have l: "load16 m (p + DIR_FstClusL0) = le16 item 26" "load16 m (p + DIR_FstClusHI) = le16 item 20"
    using load16_le16[OF assms(1), of 26] load16_le16[OF assms(1), of 20] assms(2)
    by (simp_all add: DIR_FstClusL0_def DIR_FstClusHI_def)
  have "(word_of_int (sint (push_bit 16 (ucast h :: u32) OR ucast x)) :: u16) = x" for h x :: u16
    by (rule bit_word_eqI) (auto simp: bit_simps)
  then show "(word_of_int (diritem_cluster m p) :: u16) = le16 item 26"
    by (simp add: diritem_cluster_def l)
  have "sint (ucast x :: u32) = uint x" for x :: u16
  proof -
    have "to_int32 (uint x) = uint x"
      by (rule to_int32_id, rule order_trans[OF _ uint_ge_0])
        (use unsigned_less[of x, where ?'a = int] in simp_all)
    then show ?thesis by (simp add: to_int32_def)
  qed
  then show "le16 item 20 = 0 \<Longrightarrow> diritem_cluster m p = uint (le16 item 26)"
    by (simp add: diritem_cluster_def l)
qed

lemma dir_item_change:
  assumes "table_change k s s'"
  shows "dir_item k s' = dir_item k s"
proof (rule ext)
  fix i
  have "\<not> in_tables (fats s k) (uint (root_start (fats s k)) + int (i div 16))" by (simp add: in_tables_def)
  then show "dir_item k s' i = dir_item k s i"
    using assms same_vol_fat[OF table_changeD(2)[OF assms]] by (simp add: table_change_def dir_item_def)
qed

lemma unlink_scan_ok:
  assumes "vol_ok k s" and "\<forall>i \<in> set is. i < unat (root_ent_cnt (fats s k))"
    and "dir_scan (dir_item k s) (to_sfn path) is at = Inl i"
    and "chain (n_entries (fats s k)) (entries k s) (le16 (dir_item k s i) 26) xs"
  shows "\<exists>s'. unlink_scan descs k path is s = Some (0, s') \<and> vol_ok k s' \<and> same_vol k s s'
    \<and> dir_item k s' = (dir_item k s)(i := replicate 32 0)
    \<and> entries k s' = (\<lambda>d. if d \<in> unat ` set xs then 0 else entries k s d)"
  using assms
proof (induction "is" arbitrary: at s)
  case Nil
  then show ?case by simp
next
  case (Cons j "is")
  obtain p s1 where s1: "read_dir_entry descs k (int j) s = Some (p, s1)" "p \<noteq> 0" "vol_ok k s1" "same_vol k s s1"
    "sect (drv s1) = sect (drv s)" "mem_has (fmem s1) p (dir_item k s j)"
    using read_dir_entry_ok[OF Cons.prems(1), of j] Cons.prems(2) by auto
  have len: "length (dir_item k s j) = 32" using Cons.prems(1) by (simp add: vol_ok_def dir_item_length)
  note it = name_match_item[OF s1(6) len]
  have same: "dir_item k s1 = dir_item k s" by (rule dir_item_same[OF same_vol_cur[OF s1(4)] s1(5)])
  note ent = entries_same[OF same_vol_cur[OF s1(4)] s1(5)] and f1 = same_vol_fat[OF s1(4)]
  have ids: "\<forall>i \<in> set is. i < unat (root_ent_cnt (fats s1 k))" using Cons.prems(2) f1(7) by simp
  have ch: "chain (n_entries (fats s1 k)) (entries k s1) (le16 (dir_item k s1 i) 26) xs"
    using Cons.prems(4) by (simp add: same ent f1)
  have rec: ?case if "dir_scan (dir_item k s) (to_sfn path) is at' = Inl i"
    "unlink_scan descs k path (j # is) s = unlink_scan descs k path is s1" for at'
  proof -
    from that(1) have "dir_scan (dir_item k s1) (to_sfn path) is at' = Inl i" by (simp add: same)
    from Cons.IH[OF s1(3) ids this ch] show ?thesis
      unfolding that(2) same ent using same_vol_trans[OF s1(4)] by blast
  qed
  have ne: "dir_item k s j ! 0 \<noteq> DIRITEM_NAME_END" using Cons.prems(3) by (auto split: if_splits)
  show ?case
  proof (cases "dir_item k s j ! 0 \<noteq> DIRITEM_NAME_FREE \<and> take SFN_LEN (dir_item k s j) = to_sfn path")
    case False
    have "dir_scan (dir_item k s) (to_sfn path) is (if dir_item k s j ! 0 = DIRITEM_NAME_FREE then int j else at) = Inl i"
      using Cons.prems(3) ne False by (auto split: if_splits)
    moreover have "unlink_scan descs k path (j # is) s = unlink_scan descs k path is s1"
      using s1(1,2) it ne False by auto
    ultimately show ?thesis by (rule rec)
  next
    case True
    then have j: "j = i" using Cons.prems(3) ne by simp
    have c: "word_of_int (diritem_cluster (fmem s1) p) = le16 (dir_item k s1 i) 26"
      using item_cluster(1)[OF s1(6) len] j same by simp
    obtain s2 where s2: "cluster_free_chain descs k (word_of_int (diritem_cluster (fmem s1) p)) s1 = Some s2"
      "table_change k s1 s2" "entries k s2 = (\<lambda>d. if d \<in> unat ` set xs then 0 else entries k s1 d)"
      using cluster_free_chain_ok[OF s1(3), of "word_of_int (diritem_cluster (fmem s1) p)" xs] ch unfolding c by blast
    have i2: "i < unat (root_ent_cnt (fats s2 k))"
      using Cons.prems(2) j f1(7) same_vol_fat(7)[OF table_changeD(2)[OF s2(2)]] by simp
    obtain s3 where s3: "write_dir_entry descs k (replicate 32 0) (int i) s2 = Some (0, s3)" "vol_ok k s3"
      "same_vol k s2 s3" "dir_item k s3 = (dir_item k s2)(i := replicate 32 0)" "entries k s3 = entries k s2"
      using write_dir_entry_ok[OF table_changeD(1)[OF s2(2)] i2, of "replicate 32 0"] by auto
    have "unlink_scan descs k path (j # is) s = Some (0, s3)"
      using s1(1,2) it True ne s2(1) s3(1) j by simp
    moreover have "dir_item k s3 = (dir_item k s)(i := replicate 32 0)"
      using s3(4) dir_item_change[OF s2(2)] same by simp
    moreover have "entries k s3 = (\<lambda>d. if d \<in> unat ` set xs then 0 else entries k s d)"
      by (simp only: s3(5) s2(3) ent)
    moreover have "same_vol k s s3"
      using s1(4) table_changeD(2)[OF s2(2)] s3(3) same_vol_trans by blast
    ultimately show ?thesis using s3(2) by blast
  qed
qed

end

text \<open>Clearing the item found ends the directory there: what was listed after it is not found.\<close>

lemma dir_scan_Inl:
  "dir_scan I sfn is at = Inl i \<Longrightarrow> \<exists>as bs. is = as @ i # bs
    \<and> (\<forall>j \<in> set as. I j ! 0 \<noteq> DIRITEM_NAME_END) \<and> I i ! 0 \<noteq> DIRITEM_NAME_END \<and> take SFN_LEN (I i) = sfn"
proof (induction "is" arbitrary: at)
  case (Cons j "is")
  show ?case
  proof (cases "I j ! 0 \<noteq> DIRITEM_NAME_FREE \<and> take SFN_LEN (I j) = sfn")
    case True
    then show ?thesis using Cons.prems by (intro exI[of _ "[]"] exI[of _ "is"]) (auto split: if_splits)
  next
    case False
    then obtain at' where "dir_scan I sfn is at' = Inl i" "I j ! 0 \<noteq> DIRITEM_NAME_END"
      using Cons.prems by (auto split: if_splits)
    from Cons.IH[OF this(1)] obtain as bs where "is = as @ i # bs" "\<forall>j \<in> set as. I j ! 0 \<noteq> DIRITEM_NAME_END"
      "I i ! 0 \<noteq> DIRITEM_NAME_END" "take SFN_LEN (I i) = sfn" by blast
    with \<open>I j ! 0 \<noteq> DIRITEM_NAME_END\<close> show ?thesis
      by (intro exI[of _ "j # as"] exI[of _ bs]) auto
  qed
qed simp

lemma dir_scan_cut:
  assumes "zs ! 0 = DIRITEM_NAME_END" and "dir_scan I sfn (as @ i # bs) at = Inl j" and "j \<notin> set (as @ [i])"
    and "i \<notin> set as"
  shows "dir_scan (I(i := zs)) sfn (as @ i # bs) at = Inr (int i)"
  using assms(2-4)
proof (induction as arbitrary: at)
  case Nil
  then show ?case using assms(1) by simp
next
  case (Cons a "as")
  then show ?case by (auto split: if_splits)
qed

lemma dir_scan_hidden:
  assumes "zs ! 0 = DIRITEM_NAME_END" and "dir_scan I sfn [0..<n] at = Inl j" and "i < j"
  shows "dir_scan (I(i := zs)) sfn [0..<n] at = Inr (int i)"
proof -
  obtain as bs where s: "[0..<n] = as @ j # bs" using dir_scan_Inl[OF assms(2)] by blast
  then have "j < n" by (metis in_set_conv_decomp set_upt atLeastLessThan_iff)
  then have "[0..<n] = [0..<i] @ i # [Suc i..<n]"
    using assms(3) upt_add_eq_append[of 0 i "n - i"] by (simp add: upt_conv_Cons)
  then show ?thesis using dir_scan_cut[OF assms(1), of I sfn "[0..<i]" i "[Suc i..<n]" at j] assms(2,3) by simp
qed

section \<open>Open and unlink\<close>

lemma load32_le32:
  assumes "mem_has m a xs" and "i + 3 < length xs"
  shows "load32 m (a + of_nat i) = le32 xs i"
  using mem_hasD[OF assms(1), of i] mem_hasD[OF assms(1), of "i + 1"]
    mem_hasD[OF assms(1), of "i + 2"] mem_hasD[OF assms(1), of "i + 3"] assms(2)
  by (simp add: load32_def le32_def add_ac)

context block_dev
begin

text \<open>The item of a stored file: its length, and the chain that holds it.\<close>

definition item_file :: "nat \<Rightarrow> 'm fat_sys \<Rightarrow> u8 list \<Rightarrow> u16 list \<Rightarrow> bool" where
  "item_file k s item cs \<longleftrightarrow> le16 item 20 = 0 \<and> unat (le32 item 28) < 2 ^ 31
     \<and> unat (le32 item 28) \<le> cluster_bytes (fats s k) * length cs
     \<and> chain (n_entries (fats s k)) (entries k s) (le16 item 26) cs
     \<and> (\<forall>d \<in> set cs. in_data (fats s k) nsect d)"

definition item_bytes :: "nat \<Rightarrow> 'm fat_sys \<Rightarrow> u8 list \<Rightarrow> u16 list \<Rightarrow> u8 list" where
  "item_bytes k s item cs = take (unat (le32 item 28)) (concat (map (clus k s) cs))"

lemma fatfs_open_ok:
  assumes ok: "vol_ok k s" and found: "dir_scan (dir_item k s) (to_sfn path) (dir_indices k s) (- 1) = Inl i"
    and f: "ffs fl = Some k" "fmode fl AND O_TRUNC = 0" and it: "item_file k s (dir_item k s i) cs"
  shows "\<exists>fl' s'. fatfs_open uninit descs k (Some path) fl s = Some (0, fl', s') \<and> vol_ok k s' \<and> same_vol k s s'
    \<and> sect (drv s') = sect (drv s) \<and> file_at k s' fl' cs 0
    \<and> file_bytes k s' fl' cs = item_bytes k s (dir_item k s i) cs \<and> fsize fl' = le32 (dir_item k s i) 28"
proof -
  have ix: "\<forall>i \<in> set (dir_indices k s). i < unat (root_ent_cnt (fats s k))" by (simp add: dir_indices_def)
  obtain p s' where s': "open_scan descs k path (dir_indices k s) (- 1) s = Some (Found p i, s')" "vol_ok k s'"
    "same_vol k s s'" "sect (drv s') = sect (drv s)" "mem_has (fmem s') p (dir_item k s i)"
    using open_scan_ok[OF ok ix, of path "- 1"] found by auto
  let ?fl = "read_from_diritem (fmem s') fl p (int i)"
  have len: "length (dir_item k s i) = 32" using ok by (simp add: dir_item_length vol_ok_def)
  have size: "fsize ?fl = le32 (dir_item k s i) 28"
    using load32_le32[OF s'(5), of 28] len by (simp add: read_from_diritem_def DIR_FileSize_def)
  have cl: "(word_of_int (sblk ?fl) :: u16) = le16 (dir_item k s i) 26" "cblk ?fl = uint (le16 (dir_item k s i) 26)"
    using item_cluster[OF s'(5) len] it by (simp_all add: read_from_diritem_def item_file_def)
  note same = same_vol_fat[OF s'(3)] entries_same[OF same_vol_cur[OF s'(3)] s'(4)]
    clus_same[OF same_vol_cur[OF s'(3)] s'(4)] cur_only_data[OF same_vol_cur[OF s'(3)]]
  have "file_at k s' ?fl cs 0"
    using it f(1) size cl unfolding file_at_def item_file_def by (simp add: same) (auto simp: read_from_diritem_def)
  moreover have "file_bytes k s' ?fl cs = item_bytes k s (dir_item k s i) cs"
    by (simp add: file_bytes_def item_bytes_def size same)
  moreover have "fatfs_open uninit descs k (Some path) fl s = Some (0, ?fl, s')"
    using s'(1) f(2) by (simp add: fatfs_open_def read_from_diritem_def)
  ultimately show ?thesis using s' size by blast
qed

lemma fatfs_open_absent:
  assumes "vol_ok k s" and "dir_scan (dir_item k s) (to_sfn path) (dir_indices k s) (- 1) = Inr at"
    and "fmode fl AND O_CREAT = 0"
  shows "\<exists>s'. fatfs_open uninit descs k (Some path) fl s = Some (- 1, fl, s') \<and> vol_ok k s' \<and> same_vol k s s'
    \<and> sect (drv s') = sect (drv s)"
proof -
  have "\<forall>i \<in> set (dir_indices k s). i < unat (root_ent_cnt (fats s k))" by (simp add: dir_indices_def)
  from open_scan_ok[OF assms(1) this, of path "- 1"] assms(2) obtain s' where
    "open_scan descs k path (dir_indices k s) (- 1) s = Some (Absent at, s')" "vol_ok k s'" "same_vol k s s'"
    "sect (drv s') = sect (drv s)" by auto
  then show ?thesis using assms(3) by (intro exI[of _ s']) (simp add: fatfs_open_def)
qed

lemma fatfs_unlink_ok:
  assumes "vol_ok k s" and "dir_scan (dir_item k s) (to_sfn path) (dir_indices k s) (- 1) = Inl i"
    and "chain (n_entries (fats s k)) (entries k s) (le16 (dir_item k s i) 26) cs"
  shows "\<exists>s'. fatfs_unlink descs k path s = Some (0, s') \<and> vol_ok k s' \<and> same_vol k s s'
    \<and> dir_item k s' = (dir_item k s)(i := replicate 32 0)
    \<and> entries k s' = (\<lambda>d. if d \<in> unat ` set cs then 0 else entries k s d)"
proof -
  have "\<forall>i \<in> set (dir_indices k s). i < unat (root_ent_cnt (fats s k))" by (simp add: dir_indices_def)
  from unlink_scan_ok[OF assms(1) this assms(2,3)] show ?thesis by (simp add: fatfs_unlink_def)
qed

text \<open>A file listed after the unlinked one is still on the disk, but no longer found.\<close>

lemma unlink_hides:
  assumes "vol_ok k s" and "dir_scan (dir_item k s) (to_sfn path) (dir_indices k s) (- 1) = Inl i"
    and "chain (n_entries (fats s k)) (entries k s) (le16 (dir_item k s i) 26) cs"
    and "dir_scan (dir_item k s) (to_sfn other) (dir_indices k s) (- 1) = Inl j" and "i < j"
    and "fmode fl AND O_CREAT = 0"
  shows "\<exists>s'. fatfs_unlink descs k path s = Some (0, s') \<and> vol_ok k s' \<and> dir_item k s' j = dir_item k s j
    \<and> (\<exists>s''. fatfs_open uninit descs k (Some other) fl s' = Some (- 1, fl, s''))"
proof -
  obtain s' where s': "fatfs_unlink descs k path s = Some (0, s')" "vol_ok k s'" "same_vol k s s'"
    "dir_item k s' = (dir_item k s)(i := replicate 32 0)"
    using fatfs_unlink_ok[OF assms(1-3)] by blast
  have "dir_scan (dir_item k s') (to_sfn other) (dir_indices k s') (- 1) = Inr (int i)"
    using dir_scan_hidden[of "replicate 32 0" "dir_item k s" "to_sfn other" "unat (root_ent_cnt (fats s k))" "- 1" j i]
      assms(4,5) s'(4) same_vol_fat(7)[OF s'(3)] by (simp add: dir_indices_def DIRITEM_NAME_END_def)
  from fatfs_open_absent[OF s'(2) this assms(6)] s' assms(5) show ?thesis by (intro exI[of _ s']) auto
qed

end

section \<open>Closing a file\<close>

text \<open>The directory item of a file that is closed: its size and its first cluster.\<close>

definition closed_item :: "u8 list \<Rightarrow> file_t \<Rightarrow> u8 list" where
  "closed_item xs x = (let c = (word_of_int (sblk x) :: u32)
     in put16 (put16 (put16 (put16 xs 28 (ucast (fsize x))) 30 (ucast (drop_bit 16 (fsize x))))
       20 (ucast (drop_bit 16 c))) 26 (ucast c))"

lemma closed_item_length [simp]: "length (closed_item xs x) = length xs"
  by (simp add: closed_item_def Let_def)

lemma closed_item_size:
  assumes "length xs = 32"
  shows "le32 (closed_item xs x) 28 = fsize x"
proof -
  have b: "ucast (ucast v :: u8) OR push_bit 8 (ucast (ucast (drop_bit 8 v) :: u8))
      OR push_bit 16 (ucast (ucast (drop_bit 16 v) :: u8)) OR push_bit 24 (ucast (ucast (drop_bit 24 v) :: u8)) = v"
    for v :: u32
  proof (rule bit_word_eqI, goal_cases)
    case (1 n)
    consider "n < 8" | "8 \<le> n" "n < 16" | "16 \<le> n" "n < 24" | "24 \<le> n" by linarith
    then show ?case using 1 by cases (auto simp: bit_simps)
  qed
  have u: "ucast (ucast v :: u16) = (ucast v :: u8)" "ucast (drop_bit 8 (ucast v :: u16)) = (ucast (drop_bit 8 v) :: u8)"
    "ucast (ucast (drop_bit 16 v) :: u16) = (ucast (drop_bit 16 v) :: u8)"
    "ucast (drop_bit 8 (ucast (drop_bit 16 v) :: u16)) = (ucast (drop_bit 24 v) :: u8)" for v :: u32
    by (rule bit_word_eqI; auto simp: bit_simps)+
  show ?thesis using assms b[of "fsize x"]
    by (simp add: le32_def closed_item_def put16_def Let_def u)
qed

lemma closed_item_fields:
  assumes "length xs = 32"
  shows "le32 (closed_item xs x) 28 = fsize x" and "le16 (closed_item xs x) 26 = ucast (word_of_int (sblk x) :: u32)"
    and "le16 (closed_item xs x) 20 = ucast (drop_bit 16 (word_of_int (sblk x) :: u32))"
    and "\<forall>b \<in> {0..<20} \<union> {22..<26}. closed_item xs x ! b = xs ! b"
  using assms closed_item_size[OF assms, of x] by (auto simp: closed_item_def Let_def put16_def le16_def bytes_of_u16)

lemma store32_halves:
  "store32 m a v = store16 (store16 m (a + of_nat 0) (ucast v)) (a + of_nat 2) (ucast (drop_bit 16 v))"
proof -
  have "ucast (ucast v :: u16) = (ucast v :: u8)" "ucast (drop_bit 8 (ucast v :: u16)) = (ucast (drop_bit 8 v) :: u8)"
    "ucast (ucast (drop_bit 16 v) :: u16) = (ucast (drop_bit 16 v) :: u8)"
    "ucast (drop_bit 8 (ucast (drop_bit 16 v) :: u16)) = (ucast (drop_bit 24 v) :: u8)"
    by (rule bit_word_eqI; auto simp: bit_simps)+
  then show ?thesis by (simp add: store32_def store16_def add_ac)
qed

lemma store_item:
  fixes x :: file_t
  defines "c \<equiv> (word_of_int (sblk x) :: u32)"
  assumes "mem_has m p xs" and "length xs = 32"
  defines "m' \<equiv> store16 (store16 (store32 m (p + DIR_FileSize) (fsize x)) (p + DIR_FstClusHI) (ucast (drop_bit 16 c)))
    (p + DIR_FstClusL0) (ucast c)"
  shows "mem_has m' p (closed_item xs x)" and "store_bytes m p (load_bytes m' p 32) = m'"
proof -
  have m': "m' = store16 (store16 (store16 (store16 m (p + of_nat 28) (ucast (fsize x))) (p + of_nat 30) (ucast (drop_bit 16 (fsize x))))
      (p + of_nat 20) (ucast (drop_bit 16 c))) (p + of_nat 26) (ucast c)"
    by (simp add: m'_def store32_halves DIR_FileSize_def DIR_FstClusHI_def DIR_FstClusL0_def add.assoc)
  show "mem_has m' p (closed_item xs x)"
    unfolding m' closed_item_def Let_def c_def
    by (intro mem_has_store16) (use assms(2,3) in simp_all)
  have "m' y = m y" if "\<not> unat (y - p) < 32" for y
    using that store16_frame[of 32 28 y p] store16_frame[of 32 30 y p] store16_frame[of 32 20 y p] store16_frame[of 32 26 y p]
    unfolding m' by simp
  then show "store_bytes m p (load_bytes m' p 32) = m'" by (auto simp: fun_eq_iff store_bytes_ok)
qed

context block_dev
begin

lemma fatfs_close_item:
  assumes ok: "vol_ok k s" and i: "i < unat (root_ent_cnt (fats s k))" and x: "ffs x = Some k" "p_index x = int i"
  shows "\<exists>s'. fatfs_close descs x s = Some (x, s') \<and> vol_ok k s' \<and> same_vol k s s'
    \<and> dir_item k s' = (dir_item k s)(i := closed_item (dir_item k s i) x) \<and> entries k s' = entries k s
    \<and> (\<forall>a. a \<noteq> uint (root_start (fats s k)) + int (i div 16) \<longrightarrow> sect (drv s') a = sect (drv s) a)"
proof -
  let ?f = "fats s k" let ?a = "uint (root_start ?f) + int (i div 16)" let ?xs = "dir_item k s i"
  have g: "fat_geom ?f nsect" "ready s" using ok by (simp_all add: vol_ok_def)
  note d = dir_sector[OF g(1) i]
  obtain p s1 where s1: "read_dir_entry descs k (int i) s = Some (p, s1)" "p \<noteq> 0" "vol_ok k s1" "same_vol k s s1"
    "sect (drv s1) = sect (drv s)" "mem_has (fmem s1) p ?xs"
    "p = fat_buffer ?f + of_nat (32 * (i mod 16))" "curr_sector (fats s1 k) = ?a"
    using read_dir_entry_ok[OF ok i] by blast
  note f1 = same_vol_fat[OF s1(4)]
  have len: "length ?xs = 32" by (rule dir_item_length[OF g(2)])
  define m where "m = store16 (store16 (store32 (fmem s1) (p + DIR_FileSize) (fsize x)) (p + DIR_FstClusHI)
    (ucast (drop_bit 16 (word_of_int (sblk x) :: u32)))) (p + DIR_FstClusL0) (ucast (word_of_int (sblk x) :: u32))"
  note it = store_item[OF s1(6) len, of x, folded m_def]
  have ys: "load_bytes m p 32 = closed_item ?xs x" using it(1) len by (simp add: mem_has_load)
  have same: "dir_item k s1 = dir_item k s" "entries k s1 = entries k s"
    using dir_item_same[OF same_vol_cur[OF s1(4)] s1(5)] entries_same[OF same_vol_cur[OF s1(4)] s1(5)] by simp_all
  have "i < unat (root_ent_cnt (fats s1 k))" using i f1 by simp
  from write_dir_entry_ok[OF s1(3) this, of "closed_item ?xs x"] len obtain s2 where
    s2: "write_dir_entry descs k (closed_item ?xs x) (int i) s1 = Some (0, s2)" "vol_ok k s2" "same_vol k s1 s2"
    "dir_item k s2 = (dir_item k s1)(i := closed_item ?xs x)" "entries k s2 = entries k s1"
    "\<And>a. a \<noteq> uint (root_start (fats s1 k)) + int (i div 16) \<Longrightarrow> sect (drv s2) a = sect (drv s1) a"
    by auto
  have sm: "set_fmem (store_bytes m p (closed_item ?xs x)) (set_fmem m s1)
      = set_fmem (store_bytes (fmem s1) p (closed_item ?xs x)) s1"
  proof -
    have "store_bytes m p (closed_item ?xs x) = m"
      unfolding ys[symmetric] by (auto simp: fun_eq_iff store_bytes_ok)
    then show ?thesis using it(2) unfolding ys by (simp add: set_fmem_def)
  qed
  have "write_dir_entry descs k (closed_item ?xs x) (int i) (set_fmem m s1)
      = write_dir_entry descs k (closed_item ?xs x) (int i) s1"
    using d f1 s1(7,8) fat_geomD(4)[OF g(1)] sm
    by (simp add: write_dir_entry_def bread_sector_def Let_def)
  then have "fatfs_close descs x s = Some (x, s2)"
    using s1(1,2) s2(1) x ys unfolding m_def by (simp add: fatfs_close_def O_RDONLY_def Let_def)
  moreover have "same_vol k s s2" by (rule same_vol_trans[OF s1(4) s2(3)])
  ultimately show ?thesis using s2 same s1(5) f1 by (intro exI[of _ s2]) simp
qed

text \<open>Whatever index the file holds, closing it returns and leaves a mounted volume.\<close>

lemma fatfs_close_returns:
  assumes ok: "vol_ok k s" and x: "ffs x = Some k" and p: "p_index x < 2 ^ 31"
  shows "\<exists>s'. fatfs_close descs x s = Some (x, s') \<and> vol_ok k s'"
proof (cases "0 \<le> p_index x \<and> nat (p_index x) < unat (root_ent_cnt (fats s k))")
  case True
  then show ?thesis using fatfs_close_item[OF ok _ x, of "nat (p_index x)"] by auto
next
  case False
  have "\<not> 0 \<le> p_index x \<or> root_ent_cnt (fats s k) \<le> word_of_int (p_index x)"
  proof (rule ccontr)
    assume n: "\<not> (\<not> 0 \<le> p_index x \<or> root_ent_cnt (fats s k) \<le> word_of_int (p_index x))"
    then have "unat (word_of_int (p_index x) :: u32) = nat (p_index x)"
      using p by (simp add: unsigned_of_int take_bit_int_eq_self)
    then show False using n False by (simp add: word_le_nat_alt)
  qed
  then have "read_dir_entry descs k (p_index x) s = Some (0, s)" by (auto simp: read_dir_entry_def Let_def)
  then show ?thesis using x ok by (simp add: fatfs_close_def O_RDONLY_def)
qed

end

end
