(* ===== verification/Drive.thy ===== *)
theory Drive
  imports Ata Fatdir
begin

text \<open>
  A drive to run the disk driver on: registers two deep (the high-order bytes of a 48-bit
  command are the ones written first), a status register that stays busy for a while after a
  command and after every sector, and a data port.  It satisfies the contract \<open>ata\<close>, so the
  driver on it is a \<open>block_dev\<close>; the volume on it serves as the input of the witnesses of the
  file system's properties.
\<close>

section \<open>The drive\<close>

record sim =
  sim_data :: "int \<Rightarrow> u8 list"
  sim_phase :: ata_phase
  sim_busy :: nat
  reg_count :: "u8 \<times> u8"
  reg_lo :: "u8 \<times> u8"
  reg_mid :: "u8 \<times> u8"
  reg_hi :: "u8 \<times> u8"

definition sim_sects :: "sim \<Rightarrow> int \<Rightarrow> u8 list" where
  "sim_sects h a = take 512 (sim_data h a @ replicate 512 0)"

definition sim_lba :: "sim \<Rightarrow> u32" where
  "sim_lba h = ucast (snd (reg_lo h)) OR push_bit 8 (ucast (snd (reg_mid h)))
     OR push_bit 16 (ucast (snd (reg_hi h))) OR push_bit 24 (ucast (fst (reg_lo h)))"

definition sim_count :: "sim \<Rightarrow> u16" where
  "sim_count h = ucast (snd (reg_count h)) OR push_bit 8 (ucast (fst (reg_count h)))"

definition sim_outb :: "u16 \<Rightarrow> u8 \<Rightarrow> sim \<Rightarrow> sim" where
  "sim_outb port v h =
    (if port = 0x1F2 then h\<lparr>reg_count := (snd (reg_count h), v)\<rparr>
     else if port = 0x1F3 then h\<lparr>reg_lo := (snd (reg_lo h), v)\<rparr>
     else if port = 0x1F4 then h\<lparr>reg_mid := (snd (reg_mid h), v)\<rparr>
     else if port = 0x1F5 then h\<lparr>reg_hi := (snd (reg_hi h), v)\<rparr>
     else if port = 0x1F7
     then if v = DISK_CMD_READ
          then h\<lparr>sim_phase := Rd (uint (sim_lba h)) (unat (sim_count h)) 0, sim_busy := 3\<rparr>
          else if v = DISK_CMD_WRITE
          then h\<lparr>sim_phase := Wr (uint (sim_lba h)) (unat (sim_count h)) [], sim_busy := 3\<rparr>
          else h
     else h)"

definition sim_inb :: "u16 \<Rightarrow> sim \<Rightarrow> u8 \<times> sim" where
  "sim_inb port h =
    (if port = 0x1F7
     then if 0 < sim_busy h then (0x80, h\<lparr>sim_busy := sim_busy h - 1\<rparr>) else (0x48, h)
     else (0, h))"

definition sim_inw :: "u16 \<Rightarrow> sim \<Rightarrow> u16 \<times> sim" where
  "sim_inw port h =
    (case sim_phase h of
       Rd lba n k \<Rightarrow>
         (le16 (sim_sects h lba) (2 * k),
          if k < 255 then h\<lparr>sim_phase := Rd lba n (k + 1)\<rparr>
          else h\<lparr>sim_phase := (if n = 1 then Idle else Rd (lba + 1) (n - 1) 0), sim_busy := 2\<rparr>)
     | _ \<Rightarrow> (0, h))"

definition sim_outw :: "u16 \<Rightarrow> u16 \<Rightarrow> sim \<Rightarrow> sim" where
  "sim_outw port w h =
    (case sim_phase h of
       Wr lba n ws \<Rightarrow>
         if length ws < 255 then h\<lparr>sim_phase := Wr lba n (ws @ [w])\<rparr>
         else h\<lparr>sim_data := (sim_data h)(lba := concat (map word_bytes (ws @ [w]))),
                sim_phase := (if n = 1 then Idle else Wr (lba + 1) (n - 1) []), sim_busy := 2\<rparr>
     | _ \<Rightarrow> h)"

definition sim_io :: "sim ports" where
  "sim_io = \<lparr>p_inb = sim_inb, p_outb = sim_outb, p_inw = sim_inw, p_outw = sim_outw\<rparr>"

lemma sim_lba_regs:
  "ucast (ucast l :: u8) OR push_bit 8 (ucast (ucast (drop_bit 8 l) :: u8))
     OR push_bit 16 (ucast (ucast (drop_bit 16 l) :: u8)) OR push_bit 24 (ucast (ucast (drop_bit 24 l) :: u8))
   = (l :: u32)"
proof (rule bit_word_eqI, goal_cases)
  case (1 n)
  consider "n < 8" | "8 \<le> n" "n < 16" | "16 \<le> n" "n < 24" | "24 \<le> n" by linarith
  then show ?case using 1 by cases (auto simp: bit_simps)
qed

lemma sim_count_regs:
  "ucast (ucast (n :: u32) :: u8) OR push_bit 8 (ucast (ucast (drop_bit 8 n) :: u8)) = (ucast n :: u16)"
  by (rule bit_word_eqI) (auto simp: bit_simps)

lemma sim_command:
  "port_writes sim_io (command_writes 0x1F0 0 l n c) h
    = sim_outb 0x1F7 c (h\<lparr>reg_count := (ucast (drop_bit 8 n), ucast n), reg_lo := (ucast (drop_bit 24 l), ucast l),
        reg_mid := (0, ucast (drop_bit 8 l)), reg_hi := (0, ucast (drop_bit 16 l))\<rparr>)"
  by (simp add: port_writes_def command_writes_def sim_io_def sim_outb_def)

interpretation drv: ata sim_io "0x1F0" "0" sim_phase sim_sects "\<lambda>h. sim_busy h = 0" sim_busy "2 ^ 31"
proof (unfold_locales, goal_cases)
  case (2 h a)
  then show ?case by (simp add: sim_sects_def)
next
  case (3 h lba n c)
  have l: "uint (word_of_int lba :: u32) = lba" using 3 by (simp add: uint_word_of_int)
  have "n < 2 ^ 32" using 3(5) by simp
  then have n: "unat (ucast (of_nat n :: u32) :: u16) = n"
    using 3(5) by (simp add: unsigned_ucast_eq unsigned_of_nat take_bit_nat_eq_self)
  show ?case unfolding sim_command
    using l n by (simp add: sim_outb_def sim_lba_def sim_count_def sim_lba_regs sim_count_regs sim_sects_def fun_eq_iff
        DISK_CMD_READ_def DISK_CMD_WRITE_def)
next
  case (4 h v h')
  then show ?case by (auto simp: sim_io_def sim_inb_def sim_sects_def fun_eq_iff split: if_splits)
next
  case (5 h v h')
  then show ?case by (auto simp: sim_io_def sim_inb_def split: if_splits)
next
  case (6 h lba n k w h')
  then show ?case by (auto simp: sim_io_def sim_inw_def sim_sects_def fun_eq_iff split: if_splits)
next
  case (7 p v h)
  then show ?case by (auto simp: sim_io_def sim_outb_def PIC0_OCW2_def PIC1_OCW2_def)
qed simp

section \<open>The driver's state on it\<close>

text \<open>One disk with a partition from sector 63 on; the device entry has it open.\<close>

definition demo_sim :: "(int \<Rightarrow> u8 list) \<Rightarrow> sim" where
  "demo_sim d = \<lparr>sim_data = d, sim_phase = Idle, sim_busy = 0, reg_count = (0, 0), reg_lo = (0, 0),
     reg_mid = (0, 0), reg_hi = (0, 0)\<rparr>"

definition demo_disk :: disk_t where
  "demo_disk = zero_disk\<lparr>port_base := 0x1F0, sector_size := 512, sector_count := 1000, sync_set := True,
     partinfo := [zero_part, zero_part\<lparr>pdisk := Some 0, pstart := 63, ptotal := 900, ptype := 6\<rparr>,
                  zero_part, zero_part, zero_part]\<rparr>"

definition demo_drv :: "(int \<Rightarrow> u8 list) \<Rightarrow> sim disk_sys" where
  "demo_drv d = cpu.extend (demo_cpu (demo_sim d))
     \<lparr>disk_mutex = \<lparr>locked_count = 0, owner = None, wait_list = blank_list\<rparr>,
      op_sem = \<lparr>sem_value = 0, sem_list = blank_list\<rparr>, disk_buf = [demo_disk, zero_disk], task_on_op = 0\<rparr>"

definition demo_entry :: device_t where
  "demo_entry = zero_dev\<lparr>ddesc := Some 0, dminor := 0xA1, ddata := part_ptr 0 1, open_count := 1\<rparr>"

definition demo_descs :: "sim disk_sys dev_desc_t list" where
  "demo_descs = [dev_disk_desc sim_io 0 (do_handle_ide_primary sim_io) (\<lambda>_. None)]"

interpretation part: ata_eager_part "0x1F0" "0" sim_phase sim_sects "\<lambda>h. sim_busy h = 0" sim_busy "2 ^ 31"
    sim_io demo_descs "0" "0" "\<lambda>_. None" "63" "900"
proof (unfold_locales, goal_cases)
  case (3 h lba n ws w)
  have "length (concat (map word_bytes (ws @ [w]))) = 512" if "\<not> length ws < 255"
    using 3 that by (simp add: word_bytes_def)
  then show ?case using 3 by (auto simp: sim_io_def sim_outw_def sim_sects_def fun_eq_iff)
qed simp_all

lemma demo_drv_parts: "hw (demo_drv d) = demo_sim d" "disk_buf (demo_drv d) = [demo_disk, zero_disk]"
  by (simp_all add: demo_drv_def demo_cpu_def cpu.defs mm.defs)

lemma demo_entry_ok: "part.entry_ok demo_entry (demo_drv d)"
proof -
  have "part_at (part_ptr 0 1) = Some (0, 1)"
    by (simp add: part_at_def part_ptr_def DISK_PRIMARY_PART_CNT_def DISK_CNT_def)
  moreover have "drv.my_disk demo_disk" by (simp add: drv.my_disk_def demo_disk_def zero_disk_def)
  moreover have "pdisk (partinfo demo_disk ! 1) = Some 0" "pstart (partinfo demo_disk ! 1) = 63" "sync_set demo_disk"
    by (simp_all add: demo_disk_def)
  ultimately show ?thesis by (simp add: part.entry_ok_def demo_drv_parts demo_entry_def)
qed

lemma demo_drv_idle: "part.driver_idle (demo_drv d)"
  by (simp add: part.driver_idle_def demo_drv_parts demo_sim_def)
    (simp add: demo_drv_def cpu.defs mutex_free_def blank_list_def dll_def)

section \<open>The driver\<close>

text \<open>C36: The disk driver reads whole sectors.  On a drive that keeps the ATA contract for reading and
  reports no error, with the driver idle and one interrupt per sector, reading \<open>n\<close> sectors of a
  partition, up to 65535 in one call, returns \<open>n\<close>, puts exactly their bytes at the buffer and
  changes nothing on the drive.  It releases the mutex and leaves no completion pending, so the
  driver is idle again.
\<close>

theorem disk_reads_sectors:
  assumes "ata_part base sel phase sects drq busy nlba io start nsect"
    and "ata_part.entry_ok base sel start e w" and "ata_part.driver_idle phase w"
    and "0 \<le> a" and "0 < n" and "a + n \<le> nsect" and "n < 2 ^ 16"
  shows "\<exists>w'. disk_read io (do_handle_ide_primary io) resume e a buf n w = Some (n, w')
      \<and> ata_part.driver_idle phase w' \<and> sects (hw w') = sects (hw w)
      \<and> mem w' = store_bytes (mem w) buf (concat (map (\<lambda>i. sects (hw w) (start + i)) [a..a + n - 1]))"
proof -
  note P = ata_part.part_sect_def[OF assms(1)]
  obtain w' where "disk_read io (do_handle_ide_primary io) resume e a buf n w = Some (n, w')"
    "ata_part.driver_idle phase w'" "ata_part.part_sect sects start w' = ata_part.part_sect sects start w"
    "mem w' = store_bytes (mem w) buf (concat (map (ata_part.part_sect sects start w) [a..a + n - 1]))"
    using ata_part.disk_read_ok[OF assms] by blast
  moreover from this(3) have "sects (hw w') a = sects (hw w) a" for a
    using fun_cong[of _ _ "a - start"] unfolding P[abs_def] by fastforce
  ultimately show ?thesis by (auto simp: P[abs_def])
qed

theorem disk_reads_sectors_witness:
  "\<exists>w'. disk_read sim_io (do_handle_ide_primary sim_io) (\<lambda>_. None) demo_entry 7 0x8000 2 (demo_drv (\<lambda>_. [1])) = Some (2, w')
      \<and> part.driver_idle w' \<and> mem w' 0x8200 = 1"
proof -
  let ?w = "demo_drv (\<lambda>_. [1])"
  have s: "sim_sects (hw ?w) i = 1 # replicate 511 0" for i
    by (simp add: demo_drv_parts sim_sects_def demo_sim_def numeral_eq_Suc[of "num.Bit0 num.One"])
  have u: "[7..7 + 2 - 1] = [7, 8 :: int]" by (simp add: upto_rec1)
  obtain w' where w': "disk_read sim_io (do_handle_ide_primary sim_io) (\<lambda>_. None) demo_entry 7 0x8000 2 ?w = Some (2, w')"
    "part.driver_idle w'" "mem w' = store_bytes (mem ?w) 0x8000 (concat (map (\<lambda>i. sim_sects (hw ?w) (63 + i)) [7..7 + 2 - 1]))"
    using disk_reads_sectors[OF part.ata_part_axioms demo_entry_ok demo_drv_idle,
        where a = 7 and n = 2 and buf = "0x8000" and resume = "\<lambda>_. None"] by auto
  let ?xs = "1 # replicate 511 (0 :: u8)"
  have "unat (0x8200 - 0x8000 :: u32) = length ?xs" by simp
  then have "store_bytes (mem ?w) 0x8000 (?xs @ ?xs) 0x8200 = 1" by (simp add: store_bytes_ok nth_append)
  then show ?thesis using w' by (simp add: u s)
qed

text \<open>Writing, on a drive that takes the data at once: exactly the sectors written have changed.\<close>

lemma disk_writes_sectors:
  assumes "ata_eager_part base sel phase sects drq busy nlba io start nsect"
    and "ata_part.entry_ok base sel start e w" and "ata_part.driver_idle phase w"
    and "0 \<le> a" and "0 < n" and "a + n \<le> nsect" and "n < 2 ^ 16"
  shows "\<exists>w'. disk_write io (do_handle_ide_primary io) resume e a buf n w = Some (n, w')
      \<and> ata_part.driver_idle phase w' \<and> mem w' = mem w
      \<and> (\<forall>i. sects (hw w') (start + i) = (if a \<le> i \<and> i < a + n
          then load_bytes (mem w) (buf + of_nat (512 * nat (i - a))) 512 else sects (hw w) (start + i)))"
proof -
  note P = ata_part.part_sect_def[OF ata_eager_part.axioms(1)[OF assms(1)]]
  obtain w' where "disk_write io (do_handle_ide_primary io) resume e a buf n w = Some (n, w')"
    "ata_part.driver_idle phase w'" "mem w' = mem w"
    "ata_part.part_sect sects start w' = (\<lambda>i. if a \<le> i \<and> i < a + n
       then load_bytes (mem w) (buf + of_nat (512 * nat (i - a))) 512 else ata_part.part_sect sects start w i)"
    using ata_eager_part.disk_write_ok[OF assms] by blast
  then show ?thesis by (auto simp: P fun_eq_iff)
qed

end
