(* ===== verification/Fatprops.thy ===== *)
theory Fatprops
  imports Drive
begin

text \<open>
  The properties of the FAT16 file system, for any disk that keeps the contract \<open>block_dev\<close>.
  Theory \<open>Ata\<close> shows that the disk driver keeps it; the witnesses run on the driver and the
  simulated drive of theory \<open>Drive\<close>, with a volume of two files.
\<close>

section \<open>A volume on the simulated drive\<close>

text \<open>
  The partition starts at sector 63; the table is sector 1 with a copy in sector 2, the root
  directory sector 3, and cluster \<open>c\<close> is sector \<open>c + 2\<close>.  \<open>A.TXT\<close> has 600 bytes in the clusters
  2 and 3, \<open>B.TXT\<close> three bytes in cluster 4.
\<close>

definition demo_item :: "u8 \<Rightarrow> u8 \<Rightarrow> u8 \<Rightarrow> u8 \<Rightarrow> u8 list" where
  "demo_item name cluster lo hi =
     name # replicate 7 32 @ map of_char ''TXT'' @ replicate 15 0 @ [cluster, 0, lo, hi, 0, 0]"

definition demo_table :: "u8 list" where
  "demo_table = [0xF8, 0xFF, 0xFF, 0xFF, 3, 0, 0xF8, 0xFF, 0xF8, 0xFF] @ replicate 502 0"

definition demo_data :: "int \<Rightarrow> u8 list" where
  "demo_data a =
    (if a = 64 \<or> a = 65 then demo_table
     else if a = 66 then demo_item 65 2 0x58 2 @ demo_item 66 4 3 0 @ replicate 448 0
     else if a = 67 then replicate 512 97 else if a = 68 then replicate 512 98
     else if a = 69 then [1, 2, 3] else [])"

definition demo_fat :: fat_t where
  "demo_fat = \<lparr>tbl_start = 1, tbl_cnt = 2, tbl_sectors = 1, bytes_per_sec = 512, sec_per_cluster = 1,
     root_ent_cnt = 16, root_start = 3, data_start = 4, cluster_byte_size = 512, fat_buffer = 0x10000,
     curr_sector = - 1, fat_fs_dev = 0\<rparr>"

definition demo_state :: "(int \<Rightarrow> u8 list) \<Rightarrow> fat_t \<Rightarrow> sim disk_sys fat_state" where
  "demo_state d f = \<lparr>dev_tbl = [demo_entry],
     drv = demo_drv d, fats = (\<lambda>_. f)\<rparr>"

definition demo_vol :: "sim disk_sys fat_state" where
  "demo_vol = demo_state demo_data demo_fat"

lemma demo_parts: "fats (demo_state d f) k = f" "drv (demo_state d f) = demo_drv d"
  by (simp_all add: demo_state_def)

lemma demo_ready: "part.part_ready (demo_state d f)"
proof -
  have "dev_tbl (demo_state d f) ! 0 = demo_entry" by (simp add: demo_state_def)
  with demo_entry_ok demo_drv_idle show ?thesis
    by (simp add: part.part_ready_def demo_parts)
      (simp add: demo_state_def demo_entry_def zero_dev_def is_devid_bad_def dev_desc_def demo_descs_def)
qed

lemma demo_state_ok: "fat_fs_dev f = 0 \<Longrightarrow> fat_geom f 900 \<Longrightarrow> curr_sector f = - 1 \<Longrightarrow> part.vol_ok k (demo_state d f)"
  by (simp add: part.vol_ok_def demo_ready demo_parts part.cache_ok_def)

lemma demo_sects: "part.part_sect (drv (demo_state d f)) a = take 512 (d (63 + a) @ replicate 512 0)"
  by (simp add: part.part_sect_def demo_parts demo_drv_parts sim_sects_def demo_sim_def)

lemma demo_vol_ok: "part.vol_ok k demo_vol"
  unfolding demo_vol_def by (rule demo_state_ok) (simp_all add: demo_fat_def fat_geom_def)

lemma demo_vol_fat: "fats demo_vol k = demo_fat"
  by (simp add: demo_vol_def demo_parts)

lemma demo_sect:
  "part.part_sect (drv demo_vol) 1 = demo_table"
  "part.part_sect (drv demo_vol) 3 = demo_item 65 2 0x58 2 @ demo_item 66 4 3 0 @ replicate 448 0"
  "part.part_sect (drv demo_vol) 4 = replicate 512 97" "part.part_sect (drv demo_vol) 5 = replicate 512 98"
  unfolding demo_vol_def demo_sects by (simp_all add: demo_data_def demo_table_def demo_item_def)

lemma demo_entries:
  "part.entries k demo_vol 2 = 3" "part.entries k demo_vol 3 = 0xFFF8" "part.entries k demo_vol 4 = 0xFFF8"
  by (simp_all add: part.entries_def demo_vol_fat entry_sector_def)
    (simp_all add: demo_fat_def n_entries_def demo_sect demo_table_def le16_def nth_append)

lemma demo_n: "n_entries (fats demo_vol k) = 256"
  by (simp add: demo_vol_fat n_entries_def demo_fat_def)

lemma demo_chain: "chain 256 (part.entries k demo_vol) 2 [2, 3]"
  by (simp add: demo_entries cluster_is_valid_def)

section \<open>Clusters\<close>

text \<open>C38: Allocation takes the first free clusters and chains them, or changes nothing.  On a
  mounted volume with at most 65280 table entries, \<^verbatim>\<open>cluster_alloc_free\<close> for \<open>cnt\<close> clusters
  returns; with \<open>cnt\<close> free clusters from cluster 2 on, the first \<open>cnt\<close> of them become a chain
  that starts at the result and no other entry changes; with fewer, the result is the end mark
  and the table is as before.  Both copies of the table stay equal and no sector outside
  them is touched.
\<close>

theorem fat_alloc_chain:
  fixes cnt :: nat
  assumes "block_dev descs dev ready sect nsect" and "block_dev.vol_ok dev ready sect nsect k s"
    and "n_entries (fats s k) \<le> 65280" and "0 < cnt"
  shows "\<exists>start s'. cluster_alloc_free descs k (int cnt) s = Some (start, s')
    \<and> block_dev.table_change dev ready sect nsect k s s'
    \<and> (let E = block_dev.entries sect k s; E' = block_dev.entries sect k s';
           ds = take cnt (free_from E 2 (n_entries (fats s k)))
       in if length ds = cnt
          then chain (n_entries (fats s k)) E' start (map of_nat ds) \<and> (\<forall>d. d \<notin> set ds \<longrightarrow> E' d = E d)
          else start = FAT_CLUSTER_INVALID \<and> E' = E)"
  using block_dev.cluster_alloc_free_ok[OF assms] by (simp only: Let_def)

theorem fat_alloc_chain_witness:
  "\<exists>start s'. cluster_alloc_free demo_descs 0 (int 2) demo_vol = Some (start, s')
    \<and> part.table_change 0 demo_vol s'
    \<and> (let E = part.entries 0 demo_vol; E' = part.entries 0 s'; ds = take 2 (free_from E 2 256)
       in if length ds = 2 then chain 256 E' start (map of_nat ds) \<and> (\<forall>d. d \<notin> set ds \<longrightarrow> E' d = E d)
          else start = FAT_CLUSTER_INVALID \<and> E' = E)"
  using fat_alloc_chain[OF part.block_dev_axioms demo_vol_ok, of 0 2] by (simp only: demo_n)

text \<open>C39: Freeing a chain always ends.  On a mounted volume \<^verbatim>\<open>cluster_free_chain\<close> returns from
  every cluster, whatever the table holds (cycles included), and leaves a mounted volume whose
  sectors outside the tables are as before; if a well-formed chain starts there, exactly its
  entries become free.
\<close>

theorem fat_free_ends:
  assumes "block_dev descs dev ready sect nsect" and "block_dev.vol_ok dev ready sect nsect k s"
  shows "\<exists>s'. cluster_free_chain descs k c s = Some s' \<and> block_dev.table_change dev ready sect nsect k s s'
    \<and> (\<forall>xs. chain (n_entries (fats s k)) (block_dev.entries sect k s) c xs \<longrightarrow>
        block_dev.entries sect k s' = (\<lambda>d. if d \<in> unat ` set xs then 0 else block_dev.entries sect k s d))"
proof -
  obtain s' where s': "cluster_free_chain descs k c s = Some s'" "block_dev.table_change dev ready sect nsect k s s'"
    using block_dev.cluster_free_chain_ends[OF assms] by blast
  then show ?thesis using block_dev.cluster_free_chain_ok[OF assms] by (intro exI[of _ s']) fastforce
qed

theorem fat_free_ends_witness:
  "\<exists>s'. cluster_free_chain demo_descs 0 2 demo_vol = Some s' \<and> part.entries 0 s' 2 = 0 \<and> part.entries 0 s' 3 = 0
    \<and> part.entries 0 s' 4 = 0xFFF8"
proof -
  obtain s' where "cluster_free_chain demo_descs 0 2 demo_vol = Some s'"
    "part.entries 0 s' = (\<lambda>d. if d \<in> unat ` set [2 :: u16, 3] then 0 else part.entries 0 demo_vol d)"
    using fat_free_ends[OF part.block_dev_axioms demo_vol_ok, of 0 2] demo_chain[of 0] unfolding demo_n by blast
  then show ?thesis by (simp add: demo_entries)
qed

text \<open>A full volume of the largest size hangs the kernel.  With a table of 65536 entries, none
  of them free, \<^verbatim>\<open>cluster_alloc_free\<close> never returns: the 16-bit cluster number wraps before it
  reaches the number of entries, so the search goes round for ever.
\<close>

theorem fat_alloc_full_hangs:
  assumes "block_dev descs dev ready sect nsect" and "block_dev.vol_ok dev ready sect nsect k s"
    and "n_entries (fats s k) = 65536" and "cnt \<noteq> 0"
    and "\<And>d. cluster_is_valid d \<Longrightarrow> block_dev.entries sect k s (unat d) \<noteq> 0"
  shows "cluster_alloc_free descs k cnt s = None"
  by (rule block_dev.cluster_alloc_free_hangs[OF assms])

definition full_fat :: fat_t where
  "full_fat = demo_fat\<lparr>tbl_sectors := 256, root_start := 513, data_start := 514\<rparr>"

theorem fat_alloc_full_hangs_witness:
  "cluster_alloc_free demo_descs 0 1 (demo_state (\<lambda>_. replicate 512 0xFF) full_fat) = None"
proof (rule fat_alloc_full_hangs[OF part.block_dev_axioms])
  let ?s = "demo_state (\<lambda>_. replicate 512 0xFF) full_fat"
  show "part.vol_ok 0 ?s" by (rule demo_state_ok) (simp_all add: full_fat_def demo_fat_def fat_geom_def)
  show n: "n_entries (fats ?s 0) = 65536" by (simp add: demo_parts n_entries_def full_fat_def)
  show "part.entries 0 ?s (unat d) \<noteq> 0" if "cluster_is_valid d" for d
  proof -
    have "unat d < 65536" using unsigned_less[of d, where ?'a = nat] by simp
    moreover have "le16 (replicate 512 0xFF) (2 * (unat d mod 256)) \<noteq> 0"
      by (simp add: le16_def)
    ultimately show ?thesis using n unfolding part.entries_def demo_sects by simp
  qed
qed simp

section \<open>Files\<close>

text \<open>C37: Opening a file and reading it gives its bytes.  If the directory scan finds the name at an
  item whose clusters form a chain in the data area that is long enough for the item's length,
  opening it for reading succeeds, and reading \<open>n\<close> bytes into a buffer outside the kernel's
  sector buffer then returns the smaller of \<open>n\<close> and the length, puts exactly that many first
  bytes of the chain's contents there, and changes neither the disk nor memory outside the
  two buffers.
\<close>

theorem fat_open_read:
  assumes "block_dev descs dev ready sect nsect" and "block_dev.vol_ok dev ready sect nsect k s"
    and "dir_scan (block_dev.dir_item sect k s) (to_sfn path) (dir_indices k s) (- 1) = Inl i"
    and "ffs fl = Some k" and "fmode fl AND O_TRUNC = 0"
    and "block_dev.item_file sect nsect k s (block_dev.dir_item sect k s i) cs"
    and "0 \<le> n" and "n < 2 ^ 31"
    and "m = min (nat n) (unat (le32 (block_dev.dir_item sect k s i) 28))"
    and "clear (fats s k) buf m"
  shows "\<exists>fl' s'. (do { (r, fl', s') \<leftarrow> fatfs_open uninit descs k (Some path) fl s;
        (cnt, fl', s') \<leftarrow> fatfs_read descs buf n fl' s'; Some (r, cnt, fl', s') })
      = Some (0, int m, fl', s')
    \<and> block_dev.vol_ok dev ready sect nsect k s' \<and> sect (drv s') = sect (drv s)
    \<and> mem_has (fmem s') buf (take m (block_dev.item_bytes sect k s (block_dev.dir_item sect k s i) cs))
    \<and> outside_kept (fats s k) buf m (fmem s) (fmem s')"
proof -
  obtain fl1 s1 where 1: "fatfs_open uninit descs k (Some path) fl s = Some (0, fl1, s1)"
    "block_dev.vol_ok dev ready sect nsect k s1" "same_vol k s s1" "sect (drv s1) = sect (drv s)"
    "block_dev.file_at sect nsect k s1 fl1 cs 0"
    "block_dev.file_bytes sect k s1 fl1 cs = block_dev.item_bytes sect k s (block_dev.dir_item sect k s i) cs"
    "fsize fl1 = le32 (block_dev.dir_item sect k s i) 28"
    using block_dev.fatfs_open_ok[OF assms(1-6)] by blast
  have m: "m = min (nat n) (unat (fsize fl1) - 0)" using assms(9) by (simp add: 1(7))
  have "clear (fats s1 k) buf m" using assms(10) by (simp add: clear_def same_vol_fat(6)[OF 1(3)])
  then have "min (nat n) (unat (fsize fl1) - 0) = 0 \<or> clear (fats s1 k) buf (min (nat n) (unat (fsize fl1) - 0))"
    unfolding m[symmetric] by blast
  from block_dev.fatfs_read_ok[OF assms(1) 1(2,5) assms(7,8) this, folded m] obtain fl2 s2 where
    2: "fatfs_read descs buf n fl1 s1 = Some (int m, fl2, s2)" "block_dev.vol_ok dev ready sect nsect k s2"
    "sect (drv s2) = sect (drv s1)" "outside_kept (fats s1 k) buf m (fmem s1) (fmem s2)"
    "mem_has (fmem s2) buf (take m (drop 0 (block_dev.file_bytes sect k s1 fl1 cs)))" by blast
  have "outside_kept (fats s k) buf m (fmem s) (fmem s2)"
    using 2(4) 1(3) unfolding outside_kept_def same_vol_def by (simp add: same_vol_fat(6)[OF 1(3)])
  then show ?thesis using 1 2 by (intro exI[of _ fl2] exI[of _ s2]) simp
qed

lemma demo_items:
  "part.dir_item 0 demo_vol 0 = demo_item 65 2 0x58 2" "part.dir_item 0 demo_vol (Suc 0) = demo_item 66 4 3 0"
  by (simp_all add: part.dir_item_def demo_vol_fat) (simp_all add: demo_fat_def demo_sect demo_item_def)

lemma demo_find:
  "dir_scan (part.dir_item 0 demo_vol) (to_sfn (map of_char ''a.txt'')) (dir_indices 0 demo_vol) (- 1) = Inl 0"
  "dir_scan (part.dir_item 0 demo_vol) (to_sfn (map of_char ''b.txt'')) (dir_indices 0 demo_vol) (- 1) = Inl 1"
proof -
  have ix: "dir_indices 0 demo_vol = 0 # Suc 0 # [2..<16]"
    by (simp add: dir_indices_def demo_vol_fat demo_fat_def upt_conv_Cons)
  have n: "to_sfn (map of_char ''a.txt'') = take SFN_LEN (demo_item 65 2 0x58 2)"
    "to_sfn (map of_char ''b.txt'') = take SFN_LEN (demo_item 66 4 3 0)"
    by code_simp+
  have h: "demo_item a b c d ! 0 = a" for a b c d by (simp add: demo_item_def)
  have "take SFN_LEN (demo_item 65 2 0x58 2) \<noteq> take SFN_LEN (demo_item 66 4 3 0)"
    by (simp add: demo_item_def SFN_LEN_def)
  then show "dir_scan (part.dir_item 0 demo_vol) (to_sfn (map of_char ''a.txt'')) (dir_indices 0 demo_vol) (- 1) = Inl 0"
    "dir_scan (part.dir_item 0 demo_vol) (to_sfn (map of_char ''b.txt'')) (dir_indices 0 demo_vol) (- 1) = Inl 1"
    unfolding n ix by (simp_all add: demo_items h DIRITEM_NAME_END_def DIRITEM_NAME_FREE_def)
qed

definition demo_file :: file_t where
  "demo_file = zero_file\<lparr>ffs := Some 0\<rparr>"

lemma demo_clus: "part.clus 0 demo_vol 2 = replicate 512 97" "part.clus 0 demo_vol 3 = replicate 512 98"
  by (simp_all add: part.clus_def demo_vol_fat data_sector_def) (simp_all add: demo_fat_def demo_sect)

lemma demo_item_file: "part.item_file 0 demo_vol (demo_item 65 2 0x58 2) [2, 3]"
  "part.item_bytes 0 demo_vol (demo_item 65 2 0x58 2) [2, 3] = replicate 512 97 @ replicate 88 98"
proof -
  have l: "le16 (demo_item 65 2 0x58 2) 20 = 0" "le16 (demo_item 65 2 0x58 2) 26 = 2"
    "le32 (demo_item 65 2 0x58 2) 28 = 600"
    by (simp_all add: demo_item_def le16_def le32_def nth_append)
  show "part.item_file 0 demo_vol (demo_item 65 2 0x58 2) [2, 3]"
    using demo_chain[of 0] by (simp add: part.item_file_def l demo_n demo_vol_fat)
      (simp add: demo_fat_def cluster_bytes_def in_data_def data_sector_def n_entries_def)
  have "take 600 (replicate 512 97 @ replicate 512 98) = replicate 512 97 @ replicate 88 (98 :: u8)"
    by (simp only: take_append take_replicate length_replicate) simp
  then show "part.item_bytes 0 demo_vol (demo_item 65 2 0x58 2) [2, 3] = replicate 512 97 @ replicate 88 98"
    by (simp add: part.item_bytes_def l demo_clus)
qed

theorem fat_open_read_witness:
  "\<exists>fl s'. (do { (r, fl, s') \<leftarrow> fatfs_open 0 demo_descs 0 (Some (map of_char ''a.txt'')) demo_file demo_vol;
       (cnt, fl, s') \<leftarrow> fatfs_read demo_descs 0x20000 1000 fl s'; Some (r, cnt, fl, s') }) = Some (0, 600, fl, s')
    \<and> mem_has (fmem s') 0x20000 (replicate 512 97 @ replicate 88 98)"
proof -
  note rd = fat_open_read[OF part.block_dev_axioms demo_vol_ok demo_find(1), of demo_file "[2, 3]" 1000 600 "0x20000" 0]
  have "clear (fats demo_vol 0) 0x20000 600"
  proof -
    have "4096 \<le> unat (0x20000 + of_nat i - 0x10000 :: u32)" if "i < 600" for i
    proof -
      have "0x20000 + of_nat i - 0x10000 = (of_nat (65536 + i) :: u32)" by simp
      moreover have "unat (of_nat (65536 + i) :: u32) = 65536 + i" by (rule unat_of_nat32) (use that in simp)
      ultimately show ?thesis by simp
    qed
    then show ?thesis by (simp add: clear_def demo_vol_fat demo_fat_def)
  qed
  moreover have "unat (le32 (demo_item 65 2 0x58 2) 28) = 600"
    by (simp add: demo_item_def le32_def nth_append)
  ultimately show ?thesis
    using rd demo_item_file by (fastforce simp: demo_items demo_file_def O_TRUNC_def zero_file_def)
qed

text \<open>C20: Closing a file records it in its directory item.  Closing a file that stands for item \<open>i\<close> of
  the root directory returns with the file as it was and writes its length and its first
  cluster into that item and nothing else: the rest of the item (the name, the attribute, the
  times), every other item, the allocation table and every other sector of the disk are as
  before.  It does so for a file that was opened only for reading as well.
\<close>

theorem fat_close_records:
  assumes "block_dev descs dev ready sect nsect" and "block_dev.vol_ok dev ready sect nsect k s"
    and "i < unat (root_ent_cnt (fats s k))" and "ffs fl = Some k" and "p_index fl = int i"
  shows "\<exists>s'. fatfs_close descs fl s = Some (fl, s') \<and> block_dev.vol_ok dev ready sect nsect k s'
    \<and> (let item = block_dev.dir_item sect k s i; item' = block_dev.dir_item sect k s' i
       in le32 item' 28 = fsize fl \<and> le16 item' 26 = ucast (word_of_int (sblk fl) :: u32)
        \<and> le16 item' 20 = ucast (drop_bit 16 (word_of_int (sblk fl) :: u32))
        \<and> (\<forall>b \<in> {0..<20} \<union> {22..<26}. item' ! b = item ! b))
    \<and> (\<forall>j. j \<noteq> i \<longrightarrow> block_dev.dir_item sect k s' j = block_dev.dir_item sect k s j)
    \<and> block_dev.entries sect k s' = block_dev.entries sect k s
    \<and> (\<forall>a. a \<noteq> uint (root_start (fats s k)) + int (i div 16) \<longrightarrow> sect (drv s') a = sect (drv s) a)"
proof -
  let ?item = "block_dev.dir_item sect k s i"
  from block_dev.fatfs_close_item[OF assms] obtain s' where
    s': "fatfs_close descs fl s = Some (fl, s')" "block_dev.vol_ok dev ready sect nsect k s'"
    "block_dev.dir_item sect k s' = (block_dev.dir_item sect k s)(i := closed_item ?item fl)"
    "block_dev.entries sect k s' = block_dev.entries sect k s"
    "\<And>a. a \<noteq> uint (root_start (fats s k)) + int (i div 16) \<Longrightarrow> sect (drv s') a = sect (drv s) a"
    by blast
  have "ready s" using assms(2) by (simp add: block_dev.vol_ok_def[OF assms(1)])
  then have len: "length ?item = 32" by (rule block_dev.dir_item_length[OF assms(1)])
  show ?thesis
    using s' closed_item_fields[OF len, of fl] by (intro exI[of _ s']) (simp add: Let_def)
qed

theorem fat_close_records_witness:
  "\<exists>s'. fatfs_close demo_descs (demo_file\<lparr>p_index := 1, sblk := 5, fsize := 700\<rparr>) demo_vol
      = Some (demo_file\<lparr>p_index := 1, sblk := 5, fsize := 700\<rparr>, s')
    \<and> le32 (part.dir_item 0 s' 1) 28 = 700 \<and> le16 (part.dir_item 0 s' 1) 26 = 5
    \<and> part.dir_item 0 s' 0 = demo_item 65 2 0x58 2"
proof -
  have "1 < unat (root_ent_cnt (fats demo_vol 0))" by (simp add: demo_vol_fat demo_fat_def)
  from fat_close_records[OF part.block_dev_axioms demo_vol_ok this, of "demo_file\<lparr>p_index := 1, sblk := 5, fsize := 700\<rparr>"]
  show ?thesis by (auto simp: Let_def demo_items demo_file_def zero_file_def)
qed

text \<open>C40: Removing a file hides the files listed after it.  \<^verbatim>\<open>fatfs_unlink\<close> clears the whole item, and a
  cleared item is the end of the directory for every scan: a file that was found at a later
  index before is not found any more, although its item is still there.
\<close>

theorem fat_unlink_hides:
  assumes "block_dev descs dev ready sect nsect" and "block_dev.vol_ok dev ready sect nsect k s"
    and "dir_scan (block_dev.dir_item sect k s) (to_sfn path) (dir_indices k s) (- 1) = Inl i"
    and "chain (n_entries (fats s k)) (block_dev.entries sect k s) (le16 (block_dev.dir_item sect k s i) 26) cs"
    and "dir_scan (block_dev.dir_item sect k s) (to_sfn other) (dir_indices k s) (- 1) = Inl j" and "i < j"
    and "fmode fl AND O_CREAT = 0"
  shows "\<exists>s'. fatfs_unlink descs k path s = Some (0, s')
    \<and> block_dev.dir_item sect k s' j = block_dev.dir_item sect k s j
    \<and> (\<exists>s''. fatfs_open uninit descs k (Some other) fl s' = Some (- 1, fl, s''))"
  using block_dev.unlink_hides[OF assms] by blast

theorem fat_unlink_hides_witness:
  "\<exists>s'. fatfs_unlink demo_descs 0 (map of_char ''a.txt'') demo_vol = Some (0, s')
    \<and> part.dir_item 0 s' 1 = demo_item 66 4 3 0
    \<and> (\<exists>s''. fatfs_open 0 demo_descs 0 (Some (map of_char ''b.txt'')) demo_file s' = Some (- 1, demo_file, s''))"
proof -
  have "le16 (demo_item 65 2 0x58 2) 26 = 2" by (simp add: demo_item_def le16_def nth_append)
  then have "chain (n_entries (fats demo_vol 0)) (part.entries 0 demo_vol) (le16 (part.dir_item 0 demo_vol 0) 26) [2, 3]"
    by (simp only: demo_items demo_n demo_chain)
  from fat_unlink_hides[OF part.block_dev_axioms demo_vol_ok demo_find(1) this demo_find(2), of demo_file 0]
  show ?thesis by (simp add: demo_items demo_file_def zero_file_def)
qed

end
