(* ===== verification/Task.thy ===== *)
theory Task
  imports Vfs Blocks
begin

text \<open>
  The life of a process (\<^verbatim>\<open>kernel/core/task.c\<close>): creation, fork, program loading, exit and
  wait, over the scheduler, address spaces, descriptors and open files.

  Addresses the linker or the compiler chooses (of the task structures, of code, of local
  variables whose address is taken) are the argument \<open>lay\<close>.  The memory of the drivers under
  the file systems is the kernel's memory: \<open>view\<close> reads and writes it in their state, and a
  file call starts and ends with the same contents on both sides.  Task names and file names
  are the characters of the strings.  A call that blocks takes \<open>resume\<close> (theory \<open>Ipc\<close>).
  A failed \<^verbatim>\<open>ASSERT\<close>, a page fault and a null dereference are \<open>None\<close>.  Log output is not
  modelled.
\<close>

section \<open>State\<close>

record ('h, 'w) os = "('h, 'w) vfs" +
  task_table_mutex :: mutex_t

record layout =
  task_addr :: "task_ref \<Rightarrow> u32"
  tss_addr :: "task_ref \<Rightarrow> u32"
  idle_task_entry :: u32
  idle_task_stack :: u32
  first_task_entry :: u32
  s_first_start :: u32
  e_first_task :: u32
  elf_hdr_at :: u32
  elf_phdr_at :: u32
  task_args_at :: u32

record 'w mem_view =
  get_mem :: "'w \<Rightarrow> memory"
  set_mem :: "memory \<Rightarrow> 'w \<Rightarrow> 'w"

definition TASK_NR :: nat where "TASK_NR = 128"
definition TASK_NAME_SIZE :: nat where "TASK_NAME_SIZE = 32"
definition TASK_FLAGS_SYSTEM :: int where "TASK_FLAGS_SYSTEM = 1"
definition IDLE_TASK_SIZE :: u32 where "IDLE_TASK_SIZE = 1024"
definition EFLAGS_DEFAULT :: u32 where "EFLAGS_DEFAULT = 2"
definition MEM_TASK_STACK_TOP :: u32 where "MEM_TASK_STACK_TOP = 0xE0000000"
definition MEM_TASK_STACK_SIZE :: u32 where "MEM_TASK_STACK_SIZE = 4096 * 500"
definition MEM_TASK_ARG_SIZE :: u32 where "MEM_TASK_ARG_SIZE = 4096 * 4"

definition zero_tss :: tss_t where
  "zero_tss = \<lparr>ts_esp0 = 0, ts_ss0 = 0, ts_cr3 = 0, ts_eip = 0, ts_eflags = 0, ts_eax = 0, ts_ecx = 0,
     ts_edx = 0, ts_ebx = 0, ts_esp = 0, ts_ebp = 0, ts_esi = 0, ts_edi = 0, ts_es = 0, ts_cs = 0,
     ts_ss = 0, ts_ds = 0, ts_fs = 0, ts_gs = 0\<rparr>"

definition zero_task :: task_t where
  "zero_task = \<lparr>tstate = TASK_CREATED, tid = 0, parent = None, heap_start = 0, heap_end = 0,
     sleep_ticks = 0, time_ticks = 0, slice_ticks = 0, status = 0,
     file_table = replicate (nat TASK_OFILE_NR) None, tname = [], tss = zero_tss, tss_sel = 0\<rparr>"

definition upd_tss :: "task_ref \<Rightarrow> (tss_t \<Rightarrow> tss_t) \<Rightarrow> 'm sched_scheme \<Rightarrow> 'm sched_scheme" where
  "upd_tss t f s = upd_task t (\<lambda>k. k\<lparr>tss := f (tss k)\<rparr>) s"

text \<open>\<^verbatim>\<open>kernel_memset(task, 0, sizeof(task_t))\<close>, the list nodes included.\<close>

definition clear_task :: "task_ref \<Rightarrow> 'm sched_scheme \<Rightarrow> 'm sched_scheme" where
  "clear_task t s = (upd_task t (\<lambda>_. zero_task) s)\<lparr>run_links := node_init (run_links s) t,
     wait_links := node_init (wait_links s) t, all_links := node_init (all_links s) t\<rparr>"

section \<open>Creating a task\<close>

definition tss_init_failed :: "int \<Rightarrow> u32 \<Rightarrow> ('h, 'm) cpu_scheme \<Rightarrow> (int \<times> ('h, 'm) cpu_scheme) option" where
  "tss_init_failed sel kernel_stack s =
    do {
      s \<leftarrow> gdt_free_sel sel s;
      s \<leftarrow> (if kernel_stack \<noteq> 0 then memory_free_page kernel_stack s else Some s);
      Some (- 1, s)
    }"

definition tss_init ::
    "layout \<Rightarrow> task_ref \<Rightarrow> int \<Rightarrow> u32 \<Rightarrow> u32 \<Rightarrow> ('h, 'm) cpu_scheme \<Rightarrow> (int \<times> ('h, 'm) cpu_scheme) option" where
  "tss_init lay t flag entry esp s =
    do {
      (sel, s) \<leftarrow> gdt_alloc_desc s;
      if sel < 0 then Some (- 1, s)
      else do {
        s \<leftarrow> segment_desc_set sel (tss_addr lay t) 104 (SEG_P_PRESENT OR SEG_DPL_0 OR SEG_TYPE_TSS) s;
        let s = upd_tss t (\<lambda>_. zero_tss) s;
        let (code_sel, data_sel) =
          (if flag AND TASK_FLAGS_SYSTEM \<noteq> 0 then (KERNEL_SELECTOR_CS, KERNEL_SELECTOR_DS)
           else (app_code_sel s OR SEG_CPL_3, app_data_sel s OR SEG_CPL_3));
        (kernel_stack, s) \<leftarrow> memory_alloc_page s;
        if kernel_stack = 0 then tss_init_failed sel kernel_stack s
        else do {
          let s = upd_tss t (\<lambda>r. r\<lparr>ts_eip := entry, ts_esp := esp, ts_esp0 := kernel_stack + MEM_PAGE_SIZE,
            ts_ss := word_of_int data_sel, ts_ss0 := word_of_int KERNEL_SELECTOR_DS,
            ts_gs := word_of_int data_sel, ts_fs := word_of_int data_sel, ts_ds := word_of_int data_sel,
            ts_es := word_of_int data_sel, ts_cs := word_of_int code_sel,
            ts_eflags := EFLAGS_IF OR EFLAGS_DEFAULT\<rparr>) s;
          (page_dir, s) \<leftarrow> memory_create_uvm s;
          if page_dir = 0
          then do { s \<leftarrow> gdt_free_sel sel s; tss_init_failed sel kernel_stack s }
          else let s = upd_tss t (\<lambda>r. r\<lparr>ts_cr3 := page_dir\<rparr>) s
               in Some (0, upd_task t (\<lambda>k. k\<lparr>tss_sel := sel\<rparr>) s)
        }
      }
    }"

text \<open>The result of \<^verbatim>\<open>tss_init\<close> is not looked at.\<close>

definition task_init ::
    "layout \<Rightarrow> task_ref \<Rightarrow> u8 list \<Rightarrow> int \<Rightarrow> u32 \<Rightarrow> u32 \<Rightarrow> ('h, 'm) cpu_scheme \<Rightarrow> (int \<times> ('h, 'm) cpu_scheme) option" where
  "task_init lay t name flag entry esp s =
    do {
      (_, s) \<leftarrow> tss_init lay t flag entry esp s;
      let s = upd_task t (\<lambda>k. k\<lparr>tname := name_copy TASK_NAME_SIZE name, parent := None, tstate := TASK_CREATED,
        sleep_ticks := 0, heap_start := 0, heap_end := 0, time_ticks := TASK_TIME_SLICE_DEFAULT,
        slice_ticks := TASK_TIME_SLICE_DEFAULT, status := 0\<rparr>) s;
      let s = s\<lparr>all_links := node_init (all_links s) t, run_links := node_init (run_links s) t,
        wait_links := node_init (wait_links s) t\<rparr>;
      let s = upd_task t (\<lambda>k. k\<lparr>file_table := replicate (nat TASK_OFILE_NR) None\<rparr>) s;
      let me = curr_task s;
      let (st, s) = irq_enter_protection s;
      let s = upd_task t (\<lambda>k. k\<lparr>tid := sint (task_addr lay t)\<rparr>) s;
      (l, h) \<leftarrow> list_insert_last (task_list s) (all_links s) t;
      Some (0, irq_leave_protection me st (s\<lparr>task_list := l, all_links := h\<rparr>))
    }"

text \<open>The page freed is found from \<^verbatim>\<open>esp\<close>, although the stack was at \<^verbatim>\<open>esp0\<close>.\<close>

definition task_uninit :: "task_ref \<Rightarrow> ('h, 'm) cpu_scheme \<Rightarrow> ('h, 'm) cpu_scheme option" where
  "task_uninit t s =
    do {
      let k = tasks s t;
      s \<leftarrow> (if tss_sel k \<noteq> 0 then gdt_free_sel (tss_sel k) s else Some s);
      s \<leftarrow> (if ts_esp0 (tss k) \<noteq> 0 then memory_free_page (ts_esp (tss k) - MEM_PAGE_SIZE) s else Some s);
      s \<leftarrow> (if ts_cr3 (tss k) \<noteq> 0 then memory_destroy_uvm (ts_cr3 (tss k)) s else Some s);
      Some (clear_task t s)
    }"

primrec clear_tasks :: "nat \<Rightarrow> 'm sched_scheme \<Rightarrow> 'm sched_scheme" where
  "clear_tasks 0 s = s"
| "clear_tasks (Suc n) s = clear_task (Table_task n) (clear_tasks n s)"

definition task_manager_init :: "layout \<Rightarrow> ('h, 'w, 'm) os_scheme \<Rightarrow> ('h, 'w, 'm) os_scheme option" where
  "task_manager_init lay s =
    do {
      let s = clear_tasks TASK_NR s;
      let s = s\<lparr>task_table_mutex := mutex_init (task_table_mutex s)\<rparr>;
      (sel, s) \<leftarrow> gdt_alloc_desc s;
      s \<leftarrow> segment_desc_set sel 0 0xFFFFFFFF
             (SEG_P_PRESENT OR SEG_DPL_3 OR SEG_S_NORMAL OR SEG_TYPE_DATA OR SEG_TYPE_RW OR SEG_D) s;
      let s = s\<lparr>app_data_sel := sel\<rparr>;
      (sel, s) \<leftarrow> gdt_alloc_desc s;
      s \<leftarrow> segment_desc_set sel 0 0xFFFFFFFF
             (SEG_P_PRESENT OR SEG_DPL_3 OR SEG_S_NORMAL OR SEG_TYPE_CODE OR SEG_TYPE_RW OR SEG_D) s;
      let s = s\<lparr>app_code_sel := sel, curr_task := None, ready_list := list_init (ready_list s),
        task_list := list_init (task_list s), sleep_list := list_init (sleep_list s)\<rparr>;
      (_, s) \<leftarrow> task_init lay Idle_task (map of_char ''idle-task'') TASK_FLAGS_SYSTEM
        (idle_task_entry lay) (idle_task_stack lay + 4 * IDLE_TASK_SIZE) s;
      task_start Idle_task s
    }"

text \<open>A byte stored at a virtual address of the current address space.\<close>

definition vwrite :: "u32 \<Rightarrow> u8 \<Rightarrow> 'm mm_scheme \<Rightarrow> 'm mm_scheme option" where
  "vwrite a b s = (if a < MEMORY_TASK_BASE then Some (s\<lparr>mem := (mem s)(a := b)\<rparr>)
     else do { p \<leftarrow> mmu_walk (cr3 s) (mem s) a; Some (s\<lparr>mem := (mem s)(p := b)\<rparr>) })"

primrec copy_to_virtual :: "nat \<Rightarrow> u32 \<Rightarrow> u32 \<Rightarrow> 'm mm_scheme \<Rightarrow> 'm mm_scheme option" where
  "copy_to_virtual 0 dest src s = Some s"
| "copy_to_virtual (Suc n) dest src s =
    do { s \<leftarrow> vwrite dest (mem s src) s; copy_to_virtual n (dest + 1) (src + 1) s }"

definition task_first_init :: "layout \<Rightarrow> ('h, 'm) cpu_scheme \<Rightarrow> ('h, 'm) cpu_scheme option" where
  "task_first_init lay s =
    (let first_start = first_task_entry lay;
         copy_size = e_first_task lay - s_first_start lay;
         alloc_size = 10 * MEM_PAGE_SIZE
     in if \<not> copy_size < alloc_size then None
        else do {
          (_, s) \<leftarrow> task_init lay First_task (map of_char ''first_task'') 0 first_start (first_start + alloc_size) s;
          let s = upd_task First_task (\<lambda>k. k\<lparr>heap_start := e_first_task lay, heap_end := e_first_task lay\<rparr>) s;
          let s = s\<lparr>tr := tss_sel (tasks s First_task), curr_task := Some First_task\<rparr>;
          let s = mmu_set_page_dir (ts_cr3 (tss (tasks s First_task))) s;
          (_, s) \<leftarrow> memory_alloc_page_for first_start alloc_size (PTE_P OR PTE_W OR PTE_U) s;
          s \<leftarrow> (if first_start = 0 \<or> s_first_start lay = 0 then Some s
               else copy_to_virtual (unat copy_size) first_start (s_first_start lay) s);
          task_start First_task s
        })"

definition task_first_task :: task_ref where
  "task_first_task = First_task"

section \<open>Slots of the task table, fork\<close>

fun find_free_task :: "nat list \<Rightarrow> (task_ref \<Rightarrow> task_t) \<Rightarrow> task_ref option" where
  "find_free_task [] ts = None"
| "find_free_task (i # is) ts =
    (if tname (ts (Table_task i)) = [] then Some (Table_task i) else find_free_task is ts)"

definition lock_table :: "('h, 'w, 'm) os_scheme resume \<Rightarrow> ('h, 'w, 'm) os_scheme \<Rightarrow> ('h, 'w, 'm) os_scheme option" where
  "lock_table resume s =
    do { (m, s') \<leftarrow> mutex_lock (task_table_mutex s) s; resumed resume (curr_task s) (s'\<lparr>task_table_mutex := m\<rparr>) }"

definition unlock_table :: "('h, 'w, 'm) os_scheme resume \<Rightarrow> ('h, 'w, 'm) os_scheme \<Rightarrow> ('h, 'w, 'm) os_scheme option" where
  "unlock_table resume s =
    do { (m, s') \<leftarrow> mutex_unlock (task_table_mutex s) s; resumed resume (curr_task s) (s'\<lparr>task_table_mutex := m\<rparr>) }"

definition alloc_task ::
    "('h, 'w, 'm) os_scheme resume \<Rightarrow> ('h, 'w, 'm) os_scheme \<Rightarrow> (task_ref option \<times> ('h, 'w, 'm) os_scheme) option" where
  "alloc_task resume s =
    do {
      s \<leftarrow> lock_table resume s;
      let t = find_free_task [0..<TASK_NR] (tasks s);
      s \<leftarrow> unlock_table resume s;
      Some (t, s)
    }"

definition free_task :: "('h, 'w, 'm) os_scheme resume \<Rightarrow> task_ref \<Rightarrow> ('h, 'w, 'm) os_scheme \<Rightarrow> ('h, 'w, 'm) os_scheme option" where
  "free_task resume t s =
    do {
      s \<leftarrow> lock_table resume s;
      unlock_table resume (upd_task t (\<lambda>k. k\<lparr>tname := []\<rparr>) s)
    }"

text \<open>The fields of a \<^verbatim>\<open>syscall_frame_t\<close> on the kernel stack, by offset.\<close>

definition SYSCALL_FRAME_SIZE :: u32 where "SYSCALL_FRAME_SIZE = 88"

definition syscall_frame_at :: "tss_t \<Rightarrow> u32" where
  "syscall_frame_at r = ts_esp0 r - SYSCALL_FRAME_SIZE"

definition frame_tss :: "memory \<Rightarrow> u32 \<Rightarrow> tss_t \<Rightarrow> tss_t" where
  "frame_tss m f r = r\<lparr>ts_eax := 0, ts_ebx := load32 m (f + 36), ts_ecx := load32 m (f + 44),
     ts_edx := load32 m (f + 40), ts_esi := load32 m (f + 24), ts_edi := load32 m (f + 20),
     ts_ebp := load32 m (f + 28), ts_cs := load32 m (f + 56), ts_ds := load32 m (f + 16),
     ts_es := load32 m (f + 12), ts_fs := load32 m (f + 8), ts_gs := load32 m (f + 4),
     ts_eflags := load32 m f\<rparr>"

text \<open>\<^verbatim>\<open>cr3\<close> is unsigned: the test for a failed copy never succeeds.\<close>

definition sys_fork ::
    "layout \<Rightarrow> ('h, 'w, 'm) os_scheme resume \<Rightarrow> ('h, 'w, 'm) os_scheme \<Rightarrow> (int \<times> ('h, 'w, 'm) os_scheme) option" where
  "sys_fork lay resume s =
    do {
      par \<leftarrow> task_current s;
      (child, s) \<leftarrow> alloc_task resume s;
      case child of
        None \<Rightarrow> Some (- 1, s)
      | Some c \<Rightarrow> do {
          let f = syscall_frame_at (tss (tasks s par));
          (err, s) \<leftarrow> task_init lay c (tname (tasks s par)) 0 (load32 (mem s) (f + 52))
            (load32 (mem s) (f + 80) + 4 * ucast SYSCALL_PARAM_COUNT) s;
          if err < 0 then do { s \<leftarrow> task_uninit c s; s \<leftarrow> free_task resume c s; Some (- 1, s) }
          else do {
            s \<leftarrow> copy_opened_files c s;
            let s = upd_tss c (frame_tss (mem s) f) s;
            let s = upd_task c (\<lambda>k. k\<lparr>parent := Some par\<rparr>) s;
            (to, s) \<leftarrow> memory_copy_uvm (ts_cr3 (tss (tasks s par))) s;
            let s = upd_tss c (\<lambda>r. r\<lparr>ts_cr3 := to\<rparr>) s;
            s \<leftarrow> task_start c s;
            Some (tid (tasks s c), s)
          }
        }
    }"

section \<open>Exit and wait\<close>

text \<open>A file call on the kernel's memory.\<close>

definition with_view :: "'w mem_view \<Rightarrow> (('h, 'w, 'm) os_scheme \<Rightarrow> ('a \<times> ('h, 'w, 'm) os_scheme) option)
    \<Rightarrow> ('h, 'w, 'm) os_scheme \<Rightarrow> ('a \<times> ('h, 'w, 'm) os_scheme) option" where
  "with_view view call s =
    do {
      (r, s) \<leftarrow> call (s\<lparr>world := set_mem view (mem s) (world s)\<rparr>);
      Some (r, s\<lparr>mem := get_mem view (world s)\<rparr>)
    }"

fun close_files :: "'w fs_ops \<Rightarrow> 'w mem_view \<Rightarrow> nat list \<Rightarrow> task_ref \<Rightarrow> ('h, 'w, 'm) os_scheme \<Rightarrow> ('h, 'w, 'm) os_scheme option" where
  "close_files ops view [] c s = Some s"
| "close_files ops view (fd # fds) c s =
    (case file_table (tasks s c) ! fd of
       None \<Rightarrow> close_files ops view fds c s
     | Some f \<Rightarrow> do {
         (_, s) \<leftarrow> with_view view (sys_close ops (int fd)) s;
         close_files ops view fds c (set_fd c fd None s)
       })"

text \<open>The children go to the first task; the result is whether one of them is a zombie.\<close>

fun move_children :: "nat list \<Rightarrow> task_ref \<Rightarrow> 'm sched_scheme \<Rightarrow> bool \<times> 'm sched_scheme" where
  "move_children [] c s = (False, s)"
| "move_children (i # is) c s =
    (let t = Table_task i
     in if parent (tasks s t) = Some c
        then let z = (tstate (tasks s t) = TASK_ZOMBIE);
                 (z', s) = move_children is c (upd_task t (\<lambda>k. k\<lparr>parent := Some First_task\<rparr>) s)
             in (z \<or> z', s)
        else move_children is c s)"

definition wake_waiting :: "task_ref \<Rightarrow> 'm sched_scheme \<Rightarrow> 'm sched_scheme option" where
  "wake_waiting t s = (if tstate (tasks s t) = TASK_WAITTING then task_set_ready t s else Some s)"

definition exit_switch :: "task_ref \<Rightarrow> bool \<Rightarrow> int \<Rightarrow> 'm sched_scheme \<Rightarrow> 'm sched_scheme option" where
  "exit_switch c move_child code s =
    (let me = curr_task s; (st, s) = irq_enter_protection s
     in do {
       p \<leftarrow> parent (tasks s c);
       s \<leftarrow> (if move_child \<and> p \<noteq> First_task then wake_waiting First_task s else Some s);
       s \<leftarrow> wake_waiting p s;
       let s = upd_task c (\<lambda>k. k\<lparr>tstate := TASK_ZOMBIE, status := code\<rparr>) s;
       s \<leftarrow> task_dispatch (task_set_block c s);
       Some (irq_leave_protection me st s)
     })"

definition sys_exit ::
    "'w fs_ops \<Rightarrow> 'w mem_view \<Rightarrow> ('h, 'w, 'm) os_scheme resume \<Rightarrow> int \<Rightarrow> ('h, 'w, 'm) os_scheme \<Rightarrow> ('h, 'w, 'm) os_scheme option" where
  "sys_exit ops view resume code s =
    do {
      c \<leftarrow> task_current s;
      s \<leftarrow> close_files ops view [0..<nat TASK_OFILE_NR] c s;
      s \<leftarrow> lock_table resume s;
      let (move_child, s) = move_children [0..<TASK_NR] c s;
      s \<leftarrow> unlock_table resume s;
      exit_switch c move_child code s
    }"

fun find_zombie :: "nat list \<Rightarrow> task_ref \<Rightarrow> 'm sched_scheme \<Rightarrow> task_ref option" where
  "find_zombie [] c s = None"
| "find_zombie (i # is) c s =
    (if parent (tasks s (Table_task i)) = Some c \<and> tstate (tasks s (Table_task i)) = TASK_ZOMBIE
     then Some (Table_task i) else find_zombie is c s)"

definition store_status :: "u32 \<Rightarrow> int \<Rightarrow> 'm mm_scheme \<Rightarrow> 'm mm_scheme option" where
  "store_status a v s =
    (let w = word_of_int v :: u32
     in do {
       s \<leftarrow> vwrite a (ucast w) s;
       s \<leftarrow> vwrite (a + 1) (ucast (drop_bit 8 w)) s;
       s \<leftarrow> vwrite (a + 2) (ucast (drop_bit 16 w)) s;
       vwrite (a + 3) (ucast (drop_bit 24 w)) s
     })"

definition reap :: "u32 \<Rightarrow> task_ref \<Rightarrow> 'm mm_scheme \<Rightarrow> (int \<times> 'm mm_scheme) option" where
  "reap status_at t s =
    do {
      let k = tasks s t;
      s \<leftarrow> store_status status_at (status k) s;
      s \<leftarrow> memory_destroy_uvm (ts_cr3 (tss k)) s;
      s \<leftarrow> memory_free_page (ts_esp0 (tss k) - MEM_PAGE_SIZE) s;
      Some (tid k, clear_task t s)
    }"

definition wait_block :: "task_ref \<Rightarrow> 'm sched_scheme \<Rightarrow> 'm sched_scheme option" where
  "wait_block c s =
    (let me = curr_task s; (st, s) = irq_enter_protection s;
         s = upd_task c (\<lambda>k. k\<lparr>tstate := TASK_WAITTING\<rparr>) (task_set_block c s)
     in do { s \<leftarrow> task_dispatch s; Some (irq_leave_protection me st s) })"

partial_function (option) sys_wait ::
    "('h, 'w, 'm) os_scheme resume \<Rightarrow> u32 \<Rightarrow> ('h, 'w, 'm) os_scheme \<Rightarrow> (int \<times> ('h, 'w, 'm) os_scheme) option" where
  "sys_wait resume status_at s =
    do {
      c \<leftarrow> task_current s;
      s \<leftarrow> lock_table resume s;
      case find_zombie [0..<TASK_NR] c s of
        Some t \<Rightarrow> do {
          (pid, s) \<leftarrow> reap status_at t s;
          s \<leftarrow> unlock_table resume s;
          Some (pid, s)
        }
      | None \<Rightarrow> do {
          s \<leftarrow> unlock_table resume s;
          s' \<leftarrow> wait_block c s;
          s \<leftarrow> resumed resume (curr_task s) s';
          sys_wait resume status_at s
        }
    }"

section \<open>Loading a program\<close>

text \<open>
  The copy of a segment, a page at a time; the destination is the physical address of the
  start of each piece, even where a piece runs over the end of a page.
\<close>

function load_pages :: "'w fs_ops \<Rightarrow> 'w mem_view \<Rightarrow> int \<Rightarrow> u32 \<Rightarrow> u32 \<Rightarrow> u32 \<Rightarrow> ('h, 'w, 'm) os_scheme
    \<Rightarrow> (int \<times> ('h, 'w, 'm) os_scheme) option" where
  "load_pages ops view fl page_dir vaddr sz s =
    (if sz = 0 then Some (0, s)
     else let curr_size = (if sz > MEM_PAGE_SIZE then MEM_PAGE_SIZE else sz)
       in do {
         (paddr, s) \<leftarrow> memory_get_paddr page_dir vaddr s;
         (cnt, s) \<leftarrow> with_view view (sys_read ops fl paddr (sint curr_size)) s;
         if cnt < sint curr_size then Some (- 1, s)
         else load_pages ops view fl page_dir (vaddr + curr_size) (sz - curr_size) s
       })"
  by auto
termination
proof (relation "measure (\<lambda>(ops, view, fl, page_dir, vaddr, sz, s). unat sz)", goal_cases)
  case (2 ops view fl page_dir vaddr sz s c)
  then have "0 < c" "c \<le> sz" by (auto simp: MEM_PAGE_SIZE_def word_gt_0)
  then have "0 < unat c" "unat c \<le> unat sz" by (simp_all add: unat_gt_0 word_gt_0 word_le_nat_alt)
  moreover from \<open>c \<le> sz\<close> have "unat (sz - c) = unat sz - unat c" by (rule unat_sub)
  ultimately have "unat (sz - c) < unat sz" by linarith
  then show ?case by simp
qed simp

declare load_pages.simps [simp del]

text \<open>The fields of the ELF headers, by offset.\<close>

definition ELF_HDR_SIZE :: u32 where "ELF_HDR_SIZE = 52"
definition ELF_PHDR_SIZE :: u32 where "ELF_PHDR_SIZE = 32"

record elf_phdr =
  p_type :: u32
  p_offset :: u32
  p_vaddr :: u32
  p_filesz :: u32
  p_memsz :: u32

definition elf_phdr_in :: "memory \<Rightarrow> u32 \<Rightarrow> elf_phdr" where
  "elf_phdr_in m a = \<lparr>p_type = load32 m a, p_offset = load32 m (a + 4), p_vaddr = load32 m (a + 8),
     p_filesz = load32 m (a + 16), p_memsz = load32 m (a + 20)\<rparr>"

definition load_phdr :: "'w fs_ops \<Rightarrow> 'w mem_view \<Rightarrow> int \<Rightarrow> elf_phdr \<Rightarrow> u32 \<Rightarrow> ('h, 'w, 'm) os_scheme
    \<Rightarrow> (int \<times> ('h, 'w, 'm) os_scheme) option" where
  "load_phdr ops view fl phdr page_dir s =
    do {
      (err, s) \<leftarrow> memory_alloc_for_page_dir page_dir (p_vaddr phdr) (p_memsz phdr) (PTE_P OR PTE_U OR PTE_W) s;
      if err < 0 then Some (- 1, s)
      else do {
        (err, s) \<leftarrow> with_view view (sys_lseek ops fl (sint (p_offset phdr)) 0) s;
        if err < 0 then Some (- 1, s)
        else load_pages ops view fl page_dir (p_vaddr phdr) (p_filesz phdr) s
      }
    }"

text \<open>
  A short read is looked for with an unsigned comparison: a read that fails with \<open>-1\<close> passes.
  The result is whether all headers were loaded.
\<close>

primrec load_phdrs :: "'w fs_ops \<Rightarrow> 'w mem_view \<Rightarrow> layout \<Rightarrow> task_ref \<Rightarrow> int \<Rightarrow> u32 \<Rightarrow> u32 \<Rightarrow> nat \<Rightarrow> u32
    \<Rightarrow> ('h, 'w, 'm) os_scheme \<Rightarrow> (bool \<times> ('h, 'w, 'm) os_scheme) option" where
  "load_phdrs ops view lay t fl page_dir entsize 0 e_phoff s = Some (True, s)"
| "load_phdrs ops view lay t fl page_dir entsize (Suc n) e_phoff s =
    do {
      (err, s) \<leftarrow> with_view view (sys_lseek ops fl (sint e_phoff) 0) s;
      if err < 0 then Some (False, s)
      else do {
        (cnt, s) \<leftarrow> with_view view (sys_read ops fl (elf_phdr_at lay) (uint ELF_PHDR_SIZE)) s;
        if (word_of_int cnt :: u32) < ELF_PHDR_SIZE then Some (False, s)
        else let phdr = elf_phdr_in (mem s) (elf_phdr_at lay)
          in if p_type phdr \<noteq> 1 \<or> p_vaddr phdr < MEMORY_TASK_BASE
             then load_phdrs ops view lay t fl page_dir entsize n (e_phoff + entsize) s
             else do {
               (err, s) \<leftarrow> load_phdr ops view fl phdr page_dir s;
               if err < 0 then Some (False, s)
               else let e = p_vaddr phdr + p_memsz phdr;
                        s = upd_task t (\<lambda>k. k\<lparr>heap_start := e, heap_end := e\<rparr>) s
                 in load_phdrs ops view lay t fl page_dir entsize n (e_phoff + entsize) s
             }
      }
    }"

definition load_failed :: "'w fs_ops \<Rightarrow> 'w mem_view \<Rightarrow> int \<Rightarrow> ('h, 'w, 'm) os_scheme
    \<Rightarrow> (u32 \<times> ('h, 'w, 'm) os_scheme) option" where
  "load_failed ops view fl s =
    (if fl \<noteq> 0 then do { (_, s) \<leftarrow> with_view view (sys_close ops fl) s; Some (0, s) } else Some (0, s))"

definition load_elf_file :: "'w fs_ops \<Rightarrow> 'w mem_view \<Rightarrow> layout \<Rightarrow> task_ref \<Rightarrow> u8 list \<Rightarrow> u32
    \<Rightarrow> ('h, 'w, 'm) os_scheme \<Rightarrow> (u32 \<times> ('h, 'w, 'm) os_scheme) option" where
  "load_elf_file ops view lay t name page_dir s =
    do {
      (fl, s) \<leftarrow> with_view view (sys_open ops name 0) s;
      if fl < 0 then load_failed ops view fl s
      else do {
        let h = elf_hdr_at lay;
        (cnt, s) \<leftarrow> with_view view (sys_read ops fl h (uint ELF_HDR_SIZE)) s;
        if (word_of_int cnt :: u32) < ELF_HDR_SIZE then load_failed ops view fl s
        else if mem s h \<noteq> 0x7F \<or> mem s (h + 1) \<noteq> chr CHR ''E'' \<or> mem s (h + 2) \<noteq> chr CHR ''L''
            \<or> mem s (h + 3) \<noteq> chr CHR ''F''
        then load_failed ops view fl s
        else do {
          (ok, s') \<leftarrow> load_phdrs ops view lay t fl page_dir (ucast (load16 (mem s) (h + 42)))
            (unat (load16 (mem s) (h + 44))) (load32 (mem s) (h + 28)) s;
          if \<not> ok then load_failed ops view fl s'
          else do {
            (_, s') \<leftarrow> with_view view (sys_close ops fl) s';
            Some (load32 (mem s') (h + 24), s')
          }
        }
      }
    }"

text \<open>Reading the caller's strings in the current address space.\<close>

definition vload32 :: "'m mm_scheme \<Rightarrow> u32 \<Rightarrow> u32 option" where
  "vload32 s a =
    do {
      b0 \<leftarrow> vread s a;
      b1 \<leftarrow> vread s (a + 1);
      b2 \<leftarrow> vread s (a + 2);
      b3 \<leftarrow> vread s (a + 3);
      Some (ucast b0 OR push_bit 8 (ucast b1) OR push_bit 16 (ucast b2) OR push_bit 24 (ucast b3))
    }"

partial_function (option) count_strings :: "u32 \<Rightarrow> int \<Rightarrow> 'm mm_scheme \<Rightarrow> int option" where
  "count_strings start cnt s =
    do { p \<leftarrow> vload32 s start; if p \<noteq> 0 then count_strings (start + 4) (cnt + 1) s else Some cnt }"

definition strings_count :: "u32 \<Rightarrow> 'm mm_scheme \<Rightarrow> int option" where
  "strings_count start s = (if start \<noteq> 0 then count_strings start 0 s else Some 0)"

partial_function (option) vstrlen :: "u32 \<Rightarrow> int \<Rightarrow> 'm mm_scheme \<Rightarrow> int option" where
  "vstrlen a n s = do { b \<leftarrow> vread s a; if b \<noteq> 0 then vstrlen (a + 1) (n + 1) s else Some n }"

text \<open>Each string is copied behind the pointer table, which is written by physical address.\<close>

primrec copy_arg_strings :: "nat \<Rightarrow> u32 \<Rightarrow> u32 \<Rightarrow> u32 \<Rightarrow> u32 \<Rightarrow> 'm mm_scheme \<Rightarrow> 'm mm_scheme option" where
  "copy_arg_strings 0 page_dir argv dest_arg tb s = Some s"
| "copy_arg_strings (Suc n) page_dir argv dest_arg tb s =
    do {
      from \<leftarrow> vload32 s argv;
      k \<leftarrow> (if from = 0 then Some 0 else vstrlen from 0 s);
      let len = word_of_int (k + 1);
      (err, s) \<leftarrow> memory_copy_uvm_data dest_arg page_dir from len s;
      if err < 0 then None
      else copy_arg_strings n page_dir (argv + 4) (dest_arg + len) (tb + 4)
             (s\<lparr>mem := store32 (mem s) tb dest_arg\<rparr>)
    }"

definition copy_args ::
    "layout \<Rightarrow> u32 \<Rightarrow> u32 \<Rightarrow> int \<Rightarrow> u32 \<Rightarrow> 'm mm_scheme \<Rightarrow> (int \<times> 'm mm_scheme) option" where
  "copy_args lay to page_dir argc argv s =
    do {
      let a = task_args_at lay;
      let s = s\<lparr>mem := store32 (store32 (mem s) (a + 4) (word_of_int argc)) (a + 8) (to + 12)\<rparr>;
      (tb, s) \<leftarrow> memory_get_paddr page_dir (to + 12) s;
      s \<leftarrow> copy_arg_strings (nat argc) page_dir argv (to + 12 + 4 * word_of_int (argc + 1)) tb s;
      let s = (if argc \<noteq> 0 then s\<lparr>mem := store32 (mem s) (tb + 4 * word_of_int argc) 0\<rparr> else s);
      memory_copy_uvm_data to page_dir a 12 s
    }"

text \<open>The name behind the last separator.\<close>

definition base_name :: "u8 list \<Rightarrow> u8 list" where
  "base_name name = rev (takeWhile (\<lambda>c. c \<noteq> chr CHR ''/'' \<and> c \<noteq> 92) (rev name))"

definition exec_failed :: "task_ref \<Rightarrow> u32 \<Rightarrow> u32 \<Rightarrow> 'm mm_scheme \<Rightarrow> (int \<times> 'm mm_scheme) option" where
  "exec_failed t old_page_dir new_page_dir s =
    (if new_page_dir \<noteq> 0
     then do {
       s \<leftarrow> memory_destroy_uvm new_page_dir
         (mmu_set_page_dir old_page_dir (upd_tss t (\<lambda>r. r\<lparr>ts_cr3 := old_page_dir\<rparr>) s));
       Some (- 1, s)
     }
     else Some (- 1, s))"

definition exec_frame :: "u32 \<Rightarrow> u32 \<Rightarrow> u32 \<Rightarrow> memory \<Rightarrow> memory" where
  "exec_frame f entry esp m =
    (let m = store32 m (f + 52) entry;
         m = foldl (\<lambda>m i. store32 m (f + i) 0) m [40, 44, 36, 48, 28, 20, 24];
         m = store32 m f (EFLAGS_IF OR EFLAGS_DEFAULT)
     in store32 m (f + 80) esp)"

definition sys_execve :: "'w fs_ops \<Rightarrow> 'w mem_view \<Rightarrow> layout \<Rightarrow> u8 list \<Rightarrow> u32 \<Rightarrow> ('h, 'w, 'm) os_scheme
    \<Rightarrow> (int \<times> ('h, 'w, 'm) os_scheme) option" where
  "sys_execve ops view lay name argv s =
    do {
      t \<leftarrow> task_current s;
      let s = upd_task t (\<lambda>k. k\<lparr>tname := name_copy TASK_NAME_SIZE (base_name name)\<rparr>) s;
      let old_page_dir = ts_cr3 (tss (tasks s t));
      (new_page_dir, s) \<leftarrow> memory_create_uvm s;
      if new_page_dir = 0 then exec_failed t old_page_dir new_page_dir s
      else do {
        (entry, s) \<leftarrow> load_elf_file ops view lay t name new_page_dir s;
        if entry = 0 then exec_failed t old_page_dir new_page_dir s
        else do {
          let stack_top = MEM_TASK_STACK_TOP - MEM_TASK_ARG_SIZE;
          (err, s) \<leftarrow> memory_alloc_for_page_dir new_page_dir (MEM_TASK_STACK_TOP - MEM_TASK_STACK_SIZE)
            MEM_TASK_STACK_SIZE (PTE_P OR PTE_U OR PTE_W) s;
          if err < 0 then exec_failed t old_page_dir new_page_dir s
          else do {
            argc \<leftarrow> strings_count argv s;
            (err, s) \<leftarrow> copy_args lay stack_top new_page_dir argc argv s;
            if err < 0 then exec_failed t old_page_dir new_page_dir s
            else do {
              let f = syscall_frame_at (tss (tasks s t));
              let s = s\<lparr>mem := exec_frame f entry (stack_top - 4 * ucast SYSCALL_PARAM_COUNT) (mem s)\<rparr>;
              let s = mmu_set_page_dir new_page_dir (upd_tss t (\<lambda>r. r\<lparr>ts_cr3 := new_page_dir\<rparr>) s);
              s \<leftarrow> memory_destroy_uvm old_page_dir s;
              Some (0, s)
            }
          }
        }
      }
    }"

end
