(* ===== verification/Fileprops.thy ===== *)
theory Fileprops
  imports Task Fatprops Tty
begin

text \<open>
  The file table on top of the file systems of the repository.  The locale \<open>fs_closing\<close> is what
  closing all files of a task needs of a table of file systems: with the world below them in
  a good state, closing a file that belongs to one of them returns and leaves the world good.
  It is interpreted on the device file system with the terminal driver and on the table
  \<^verbatim>\<open>get_fs_op\<close> of the code (device file system and FAT volume) over a disk.
\<close>

section \<open>The contract\<close>

text \<open>
  \<open>A k x\<close>: a file system of type \<open>k\<close> takes the file \<open>x\<close>.  \<open>I\<close> is the invariant of the world.  Reading
  the memory of the world and writing it back changes nothing.
\<close>

locale fs_closing =
  fixes ops :: "'w fs_ops" and view :: "'w mem_view"
    and A :: "fs_type \<Rightarrow> file_t \<Rightarrow> bool" and I :: "'w \<Rightarrow> bool"
  assumes close_returns: "I w \<Longrightarrow> A k x \<Longrightarrow>
      \<exists>x' w'. op_close (ops k) x w = Some (x', w') \<and> I w' \<and> fref x' = fref x"
    and view_back: "set_mem view (get_mem view w) w = w"
    and counts_apart: "A k (x\<lparr>fref := n\<rparr>) = A k x"

text \<open>Every open file is one its file system takes.\<close>

definition files_in :: "(fs_type \<Rightarrow> file_t \<Rightarrow> bool) \<Rightarrow> ('h, 'w, 'm) vfs_scheme \<Rightarrow> bool" where
  "files_in A s \<longleftrightarrow> (\<forall>x \<in> set (files s). 0 < fref x \<longrightarrow>
     (\<exists>i. ffs x = Some i \<and> A (fs_op_type (fs_table s i)) x))"

context fs_closing
begin

text \<open>What closing the last reference of a file answers.\<close>

lemma answers:
  assumes "files_in A s" and "I (world s)" and "\<forall>i. fs_ready i s" and "f < length (files s)" and "fref (files s ! f) = 1"
  shows "\<exists>x w. close_answer ops s f x w \<and> I w"
proof -
  obtain i where i: "ffs (files s ! f) = Some i" "A (fs_op_type (fs_table s i)) (files s ! f)"
    using assms(1,4,5) nth_mem[OF assms(4)] by (force simp: files_in_def)
  then have "A (fs_op_type (fs_table s i)) ((files s ! f)\<lparr>fref := 0\<rparr>)" by (simp add: counts_apart)
  from close_returns[OF assms(2) this] i(1) assms(3) show ?thesis by (auto simp: close_answer_def)
qed

end

section \<open>The file systems of the repository\<close>

definition get_fs_op :: "int \<Rightarrow> int \<Rightarrow> u8 \<Rightarrow> 'm disk_descs \<Rightarrow> 'm fat_sys fs_ops" where
  "get_fs_op noret minor item descs type =
    (case type of FS_DEVFS \<Rightarrow> devfs_op noret minor descs | FS_FATFS16 \<Rightarrow> fatfs_op noret item descs)"

text \<open>The drivers read and write the kernel's memory.\<close>

definition tty_view :: "ttys dev_state mem_view" where
  "tty_view = \<lparr>get_mem = (\<lambda>w. umem (drv w)), set_mem = (\<lambda>m w. w\<lparr>drv := (drv w)\<lparr>umem := m\<rparr>\<rparr>)\<rparr>"

definition fat_view :: "'m fat_sys mem_view" where
  "fat_view = \<lparr>get_mem = fmem, set_mem = set_fmem\<rparr>"

text \<open>The device file system takes every file: an identifier of no device is ignored.\<close>

lemma devfs_close_ok:
  "devs_ok descs s \<Longrightarrow> quiet_close descs \<Longrightarrow>
   \<exists>s'. devfs_close descs x s = Some (x, s') \<and> devs_ok descs s'
     \<and> (s' = s \<or> 0 \<le> fdev_id x \<and> (\<exists>d. s' = s\<lparr>dev_tbl := (dev_tbl s)[nat (fdev_id x) := d]\<rparr>))"
  using dev_close_ok[of descs s "fdev_id x"] by (auto simp: devfs_close_def)

definition tty_descs :: "ttys resume \<Rightarrow> int \<Rightarrow> u8 \<Rightarrow> ttys dev_desc_t list" where
  "tty_descs resume cursor_pos uninit = [dev_tty_desc resume cursor_pos uninit]"

lemma tty_quiet: "quiet_close (tty_descs resume cursor_pos uninit)"
  by (simp add: quiet_close_def tty_descs_def dev_tty_desc_def tty_close_def)

lemma tty_drivers_ok: "drivers_ok (tty_descs resume cursor_pos uninit) major minor"
  by (simp add: drivers_ok_def tty_descs_def dev_tty_desc_def tty_close_def tty_open_def Let_def split: prod.split)

interpretation tty_files: fs_closing "\<lambda>_. devfs_op noret minor (tty_descs resume cursor_pos uninit)" tty_view
    "\<lambda>_ _. True" "devs_ok (tty_descs resume cursor_pos uninit)" for noret minor resume cursor_pos uninit
proof (unfold_locales, goal_cases)
  case (1 w k x)
  then show ?case using devfs_close_ok[OF 1(1) tty_quiet, of x] by (auto simp: devfs_op_def)
qed (simp_all add: tty_view_def)

text \<open>
  A FAT volume on a disk that the device file system shares: the disk is ready whatever
  happens to the other entries of the device table.
\<close>

locale shared_disk = block_dev +
  assumes quiet: "quiet_close descs"
    and ready_other: "ready s \<Longrightarrow> 0 \<le> i \<Longrightarrow> i \<noteq> dev \<Longrightarrow> ready (s\<lparr>dev_tbl := (dev_tbl s)[nat i := d]\<rparr>)"
begin

text \<open>\<open>kernel_file v\<close>: the files of the volume, and the devices other than its disk.\<close>

definition kernel_file :: "nat \<Rightarrow> fs_type \<Rightarrow> file_t \<Rightarrow> bool" where
  "kernel_file v k x \<longleftrightarrow> (case k of FS_DEVFS \<Rightarrow> fdev_id x \<noteq> dev
     | FS_FATFS16 \<Rightarrow> ffs x = Some v \<and> p_index x < 2 ^ 31)"

lemma vol_ok_other:
  assumes "vol_ok v s" and "0 \<le> i" and "i \<noteq> dev"
  shows "vol_ok v (s\<lparr>dev_tbl := (dev_tbl s)[nat i := d]\<rparr>)"
  using assms ready_other[OF _ assms(2,3), of s d] by (simp add: vol_ok_def cache_ok_def fmem_def)

lemma sector_table:
  "bread_sector descs k a s = Some (r, s') \<Longrightarrow> dev_tbl s' = dev_tbl s"
  "bwrite_sector descs k a s = Some (r, s') \<Longrightarrow> dev_tbl s' = dev_tbl s"
proof -
  have rd: "dev_read descs i a buf n s = Some (r, s') \<Longrightarrow> dev_tbl s' = dev_tbl s" for i buf n r s'
    by (auto simp: dev_read_def Let_def split: if_splits bind_splits)
  have wr: "dev_write descs i a buf n s = Some (r, s') \<Longrightarrow> dev_tbl s' = dev_tbl s" for i buf n r s'
    by (auto simp: dev_write_def Let_def split: if_splits bind_splits)
  show "bread_sector descs k a s = Some (r, s') \<Longrightarrow> dev_tbl s' = dev_tbl s"
    by (auto simp: bread_sector_def upd_fat_def bind_eq_Some_conv split: if_splits dest: rd)
  show "bwrite_sector descs k a s = Some (r, s') \<Longrightarrow> dev_tbl s' = dev_tbl s"
    by (auto simp: bwrite_sector_def bind_eq_Some_conv dest: wr)
qed

lemma dir_io_table:
  "read_dir_entry descs k i s = Some (p, s') \<Longrightarrow> dev_tbl s' = dev_tbl s"
  "write_dir_entry descs k xs i s = Some (r, s') \<Longrightarrow> dev_tbl s' = dev_tbl s"
proof -
  have sm: "dev_tbl (set_fmem m t) = dev_tbl t" for m and t :: "'a fat_sys" by (simp add: set_fmem_def)
  show "read_dir_entry descs k i s = Some (p, s') \<Longrightarrow> dev_tbl s' = dev_tbl s"
    unfolding read_dir_entry_def Let_def by (auto simp: bind_eq_Some_conv split: if_splits dest: sector_table)
  show "write_dir_entry descs k xs i s = Some (r, s') \<Longrightarrow> dev_tbl s' = dev_tbl s"
    unfolding write_dir_entry_def Let_def
    by (auto simp: bind_eq_Some_conv sm split: if_splits dest!: sector_table)
qed

lemma fatfs_close_table: "fatfs_close descs x s = Some (y, s') \<Longrightarrow> dev_tbl s' = dev_tbl s"
proof -
  have sm: "dev_tbl (set_fmem m t) = dev_tbl t" for m and t :: "'a fat_sys" by (simp add: set_fmem_def)
  show "fatfs_close descs x s = Some (y, s') \<Longrightarrow> dev_tbl s' = dev_tbl s"
    unfolding fatfs_close_def Let_def
    by (auto simp: bind_eq_Some_conv sm split: if_splits dest!: dir_io_table)
qed

lemma kernel_closing:
  "fs_closing (get_fs_op noret minor item descs) fat_view (kernel_file v) (\<lambda>s. vol_ok v s \<and> devs_ok descs s)"
proof (unfold_locales, goal_cases)
  case (1 w k x)
  show ?case
  proof (cases k)
    case FS_DEVFS
    obtain s' where s': "devfs_close descs x w = Some (x, s')" "devs_ok descs s'"
      "s' = w \<or> 0 \<le> fdev_id x \<and> (\<exists>d. s' = w\<lparr>dev_tbl := (dev_tbl w)[nat (fdev_id x) := d]\<rparr>)"
      using devfs_close_ok[OF _ quiet, of w x] 1(1) by blast
    moreover have "vol_ok v s'" using s'(3) 1 FS_DEVFS vol_ok_other[of v w "fdev_id x"] by (auto simp: kernel_file_def)
    ultimately show ?thesis using FS_DEVFS by (auto simp: get_fs_op_def devfs_op_def)
  next
    case FS_FATFS16
    then obtain s' where s': "fatfs_close descs x w = Some (x, s')" "vol_ok v s'"
      using fatfs_close_returns[of v w x] 1 by (auto simp: kernel_file_def)
    moreover have "devs_ok descs s'" using 1(1) fatfs_close_table[OF s'(1)] by (simp add: devs_ok_def)
    ultimately show ?thesis using FS_FATFS16 by (auto simp: get_fs_op_def fatfs_op_def)
  qed
next
  case (2 w)
  then show ?case by (simp add: fat_view_def fmem_def set_fmem_def)
next
  case (3 k x n)
  then show ?case by (simp add: kernel_file_def split: fs_type.split)
qed

end

interpretation kdisk: shared_disk demo_descs 0 part.part_ready part.part_sect 900
proof (unfold_locales, goal_cases)
  case 1
  then show ?case by (simp add: quiet_close_def demo_descs_def dev_disk_desc_def disk_close_def)
next
  case (2 s i d)
  then show ?case by (auto simp: part.part_ready_def is_devid_bad_def)
qed

interpretation kernel_files: fs_closing "get_fs_op noret minor item demo_descs" fat_view "kdisk.kernel_file v"
    "\<lambda>s. part.vol_ok v s \<and> devs_ok demo_descs s" for noret minor item v
  by (rule kdisk.kernel_closing)

section \<open>Properties\<close>

text \<open>C25: Opening a file.  \<open>(i, path)\<close> is where the mount points send the name and \<open>(err, x, w)\<close> what
  the open of that file system answers for a fresh file.  The call succeeds exactly when the
  answer is not negative: it returns the lowest free descriptor, which refers to the first
  free slot of the file table, the slot is the file as the file system left it and nothing else
  in the table has changed.  Otherwise it returns -1 and the slot is free again.  In both cases
  the counts of all files are the numbers of descriptors that refer to them, except that a
  failed open does not give descriptor 0 back.\<close>

theorem open_counts:
  assumes "refs_ok s" and "files_ready s" and "curr_task s = Some t" and "t \<in> set all_tasks"
    and "find_free_file 0 (files s) = Some f" and "find_free_fd 0 (file_table (tasks s t)) = Some k"
    and "dll (fs_links s) (mounted_list s) L" and "open_route L name s = (i, path)" and "fs_ready i s"
    and "op_open (ops (fs_op_type (fs_table s i))) i path (fresh_file flags i path) (world s) = Some (err, x, w)"
    and "fref x = 1"
  shows "\<exists>s'. sys_open ops name flags s = Some (if err < 0 then - 1 else int k, s') \<and> world s' = w
    \<and> (if err < 0 then fref (files s' ! f) = 0 \<and> (0 < k \<longrightarrow> refs_ok s' \<and> file_table (tasks s' t) ! k = None)
       else open_at s' t (int k) f \<and> files s' = (files s)[f := x] \<and> refs_ok s')"
  using assms by (rule sys_open_ok)

text \<open>C26: Closing a descriptor other than 0 returns 0, clears the descriptor, takes one reference off
  its file and keeps the counts of all files exact.  The file system's close runs exactly when
  the last reference goes; \<open>(x, w)\<close> is its answer.\<close>

theorem close_counts:
  assumes "refs_ok s" and "files_ready s" and "curr_task s = Some t"
    and "t \<in> set all_tasks" and "open_at s t fd f" and "0 < fd"
    and "fref (files s ! f) = 1 \<Longrightarrow> close_answer ops s f x w"
  shows "\<exists>s'. sys_close ops fd s = Some (0, s') \<and> refs_ok s' \<and> task_file fd s' = Some None
    \<and> fref (files s' ! f) = fref (files s ! f) - 1
    \<and> world s' = (if fref (files s ! f) = 1 then w else world s)"
  by (rule sys_close_ok[OF assms])

section \<open>Witnesses\<close>

text \<open>Opening \<^verbatim>\<open>/dev/tty0\<close> with the terminal driver.\<close>

definition tty_world :: "ttys \<Rightarrow> ttys dev_state" where
  "tty_world w = \<lparr>dev_tbl = [zero_dev], drv = w\<rparr>"

definition tty_file :: file_t where
  "tty_file = (fresh_file 0 0 (Some (map of_char ''tty0'')))\<lparr>ftype := FILE_TTY\<rparr>"

lemma open_tty0:
  "\<exists>w'. devfs_open minor (tty_descs resume cursor uninit) 0 (Some (map of_char ''tty0''))
      (fresh_file 0 0 (Some (map of_char ''tty0''))) (tty_world w) = Some (0, tty_file, w')"
proof -
  have "is_prefix (map of_char ''tty0'') (map of_char ''tty'')
    \<or> is_prefix (map of_char ''tty'') (map of_char ''tty0'')" by simp
  moreover have "\<exists>w'. dev_open (tty_descs resume cursor uninit) 1 0 0 (tty_world w) = Some (0, w')"
    by (simp add: dev_open_def tty_world_def tty_descs_def dev_tty_desc_def DEV_TTY_def zero_dev_def upd_dev_def tty_open_def
        Let_def TTY_NR_def split: prod.split)
  ultimately show ?thesis
    by (auto simp: devfs_open_def dev_type_list_def path_to_num_def to_int32_def DEV_TTY_def tty_file_def fresh_file_def
        zero_file_def)
qed

theorem open_counts_witness:
  "\<exists>s'. sys_open (\<lambda>_. devfs_op 0 7 (tty_descs (\<lambda>_. None) 0 0)) (map of_char ''/dev/tty0'') 0
      (demo_files (tty_world demo_ttys)) = Some (0, s')
    \<and> open_at s' First_task 0 0 \<and> files s' ! 0 = tty_file \<and> refs_ok s'"
proof -
  let ?s = "demo_files (tty_world demo_ttys)"
  obtain w' where "devfs_open 7 (tty_descs (\<lambda>_. None) 0 0) 0 (Some (map of_char ''tty0''))
      (fresh_file 0 0 (Some (map of_char ''tty0''))) (tty_world demo_ttys) = Some (0, tty_file, w')"
    using open_tty0 by blast
  moreover have "open_route [0, 1] (map of_char ''/dev/tty0'') ?s = (0, Some (map of_char ''tty0''))"
    by (simp add: open_route_def demo_fs_table_def path_next_child_def)
  moreover have "find_free_file 0 (files ?s) = Some 0" by (simp add: numeral_eq_Suc zero_file_def)
  moreover have "find_free_fd 0 (file_table (tasks ?s First_task)) = Some 0" by (simp add: demo_table numeral_eq_Suc)
  ultimately show ?thesis
    using open_counts[OF demo_files_ok(1,2) _ first_in_all(1) _ _ demo_mounts _ demo_files_ok(3),
        of "tty_world demo_ttys" 0 0 "map of_char ''/dev/tty0''" 0 "Some (map of_char ''tty0'')"
        "\<lambda>_. devfs_op 0 7 (tty_descs (\<lambda>_. None) 0 0)" 0 0 tty_file w']
    by (fastforce simp: devfs_op_def tty_file_def)
qed

text \<open>Closing a file of the FAT volume.\<close>

definition fat_file :: file_t where
  "fat_file = zero_file\<lparr>fref := 1, ffs := Some 1, ftype := FILE_NORMAL, fsize := 600, sblk := 2, cblk := 2\<rparr>"

lemma demo_devs_table: "devs_ok demo_descs demo_vol"
  by (simp add: devs_ok_def demo_vol_def demo_state_def demo_entry_def demo_descs_def)

theorem close_counts_witness:
  "\<exists>s'. sys_close (get_fs_op 0 7 0 demo_descs) 3 (demo_open demo_vol 3 fat_file) = Some (0, s')
    \<and> refs_ok s' \<and> task_file 3 s' = Some None \<and> fref (files s' ! 0) = 0 \<and> part.vol_ok 1 (world s')"
proof -
  let ?s = "demo_open demo_vol 3 fat_file"
  have one: "fref fat_file = 1" by (simp add: fat_file_def)
  note d = demo_open_ok[where w = demo_vol and fd = 3, OF _ one]
  have len: "0 < length (files ?s)" by (simp add: demo_open_def rel_def)
  have "files ?s = [fat_file, zero_file, zero_file, zero_file]" by (simp add: demo_open_def numeral_eq_Suc)
  then have "files_in (kdisk.kernel_file 1) ?s"
    by (simp add: files_in_def zero_file_def d(8))
      (simp add: fat_file_def demo_fs_table_def kdisk.kernel_file_def zero_file_def)
  moreover have "part.vol_ok 1 (world ?s) \<and> devs_ok demo_descs (world ?s)" "\<forall>i. fs_ready i ?s" "fref (files ?s ! 0) = 1"
    using demo_vol_ok demo_devs_table d one by simp_all
  ultimately obtain x w where x: "close_answer (get_fs_op 0 7 0 demo_descs) ?s 0 x w" "part.vol_ok 1 w"
    using kernel_files.answers[of 1 ?s 0 0 7 0] len by blast
  from close_counts[OF d(1,2,5) first_in_all(1) d(4) _ x(1)] show ?thesis
    using d(6) one x(2) by auto
qed

end
