(* ===== verification/Pages.thy ===== *)
theory Pages
  imports Memory
begin

text \<open>
  Memory page by page: which pages an operation leaves as they were.  The operations on address
  spaces write only pages that were free and pages of the space they work on; everything else
  follows from that.
\<close>

section \<open>Pages that stay\<close>

text \<open>\<open>kept F m m'\<close>: memory differs at most in the pages of \<open>F\<close>.\<close>

definition kept :: "u32 set \<Rightarrow> memory \<Rightarrow> memory \<Rightarrow> bool" where
  "kept F m m' \<longleftrightarrow> (\<forall>x. pte_paddr x \<notin> F \<longrightarrow> m' x = m x)"

lemma page_of_slot:
  assumes "aligned P" and "n < 4096"
  shows "pte_paddr (slot P n) = P"
proof -
  have "pte_paddr (slot P n) + take_bit 12 (slot P n) = slot P n"
    unfolding pte_paddr_def by (rule bits_ident)
  then show ?thesis unfolding slot_off[OF assms] by (simp add: slot_def)
qed

lemma slot_of_page: "slot (pte_paddr x) (unat (take_bit 12 x)) = x"
proof -
  have e: "of_nat (unat y) = y" for y :: u32 by simp
  show ?thesis unfolding slot_def pte_paddr_def e by (rule bits_ident)
qed

lemma page_offset: "unat (take_bit 12 (x :: u32)) < 4096"
proof -
  have "int (unat y) = uint y" for y :: u32 by simp
  from this[of "take_bit 12 x"] page_off_less[of x] show ?thesis by linarith
qed

lemma kept_refl [simp]: "kept F m m"
  by (simp add: kept_def)

lemma kept_chain: "kept F m m' \<Longrightarrow> kept G m' m'' \<Longrightarrow> F \<subseteq> H \<Longrightarrow> G \<subseteq> H \<Longrightarrow> kept H m m''"
  unfolding kept_def by (metis subsetD)

lemma kept_mono: "kept F m m' \<Longrightarrow> F \<subseteq> H \<Longrightarrow> kept H m m'"
  by (auto simp: kept_def)

lemma kept_slot: "kept F m m' \<Longrightarrow> aligned P \<Longrightarrow> P \<notin> F \<Longrightarrow> k < 4096 \<Longrightarrow> m' (slot P k) = m (slot P k)"
  by (simp add: kept_def page_of_slot)

lemma kept_entry:
  assumes "kept F m m'" and "aligned P" and "P \<notin> F" and "j < 1024"
  shows "dir_entry m' P j = dir_entry m P j"
  unfolding load32_def slot_Suc
  using kept_slot[OF assms(1-3), of "4 * j"] kept_slot[OF assms(1-3), of "4 * j + 1"]
    kept_slot[OF assms(1-3), of "4 * j + 2"] kept_slot[OF assms(1-3), of "4 * j + 3"] assms(4)
  by simp

lemma kept_store:
  assumes "aligned P" and "P \<in> F" and "j < 1024"
  shows "kept F m (store32 m (slot P (4 * j)) v)"
  unfolding kept_def store32_def slot_Suc
  using page_of_slot[OF assms(1), of "4 * j"] page_of_slot[OF assms(1), of "4 * j + 1"]
    page_of_slot[OF assms(1), of "4 * j + 2"] page_of_slot[OF assms(1), of "4 * j + 3"] assms(2,3)
  by auto

lemma kept_memset:
  assumes "aligned P" and "P \<in> F" and "P \<noteq> 0"
  shows "kept F m (kernel_memset P 0 4096 m)"
  unfolding kept_def
proof (intro allI impI)
  fix x assume x: "pte_paddr x \<notin> F"
  have "\<not> unat (x - P) < 4096"
  proof
    assume "unat (x - P) < 4096"
    from page_of_slot[OF assms(1) this] show False using assms(2) x by (simp add: slot_def)
  qed
  then show "kernel_memset P 0 4096 m x = m x"
    using assms(3) by (simp add: kernel_memset_def fill_bytes_ok)
qed

lemma kept_lookup:
  assumes "kept F m m'" and "aligned pd" and "pd \<notin> F"
    and "entry_present (dir_entry m pd i) \<Longrightarrow> pde_paddr (dir_entry m pd i) \<notin> F"
    and "i < 1024" and "j < 1024"
  shows "lookup m' pd i j = lookup m pd i j"
proof (cases "entry_present (dir_entry m pd i)")
  case True
  then show ?thesis
    using kept_entry[OF assms(1-3,5)] kept_entry[OF assms(1) aligned_paddr(1) assms(4)[OF True] assms(6)]
    by (simp add: lookup_def Let_def)
qed (simp add: lookup_def Let_def kept_entry[OF assms(1-3,5)])

lemma kept_kernel_pdes:
  assumes "aligned p"
  shows "n \<le> 1024 \<Longrightarrow> kept {p} m (copy_kernel_pdes n p kd m)"
proof (induction n)
  case (Suc n)
  have e: "p + 4 * of_nat n = slot p (4 * n)" by (simp add: slot_def)
  let ?m = "copy_kernel_pdes n p kd m"
  have "kept {p} ?m (store32 ?m (slot p (4 * n)) v)" for v
    by (rule kept_store[OF assms]) (use Suc.prems in simp_all)
  from kept_chain[OF Suc.IH this] Suc.prems show ?case by (simp add: e Let_def)
qed simp

end
