(* ===== verification/Space.thy ===== *)
theory Space
  imports Pages
begin

text \<open>
  The pages of an address space, and what destroying it gives back to the page allocator.
\<close>

definition table_frames :: "memory \<Rightarrow> u32 \<Rightarrow> nat set \<Rightarrow> u32 set" where
  "table_frames m table js = {pte_paddr (load32 m (table + 4 * of_nat j)) | j.
     j \<in> js \<and> entry_present (load32 m (table + 4 * of_nat j))}"

definition table_pages :: "memory \<Rightarrow> u32 \<Rightarrow> nat set \<Rightarrow> u32 set" where
  "table_pages m dir is = (\<Union>i \<in> {i \<in> is. entry_present (load32 m (dir + 4 * of_nat i))}.
     insert (pde_paddr (load32 m (dir + 4 * of_nat i)))
       (table_frames m (pde_paddr (load32 m (dir + 4 * of_nat i))) {0..<1024}))"

definition space_pages :: "memory \<Rightarrow> u32 \<Rightarrow> u32 set" where
  "space_pages m dir = insert dir (table_pages m dir (set user_pdes))"

lemma same_mm_trans: "same_mm s s' \<Longrightarrow> same_mm s' s'' \<Longrightarrow> same_mm s s''"
  unfolding same_mm_def by (erule ssubst, erule ssubst) simp

lemma same_mm_refl [simp]: "same_mm s s"
  by (simp add: same_mm_def)

text \<open>What freeing a set of pages of the pool does.\<close>

definition freed :: "'m mm_scheme \<Rightarrow> u32 set \<Rightarrow> 'm mm_scheme \<Rightarrow> bool" where
  "freed s P s' \<longleftrightarrow> mm_pool_ok s' \<and> same_mm s s' \<and> pool_pages (paddr_alloc s') = pool_pages (paddr_alloc s)
     \<and> free_pages (paddr_alloc s') = free_pages (paddr_alloc s) \<union> P"

lemma freed_refl: "mm_pool_ok s \<Longrightarrow> freed s {} s"
  by (simp add: freed_def)

lemma freed_trans: "freed s P s' \<Longrightarrow> freed s' Q s'' \<Longrightarrow> freed s (P \<union> Q) s''"
  unfolding freed_def by (auto intro: same_mm_trans)

lemma freedD:
  "freed s P s' \<Longrightarrow> mm_pool_ok s'" "freed s P s' \<Longrightarrow> mem s' = mem s"
  "freed s P s' \<Longrightarrow> pool_pages (paddr_alloc s') = pool_pages (paddr_alloc s)"
  by (auto simp: freed_def same_mmD)

lemma page_free_freed:
  assumes "mm_pool_ok s" and "p \<in> pool_pages (paddr_alloc s)"
  shows "\<exists>s'. page_free p 1 s = Some s' \<and> freed s {p} s'"
  using page_free_pool[OF assms] by (auto simp: freed_def)

lemma free_ptes_freed:
  assumes "mm_pool_ok s" and "table_frames (mem s) table (set js) \<subseteq> pool_pages (paddr_alloc s)"
  shows "\<exists>s'. free_ptes js table s = Some s' \<and> freed s (table_frames (mem s) table (set js)) s'"
  using assms
proof (induction js arbitrary: s)
  case Nil
  then show ?case by (simp add: table_frames_def freed_refl)
next
  case (Cons j js)
  let ?v = "load32 (mem s) (table + 4 * of_nat j)"
  show ?case
  proof (cases "entry_present ?v")
    case True
    have T: "table_frames (mem s) table (set (j # js)) = insert (pte_paddr ?v) (table_frames (mem s) table (set js))"
      using True by (auto simp: table_frames_def)
    then obtain s1 where s1: "page_free (pte_paddr ?v) 1 s = Some s1" "freed s {pte_paddr ?v} s1"
      using page_free_freed[OF Cons.prems(1)] Cons.prems(2) by blast
    note f = freedD[OF s1(2)]
    have "table_frames (mem s1) table (set js) \<subseteq> pool_pages (paddr_alloc s1)" using Cons.prems(2) T f by auto
    from Cons.IH[OF f(1) this] obtain s2 where "free_ptes js table s1 = Some s2"
      "freed s1 (table_frames (mem s) table (set js)) s2" by (auto simp: f(2))
    then show ?thesis using s1 True freed_trans[OF s1(2)] T by auto
  next
    case False
    then have "table_frames (mem s) table (set (j # js)) = table_frames (mem s) table (set js)"
      by (auto simp: table_frames_def)
    then show ?thesis using Cons False by auto
  qed
qed

lemma free_pdes_freed:
  assumes "mm_pool_ok s" and "table_pages (mem s) dir (set is) \<subseteq> pool_pages (paddr_alloc s)"
  shows "\<exists>s'. free_pdes is dir s = Some s' \<and> freed s (table_pages (mem s) dir (set is)) s'"
  using assms
proof (induction "is" arbitrary: s)
  case Nil
  then show ?case by (simp add: table_pages_def freed_refl)
next
  case (Cons i "is")
  let ?v = "load32 (mem s) (dir + 4 * of_nat i)"
  let ?t = "pde_paddr ?v"
  show ?case
  proof (cases "entry_present ?v")
    case True
    have T: "table_pages (mem s) dir (set (i # is))
      = (table_frames (mem s) ?t (set [0..<1024]) \<union> {?t}) \<union> table_pages (mem s) dir (set is)"
      using True by (auto simp: table_pages_def)
    then obtain s1 where s1: "free_ptes [0..<1024] ?t s = Some s1"
      "freed s (table_frames (mem s) ?t (set [0..<1024])) s1"
      using free_ptes_freed[OF Cons.prems(1), of ?t "[0..<1024]"] Cons.prems(2) by blast
    note f1 = freedD[OF s1(2)]
    obtain s2 where s2: "page_free ?t 1 s1 = Some s2" "freed s1 {?t} s2"
      using page_free_freed[OF f1(1), of ?t] Cons.prems(2) T f1(3) by auto
    note f2 = freedD[OF s2(2)]
    have "table_pages (mem s2) dir (set is) \<subseteq> pool_pages (paddr_alloc s2)"
      using Cons.prems(2) T f1 f2 by auto
    from Cons.IH[OF f2(1) this] obtain s3 where "free_pdes is dir s2 = Some s3"
      "freed s2 (table_pages (mem s) dir (set is)) s3" by (auto simp: f1(2) f2(2))
    then show ?thesis using s1 s2 True freed_trans[OF freed_trans[OF s1(2) s2(2)]]
      unfolding T by (auto simp del: upt_rec_numeral)
  next
    case False
    then have "table_pages (mem s) dir (set (i # is)) = table_pages (mem s) dir (set is)"
      by (auto simp: table_pages_def)
    then show ?thesis using Cons False by auto
  qed
qed

lemma destroy_freed:
  assumes "mm_pool_ok s" and "space_pages (mem s) dir \<subseteq> pool_pages (paddr_alloc s)"
  shows "\<exists>s'. memory_destroy_uvm dir s = Some s' \<and> freed s (space_pages (mem s) dir) s'"
proof -
  have "table_pages (mem s) dir (set user_pdes) \<subseteq> pool_pages (paddr_alloc s)"
    using assms(2) by (simp add: space_pages_def)
  from free_pdes_freed[OF assms(1) this] obtain s1 where s1: "free_pdes user_pdes dir s = Some s1"
    "freed s (table_pages (mem s) dir (set user_pdes)) s1" by blast
  have "dir \<in> pool_pages (paddr_alloc s1)" using assms(2) freedD(3)[OF s1(2)] by (simp add: space_pages_def)
  from page_free_freed[OF freedD(1)[OF s1(2)] this] obtain s2 where s2: "page_free dir 1 s1 = Some s2" "freed s1 {dir} s2"
    by blast
  have "freed s (table_pages (mem s) dir (set user_pdes) \<union> {dir}) s2" by (rule freed_trans[OF s1(2) s2(2)])
  then show ?thesis using s1(1) s2(1)
    by (intro exI[of _ s2]) (simp add: memory_destroy_uvm_def space_pages_def)
qed

text \<open>C21: Destroying an address space returns and gives back all its pages.  If the page directory,
  the page tables of its user half and the frames they map are pages of the pool,
  \<^verbatim>\<open>memory_destroy_uvm\<close> returns, exactly these pages have become free, and neither memory nor
  any other part of the kernel's state has changed.
\<close>

theorem destroy_frees_all:
  assumes "mm_pool_ok s" and "space_pages (mem s) dir \<subseteq> pool_pages (paddr_alloc s)"
  shows "\<exists>s'. memory_destroy_uvm dir s = Some s' \<and> mm_pool_ok s' \<and> s' = s\<lparr>paddr_alloc := paddr_alloc s'\<rparr>
    \<and> free_pages (paddr_alloc s') = free_pages (paddr_alloc s) \<union> space_pages (mem s) dir"
  using destroy_freed[OF assms] by (auto simp: freed_def same_mm_def)

theorem destroy_frees_all_witness:
  "\<exists>s'. memory_destroy_uvm (pool_page demo_pool 1) demo_mm = Some s'
    \<and> free_pages (paddr_alloc s') = free_pages demo_pool \<union> {pool_page demo_pool 1}"
proof -
  have sp: "space_pages (mem demo_mm) d = {d}" for d
    by (auto simp: space_pages_def table_pages_def demo_mm_ok demo_empty_entry)
  have "pool_page demo_pool 1 \<in> pool_pages (paddr_alloc demo_mm)"
    by (auto simp: pool_pages_def demo_mm_ok(2)) (auto simp: demo_pool_def intro!: exI[of _ 1])
  then have "space_pages (mem demo_mm) (pool_page demo_pool 1) \<subseteq> pool_pages (paddr_alloc demo_mm)" by (simp add: sp)
  from destroy_frees_all[OF demo_mm_ok(1) this] show ?thesis unfolding sp demo_mm_ok(2) by blast
qed

section \<open>A new address space\<close>

lemma copy_kernel_pdes_entry:
  assumes "aligned p" and "aligned kd" and "p \<noteq> kd" and "n \<le> 1024" and "aligned q" and "j < 1024"
  shows "dir_entry (copy_kernel_pdes n p kd m) q j = (if q = p \<and> j < n then dir_entry m kd j else dir_entry m q j)"
  using assms(4-6)
proof (induction n arbitrary: q j)
  case 0
  then show ?case by simp
next
  case (Suc n)
  have n: "n < 1024" "n \<le> 1024" using Suc.prems by simp_all
  have a: "p + 4 * of_nat n = slot p (4 * n)" "kd + 4 * of_nat n = slot kd (4 * n)" by (simp_all add: slot_def)
  have "dir_entry (copy_kernel_pdes n p kd m) kd n = dir_entry m kd n"
    using Suc.IH[OF n(2) assms(2) n(1)] assms(3) by simp
  then show ?case
    using load32_store32[OF assms(1) Suc.prems(2) n(1) Suc.prems(3)] Suc.IH[OF n(2) Suc.prems(2,3)]
    by (auto simp: a Let_def less_Suc_eq)
qed

lemma kernel_index: "unat (pde_index va) < 512 \<longleftrightarrow> va < MEMORY_TASK_BASE"
proof -
  have "unat (pde_index va) = unat va div 2 ^ 22"
    unfolding pde_index_def unat_drop_bit_eq by (simp only: drop_bit_eq_div)
  then show ?thesis by (simp add: word_less_nat_alt MEMORY_TASK_BASE_def) linarith
qed

lemma new_dir_entry:
  assumes "aligned p" and "p \<noteq> 0" and "aligned kd" and "p \<noteq> kd" and "aligned q" and "j < 1024"
  shows "dir_entry (copy_kernel_pdes 512 p kd (kernel_memset p 0 4096 m)) q j
    = (if q = p then if j < 512 then dir_entry m kd j else 0 else dir_entry m q j)"
  using copy_kernel_pdes_entry[OF assms(1,3,4) _ assms(5,6), of 512 "kernel_memset p 0 4096 m"]
    load32_memset[OF assms(1,3,6,2)] load32_memset[OF assms(1,5,6,2)] assms(4)
  by (cases "q = p") auto

lemma new_dir_kept:
  assumes "aligned p" and "p \<noteq> 0"
  shows "kept {p} m (copy_kernel_pdes 512 p kd (kernel_memset p 0 4096 m))"
  by (rule kept_chain[OF kept_memset[OF assms(1) _ assms(2)] kept_kernel_pdes[OF assms(1)]]) auto

lemma create_uvm_page:
  assumes "page_alloc s = Some (p, s1)" and "same_mm s s1" and "p \<noteq> 0"
  shows "memory_create_uvm s = Some (p, s1\<lparr>mem :=
    copy_kernel_pdes 512 p (kernel_page_dir s) (kernel_memset p 0 4096 (mem s))\<rparr>)"
  using assms same_mmD[OF assms(2)]
  by (simp add: memory_create_uvm_def pde_index_def MEMORY_TASK_BASE_def Let_def)

text \<open>A new address space has the kernel's half and nothing else.\<close>

lemma create_uvm_ok:
  assumes "mm_pool_ok s" and "free_pages (paddr_alloc s) \<noteq> {}" and kd: "aligned (kernel_page_dir s)"
    and pr: "dir_private (mem s) (kernel_page_dir s) (free_pages (paddr_alloc s))"
  shows "\<exists>p s'. memory_create_uvm s = Some (p, s') \<and> p \<in> free_pages (paddr_alloc s) \<and> mm_pool_ok s'
    \<and> free_pages (paddr_alloc s') = free_pages (paddr_alloc s) - {p}
    \<and> s' = s\<lparr>paddr_alloc := paddr_alloc s', mem := mem s'\<rparr>
    \<and> pool_pages (paddr_alloc s') = pool_pages (paddr_alloc s) \<and> kept (free_pages (paddr_alloc s)) (mem s) (mem s')
    \<and> (\<forall>va. mmu_walk p (mem s') va
        = (if va < MEMORY_TASK_BASE then mmu_walk (kernel_page_dir s) (mem s) va else None))"
proof -
  obtain p s1 where a: "page_alloc s = Some (p, s1)" "mm_pool_ok s1" "same_mm s s1"
    "p \<in> free_pages (paddr_alloc s)" "free_pages (paddr_alloc s1) = free_pages (paddr_alloc s) - {p}"
    "pool_pages (paddr_alloc s1) = pool_pages (paddr_alloc s)"
    using page_alloc_pool[OF assms(1)] assms(2) by auto
  note f = free_page_facts[OF assms(1) a(4)]
  let ?k = "kernel_page_dir s"
  have pk: "p \<noteq> ?k" using pr a(4) by (auto simp: dir_private_def)
  have s1: "s1 = s\<lparr>paddr_alloc := paddr_alloc s1\<rparr>" using a(3) by (simp add: same_mm_def)
  define m where "m = copy_kernel_pdes 512 p ?k (kernel_memset p 0 4096 (mem s))"
  let ?s = "s1\<lparr>mem := m\<rparr>"
  have c: "memory_create_uvm s = Some (p, ?s)"
    unfolding m_def by (rule create_uvm_page[OF a(1,3) f(2)])
  note e = new_dir_entry[OF f kd pk, of _ _ "mem s", folded m_def]
  have lk: "lookup m p i j = (if i < 512 then lookup (mem s) ?k i j else None)" if ij: "i < 1024" "j < 1024" for i j
  proof (cases "i < 512 \<and> entry_present (dir_entry (mem s) ?k i)")
    case True
    then have "pde_paddr (dir_entry (mem s) ?k i) \<noteq> p" using pr a(4) ij by (auto simp: dir_private_def)
    then show ?thesis using True e[OF f(1) ij(1)] e[OF aligned_paddr(1) ij(2)] by (simp add: lookup_def)
  next
    case False
    then show ?thesis using e[OF f(1) ij(1)] by (auto simp: lookup_def entry_present_def)
  qed
  have "mmu_walk p m va = (if va < MEMORY_TASK_BASE then mmu_walk ?k (mem s) va else None)" for va
    using lk[OF index_less] kernel_index[of va] by (simp add: mmu_walk_lookup)
  moreover have "mm_pool_ok ?s" using a(2) by (simp add: mm_pool_ok_def pool_ok_def)
  moreover have "?s = s\<lparr>paddr_alloc := paddr_alloc ?s, mem := mem ?s\<rparr>" by (subst s1) simp
  moreover have "kept (free_pages (paddr_alloc s)) (mem s) m"
    unfolding m_def by (rule kept_mono[OF new_dir_kept[OF f]]) (use a(4) in simp)
  ultimately show ?thesis using c a(4-6) by (intro exI[of _ p] exI[of _ ?s]) simp
qed

end
