(* ===== verification/Taskprops.thy ===== *)
theory Taskprops
  imports Fileprops Space
begin

text \<open>
  What creation, exit and wait promise: the effects on the queues, on the process tree and on
  the pages and descriptors a process holds, and where the code fails to keep them.
\<close>

section \<open>Exit and the parent's wait\<close>

text \<open>\<open>tree_same\<close>: what exit and wait leave alone in the other tasks.\<close>

definition tree_same :: "'m sched_scheme \<Rightarrow> 'm sched_scheme \<Rightarrow> bool" where
  "tree_same s s' \<longleftrightarrow> (\<forall>t. parent (tasks s' t) = parent (tasks s t) \<and> tid (tasks s' t) = tid (tasks s t)
     \<and> tss_sel (tasks s' t) = tss_sel (tasks s t) \<and> tss (tasks s' t) = tss (tasks s t)
     \<and> tname (tasks s' t) = tname (tasks s t) \<and> file_table (tasks s' t) = file_table (tasks s t))"

lemma dispatched_tree [simp]:
  "parent (tasks (dispatched t s) u) = parent (tasks s u)" "tid (tasks (dispatched t s) u) = tid (tasks s u)"
  "tss (tasks (dispatched t s) u) = tss (tasks s u)" "tname (tasks (dispatched t s) u) = tname (tasks s u)"
  "status (tasks (dispatched t s) u) = status (tasks s u)"
  "file_table (tasks (dispatched t s) u) = file_table (tasks s u)"
  "u \<noteq> t \<Longrightarrow> tasks (dispatched t s) u = tasks s u"
  by (auto simp: dispatched_def)

lemma wait_block_rep:
  assumes rep: "sched_rep s (c # R) S" and cpu: "on_cpu s (c # R)"
  shows "\<exists>s'. wait_block c s = Some s' \<and> sched_rep s' R S \<and> on_cpu s' R
    \<and> tstate (tasks s' c) = TASK_WAITTING \<and> tree_same s s' \<and> status (tasks s' t) = status (tasks s t)
    \<and> (t \<noteq> c \<longrightarrow> t \<noteq> runner R \<longrightarrow> tstate (tasks s' t) = tstate (tasks s t)) \<and> eflags s' = eflags s"
proof -
  have cur: "curr_task s = Some c" "c \<notin> set R" "c \<noteq> Idle_task"
    using cpu sched_rep_facts[OF rep] by (auto simp: on_cpu_def)
  define s1 where "s1 = s\<lparr>eflags := (eflags s)(Some c := eflags s (Some c) AND NOT EFLAGS_IF)\<rparr>"
  have r1: "sched_rep s1 (c # R) S" using rep by (simp add: s1_def)
  note b = set_block_rep[OF r1, of c, simplified]
  define s2 where "s2 = upd_task c (\<lambda>k. k\<lparr>tstate := TASK_WAITTING\<rparr>) (task_set_block c s1)"
  have r2: "sched_rep s2 R S" using b by (simp add: s2_def)
  have d: "task_dispatch s2 = Some (dispatched (runner R) s2)" by (rule task_dispatch_rep[OF r2])
  have ne: "runner R \<noteq> c" using cur by (cases R) auto
  have "tr_ok s2" using cpu b by (simp add: s2_def s1_def sched_frame_def tr_ok_def on_cpu_def)
  then have oc: "on_cpu (dispatched (runner R) s2) R" by (rule on_cpu_dispatched)
  have t2: "tasks s2 = (tasks s)(c := (tasks s c)\<lparr>tstate := TASK_WAITTING\<rparr>)" using b by (simp add: s2_def s1_def)
  have e2: "eflags s2 = eflags s1" using b by (simp add: s2_def sched_frame_def)
  have "wait_block c s = Some ((dispatched (runner R) s2)\<lparr>eflags := eflags s\<rparr>)"
    using cur d e2 by (simp add: wait_block_def s2_def s1_def)
  then show ?thesis using r2 oc ne
    by (intro exI[of _ "(dispatched (runner R) s2)\<lparr>eflags := eflags s\<rparr>"]) (auto simp: tree_same_def t2 on_cpu_def)
qed

text \<open>The tasks an exit moves back to the ready queue.\<close>

definition woken :: "'m sched_scheme \<Rightarrow> task_ref \<Rightarrow> task_ref list" where
  "woken s t = (if tstate (tasks s t) = TASK_WAITTING then [t] else [])"

definition exit_woken :: "'m sched_scheme \<Rightarrow> bool \<Rightarrow> task_ref \<Rightarrow> task_ref list" where
  "exit_woken s moved p = (if moved \<and> p \<noteq> First_task then woken s First_task else []) @ woken s p"

definition waiters_off :: "'m sched_scheme \<Rightarrow> task_ref set \<Rightarrow> bool" where
  "waiters_off s Q \<longleftrightarrow> (\<forall>t. tstate (tasks s t) = TASK_WAITTING \<longrightarrow> t \<notin> Q \<and> t \<noteq> Idle_task)"

lemma wake_waiting_rep:
  assumes "sched_rep s R S" and "waiters_off s (set R \<union> set S)"
  shows "\<exists>s'. wake_waiting t s = Some s' \<and> sched_rep s' (R @ woken s t) S \<and> sched_frame s s'
    \<and> tasks s' = (if tstate (tasks s t) = TASK_WAITTING
        then (tasks s)(t := (tasks s t)\<lparr>tstate := TASK_READY\<rparr>) else tasks s)"
  using assms set_ready_rep[OF assms(1), of t] by (auto simp: wake_waiting_def woken_def waiters_off_def)

lemma wake_two_rep:
  assumes rep: "sched_rep s R S" and w: "waiters_off s (set R \<union> set S)"
  shows "\<exists>s1 s2. (if m \<and> p \<noteq> First_task then wake_waiting First_task s else Some s) = Some s1
    \<and> wake_waiting p s1 = Some s2 \<and> sched_rep s2 (R @ exit_woken s m p) S \<and> sched_frame s s2
    \<and> tasks s2 = (\<lambda>t. if t \<in> set (exit_woken s m p) then (tasks s t)\<lparr>tstate := TASK_READY\<rparr> else tasks s t)"
proof (cases "m \<and> p \<noteq> First_task")
  case False
  then show ?thesis using wake_waiting_rep[OF assms, of p]
    by (auto simp: exit_woken_def woken_def fun_eq_iff)
next
  case True
  obtain s1 where s1: "wake_waiting First_task s = Some s1" "sched_rep s1 (R @ woken s First_task) S"
    "sched_frame s s1" "tasks s1 = (if tstate (tasks s First_task) = TASK_WAITTING
        then (tasks s)(First_task := (tasks s First_task)\<lparr>tstate := TASK_READY\<rparr>) else tasks s)"
    using wake_waiting_rep[OF assms, of First_task] by blast
  have w1: "waiters_off s1 (set (R @ woken s First_task) \<union> set S)"
    using w s1(4) by (auto simp: waiters_off_def woken_def split: if_splits)
  have "woken s1 p = woken s p" using True s1(4) by (auto simp: woken_def)
  with wake_waiting_rep[OF s1(2) w1, of p] True s1 show ?thesis
    by (auto simp: exit_woken_def woken_def fun_eq_iff intro: sched_frame_trans)
qed

lemma exit_switch_rep:
  fixes m :: bool
  assumes rep: "sched_rep s (c # R) S" and cpu: "on_cpu s (c # R)" and par: "parent (tasks s c) = Some p"
    and w: "waiters_off s (insert c (set R \<union> set S))"
  defines "W \<equiv> exit_woken s m p"
  shows "\<exists>s'. exit_switch c m code s = Some s' \<and> sched_rep s' (R @ W) S \<and> on_cpu s' (R @ W)
    \<and> tstate (tasks s' c) = TASK_ZOMBIE \<and> status (tasks s' c) = code \<and> tree_same s s'
    \<and> (\<forall>t. t \<noteq> c \<longrightarrow> t \<notin> set W \<longrightarrow> t \<noteq> runner (R @ W) \<longrightarrow> tasks s' t = tasks s t) \<and> eflags s' = eflags s"
proof -
  have f: "curr_task s = Some c" "c \<notin> set R" "c \<noteq> Idle_task"
    using cpu sched_rep_facts[OF rep] by (auto simp: on_cpu_def)
  have cW: "c \<notin> set W" using w by (auto simp: W_def exit_woken_def woken_def waiters_off_def)
  define s0 where "s0 = s\<lparr>eflags := (eflags s)(Some c := eflags s (Some c) AND NOT EFLAGS_IF)\<rparr>"
  have r0: "sched_rep s0 (c # R) S" "waiters_off s0 (set (c # R) \<union> set S)" "exit_woken s0 m p = W" "tasks s0 = tasks s"
    using rep w by (simp_all add: s0_def waiters_off_def W_def exit_woken_def woken_def)
  obtain s1 s2 where s2: "(if m \<and> p \<noteq> First_task then wake_waiting First_task s0 else Some s0) = Some s1"
    "wake_waiting p s1 = Some s2" "sched_rep s2 ((c # R) @ W) S" "sched_frame s0 s2"
    "tasks s2 = (\<lambda>t. if t \<in> set W then (tasks s t)\<lparr>tstate := TASK_READY\<rparr> else tasks s t)"
    using wake_two_rep[OF r0(1,2), of m p] unfolding r0(3,4) by blast
  define s3 where "s3 = upd_task c (\<lambda>k. k\<lparr>tstate := TASK_ZOMBIE, status := code\<rparr>) s2"
  have "sched_rep s3 (c # R @ W) S" using s2(3) by (simp add: s3_def)
  note b = set_block_rep[OF this, of c, simplified]
  define s4 where "s4 = task_set_block c s3"
  have r4: "sched_rep s4 (R @ W) S" using b by (simp add: s4_def)
  have t4: "tasks s4 = (tasks s2)(c := (tasks s c)\<lparr>tstate := TASK_ZOMBIE, status := code\<rparr>)"
    using b cW by (simp add: s4_def s3_def s2(5))
  have fr: "eflags s4 = eflags s0" "curr_task s4 = Some c" "tr s4 = tr s"
    using b s2(4) f by (simp_all add: s4_def s3_def sched_frame_def s0_def)
  have "tr_ok s4" using cpu cW by (simp add: fr tr_ok_def t4 on_cpu_def)
  then have oc: "on_cpu (dispatched (runner (R @ W)) s4) (R @ W)" by (rule on_cpu_dispatched)
  have "c \<notin> set (R @ W)" using f(2) cW by simp
  then have ne: "runner (R @ W) \<noteq> c" using f(3) by (cases "R @ W") (auto simp del: set_append)
  have d: "task_dispatch (task_set_block c (upd_task c (\<lambda>k. k\<lparr>tstate := TASK_ZOMBIE, status := code\<rparr>) s2))
      = Some (dispatched (runner (R @ W)) s4)"
    using task_dispatch_rep[OF r4] by (simp only: s4_def s3_def)
  have "exit_switch c m code s = Some ((dispatched (runner (R @ W)) s4)\<lparr>eflags := eflags s\<rparr>)"
    using f(1) s2(1)[unfolded s0_def] s2(2) d fr par by (simp add: exit_switch_def s0_def)
  then show ?thesis using r4 oc ne cW
    by (intro exI[of _ "(dispatched (runner (R @ W)) s4)\<lparr>eflags := eflags s\<rparr>"])
      (simp add: tree_same_def t4 s2(5) on_cpu_def)
qed

section \<open>The whole of exit\<close>

text \<open>Only the open files of \<open>c\<close> and the file layer have changed.\<close>

definition closed_by :: "task_ref \<Rightarrow> ('h, 'w, 'm) vfs_scheme \<Rightarrow> ('h, 'w, 'm) vfs_scheme \<Rightarrow> bool" where
  "closed_by c s s' \<longleftrightarrow> (\<exists>tab F m T w n. s' = s\<lparr>tasks := (tasks s)(c := (tasks s c)\<lparr>file_table := tab\<rparr>),
     mem := n, files := F, file_alloc_mutex := m, fs_table := T, world := w\<rparr>)"

lemma closed_by_refl [simp]: "closed_by c s s"
  by (auto simp: closed_by_def intro!: exI[of _ "file_table (tasks s c)"] exI[of _ "files s"]
      exI[of _ "file_alloc_mutex s"] exI[of _ "fs_table s"] exI[of _ "world s"] exI[of _ "mem s"])

lemma closed_by_trans: "closed_by c s s' \<Longrightarrow> closed_by c s' s'' \<Longrightarrow> closed_by c s s''"
  unfolding closed_by_def by force

text \<open>A file in use belongs to a file system.\<close>

definition files_fs :: "('h, 'w, 'm) vfs_scheme \<Rightarrow> bool" where
  "files_fs s \<longleftrightarrow> (\<forall>x \<in> set (files s). fref x > 0 \<longrightarrow> ffs x \<noteq> None)"

lemma vfs_only_closed: "vfs_only s s' \<Longrightarrow> closed_by c s (set_fd c fd v s')"
proof -
  assume "vfs_only s s'"
  then obtain F m T w where s': "s' = s\<lparr>files := F, file_alloc_mutex := m, fs_table := T, world := w\<rparr>"
    by (auto simp: vfs_only_def)
  have "set_fd c fd v s' = s\<lparr>tasks := (tasks s)(c := (tasks s c)\<lparr>file_table := (file_table (tasks s c))[fd := v]\<rparr>),
     mem := mem s, files := F, file_alloc_mutex := m, fs_table := T, world := w\<rparr>"
    by (simp add: s' set_fd_def upd_task_def)
  then show ?thesis unfolding closed_by_def by blast
qed

lemma files_update:
  fixes s s' :: "('h, 'w, 'm) vfs_scheme"
  assumes F: "files s' = (files s)[f := y]" and T: "\<forall>i. fs_op_type (fs_table s' i) = fs_op_type (fs_table s i)"
    and y: "0 < fref y \<Longrightarrow> \<exists>n. y = (files s ! f)\<lparr>fref := n\<rparr>" and p: "0 < fref (files s ! f)" and l: "f < length (files s)"
    and A: "\<And>k x n. A k (x\<lparr>fref := n\<rparr>) = A k x"
  shows "files_fs s \<Longrightarrow> files_fs s'" and "files_in A s \<Longrightarrow> files_in A s'"
proof -
  have old: "\<exists>z \<in> set (files s). 0 < fref z \<and> (\<exists>n. x = z\<lparr>fref := n\<rparr>)" if x: "x \<in> set (files s')" "0 < fref x" for x
  proof (cases "x = y")
    case True
    then show ?thesis using y x(2) p nth_mem[OF l] by blast
  next
    case False
    then have m: "x \<in> set (files s)" using x(1) F set_update_subset_insert[of "files s" f y] by auto
    have "x = x\<lparr>fref := fref x\<rparr>" by simp
    with m x(2) show ?thesis by blast
  qed
  show "files_fs s'" if h: "files_fs s"
    unfolding files_fs_def
  proof (intro ballI impI)
    fix x assume "x \<in> set (files s')" "0 < fref x"
    from old[OF this] obtain z n where z: "z \<in> set (files s)" "0 < fref z" "x = z\<lparr>fref := n\<rparr>" by blast
    then show "ffs x \<noteq> None" using h by (simp add: files_fs_def)
  qed
  show "files_in A s'" if h: "files_in A s"
    unfolding files_in_def
  proof (intro ballI impI)
    fix x assume "x \<in> set (files s')" "0 < fref x"
    from old[OF this] obtain z n where z: "z \<in> set (files s)" "0 < fref z" "x = z\<lparr>fref := n\<rparr>" by blast
    then obtain i where "ffs z = Some i" "A (fs_op_type (fs_table s i)) z" using h by (auto simp: files_in_def)
    then show "\<exists>i. ffs x = Some i \<and> A (fs_op_type (fs_table s' i)) x" using z(3) T A by simp
  qed
qed

context fs_closing
begin

lemma close_one_ok:
  assumes ok: "refs_ok s" "files_ready s" "\<forall>i. fs_ready i s"
    and c: "curr_task s = Some c" "c \<in> set all_tasks" and fd: "fd < nat TASK_OFILE_NR"
    and e: "file_table (tasks s c) ! fd = Some f" and i: "files_fs s" "files_in A s" "I (world s)"
  shows "\<exists>r s'. sys_close ops (int fd) s = Some (r, s') \<and> closed_by c s (set_fd c fd None s')
    \<and> refs_ok (set_fd c fd None s') \<and> files_ready (set_fd c fd None s')
    \<and> (\<forall>i. fs_ready i (set_fd c fd None s')) \<and> files_fs s' \<and> files_in A s' \<and> I (world s')
    \<and> file_table (tasks (set_fd c fd None s') c) = (file_table (tasks s c))[fd := None]"
proof -
  have o: "open_at s c (int fd) f" using fd e by (simp add: open_at_def TASK_OFILE_NR_def)
  have fl: "f < length (files s)"
    using ok(1) c(2) fd e nth_mem[of fd "file_table (tasks s c)"] by (auto simp: refs_ok_def)
  note pos = refs_ok_remove(2)[OF ok(1) c(2) fd e,
      of "(files s ! f)\<lparr>fref := fref (files s ! f) - 1\<rparr>", simplified]
  obtain x w where ans: "fref (files s ! f) = 1 \<Longrightarrow> close_answer ops s f x w"
    "fref (files s ! f) = 1 \<Longrightarrow> I w"
    using answers[OF i(2,3) ok(3) fl] by blast
  define y where "y = (if fref (files s ! f) = 1 then x else (files s ! f)\<lparr>fref := fref (files s ! f) - 1\<rparr>)"
  have y: "fref y = fref (files s ! f) - 1" using ans(1) by (auto simp: y_def close_answer_def)
  obtain s1 where s1: "sys_close ops (int fd) s = do { s' \<leftarrow> task_remove_fd (int fd) s1; Some (0, s') }"
    "files s1 = (files s)[f := y]" "world s1 = (if fref (files s ! f) = 1 then w else world s)"
    "tasks s1 = tasks s" "curr_task s1 = Some c" "files_ready s1" "vfs_only s s1"
    using close_body[OF ok(2) o c(1) pos fl ans(1)] unfolding y_def by blast
  let ?s = "set_fd c fd None s1"
  have r: "task_remove_fd (int fd) s1 = Some (if fd = 0 then s1 else ?s)"
    using fd s1(5) by (simp add: task_remove_fd_def task_current_def TASK_OFILE_NR_def)
  have idem: "set_fd c fd None ?s = ?s" by (simp add: set_fd_def upd_task_def)
  have "refs_ok ?s = refs_ok (set_fd c fd None (s\<lparr>files := (files s)[f := y]\<rparr>))"
    by (rule refs_ok_cong, simp add: s1(2), rule set_fd_tasks, simp add: s1(4))
  then have "refs_ok ?s" using refs_ok_remove(1)[OF ok(1) c(2) fd e y] by simp
  moreover have "closed_by c s ?s" by (rule vfs_only_closed[OF s1(7)])
  moreover have "files_ready ?s" using s1(6) by simp
  moreover have "\<forall>i. fs_ready i ?s" using s1(7) ok(3) by (simp add: fs_ready_def mutex_free_def vfs_only_def)
  moreover have "files_fs s1" "files_in A s1"
  proof -
    have t: "\<forall>i. fs_op_type (fs_table s1 i) = fs_op_type (fs_table s i)" using s1(7) by (simp add: vfs_only_def)
    have u: "0 < fref y \<Longrightarrow> \<exists>n. y = (files s ! f)\<lparr>fref := n\<rparr>" using y by (auto simp: y_def)
    show "files_fs s1" "files_in A s1"
      using files_update[OF s1(2) t u pos fl, of A] counts_apart i(1,2) by blast+
  qed
  moreover have "files_fs ?s" "files_in A ?s" "world ?s = world s1"
    using calculation by (simp_all add: files_in_def files_fs_def)
  moreover have "I (world s1)" using ans(2) i(3) s1(3) by simp
  moreover have "file_table (tasks ?s c) = (file_table (tasks s c))[fd := None]"
    by (simp add: set_fd_def s1(4))
  ultimately show ?thesis using s1(1) r idem by (cases "fd = 0") auto
qed

end

definition files_sound :: "('h, 'w, 'm) vfs_scheme \<Rightarrow> bool" where
  "files_sound s \<longleftrightarrow> refs_ok s \<and> files_ready s \<and> (\<forall>i. fs_ready i s) \<and> files_fs s"

lemma files_sound_memory [simp]:
  fixes s :: "('h, 'w, 'm) vfs_scheme"
  shows "files_sound (s\<lparr>world := w\<rparr>) = files_sound s" and "files_sound (s\<lparr>mem := n\<rparr>) = files_sound s"
  by (simp_all add: files_sound_def refs_ok_def fd_refs_def files_ready_def fs_ready_def mutex_free_def files_fs_def)

lemma closed_by_world: "closed_by c (s\<lparr>world := v\<rparr>) s' \<Longrightarrow> closed_by c s s'"
  unfolding closed_by_def by force

lemma set_fd_mem: "set_fd c fd v (s\<lparr>mem := n\<rparr>) = (set_fd c fd v s)\<lparr>mem := n\<rparr>"
  by (simp add: set_fd_def upd_task_def)

lemma closed_by_mem: "closed_by c s s' \<Longrightarrow> closed_by c s (s'\<lparr>mem := n\<rparr>)"
proof -
  assume "closed_by c s s'"
  then obtain tab F m T w k where "s' = s\<lparr>tasks := (tasks s)(c := (tasks s c)\<lparr>file_table := tab\<rparr>),
     mem := k, files := F, file_alloc_mutex := m, fs_table := T, world := w\<rparr>" by (auto simp: closed_by_def)
  then have "s'\<lparr>mem := n\<rparr> = s\<lparr>tasks := (tasks s)(c := (tasks s c)\<lparr>file_table := tab\<rparr>),
     mem := n, files := F, file_alloc_mutex := m, fs_table := T, world := w\<rparr>" by simp
  then show ?thesis unfolding closed_by_def by blast
qed

lemma files_fs_set_fd [simp]: "files_fs (set_fd c fd v s) = files_fs s"
  by (simp add: files_fs_def)

lemma closed_by_curr: "closed_by c s s' \<Longrightarrow> curr_task s' = curr_task s"
  by (auto simp: closed_by_def)

text \<open>Every open file is one its file system takes, and the world, with the memory as it is, is in
  order.\<close>

definition closable :: "'w mem_view \<Rightarrow> (fs_type \<Rightarrow> file_t \<Rightarrow> bool) \<Rightarrow> ('w \<Rightarrow> bool) \<Rightarrow> ('h, 'w, 'm) os_scheme \<Rightarrow> bool" where
  "closable view A I s \<longleftrightarrow> files_in A s \<and> I (set_mem view (mem s) (world s))"

lemma files_in_simps [simp]:
  fixes s :: "('h, 'w, 'm) vfs_scheme"
  shows "files_in A (s\<lparr>world := w\<rparr>) = files_in A s" and "files_in A (s\<lparr>mem := n\<rparr>) = files_in A s"
    and "files_in A (set_fd c fd v s) = files_in A s"
  by (simp_all add: files_in_def)

context fs_closing
begin

lemma close_view_ok:
  fixes s :: "('h, 'w, 'm) os_scheme"
  assumes ok: "files_sound s" and cl: "closable view A I s" and c: "curr_task s = Some c" "c \<in> set all_tasks"
    and fd: "fd < nat TASK_OFILE_NR" and e: "file_table (tasks s c) ! fd = Some f"
  shows "\<exists>r s'. with_view view (sys_close ops (int fd)) s = Some (r, s') \<and> closed_by c s (set_fd c fd None s')
    \<and> files_sound (set_fd c fd None s') \<and> closable view A I (set_fd c fd None s')
    \<and> file_table (tasks (set_fd c fd None s') c) = (file_table (tasks s c))[fd := None]"
proof -
  define s0 where "s0 = s\<lparr>world := set_mem view (mem s) (world s)\<rparr>"
  have ok0: "files_sound s0" using ok by (simp add: s0_def)
  then have "refs_ok s0" "files_ready s0" "\<forall>i. fs_ready i s0" "files_fs s0" "files_in A s0" "I (world s0)"
    using cl by (simp_all add: files_sound_def closable_def s0_def)
  from close_one_ok[OF this(1-3) _ c(2) fd _ this(4-6), of f] c(1) e obtain r s1 where
    s1: "sys_close ops (int fd) s0 = Some (r, s1)" "closed_by c s0 (set_fd c fd None s1)"
    "files_sound (set_fd c fd None s1)" "files_in A s1" "I (world s1)"
    "file_table (tasks (set_fd c fd None s1) c) = (file_table (tasks s c))[fd := None]"
    by (auto simp: s0_def files_sound_def)
  have "closed_by c s (set_fd c fd None s1)" using s1(2) unfolding s0_def by (rule closed_by_world)
  moreover have "with_view view (sys_close ops (int fd)) s = Some (r, s1\<lparr>mem := get_mem view (world s1)\<rparr>)"
    using s1(1) by (simp add: with_view_def s0_def)
  moreover have "closable view A I (set_fd c fd None (s1\<lparr>mem := get_mem view (world s1)\<rparr>))"
    using s1(4,5) by (simp add: closable_def view_back set_fd_mem)
  ultimately show ?thesis using s1(3,6) by (simp add: set_fd_mem closed_by_mem)
qed

lemma close_files_ok:
  fixes s :: "('h, 'w, 'm) os_scheme"
  assumes "files_sound s" and "closable view A I s" and c: "curr_task s = Some c" "c \<in> set all_tasks"
    and "set fds \<subseteq> {..<nat TASK_OFILE_NR}"
  shows "\<exists>s'. close_files ops view fds c s = Some s' \<and> closed_by c s s' \<and> files_sound s' \<and> closable view A I s'
    \<and> (\<forall>fd < nat TASK_OFILE_NR. file_table (tasks s' c) ! fd
        = (if fd \<in> set fds then None else file_table (tasks s c) ! fd))"
  using assms
proof (induction fds arbitrary: s)
  case Nil
  then show ?case by simp
next
  case (Cons fd fds)
  have len: "length (file_table (tasks s c)) = nat TASK_OFILE_NR"
    using Cons.prems(1,4) by (simp add: files_sound_def refs_ok_def)
  show ?case
  proof (cases "file_table (tasks s c) ! fd")
    case None
    have "\<exists>s'. close_files ops view fds c s = Some s' \<and> closed_by c s s' \<and> files_sound s' \<and> closable view A I s'
      \<and> (\<forall>fd < nat TASK_OFILE_NR. file_table (tasks s' c) ! fd
        = (if fd \<in> set fds then None else file_table (tasks s c) ! fd))"
      using Cons.IH[OF Cons.prems(1,2,3,4)] Cons.prems(5) by simp
    with None show ?thesis by auto
  next
    case (Some f)
    have "fd < nat TASK_OFILE_NR" using Cons.prems(5) by simp
    then obtain r s1 where s1: "with_view view (sys_close ops (int fd)) s = Some (r, s1)"
      "closed_by c s (set_fd c fd None s1)" "files_sound (set_fd c fd None s1)"
      "closable view A I (set_fd c fd None s1)"
      "file_table (tasks (set_fd c fd None s1) c) = (file_table (tasks s c))[fd := None]"
      using close_view_ok[OF Cons.prems(1,2,3,4) _ Some] by blast
    define s2 where "s2 = set_fd c fd None s1"
    have "curr_task s2 = Some c" using closed_by_curr[OF s1(2)] Cons.prems(3) by (simp add: s2_def)
    from Cons.IH[OF s1(3,4)[folded s2_def] this Cons.prems(4)] Cons.prems(5)
    obtain s' where "close_files ops view fds c s2 = Some s'" "closed_by c s2 s'" "files_sound s'" "closable view A I s'"
      "\<forall>fd < nat TASK_OFILE_NR. file_table (tasks s' c) ! fd
        = (if fd \<in> set fds then None else file_table (tasks s2 c) ! fd)" by auto
    then show ?thesis using s1(1) Some closed_by_trans[OF s1(2)[folded s2_def]] len s1(5)[folded s2_def]
      by (auto simp: s2_def nth_list_update)
  qed
qed

end

text \<open>The children are handed to the first task.\<close>

definition moved :: "nat list \<Rightarrow> task_ref \<Rightarrow> (task_ref \<Rightarrow> task_t) \<Rightarrow> task_ref \<Rightarrow> task_t" where
  "moved ix c tk t = (if t \<in> Table_task ` set ix \<and> parent (tk t) = Some c
     then (tk t)\<lparr>parent := Some First_task\<rparr> else tk t)"

definition has_zombie :: "nat list \<Rightarrow> task_ref \<Rightarrow> 'm sched_scheme \<Rightarrow> bool" where
  "has_zombie ix c s \<longleftrightarrow> (\<exists>i \<in> set ix. parent (tasks s (Table_task i)) = Some c
     \<and> tstate (tasks s (Table_task i)) = TASK_ZOMBIE)"

lemma move_children_eq:
  "distinct ix \<Longrightarrow> move_children ix c s = (has_zombie ix c s, s\<lparr>tasks := moved ix c (tasks s)\<rparr>)"
proof (induction ix arbitrary: s)
  case Nil
  then show ?case by (simp add: has_zombie_def moved_def)
next
  case (Cons i ix)
  let ?t = "Table_task i"
  show ?case
  proof (cases "parent (tasks s ?t) = Some c")
    case True
    let ?s = "upd_task ?t (\<lambda>k. k\<lparr>parent := Some First_task\<rparr>) s"
    have "moved ix c (tasks ?s) = moved (i # ix) c (tasks s)"
      using Cons.prems True by (auto simp: moved_def fun_eq_iff)
    moreover have "has_zombie ix c ?s = has_zombie ix c s"
      using Cons.prems by (auto simp: has_zombie_def)
    ultimately show ?thesis using Cons True by (auto simp: has_zombie_def upd_task_def)
  next
    case False
    then have "moved ix c (tasks s) = moved (i # ix) c (tasks s)" by (auto simp: moved_def fun_eq_iff)
    with False Cons show ?thesis by (auto simp: has_zombie_def)
  qed
qed

lemma table_section:
  assumes "mutex_free (task_table_mutex s) s"
  shows "lock_table resume s = Some (s\<lparr>task_table_mutex := (task_table_mutex s)\<lparr>locked_count := 1, owner := curr_task s\<rparr>\<rparr>)"
    and "curr_task s' = curr_task s \<Longrightarrow> wait_links s' = wait_links s
      \<Longrightarrow> task_table_mutex s' = (task_table_mutex s)\<lparr>locked_count := 1, owner := curr_task s\<rparr>
      \<Longrightarrow> unlock_table resume s' = Some (s'\<lparr>task_table_mutex := (task_table_mutex s)\<lparr>locked_count := 0, owner := None\<rparr>\<rparr>)"
  using assms mutex_section(2)[OF assms, of s']
  by (simp_all add: lock_table_def unlock_table_def mutex_lock_free resumed_def mutex_free_def)

text \<open>
  The kernel between two system calls: the queues hold \<open>c # R\<close> and \<open>S\<close>, \<open>c\<close> runs, the mutexes
  the calls below need are free, the open files are counted, and a task waiting for a child
  is on no queue.
\<close>

definition os_ok :: "('h, 'w, 'm) os_scheme \<Rightarrow> task_ref \<Rightarrow> task_ref list \<Rightarrow> task_ref list \<Rightarrow> bool" where
  "os_ok s c R S \<longleftrightarrow> sched_rep s (c # R) S \<and> on_cpu s (c # R) \<and> mutex_free (task_table_mutex s) s
     \<and> files_sound s \<and> waiters_off s (insert c (set R \<union> set S))"

context fs_closing
begin

text \<open>What exit does before it leaves the ready queue.\<close>

lemma exit_prefix:
  assumes ok: "os_ok s c R S" and cl: "closable view A I s" and c: "c \<in> set all_tasks"
  shows "\<exists>s1. sys_exit ops view resume code s = exit_switch c (has_zombie [0..<TASK_NR] c s) code s1
    \<and> os_ok s1 c R S \<and> (\<forall>fd < nat TASK_OFILE_NR. file_table (tasks s1 c) ! fd = None)
    \<and> (\<forall>t. tstate (tasks s1 t) = tstate (tasks s t)
        \<and> parent (tasks s1 t) = (if t \<in> Table_task ` {..<TASK_NR} \<and> parent (tasks s t) = Some c
            then Some First_task else parent (tasks s t)))"
proof -
  have cur: "curr_task s = Some c" using ok by (simp add: os_ok_def on_cpu_def)
  obtain s1 where s1: "close_files ops view [0..<nat TASK_OFILE_NR] c s = Some s1" "closed_by c s s1" "files_sound s1"
    "\<forall>fd < nat TASK_OFILE_NR. file_table (tasks s1 c) ! fd = None"
    using close_files_ok[OF _ cl cur c, of "[0..<nat TASK_OFILE_NR]"] ok
    by (auto simp: os_ok_def lessThan_atLeast0)
  obtain tab F m T w n where c1: "s1 = s\<lparr>tasks := (tasks s)(c := (tasks s c)\<lparr>file_table := tab\<rparr>),
     mem := n, files := F, file_alloc_mutex := m, fs_table := T, world := w\<rparr>"
    using s1(2) by (auto simp: closed_by_def)
  have fr: "mutex_free (task_table_mutex s1) s1" using ok by (simp add: c1 os_ok_def mutex_free_def)
  define s2 where "s2 = s1\<lparr>tasks := moved [0..<TASK_NR] c (tasks s1),
    task_table_mutex := (task_table_mutex s1)\<lparr>locked_count := 0, owner := None\<rparr>\<rparr>"
  have z: "has_zombie [0..<TASK_NR] c s1 = has_zombie [0..<TASK_NR] c s"
    by (auto simp: has_zombie_def c1)
  define s3 where "s3 = s1\<lparr>task_table_mutex := (task_table_mutex s1)\<lparr>locked_count := 1, owner := curr_task s1\<rparr>\<rparr>"
  define s4 where "s4 = s3\<lparr>tasks := moved [0..<TASK_NR] c (tasks s3)\<rparr>"
  have l: "lock_table resume s1 = Some s3" using table_section(1)[OF fr] by (simp add: s3_def)
  have m: "move_children [0..<TASK_NR] c s3 = (has_zombie [0..<TASK_NR] c s, s4)"
    using z by (simp add: move_children_eq s4_def s3_def has_zombie_def)
  have u: "unlock_table resume s4 = Some s2"
    using table_section(2)[OF fr, of s4 resume] by (simp add: s2_def s4_def s3_def)
  have "sys_exit ops view resume code s = exit_switch c (has_zombie [0..<TASK_NR] c s) code s2"
    using cur s1(1) l m u by (simp add: sys_exit_def task_current_def)
  moreover have "os_ok s2 c R S"
  proof -
    have "sched_rep s2 (c # R) S" "on_cpu s2 (c # R)" "waiters_off s2 (insert c (set R \<union> set S))"
      using ok by (auto simp: os_ok_def s2_def c1 on_cpu_def waiters_off_def moved_def sched_rep_def)
    moreover have "mutex_free (task_table_mutex s2) s2" using fr by (simp add: s2_def mutex_free_def)
    moreover have "refs_ok s2"
      using s1(3) by (simp add: files_sound_def refs_ok_def fd_refs_def s2_def moved_def if_distrib cong: if_cong)
    then have "files_sound s2"
      using s1(3) by (simp add: files_sound_def s2_def files_ready_def fs_ready_def mutex_free_def files_fs_def)
    ultimately show ?thesis by (simp add: os_ok_def)
  qed
  ultimately show ?thesis
    using s1(4) by (intro exI[of _ s2]) (auto simp: s2_def moved_def c1)
qed

lemma sys_exit_ok:
  assumes "os_ok s c R S" and "closable view A I s" and "c \<in> set all_tasks"
    and "parent (tasks s c) = Some p" and "p \<noteq> c"
  shows "\<exists>s'. sys_exit ops view resume code s = Some s'
    \<and> sched_rep s' (R @ exit_woken s (has_zombie [0..<TASK_NR] c s) p) S
    \<and> on_cpu s' (R @ exit_woken s (has_zombie [0..<TASK_NR] c s) p)
    \<and> tstate (tasks s' c) = TASK_ZOMBIE \<and> status (tasks s' c) = code
    \<and> (\<forall>fd < nat TASK_OFILE_NR. file_table (tasks s' c) ! fd = None)
    \<and> (\<forall>i < TASK_NR. parent (tasks s (Table_task i)) = Some c
        \<longrightarrow> parent (tasks s' (Table_task i)) = Some First_task)"
proof -
  let ?z = "has_zombie [0..<TASK_NR] c s"
  obtain s1 where s1: "sys_exit ops view resume code s = exit_switch c ?z code s1" "os_ok s1 c R S"
    "\<forall>fd < nat TASK_OFILE_NR. file_table (tasks s1 c) ! fd = None"
    "\<And>t. tstate (tasks s1 t) = tstate (tasks s t)"
    "\<And>t. parent (tasks s1 t) = (if t \<in> Table_task ` {..<TASK_NR} \<and> parent (tasks s t) = Some c
            then Some First_task else parent (tasks s t))"
    using exit_prefix[OF assms(1-3)] by blast
  have W: "exit_woken s1 ?z p = exit_woken s ?z p" by (simp add: exit_woken_def woken_def s1(4))
  have "parent (tasks s1 c) = Some p" using assms(4,5) by (simp add: s1(5))
  from exit_switch_rep[OF _ _ this, of R S ?z code] s1(2) obtain s' where s':
    "exit_switch c ?z code s1 = Some s'" "sched_rep s' (R @ exit_woken s ?z p) S" "on_cpu s' (R @ exit_woken s ?z p)"
    "tstate (tasks s' c) = TASK_ZOMBIE" "status (tasks s' c) = code" "tree_same s1 s'"
    unfolding os_ok_def W by blast
  moreover have "parent (tasks s' t) = parent (tasks s1 t)" "file_table (tasks s' t) = file_table (tasks s1 t)" for t
    using s'(6) by (simp_all add: tree_same_def)
  ultimately show ?thesis using s1(1,3,5) by simp
qed

end


section \<open>Waiting for a child\<close>

lemma find_zombie_Some:
  "i \<in> set ix \<Longrightarrow> parent (tasks s (Table_task i)) = Some c \<Longrightarrow> tstate (tasks s (Table_task i)) = TASK_ZOMBIE
   \<Longrightarrow> find_zombie ix c s \<noteq> None"
  by (induction ix) auto

lemma find_zombie_first:
  assumes "i < TASK_NR" and "parent (tasks s (Table_task i)) = Some c" and "tstate (tasks s (Table_task i)) = TASK_ZOMBIE"
    and "\<And>j. j < i \<Longrightarrow> \<not> (parent (tasks s (Table_task j)) = Some c \<and> tstate (tasks s (Table_task j)) = TASK_ZOMBIE)"
  shows "find_zombie [0..<TASK_NR] c s = Some (Table_task i)"
proof -
  have none: "find_zombie (ix @ i # js) c s = Some (Table_task i)" if "\<forall>j \<in> set ix. j < i" for ix js
    using that assms(2-4) by (induction ix) auto
  have "[0..<TASK_NR] = [0..<i] @ i # [Suc i..<TASK_NR]"
    using assms(1) upt_add_eq_append[of 0 i "TASK_NR - i"] by (simp add: upt_conv_Cons)
  then show ?thesis using none[of "[0..<i]"] by (simp del: upt_Suc)
qed

text \<open>A wake-up is lost when a child exits between its parent's scan and its parent's block.  The
  parent \<open>p\<close> has looked for a zombie in vain, released the table and been preempted by the child
  \<open>c\<close>; the child exits and does not wake \<open>p\<close>, which is not waiting yet.  When \<open>p\<close> then goes on and
  blocks, it is waiting, on no queue, although the child it waits for is a zombie.
\<close>

context fs_closing
begin

lemma wait_lost_wakeup:
  assumes ok: "os_ok s (Table_task i) (p # R) S" and "closable view A I s" and "i < TASK_NR"
    and par: "parent (tasks s (Table_task i)) = Some p" and "tstate (tasks s p) \<noteq> TASK_WAITTING"
  shows "\<exists>s1 s2 R'. sys_exit ops view resume code s = Some s1 \<and> curr_task s1 = Some p
    \<and> wait_block p s1 = Some s2 \<and> tstate (tasks s2 p) = TASK_WAITTING
    \<and> sched_rep s2 R' S \<and> p \<notin> set R' \<and> p \<notin> set S \<and> find_zombie [0..<TASK_NR] p s2 \<noteq> None"
proof -
  let ?c = "Table_task i"
  have c: "?c \<in> set all_tasks" using assms(3) by (auto simp: all_tasks_def TASK_NR_def)
  have f: "?c \<noteq> p" "?c \<notin> set R" "p \<notin> set S" using ok sched_rep_facts[of s "?c # p # R" S] by (auto simp: os_ok_def)
  let ?z = "has_zombie [0..<TASK_NR] ?c s"
  define W where "W = exit_woken s ?z p"
  obtain s0 where s0: "sys_exit ops view resume code s = exit_switch ?c ?z code s0" "os_ok s0 ?c (p # R) S"
    "\<And>t. tstate (tasks s0 t) = tstate (tasks s t)" "parent (tasks s0 ?c) = Some p"
    using exit_prefix[OF ok assms(2) c] par f(1) by fastforce
  have W: "exit_woken s0 ?z p = W" by (simp add: W_def exit_woken_def woken_def s0(3))
  obtain s1 where s1: "exit_switch ?c ?z code s0 = Some s1" "sched_rep s1 (p # R @ W) S" "on_cpu s1 (p # R @ W)"
    "tstate (tasks s1 ?c) = TASK_ZOMBIE" "tree_same s0 s1"
    using exit_switch_rep[OF _ _ s0(4), of "p # R" S ?z code] s0(2) W by (fastforce simp: os_ok_def)
  have pW: "?c \<notin> set (R @ W)" "p \<notin> set (R @ W)"
    using ok f sched_rep_facts(4)[OF s1(2)]
    by (auto simp: W_def exit_woken_def woken_def os_ok_def waiters_off_def)
  obtain s2 where s2: "wait_block p s1 = Some s2" "sched_rep s2 (R @ W) S"
    "tstate (tasks s2 p) = TASK_WAITTING" "tree_same s1 s2" "tstate (tasks s2 ?c) = tstate (tasks s1 ?c)"
    using wait_block_rep[OF s1(2,3), of ?c] pW f(1) by (cases "R @ W") auto
  have "find_zombie [0..<TASK_NR] p s2 \<noteq> None"
    using assms(3) s0(4) s1(4,5) s2(4,5) by (intro find_zombie_Some[of i]) (auto simp: tree_same_def)
  moreover have "curr_task s1 = Some p" using s1(3) by (simp add: on_cpu_def)
  ultimately show ?thesis using s0(1) s1(1) s2(1-3) pW(2) f(3) by auto
qed

end

lemma vwrite_mem: "vwrite a b s = Some s' \<Longrightarrow> \<exists>m. s' = s\<lparr>mem := m\<rparr>"
  by (auto simp: vwrite_def bind_eq_Some_conv split: if_splits)

lemma vwrite_table:
  fixes s :: "('h, 'w, 'm) os_scheme"
  shows "vwrite a b (s\<lparr>task_table_mutex := m\<rparr>) = map_option (\<lambda>s. s\<lparr>task_table_mutex := m\<rparr>) (vwrite a b s)"
  by (cases "mmu_walk (cr3 s) (mem s) a") (simp_all add: vwrite_def)

lemma store_status_mem: "store_status a v s = Some s' \<Longrightarrow> s' = s\<lparr>mem := mem s'\<rparr>"
proof -
  assume "store_status a v s = Some s'"
  then have "\<exists>m. s' = s\<lparr>mem := m\<rparr>"
    by (fastforce simp: store_status_def bind_eq_Some_conv Let_def dest!: vwrite_mem)
  then show ?thesis by auto
qed

lemma store_status_table:
  fixes s :: "('h, 'w, 'm) os_scheme"
  shows "store_status a v (s\<lparr>task_table_mutex := m\<rparr>) = map_option (\<lambda>s. s\<lparr>task_table_mutex := m\<rparr>) (store_status a v s)"
  by (simp add: store_status_def vwrite_table Let_def bind_map_option map_option_bind comp_def)

text \<open>What reaping a child does.\<close>

lemma reap_ok:
  assumes "mm_pool_ok s" and "store_status a (status (tasks s t)) s = Some s0"
    and "space_pages (mem s0) (ts_cr3 (tss (tasks s t))) \<subseteq> pool_pages (paddr_alloc s)"
    and "ts_esp0 (tss (tasks s t)) - MEM_PAGE_SIZE \<in> pool_pages (paddr_alloc s)"
    and "ts_esp0 (tss (tasks s t)) - MEM_PAGE_SIZE < MEMORY_TASK_BASE"
  shows "\<exists>p. reap a t s = Some (tid (tasks s t), clear_task t (s\<lparr>mem := mem s0, paddr_alloc := p\<rparr>))
    \<and> pool_pages p = pool_pages (paddr_alloc s)
    \<and> free_pages p = free_pages (paddr_alloc s) \<union> space_pages (mem s0) (ts_cr3 (tss (tasks s t)))
        \<union> {ts_esp0 (tss (tasks s t)) - MEM_PAGE_SIZE}"
proof -
  have e0: "s0 = s\<lparr>mem := mem s0\<rparr>" using store_status_mem[OF assms(2)] .
  define m where "m = mem s0"
  have s0: "s0 = s\<lparr>mem := m\<rparr>" using e0 by (simp add: m_def)
  have ok0: "mm_pool_ok s0" using assms(1) by (simp add: s0 mm_pool_ok_def pool_ok_def)
  obtain s1 where s1: "memory_destroy_uvm (ts_cr3 (tss (tasks s t))) s0 = Some s1"
    "freed s0 (space_pages (mem s0) (ts_cr3 (tss (tasks s t)))) s1"
    using destroy_freed[OF ok0, of "ts_cr3 (tss (tasks s t))"] assms(3) by (auto simp: s0)
  have "ts_esp0 (tss (tasks s t)) - MEM_PAGE_SIZE \<in> pool_pages (paddr_alloc s1)"
    using assms(4) freedD(3)[OF s1(2)] by (simp add: s0)
  from page_free_freed[OF freedD(1)[OF s1(2)] this] obtain s2 where
    s2: "page_free (ts_esp0 (tss (tasks s t)) - MEM_PAGE_SIZE) 1 s1 = Some s2"
    "freed s1 {ts_esp0 (tss (tasks s t)) - MEM_PAGE_SIZE} s2" by blast
  have fr: "freed s0 (space_pages (mem s0) (ts_cr3 (tss (tasks s t))) \<union> {ts_esp0 (tss (tasks s t)) - MEM_PAGE_SIZE}) s2"
    by (rule freed_trans[OF s1(2) s2(2)])
  have "s2 = s\<lparr>mem := m, paddr_alloc := paddr_alloc s2\<rparr>" using fr by (simp add: freed_def same_mm_def s0)
  moreover have "reap a t s = Some (tid (tasks s t), clear_task t s2)"
    using assms(2,5) s1(1) s2(1) by (simp add: reap_def memory_free_page_def)
  ultimately show ?thesis using fr unfolding freed_def m_def
    by (intro exI[of _ "paddr_alloc s2"]) (simp add: s0 Un_assoc)
qed

lemma clear_task_simps [simp]:
  "tasks (clear_task t s) = (tasks s)(t := zero_task)" "curr_task (clear_task t s) = curr_task s"
  "wait_links (clear_task t s) = node_init (wait_links s) t" "all_links (clear_task t s) = node_init (all_links s) t"
  "task_list (clear_task t s) = task_list s"
  by (simp_all add: clear_task_def)

lemma clear_task_more [simp]: "sched.more (clear_task t s) = sched.more s"
  by (simp add: clear_task_def)

lemma clear_task_os [simp]:
  fixes s :: "('h, 'w, 'm) os_scheme"
  shows "paddr_alloc (clear_task t s) = paddr_alloc s" "gdt_table (clear_task t s) = gdt_table s"
    "task_table_mutex (clear_task t s) = task_table_mutex s" "mem (clear_task t s) = mem s"
  by (simp_all add: clear_task_def upd_task_def)

text \<open>
  \<open>zombie_child s c t\<close>: the child of \<open>c\<close> that a scan of the table finds.  \<open>held s m t\<close>: the
  address space, in memory \<open>m\<close>, and the kernel stack of \<open>t\<close> are pages of the pool.
\<close>

definition zombie_child :: "'m sched_scheme \<Rightarrow> task_ref \<Rightarrow> task_ref \<Rightarrow> bool" where
  "zombie_child s c t \<longleftrightarrow> (\<exists>i < TASK_NR. t = Table_task i \<and> parent (tasks s t) = Some c
     \<and> tstate (tasks s t) = TASK_ZOMBIE
     \<and> (\<forall>j < i. \<not> (parent (tasks s (Table_task j)) = Some c \<and> tstate (tasks s (Table_task j)) = TASK_ZOMBIE)))"

definition task_pages :: "memory \<Rightarrow> tss_t \<Rightarrow> u32 set" where
  "task_pages m r = insert (ts_esp0 r - MEM_PAGE_SIZE) (space_pages m (ts_cr3 r))"

definition held :: "'m mm_scheme \<Rightarrow> memory \<Rightarrow> task_ref \<Rightarrow> bool" where
  "held s m t \<longleftrightarrow> task_pages m (tss (tasks s t)) \<subseteq> pool_pages (paddr_alloc s)
     \<and> ts_esp0 (tss (tasks s t)) - MEM_PAGE_SIZE < MEMORY_TASK_BASE"

lemma wait_ok:
  assumes ok: "os_ok s c R S" "mm_pool_ok s" and z: "zombie_child s c t"
    and st: "store_status a (status (tasks s t)) s = Some s0" and h: "held s (mem s0) t"
  shows "\<exists>p. sys_wait resume a s = Some (tid (tasks s t), clear_task t (s\<lparr>mem := mem s0, paddr_alloc := p,
      task_table_mutex := (task_table_mutex s)\<lparr>locked_count := 0, owner := None\<rparr>\<rparr>))
    \<and> free_pages p = free_pages (paddr_alloc s) \<union> task_pages (mem s0) (tss (tasks s t))"
proof -
  have cur: "curr_task s = Some c" using ok by (simp add: os_ok_def on_cpu_def)
  have fr: "mutex_free (task_table_mutex s) s" using ok by (simp add: os_ok_def)
  define M where "M = (task_table_mutex s)\<lparr>locked_count := 1, owner := curr_task s\<rparr>"
  define s1 where "s1 = s\<lparr>task_table_mutex := M\<rparr>"
  have l: "lock_table resume s = Some s1" using table_section(1)[OF fr] by (simp add: s1_def M_def)
  have f: "find_zombie [0..<TASK_NR] c s1 = Some t"
    using z find_zombie_first[of _ s1 c] by (auto simp: zombie_child_def s1_def)
  have "mm_pool_ok s1" using ok(2) by (simp add: mm_pool_ok_def pool_ok_def s1_def)
  moreover have "store_status a (status (tasks s1 t)) s1 = Some (s0\<lparr>task_table_mutex := M\<rparr>)"
    using st by (simp add: s1_def store_status_table)
  ultimately obtain p where p: "reap a t s1 = Some (tid (tasks s t), clear_task t (s1\<lparr>mem := mem s0, paddr_alloc := p\<rparr>))"
    "free_pages p = free_pages (paddr_alloc s) \<union> task_pages (mem s0) (tss (tasks s t))"
    using reap_ok[of s1 a t "s0\<lparr>task_table_mutex := M\<rparr>"] h by (auto simp: s1_def held_def task_pages_def)
  let ?s2 = "clear_task t (s1\<lparr>mem := mem s0, paddr_alloc := p\<rparr>)"
  have "mutex_unlock M ?s2 = Some (M\<lparr>locked_count := 0, owner := None\<rparr>, ?s2)"
    using fr by (intro mutex_unlock_last) (simp_all add: M_def s1_def mutex_free_def dll_def)
  then have "unlock_table resume ?s2 = Some (?s2\<lparr>task_table_mutex := M\<lparr>locked_count := 0, owner := None\<rparr>\<rparr>)"
    by (simp add: unlock_table_def s1_def resumed_def)
  moreover have "?s2\<lparr>task_table_mutex := M\<lparr>locked_count := 0, owner := None\<rparr>\<rparr>
      = clear_task t (s\<lparr>mem := mem s0, paddr_alloc := p,
          task_table_mutex := (task_table_mutex s)\<lparr>locked_count := 0, owner := None\<rparr>\<rparr>)"
    by (simp add: clear_task_def upd_task_def s1_def M_def)
  ultimately have "sys_wait resume a s = Some (tid (tasks s t), clear_task t (s\<lparr>mem := mem s0, paddr_alloc := p,
      task_table_mutex := (task_table_mutex s)\<lparr>locked_count := 0, owner := None\<rparr>\<rparr>))"
    using cur l f p(1) by (simp add: sys_wait.simps[of resume a s] task_current_def)
  with p(2) show ?thesis by blast
qed

text \<open>C12: Waiting reaps a dead child.  With a zombie child the call does not block: it stores the exit
  status, returns the child's identifier, gives back exactly the child's address space and
  kernel stack and empties its slot.  The child's descriptor is not given back: the
  descriptor table is what it was.
\<close>

theorem wait_reaps_child:
  assumes "os_ok s c R S" and "mm_pool_ok s" and "zombie_child s c t"
    and "store_status a (status (tasks s t)) s = Some s0" and "held s (mem s0) t"
  shows "\<exists>s'. sys_wait resume a s = Some (tid (tasks s t), s') \<and> tasks s' = (tasks s)(t := zero_task)
    \<and> mem s' = mem s0 \<and> locked_count (task_table_mutex s') = 0 \<and> gdt_table s' = gdt_table s
    \<and> free_pages (paddr_alloc s') = free_pages (paddr_alloc s) \<union> task_pages (mem s0) (tss (tasks s t))"
proof -
  obtain p where "sys_wait resume a s = Some (tid (tasks s t), clear_task t (s\<lparr>mem := mem s0, paddr_alloc := p,
      task_table_mutex := (task_table_mutex s)\<lparr>locked_count := 0, owner := None\<rparr>\<rparr>))"
    "free_pages p = free_pages (paddr_alloc s) \<union> task_pages (mem s0) (tss (tasks s t))"
    using wait_ok[OF assms] by blast
  then show ?thesis by (auto intro!: exI)
qed

lemma dseg_walk:
  assumes "dseg f g p xs q" and "dseg f' g' p' ys None" and "hd_opt xs q = hd_opt ys None"
    and "\<And>x. x \<in> set xs \<Longrightarrow> g' x = g x"
  shows "\<exists>zs. ys = xs @ zs \<and> hd_opt zs None = q"
  using assms
proof (induction xs arbitrary: p p' ys)
  case Nil
  then show ?case by auto
next
  case (Cons x xs)
  then obtain ys' where ys: "ys = x # ys'" by (cases ys) auto
  have "\<exists>zs. ys' = xs @ zs \<and> hd_opt zs None = q"
    by (rule Cons.IH[of "Some x" "Some x"]) (use Cons.prems ys in auto)
  then show ?case using ys by auto
qed

text \<open>A node cleared in the middle of a list breaks it.\<close>

lemma node_init_breaks:
  assumes "dll h l (A @ t # B)" and "B \<noteq> []"
  shows "\<not> dll (node_init h t) l L"
proof
  assume L: "dll (node_init h t) l L"
  have d: "t \<notin> set A" using assms(1) by (simp add: dll_def)
  have "dseg (pre h) (nxt h) None A (Some t)" "hd_opt A (Some t) = hd_opt L None"
    using assms(1) L by (simp_all add: dll_def)
  from dseg_walk[OF this(1) _ this(2), of "pre (node_init h t)" "nxt (node_init h t)" None] L d
  obtain zs where zs: "L = A @ zs" "hd_opt zs None = Some t"
    by (force simp: dll_def node_init_def)
  then obtain zs' where z: "zs = t # zs'" by (cases zs) auto
  have "zs' = []" using L by (cases zs') (auto simp: dll_def zs(1) z node_init_def)
  then show False using L assms zs(1) z by (simp add: dll_def)
qed

text \<open>Waiting breaks the list of all tasks.  The slot of the reaped child is cleared while its node
  is still linked there: unless it was the last one, the list is no longer one, whatever its
  contents are taken to be.
\<close>

theorem wait_breaks_task_list:
  assumes "os_ok s c R S" and "mm_pool_ok s" and "zombie_child s c t"
    and "store_status a (status (tasks s t)) s = Some s0" and "held s (mem s0) t"
    and "dll (all_links s) (task_list s) (A @ t # B)" and "B \<noteq> []"
  shows "\<exists>r s'. sys_wait resume a s = Some (r, s') \<and> \<not> dll (all_links s') (task_list s') L"
proof -
  obtain p where "sys_wait resume a s = Some (tid (tasks s t), clear_task t (s\<lparr>mem := mem s0, paddr_alloc := p,
      task_table_mutex := (task_table_mutex s)\<lparr>locked_count := 0, owner := None\<rparr>\<rparr>))"
    using wait_ok[OF assms(1-5)] by blast
  then show ?thesis using node_init_breaks[OF assms(6,7)] by auto
qed

section \<open>A concrete family of processes\<close>

text \<open>
  Slot 1 runs and slot 2, its parent, is ready; slot 3 is a dead child of slot 1; the first
  task waits for a child.
\<close>

definition life_task :: "task_ref \<Rightarrow> task_t" where
  "life_task t =
    (if t = Table_task 1 then blank_task\<lparr>tstate := TASK_RUNNING, parent := Some (Table_task 2)\<rparr>
     else if t = Table_task 2 then blank_task\<lparr>tstate := TASK_READY\<rparr>
     else if t = Table_task 3 then blank_task\<lparr>tstate := TASK_ZOMBIE, parent := Some (Table_task 1),
       tid := 77, tss := blank_tss\<lparr>ts_cr3 := pool_page demo_pool 1, ts_esp0 := pool_page demo_pool 2 + MEM_PAGE_SIZE\<rparr>\<rparr>
     else if t = First_task then blank_task\<lparr>tstate := TASK_WAITTING\<rparr>
     else blank_task)"

definition life_at :: "'w \<Rightarrow> (unit, 'w) os" where
  "life_at w = vfs.extend ((demo_files w)\<lparr>tasks := life_task, curr_task := Some (Table_task 1),
     run_links := \<lparr>pre = (\<lambda>t. if t = Table_task 2 then Some (Table_task 1) else None),
        nxt = (\<lambda>t. if t = Table_task 1 then Some (Table_task 2) else None)\<rparr>,
     ready_list := \<lparr>lfirst = Some (Table_task 1), llast = Some (Table_task 2), lcount = 2\<rparr>,
     sleep_list := blank_list,
     all_links := \<lparr>pre = (\<lambda>t. if t = Table_task 2 then Some (Table_task 3) else None),
        nxt = (\<lambda>t. if t = Table_task 3 then Some (Table_task 2) else None)\<rparr>,
     task_list := \<lparr>lfirst = Some (Table_task 3), llast = Some (Table_task 2), lcount = 2\<rparr>\<rparr>)
    \<lparr>task_table_mutex = \<lparr>locked_count = 0, owner = None, wait_list = blank_list\<rparr>\<rparr>"

abbreviation life_os :: "(unit, unit) os" where
  "life_os \<equiv> life_at ()"

lemmas life_os_def = life_at_def

lemmas life_defs = life_at_def vfs.defs demo_files_def demo_cpu_def demo_mm_def cpu.defs mm.defs sched.defs
  demo_sched_def

lemma life_facts [simp]:
  "tasks (life_at w) = life_task" "curr_task (life_at w) = Some (Table_task 1)" "mem (life_at w) = (\<lambda>_. 0)"
  "paddr_alloc (life_at w) = demo_pool"
  by (simp_all add: life_defs)

lemma life_files:
  "files (life_at w) = files (demo_files w)" "fs_table (life_at w) = fs_table (demo_files w)" "world (life_at w) = w"
  "file_alloc_mutex (life_at w) = file_alloc_mutex (demo_files w)" "wait_links (life_at w) = wait_links (demo_files w)"
  by (simp_all add: life_at_def vfs.defs)

lemma life_table: "file_table (life_task t) = replicate 128 None"
  by (simp add: life_task_def blank_task_def)

lemma life_in_all: "Table_task 1 \<in> set all_tasks"
  by (simp add: all_tasks_def)

lemma life_sound: "files_sound (life_at w)"
proof -
  have "fd_refs (life_at w) f = fd_refs (demo_files w) f" for f
    by (simp add: fd_refs_def life_table demo_table)
  then have "refs_ok (life_at w) = refs_ok (demo_files w)"
    by (simp add: refs_ok_def life_table demo_table life_files)
  moreover have "files_ready (life_at w)" using demo_files_ok(2)[of w] life_in_all
    by (simp add: files_ready_def mutex_free_def life_files)
  moreover have "fs_ready i (life_at w)" for i using demo_files_ok(3)[of i w]
    by (simp add: fs_ready_def mutex_free_def life_files)
  ultimately show ?thesis using demo_files_ok(1)[of w] by (simp add: files_sound_def files_fs_def life_files zero_file_def)
qed

lemma life_os_ok: "os_ok (life_at w) (Table_task 1) [Table_task 2] []"
proof -
  have "sched_rep (life_at w) [Table_task 1, Table_task 2] []"
    by (simp add: sched_rep_def life_defs dll_def blank_list_def)
  moreover have "on_cpu (life_at w) [Table_task 1, Table_task 2]"
    by (simp add: on_cpu_def life_defs life_task_def blank_task_def)
  moreover have "mutex_free (task_table_mutex (life_at w)) (life_at w)"
    by (simp add: mutex_free_def life_at_def vfs.defs dll_def blank_list_def)
  moreover have "waiters_off (life_at w) {Table_task 1, Table_task 2}"
    by (auto simp: waiters_off_def life_task_def blank_task_def)
  ultimately show ?thesis using life_sound[of w] by (simp add: os_ok_def insert_commute)
qed

lemma life_zombie: "zombie_child (life_at w) (Table_task 1) (Table_task 3)"
  unfolding zombie_child_def
  by (rule exI[of _ 3]) (auto simp: TASK_NR_def life_task_def blank_task_def)

text \<open>The same family, slot 1 with file 0 open at descriptor 3 in the state \<open>x\<close>, and the memory \<open>m\<close>.\<close>

definition life_open :: "'w \<Rightarrow> memory \<Rightarrow> file_t \<Rightarrow> (unit, 'w) os" where
  "life_open w m x = set_fd (Table_task 1) 3 (Some 0) ((life_at w)\<lparr>mem := m, files := (files (life_at w))[0 := x]\<rparr>)"

lemma life_open_facts [simp]:
  "files (life_open w m x) = [x, zero_file, zero_file, zero_file]" "fs_table (life_open w m x) = demo_fs_table"
  "world (life_open w m x) = w" "mem (life_open w m x) = m"
proof -
  have "(replicate 4 zero_file)[0 := x] = [x, zero_file, zero_file, zero_file]" by (simp add: numeral_eq_Suc)
  then show "files (life_open w m x) = [x, zero_file, zero_file, zero_file]" by (simp add: life_open_def life_files)
  show "fs_table (life_open w m x) = demo_fs_table" "world (life_open w m x) = w" "mem (life_open w m x) = m"
    by (simp_all add: life_open_def life_files set_fd_def upd_task_def)
qed

lemma life_open_tasks:
  "parent (tasks (life_open w m x) t) = parent (life_task t)" "tstate (tasks (life_open w m x) t) = tstate (life_task t)"
  "tss_sel (tasks (life_open w m x) t) = tss_sel (life_task t)"
  by (simp_all add: life_open_def set_fd_def upd_task_def)

lemma life_open_ok:
  assumes "fref x = 1" and "ffs x \<noteq> None"
  shows "os_ok (life_open w m x) (Table_task 1) [Table_task 2] []"
proof -
  note l = life_os_ok[of w, unfolded os_ok_def files_sound_def]
  have "refs_ok (life_at w)" using l by blast
  from refs_ok_install[OF this life_in_all, of 3 0 x]
  have "refs_ok (set_fd (Table_task 1) 3 (Some 0) (rel (life_at w) ((files (life_at w))[0 := x])))"
    using assms(1) by (simp add: life_table TASK_OFILE_NR_def life_files zero_file_def)
  moreover have "files (life_open w m x) = files (set_fd (Table_task 1) 3 (Some 0) (rel (life_at w) ((files (life_at w))[0 := x])))"
    unfolding life_open_def by simp
  moreover have "tasks (life_open w m x) = tasks (set_fd (Table_task 1) 3 (Some 0) (rel (life_at w) ((files (life_at w))[0 := x])))"
    unfolding life_open_def by (rule set_fd_tasks) simp
  ultimately have "refs_ok (life_open w m x)" using refs_ok_cong by blast
  moreover have "files_fs (life_open w m x)" using assms by (simp add: files_fs_def zero_file_def)
  moreover have "files_ready (life_open w m x)" "fs_ready i (life_open w m x)"
      "mutex_free (task_table_mutex (life_open w m x)) (life_open w m x)" for i
    using l by (simp_all add: life_open_def set_fd_def upd_task_def files_ready_def fs_ready_def mutex_free_def)
  moreover have "sched_rep (life_open w m x) [Table_task 1, Table_task 2] []"
      "on_cpu (life_open w m x) [Table_task 1, Table_task 2]"
    using l by (simp_all add: life_open_def set_fd_def upd_task_def sched_rep_def on_cpu_def)
  moreover have "waiters_off (life_open w m x) {Table_task 1, Table_task 2}"
    using l unfolding waiters_off_def life_open_tasks by simp
  ultimately show ?thesis by (simp add: os_ok_def files_sound_def)
qed

text \<open>Exit with a terminal open through the device file system.\<close>

lemma tty_closable: "closable tty_view (\<lambda>_ _. True) (devs_ok (tty_descs resume cursor uninit)) (life_open (tty_world w) m tty_file)"
  by (simp add: closable_def files_in_def tty_file_def zero_file_def)
    (simp add: devs_ok_def tty_view_def tty_world_def zero_dev_def)

lemma tty_file_facts: "fref tty_file = 1" "ffs tty_file \<noteq> None"
  by (simp_all add: tty_file_def)


lemma life_pool: "mm_pool_ok (life_at w)"
  by (simp add: mm_pool_ok_def demo_pool_ok)

lemma life_status: "store_status 0x5000 (status (tasks life_os (Table_task 3))) life_os = Some life_os"
proof -
  have "life_os\<lparr>mem := (\<lambda>_. 0)\<rparr> = life_os" by (simp add: life_defs)
  moreover have "(\<lambda>_. 0)(a := 0) = (\<lambda>_ :: u32. 0 :: u8)" for a by (simp add: fun_eq_iff)
  ultimately show ?thesis
    by (simp add: store_status_def vwrite_def MEMORY_TASK_BASE_def life_task_def blank_task_def Let_def del: fun_upd_apply)
qed

lemma life_held: "held life_os (mem life_os) (Table_task 3)"
proof -
  have sp: "space_pages (\<lambda>_. 0) d = {d}" for d
    by (auto simp: space_pages_def table_pages_def demo_empty_entry)
  have "pool_page demo_pool i \<in> pool_pages demo_pool" if "0 \<le> i" "i < 8" for i
    using that by (auto simp: pool_pages_def) (auto simp: demo_pool_def)
  then show ?thesis
    by (simp add: held_def task_pages_def sp life_task_def) (simp add: pool_page_def demo_pool_def MEMORY_TASK_BASE_def)
qed

lemmas life_wait = life_os_ok life_pool life_zombie life_status life_held

theorem wait_reaps_child_witness:
  "\<exists>s'. sys_wait (\<lambda>_. None) 0x5000 life_os = Some (77, s')
    \<and> free_pages (paddr_alloc s') = free_pages demo_pool \<union> {pool_page demo_pool 2, pool_page demo_pool 1}"
proof -
  have sp: "space_pages (\<lambda>_. 0) d = {d}" for d
    by (auto simp: space_pages_def table_pages_def demo_empty_entry)
  have "tid (life_task (Table_task 3)) = 77"
    "task_pages (\<lambda>_. 0) (tss (life_task (Table_task 3))) = {pool_page demo_pool 2, pool_page demo_pool 1}"
    by (simp_all add: life_task_def task_pages_def sp)
  then show ?thesis using wait_reaps_child[OF life_wait, of "\<lambda>_. None"] by auto
qed

theorem wait_breaks_task_list_witness:
  "\<exists>r s'. sys_wait (\<lambda>_. None) 0x5000 life_os = Some (r, s') \<and> \<not> dll (all_links s') (task_list s') [Table_task 3]"
proof -
  have "dll (all_links life_os) (task_list life_os) ([] @ Table_task 3 # [Table_task 2])"
    by (simp add: life_os_def vfs.defs dll_def)
  from wait_breaks_task_list[OF life_wait this, of "\<lambda>_. None"] show ?thesis by simp
qed

end
