(* ===== verification/Create.thy ===== *)
theory Create
  imports Task Space
begin

text \<open>
  Creating a task: what \<^verbatim>\<open>task_init\<close> makes of a free slot, and that it does not notice when
  it has no descriptor for it.
\<close>

lemma dll_node_init: "n \<notin> set xs \<Longrightarrow> dll (node_init h n) l xs = dll h l xs"
  by (simp add: dll_def node_init_def)

text \<open>The part of \<^verbatim>\<open>task_init\<close> after the task state segment.\<close>

lemma task_init_rest:
  fixes s1 :: "('h, 'm) cpu_scheme"
  assumes "tss_init lay t flag entry esp s = Some (r, s1)" and "dll (all_links s1) (task_list s1) L" and "t \<notin> set L"
  shows "\<exists>s'. task_init lay t name flag entry esp s = Some (0, s') \<and> dll (all_links s') (task_list s') (L @ [t])
    \<and> tasks s' = (tasks s1)(t := tasks s' t) \<and> tss (tasks s' t) = tss (tasks s1 t) \<and> tss_sel (tasks s' t) = tss_sel (tasks s1 t)
    \<and> tstate (tasks s' t) = TASK_CREATED \<and> tid (tasks s' t) = sint (task_addr lay t)
    \<and> file_table (tasks s' t) = replicate (nat TASK_OFILE_NR) None
    \<and> run_links s' = node_init (run_links s1) t \<and> ready_list s' = ready_list s1 \<and> sleep_list s' = sleep_list s1
    \<and> curr_task s' = curr_task s1 \<and> eflags s' = eflags s1 \<and> sched.more s' = sched.more s1"
proof -
  have "dll (node_init (all_links s1) t) (task_list s1) L" using assms(2,3) by (simp add: dll_node_init)
  from dll_insert_last[OF this assms(3)] obtain l h where
    "list_insert_last (task_list s1) (node_init (all_links s1) t) t = Some (l, h)" "dll h l (L @ [t])" by blast
  then show ?thesis using assms(1) by (simp add: task_init_def Let_def)
qed

text \<open>Creating a task reports success when there was no descriptor for it.  With every entry of the
  descriptor table in use \<^verbatim>\<open>tss_init\<close> gives up, but \<^verbatim>\<open>task_init\<close> returns 0 and puts the task on the
  list of tasks; its selector and its saved registers are whatever they were before, and no page
  was taken for it.
\<close>

theorem task_init_ignores_failure:
  fixes s :: "('h, 'm) cpu_scheme"
  assumes "mutex_free (gdt_mutex s) s" and "\<forall>d \<in> set (drop 1 (gdt_table s)). sattr d \<noteq> 0"
    and "dll (all_links s) (task_list s) L" and "t \<notin> set L"
  shows "\<exists>s'. task_init lay t name flag entry esp s = Some (0, s')
    \<and> dll (all_links s') (task_list s') (L @ [t]) \<and> tss (tasks s' t) = tss (tasks s t)
    \<and> tss_sel (tasks s' t) = tss_sel (tasks s t) \<and> paddr_alloc s' = paddr_alloc s \<and> gdt_table s' = gdt_table s"
proof -
  have none: "find_free_desc i ds = None" if "\<forall>d \<in> set ds. sattr d \<noteq> 0" for i ds
    using that by (induction ds arbitrary: i) auto
  let ?s = "s\<lparr>gdt_mutex := (gdt_mutex s)\<lparr>locked_count := 0, owner := None\<rparr>\<rparr>"
  have "tss_init lay t flag entry esp s = Some (- 1, ?s)"
    using gdt_alloc_result(1)[OF assms(1)] none[OF assms(2)] by (simp add: tss_init_def)
  from task_init_rest[OF this, of L name] assms(3,4) obtain s' where
    s': "task_init lay t name flag entry esp s = Some (0, s')" "dll (all_links s') (task_list s') (L @ [t])"
    "tss (tasks s' t) = tss (tasks s t)" "tss_sel (tasks s' t) = tss_sel (tasks s t)" "sched.more s' = sched.more ?s"
    by auto
  have m: "mm.more s' = mm.more ?s \<and> paddr_alloc s' = paddr_alloc ?s"
    using s'(5) by (cases s', cases s) simp
  then have "gdt_table s' = gdt_table s" by (cases s', cases s) simp
  then show ?thesis using s' m by (intro exI[of _ s']) simp
qed

section \<open>A task that gets its resources\<close>

text \<open>Selectors of a new task by its flag.\<close>

definition start_sels :: "'m sched_scheme \<Rightarrow> int \<Rightarrow> int \<times> int" where
  "start_sels s flag = (if flag AND TASK_FLAGS_SYSTEM \<noteq> 0 then (KERNEL_SELECTOR_CS, KERNEL_SELECTOR_DS)
     else (app_code_sel s OR SEG_CPL_3, app_data_sel s OR SEG_CPL_3))"

definition start_tss :: "int \<times> int \<Rightarrow> u32 \<Rightarrow> u32 \<Rightarrow> u32 \<Rightarrow> u32 \<Rightarrow> tss_t" where
  "start_tss sels entry esp stack dir = zero_tss\<lparr>ts_eip := entry, ts_esp := esp, ts_esp0 := stack + MEM_PAGE_SIZE,
     ts_ss := word_of_int (snd sels), ts_ss0 := word_of_int KERNEL_SELECTOR_DS, ts_gs := word_of_int (snd sels),
     ts_fs := word_of_int (snd sels), ts_ds := word_of_int (snd sels), ts_es := word_of_int (snd sels),
     ts_cs := word_of_int (fst sels), ts_eflags := EFLAGS_IF OR EFLAGS_DEFAULT, ts_cr3 := dir\<rparr>"

definition tss_desc :: "layout \<Rightarrow> task_ref \<Rightarrow> segment_desc_t" where
  "tss_desc lay t = segment_desc (tss_addr lay t) 104 (SEG_P_PRESENT OR SEG_DPL_0 OR SEG_TYPE_TSS)"

lemma pool_more:
  "mm_pool_ok s \<Longrightarrow> paddr_alloc s' = paddr_alloc s \<Longrightarrow> wait_links s' = wait_links s \<Longrightarrow> mm_pool_ok s'"
  by (simp add: mm_pool_ok_def pool_ok_def)

lemma same_mm_links: "same_mm s s' \<Longrightarrow> wait_links s' = wait_links s"
  unfolding same_mm_def by (erule ssubst) simp

lemma tss_updates:
  fixes s :: "('h, 'm) cpu_scheme"
  shows "upd_task t F (upd_tss t G ((upd_tss t H ((upd_tss t K (s\<lparr>gdt_mutex := M, gdt_table := D\<rparr>))
      \<lparr>paddr_alloc := q\<rparr>))\<lparr>paddr_alloc := pa, mem := m\<rparr>))
    = (upd_task t (\<lambda>k. F (k\<lparr>tss := G (H (K (tss k)))\<rparr>)) s)\<lparr>gdt_table := D, gdt_mutex := M, paddr_alloc := pa, mem := m\<rparr>"
  by (simp add: upd_tss_def upd_task_def)

lemma tss_init_ok:
  fixes s :: "('h, 'm) cpu_scheme"
  assumes g: "mutex_free (gdt_mutex s) s" and d: "find_free_desc 1 (drop 1 (gdt_table s)) = Some i"
    and p: "mm_pool_ok s" "2 \<le> card (free_pages (paddr_alloc s))" "aligned (kernel_page_dir s)"
    and pr: "dir_private (mem s) (kernel_page_dir s) (free_pages (paddr_alloc s))"
  shows "\<exists>stack dir pa m. stack \<in> free_pages (paddr_alloc s) \<and> dir \<in> free_pages (paddr_alloc s) \<and> stack \<noteq> dir
    \<and> free_pages pa = free_pages (paddr_alloc s) - {stack, dir}
    \<and> pool_pages pa = pool_pages (paddr_alloc s) \<and> pool_ok pa s \<and> kept (free_pages (paddr_alloc s)) (mem s) m
    \<and> (\<forall>va. mmu_walk dir m va = (if va < MEMORY_TASK_BASE then mmu_walk (kernel_page_dir s) (mem s) va else None))
    \<and> tss_init lay t flag entry esp s = Some (0,
        (upd_task t (\<lambda>k. k\<lparr>tss := start_tss (start_sels s flag) entry esp stack dir, tss_sel := 8 * int i\<rparr>) s)
        \<lparr>gdt_table := (gdt_table s)[i := tss_desc lay t], gdt_mutex := (gdt_mutex s)\<lparr>locked_count := 0, owner := None\<rparr>,
         paddr_alloc := pa, mem := m\<rparr>)"
proof -
  have i: "i < length (gdt_table s)" using find_free_desc_Some[OF d] by auto
  define s1 where "s1 = s\<lparr>gdt_mutex := (gdt_mutex s)\<lparr>locked_count := 0, owner := None\<rparr>\<rparr>"
  have a: "gdt_alloc_desc s = Some (8 * int i, s1)" using gdt_alloc_result(1)[OF g] d by (simp add: s1_def)
  define s2 where "s2 = s1\<lparr>gdt_table := (gdt_table s)[i := tss_desc lay t]\<rparr>"
  have b: "segment_desc_set (8 * int i) (tss_addr lay t) 104 (SEG_P_PRESENT OR SEG_DPL_0 OR SEG_TYPE_TSS) s1 = Some s2"
    using i by (simp add: segment_desc_set_def set_gdt_def s2_def s1_def tss_desc_def)
  define s3 where "s3 = upd_tss t (\<lambda>_. zero_tss) s2"
  have e3: "paddr_alloc s3 = paddr_alloc s" "wait_links s3 = wait_links s" "kernel_page_dir s3 = kernel_page_dir s" "mem s3 = mem s"
    by (simp_all add: s3_def s2_def s1_def upd_tss_def upd_task_def)
  have p3: "mm_pool_ok s3" by (rule pool_more[OF p(1) e3(1,2)])
  have ne: "free_pages (paddr_alloc s3) \<noteq> {}" using p(2) by (auto simp: e3)
  obtain stack s4 where s4: "page_alloc s3 = Some (stack, s4)" "mm_pool_ok s4" "same_mm s3 s4"
    "stack \<in> free_pages (paddr_alloc s)" "free_pages (paddr_alloc s4) = free_pages (paddr_alloc s) - {stack}"
    "pool_pages (paddr_alloc s4) = pool_pages (paddr_alloc s)"
    using page_alloc_pool[OF p3] ne by (auto simp: e3)
  have e4: "s4 = s3\<lparr>paddr_alloc := paddr_alloc s4\<rparr>" using s4(3) by (simp add: same_mm_def)
  have st: "stack \<noteq> 0" using free_page_facts[OF p(1) s4(4)] by simp
  define r where "r = (start_tss (start_sels s flag) entry esp stack 0)"
  define s5 where "s5 = upd_tss t (\<lambda>_. r) s4"
  have e5: "paddr_alloc s5 = paddr_alloc s4" "wait_links s5 = wait_links s4" "kernel_page_dir s5 = kernel_page_dir s" "mem s5 = mem s"
    using same_mmD[OF s4(3)] e3 by (simp_all add: s5_def upd_tss_def upd_task_def)
  have p5: "mm_pool_ok s5" by (rule pool_more[OF s4(2) e5(1,2)])
  have "card (free_pages (paddr_alloc s) - {stack}) \<noteq> 0" using p(2) s4(4) by (simp add: card_Diff_singleton)
  then have ne5: "free_pages (paddr_alloc s5) \<noteq> {}" using s4(5) e5(1) by auto
  have "dir_private (mem s5) (kernel_page_dir s5) (free_pages (paddr_alloc s5))"
    using pr by (auto simp: dir_private_def e5 s4(5))
  then obtain dir s6 where s6: "memory_create_uvm s5 = Some (dir, s6)" "dir \<in> free_pages (paddr_alloc s5)"
    "free_pages (paddr_alloc s6) = free_pages (paddr_alloc s5) - {dir}"
    "s6 = s5\<lparr>paddr_alloc := paddr_alloc s6, mem := mem s6\<rparr>"
    "\<forall>va. mmu_walk dir (mem s6) va
        = (if va < MEMORY_TASK_BASE then mmu_walk (kernel_page_dir s5) (mem s5) va else None)"
    "mm_pool_ok s6" "pool_pages (paddr_alloc s6) = pool_pages (paddr_alloc s5)"
    "kept (free_pages (paddr_alloc s5)) (mem s5) (mem s6)"
    using create_uvm_ok[OF p5 ne5] p(3) e5(3) by auto
  have dn: "dir \<noteq> 0" using free_page_facts(2)[OF p5 s6(2)] .
  have t4: "tss (tasks s4 t) = zero_tss" using same_mmD(1)[OF s4(3)] by (simp add: s3_def upd_tss_def)
  have cs: "app_code_sel s3 = app_code_sel s" "app_data_sel s3 = app_data_sel s"
    by (simp_all add: s3_def s2_def s1_def upd_tss_def)
  have u: "upd_tss t (\<lambda>x. x\<lparr>ts_eip := entry, ts_esp := esp, ts_esp0 := stack + MEM_PAGE_SIZE,
      ts_ss := word_of_int (snd (start_sels s flag)), ts_ss0 := word_of_int KERNEL_SELECTOR_DS,
      ts_gs := word_of_int (snd (start_sels s flag)), ts_fs := word_of_int (snd (start_sels s flag)),
      ts_ds := word_of_int (snd (start_sels s flag)), ts_es := word_of_int (snd (start_sels s flag)),
      ts_cs := word_of_int (fst (start_sels s flag)), ts_eflags := EFLAGS_IF OR EFLAGS_DEFAULT\<rparr>) s4 = s5"
    using t4 by (simp add: s5_def r_def start_tss_def upd_tss_def upd_task_def zero_tss_def)
  have A: "tss_init lay t flag entry esp s = Some (0, upd_task t (\<lambda>k. k\<lparr>tss_sel := 8 * int i\<rparr>)
      (upd_tss t (\<lambda>x. x\<lparr>ts_cr3 := dir\<rparr>) s6))"
    using a b s4(1) st u s6(1) dn cs
    by (simp add: tss_init_def memory_alloc_page_def s3_def[symmetric] start_sels_def Let_def split: if_splits)
  have B: "upd_task t (\<lambda>k. k\<lparr>tss_sel := 8 * int i\<rparr>) (upd_tss t (\<lambda>x. x\<lparr>ts_cr3 := dir\<rparr>) s6)
    = (upd_task t (\<lambda>k. k\<lparr>tss := start_tss (start_sels s flag) entry esp stack dir, tss_sel := 8 * int i\<rparr>) s)
        \<lparr>gdt_table := (gdt_table s)[i := tss_desc lay t], gdt_mutex := (gdt_mutex s)\<lparr>locked_count := 0, owner := None\<rparr>,
         paddr_alloc := paddr_alloc s6, mem := mem s6\<rparr>"
  proof -
    obtain pa m q where e: "s6 = s5\<lparr>paddr_alloc := pa, mem := m\<rparr>" "s4 = s3\<lparr>paddr_alloc := q\<rparr>"
      using s6(4) e4 by blast
    have r: "r\<lparr>ts_cr3 := dir\<rparr> = start_tss (start_sels s flag) entry esp stack dir" by (simp add: r_def start_tss_def)
    have pm: "paddr_alloc s6 = pa" "mem s6 = m" by (simp_all add: e(1))
    show ?thesis unfolding pm unfolding e(1) s5_def e(2) r[symmetric] s3_def s2_def s1_def tss_updates ..
  qed
  have C: "stack \<noteq> dir" "dir \<in> free_pages (paddr_alloc s)" "free_pages (paddr_alloc s6) = free_pages (paddr_alloc s) - {stack, dir}"
    using s6(2,3) e5(1) s4(5) by auto
  have w6: "wait_links s6 = wait_links s"
    by (subst s6(4)) (use e5(2) same_mm_links[OF s4(3)] e3(2) in simp)
  have G: "pool_pages (paddr_alloc s6) = pool_pages (paddr_alloc s)" "pool_ok (paddr_alloc s6) s"
    "kept (free_pages (paddr_alloc s)) (mem s) (mem s6)"
    using s6(7) s4(6) e5(1) s6(6) w6 kept_mono[OF s6(8), of "free_pages (paddr_alloc s)"] s4(5)
    by (auto simp: mm_pool_ok_def pool_ok_def e5(4))
  have D: "\<forall>va. mmu_walk dir (mem s6) va = (if va < MEMORY_TASK_BASE then mmu_walk (kernel_page_dir s) (mem s) va else None)"
    using s6(5) unfolding e5(3,4) .
  show ?thesis
    by (intro exI[of _ stack] exI[of _ dir] exI[of _ "paddr_alloc s6"] exI[of _ "mem s6"] conjI s4(4) C G D A[unfolded B])
qed

lemma more_cpu:
  fixes s s' :: "('h, 'm) cpu_scheme"
  assumes "sched.more s' = sched.more s"
  shows "gdt_table s' = gdt_table s" and "paddr_alloc s' = paddr_alloc s" and "mem s' = mem s"
  using assms by (cases s, cases s', simp)+

text \<open>C8: Creating a task gives it a descriptor, a kernel stack and an address space.  With a free
  descriptor and two free pages \<^verbatim>\<open>task_init\<close> returns 0; the first free descriptor now describes
  the task's state segment and is its selector; two distinct pages that were free are its
  kernel stack and page directory, and no other page was taken; the directory translates the
  kernel's half alone; the saved registers start the program; and the task is the last on the
  list of tasks.
\<close>

theorem task_init_builds:
  fixes s :: "('h, 'm) cpu_scheme"
  assumes "mutex_free (gdt_mutex s) s" and "find_free_desc 1 (drop 1 (gdt_table s)) = Some i"
    and "mm_pool_ok s" and "2 \<le> card (free_pages (paddr_alloc s))" and "aligned (kernel_page_dir s)"
    and "dir_private (mem s) (kernel_page_dir s) (free_pages (paddr_alloc s))"
    and "dll (all_links s) (task_list s) L" and "t \<notin> set L"
  shows "\<exists>s' stack dir. task_init lay t name flag entry esp s = Some (0, s')
    \<and> tss_sel (tasks s' t) = 8 * int i \<and> seg_base (gdt_table s' ! i) = tss_addr lay t
    \<and> stack \<in> free_pages (paddr_alloc s) \<and> dir \<in> free_pages (paddr_alloc s) \<and> stack \<noteq> dir
    \<and> free_pages (paddr_alloc s') = free_pages (paddr_alloc s) - {stack, dir}
    \<and> (\<forall>va. mmu_walk dir (mem s') va
        = (if va < MEMORY_TASK_BASE then mmu_walk (kernel_page_dir s) (mem s) va else None))
    \<and> tss (tasks s' t) = start_tss (start_sels s flag) entry esp stack dir
    \<and> tstate (tasks s' t) = TASK_CREATED \<and> dll (all_links s') (task_list s') (L @ [t])"
proof -
  obtain stack dir pa m where r: "stack \<in> free_pages (paddr_alloc s)" "dir \<in> free_pages (paddr_alloc s)"
    "stack \<noteq> dir" "free_pages pa = free_pages (paddr_alloc s) - {stack, dir}"
    "\<forall>va. mmu_walk dir m va = (if va < MEMORY_TASK_BASE then mmu_walk (kernel_page_dir s) (mem s) va else None)"
    "tss_init lay t flag entry esp s = Some (0,
        (upd_task t (\<lambda>k. k\<lparr>tss := start_tss (start_sels s flag) entry esp stack dir, tss_sel := 8 * int i\<rparr>) s)
        \<lparr>gdt_table := (gdt_table s)[i := tss_desc lay t], gdt_mutex := (gdt_mutex s)\<lparr>locked_count := 0, owner := None\<rparr>,
         paddr_alloc := pa, mem := m\<rparr>)" (is "_ = Some (0, ?s1)")
    using tss_init_ok[OF assms(1-6), of lay t flag entry esp] by blast
  have s1: "all_links ?s1 = all_links s" "task_list ?s1 = task_list s" "gdt_table ?s1 = (gdt_table s)[i := tss_desc lay t]"
    "paddr_alloc ?s1 = pa" "mem ?s1 = m" "tss (tasks ?s1 t) = start_tss (start_sels s flag) entry esp stack dir"
    "tss_sel (tasks ?s1 t) = 8 * int i"
    by (simp_all add: upd_task_def)
  obtain s' where s': "task_init lay t name flag entry esp s = Some (0, s')" "dll (all_links s') (task_list s') (L @ [t])"
    "tss (tasks s' t) = start_tss (start_sels s flag) entry esp stack dir" "tss_sel (tasks s' t) = 8 * int i"
    "tstate (tasks s' t) = TASK_CREATED" "sched.more s' = sched.more ?s1"
    using task_init_rest[OF r(6), of L name] assms(7,8) unfolding s1 by blast
  note m = more_cpu[OF s'(6), unfolded s1]
  have "i < length (gdt_table s)" using find_free_desc_Some[OF assms(2)] by auto
  then have "seg_base (gdt_table s' ! i) = tss_addr lay t" by (simp add: m(1) tss_desc_def seg_base_desc)
  with r(1-5) s'(1-5) m(2,3) show ?thesis
    by (intro exI[of _ s'] exI[of _ stack] exI[of _ dir] conjI) simp_all
qed

section \<open>Concrete states\<close>

lemma demo_free_pages: "2 \<le> card (free_pages demo_pool)"
proof -
  have "\<not> bm_bit (abitmap demo_pool) 1" "\<not> bm_bit (abitmap demo_pool) 2" by (simp_all add: bm_bit_def demo_pool_def)
  then have "{pool_page demo_pool 1, pool_page demo_pool 2} \<subseteq> free_pages demo_pool"
    by (auto simp: free_pages_def) (auto simp: demo_pool_def)
  moreover have "card {pool_page demo_pool 1, pool_page demo_pool 2} = 2" by (simp add: pool_page_def demo_pool_def)
  moreover have "finite (free_pages demo_pool)" by (simp add: free_pages_def)
  ultimately show ?thesis by (metis card_mono)
qed

definition demo_layout :: layout where
  "demo_layout = \<lparr>task_addr = (\<lambda>_. 0x30000), tss_addr = (\<lambda>_. 0x31000), idle_task_entry = 0x10000,
     idle_task_stack = 0x11000, first_task_entry = 0x80000000, s_first_start = 0x12000, e_first_task = 0x80001000,
     elf_hdr_at = 0x13000, elf_phdr_at = 0x13100, task_args_at = 0x13200\<rparr>"

lemma demo_cpu_facts:
  "gdt_table (demo_cpu ()) = replicate GDT_TABLE_SIZE (segment_desc 0 0 0)" "paddr_alloc (demo_cpu ()) = demo_pool"
  "mem (demo_cpu ()) = (\<lambda>_. 0)" "kernel_page_dir (demo_cpu ()) = 0x20000"
  "dll (all_links (demo_cpu ())) (task_list (demo_cpu ())) []" "mutex_free (gdt_mutex (demo_cpu ())) (demo_cpu ())"
  by (simp_all add: demo_cpu_def demo_mm_def cpu.defs mm.defs sched.defs demo_sched_def dll_def blank_list_def
      mutex_free_def)

theorem task_init_builds_witness:
  "\<exists>s' stack dir. task_init demo_layout (Table_task 5) [120] 0 0x80000000 0x80005000 (demo_cpu ()) = Some (0, s')
    \<and> tss_sel (tasks s' (Table_task 5)) = 8 \<and> stack \<noteq> dir
    \<and> free_pages (paddr_alloc s') = free_pages demo_pool - {stack, dir}"
proof -
  have d: "find_free_desc 1 (drop 1 (gdt_table (demo_cpu ()))) = Some 1"
  proof -
    have "(255 :: nat) = Suc 254" by simp
    then have "replicate 255 x = x # replicate 254 x" for x :: segment_desc_t by (simp only: replicate_Suc)
    then show ?thesis by (simp add: demo_cpu_facts GDT_TABLE_SIZE_def segment_desc_def)
  qed
  have p: "mm_pool_ok (demo_cpu ())" by (simp add: mm_pool_ok_def demo_cpu_facts demo_pool_ok)
  have "0x20000 \<noteq> pool_page demo_pool i" if "0 \<le> i" "i < 8" for i
    using uint_pool_page(1)[OF demo_pool_ok, of i] that by (auto simp: demo_pool_def)
  then have "0x20000 \<notin> free_pages demo_pool" by (auto simp: free_pages_def) (auto simp: demo_pool_def)
  then have pr: "dir_private (mem (demo_cpu ())) (kernel_page_dir (demo_cpu ())) (free_pages (paddr_alloc (demo_cpu ())))"
    by (simp add: dir_private_def demo_cpu_facts demo_empty_entry)
  show ?thesis
    using task_init_builds[OF demo_cpu_facts(6) d p _ _ pr demo_cpu_facts(5), of "Table_task 5" demo_layout "[120]" 0
        "0x80000000" "0x80005000"] demo_free_pages
    by (auto simp: demo_cpu_facts)
qed

theorem task_init_ignores_failure_witness:
  "\<exists>s'. task_init demo_layout (Table_task 5) [120] 0 0x80000000 0x80005000 ((demo_cpu ())\<lparr>gdt_table := replicate GDT_TABLE_SIZE (segment_desc 0 0 0x80)\<rparr>) = Some (0, s')
    \<and> tss_sel (tasks s' (Table_task 5)) = 0 \<and> paddr_alloc s' = demo_pool"
proof -
  let ?s = "(demo_cpu ())\<lparr>gdt_table := replicate GDT_TABLE_SIZE (segment_desc 0 0 0x80)\<rparr>"
  have "mutex_free (gdt_mutex ?s) ?s" "dll (all_links ?s) (task_list ?s) []"
    using demo_cpu_facts(5,6) by (simp_all add: mutex_free_def)
  moreover have "tss_sel (tasks ?s (Table_task 5)) = 0" "paddr_alloc ?s = demo_pool"
    by (simp_all add: demo_cpu_def demo_mm_def cpu.defs mm.defs sched.defs demo_sched_def blank_task_def)
  moreover have "\<forall>d \<in> set (drop 1 (gdt_table ?s)). sattr d \<noteq> 0"
    by (simp add: segment_desc_def)
  ultimately show ?thesis
    using task_init_ignores_failure[of ?s "[]" "Table_task 5" demo_layout "[120]" 0 "0x80000000" "0x80005000"] by auto
qed

end
