(* ===== verification/Copy.thy ===== *)
theory Copy
  imports Space
begin

text \<open>
  Copying an address space, as fork does (\<^verbatim>\<open>memory_copy_uvm\<close> in
  \<^verbatim>\<open>kernel/core/memory.c\<close>): which pages the copy writes, the invariant of its two
  nested scans, and what the child sees when they are over.
\<close>

section \<open>Mapping one page, seen from the pages it writes\<close>

text \<open>The pages a directory owns in its user half.\<close>

definition user_tables :: "memory \<Rightarrow> u32 \<Rightarrow> u32 set" where
  "user_tables m pd = {pde_paddr (dir_entry m pd i) | i. 512 \<le> i \<and> i < 1024 \<and> entry_present (dir_entry m pd i)}"

definition user_frames :: "memory \<Rightarrow> u32 \<Rightarrow> u32 set" where
  "user_frames m pd = {pte_paddr v | v i j. 512 \<le> i \<and> i < 1024 \<and> j < 1024 \<and> lookup m pd i j = Some v}"

lemma user_pdes_set: "set user_pdes = {512..<1024}"
  by (simp add: user_pdes_def pde_index_def MEMORY_TASK_BASE_def del: upt_rec_numeral)

lemma space_pages_user: "space_pages m pd = insert pd (user_tables m pd \<union> user_frames m pd)"
proof -
  have e: "pd + 4 * of_nat i = slot pd (4 * i)" for pd i by (simp add: slot_def)
  show ?thesis
    unfolding space_pages_def table_pages_def table_frames_def user_tables_def user_frames_def
      user_pdes_set e lookup_def Let_def
    by (auto split: if_splits)
qed

lemma find_pte_pages:
  fixes va :: u32
  assumes d: "dir_ok (mem s) pd" and ok: "mm_pool_ok s"
    and pr: "dir_private (mem s) pd (free_pages (paddr_alloc s))"
    and f: "find_pte pd va 1 s = Some (p, s')"
  defines "i \<equiv> unat (pde_index va)"
  shows "kept (insert pd (free_pages (paddr_alloc s))) (mem s) (mem s')"
    and "pool_pages (paddr_alloc s') = pool_pages (paddr_alloc s)"
    and "\<And>k. k < 1024 \<Longrightarrow> k \<noteq> i \<Longrightarrow> dir_entry (mem s') pd k = dir_entry (mem s) pd k"
    and "entry_present (dir_entry (mem s) pd i) \<Longrightarrow> s' = s"
    and "p \<noteq> 0 \<Longrightarrow> \<not> entry_present (dir_entry (mem s) pd i) \<Longrightarrow>
      pde_paddr (dir_entry (mem s') pd i) \<in> free_pages (paddr_alloc s)
      \<and> free_pages (paddr_alloc s') = free_pages (paddr_alloc s) - {pde_paddr (dir_entry (mem s') pd i)}"
proof -
  have ix: "i < 1024" unfolding i_def by (rule index_less)
  let ?F = "free_pages (paddr_alloc s)"
  have al: "aligned pd" using d by (simp add: dir_ok_def)
  have "kept (insert pd ?F) (mem s) (mem s') \<and> pool_pages (paddr_alloc s') = pool_pages (paddr_alloc s)
    \<and> (\<forall>k<1024. k \<noteq> i \<longrightarrow> dir_entry (mem s') pd k = dir_entry (mem s) pd k)
    \<and> (entry_present (dir_entry (mem s) pd i) \<longrightarrow> s' = s)
    \<and> (p \<noteq> 0 \<longrightarrow> \<not> entry_present (dir_entry (mem s) pd i) \<longrightarrow>
      pde_paddr (dir_entry (mem s') pd i) \<in> ?F
      \<and> free_pages (paddr_alloc s') = ?F - {pde_paddr (dir_entry (mem s') pd i)})"
  proof (cases "entry_present (dir_entry (mem s) pd i)")
    case True
    then have "s' = s" using f by (simp add: find_pte_def entry_address i_def Let_def)
    with True show ?thesis by simp
  next
    case False
    obtain q s1 where a: "page_alloc s = Some (q, s1)" using page_alloc_pool[OF ok] by blast
    note pa = pp.alloc_some[OF ok a]
    have m1: "mem s1 = mem s" using same_mmD[OF pa(2)] by simp
    show ?thesis
    proof (cases "q = 0")
      case True
      then have "p = 0" "s' = s1" using f a False by (simp_all add: find_pte_def entry_address i_def Let_def)
      then show ?thesis using m1 pa(3) False by simp
    next
      case q: False
      have fr: "q \<in> ?F" "free_pages (paddr_alloc s1) = ?F - {q}" using pa(5)[OF q] by auto
      note pf = free_page_facts[OF ok fr(1)]
      let ?v = "q OR PDE_P OR PDE_W OR PDE_U"
      have "?v = q OR 7" by (rule bit_word_eqI) (auto simp: PDE_P_def PDE_W_def PDE_U_def bit_simps)
      then have v: "pde_paddr ?v = q" using entry_flags[OF pf(1), of 7] by simp
      have qd: "q \<noteq> pd" using pr fr(1) by (auto simp: dir_private_def)
      define m0 where "m0 = store32 (mem s) (slot pd (4 * i)) ?v"
      define m' where "m' = kernel_memset q 0 4096 m0"
      have s': "s' = s1\<lparr>mem := m'\<rparr>"
        using f a q False m1 by (simp add: find_pte_def entry_address i_def Let_def m'_def m0_def)
      have de: "dir_entry m' pd k = (if k = i then ?v else dir_entry (mem s) pd k)" if "k < 1024" for k
        unfolding m'_def load32_memset[OF pf(1) al that pf(2)] m0_def
        using load32_store32[OF al al ix that] qd by auto
      have "kept (insert pd ?F) (mem s) m'"
        unfolding m'_def m0_def
        by (rule kept_chain[OF kept_store[OF al _ ix, of "{pd}"] kept_memset[OF pf(1) _ pf(2), of "{q}"]])
          (use fr(1) in auto)
      then show ?thesis unfolding s' using de[OF ix] de v fr pa(3) False by simp
    qed
  qed
  then show "kept (insert pd ?F) (mem s) (mem s')"
    "pool_pages (paddr_alloc s') = pool_pages (paddr_alloc s)"
    "\<And>k. k < 1024 \<Longrightarrow> k \<noteq> i \<Longrightarrow> dir_entry (mem s') pd k = dir_entry (mem s) pd k"
    "entry_present (dir_entry (mem s) pd i) \<Longrightarrow> s' = s"
    "p \<noteq> 0 \<Longrightarrow> \<not> entry_present (dir_entry (mem s) pd i) \<Longrightarrow>
      pde_paddr (dir_entry (mem s') pd i) \<in> ?F
      \<and> free_pages (paddr_alloc s') = ?F - {pde_paddr (dir_entry (mem s') pd i)}" by blast+
qed

lemma map_page_pages:
  fixes va :: u32
  assumes d: "dir_ok (mem s) pd" and ok: "mm_pool_ok s"
    and pr: "dir_private (mem s) pd (free_pages (paddr_alloc s))"
    and mp: "memory_create_map pd va pa 1 perm s = Some (r, s')"
  defines "i \<equiv> unat (pde_index va)"
  shows "pool_pages (paddr_alloc s') = pool_pages (paddr_alloc s)"
    and "r = 0 \<Longrightarrow> kept (insert pd (insert (pde_paddr (dir_entry (mem s') pd i)) (free_pages (paddr_alloc s)))) (mem s) (mem s')"
    and "r = 0 \<Longrightarrow> entry_present (dir_entry (mem s') pd i)"
    and "r = 0 \<Longrightarrow> k < 1024 \<Longrightarrow> k \<noteq> i \<or> entry_present (dir_entry (mem s) pd i) \<Longrightarrow>
      dir_entry (mem s') pd k = dir_entry (mem s) pd k"
    and "entry_present (dir_entry (mem s) pd i) \<Longrightarrow> r = 0"
    and "free_pages (paddr_alloc s') \<subseteq> free_pages (paddr_alloc s)"
    and "r = 0 \<Longrightarrow> entry_present (dir_entry (mem s) pd i) \<Longrightarrow> free_pages (paddr_alloc s') = free_pages (paddr_alloc s)"
    and "r = 0 \<Longrightarrow> \<not> entry_present (dir_entry (mem s) pd i) \<Longrightarrow>
      pde_paddr (dir_entry (mem s') pd i) \<in> free_pages (paddr_alloc s)
      \<and> free_pages (paddr_alloc s') = free_pages (paddr_alloc s) - {pde_paddr (dir_entry (mem s') pd i)}"
proof -
  let ?F = "free_pages (paddr_alloc s)"
  define j where "j = unat (pte_index va)"
  have ij: "i < 1024" "j < 1024" unfolding i_def j_def by (rule index_less)+
  obtain p s1 where f: "find_pte pd va 1 s = Some (p, s1)" "dir_ok (mem s1) pd"
    "free_pages (paddr_alloc s1) \<subseteq> ?F"
    "p \<noteq> 0 \<Longrightarrow> entry_present (dir_entry (mem s1) pd i) \<and> p = slot (pde_paddr (dir_entry (mem s1) pd i)) (4 * j)"
    using find_pte_ok[OF d ok pr, of va] unfolding i_def j_def by (auto split: if_splits)
  note g = find_pte_pages[OF d ok pr f(1), folded i_def]
  have al: "aligned pd" using d by (simp add: dir_ok_def)
  have "pool_pages (paddr_alloc s') = pool_pages (paddr_alloc s) \<and> paddr_alloc s' = paddr_alloc s1
    \<and> (p \<noteq> 0 \<longrightarrow> r = 0) \<and> (r = 0 \<longrightarrow>
      kept (insert pd (insert (pde_paddr (dir_entry (mem s') pd i)) ?F)) (mem s) (mem s')
      \<and> p \<noteq> 0
      \<and> (\<forall>k<1024. dir_entry (mem s') pd k = dir_entry (mem s1) pd k))"
  proof (cases "p = 0")
    case True
    then show ?thesis using mp f(1) g(2) by (auto simp: memory_create_map_def)
  next
    case False
    let ?t = "pde_paddr (dir_entry (mem s1) pd i)"
    note e = f(4)[OF False]
    have s': "r = 0" "s' = s1\<lparr>mem := store32 (mem s1) p (pa OR perm OR PTE_P)\<rparr>"
      using mp f(1) False by (auto simp: memory_create_map_def split: if_splits)
    have t: "?t \<noteq> pd" using f(2) ij(1) e by (auto simp: dir_ok_def)
    have de: "dir_entry (mem s') pd k = dir_entry (mem s1) pd k" if "k < 1024" for k
      using load32_store32[OF aligned_paddr(1)[of "dir_entry (mem s1) pd i"] al ij(2) that] e t
      unfolding s'(2) by auto
    have "kept {?t} (mem s1) (store32 (mem s1) p (pa OR perm OR PTE_P))"
      unfolding conjunct2[OF e] by (rule kept_store[OF aligned_paddr(1) _ ij(2)]) simp
    then have "kept {?t} (mem s1) (mem s')" unfolding s'(2) by simp
    from kept_chain[OF g(1) this] have "kept (insert pd (insert ?t ?F)) (mem s) (mem s')" by auto
    then show ?thesis using de ij(1) False g(2) s' by simp
  qed
  note h = this
  then show "pool_pages (paddr_alloc s') = pool_pages (paddr_alloc s)" by blast
  show "free_pages (paddr_alloc s') \<subseteq> ?F" using h f(3) by simp
  show "r = 0" if "entry_present (dir_entry (mem s) pd i)"
  proof -
    have "pde_paddr (dir_entry (mem s) pd i) \<noteq> 0" using d that ij(1) by (auto simp: dir_ok_def)
    then have "slot (pde_paddr (dir_entry (mem s) pd i)) (4 * j) \<noteq> 0"
      by (rule table_slot_nonzero[OF aligned_paddr(1) _ ij(2)])
    moreover have "p = slot (pde_paddr (dir_entry (mem s) pd i)) (4 * j)"
      using f(1) that by (auto simp: find_pte_def entry_address i_def j_def Let_def)
    ultimately show ?thesis using h by simp
  qed
  assume r: "r = 0"
  with h have k: "kept (insert pd (insert (pde_paddr (dir_entry (mem s') pd i)) ?F)) (mem s) (mem s')"
    and a: "paddr_alloc s' = paddr_alloc s1" and p: "p \<noteq> 0"
    and e: "\<And>k. k < 1024 \<Longrightarrow> dir_entry (mem s') pd k = dir_entry (mem s1) pd k" by auto
  show "kept (insert pd (insert (pde_paddr (dir_entry (mem s') pd i)) ?F)) (mem s) (mem s')" by (rule k)
  show "free_pages (paddr_alloc s') = ?F" if "entry_present (dir_entry (mem s) pd i)"
    using g(4)[OF that] a by simp
  show "pde_paddr (dir_entry (mem s') pd i) \<in> ?F
      \<and> free_pages (paddr_alloc s') = ?F - {pde_paddr (dir_entry (mem s') pd i)}"
    if "\<not> entry_present (dir_entry (mem s) pd i)"
    using g(5)[OF p that] a e[OF ij(1)] by simp
  show "entry_present (dir_entry (mem s') pd i)" using e[OF ij(1)] f(4)[OF p] by simp
  show "dir_entry (mem s') pd k = dir_entry (mem s) pd k"
    if "k < 1024" "k \<noteq> i \<or> entry_present (dir_entry (mem s) pd i)"
    using e[OF that(1)] g(3)[OF that(1)] g(4) that(2) by (cases "k = i") auto
qed

section \<open>Copying one frame\<close>

abbreviation page_va :: "nat \<Rightarrow> nat \<Rightarrow> u32" where
  "page_va i j \<equiv> push_bit 22 (of_nat i) OR push_bit 12 (of_nat j)"

lemma index_bits: "j < 1024 \<Longrightarrow> bit (of_nat j :: u32) n \<Longrightarrow> n < 10"
proof -
  assume j: "j < 1024" and b: "bit (of_nat j :: u32) n"
  have "take_bit 10 (of_nat j :: u32) = of_nat j"
    using j by (simp add: take_bit_of_nat take_bit_nat_eq_self)
  with b show "n < 10" by (metis bit_take_bit_iff)
qed

lemma page_va_index:
  assumes "i < 1024" and "j < 1024"
  shows "unat (pde_index (page_va i j)) = i" and "unat (pte_index (page_va i j)) = j"
    and "aligned (page_va i j)"
proof -
  have "pde_index (page_va i j) = of_nat i"
    unfolding pde_index_def
  proof (rule bit_word_eqI)
    fix n :: nat assume "n < LENGTH(32)"
    then show "bit (drop_bit 22 (page_va i j)) n = bit (of_nat i :: u32) n"
      using index_bits[OF assms(1), of n] index_bits[OF assms(2), of "10 + n"]
      by (auto simp: bit_simps add.commute)
  qed
  then show "unat (pde_index (page_va i j)) = i" using assms(1) by (simp add: unat_of_nat)
  have "pte_index (page_va i j) = take_bit 10 (drop_bit 12 (page_va i j))"
    by (simp add: pte_index_def take_bit_eq_mask mask_eq_exp_minus_1)
  also have "\<dots> = of_nat j"
  proof (rule bit_word_eqI)
    fix n :: nat assume "n < LENGTH(32)"
    then show "bit (take_bit 10 (drop_bit 12 (page_va i j))) n = bit (of_nat j :: u32) n"
      using index_bits[OF assms(2), of n] index_bits[OF assms(2), of "10 + n"]
      by (auto simp: bit_simps add.commute)
  qed
  finally show "unat (pte_index (page_va i j)) = j" using assms(2) by (simp add: unat_of_nat)
  show "aligned (page_va i j)" by (rule bit_word_eqI) (auto simp: bit_simps)
qed

lemma drop_page: "drop_bit 12 (pte_paddr x) = drop_bit 12 x"
  unfolding pte_paddr_def by (rule bit_word_eqI) (auto simp: bit_simps dest: bit_imp_le_length)

lemma slot_indices:
  assumes "aligned va" and "k < 4096"
  shows "unat (pde_index (slot va k)) = unat (pde_index va)"
    and "unat (pte_index (slot va k)) = unat (pte_index va)"
  using same_page_iff[of "slot va k" va] drop_page[of "slot va k"] page_of_slot[OF assms] by simp_all

lemma walk_slot:
  assumes "aligned va" and "k < 4096"
  shows "mmu_walk pd m (slot va k)
    = map_option (\<lambda>v. slot (pte_paddr v) k) (lookup m pd (unat (pde_index va)) (unat (pte_index va)))"
  unfolding mmu_walk_lookup slot_indices[OF assms] slot_off[OF assms] by (simp add: slot_def)

lemma copy_bytes:
  assumes "aligned P" and "aligned va" and "\<not> va < MEMORY_TASK_BASE" and "aligned f" and "f \<noteq> P"
    and walk: "\<And>m k. kept {P} (mem s) m \<Longrightarrow> k < 4096 \<Longrightarrow> mmu_walk (cr3 s) m (slot va k) = Some (slot f k)"
  shows "n \<le> 4096 \<Longrightarrow> kept {P} (mem s) m0 \<Longrightarrow> \<forall>k < 4096 - n. m0 (slot P k) = mem s (slot f k) \<Longrightarrow>
    \<exists>m. copy_from_virtual n (slot P (4096 - n)) (slot va (4096 - n)) (s\<lparr>mem := m0\<rparr>) = Some (s\<lparr>mem := m\<rparr>)
      \<and> kept {P} (mem s) m \<and> (\<forall>k < 4096. m (slot P k) = mem s (slot f k))"
proof (induction n arbitrary: m0)
  case 0
  then show ?case by (intro exI[of _ m0]) simp
next
  case (Suc n)
  let ?k = "4096 - Suc n"
  have k: "?k < 4096" "4096 - n = ?k + 1" using Suc.prems(1) by auto
  have "\<not> slot va ?k < MEMORY_TASK_BASE"
    using kernel_index[of va] kernel_index[of "slot va ?k"] slot_indices(1)[OF assms(2) k(1)] assms(3) by simp
  moreover have "m0 (slot f ?k) = mem s (slot f ?k)"
    using kept_slot[OF Suc.prems(2) assms(4) _ k(1)] assms(5) by simp
  ultimately have rd: "vread (s\<lparr>mem := m0\<rparr>) (slot va ?k) = Some (mem s (slot f ?k))"
    using walk[OF Suc.prems(2) k(1)] by (simp add: vread_def)
  let ?m = "m0(slot P ?k := mem s (slot f ?k))"
  have kp: "kept {P} (mem s) ?m"
    using Suc.prems(2) page_of_slot[OF assms(1) k(1)] by (auto simp: kept_def)
  have dn: "\<forall>l < 4096 - n. ?m (slot P l) = mem s (slot f l)"
    using Suc.prems(3) slot_inj[OF assms(1,1) _ k(1)] k by (auto simp: less_Suc_eq)
  from Suc.IH[OF _ kp dn] Suc.prems(1) show ?case
    using rd by (simp add: k(2) slot_Suc fun_upd_def)
qed

lemma copy_page:
  assumes "aligned P" and "aligned va" and "\<not> va < MEMORY_TASK_BASE" and "aligned f" and "f \<noteq> P"
    and walk: "\<And>m k. kept {P} (mem s) m \<Longrightarrow> k < 4096 \<Longrightarrow> mmu_walk (cr3 s) m (slot va k) = Some (slot f k)"
  shows "\<exists>m. copy_from_virtual 4096 P va s = Some (s\<lparr>mem := m\<rparr>)
      \<and> kept {P} (mem s) m \<and> (\<forall>k < 4096. m (slot P k) = mem s (slot f k))"
  using copy_bytes[OF assms, of 4096 "mem s"] by (simp add: slot_def)

section \<open>The invariant of the copy\<close>

text \<open>
  \<open>s0\<close> is the state before the copy, \<open>to\<close> the child's directory and \<open>V\<close> the table entries
  already visited.  A visited entry of the parent has a frame of the child with the same
  permissions and bytes; the others are unmapped.  What the copy took from the pool is
  exactly what the child owns.
\<close>

definition copied :: "memory \<Rightarrow> memory \<Rightarrow> u32 option \<Rightarrow> u32 option \<Rightarrow> bool" where
  "copied m0 m a b = (case (a, b) of
      (None, None) \<Rightarrow> True
    | (Some v, Some w) \<Rightarrow> get_pte_perm w = get_pte_perm v
        \<and> (\<forall>k < 4096. m (slot (pte_paddr w) k) = m0 (slot (pte_paddr v) k))
    | _ \<Rightarrow> False)"

definition copy_source :: "'m mm_scheme \<Rightarrow> u32 \<Rightarrow> bool" where
  "copy_source s pd \<longleftrightarrow> mm_pool_ok s \<and> cr3 s = pd \<and> aligned pd
    \<and> space_pages (mem s) pd \<inter> free_pages (paddr_alloc s) = {}
    \<and> dir_ok (mem s) (kernel_page_dir s)
    \<and> dir_private (mem s) (kernel_page_dir s) (free_pages (paddr_alloc s))"

definition frames_distinct :: "memory \<Rightarrow> u32 \<Rightarrow> bool" where
  "frames_distinct m pd \<longleftrightarrow> (\<forall>i j k l v w. 512 \<le> i \<longrightarrow> i < 1024 \<longrightarrow> j < 1024 \<longrightarrow> 512 \<le> k \<longrightarrow> k < 1024
     \<longrightarrow> l < 1024 \<longrightarrow> lookup m pd i j = Some v \<longrightarrow> lookup m pd k l = Some w
     \<longrightarrow> pte_paddr v = pte_paddr w \<longrightarrow> i = k \<and> j = l)"

definition copy_state :: "'m mm_scheme \<Rightarrow> 'm mm_scheme \<Rightarrow> bool" where
  "copy_state s0 s \<longleftrightarrow> mm_pool_ok s \<and> s = s0\<lparr>paddr_alloc := paddr_alloc s, mem := mem s\<rparr>
    \<and> pool_pages (paddr_alloc s) = pool_pages (paddr_alloc s0)
    \<and> kept (free_pages (paddr_alloc s0)) (mem s0) (mem s)"

definition copy_inv :: "'m mm_scheme \<Rightarrow> u32 \<Rightarrow> u32 \<Rightarrow> (nat \<times> nat) set \<Rightarrow> 'm mm_scheme \<Rightarrow> bool" where
  "copy_inv s0 pd to V s \<longleftrightarrow> copy_state s0 s
    \<and> dir_ok (mem s) to \<and> dir_private (mem s) to (free_pages (paddr_alloc s))
    \<and> space_pages (mem s) to \<union> free_pages (paddr_alloc s) = free_pages (paddr_alloc s0)
    \<and> user_frames (mem s) to \<inter> (insert to (user_tables (mem s) to) \<union> free_pages (paddr_alloc s)) = {}
    \<and> frames_distinct (mem s) to
    \<and> (\<forall>i < 512. dir_entry (mem s) to i = dir_entry (mem s0) (kernel_page_dir s0) i)
    \<and> (\<forall>i j. 512 \<le> i \<longrightarrow> i < 1024 \<longrightarrow> j < 1024 \<longrightarrow>
        (if (i, j) \<in> V then copied (mem s0) (mem s) (lookup (mem s0) pd i j) (lookup (mem s) to i j)
         else lookup (mem s) to i j = None))"

definition copy_failed :: "'m mm_scheme \<Rightarrow> u32 \<Rightarrow> 'm mm_scheme \<Rightarrow> bool" where
  "copy_failed s0 to s \<longleftrightarrow> copy_state s0 s \<and> free_pages (paddr_alloc s) = {}
    \<and> (\<exists>P. free_pages (paddr_alloc s0) - {P} \<subseteq> space_pages (mem s) to)
    \<and> space_pages (mem s) to \<subseteq> free_pages (paddr_alloc s0)"

lemma get_perm_entry:
  assumes "aligned P" and "entry_present v"
  shows "get_pte_perm (P OR get_pte_perm v OR PTE_P) = get_pte_perm v"
    and "pte_paddr (P OR get_pte_perm v OR PTE_P) = P" and "take_bit 12 (get_pte_perm v) = get_pte_perm v"
    and "entry_present (P OR get_pte_perm v OR PTE_P)"
proof -
  have g: "get_pte_perm x = take_bit 10 x" for x
    by (simp add: get_pte_perm_def take_bit_eq_mask mask_eq_exp_minus_1)
  show t: "take_bit 12 (get_pte_perm v) = get_pte_perm v" by (simp add: g)
  have o: "get_pte_perm v OR PTE_P = get_pte_perm v"
    using assms(2) by (intro bit_word_eqI) (auto simp: g PTE_P_def entry_present_def bit_simps)
  show "get_pte_perm (P OR get_pte_perm v OR PTE_P) = get_pte_perm v"
    using aligned_bit[OF assms(1)] unfolding or.assoc o unfolding g
    by (intro bit_word_eqI) (auto simp: bit_simps)
  show "pte_paddr (P OR get_pte_perm v OR PTE_P) = P" "entry_present (P OR get_pte_perm v OR PTE_P)"
    using entry_flags(1,3)[OF assms(1) t] assms(2) unfolding or.assoc o
    by (simp_all add: g entry_present_def bit_take_bit_iff)
qed

lemma copy_stateD:
  assumes "copy_state s0 s"
  shows "mm_pool_ok s" and "cr3 s = cr3 s0" and "pool_pages (paddr_alloc s) = pool_pages (paddr_alloc s0)"
    and "kept (free_pages (paddr_alloc s0)) (mem s0) (mem s)"
    and "s = s0\<lparr>paddr_alloc := paddr_alloc s, mem := mem s\<rparr>"
proof -
  show e: "s = s0\<lparr>paddr_alloc := paddr_alloc s, mem := mem s\<rparr>" using assms by (simp add: copy_state_def)
  show "cr3 s = cr3 s0" by (subst e) simp
qed (use assms in \<open>simp_all add: copy_state_def\<close>)

lemma copy_state_step:
  assumes "copy_state s0 s" and "s' = s\<lparr>paddr_alloc := paddr_alloc s', mem := mem s'\<rparr>" and "mm_pool_ok s'"
    and "pool_pages (paddr_alloc s') = pool_pages (paddr_alloc s)"
    and "kept G (mem s) (mem s')" and "G \<subseteq> free_pages (paddr_alloc s0)"
  shows "copy_state s0 s'"
proof -
  note d = copy_stateD[OF assms(1)]
  have "s' = s0\<lparr>paddr_alloc := paddr_alloc s', mem := mem s'\<rparr>"
    by (subst assms(2), subst d(5)) simp
  then show ?thesis
    using assms(3,4) d(3) kept_chain[OF d(4) assms(5) subset_refl assms(6)] by (simp add: copy_state_def)
qed

lemma user_framesI: "512 \<le> i \<Longrightarrow> i < 1024 \<Longrightarrow> j < 1024 \<Longrightarrow> lookup m pd i j = Some v \<Longrightarrow> pte_paddr v \<in> user_frames m pd"
  by (auto simp: user_frames_def)

lemma user_tablesI: "512 \<le> i \<Longrightarrow> i < 1024 \<Longrightarrow> entry_present (dir_entry m pd i) \<Longrightarrow>
    pde_paddr (dir_entry m pd i) \<in> user_tables m pd"
  by (auto simp: user_tables_def)

text \<open>One visited entry, in terms of the memory before and after.\<close>

lemma copy_inv_step:
  assumes inv: "copy_inv s0 pd to V s" and st: "copy_state s0 s'" and ij: "512 \<le> i" "i < 1024" "j < 1024"
    and v: "lookup (mem s0) pd i j = Some v" "(i, j) \<notin> V"
    and P: "P \<in> free_pages (paddr_alloc s)" "pte_paddr w = P" "get_pte_perm w = get_pte_perm v"
    and d: "dir_ok (mem s') to" "dir_private (mem s') to (free_pages (paddr_alloc s'))"
    and e1: "\<And>k. k < 1024 \<Longrightarrow> k \<noteq> i \<or> entry_present (dir_entry (mem s) to i) \<Longrightarrow>
      dir_entry (mem s') to k = dir_entry (mem s) to k"
    and e2: "entry_present (dir_entry (mem s') to i)" "pde_paddr (dir_entry (mem s') to i) = T"
    and lk: "\<And>k l. k < 1024 \<Longrightarrow> l < 1024 \<Longrightarrow>
      lookup (mem s') to k l = (if k = i \<and> l = j then Some w else lookup (mem s) to k l)"
    and kp: "kept (insert to (insert T (free_pages (paddr_alloc s)))) (mem s) (mem s')"
    and T: "T \<noteq> P" "if entry_present (dir_entry (mem s) to i)
      then free_pages (paddr_alloc s') = free_pages (paddr_alloc s) - {P}
      else T \<in> free_pages (paddr_alloc s) \<and> free_pages (paddr_alloc s') = free_pages (paddr_alloc s) - {P} - {T}"
    and bt: "\<And>k. k < 4096 \<Longrightarrow> mem s' (slot P k) = mem s0 (slot (pte_paddr v) k)"
  shows "copy_inv s0 pd to (insert (i, j) V) s'"
proof -
  let ?f = "free_pages (paddr_alloc s)" and ?f' = "free_pages (paddr_alloc s')"
  let ?U = "user_tables (mem s) to" and ?R = "user_frames (mem s) to"
  have un: "lookup (mem s) to i j = None" using inv ij v(2) by (auto simp: copy_inv_def split: if_splits)
  have U: "user_tables (mem s') to = insert T ?U"
  proof -
    define A where "A m = {k. 512 \<le> k \<and> k < 1024 \<and> entry_present (dir_entry m to k)}" for m
    have img: "user_tables m to = (\<lambda>k. pde_paddr (dir_entry m to k)) ` A m" for m
      by (auto simp: user_tables_def A_def)
    have "A (mem s') = insert i (A (mem s))"
      unfolding A_def using e1 e2(1) ij(1,2) by (auto; metis)
    moreover have "(\<lambda>k. pde_paddr (dir_entry (mem s') to k)) ` A (mem s) = ?U"
      unfolding img
    proof (rule image_cong)
      fix x assume "x \<in> A (mem s)"
      then show "pde_paddr (dir_entry (mem s') to x) = pde_paddr (dir_entry (mem s) to x)"
        using e1[of x] by (cases "x = i") (simp_all add: A_def)
    qed simp
    ultimately show ?thesis unfolding img[of "mem s'"] using e2(2) by simp
  qed
  have R: "user_frames (mem s') to = insert P ?R"
    unfolding user_frames_def using lk P(2) ij un by (auto split: if_splits) (metis option.distinct(1))+
  have in0: "insert to (?U \<union> ?R) \<union> ?f = free_pages (paddr_alloc s0)"
    "?R \<inter> (insert to ?U \<union> ?f) = {}" "frames_distinct (mem s) to"
    "\<And>i. i < 512 \<Longrightarrow> dir_entry (mem s) to i = dir_entry (mem s0) (kernel_page_dir s0) i"
    "\<And>i j. 512 \<le> i \<Longrightarrow> i < 1024 \<Longrightarrow> j < 1024 \<Longrightarrow>
        (if (i, j) \<in> V then copied (mem s0) (mem s) (lookup (mem s0) pd i j) (lookup (mem s) to i j)
         else lookup (mem s) to i j = None)"
    using inv unfolding copy_inv_def space_pages_user by blast+
  have Tc: "T \<in> ?U \<and> ?f' = ?f - {P} \<or> T \<in> ?f \<and> ?f' = ?f - {P} - {T}"
    using T(2) e1[OF ij(2)] e2(2) user_tablesI[OF ij(1,2), of "mem s" to] by (auto split: if_splits)
  have pr: "to \<notin> ?f" "?U \<inter> ?f = {}"
    using inv by (auto simp: copy_inv_def dir_private_def user_tables_def)
  have A: "insert to (insert T ?U \<union> insert P ?R) \<union> ?f' = free_pages (paddr_alloc s0)"
    using in0(1) Tc P(1) by blast
  have B: "insert P ?R \<inter> (insert to (insert T ?U) \<union> ?f') = {}"
    using in0(2) Tc P(1) pr T(1) by blast
  have PR: "P \<notin> ?R" using in0(2) P(1) by blast
  have D: "frames_distinct (mem s') to"
    unfolding frames_distinct_def
  proof (intro allI impI)
    fix a b c d x y
    assume h: "512 \<le> a" "a < 1024" "b < 1024" "512 \<le> c" "c < 1024" "d < 1024"
      "lookup (mem s') to a b = Some x" "lookup (mem s') to c d = Some y" "pte_paddr x = pte_paddr y"
    then show "a = c \<and> b = d"
      using lk[OF h(2,3)] lk[OF h(5,6)] PR P(2) user_framesI[OF h(1-3), of "mem s" to x]
        user_framesI[OF h(4-6), of "mem s" to y] in0(3)
      unfolding frames_distinct_def by (auto split: if_splits)
  qed
  have C: "copied (mem s0) (mem s') (lookup (mem s0) pd k l) (lookup (mem s) to k l)"
    if "512 \<le> k" "k < 1024" "l < 1024"
      "copied (mem s0) (mem s) (lookup (mem s0) pd k l) (lookup (mem s) to k l)" for k l
  proof (cases "lookup (mem s) to k l")
    case (Some x)
    have "pte_paddr x \<notin> insert to (insert T ?f)"
      using user_framesI[OF that(1-3) Some] in0(2) Tc by blast
    from kept_slot[OF kp aligned_paddr(2) this] that(4) Some show ?thesis
      by (auto simp: copied_def split: option.splits)
  qed (use that(4) in \<open>auto simp: copied_def split: option.splits\<close>)
  have L: "if (k, l) \<in> insert (i, j) V then copied (mem s0) (mem s') (lookup (mem s0) pd k l) (lookup (mem s') to k l)
         else lookup (mem s') to k l = None" if "512 \<le> k" "k < 1024" "l < 1024" for k l
    using in0(5)[OF that] C[OF that] lk[OF that(2,3)] v P bt by
    (cases "k = i \<and> l = j") (auto simp: copied_def split: if_splits)
  show ?thesis
    unfolding copy_inv_def space_pages_user U R
    using st d A B D L e1 in0(4) ij(1) by auto
qed

section \<open>One entry of the parent\<close>

lemma copy_entry_mapped:
  assumes src: "copy_source s0 pd" and inv: "copy_inv s0 pd to V s" and ij: "512 \<le> i" "i < 1024" "j < 1024"
    and v: "lookup (mem s0) pd i j = Some v" "(i, j) \<notin> V" and P: "P \<in> free_pages (paddr_alloc s)"
    and cs: "copy_state s0 s2" and d: "dir_ok (mem s2) to" "dir_private (mem s2) to (free_pages (paddr_alloc s2))"
    and e1: "\<And>k. k < 1024 \<Longrightarrow> k \<noteq> i \<or> entry_present (dir_entry (mem s) to i) \<Longrightarrow>
      dir_entry (mem s2) to k = dir_entry (mem s) to k"
    and e2: "entry_present (dir_entry (mem s2) to i)" "pde_paddr (dir_entry (mem s2) to i) = T"
    and lk: "\<And>k l. k < 1024 \<Longrightarrow> l < 1024 \<Longrightarrow> lookup (mem s2) to k l =
      (if k = i \<and> l = j then Some (P OR get_pte_perm v OR PTE_P) else lookup (mem s) to k l)"
    and kp: "kept (insert to (insert T (free_pages (paddr_alloc s) - {P}))) (mem s) (mem s2)"
    and T: "if entry_present (dir_entry (mem s) to i)
      then free_pages (paddr_alloc s2) = free_pages (paddr_alloc s) - {P}
      else T \<in> free_pages (paddr_alloc s) - {P} \<and> free_pages (paddr_alloc s2) = free_pages (paddr_alloc s) - {P} - {T}"
  shows "\<exists>s3. copy_from_virtual 4096 P (page_va i j) s2 = Some s3 \<and> copy_inv s0 pd to (insert (i, j) V) s3
      \<and> entry_present (dir_entry (mem s3) to i) \<and> free_pages (paddr_alloc s3) = free_pages (paddr_alloc s2)"
proof -
  let ?F = "free_pages (paddr_alloc s0)" and ?f = "free_pages (paddr_alloc s)" and ?Q = "pte_paddr v"
  have i1: "copy_state s0 s" "dir_private (mem s) to ?f" "space_pages (mem s) to \<union> ?f = ?F"
    using inv by (auto simp: copy_inv_def)
  have pf: "aligned P" "P \<noteq> 0" using free_page_facts[OF copy_stateD(1)[OF i1(1)] P] by simp_all
  have pv: "entry_present v" and pe: "entry_present (dir_entry (mem s0) pd i)"
    using v(1) by (auto simp: lookup_def Let_def split: if_splits)
  note w = get_perm_entry[OF pf(1) pv]
  note ix = page_va_index[OF ij(2,3)]
  have PF: "P \<in> ?F" using P i1(3) by blast
  have sr: "aligned pd" "cr3 s0 = pd" "space_pages (mem s0) pd \<inter> ?F = {}" using src by (simp_all add: copy_source_def)
  have Q: "?Q \<notin> ?F" "pd \<notin> ?F" "pde_paddr (dir_entry (mem s0) pd i) \<notin> ?F"
    using sr(3) user_framesI[OF ij v(1)] user_tablesI[OF ij(1,2) pe] unfolding space_pages_user by blast+
  have cr: "cr3 s2 = pd" using copy_stateD(2)[OF cs] sr(2) by simp
  have wk: "mmu_walk (cr3 s2) m (slot (page_va i j) k) = Some (slot ?Q k)" if "kept {P} (mem s2) m" "k < 4096" for m k
  proof -
    have "kept ?F (mem s0) m" using kept_chain[OF copy_stateD(4)[OF cs] that(1)] PF by simp
    from kept_lookup[OF this sr(1) Q(2) _ ij(2,3)] Q(3) v(1) have "lookup m pd i j = Some v" by simp
    then show ?thesis using walk_slot[OF ix(3) that(2), of pd m] unfolding cr ix(1,2) by simp
  qed
  have "\<not> page_va i j < MEMORY_TASK_BASE" using kernel_index[of "page_va i j"] ix(1) ij(1) by simp
  moreover have "?Q \<noteq> P" using Q(1) PF by blast
  ultimately obtain m where m: "copy_from_virtual 4096 P (page_va i j) s2 = Some (s2\<lparr>mem := m\<rparr>)"
    "kept {P} (mem s2) m" "\<And>k. k < 4096 \<Longrightarrow> m (slot P k) = mem s2 (slot ?Q k)"
    using copy_page[OF pf(1) ix(3) _ aligned_paddr(2) _ wk] by blast
  let ?s = "s2\<lparr>mem := m\<rparr>"
  have tP: "to \<noteq> P" and al: "aligned to" using i1(2) P d(1) by (auto simp: dir_private_def dir_ok_def)
  have TP: "T \<noteq> P"
    using T i1(2) P ij(2) e1[OF ij(2)] e2(2) by (auto simp: dir_private_def split: if_splits)
  have nP: "pde_paddr (dir_entry (mem s2) to k) \<noteq> P" if "k < 1024" "entry_present (dir_entry (mem s2) to k)" for k
    using that i1(2) P e1[OF that(1)] e2 TP by (cases "k = i") (auto simp: dir_private_def)
  have de: "dir_entry m to k = dir_entry (mem s2) to k" if "k < 1024" for k
    using kept_entry[OF m(2) al _ that] tP by simp
  have lm: "lookup m to k l = lookup (mem s2) to k l" if "k < 1024" "l < 1024" for k l
    using kept_lookup[OF m(2) al _ _ that] tP nP[OF that(1)] by simp
  have "mm_pool_ok ?s" using copy_stateD(1)[OF cs] by (simp add: mm_pool_ok_def)
  then have cs3: "copy_state s0 ?s"
    by (rule copy_state_step[OF cs _ _ _ _ _, of _ "{P}", rotated 1]) (use m(2) PF in simp_all)
  have "copy_inv s0 pd to (insert (i, j) V) ?s"
  proof (rule copy_inv_step[OF inv cs3 ij v P w(2,1), where T = T])
    show "dir_ok (mem ?s) to" "dir_private (mem ?s) to (free_pages (paddr_alloc ?s))"
      using d de by (simp_all add: dir_ok_def dir_private_def)
    have "kept (insert to (insert T ?f)) (mem s) m"
      by (rule kept_chain[OF kp m(2)]) (use P in auto)
    then show "kept (insert to (insert T ?f)) (mem s) (mem ?s)" by simp
    show "mem ?s (slot P k) = mem s0 (slot ?Q k)" if "k < 4096" for k
      using m(3)[OF that] kept_slot[OF copy_stateD(4)[OF cs] aligned_paddr(2) Q(1) that] by simp
    show "if entry_present (dir_entry (mem s) to i) then free_pages (paddr_alloc ?s) = ?f - {P}
      else T \<in> ?f \<and> free_pages (paddr_alloc ?s) = ?f - {P} - {T}" using T by (auto split: if_splits)
  qed (use TP e1 e2 de ij lm lk in simp_all)
  then show ?thesis using m(1) e2(1) de[OF ij(2)] by auto
qed

lemma copy_entry:
  assumes src: "copy_source s0 pd" and inv: "copy_inv s0 pd to V s" and ij: "512 \<le> i" "i < 1024" "j < 1024"
    and v: "lookup (mem s0) pd i j = Some v" "(i, j) \<notin> V"
    and a: "page_alloc s = Some (P, s1)"
  shows "P = 0 \<Longrightarrow> free_pages (paddr_alloc s) = {} \<and> copy_failed s0 to s1"
    and "P \<noteq> 0 \<Longrightarrow> \<exists>r s2. memory_create_map to (page_va i j) P 1 (get_pte_perm v) s1 = Some (r, s2)
      \<and> (if r < 0 then card (free_pages (paddr_alloc s)) = 1 \<and> \<not> entry_present (dir_entry (mem s) to i) \<and> copy_failed s0 to s2 \<and> mem s2 = mem s
         else \<exists>s3. copy_from_virtual 4096 P (page_va i j) s2 = Some s3 \<and> copy_inv s0 pd to (insert (i, j) V) s3
           \<and> entry_present (dir_entry (mem s3) to i)
           \<and> card (free_pages (paddr_alloc s)) = card (free_pages (paddr_alloc s3))
               + (if entry_present (dir_entry (mem s) to i) then 1 else 2))"
proof -
  let ?F = "free_pages (paddr_alloc s0)" and ?f = "free_pages (paddr_alloc s)"
  let ?va = "page_va i j" and ?w = "P OR get_pte_perm v OR PTE_P"
  have cs: "copy_state s0 s" and d: "dir_ok (mem s) to" "dir_private (mem s) to ?f"
    and sp: "space_pages (mem s) to \<union> ?f = ?F"
    and un: "lookup (mem s) to i j = None"
    using inv ij v(2) by (auto simp: copy_inv_def split: if_splits)
  note cd = copy_stateD[OF cs]
  note al = pp.alloc_some[OF cd(1) a]
  note sm = same_mmD[OF al(2)]
  have cs1: "copy_state s0 s1"
  proof (rule copy_state_step[OF cs _ al(1,3), of "{}"])
    have e: "s1 = s\<lparr>paddr_alloc := paddr_alloc s1\<rparr>" using al(2) by (simp add: same_mm_def)
    show "s1 = s\<lparr>paddr_alloc := paddr_alloc s1, mem := mem s1\<rparr>"
      unfolding sm(2) by (subst e) simp
  qed (simp_all add: sm(2))
  show "?f = {} \<and> copy_failed s0 to s1" if "P = 0"
  proof -
    have "?f = {}" using al(4) that by simp
    moreover from this have "free_pages (paddr_alloc s1) = {}"
      using page_alloc_pool[OF cd(1)] a by auto
    ultimately show ?thesis using cs1 sp sm(2) by (auto simp: copy_failed_def)
  qed
  assume P0: "P \<noteq> 0"
  note f1 = al(5)[OF P0]
  have P: "P \<in> ?f" "P \<in> ?F" using f1 sp by auto
  note pf = free_page_facts[OF cd(1) P(1)]
  have pv: "entry_present v" using v(1) by (auto simp: lookup_def Let_def split: if_splits)
  note w = get_perm_entry[OF pf(1) pv]
  note ix = page_va_index[OF ij(2,3)]
  have d1: "dir_ok (mem s1) to" "dir_private (mem s1) to (free_pages (paddr_alloc s1))"
    using d f1 by (auto simp: sm(2) dir_private_def)
  have un1: "lookup (mem s1) to (unat (pde_index ?va)) (unat (pte_index ?va)) = None"
    using un unfolding sm(2) ix(1,2) .
  obtain r s2 where m: "memory_create_map to ?va P 1 (get_pte_perm v) s1 = Some (r, s2)" "mm_pool_ok s2"
    "s2 = s1\<lparr>paddr_alloc := paddr_alloc s2, mem := mem s2\<rparr>"
    "dir_ok (mem s2) to" "dir_private (mem s2) to (free_pages (paddr_alloc s2))"
    "r = - 1 \<and> free_pages (paddr_alloc s1) = {} \<and> mem s2 = mem s1 \<or> r = 0
      \<and> (\<forall>k < 1024. \<forall>l < 1024. lookup (mem s2) to k l = (if k = i \<and> l = j then Some ?w else lookup (mem s) to k l))"
    using map_page_ok[OF d1(1) al(1) d1(2) pf(1) w(3) un1] unfolding ix(1,2) sm(2) by blast
  note g = map_page_pages[OF d1(1) al(1) d1(2) m(1), unfolded ix(1) sm(2)]
  have "if r < 0 then card ?f = 1 \<and> \<not> entry_present (dir_entry (mem s) to i) \<and> copy_failed s0 to s2 \<and> mem s2 = mem s
         else \<exists>s3. copy_from_virtual 4096 P ?va s2 = Some s3 \<and> copy_inv s0 pd to (insert (i, j) V) s3
           \<and> entry_present (dir_entry (mem s3) to i)
           \<and> card ?f = card (free_pages (paddr_alloc s3))
               + (if entry_present (dir_entry (mem s) to i) then 1 else 2)"
  proof (cases "r = 0")
    case False
    with m(6) have r: "r = - 1" "free_pages (paddr_alloc s1) = {}" "mem s2 = mem s" by (auto simp: sm(2))
    then have fP: "?f = {P}" using f1 by auto
    have "copy_state s0 s2"
      by (rule copy_state_step[OF cs1 m(3,2) g(1), of "{}"]) (simp_all add: r(3) sm(2))
    then have "copy_failed s0 to s2"
      using sp r(2,3) g(6) fP by (auto simp: copy_failed_def)
    then show ?thesis using r(1,3) fP g(5) by auto
  next
    case True
    let ?T = "pde_paddr (dir_entry (mem s2) to i)"
    have TF: "if entry_present (dir_entry (mem s) to i) then free_pages (paddr_alloc s2) = ?f - {P}
      else ?T \<in> ?f - {P} \<and> free_pages (paddr_alloc s2) = ?f - {P} - {?T}"
      using g(7,8)[OF True] f1 by simp
    have kp: "kept (insert to (insert ?T (?f - {P}))) (mem s) (mem s2)" using g(2)[OF True] f1 by simp
    have sub: "insert to (insert ?T (?f - {P})) \<subseteq> ?F"
      using sp TF user_tablesI[OF ij(1,2), of "mem s" to] g(4)[OF True ij(2)]
      unfolding space_pages_user by (auto split: if_splits)
    have cs2: "copy_state s0 s2"
      by (rule copy_state_step[OF cs1 m(3,2) g(1) _ sub]) (use kp in \<open>simp add: sm(2)\<close>)
    have lk: "lookup (mem s2) to k l = (if k = i \<and> l = j then Some ?w else lookup (mem s) to k l)"
      if "k < 1024" "l < 1024" for k l using m(6) True that by simp
    obtain s3 where s3: "copy_from_virtual 4096 P ?va s2 = Some s3" "copy_inv s0 pd to (insert (i, j) V) s3"
      "entry_present (dir_entry (mem s3) to i)" "free_pages (paddr_alloc s3) = free_pages (paddr_alloc s2)"
      using copy_entry_mapped[OF src inv ij v P(1) cs2 m(4,5) g(4)[OF True] g(3)[OF True] refl lk kp TF] by blast
    have "card ?f = card (free_pages (paddr_alloc s2)) + (if entry_present (dir_entry (mem s) to i) then 1 else 2)"
      using TF P(1) card_Suc_Diff1[OF finite P(1)] card_Suc_Diff1[OF finite, of ?T "?f - {P}"]
      by (auto split: if_splits)
    with s3 True show ?thesis by auto
  qed
  with m(1) show "\<exists>r s2. memory_create_map to ?va P 1 (get_pte_perm v) s1 = Some (r, s2)
      \<and> (if r < 0 then card ?f = 1 \<and> \<not> entry_present (dir_entry (mem s) to i) \<and> copy_failed s0 to s2 \<and> mem s2 = mem s
         else \<exists>s3. copy_from_virtual 4096 P ?va s2 = Some s3 \<and> copy_inv s0 pd to (insert (i, j) V) s3
           \<and> entry_present (dir_entry (mem s3) to i)
           \<and> card ?f = card (free_pages (paddr_alloc s3))
               + (if entry_present (dir_entry (mem s) to i) then 1 else 2))" by blast
qed

section \<open>The two scans\<close>

lemma copy_inv_skip:
  assumes "copy_inv s0 pd to V s" and "\<And>i j. (i, j) \<in> W \<Longrightarrow> (i, j) \<notin> V \<and> lookup (mem s0) pd i j = None"
  shows "copy_inv s0 pd to (V \<union> W) s"
proof -
  have "if (i, j) \<in> V \<union> W then copied (mem s0) (mem s) (lookup (mem s0) pd i j) (lookup (mem s) to i j)
         else lookup (mem s) to i j = None" if "512 \<le> i" "i < 1024" "j < 1024" for i j
    using assms(1) assms(2)[of i j] that unfolding copy_inv_def by (auto simp: copied_def split: if_splits)
  with assms(1) show ?thesis unfolding copy_inv_def by blast
qed

lemma source_kept:
  assumes "copy_source s0 pd" and "copy_inv s0 pd to V s" and "512 \<le> i" "i < 1024"
  shows "load32 (mem s) (pd + 4 * of_nat i) = dir_entry (mem s0) pd i"
    and "entry_present (dir_entry (mem s0) pd i) \<Longrightarrow> j < 1024 \<Longrightarrow>
      load32 (mem s) (pde_paddr (dir_entry (mem s0) pd i) + 4 * of_nat j)
        = dir_entry (mem s0) (pde_paddr (dir_entry (mem s0) pd i)) j"
proof -
  have k: "kept (free_pages (paddr_alloc s0)) (mem s0) (mem s)"
    using assms(2) by (simp add: copy_inv_def copy_state_def)
  have e: "q + 4 * of_nat n = slot q (4 * n)" for q n by (simp add: slot_def)
  have s: "aligned pd" "pd \<notin> free_pages (paddr_alloc s0)"
    "user_tables (mem s0) pd \<inter> free_pages (paddr_alloc s0) = {}"
    using assms(1) by (auto simp: copy_source_def space_pages_user)
  show "load32 (mem s) (pd + 4 * of_nat i) = dir_entry (mem s0) pd i"
    unfolding e by (rule kept_entry[OF k s(1,2) assms(4)])
  assume p: "entry_present (dir_entry (mem s0) pd i)" "j < 1024"
  have "pde_paddr (dir_entry (mem s0) pd i) \<notin> free_pages (paddr_alloc s0)"
    using s(3) user_tablesI[OF assms(3,4) p(1)] by blast
  then show "load32 (mem s) (pde_paddr (dir_entry (mem s0) pd i) + 4 * of_nat j)
        = dir_entry (mem s0) (pde_paddr (dir_entry (mem s0) pd i)) j"
    unfolding e by (rule kept_entry[OF k aligned_paddr(1) _ p(2)])
qed

abbreviation used_entries :: "memory \<Rightarrow> u32 \<Rightarrow> nat list \<Rightarrow> nat" where
  "used_entries m table js \<equiv> length (filter (\<lambda>j. entry_present (dir_entry m table j)) js)"

lemma copy_ptes_ok:
  assumes src: "copy_source s0 pd" and i: "512 \<le> i" "i < 1024" and pe: "entry_present (dir_entry (mem s0) pd i)"
  defines "tb \<equiv> pde_paddr (dir_entry (mem s0) pd i)"
  shows "copy_inv s0 pd to V s \<Longrightarrow> distinct js \<Longrightarrow> set js \<subseteq> {..<1024} \<Longrightarrow> \<forall>j \<in> set js. (i, j) \<notin> V \<Longrightarrow>
    \<exists>ok s'. copy_ptes js i tb to s = Some (ok, s') \<and>
      (if ok then copy_inv s0 pd to (V \<union> {i} \<times> set js) s'
         \<and> card (free_pages (paddr_alloc s)) \<le> card (free_pages (paddr_alloc s')) + used_entries (mem s0) tb js
             + (if entry_present (dir_entry (mem s) to i) then 0 else 1)
       else copy_failed s0 to s' \<and> card (free_pages (paddr_alloc s)) < used_entries (mem s0) tb js
             + (if entry_present (dir_entry (mem s) to i) then 0 else 1))"
proof (induction js arbitrary: V s)
  case Nil
  then show ?case by (intro exI[of _ True] exI[of _ s]) simp
next
  case (Cons j js)
  let ?v = "dir_entry (mem s0) tb j"
  have j: "j < 1024" "(i, j) \<notin> V" using Cons.prems by auto
  have ld: "load32 (mem s) (tb + 4 * of_nat j) = ?v"
    using source_kept(2)[OF src Cons.prems(1) i pe j(1)] by (simp add: tb_def)
  have lk: "lookup (mem s0) pd i j = (if entry_present ?v then Some ?v else None)"
    using pe by (simp add: lookup_def tb_def Let_def)
  have U: "insert (i, j) V \<union> {i} \<times> set js = V \<union> {i} \<times> set (j # js)" by auto
  have rest: "distinct js" "set js \<subseteq> {..<1024}" "\<forall>k \<in> set js. (i, k) \<notin> insert (i, j) V" using Cons.prems by auto
  note IH = Cons.IH[OF _ rest, unfolded U]
  show ?case
  proof (cases "entry_present ?v")
    case False
    have "copy_inv s0 pd to (insert (i, j) V) s"
      using copy_inv_skip[OF Cons.prems(1), of "{(i, j)}"] lk False j(2) by simp
    from IH[OF this] show ?thesis using False by (simp only: copy_ptes.simps ld Let_def filter.simps if_True if_False not_False_eq_True)
  next
    case True
    obtain P s1 where a: "page_alloc s = Some (P, s1)"
      using page_alloc_pool[of s] Cons.prems(1) by (auto simp: copy_inv_def copy_state_def)
    note ce = copy_entry[OF src Cons.prems(1) i j(1) _ j(2) a, of ?v]
    show ?thesis
    proof (cases "P = 0")
      case P0: True
      then show ?thesis using True ld a ce(1) lk by (intro exI[of _ False] exI[of _ s1]) simp
    next
      case False
      from ce(2)[OF _ False] lk True obtain r s2 where m:
        "memory_create_map to (page_va i j) P 1 (get_pte_perm ?v) s1 = Some (r, s2)"
        "if r < 0 then card (free_pages (paddr_alloc s)) = 1 \<and> \<not> entry_present (dir_entry (mem s) to i) \<and> copy_failed s0 to s2 \<and> mem s2 = mem s
         else \<exists>s3. copy_from_virtual 4096 P (page_va i j) s2 = Some s3 \<and> copy_inv s0 pd to (insert (i, j) V) s3
           \<and> entry_present (dir_entry (mem s3) to i)
           \<and> card (free_pages (paddr_alloc s)) = card (free_pages (paddr_alloc s3))
               + (if entry_present (dir_entry (mem s) to i) then 1 else 2)" by auto
      show ?thesis
      proof (cases "r < 0")
        case r: True
        then show ?thesis using True ld a False m by (intro exI[of _ False] exI[of _ s2]) (simp add: Let_def)
      next
        case r: False
        with m(2) obtain s3 where s3: "copy_from_virtual 4096 P (page_va i j) s2 = Some s3"
          "copy_inv s0 pd to (insert (i, j) V) s3" "entry_present (dir_entry (mem s3) to i)"
          "card (free_pages (paddr_alloc s)) = card (free_pages (paddr_alloc s3))
               + (if entry_present (dir_entry (mem s) to i) then 1 else 2)" by auto
        from IH[OF s3(2), unfolded if_P[OF s3(3)] add_0_right] obtain ok s' where s': "copy_ptes js i tb to s3 = Some (ok, s')"
          "if ok then copy_inv s0 pd to (V \<union> {i} \<times> set (j # js)) s'
             \<and> card (free_pages (paddr_alloc s3)) \<le> card (free_pages (paddr_alloc s')) + used_entries (mem s0) tb js
           else copy_failed s0 to s' \<and> card (free_pages (paddr_alloc s3)) < used_entries (mem s0) tb js"
          by blast
        have "copy_ptes (j # js) i tb to s = Some (ok, s')"
          using True ld a False m(1) r s3(1) s'(1) by (simp add: Let_def)
        then show ?thesis using s'(2) s3(4) True by (auto split: if_splits)
      qed
    qed
  qed
qed

primrec uvm_need :: "memory \<Rightarrow> u32 \<Rightarrow> nat list \<Rightarrow> nat" where
  "uvm_need m pd [] = 0"
| "uvm_need m pd (i # is) = (if entry_present (dir_entry m pd i)
     then Suc (used_entries m (pde_paddr (dir_entry m pd i)) [0..<1024]) else 0) + uvm_need m pd is"

lemma copy_pdes_ok:
  assumes src: "copy_source s0 pd"
  shows "copy_inv s0 pd to V s \<Longrightarrow> distinct is \<Longrightarrow> set is \<subseteq> {512..<1024} \<Longrightarrow> \<forall>i \<in> set is. \<forall>j. (i, j) \<notin> V \<Longrightarrow>
    \<exists>ok s'. copy_pdes is pd to s = Some (ok, s') \<and>
      (if ok then copy_inv s0 pd to (V \<union> set is \<times> {..<1024}) s'
         \<and> card (free_pages (paddr_alloc s)) \<le> card (free_pages (paddr_alloc s')) + uvm_need (mem s0) pd is
       else copy_failed s0 to s' \<and> card (free_pages (paddr_alloc s)) < uvm_need (mem s0) pd is)"
proof (induction "is" arbitrary: V s)
  case Nil
  then show ?case by (intro exI[of _ True] exI[of _ s]) simp
next
  case (Cons i "is")
  let ?v = "dir_entry (mem s0) pd i"
  let ?V = "V \<union> {i} \<times> {..<1024}"
  have i: "512 \<le> i" "i < 1024" using Cons.prems by auto
  have ld: "load32 (mem s) (pd + 4 * of_nat i) = ?v" by (rule source_kept(1)[OF src Cons.prems(1) i])
  have U: "?V \<union> set is \<times> {..<1024} = V \<union> set (i # is) \<times> {..<1024}" by auto
  have rest: "distinct is" "set is \<subseteq> {512..<1024}" "\<forall>k \<in> set is. \<forall>j. (k, j) \<notin> ?V" using Cons.prems by auto
  note IH = Cons.IH[OF _ rest, unfolded U]
  show ?case
  proof (cases "entry_present ?v")
    case False
    have "copy_inv s0 pd to ?V s"
      by (rule copy_inv_skip[OF Cons.prems(1)]) (use Cons.prems(4) False in \<open>auto simp: lookup_def Let_def\<close>)
    from IH[OF this] show ?thesis using False
      by (simp only: copy_pdes.simps uvm_need.simps ld Let_def if_False if_True not_False_eq_True add_0)
  next
    case True
    let ?t = "pde_paddr ?v"
    have js: "distinct [0..<1024]" "set [0..<1024] = {..<1024}" by auto
    obtain ok s1 where s1: "copy_ptes [0..<1024] i ?t to s = Some (ok, s1)"
      "if ok then copy_inv s0 pd to ?V s1
         \<and> card (free_pages (paddr_alloc s)) \<le> card (free_pages (paddr_alloc s1)) + Suc (used_entries (mem s0) ?t [0..<1024])
       else copy_failed s0 to s1 \<and> card (free_pages (paddr_alloc s)) < Suc (used_entries (mem s0) ?t [0..<1024])"
      using copy_ptes_ok[OF src i True Cons.prems(1) js(1)] Cons.prems(4) unfolding js(2)
      by (fastforce split: if_splits)
    show ?thesis
    proof (cases ok)
      case o: False
      then show ?thesis using True ld s1
        by (intro exI[of _ False] exI[of _ s1]) (simp add: Let_def del: upt_rec_numeral)
    next
      case o: True
      with s1(2) have "copy_inv s0 pd to ?V s1" by simp
      from IH[OF this] obtain ok2 s2 where s2: "copy_pdes is pd to s1 = Some (ok2, s2)"
        "if ok2 then copy_inv s0 pd to (V \<union> set (i # is) \<times> {..<1024}) s2
         \<and> card (free_pages (paddr_alloc s1)) \<le> card (free_pages (paddr_alloc s2)) + uvm_need (mem s0) pd is
       else copy_failed s0 to s2 \<and> card (free_pages (paddr_alloc s1)) < uvm_need (mem s0) pd is" by blast
      have "copy_pdes (i # is) pd to s = Some (ok2, s2)"
        using True ld s1(1) o s2(1) by (simp add: Let_def del: upt_rec_numeral)
      then show ?thesis using s2(2) s1(2) o True by (auto simp del: upt_rec_numeral split: if_splits)
    qed
  qed
qed

section \<open>The whole copy\<close>

lemma copy_base:
  assumes src: "copy_source s pd" and a: "page_alloc s = Some (p, s1)" and p: "p \<noteq> 0"
  shows "\<exists>s2. memory_create_uvm s = Some (p, s2) \<and> copy_inv s pd p {} s2 \<and> user_tables (mem s2) p = {}
    \<and> card (free_pages (paddr_alloc s)) = Suc (card (free_pages (paddr_alloc s2)))"
proof -
  let ?kd = "kernel_page_dir s" and ?F = "free_pages (paddr_alloc s)"
  have ok: "mm_pool_ok s" and kd: "dir_ok (mem s) ?kd" "dir_private (mem s) ?kd ?F" "aligned ?kd"
    using src by (auto simp: copy_source_def dir_ok_def)
  note al = pp.alloc_some[OF ok a]
  note f = al(5)[OF p]
  note pf = free_page_facts[OF ok conjunct1[OF f]]
  have pk: "p \<noteq> ?kd" using kd(2) f by (auto simp: dir_private_def)
  define m where "m = copy_kernel_pdes 512 p ?kd (kernel_memset p 0 4096 (mem s))"
  note de = new_dir_entry[OF pf kd(3) pk, of _ _ "mem s", folded m_def]
  let ?s = "s1\<lparr>mem := m\<rparr>"
  have kp: "kept {p} (mem s) m"
    unfolding m_def by (rule new_dir_kept[OF pf])
  have s1: "s1 = s\<lparr>paddr_alloc := paddr_alloc s1\<rparr>" using al(2) by (simp add: same_mm_def)
  have eq: "?s = s\<lparr>paddr_alloc := paddr_alloc ?s, mem := mem ?s\<rparr>" by (subst s1) simp
  have cs: "copy_state s ?s"
    unfolding copy_state_def
    by (intro conjI eq) (use al(1,3) kept_mono[OF kp, of ?F] f in \<open>simp_all add: mm_pool_ok_def\<close>)
  have e: "dir_entry m p i = (if i < 512 then dir_entry (mem s) ?kd i else 0)" if "i < 1024" for i
    using de[OF pf(1) that] by simp
  have np: "\<not> entry_present 0" by (simp add: entry_present_def)
  have U: "user_tables m p = {}" "user_frames m p = {}" "\<And>i j. 512 \<le> i \<Longrightarrow> i < 1024 \<Longrightarrow> lookup m p i j = None"
    using e np by (auto simp: user_tables_def user_frames_def lookup_def Let_def)
  have kt: "\<And>i. i < 1024 \<Longrightarrow> entry_present (dir_entry (mem s) ?kd i) \<Longrightarrow> pde_paddr (dir_entry (mem s) ?kd i) \<notin> ?F"
    using kd(2) by (simp add: dir_private_def)
  have dk: "dir_ok m p"
    unfolding dir_ok_def using e np kd(1) kt f pf(1) by (auto simp: dir_ok_def split: if_splits)
  have dp: "dir_private m p (free_pages (paddr_alloc s1))"
    unfolding dir_private_def using e np kt f by (auto split: if_splits)
  have "copy_inv s pd p {} ?s"
    unfolding copy_inv_def space_pages_user
    using cs dk dp U e f by (auto simp: frames_distinct_def user_frames_def)
  moreover have "user_tables (mem ?s) p = {}" using U(1) by simp
  moreover have "memory_create_uvm s = Some (p, ?s)"
    unfolding m_def by (rule create_uvm_page[OF a al(2) p])
  moreover have "card ?F = Suc (card (free_pages (paddr_alloc ?s)))"
    using f card_Suc_Diff1[OF finite conjunct1[OF f]] by simp
  ultimately show ?thesis by blast
qed

text \<open>The permission bits of the mapping of an address.\<close>

definition page_perm :: "memory \<Rightarrow> u32 \<Rightarrow> u32 \<Rightarrow> u32 option" where
  "page_perm m pd va = map_option get_pte_perm (lookup m pd (unat (pde_index va)) (unat (pte_index va)))"

text \<open>What a complete copy says of addresses.\<close>

lemma copied_addresses:
  assumes src: "copy_source s pd" and inv: "copy_inv s pd to ({512..<1024} \<times> {..<1024}) s'"
    and va: "\<not> va < MEMORY_TASK_BASE"
  shows "vread (s'\<lparr>cr3 := to\<rparr>) va = vread s va" and "vread s' va = vread s va"
    and "page_perm (mem s') to va = page_perm (mem s) pd va"
    and "mmu_walk to (mem s') va = Some a \<Longrightarrow> pte_paddr a \<in> free_pages (paddr_alloc s)"
proof -
  let ?i = "unat (pde_index va)" and ?j = "unat (pte_index va)" and ?F = "free_pages (paddr_alloc s)"
  let ?o = "unat (take_bit 12 va)"
  have ij: "512 \<le> ?i" "?i < 1024" "?j < 1024" using kernel_index[of va] va index_less[of va] by auto
  have cs: "copy_state s s'" using inv by (simp add: copy_inv_def)
  note kp = copy_stateD(4)[OF cs]
  have cr: "cr3 s = pd" "cr3 s' = pd" using src copy_stateD(2)[OF cs] by (simp_all add: copy_source_def)
  have c: "copied (mem s) (mem s') (lookup (mem s) pd ?i ?j) (lookup (mem s') to ?i ?j)"
    using inv ij unfolding copy_inv_def by auto
  have w: "mmu_walk q m va = map_option (\<lambda>v. slot (pte_paddr v) ?o) (lookup m q ?i ?j)" for q m
    unfolding mmu_walk_lookup slot_def by simp
  have d: "aligned pd" "space_pages (mem s) pd \<inter> ?F = {}" using src by (simp_all add: copy_source_def)
  have lk: "lookup (mem s') pd ?i ?j = lookup (mem s) pd ?i ?j"
    by (rule kept_lookup[OF kp d(1) _ _ ij(2,3)])
      (use d(2) user_tablesI[OF ij(1,2), of "mem s" pd] in \<open>auto simp: space_pages_user\<close>)
  have pf: "mem s' (slot (pte_paddr v) ?o) = mem s (slot (pte_paddr v) ?o)"
    if "lookup (mem s) pd ?i ?j = Some v" for v
    by (rule kept_slot[OF kp aligned_paddr(2) _ page_offset])
      (use d(2) user_framesI[OF ij that] in \<open>auto simp: space_pages_user\<close>)
  show "vread s' va = vread s va"
    using va pf by (simp add: vread_def cr w lk option.map_comp comp_def) (cases "lookup (mem s) pd ?i ?j"; simp)
  show "vread (s'\<lparr>cr3 := to\<rparr>) va = vread s va"
    using va c page_offset[of va] by (simp add: vread_def cr w copied_def split: option.splits)
  show "page_perm (mem s') to va = page_perm (mem s) pd va"
    using c by (simp add: page_perm_def copied_def split: option.splits)
  show "pte_paddr a \<in> ?F" if wa: "mmu_walk to (mem s') va = Some a"
  proof -
    obtain x where x: "lookup (mem s') to ?i ?j = Some x" "a = slot (pte_paddr x) ?o"
      using wa unfolding w by auto
    have "pte_paddr a = pte_paddr x" unfolding x(2) by (rule page_of_slot[OF aligned_paddr(2) page_offset])
    moreover have "pte_paddr x \<in> ?F"
      using user_framesI[OF ij x(1)] inv unfolding copy_inv_def space_pages_user by blast
    ultimately show ?thesis by simp
  qed
qed

lemma copied_injective:
  assumes inv: "copy_inv s pd to V s'" and va: "\<not> x < MEMORY_TASK_BASE" "\<not> y < MEMORY_TASK_BASE"
    and w: "mmu_walk to (mem s') x = Some a" "mmu_walk to (mem s') y = Some a"
  shows "x = y"
proof -
  obtain v v' where l: "lookup (mem s') to (unat (pde_index x)) (unat (pte_index x)) = Some v"
    "a = slot (pte_paddr v) (unat (take_bit 12 x))"
    "lookup (mem s') to (unat (pde_index y)) (unat (pte_index y)) = Some v'"
    "a = slot (pte_paddr v') (unat (take_bit 12 y))"
    using w unfolding mmu_walk_lookup slot_def by auto
  have e: "pte_paddr v = pte_paddr v' \<and> unat (take_bit 12 x) = unat (take_bit 12 y)"
    using slot_inj[OF aligned_paddr(2) aligned_paddr(2) page_offset page_offset] l(2,4) by metis
  have "512 \<le> unat (pde_index x)" "512 \<le> unat (pde_index y)"
    using va kernel_index[of x] kernel_index[of y] by simp_all
  then have "drop_bit 12 x = drop_bit 12 y"
    using inv e l(1,3) index_less unfolding copy_inv_def frames_distinct_def same_page_iff[symmetric] by blast
  then have "pte_paddr x = pte_paddr y" by (simp only: pte_paddr_def)
  then show "x = y" using e slot_of_page[of x] slot_of_page[of y] by metis
qed

lemma copied_kernel_half:
  assumes src: "copy_source s pd" and inv: "copy_inv s pd to V s'" and va: "va < MEMORY_TASK_BASE"
  shows "mmu_walk to (mem s') va = mmu_walk (kernel_page_dir s) (mem s) va"
proof -
  let ?i = "unat (pde_index va)" and ?j = "unat (pte_index va)" and ?e = "dir_entry (mem s) (kernel_page_dir s)"
  have i: "?i < 512" "?i < 1024" using kernel_index[of va] va by auto
  have e: "dir_entry (mem s') to ?i = ?e ?i" using inv i(1) by (simp add: copy_inv_def)
  have kp: "kept (free_pages (paddr_alloc s)) (mem s) (mem s')"
    using inv by (simp add: copy_inv_def copy_state_def)
  have "pde_paddr (?e ?i) \<notin> free_pages (paddr_alloc s)" if "entry_present (?e ?i)"
    using src i(2) that by (simp add: copy_source_def dir_private_def)
  note t = kept_entry[OF kp aligned_paddr(1) this index_less(2)[of va]]
  have "lookup (mem s') to ?i ?j = lookup (mem s) (kernel_page_dir s) ?i ?j"
    by (cases "entry_present (?e ?i)") (simp_all add: lookup_def e t Let_def)
  then show ?thesis by (simp add: mmu_walk_lookup)
qed

lemma copied_pages:
  assumes "copy_inv s pd to V s'"
  shows "free_pages (paddr_alloc s') \<inter> space_pages (mem s') to = {}"
    and "free_pages (paddr_alloc s') \<union> space_pages (mem s') to = free_pages (paddr_alloc s)"
proof -
  have "to \<notin> free_pages (paddr_alloc s')" "user_tables (mem s') to \<inter> free_pages (paddr_alloc s') = {}"
    "user_frames (mem s') to \<inter> free_pages (paddr_alloc s') = {}"
    using assms by (auto simp: copy_inv_def dir_private_def user_tables_def)
  then show "free_pages (paddr_alloc s') \<inter> space_pages (mem s') to = {}"
    unfolding space_pages_user by blast
  show "free_pages (paddr_alloc s') \<union> space_pages (mem s') to = free_pages (paddr_alloc s)"
    using assms unfolding copy_inv_def by blast
qed

text \<open>The failed copy is destroyed again.\<close>

lemma copy_undone:
  assumes "mm_pool_ok s" and "copy_failed s to s1"
  shows "\<exists>s'. memory_destroy_uvm to s1 = Some s' \<and> copy_state s s'
    \<and> free_pages (paddr_alloc s') = space_pages (mem s1) to
    \<and> free_pages (paddr_alloc s') \<subseteq> free_pages (paddr_alloc s)
    \<and> (\<exists>p. free_pages (paddr_alloc s) - {p} \<subseteq> free_pages (paddr_alloc s'))"
proof -
  have f: "copy_state s s1" "free_pages (paddr_alloc s1) = {}"
    "space_pages (mem s1) to \<subseteq> free_pages (paddr_alloc s)"
    "\<exists>p. free_pages (paddr_alloc s) - {p} \<subseteq> space_pages (mem s1) to"
    using assms(2) by (simp_all add: copy_failed_def)
  note d = copy_stateD[OF f(1)]
  have "space_pages (mem s1) to \<subseteq> pool_pages (paddr_alloc s1)"
    using f(3) pp.free_pool[OF assms(1)] d(3) by auto
  from destroy_freed[OF d(1) this] obtain s' where s': "memory_destroy_uvm to s1 = Some s'"
    "freed s1 (space_pages (mem s1) to) s'" by blast
  note g = freedD[OF s'(2)]
  have e: "s' = s1\<lparr>paddr_alloc := paddr_alloc s'\<rparr>" using s'(2) by (simp add: freed_def same_mm_def)
  have "s' = s1\<lparr>paddr_alloc := paddr_alloc s', mem := mem s'\<rparr>"
    unfolding g(2) by (subst e) simp
  then have "copy_state s s'" by (rule copy_state_step[OF f(1) _ g(1,3), of "{}"]) (simp_all add: g(2))
  moreover have "free_pages (paddr_alloc s') = space_pages (mem s1) to"
    using s'(2) f(2) by (simp add: freed_def)
  ultimately show ?thesis using s'(1) f(3,4) by auto
qed

text \<open>\<open>uvm_pages\<close>: the pages a copy takes, one for the directory and, for every present directory
  entry of the user half, one for the table and one for each frame it maps.  \<open>uvm_copied\<close>: the
  child \<open>to\<close> of \<open>s'\<close> is a copy of the space \<open>pd\<close> of \<open>s\<close>.\<close>

definition uvm_pages :: "memory \<Rightarrow> u32 \<Rightarrow> nat" where
  "uvm_pages m pd = Suc (uvm_need m pd user_pdes)"

definition uvm_copied :: "'m mm_scheme \<Rightarrow> u32 \<Rightarrow> u32 \<Rightarrow> 'm mm_scheme \<Rightarrow> bool" where
  "uvm_copied s pd to s' \<longleftrightarrow>
     (\<forall>va. va < MEMORY_TASK_BASE \<longrightarrow> mmu_walk to (mem s') va = mmu_walk (kernel_page_dir s) (mem s) va)
     \<and> (\<forall>va. \<not> va < MEMORY_TASK_BASE \<longrightarrow>
         vread (s'\<lparr>cr3 := to\<rparr>) va = vread s va \<and> vread s' va = vread s va
         \<and> page_perm (mem s') to va = page_perm (mem s) pd va
         \<and> (\<forall>a. mmu_walk to (mem s') va = Some a \<longrightarrow> pte_paddr a \<in> free_pages (paddr_alloc s)))
     \<and> (\<forall>x y a. \<not> x < MEMORY_TASK_BASE \<longrightarrow> \<not> y < MEMORY_TASK_BASE \<longrightarrow>
         mmu_walk to (mem s') x = Some a \<longrightarrow> mmu_walk to (mem s') y = Some a \<longrightarrow> x = y)"

lemma copy_inv_copied:
  assumes "copy_source s pd" and "copy_inv s pd to ({512..<1024} \<times> {..<1024}) s'"
  shows "uvm_copied s pd to s'"
  unfolding uvm_copied_def
  using copied_kernel_half[OF assms] copied_addresses[OF assms] copied_injective[OF assms(2)] by blast

text \<open>No page at all: the copy fails before it starts.\<close>

lemma copy_no_page:
  assumes "mm_pool_ok s" and "page_alloc s = Some (0, s1)"
  shows "memory_copy_uvm pd s = Some (0, s1)" and "copy_state s s1"
    and "free_pages (paddr_alloc s) = {}" and "free_pages (paddr_alloc s1) = {}"
proof -
  note al = pp.alloc_some[OF assms]
  show "memory_copy_uvm pd s = Some (0, s1)"
    using assms(2) by (simp add: memory_copy_uvm_def memory_create_uvm_def)
  have e: "s1 = s\<lparr>paddr_alloc := paddr_alloc s1\<rparr>" using al(2) by (simp add: same_mm_def)
  have "s1 = s\<lparr>paddr_alloc := paddr_alloc s1, mem := mem s1\<rparr>"
    unfolding same_mmD(2)[OF al(2)] by (subst e) simp
  then show "copy_state s s1" using al(1,3) same_mmD(2)[OF al(2)] by (simp add: copy_state_def)
  show "free_pages (paddr_alloc s) = {}" "free_pages (paddr_alloc s1) = {}"
    using al(4) page_alloc_pool[OF assms(1)] assms(2) by auto
qed

lemma copy_uvm_ok:
  assumes "copy_source s pd"
  shows "\<exists>to s'. memory_copy_uvm pd s = Some (to, s') \<and> copy_state s s'
    \<and> (if to = 0
       then card (free_pages (paddr_alloc s)) < uvm_pages (mem s) pd
         \<and> free_pages (paddr_alloc s') \<subseteq> free_pages (paddr_alloc s)
         \<and> (\<exists>p. free_pages (paddr_alloc s) - {p} \<subseteq> free_pages (paddr_alloc s'))
       else uvm_copied s pd to s'
         \<and> free_pages (paddr_alloc s') \<inter> space_pages (mem s') to = {}
         \<and> free_pages (paddr_alloc s') \<union> space_pages (mem s') to = free_pages (paddr_alloc s))"
proof -
  let ?F = "free_pages (paddr_alloc s)"
  have ok: "mm_pool_ok s" using assms by (simp add: copy_source_def)
  have ud: "distinct user_pdes" "set user_pdes = {512..<1024}"
    unfolding user_pdes_set by (simp add: user_pdes_def del: upt_rec_numeral) rule
  obtain p s1 where a: "page_alloc s = Some (p, s1)" using page_alloc_pool[OF ok] by blast
  show ?thesis
  proof (cases "p = 0")
    case True
    note n = copy_no_page[OF ok a[unfolded True]]
    show ?thesis using n by (intro exI[of _ 0] exI[of _ s1]) (simp add: uvm_pages_def)
  next
    case False
    obtain s2 where s2: "memory_create_uvm s = Some (p, s2)" "copy_inv s pd p {} s2"
      "card ?F = Suc (card (free_pages (paddr_alloc s2)))" using copy_base[OF assms a False] by blast
    obtain b s3 where s3: "copy_pdes user_pdes pd p s2 = Some (b, s3)"
      "if b then copy_inv s pd p ({512..<1024} \<times> {..<1024}) s3
       else copy_failed s p s3 \<and> card (free_pages (paddr_alloc s2)) < uvm_need (mem s) pd user_pdes"
      using copy_pdes_ok[OF assms s2(2) ud(1)] unfolding ud(2) by (fastforce split: if_splits)
    show ?thesis
    proof (cases b)
      case True
      with s3(2) have inv: "copy_inv s pd p ({512..<1024} \<times> {..<1024}) s3" by simp
      then have "copy_state s s3" by (simp add: copy_inv_def)
      moreover have "memory_copy_uvm pd s = Some (p, s3)"
        using s2(1) s3(1) True False by (simp add: memory_copy_uvm_def)
      ultimately show ?thesis
        using copied_pages[OF inv] copy_inv_copied[OF assms inv] False
        by (intro exI[of _ p] exI[of _ s3]) simp
    next
      case f: False
      with s3(2) have cf: "copy_failed s p s3" "card ?F < uvm_pages (mem s) pd"
        using s2(3) by (simp_all add: uvm_pages_def)
      obtain s' where s': "memory_destroy_uvm p s3 = Some s'" "copy_state s s'"
        "free_pages (paddr_alloc s') \<subseteq> ?F" "\<exists>q. ?F - {q} \<subseteq> free_pages (paddr_alloc s')"
        using copy_undone[OF ok cf(1)] by blast
      have "memory_copy_uvm pd s = Some (0, s')"
        using s2(1) s3(1) s'(1) f False by (simp add: memory_copy_uvm_def)
      then show ?thesis
        using s'(2-4) cf(2) by (intro exI[of _ 0] exI[of _ s']) simp
    qed
  qed
qed

text \<open>C10: Copying an address space, as fork does.  Let \<open>pd\<close> be the running process' directory,
  with neither its pages nor the kernel's tables in the pool of free pages.  With enough free
  pages \<^verbatim>\<open>memory_copy_uvm\<close> returns a new directory: its kernel half translates like the
  kernel's; at every user address it reads the byte the parent reads, with the same permissions;
  it does so in frames of its own, one for each page, all taken from the pool; what it owns is
  exactly what left the pool; and the parent reads what it read before.  Without enough pages it
  may return 0, and then all pages but at most one are free again.  Either way no page outside
  the pool of free pages has been written.\<close>

theorem copy_uvm_copies:
  assumes "copy_source s pd"
  shows "\<exists>to s'. memory_copy_uvm pd s = Some (to, s')
    \<and> s' = s\<lparr>paddr_alloc := paddr_alloc s', mem := mem s'\<rparr> \<and> mm_pool_ok s'
    \<and> (\<forall>x. pte_paddr x \<notin> free_pages (paddr_alloc s) \<longrightarrow> mem s' x = mem s x)
    \<and> (if to = 0
       then card (free_pages (paddr_alloc s)) < uvm_pages (mem s) pd
         \<and> free_pages (paddr_alloc s') \<subseteq> free_pages (paddr_alloc s)
         \<and> (\<exists>p. free_pages (paddr_alloc s) - {p} \<subseteq> free_pages (paddr_alloc s'))
       else uvm_copied s pd to s'
         \<and> free_pages (paddr_alloc s') \<inter> space_pages (mem s') to = {}
         \<and> free_pages (paddr_alloc s') \<union> space_pages (mem s') to = free_pages (paddr_alloc s))"
  using copy_uvm_ok[OF assms] unfolding copy_state_def kept_def by blast

text \<open>The page that may be missing is lost: a frame allocated for a page whose table cannot be
  allocated is in no table yet, and the failure path frees only what the tables hold.\<close>

lemma copy_uvm_leaks:
  assumes src: "copy_source s pd" and two: "card (free_pages (paddr_alloc s)) = 2"
    and v: "lookup (mem s) pd 512 0 = Some v"
  shows "\<exists>s' p. memory_copy_uvm pd s = Some (0, s') \<and> p \<in> free_pages (paddr_alloc s)
    \<and> free_pages (paddr_alloc s') = free_pages (paddr_alloc s) - {p}"
proof -
  let ?F = "free_pages (paddr_alloc s)" and ?e = "dir_entry (mem s) pd 512"
  have ok: "mm_pool_ok s" using src by (simp add: copy_source_def)
  obtain d s1 where a: "page_alloc s = Some (d, s1)" using page_alloc_pool[OF ok] by blast
  have d0: "d \<noteq> 0" using pp.alloc_some(4)[OF ok a] two by auto
  obtain s2 where s2: "memory_create_uvm s = Some (d, s2)" "copy_inv s pd d {} s2"
    "user_tables (mem s2) d = {}" "card ?F = Suc (card (free_pages (paddr_alloc s2)))"
    using copy_base[OF src a d0] by blast
  have one: "card (free_pages (paddr_alloc s2)) = 1" using s2(4) two by simp
  have cs2: "copy_state s s2" using s2(2) by (simp add: copy_inv_def)
  obtain p s3 where b: "page_alloc s2 = Some (p, s3)" using page_alloc_pool[OF copy_stateD(1)[OF cs2]] by blast
  have p0: "p \<noteq> 0" using pp.alloc_some(4)[OF copy_stateD(1)[OF cs2] b] one by auto
  have ab: "\<not> entry_present (dir_entry (mem s2) d 512)"
    using user_tablesI[of 512 "mem s2" d] s2(3) by auto
  obtain r s4 where m: "memory_create_map d (page_va 512 0) p 1 (get_pte_perm v) s3 = Some (r, s4)"
    "r < 0" "copy_failed s d s4" "mem s4 = mem s2"
    using copy_entry(2)[OF src s2(2) _ _ _ v _ b p0] one ab by (fastforce split: if_splits)
  have e: "entry_present ?e" "entry_present v" "dir_entry (mem s) (pde_paddr ?e) 0 = v"
    using v by (auto simp: lookup_def Let_def split: if_splits)
  have "user_pdes = [512..<1024]"
    by (simp add: user_pdes_def pde_index_def MEMORY_TASK_BASE_def del: upt_rec_numeral)
  then have u1: "user_pdes = 512 # [Suc 512..<1024]" by (simp only: upt_conv_Cons)
  have u2: "[0..<1024] = 0 # [Suc 0..<1024]" by (rule upt_conv_Cons) simp
  have "copy_ptes [0..<1024] 512 (pde_paddr ?e) d s2 = Some (False, s4)"
    unfolding u2 using source_kept(2)[OF src s2(2), of 512 0] e b p0 m(1,2)
    by (simp add: Let_def del: upt_rec_numeral)
  then have c: "copy_pdes user_pdes pd d s2 = Some (False, s4)"
    unfolding u1 using source_kept(1)[OF src s2(2), of 512] e(1) by (simp add: Let_def del: upt_rec_numeral)
  have sp: "space_pages (mem s4) d = {d}"
    using s2(3) unfolding space_pages_user m(4)
    by (auto simp: user_frames_def user_tables_def lookup_def Let_def split: if_splits)
  obtain s' where s': "memory_destroy_uvm d s4 = Some s'" "free_pages (paddr_alloc s') = {d}"
    using copy_undone[OF ok m(3)] sp by auto
  have "memory_copy_uvm pd s = Some (0, s')"
    using s2(1) c s'(1) d0 by (simp add: memory_copy_uvm_def)
  moreover have "free_pages (paddr_alloc s2) = {p}"
    using one pp.alloc_some(5)[OF copy_stateD(1)[OF cs2] b p0] by (auto simp: card_1_singleton_iff)
  then have "?F = {d, p}" "d \<noteq> p"
    using copied_pages[OF s2(2)] sp m(4) by auto
  ultimately show ?thesis using s'(2) by (intro exI[of _ s'] exI[of _ p]) auto
qed

text \<open>A process with one page mapped at the start of user memory, and a byte in it.\<close>

definition demo_bytes :: memory where
  "demo_bytes = store32 (store32 ((\<lambda>_. 0)(0x102005 := 42)) (slot 0x100000 (4 * 512)) 0x101007)
     (slot 0x101000 (4 * 0)) 0x102007"

definition demo_parent :: mm where
  "demo_parent = demo_mm\<lparr>mem := demo_bytes,
     paddr_alloc := demo_pool\<lparr>abitmap := \<lparr>bit_count = 8, bits = [0x07]\<rparr>\<rparr>\<rparr>"

lemma demo_bytes_entry:
  assumes "aligned q" and "q \<noteq> 0x102000" and "j < 1024"
  shows "dir_entry demo_bytes q j = (if q = 0x101000 \<and> j = 0 then 0x102007
    else if q = 0x100000 \<and> j = 512 then 0x101007 else 0)"
proof -
  have "kept {0x102000} (\<lambda>_. 0) ((\<lambda>_. 0)(0x102005 := (42 :: u8)))"
    by (auto simp: kept_def pte_paddr_def)
  from kept_entry[OF this assms(1) _ assms(3)] assms(2)
  have "dir_entry ((\<lambda>_. 0)(0x102005 := 42)) q j = 0" by (simp add: load32_def)
  then show ?thesis
    unfolding demo_bytes_def
    using load32_store32[of "0x101000" q 0 j] load32_store32[of "0x100000" q 512 j] assms(1,3) by auto
qed

lemma demo_parent_sel: "mem demo_parent = demo_bytes" "cr3 demo_parent = 0x100000"
  "kernel_page_dir demo_parent = 0x20000"
  "paddr_alloc demo_parent = demo_pool\<lparr>abitmap := \<lparr>bit_count = 8, bits = [0x07]\<rparr>\<rparr>"
  by (simp_all add: demo_parent_def demo_mm_def sched.defs mm.defs)

lemma demo_entry_flags: "pde_paddr 0x101007 = 0x101000" "pte_paddr 0x102007 = 0x102000"
  "entry_present 0x101007" "entry_present 0x102007" "\<not> entry_present 0"
  by (simp_all add: pde_paddr_def pte_paddr_def entry_present_def)

lemma parent_entries:
  "j < 1024 \<Longrightarrow> dir_entry demo_bytes 0x100000 j = (if j = 512 then 0x101007 else 0)"
  "j < 1024 \<Longrightarrow> dir_entry demo_bytes 0x101000 j = (if j = 0 then 0x102007 else 0)"
  "j < 1024 \<Longrightarrow> dir_entry demo_bytes 0x20000 j = 0"
  using demo_bytes_entry[of "0x100000" j] demo_bytes_entry[of "0x101000" j] demo_bytes_entry[of "0x20000" j]
  by auto

lemma demo_entry_at: "load32 demo_bytes (slot 0x100000 2048) = 0x101007"
  "load32 demo_bytes (slot 0x101000 0) = 0x102007"
  using parent_entries(1)[of 512] parent_entries(2)[of 0] by simp_all

lemma demo_lookup:
  assumes "i < 1024" and "j < 1024"
  shows "lookup demo_bytes 0x100000 i j = (if i = 512 \<and> j = 0 then Some 0x102007 else None)"
  unfolding lookup_def Let_def parent_entries(1)[OF assms(1)]
  using parent_entries(2)[OF assms(2)] by (auto simp: demo_entry_flags)

lemma demo_free: "free_pages (paddr_alloc demo_parent) = {pool_page demo_pool i | i. 3 \<le> i \<and> i < 8}"
  "p \<in> free_pages (paddr_alloc demo_parent) \<Longrightarrow> 0x103000 \<le> uint p"
proof -
  have b: "bm_bit \<lparr>bit_count = 8, bits = [0x07]\<rparr> i \<longleftrightarrow> i < 3" if "0 \<le> i" "i < 8" for i
  proof -
    have "(0x07 :: u8) = mask 3" by (simp add: mask_eq_exp_minus_1)
    then have "bit (0x07 :: u8) n \<longleftrightarrow> n < 3" if "n < 8" for n using that by (simp only: bit_mask_iff) auto
    then show ?thesis using that by (auto simp: bm_bit_def)
  qed
  then show f: "free_pages (paddr_alloc demo_parent) = {pool_page demo_pool i | i. 3 \<le> i \<and> i < 8}"
    by (force simp: free_pages_def demo_parent_sel pool_page_def)
  show "0x103000 \<le> uint p" if "p \<in> free_pages (paddr_alloc demo_parent)"
    using that uint_pool_page(1)[OF demo_pool_ok] by (auto simp: f) (auto simp: demo_pool_def)
qed

lemma demo_parent_source: "copy_source demo_parent 0x100000"
proof -
  have u1: "user_tables demo_bytes 0x100000 = {0x101000}"
    using parent_entries(1)
    by (auto simp: user_tables_def demo_entry_flags demo_entry_at split: if_splits intro!: exI[of _ 512])
  have u2: "user_frames demo_bytes 0x100000 = {0x102000}"
    using demo_lookup by (auto simp: user_frames_def demo_entry_flags split: if_splits)
      (intro exI[of _ "0x102007 :: u32"] conjI exI[of _ 512] exI[of _ "0 :: nat"]; simp add: demo_entry_flags)
  have k: "\<not> entry_present (dir_entry demo_bytes 0x20000 i)" if "i < 1024" for i
    using parent_entries(3)[OF that] by (simp add: demo_entry_flags)
  have "mm_pool_ok demo_parent"
    by (simp add: mm_pool_ok_def demo_parent_sel pool_ok_def demo_pool_def bm_ok_def dll_def blank_list_def)
  moreover have "q \<notin> free_pages (paddr_alloc demo_parent)"
    if "q \<in> {0x100000, 0x101000, 0x102000, 0x20000}" for q
    using demo_free(2)[of q] that by auto
  ultimately show ?thesis
    using k by (simp add: copy_source_def demo_parent_sel space_pages_user u1 u2 dir_ok_def dir_private_def)
qed

lemma uvm_need_none: "\<forall>i \<in> set is. \<not> entry_present (dir_entry m pd i) \<Longrightarrow> uvm_need m pd is = 0"
  by (induction "is") auto

lemma demo_parent_need: "uvm_pages demo_bytes 0x100000 = 3" "5 \<le> card (free_pages (paddr_alloc demo_parent))"
proof -
  have d: "entry_present (dir_entry demo_bytes 0x100000 i) \<longleftrightarrow> i = 512"
    "entry_present (dir_entry demo_bytes 0x101000 i) \<longleftrightarrow> i = 0" if "i < 1024" for i
    using parent_entries(1,2)[OF that] by (simp_all add: demo_entry_flags)
  have "user_pdes = [512..<1024]"
    by (simp add: user_pdes_def pde_index_def MEMORY_TASK_BASE_def del: upt_rec_numeral)
  then have u: "user_pdes = 512 # [Suc 512..<1024]" by (simp only: upt_conv_Cons)
  have z: "[0..<1024] = 0 # [Suc 0..<1024]" by (rule upt_conv_Cons) simp
  have "used_entries demo_bytes 0x101000 [0..<1024] = 1"
    unfolding z using d(2)
    by (simp add: filter_empty_conv demo_entry_at demo_entry_flags del: upt_rec_numeral)
  moreover have "uvm_need demo_bytes 0x100000 [Suc 512..<1024] = 0"
  proof (rule uvm_need_none, rule ballI)
    fix i assume "i \<in> set [Suc 512..<1024]"
    then have "i \<noteq> 512" "i < 1024" by (simp_all only: set_upt atLeastLessThan_iff Suc_le_eq) simp_all
    then show "\<not> entry_present (dir_entry demo_bytes 0x100000 i)" using d(1) by simp
  qed
  ultimately show "uvm_pages demo_bytes 0x100000 = 3"
    unfolding uvm_pages_def u by (simp add: demo_entry_at demo_entry_flags del: upt_rec_numeral)
  have i: "inj_on (pool_page demo_pool) {3, 4, 5, 6, 7}"
    using pool_page_inj[OF demo_pool_ok] by (auto simp: inj_on_def demo_pool_def)
  have "pool_page demo_pool ` {3, 4, 5, 6, 7} \<subseteq> free_pages (paddr_alloc demo_parent)"
    by (auto simp: demo_free(1) intro: exI[of _ 3] exI[of _ 4] exI[of _ 5] exI[of _ 6] exI[of _ 7])
  from card_mono[OF finite this] card_image[OF i] show "5 \<le> card (free_pages (paddr_alloc demo_parent))" by simp
qed

lemma demo_parent_byte: "vread demo_parent 0x80000005 = Some 42"
proof -
  have "unat (pde_index 0x80000005) = 512" "unat (pte_index 0x80000005) = 0"
    by (simp_all add: pde_index_def pte_index_def)
  then have "mmu_walk 0x100000 demo_bytes 0x80000005 = Some 0x102005"
    by (simp add: mmu_walk_lookup demo_lookup demo_entry_flags)
  moreover have "demo_bytes 0x102005 = 42"
    by (simp add: demo_bytes_def store32_def slot_def)
  ultimately show ?thesis by (simp add: vread_def demo_parent_sel MEMORY_TASK_BASE_def)
qed

theorem copy_uvm_copies_witness:
  "\<exists>to s'. memory_copy_uvm 0x100000 demo_parent = Some (to, s') \<and> to \<noteq> 0
    \<and> vread (s'\<lparr>cr3 := to\<rparr>) 0x80000005 = Some 42 \<and> vread s' 0x80000005 = Some 42"
proof -
  have "\<not> (0x80000005 :: u32) < MEMORY_TASK_BASE" by (simp add: MEMORY_TASK_BASE_def)
  with copy_uvm_copies[OF demo_parent_source] demo_parent_need demo_parent_byte show ?thesis
    unfolding uvm_copied_def demo_parent_sel(1) by (fastforce split: if_splits)
qed

end
