(* ===== verification/Fork.thy ===== *)
theory Fork
  imports Copy Create Taskprops
begin

text \<open>
  Fork (\<^verbatim>\<open>sys_fork\<close> in \<^verbatim>\<open>kernel/core/task.c\<close>) put together from its parts: the slot of the task
  table, the new task, the open files, the registers, the address space and the ready queue.
\<close>

section \<open>The parts, as changes of the state\<close>

lemma find_free_task_Some:
  "find_free_task ix ts = Some c \<Longrightarrow> \<exists>i \<in> set ix. c = Table_task i \<and> tname (ts c) = []"
  by (induction ix) (auto split: if_splits)

lemma free_slot:
  assumes "find_free_task [0..<TASK_NR] ts = Some c"
  shows "c \<in> set all_tasks" and "c \<noteq> Idle_task"
  using find_free_task_Some[OF assms] by (auto simp: all_tasks_def TASK_NR_def)

lemma alloc_task_free:
  assumes "mutex_free (task_table_mutex s) s"
  shows "alloc_task resume s = Some (find_free_task [0..<TASK_NR] (tasks s),
    s\<lparr>task_table_mutex := (task_table_mutex s)\<lparr>locked_count := 0, owner := None\<rparr>\<rparr>)"
  using table_section(1)[OF assms, of resume] table_section(2)[OF assms] by (simp add: alloc_task_def)

definition new_task :: "layout \<Rightarrow> task_ref \<Rightarrow> u8 list \<Rightarrow> task_t \<Rightarrow> task_t" where
  "new_task lay t name k = k\<lparr>tname := name_copy TASK_NAME_SIZE name, parent := None, tstate := TASK_CREATED,
     sleep_ticks := 0, heap_start := 0, heap_end := 0, time_ticks := TASK_TIME_SLICE_DEFAULT,
     slice_ticks := TASK_TIME_SLICE_DEFAULT, status := 0, file_table := replicate (nat TASK_OFILE_NR) None,
     tid := sint (task_addr lay t)\<rparr>"

lemma task_init_form:
  fixes s1 :: "('h, 'm) cpu_scheme"
  assumes "tss_init lay t flag entry esp s = Some (r, s1)" and "dll (all_links s1) (task_list s1) L" and "t \<notin> set L"
  shows "\<exists>l h. task_init lay t name flag entry esp s = Some (0, (upd_task t (new_task lay t name) s1)\<lparr>
      run_links := node_init (run_links s1) t, wait_links := node_init (wait_links s1) t,
      all_links := h, task_list := l\<rparr>) \<and> dll h l (L @ [t])"
proof -
  have "dll (node_init (all_links s1) t) (task_list s1) L" using assms(2,3) by (simp add: dll_node_init)
  from dll_insert_last[OF this assms(3)] obtain l h where
    i: "list_insert_last (task_list s1) (node_init (all_links s1) t) t = Some (l, h)" "dll h l (L @ [t])" by blast
  show ?thesis
    using assms(1) i by (intro exI[of _ l] exI[of _ h]) (cases s1, simp add: task_init_def new_task_def upd_task_def Let_def)
qed

text \<open>Copying the descriptors changes the child's table and the file table alone.\<close>

definition files_copied :: "task_ref \<Rightarrow> ('h, 'w, 'm) vfs_scheme \<Rightarrow> ('h, 'w, 'm) vfs_scheme \<Rightarrow> bool" where
  "files_copied c s s' \<longleftrightarrow> (\<exists>ft F M. s' = (upd_task c (\<lambda>k. k\<lparr>file_table := ft\<rparr>) s)\<lparr>files := F, file_alloc_mutex := M\<rparr>
     \<and> mutex_free M s)"

lemma copy_fds_form:
  "files_ready s \<Longrightarrow> copy_fds fds par c s = Some s' \<Longrightarrow> files_copied c s s'"
proof (induction fds arbitrary: s)
  case Nil
  have "s = (upd_task c (\<lambda>k. k\<lparr>file_table := file_table (tasks s c)\<rparr>) s)\<lparr>files := files s, file_alloc_mutex := file_alloc_mutex s\<rparr>"
    by (cases s) (simp add: upd_task_def)
  then show ?case using Nil by (auto simp: files_copied_def files_ready_def)
next
  case (Cons fd fds)
  show ?case
  proof (cases "file_table (tasks s par) ! fd")
    case (Some f)
    let ?s = "set_fd c fd (Some f) (rel s ((files s)[f := (files s ! f)\<lparr>fref := fref (files s ! f) + 1\<rparr>]))"
    have "files_ready ?s" using Cons.prems(1) by simp
    moreover have "copy_fds fds par c ?s = Some s'"
      using Cons.prems(2) Some file_inc_ref_eq[OF Cons.prems(1), of f] by simp
    ultimately have "files_copied c ?s s'" by (rule Cons.IH)
    then show ?thesis
      by (auto simp: files_copied_def set_fd_def rel_def upd_task_def mutex_free_def)
  qed (use Cons in simp)
qed

section \<open>A space that is not free stays\<close>

lemma kept_space:
  assumes kp: "kept F m m'" and pd: "aligned pd" "space_pages m pd \<inter> F = {}"
  shows "\<And>i. 512 \<le> i \<Longrightarrow> i < 1024 \<Longrightarrow> dir_entry m' pd i = dir_entry m pd i"
    and "\<And>i j. 512 \<le> i \<Longrightarrow> i < 1024 \<Longrightarrow> j < 1024 \<Longrightarrow> entry_present (dir_entry m pd i) \<Longrightarrow>
      dir_entry m' (pde_paddr (dir_entry m pd i)) j = dir_entry m (pde_paddr (dir_entry m pd i)) j"
    and "\<And>i j. 512 \<le> i \<Longrightarrow> i < 1024 \<Longrightarrow> j < 1024 \<Longrightarrow> lookup m' pd i j = lookup m pd i j"
    and "space_pages m' pd = space_pages m pd"
    and "uvm_pages m' pd = uvm_pages m pd"
proof -
  have F: "pd \<notin> F" "user_tables m pd \<inter> F = {}" using pd(2) by (auto simp: space_pages_user)
  show e: "dir_entry m' pd i = dir_entry m pd i" if "512 \<le> i" "i < 1024" for i
    by (rule kept_entry[OF kp pd(1) F(1) that(2)])
  show t: "dir_entry m' (pde_paddr (dir_entry m pd i)) j = dir_entry m (pde_paddr (dir_entry m pd i)) j"
    if "512 \<le> i" "i < 1024" "j < 1024" "entry_present (dir_entry m pd i)" for i j
    by (rule kept_entry[OF kp aligned_paddr(1) _ that(3)]) (use user_tablesI[OF that(1,2,4)] F(2) in blast)
  show l: "lookup m' pd i j = lookup m pd i j" if "512 \<le> i" "i < 1024" "j < 1024" for i j
    by (rule kept_lookup[OF kp pd(1) F(1) _ that(2,3)]) (use user_tablesI[OF that(1,2)] F(2) in blast)
  have "user_tables m' pd = user_tables m pd" unfolding user_tables_def by (metis (no_types, lifting) e)
  moreover have "user_frames m' pd = user_frames m pd" unfolding user_frames_def by (metis (no_types, lifting) l)
  ultimately show "space_pages m' pd = space_pages m pd" by (simp add: space_pages_user)
  have u: "used_entries m' (pde_paddr (dir_entry m pd i)) [0..<1024] = used_entries m (pde_paddr (dir_entry m pd i)) [0..<1024]"
    if "512 \<le> i" "i < 1024" "entry_present (dir_entry m pd i)" for i
    by (intro arg_cong[where f = length] filter_cong refl) (use t[OF that(1,2) _ that(3)] in simp)
  have "set is \<subseteq> {512..<1024} \<Longrightarrow> uvm_need m' pd is = uvm_need m pd is" for "is"
    by (induction "is") (simp_all add: e u del: upt_rec_numeral)
  then show "uvm_pages m' pd = uvm_pages m pd" by (simp add: uvm_pages_def user_pdes_set)
qed

lemma kept_kernel_dir:
  assumes "kept F m m'" and "dir_ok m kd" and "dir_private m kd F"
  shows "dir_ok m' kd" and "dir_private m' kd F"
proof -
  have e: "dir_entry m' kd i = dir_entry m kd i" if "i < 1024" for i
    using kept_entry[OF assms(1) _ _ that] assms(2,3) by (simp add: dir_ok_def dir_private_def)
  show "dir_ok m' kd" "dir_private m' kd F" using assms(2,3) e by (simp_all add: dir_ok_def dir_private_def)
qed

lemma copy_source_kept:
  assumes src: "copy_source s pd" and kp: "kept (free_pages (paddr_alloc s)) (mem s) (mem s')" and ok: "mm_pool_ok s'"
    and e: "cr3 s' = cr3 s" "kernel_page_dir s' = kernel_page_dir s"
    and F: "free_pages (paddr_alloc s') \<subseteq> free_pages (paddr_alloc s)"
  shows "copy_source s' pd" and "\<And>va. \<not> va < MEMORY_TASK_BASE \<Longrightarrow> vread s' va = vread s va"
proof -
  have d: "aligned pd" "space_pages (mem s) pd \<inter> free_pages (paddr_alloc s) = {}" "cr3 s = pd"
    "dir_ok (mem s) (kernel_page_dir s)" "dir_private (mem s) (kernel_page_dir s) (free_pages (paddr_alloc s))"
    using src by (simp_all add: copy_source_def)
  note k = kept_space[OF kp d(1,2)]
  show "copy_source s' pd"
    using d ok e F kept_kernel_dir[OF kp d(4,5)] by (auto simp: copy_source_def k(4) dir_private_def)
  fix va :: u32 assume va: "\<not> va < MEMORY_TASK_BASE"
  let ?i = "unat (pde_index va)" and ?j = "unat (pte_index va)" and ?o = "unat (take_bit 12 va)"
  have ij: "512 \<le> ?i" "?i < 1024" "?j < 1024" using kernel_index[of va] va index_less[of va] by auto
  have w: "mmu_walk q m va = map_option (\<lambda>v. slot (pte_paddr v) ?o) (lookup m q ?i ?j)" for q m
    unfolding mmu_walk_lookup slot_def by simp
  have "mem s' (slot (pte_paddr v) ?o) = mem s (slot (pte_paddr v) ?o)" if "lookup (mem s) pd ?i ?j = Some v" for v
    by (rule kept_slot[OF kp aligned_paddr(2) _ page_offset])
      (use d(2) user_framesI[OF ij that] in \<open>auto simp: space_pages_user\<close>)
  then show "vread s' va = vread s va"
    using va by (simp add: vread_def e d(3) w k(3)[OF ij] option.map_comp comp_def)
      (cases "lookup (mem s) pd ?i ?j"; simp)
qed

text \<open>The saved registers lie at the end of the kernel stack.\<close>

lemma kept_frame:
  assumes kp: "kept F m m'" and K: "aligned K" "K \<notin> F" and r: "ts_esp0 r = K + MEM_PAGE_SIZE"
  shows "frame_tss m' (syscall_frame_at r) q = frame_tss m (syscall_frame_at r) q"
    and "load32 m' (syscall_frame_at r + 52) = load32 m (syscall_frame_at r + 52)"
    and "load32 m' (syscall_frame_at r + 80) = load32 m (syscall_frame_at r + 80)"
proof -
  have e: "syscall_frame_at r + 4 * of_nat k = slot K (4 * (1002 + k))" for k
    by (simp add: syscall_frame_at_def r MEM_PAGE_SIZE_def SYSCALL_FRAME_SIZE_def slot_def)
  have l: "load32 m' (syscall_frame_at r + 4 * of_nat k) = load32 m (syscall_frame_at r + 4 * of_nat k)" if "k < 22" for k
    unfolding e by (rule kept_entry[OF kp K]) (use that in simp)
  show "frame_tss m' (syscall_frame_at r) q = frame_tss m (syscall_frame_at r) q"
    using l[of 0] l[of 1] l[of 2] l[of 3] l[of 4] l[of 5] l[of 6] l[of 7] l[of 9] l[of 10] l[of 11] l[of 14]
    by (simp add: frame_tss_def)
  show "load32 m' (syscall_frame_at r + 52) = load32 m (syscall_frame_at r + 52)"
    "load32 m' (syscall_frame_at r + 80) = load32 m (syscall_frame_at r + 80)"
    using l[of 13] l[of 20] by simp_all
qed

section \<open>Fork\<close>

text \<open>
  When a fork makes a child: the kernel is between two system calls (\<open>os_ok\<close>), there is a free
  slot \<open>c\<close> of the table, a free descriptor, and two pages for the new task; the parent's
  directory is loaded, and its pages and its kernel stack are not in the pool of free pages.
\<close>

definition can_fork :: "('h, 'w, 'm) os_scheme \<Rightarrow> task_ref \<Rightarrow> task_ref \<Rightarrow> task_ref list \<Rightarrow> task_ref list \<Rightarrow> bool" where
  "can_fork s par c R S \<longleftrightarrow> os_ok s par R S \<and> par \<in> set all_tasks
     \<and> find_free_task [0..<TASK_NR] (tasks s) = Some c \<and> c \<noteq> par \<and> c \<notin> set R \<union> set S
     \<and> (\<forall>fd < nat TASK_OFILE_NR. file_table (tasks s c) ! fd = None)
     \<and> (\<exists>L. dll (all_links s) (task_list s) L \<and> c \<notin> set L)
     \<and> mutex_free (gdt_mutex s) s \<and> find_free_desc 1 (drop 1 (gdt_table s)) \<noteq> None
     \<and> aligned (ts_esp0 (tss (tasks s par)) - MEM_PAGE_SIZE)
     \<and> ts_esp0 (tss (tasks s par)) - MEM_PAGE_SIZE \<notin> free_pages (paddr_alloc s)
     \<and> copy_source s (ts_cr3 (tss (tasks s par)))
     \<and> 2 \<le> card (free_pages (paddr_alloc s))"

text \<open>What fork has made before it copies the files.\<close>

definition fork_made :: "('h, 'w, 'm) os_scheme \<Rightarrow> task_ref \<Rightarrow> task_ref \<Rightarrow> task_ref list \<Rightarrow> task_ref list
    \<Rightarrow> u32 \<Rightarrow> u32 \<Rightarrow> ('h, 'w, 'm) os_scheme \<Rightarrow> bool" where
  "fork_made s par c R S stack dir s' \<longleftrightarrow> {stack, dir} \<subseteq> free_pages (paddr_alloc s) \<and> stack \<noteq> dir
     \<and> free_pages (paddr_alloc s') = free_pages (paddr_alloc s) - {stack, dir}
     \<and> kept (free_pages (paddr_alloc s)) (mem s) (mem s') \<and> mm_pool_ok s'
     \<and> tasks s' = (tasks s)(c := tasks s' c) \<and> curr_task s' = curr_task s \<and> tr s' = tr s
     \<and> cr3 s' = cr3 s \<and> kernel_page_dir s' = kernel_page_dir s
     \<and> refs_ok s' \<and> sched_rep s' (par # R) S"

lemma empty_table:
  assumes "refs_ok s" and "c \<in> set all_tasks" and "\<forall>fd < nat TASK_OFILE_NR. file_table (tasks s c) ! fd = None"
  shows "file_table (tasks s c) = replicate (nat TASK_OFILE_NR) None"
  using assms by (intro nth_equalityI) (simp_all add: refs_ok_def)

lemma fork_creates:
  fixes s :: "('h, 'w, 'm) os_scheme"
  assumes can: "can_fork s par c R S"
  defines "s1 \<equiv> s\<lparr>task_table_mutex := (task_table_mutex s)\<lparr>locked_count := 0, owner := None\<rparr>\<rparr>"
  shows "\<exists>s2 stack dir. task_init lay c name 0 entry esp s1 = Some (0, s2) \<and> fork_made s par c R S stack dir s2
    \<and> tss (tasks s2 c) = start_tss (start_sels s 0) entry esp stack dir
    \<and> tid (tasks s2 c) = sint (task_addr lay c) \<and> file_table (tasks s2 c) = replicate (nat TASK_OFILE_NR) None
    \<and> files_ready s2"
proof -
  let ?F = "free_pages (paddr_alloc s)"
  have h: "os_ok s par R S" "find_free_task [0..<TASK_NR] (tasks s) = Some c" "c \<noteq> par" "c \<notin> set R" "c \<notin> set S"
    "\<forall>fd < nat TASK_OFILE_NR. file_table (tasks s c) ! fd = None" "copy_source s (ts_cr3 (tss (tasks s par)))"
    "2 \<le> card ?F" "mutex_free (gdt_mutex s) s"
    using can by (auto simp: can_fork_def)
  obtain L where L: "dll (all_links s) (task_list s) L" "c \<notin> set L" using can by (auto simp: can_fork_def)
  obtain i where i: "find_free_desc 1 (drop 1 (gdt_table s)) = Some i" using can by (auto simp: can_fork_def)
  have k: "mm_pool_ok s1" "aligned (kernel_page_dir s1)" "dir_private (mem s1) (kernel_page_dir s1) ?F"
    using h(7) by (auto simp: s1_def copy_source_def dir_ok_def mm_pool_ok_def pool_ok_def)
  obtain stack dir pa m where t: "stack \<in> ?F" "dir \<in> ?F" "stack \<noteq> dir" "free_pages pa = ?F - {stack, dir}"
    "pool_ok pa s1" "kept ?F (mem s) m"
    "tss_init lay c 0 entry esp s1 = Some (0,
        (upd_task c (\<lambda>k. k\<lparr>tss := start_tss (start_sels s1 0) entry esp stack dir, tss_sel := 8 * int i\<rparr>) s1)
        \<lparr>gdt_table := (gdt_table s1)[i := tss_desc lay c], gdt_mutex := (gdt_mutex s1)\<lparr>locked_count := 0, owner := None\<rparr>,
         paddr_alloc := pa, mem := m\<rparr>)" (is "_ = Some (0, ?s)")
    using tss_init_ok[of s1 i lay c 0 entry esp] h(8,9) i k by (auto simp: s1_def mutex_free_def)
  obtain l q where s2: "task_init lay c name 0 entry esp s1 = Some (0, (upd_task c (new_task lay c name) ?s)\<lparr>
      run_links := node_init (run_links ?s) c, wait_links := node_init (wait_links ?s) c,
      all_links := q, task_list := l\<rparr>)" (is "_ = Some (0, ?s2)")
    using task_init_form[OF t(7), of L name] L by (auto simp: s1_def upd_task_def)
  have w: "dll (wait_links ?s2) x [] = dll (wait_links s) x []" for x
    by (simp add: s1_def upd_task_def dll_node_init)
  have snd: "refs_ok s" "files_ready s" "sched_rep s (par # R) S" using h(1) by (simp_all add: os_ok_def files_sound_def)
  have ft: "file_table (tasks ?s2 t) = file_table (tasks s t)" for t
    using empty_table[OF snd(1) free_slot(1)[OF h(2)] h(6)] by (simp add: s1_def upd_task_def new_task_def)
  have "refs_ok ?s2"
    using snd(1) unfolding refs_ok_def fd_refs_def ft by (simp add: s1_def upd_task_def)
  moreover have "files_ready ?s2"
    using snd(2) by (simp add: files_ready_def mutex_free_def w del: sched.select_convs) (simp add: s1_def upd_task_def dll_node_init)
  moreover have "mm_pool_ok ?s2"
    using t(5) by (simp add: mm_pool_ok_def pool_ok_def s1_def upd_task_def dll_node_init)
  moreover have "sched_rep ?s2 (par # R) S"
    using snd(3) h(3-5) by (simp add: sched_rep_def s1_def upd_task_def dll_node_init)
  ultimately show ?thesis
    using s2 t(1-4,6) by (intro exI[of _ ?s2] exI[of _ stack] exI[of _ dir])
      (simp add: fork_made_def s1_def upd_task_def new_task_def start_sels_def)
qed

lemma fork_shares:
  fixes s :: "('h, 'w, 'm) os_scheme"
  assumes can: "can_fork s par c R S" and made: "fork_made s par c R S stack dir s2" and fr: "files_ready s2"
    and ft: "file_table (tasks s2 c) = replicate (nat TASK_OFILE_NR) None"
  shows "\<exists>s3. copy_opened_files c s2 = Some s3 \<and> fork_made s par c R S stack dir s3
    \<and> file_table (tasks s3 c) = file_table (tasks s par)
    \<and> tasks s3 c = (tasks s2 c)\<lparr>file_table := file_table (tasks s par)\<rparr>"
proof -
  have h: "os_ok s par R S" "par \<in> set all_tasks" "find_free_task [0..<TASK_NR] (tasks s) = Some c" "c \<noteq> par"
    using can by (auto simp: can_fork_def)
  have m: "refs_ok s2" "curr_task s2 = curr_task s" "tasks s2 = (tasks s)(c := tasks s2 c)"
    using made by (simp_all add: fork_made_def)
  have cur: "curr_task s2 = Some par" using h(1) m(2) by (simp add: os_ok_def on_cpu_def)
  have par2: "tasks s2 par = tasks s par" by (subst m(3)) (use h(4) in simp)
  obtain s3 where s3: "copy_opened_files c s2 = Some s3" "refs_ok s3" "file_table (tasks s3 c) = file_table (tasks s par)"
    using fork_shares_files[OF m(1) fr cur h(2) free_slot(1)[OF h(3)] _ ft] h(4) par2 by auto
  have "copy_fds [0..<nat TASK_OFILE_NR] par c s2 = Some s3"
    using s3(1) cur by (simp add: copy_opened_files_def task_current_def)
  from copy_fds_form[OF fr this] obtain tb F M where
    e: "s3 = (upd_task c (\<lambda>k. k\<lparr>file_table := tb\<rparr>) s2)\<lparr>files := F, file_alloc_mutex := M\<rparr>"
    by (auto simp: files_copied_def)
  have "fork_made s par c R S stack dir s3"
    using made s3(2) by (auto simp: fork_made_def e upd_task_def mm_pool_ok_def pool_ok_def sched_rep_def) (metis fun_upd_upd)
  moreover have "tasks s3 c = (tasks s2 c)\<lparr>file_table := tb\<rparr>" by (simp add: e upd_task_def)
  ultimately show ?thesis using s3(1,3) by (intro exI[of _ s3]) simp
qed

lemma fork_made_task:
  "fork_made s par c R S stack dir s' \<Longrightarrow> fork_made s par c R S stack dir (upd_task c f s')
    \<longleftrightarrow> refs_ok (upd_task c f s')"
  by (auto simp: fork_made_def upd_task_def mm_pool_ok_def pool_ok_def sched_rep_def) (metis fun_upd_upd)

lemma refs_ok_task:
  assumes "\<And>k. file_table (f k) = file_table k"
  shows "refs_ok (upd_task c f s) = refs_ok s"
proof -
  have "file_table (tasks (upd_task c f s) t) = file_table (tasks s t)" for t using assms by (simp add: upd_task_def)
  then show ?thesis unfolding refs_ok_def fd_refs_def by (simp add: upd_task_def)
qed

text \<open>The copy of the address space, from the state before fork.\<close>

lemma fork_copies_space:
  fixes s :: "('h, 'w, 'm) os_scheme"
  assumes can: "can_fork s par c R S" and made: "fork_made s par c R S stack dir s4"
    and n: "2 + uvm_pages (mem s) (ts_cr3 (tss (tasks s par))) \<le> card (free_pages (paddr_alloc s))"
  shows "\<exists>to s5. memory_copy_uvm (ts_cr3 (tss (tasks s par))) s4 = Some (to, s5) \<and> to \<noteq> 0 \<and> copy_state s4 s5
    \<and> (\<forall>va. \<not> va < MEMORY_TASK_BASE \<longrightarrow> vread (s5\<lparr>cr3 := to\<rparr>) va = vread s va \<and> vread s5 va = vread s va)
    \<and> free_pages (paddr_alloc s5) \<inter> ({stack, dir} \<union> space_pages (mem s5) to) = {}
    \<and> {stack, dir} \<inter> space_pages (mem s5) to = {}
    \<and> free_pages (paddr_alloc s5) \<union> {stack, dir} \<union> space_pages (mem s5) to = free_pages (paddr_alloc s)"
proof -
  let ?pd = "ts_cr3 (tss (tasks s par))" and ?F = "free_pages (paddr_alloc s)"
  have src: "copy_source s ?pd" using can by (simp add: can_fork_def)
  have m: "{stack, dir} \<subseteq> ?F" "stack \<noteq> dir" "free_pages (paddr_alloc s4) = ?F - {stack, dir}"
    "kept ?F (mem s) (mem s4)" "mm_pool_ok s4" "cr3 s4 = cr3 s" "kernel_page_dir s4 = kernel_page_dir s"
    using made by (simp_all add: fork_made_def)
  have F4: "free_pages (paddr_alloc s4) \<subseteq> ?F" using m(3) by blast
  note sk = copy_source_kept[OF src m(4-7) F4]
  obtain to s5 where c: "memory_copy_uvm ?pd s4 = Some (to, s5)" "copy_state s4 s5"
    "if to = 0 then card (free_pages (paddr_alloc s4)) < uvm_pages (mem s4) ?pd
         \<and> free_pages (paddr_alloc s5) \<subseteq> free_pages (paddr_alloc s4)
         \<and> (\<exists>p. free_pages (paddr_alloc s4) - {p} \<subseteq> free_pages (paddr_alloc s5))
       else uvm_copied s4 ?pd to s5 \<and> free_pages (paddr_alloc s5) \<inter> space_pages (mem s5) to = {}
         \<and> free_pages (paddr_alloc s5) \<union> space_pages (mem s5) to = free_pages (paddr_alloc s4)"
    using copy_uvm_ok[OF sk(1)] by blast
  have "uvm_pages (mem s4) ?pd = uvm_pages (mem s) ?pd"
    using kept_space(5)[OF m(4)] src by (simp add: copy_source_def)
  moreover have "card (free_pages (paddr_alloc s4)) = card ?F - 2"
    unfolding m(3) using m(1,2) by (simp add: card_Diff_subset)
  ultimately have t: "to \<noteq> 0" using c(3) n by auto
  with c(3) have u: "uvm_copied s4 ?pd to s5" "free_pages (paddr_alloc s5) \<inter> space_pages (mem s5) to = {}"
    "free_pages (paddr_alloc s5) \<union> space_pages (mem s5) to = ?F - {stack, dir}" using m(3) by auto
  moreover have "free_pages (paddr_alloc s5) \<inter> ({stack, dir} \<union> space_pages (mem s5) to) = {}"
    "{stack, dir} \<inter> space_pages (mem s5) to = {}"
    "free_pages (paddr_alloc s5) \<union> {stack, dir} \<union> space_pages (mem s5) to = ?F" using u(2,3) m(1) by blast+
  ultimately show ?thesis using c(1,2) t sk(2)
    by (intro exI[of _ to] exI[of _ s5]) (simp add: uvm_copied_def)
qed

lemma task_start_ready:
  assumes "sched_rep s R S" and "t \<notin> set R" and "t \<notin> set S" and "t \<noteq> Idle_task"
  shows "\<exists>s'. task_start t s = Some s' \<and> sched_rep s' (R @ [t]) S \<and> sched_frame s s'
    \<and> tasks s' = (tasks s)(t := (tasks s t)\<lparr>tstate := TASK_READY\<rparr>)"
proof -
  have "sched_rep (cli_state s) R S" using assms(1) by simp
  from set_ready_rep[OF this assms(2-4)] obtain s1 where
    s1: "task_set_ready t (cli_state s) = Some s1" "sched_rep s1 (R @ [t]) S"
    "sched_frame (cli_state s) s1" "tasks s1 = (tasks s)(t := (tasks s t)\<lparr>tstate := TASK_READY\<rparr>)"
    by auto
  let ?s = "s1\<lparr>eflags := eflags s\<rparr>"
  have "task_start t s = Some ?s"
    using s1(1,3) by (simp add: task_start_def Let_def sched_frame_def)
  then show ?thesis using s1(2-4) by (intro exI[of _ ?s]) (simp add: sched_frame_def)
qed

text \<open>The registers of the child: those the parent saved when it entered the kernel, with 0 as
  the result of the call and the call's arguments taken off the stack.\<close>

definition child_tss :: "('h, 'w, 'm) os_scheme \<Rightarrow> task_ref \<Rightarrow> u32 \<Rightarrow> u32 \<Rightarrow> tss_t" where
  "child_tss s par stack dir = (let f = syscall_frame_at (tss (tasks s par))
     in frame_tss (mem s) f (start_tss (start_sels s 0) (load32 (mem s) (f + 52))
          (load32 (mem s) (f + 80) + 4 * ucast SYSCALL_PARAM_COUNT) stack dir))"

lemma child_tss_simps:
  "ts_eax (child_tss s par stack dir) = 0" "ts_cr3 (child_tss s par stack dir) = dir"
  "(child_tss s par stack dir)\<lparr>ts_cr3 := to\<rparr> = child_tss s par stack to"
  by (simp_all add: child_tss_def frame_tss_def start_tss_def zero_tss_def Let_def)

text \<open>Everything up to the copy of the address space.\<close>

lemma fork_prepares:
  fixes s :: "('h, 'w, 'm) os_scheme"
  assumes can: "can_fork s par c R S"
  shows "\<exists>s4 stack dir. fork_made s par c R S stack dir s4
    \<and> tss (tasks s4 c) = child_tss s par stack dir \<and> tid (tasks s4 c) = sint (task_addr lay c)
    \<and> parent (tasks s4 c) = Some par \<and> file_table (tasks s4 c) = file_table (tasks s par)
    \<and> sys_fork lay resume s = do {
        (to, s) \<leftarrow> memory_copy_uvm (ts_cr3 (tss (tasks s par))) s4;
        let s = upd_tss c (\<lambda>r. r\<lparr>ts_cr3 := to\<rparr>) s;
        s \<leftarrow> task_start c s;
        Some (tid (tasks s c), s)
      }"
proof -
  let ?f = "syscall_frame_at (tss (tasks s par))" and ?K = "ts_esp0 (tss (tasks s par)) - MEM_PAGE_SIZE"
  have h: "os_ok s par R S" "find_free_task [0..<TASK_NR] (tasks s) = Some c" "c \<noteq> par"
    "aligned ?K" "?K \<notin> free_pages (paddr_alloc s)" using can by (auto simp: can_fork_def)
  define s1 where "s1 = s\<lparr>task_table_mutex := (task_table_mutex s)\<lparr>locked_count := 0, owner := None\<rparr>\<rparr>"
  have cur: "task_current s = Some par" using h(1) by (simp add: os_ok_def on_cpu_def task_current_def)
  have a: "alloc_task resume s = Some (Some c, s1)"
    using alloc_task_free[of s resume] h(1,2) by (simp add: os_ok_def s1_def)
  define e p where "e = load32 (mem s) (?f + 52)" and "p = load32 (mem s) (?f + 80) + 4 * ucast SYSCALL_PARAM_COUNT"
  obtain s2 stack dir where s2: "task_init lay c (tname (tasks s par)) 0 e p s1 = Some (0, s2)"
    "fork_made s par c R S stack dir s2" "tss (tasks s2 c) = start_tss (start_sels s 0) e p stack dir"
    "tid (tasks s2 c) = sint (task_addr lay c)" "file_table (tasks s2 c) = replicate (nat TASK_OFILE_NR) None"
    "files_ready s2" using fork_creates[OF can, folded s1_def] by blast
  obtain s3 where s3: "copy_opened_files c s2 = Some s3" "fork_made s par c R S stack dir s3"
    "tasks s3 c = (tasks s2 c)\<lparr>file_table := file_table (tasks s par)\<rparr>"
    using fork_shares[OF can s2(2,6,5)] by blast
  define s4 where "s4 = upd_task c (\<lambda>k. k\<lparr>parent := Some par\<rparr>) (upd_tss c (frame_tss (mem s3) ?f) s3)"
  have made: "fork_made s par c R S stack dir s4"
  proof -
    have "refs_ok s3" using s3(2) by (simp add: fork_made_def)
    then have r: "refs_ok (upd_tss c (frame_tss (mem s3) ?f) s3)"
      unfolding upd_tss_def by (subst refs_ok_task) simp_all
    have "fork_made s par c R S stack dir (upd_tss c (frame_tss (mem s3) ?f) s3)"
      using r fork_made_task[OF s3(2)] by (simp add: upd_tss_def)
    note m = fork_made_task[OF this, of "\<lambda>k. k\<lparr>parent := Some par\<rparr>"]
    show ?thesis unfolding s4_def m by (subst refs_ok_task) (simp_all add: r)
  qed
  have kp: "kept (free_pages (paddr_alloc s)) (mem s) (mem s3)" using s3(2) by (simp add: fork_made_def)
  have "tss (tasks s4 c) = frame_tss (mem s3) ?f (start_tss (start_sels s 0) e p stack dir)"
    using s3(3) s2(3) by (simp add: s4_def upd_tss_def upd_task_def)
  also have "\<dots> = child_tss s par stack dir"
    using kept_frame(1)[OF kp h(4,5)] by (simp add: child_tss_def e_def p_def Let_def)
  finally have t: "tss (tasks s4 c) = child_tss s par stack dir" .
  have p4: "tasks s4 par = tasks s par"
  proof -
    have "tasks s4 = (tasks s)(c := tasks s4 c)" using made by (simp add: fork_made_def)
    then show ?thesis using h(3) by (metis fun_upd_other)
  qed
  have "sys_fork lay resume s = do {
        (to, s) \<leftarrow> memory_copy_uvm (ts_cr3 (tss (tasks s par))) s4;
        let s = upd_tss c (\<lambda>r. r\<lparr>ts_cr3 := to\<rparr>) s;
        s \<leftarrow> task_start c s;
        Some (tid (tasks s c), s)
      }"
    using cur a s2(1) s3(1) p4[unfolded s4_def]
    by (simp add: sys_fork_def s1_def e_def p_def s4_def Let_def)
  then show ?thesis using made t s3(3) s2(4)
    by (intro exI[of _ s4] exI[of _ stack] exI[of _ dir]) (simp add: s4_def upd_tss_def upd_task_def)
qed

text \<open>C9: Fork makes a copy of the running process.  When it can (\<open>can_fork\<close>) and there are pages for
  a copy of the parent's address space, the call returns the identifier of the child.  The child is last on the ready queue and starts with the registers
  the parent saved on entering the kernel, except for a 0 as the result of the call; it has the
  parent's open files, every reference counted; in its own address space it reads at every user
  address what the parent reads; the parent and all other tasks are as they were and read what
  they read before.  The pages taken are the child's kernel stack and the pages of its address
  space, and one more: the directory \<^verbatim>\<open>task_init\<close> made for it, which is nowhere any more.\<close>

theorem fork_copies_process:
  fixes s :: "('h, 'w, 'm) os_scheme"
  assumes "can_fork s par c R S"
    and "2 + uvm_pages (mem s) (ts_cr3 (tss (tasks s par))) \<le> card (free_pages (paddr_alloc s))"
  shows "\<exists>s' to stack dir. sys_fork lay resume s = Some (sint (task_addr lay c), s') \<and> to \<noteq> 0
    \<and> sched_rep s' (par # R @ [c]) S \<and> on_cpu s' (par # R @ [c]) \<and> tstate (tasks s' c) = TASK_READY
    \<and> tss (tasks s' c) = child_tss s par stack to \<and> ts_eax (tss (tasks s' c)) = 0
    \<and> tid (tasks s' c) = sint (task_addr lay c) \<and> parent (tasks s' c) = Some par
    \<and> file_table (tasks s' c) = file_table (tasks s par) \<and> refs_ok s'
    \<and> (\<forall>t. t \<noteq> c \<longrightarrow> tasks s' t = tasks s t)
    \<and> (\<forall>va. \<not> va < MEMORY_TASK_BASE \<longrightarrow> vread (s'\<lparr>cr3 := to\<rparr>) va = vread s va \<and> vread s' va = vread s va)
    \<and> stack \<noteq> dir \<and> {stack, dir} \<inter> space_pages (mem s') to = {}
    \<and> free_pages (paddr_alloc s') \<inter> ({stack, dir} \<union> space_pages (mem s') to) = {}
    \<and> free_pages (paddr_alloc s') \<union> {stack, dir} \<union> space_pages (mem s') to = free_pages (paddr_alloc s)"
proof -
  have h: "os_ok s par R S" "find_free_task [0..<TASK_NR] (tasks s) = Some c" "c \<noteq> par" "c \<notin> set R" "c \<notin> set S"
    using assms(1) by (auto simp: can_fork_def)
  obtain s4 stack dir where s4: "fork_made s par c R S stack dir s4" "tss (tasks s4 c) = child_tss s par stack dir"
    "tid (tasks s4 c) = sint (task_addr lay c)" "parent (tasks s4 c) = Some par"
    "file_table (tasks s4 c) = file_table (tasks s par)"
    "sys_fork lay resume s = do {
        (to, s) \<leftarrow> memory_copy_uvm (ts_cr3 (tss (tasks s par))) s4;
        let s = upd_tss c (\<lambda>r. r\<lparr>ts_cr3 := to\<rparr>) s;
        s \<leftarrow> task_start c s;
        Some (tid (tasks s c), s)
      }" using fork_prepares[OF assms(1)] by blast
  obtain to s5 where s5: "memory_copy_uvm (ts_cr3 (tss (tasks s par))) s4 = Some (to, s5)" "to \<noteq> 0" "copy_state s4 s5"
    "\<And>va. \<not> va < MEMORY_TASK_BASE \<Longrightarrow> vread (s5\<lparr>cr3 := to\<rparr>) va = vread s va \<and> vread s5 va = vread s va"
    "free_pages (paddr_alloc s5) \<inter> ({stack, dir} \<union> space_pages (mem s5) to) = {}"
    "{stack, dir} \<inter> space_pages (mem s5) to = {}"
    "free_pages (paddr_alloc s5) \<union> {stack, dir} \<union> space_pages (mem s5) to = free_pages (paddr_alloc s)"
    using fork_copies_space[OF assms(1) s4(1) assms(2)] by blast
  obtain pa m where e5: "s5 = s4\<lparr>paddr_alloc := pa, mem := m\<rparr>" using copy_stateD(5)[OF s5(3)] by blast
  have m4: "stack \<noteq> dir" "tasks s4 = (tasks s)(c := tasks s4 c)" "curr_task s4 = curr_task s" "tr s4 = tr s"
    "refs_ok s4" "sched_rep s4 (par # R) S" using s4(1) by (simp_all add: fork_made_def)
  have o4: "tasks s4 t = tasks s t" if "t \<noteq> c" for t by (subst m4(2)) (use that in simp)
  define s6 where "s6 = upd_tss c (\<lambda>r. r\<lparr>ts_cr3 := to\<rparr>) s5"
  have r6: "sched_rep s6 (par # R) S" using m4(6) by (simp add: s6_def upd_tss_def upd_task_def e5 sched_rep_def)
  obtain s7 where s7: "task_start c s6 = Some s7" "sched_rep s7 (par # R @ [c]) S" "sched_frame s6 s7"
    "tasks s7 = (tasks s6)(c := (tasks s6 c)\<lparr>tstate := TASK_READY\<rparr>)"
    using task_start_ready[OF r6] h(3-5) free_slot(2)[OF h(2)] by auto
  have mo: "sched.more s7 = sched.more s5" using s7(3) by (simp add: sched_frame_def s6_def upd_tss_def upd_task_def)
  have t: "tasks s7 t = (if t = c then (tasks s4 c)\<lparr>tss := child_tss s par stack to, tstate := TASK_READY\<rparr> else tasks s t)" for t
    using s4(2) o4[of t] by (simp add: s7(4) s6_def upd_tss_def upd_task_def e5 child_tss_simps)
  have mm: "mem s7 = mem s5" "paddr_alloc s7 = paddr_alloc s5" "cr3 s7 = cr3 s5" "files s7 = files s4"
  proof -
    have "mem s7 = mem s5 \<and> paddr_alloc s7 = paddr_alloc s5 \<and> cr3 s7 = cr3 s5 \<and> files s7 = files s5"
      using mo by (cases s7, cases s5) simp
    moreover have "files s5 = files s4" by (simp add: e5)
    ultimately show "mem s7 = mem s5" "paddr_alloc s7 = paddr_alloc s5" "cr3 s7 = cr3 s5" "files s7 = files s4"
      by simp_all
  qed
  have rd: "vread (s7\<lparr>cr3 := x\<rparr>) va = vread (s5\<lparr>cr3 := x\<rparr>) va" "vread s7 va = vread s5 va" for x va
    by (simp_all add: vread_def mm)
  have "file_table (tasks s7 t) = file_table (tasks s4 t)" for t
  proof (cases "t = c")
    case False
    then show ?thesis by (simp add: t o4)
  qed (simp add: t)
  then have rf: "refs_ok s7" using m4(5) by (simp add: refs_ok_def fd_refs_def mm(4))
  have "sys_fork lay resume s = Some (sint (task_addr lay c), s7)"
    using s4(3,6) s5(1) s7(1) by (simp add: s6_def[symmetric] Let_def t)
  moreover have "on_cpu s7 (par # R @ [c])"
    using h(1,3) m4(3,4) s7(3) by (simp add: on_cpu_def os_ok_def sched_frame_def s6_def upd_tss_def upd_task_def e5 t)
  ultimately show ?thesis
    using s5(2,4-7) s7(2) s4(3-5) m4(1) rf
    by (intro exI[of _ s7] exI[of _ to] exI[of _ stack] exI[of _ dir]) (simp add: t rd mm child_tss_simps)
qed

text \<open>Fork without memory: when the new task takes the last two pages, the failed copy goes
  unnoticed.  The call returns the child's identifier, and the child is on the ready queue with
  page directory 0.\<close>

lemma fork_without_memory:
  fixes s :: "('h, 'w, 'm) os_scheme"
  assumes can: "can_fork s par c R S" and n: "card (free_pages (paddr_alloc s)) = 2"
  shows "\<exists>s'. sys_fork lay resume s = Some (sint (task_addr lay c), s')
    \<and> sched_rep s' (par # R @ [c]) S \<and> ts_cr3 (tss (tasks s' c)) = 0"
proof -
  have h: "find_free_task [0..<TASK_NR] (tasks s) = Some c" "c \<noteq> par" "c \<notin> set R" "c \<notin> set S"
    using can by (auto simp: can_fork_def)
  obtain s4 stack dir where s4: "fork_made s par c R S stack dir s4" "tss (tasks s4 c) = child_tss s par stack dir"
    "tid (tasks s4 c) = sint (task_addr lay c)"
    "sys_fork lay resume s = do {
        (to, s) \<leftarrow> memory_copy_uvm (ts_cr3 (tss (tasks s par))) s4;
        let s = upd_tss c (\<lambda>r. r\<lparr>ts_cr3 := to\<rparr>) s;
        s \<leftarrow> task_start c s;
        Some (tid (tasks s c), s)
      }" using fork_prepares[OF can] by blast
  have m: "mm_pool_ok s4" "sched_rep s4 (par # R) S" "{stack, dir} \<subseteq> free_pages (paddr_alloc s)" "stack \<noteq> dir"
    "free_pages (paddr_alloc s4) = free_pages (paddr_alloc s) - {stack, dir}" using s4(1) by (simp_all add: fork_made_def)
  have "card (free_pages (paddr_alloc s) - {stack, dir}) = 0" using n m(3,4) by (simp add: card_Diff_subset)
  then have f: "free_pages (paddr_alloc s4) = {}" unfolding m(5) by (simp only: card_0_eq finite)
  obtain p s5 where a: "page_alloc s4 = Some (p, s5)" using page_alloc_pool[OF m(1)] by blast
  have "p = 0" using pp.alloc_some(4)[OF m(1) a] f by simp
  note c = copy_no_page[OF m(1) a[unfolded this]]
  obtain pa q where e5: "s5 = s4\<lparr>paddr_alloc := pa, mem := q\<rparr>" using copy_stateD(5)[OF c(2)] by blast
  let ?s6 = "upd_tss c (\<lambda>r. r\<lparr>ts_cr3 := 0\<rparr>) s5"
  have "sched_rep ?s6 (par # R) S" using m(2) by (simp add: upd_tss_def upd_task_def e5 sched_rep_def)
  then obtain s7 where "task_start c ?s6 = Some s7" "sched_rep s7 (par # R @ [c]) S"
    "tasks s7 = (tasks ?s6)(c := (tasks ?s6 c)\<lparr>tstate := TASK_READY\<rparr>)"
    using task_start_ready[of ?s6 "par # R" S c] h free_slot(2)[OF h(1)] by auto
  then show ?thesis
    using s4(3,4) c(1) by (intro exI[of _ s7]) (simp add: Let_def e5 upd_tss_def upd_task_def)
qed

text \<open>A process with one page that forks, with exactly the pages it needs.\<close>

definition fork_os :: "(unit, unit) os" where
  "fork_os = life_os\<lparr>mem := demo_bytes, paddr_alloc := paddr_alloc demo_parent,
     tasks := life_task(Table_task 1 := (life_task (Table_task 1))\<lparr>tss := blank_tss\<lparr>ts_cr3 := 0x100000, ts_esp0 := 0x31000\<rparr>\<rparr>)\<rparr>"

lemma fork_os_task: "tss (tasks fork_os (Table_task 1)) = blank_tss\<lparr>ts_cr3 := 0x100000, ts_esp0 := 0x31000\<rparr>"
  "file_table (tasks fork_os t) = file_table (life_task t)" "tstate (tasks fork_os t) = tstate (life_task t)"
  "tss_sel (tasks fork_os t) = tss_sel (life_task t)" "tname (tasks fork_os (Table_task 0)) = []"
  by (simp_all add: fork_os_def life_task_def blank_task_def)

lemma fork_os_ok: "os_ok fork_os (Table_task 1) [Table_task 2] []"
proof -
  have l: "os_ok life_os (Table_task 1) [Table_task 2] []" by (rule life_os_ok)
  have "refs_ok fork_os"
    using l unfolding os_ok_def files_sound_def refs_ok_def fd_refs_def fork_os_task(2)
    by (simp add: fork_os_def)
  moreover have "sched_rep fork_os [Table_task 1, Table_task 2] []" "mutex_free (task_table_mutex fork_os) fork_os"
    "files_ready fork_os" "\<forall>i. fs_ready i fork_os" "files_fs fork_os"
    using l by (simp_all add: os_ok_def files_sound_def fork_os_def sched_rep_def mutex_free_def files_ready_def
        fs_ready_def files_fs_def)
  moreover have "on_cpu fork_os [Table_task 1, Table_task 2]"
    using l unfolding os_ok_def on_cpu_def runner_simps fork_os_task(4) by (simp add: fork_os_def)
  moreover have "waiters_off fork_os {Table_task 1, Table_task 2}"
    using l unfolding os_ok_def waiters_off_def fork_os_task(3) by simp
  ultimately show ?thesis by (simp add: os_ok_def files_sound_def)
qed

lemma fork_os_source: "copy_source fork_os 0x100000"
proof -
  have "mem fork_os = mem demo_parent" "paddr_alloc fork_os = paddr_alloc demo_parent" "cr3 fork_os = cr3 demo_parent"
    "kernel_page_dir fork_os = kernel_page_dir demo_parent" "wait_links fork_os = wait_links demo_parent"
    by (simp_all add: fork_os_def demo_parent_def life_defs)
  then show ?thesis using demo_parent_source
    by (simp add: copy_source_def mm_pool_ok_def pool_ok_def)
qed

lemma fork_os_can: "can_fork fork_os (Table_task 1) (Table_task 0) [Table_task 2] []"
proof -
  have f: "find_free_task [0..<TASK_NR] (tasks fork_os) = Some (Table_task 0)"
  proof -
    have "[0..<TASK_NR] = 0 # [Suc 0..<TASK_NR]" by (rule upt_conv_Cons) (simp add: TASK_NR_def)
    then show ?thesis by (simp add: fork_os_task(5))
  qed
  have d: "find_free_desc 1 (drop 1 (gdt_table fork_os)) = Some 1"
  proof -
    have "gdt_table fork_os = replicate GDT_TABLE_SIZE (segment_desc 0 0 0)" by (simp add: fork_os_def life_defs)
    moreover have "(255 :: nat) = Suc 254" by simp
    then have "replicate 255 x = x # replicate 254 x" for x :: segment_desc_t by (simp only: replicate_Suc)
    ultimately show ?thesis by (simp add: GDT_TABLE_SIZE_def segment_desc_def)
  qed
  have L: "dll (all_links fork_os) (task_list fork_os) [Table_task 3, Table_task 2]"
    by (simp add: fork_os_def life_defs dll_def)
  have g: "mutex_free (gdt_mutex fork_os) fork_os"
    by (simp add: fork_os_def life_defs mutex_free_def dll_def blank_list_def)
  have K: "0x30000 \<notin> free_pages (paddr_alloc fork_os)"
    using demo_free(2)[of "0x30000"] by (auto simp: fork_os_def)
  show ?thesis
    unfolding can_fork_def fork_os_task(1,2)
    using fork_os_ok f d g K fork_os_source demo_parent_need L
    by (auto simp: all_tasks_def life_table TASK_OFILE_NR_def MEM_PAGE_SIZE_def fork_os_def intro!: exI[of _ "[Table_task 3, Table_task 2]"])
qed

lemma fork_os_pages:
  "2 + uvm_pages (mem fork_os) (ts_cr3 (tss (tasks fork_os (Table_task 1)))) \<le> card (free_pages (paddr_alloc fork_os))"
  using demo_parent_need unfolding fork_os_task(1) by (simp add: fork_os_def)

theorem fork_copies_process_witness:
  "\<exists>s' to. sys_fork demo_layout Some fork_os = Some (0x30000, s') \<and> to \<noteq> 0
    \<and> vread (s'\<lparr>cr3 := to\<rparr>) 0x80000005 = Some 42 \<and> vread s' 0x80000005 = Some 42
    \<and> ts_eax (tss (tasks s' (Table_task 0))) = 0 \<and> ts_cr3 (tss (tasks s' (Table_task 0))) = to
    \<and> parent (tasks s' (Table_task 0)) = Some (Table_task 1)
    \<and> sched_rep s' [Table_task 1, Table_task 2, Table_task 0] []"
proof -
  have "vread fork_os 0x80000005 = vread demo_parent 0x80000005"
    by (simp add: vread_def fork_os_def demo_parent_def life_defs)
  then have b: "vread fork_os 0x80000005 = Some 42" using demo_parent_byte by simp
  have u: "\<not> (0x80000005 :: u32) < MEMORY_TASK_BASE" by (simp add: MEMORY_TASK_BASE_def)
  have i: "sint (task_addr demo_layout (Table_task 0)) = 0x30000" by (simp add: demo_layout_def)
  obtain s' to stack where "sys_fork demo_layout Some fork_os = Some (sint (task_addr demo_layout (Table_task 0)), s')"
    "to \<noteq> 0" "sched_rep s' (Table_task 1 # [Table_task 2] @ [Table_task 0]) []"
    "tss (tasks s' (Table_task 0)) = child_tss fork_os (Table_task 1) stack to" "ts_eax (tss (tasks s' (Table_task 0))) = 0"
    "parent (tasks s' (Table_task 0)) = Some (Table_task 1)"
    "\<forall>va. \<not> va < MEMORY_TASK_BASE \<longrightarrow> vread (s'\<lparr>cr3 := to\<rparr>) va = vread fork_os va \<and> vread s' va = vread fork_os va"
    using fork_copies_process[OF fork_os_can fork_os_pages, of demo_layout Some] by blast
  then show ?thesis unfolding i using b u
    by (intro exI[of _ s'] exI[of _ to]) (simp add: child_tss_simps)
qed

end
