(* ===== verification/Trap.thy ===== *)
theory Trap
  imports Taskprops Create Time
begin

text \<open>
  The ways into the kernel: the clock interrupt (\<^verbatim>\<open>kernel/dev/clock.c\<close>), the exceptions of the
  processor (\<^verbatim>\<open>kernel/cpu/irq.c\<close>) and the system-call gate (\<^verbatim>\<open>kernel/core/syscall.c\<close>).

  A handler returns the lines it logs, as the arguments of \<^verbatim>\<open>log_printf\<close>, beside the state it
  leaves; what a line does to the screen is in theory \<open>Log\<close>.  A handler that halts for ever
  has no state (\<open>None\<close>).
\<close>

section \<open>Log lines\<close>

datatype log_arg = LInt u32 | LStr string | LName "u8 list"

type_synonym log_line = "string \<times> log_arg list"

definition crlf :: string where
  "crlf = [CHR 0x0D, CHR 0x0A]"

definition tab :: string where
  "tab = [CHR 0x09]"

section \<open>The clock\<close>

record ('h, 'w) kernel = "('h, 'w) os" +
  sys_tick :: u32

definition PIT_OSC_FREQ :: u32 where "PIT_OSC_FREQ = 1193182"
definition PIT_COMMAND_MODE_PORT :: u16 where "PIT_COMMAND_MODE_PORT = 0x43"
definition PIT_CHANNEL0_DATA_PORT :: u16 where "PIT_CHANNEL0_DATA_PORT = 0x40"
definition PIT_CHANNEL2_DATA_PORT :: u16 where "PIT_CHANNEL2_DATA_PORT = 0x42"
definition BEEP_HZ :: u32 where "BEEP_HZ = 440"
definition BEEP_CHANNLE :: u8 where "BEEP_CHANNLE = push_bit 6 2"
definition PIT_CHANNLE :: u8 where "PIT_CHANNLE = push_bit 6 0"
definition PIT_LOAD_LOHI :: u8 where "PIT_LOAD_LOHI = push_bit 4 3"
definition PIT_MODE3 :: u8 where "PIT_MODE3 = push_bit 1 3"
definition IRQ0_TIMER :: int where "IRQ0_TIMER = 0x20"

definition get_sys_tick :: "('h, 'w, 'm) kernel_scheme \<Rightarrow> u32" where
  "get_sys_tick s = sys_tick s"

definition do_handle_clock :: "'h ports \<Rightarrow> ('h, 'w, 'm) kernel_scheme \<Rightarrow> ('h, 'w, 'm) kernel_scheme option" where
  "do_handle_clock io s =
    (let s = s\<lparr>sys_tick := sys_tick s + 1\<rparr>;
         s = pic_send_eoi io IRQ0_TIMER s
     in task_time_tick s)"

definition init_pit :: "'h ports \<Rightarrow> u32 \<Rightarrow> ('h, 'm) cpu_scheme \<Rightarrow> ('h, 'm) cpu_scheme option" where
  "init_pit io clock_entry s =
    (let reload_count = PIT_OSC_FREQ * OS_TICKS_MS div 1000;
         s = outb io PIT_COMMAND_MODE_PORT (PIT_CHANNLE OR PIT_LOAD_LOHI OR PIT_MODE3) s;
         s = outb io PIT_CHANNEL0_DATA_PORT (ucast (reload_count AND 0xFF)) s;
         s = outb io PIT_CHANNEL0_DATA_PORT (ucast (drop_bit 8 reload_count AND 0xFF)) s;
         beep_count = PIT_OSC_FREQ div BEEP_HZ;
         s = outb io PIT_COMMAND_MODE_PORT (BEEP_CHANNLE OR PIT_LOAD_LOHI OR PIT_MODE3) s;
         s = outb io PIT_CHANNEL2_DATA_PORT (ucast beep_count) s;
         s = outb io PIT_CHANNEL2_DATA_PORT (ucast (drop_bit 8 beep_count)) s
     in do {
       (_, s) \<leftarrow> irq_install IRQ0_TIMER clock_entry s;
       Some (irq_enable io IRQ0_TIMER s)
     })"

definition clock_init :: "'h ports \<Rightarrow> u32 \<Rightarrow> ('h, 'w, 'm) kernel_scheme \<Rightarrow> ('h, 'w, 'm) kernel_scheme option" where
  "clock_init io clock_entry s = init_pit io clock_entry (s\<lparr>sys_tick := 0\<rparr>)"

section \<open>Exceptions\<close>

record exception_frame =
  ef_gs :: u32
  ef_fs :: u32
  ef_es :: u32
  ef_ds :: u32
  ef_edi :: u32
  ef_esi :: u32
  ef_ebp :: u32
  ef_esp :: u32
  ef_ebx :: u32
  ef_edx :: u32
  ef_ecx :: u32
  ef_eax :: u32
  ef_num :: u32
  ef_error_code :: u32
  ef_eip :: u32
  ef_cs :: u32
  ef_eflags :: u32
  ef_esp3 :: u32
  ef_ss3 :: u32

definition ERR_PAGE_P :: u32 where "ERR_PAGE_P = 1"
definition ERR_PAGE_WR :: u32 where "ERR_PAGE_WR = 2"
definition ERR_PAGE_US :: u32 where "ERR_PAGE_US = 2"
definition ERR_EXT :: u32 where "ERR_EXT = 1"
definition ERR_IDT :: u32 where "ERR_IDT = 2"

definition dump_core_regs :: "exception_frame \<Rightarrow> log_line list" where
  "dump_core_regs frame =
    (let (ss, esp) = (if ef_cs frame AND 3 \<noteq> 0 then (ef_ss3 frame, ef_esp3 frame) else (ef_ds frame, ef_esp frame))
     in [(''IRQ: %d, error code: %d.'', [LInt (ef_num frame), LInt (ef_error_code frame)]),
         (''CS: %d'' @ crlf @ ''DS: %d'' @ crlf @ ''ES: %d'' @ crlf @ ''SS: %d'' @ crlf @ ''FS:%d'' @ crlf @ ''GS:%d'',
          map LInt [ef_cs frame, ef_ds frame, ef_es frame, ss, ef_fs frame, ef_gs frame]),
         (''EAX:0x%x'' @ crlf @ ''EBX:0x%x'' @ crlf @ ''ECX:0x%x'' @ crlf @ ''EDX:0x%x'' @ crlf
            @ ''EDI:0x%x'' @ crlf @ ''ESI:0x%x'' @ crlf @ ''EBP:0x%x'' @ crlf @ ''ESP:0x%x'' @ crlf,
          map LInt [ef_eax frame, ef_ebx frame, ef_ecx frame, ef_edx frame, ef_edi frame, ef_esi frame, ef_ebp frame, esp]),
         (''EIP:0x%x'' @ crlf @ ''EFLAGS:0x%x'' @ crlf, map LInt [ef_eip frame, ef_eflags frame])])"

text \<open>How every handler ends: a fault of a program ends the program, one of the kernel halts.\<close>

definition fault_end ::
    "'w fs_ops \<Rightarrow> 'w mem_view \<Rightarrow> ('h, 'w, 'm) os_scheme resume \<Rightarrow> exception_frame \<Rightarrow> ('h, 'w, 'm) os_scheme \<Rightarrow> ('h, 'w, 'm) os_scheme option" where
  "fault_end ops view resume frame s =
    (if ef_cs frame AND 3 \<noteq> 0 then sys_exit ops view resume (sint (ef_error_code frame)) s else None)"

definition do_default_handle ::
    "'w fs_ops \<Rightarrow> 'w mem_view \<Rightarrow> ('h, 'w, 'm) os_scheme resume \<Rightarrow> exception_frame \<Rightarrow> string \<Rightarrow> ('h, 'w, 'm) os_scheme
     \<Rightarrow> log_line list \<times> ('h, 'w, 'm) os_scheme option" where
  "do_default_handle ops view resume frame msg s =
    ((''[ERROR] - IRQ Exception happend: %s '', [LStr msg]) # dump_core_regs frame, fault_end ops view resume frame s)"

definition general_protection_report :: "exception_frame \<Rightarrow> log_line list" where
  "general_protection_report frame =
    [(''IRQ/Exception happend: General Protection.'', []),
     (if ef_error_code frame AND ERR_EXT \<noteq> 0
      then ''the exception occurred during delivery of an event external to the program, such as an interruptor an earlier exception.''
      else ''the exception occurred during delivery of asoftware interrupt (INT n, INT3, or INTO).'', []),
     (if ef_error_code frame AND ERR_IDT \<noteq> 0
      then ''the index portion of the error code refers to a gate descriptor in the IDT''
      else ''the index refers to a descriptor in the GDT'', []),
     (''segment index: %d'', [LInt (ef_error_code frame AND 0xFFF8)])]
    @ dump_core_regs frame"

definition page_fault_report :: "u32 \<Rightarrow> exception_frame \<Rightarrow> log_line list" where
  "page_fault_report cr2 frame =
    [(''IRQ/Exception happend: Page fault.'', []),
     (if ef_error_code frame AND ERR_PAGE_P \<noteq> 0
      then (tab @ ''page-level protection violation: 0x%x.'', [LInt cr2])
      else (tab @ ''Page doesn'' @ [CHR 0x27] @ ''t present 0x%x'', [LInt cr2])),
     (tab @ (if ef_error_code frame AND ERR_PAGE_WR \<noteq> 0 then ''The access causing the fault was a read.''
             else ''The access causing the fault was a write.''), []),
     (tab @ (if ef_error_code frame AND ERR_PAGE_US \<noteq> 0 then ''A supervisor-mode access caused the fault.''
             else ''A user-mode access caused the fault.''), [])]
    @ dump_core_regs frame"

definition do_handle_general_protection ::
    "'w fs_ops \<Rightarrow> 'w mem_view \<Rightarrow> ('h, 'w, 'm) os_scheme resume \<Rightarrow> exception_frame \<Rightarrow> ('h, 'w, 'm) os_scheme
     \<Rightarrow> log_line list \<times> ('h, 'w, 'm) os_scheme option" where
  "do_handle_general_protection ops view resume frame s =
    (general_protection_report frame, fault_end ops view resume frame s)"

definition do_handle_page_fault ::
    "'w fs_ops \<Rightarrow> 'w mem_view \<Rightarrow> ('h, 'w, 'm) os_scheme resume \<Rightarrow> u32 \<Rightarrow> exception_frame \<Rightarrow> ('h, 'w, 'm) os_scheme
     \<Rightarrow> log_line list \<times> ('h, 'w, 'm) os_scheme option" where
  "do_handle_page_fault ops view resume cr2 frame s =
    (page_fault_report cr2 frame, fault_end ops view resume frame s)"

text \<open>The other handlers differ in their text alone.\<close>

fun late_exception_text :: "exception \<Rightarrow> string" where
  "late_exception_text E_fpu_error = ''X87 FPU Floating Point Error.''"
| "late_exception_text E_alignment_check = ''Alignment Check.''"
| "late_exception_text E_machine_check = ''Machine Check.''"
| "late_exception_text E_smd_exception = ''SIMD Floating Point Exception.''"
| "late_exception_text E_virtual_exception = ''Virtualization Exception.''"
| "late_exception_text E_control_exception = ''Control Exception.''"
| "late_exception_text _ = []"

fun exception_text :: "exception \<Rightarrow> string" where
  "exception_text E_unknown = ''unknow exeption''"
| "exception_text E_divide = ''divide exeption''"
| "exception_text E_Debug = ''Debug Exception''"
| "exception_text E_NMI = ''NMI Interrupt.''"
| "exception_text E_breakpoint = ''Breakpoint.''"
| "exception_text E_overflow = ''Overflow.''"
| "exception_text E_bound_range = ''BOUND Range Exceeded.''"
| "exception_text E_invalid_opcode = ''Invalid Opcode.''"
| "exception_text E_device_unavailable = ''Device Not Available.''"
| "exception_text E_double_fault = ''Double Fault.''"
| "exception_text E_invalid_tss = ''Invalid TSS''"
| "exception_text E_segment_not_present = ''Segment Not Present.''"
| "exception_text E_stack_segment_fault = ''Stack-Segment Fault.''"
| "exception_text e = late_exception_text e"

definition do_handle ::
    "'w fs_ops \<Rightarrow> 'w mem_view \<Rightarrow> ('h, 'w, 'm) os_scheme resume \<Rightarrow> exception \<Rightarrow> u32 \<Rightarrow> exception_frame \<Rightarrow> ('h, 'w, 'm) os_scheme
     \<Rightarrow> log_line list \<times> ('h, 'w, 'm) os_scheme option" where
  "do_handle ops view resume e cr2 frame s =
    (case e of
       E_general_protection \<Rightarrow> do_handle_general_protection ops view resume frame s
     | E_page_fault \<Rightarrow> do_handle_page_fault ops view resume cr2 frame s
     | _ \<Rightarrow> do_default_handle ops view resume frame (exception_text e) s)"

section \<open>System calls\<close>

definition SYS_SLEEP :: u32 where "SYS_SLEEP = 0"
definition SYS_GETPID :: u32 where "SYS_GETPID = 1"
definition SYS_EXECVE :: u32 where "SYS_EXECVE = 2"
definition SYS_FORK :: u32 where "SYS_FORK = 3"
definition SYS_YEILD :: u32 where "SYS_YEILD = 4"
definition SYS_EXIT :: u32 where "SYS_EXIT = 5"
definition SYS_WAIT :: u32 where "SYS_WAIT = 6"
definition SYS_OPEN :: u32 where "SYS_OPEN = 50"
definition SYS_READ :: u32 where "SYS_READ = 51"
definition SYS_WRITE :: u32 where "SYS_WRITE = 52"
definition SYS_CLOSE :: u32 where "SYS_CLOSE = 53"
definition SYS_LSEEK :: u32 where "SYS_LSEEK = 54"
definition SYS_ISATTY :: u32 where "SYS_ISATTY = 55"
definition SYS_FSTAT :: u32 where "SYS_FSTAT = 56"
definition SYS_SBRK :: u32 where "SYS_SBRK = 57"
definition SYS_DUP :: u32 where "SYS_DUP = 58"
definition SYS_IOCTL :: u32 where "SYS_IOCTL = 59"
definition SYS_OPENDIR :: u32 where "SYS_OPENDIR = 60"
definition SYS_READDIR :: u32 where "SYS_READDIR = 61"
definition SYS_CLOSEDIR :: u32 where "SYS_CLOSEDIR = 62"
definition SYS_UNLINK :: u32 where "SYS_UNLINK = 63"
definition SYS_PRINT_MSG :: u32 where "SYS_PRINT_MSG = 100"
definition SYS_GETTIMEOFDAY :: u32 where "SYS_GETTIMEOFDAY = 120"
definition SYS_GMTIME_R :: u32 where "SYS_GMTIME_R = 121"
definition SYS_POWER :: u32 where "SYS_POWER = 200"
definition SYS_SAVE_HISTORY :: u32 where "SYS_SAVE_HISTORY = 201"
definition SYS_GET_HISTORY :: u32 where "SYS_GET_HISTORY = 202"

definition SYS_REBOOT :: int where "SYS_REBOOT = 1"

text \<open>The number of entries of the table: one more than the largest index.\<close>

definition SYS_TABLE_SIZE :: u32 where "SYS_TABLE_SIZE = 203"

text \<open>
  What the calls take from outside: the ports, the file-system table, the layout, the states
  in which blocked callers resume, and the processor's view of memory through a page
  directory for the drivers (\<open>u_in\<close> and \<open>u_out\<close>).  The calls that pass structures through user
  pointers (directories, dates, history) are \<open>e_rest\<close>; their kernel side is in the theories \<open>Vfs\<close>,
  \<open>Time\<close> and \<open>History\<close>.  \<open>e_noret\<close> is what a call without a result leaves in the result register.
\<close>

record ('h, 'w, 's) sys_env =
  e_io :: "'h ports"
  e_ops :: "'w fs_ops"
  e_view :: "'w mem_view"
  e_lay :: layout
  e_resume :: "'s resume"
  u_in :: "u32 \<Rightarrow> memory \<Rightarrow> 'w \<Rightarrow> 'w"
  u_out :: "u32 \<Rightarrow> 'w \<Rightarrow> memory \<Rightarrow> memory"
  e_noret :: u32
  e_rest :: "u32 \<Rightarrow> u32 \<Rightarrow> u32 \<Rightarrow> u32 \<Rightarrow> u32 \<Rightarrow> 's \<Rightarrow> (u32 \<times> 's) option"

type_synonym 's handler = "u32 \<Rightarrow> u32 \<Rightarrow> u32 \<Rightarrow> u32 \<Rightarrow> 's \<Rightarrow> (log_line list \<times> u32 \<times> 's) option"

partial_function (option) vstring :: "u32 \<Rightarrow> 'm mm_scheme \<Rightarrow> u8 list option" where
  "vstring a s = do { b \<leftarrow> vread s a; if b = 0 then Some [] else do { r \<leftarrow> vstring (a + 1) s; Some (b # r) } }"

definition with_user :: "('h, 'w, ('h, 'w, 'm) os_scheme) sys_env \<Rightarrow> (('h, 'w, 'm) os_scheme \<Rightarrow> ('a \<times> ('h, 'w, 'm) os_scheme) option)
    \<Rightarrow> ('h, 'w, 'm) os_scheme \<Rightarrow> ('a \<times> ('h, 'w, 'm) os_scheme) option" where
  "with_user e call s =
    do {
      (r, s) \<leftarrow> call (s\<lparr>world := u_in e (cr3 s) (mem s) (world s)\<rparr>);
      Some (r, s\<lparr>mem := u_out e (cr3 s) (world s) (mem s)\<rparr>)
    }"

definition quiet :: "(int \<times> 's) option \<Rightarrow> (log_line list \<times> u32 \<times> 's) option" where
  "quiet r = map_option (\<lambda>(x, s). ([], word_of_int x, s)) r"

definition sys_power :: "'h ports \<Rightarrow> int \<Rightarrow> ('h, 'm) cpu_scheme \<Rightarrow> int \<times> ('h, 'm) cpu_scheme" where
  "sys_power io st s = (0, if st = SYS_REBOOT then outb io 0x64 0xFE s else s)"

definition sys_print_msg :: "u8 list \<Rightarrow> u32 \<Rightarrow> log_line list" where
  "sys_print_msg fmt arg = [(map (\<lambda>b. char_of (unat b)) fmt, [LInt arg])]"

definition sys_table ::
    "('h, 'w, ('h, 'w, 'm) os_scheme) sys_env \<Rightarrow> u32 \<Rightarrow> ('h, 'w, 'm) os_scheme handler option" where
  "sys_table e nr =
    (if nr = SYS_SLEEP then Some (\<lambda>a0 a1 a2 a3 s. quiet (map_option (Pair (uint (e_noret e))) (sys_sleep a0 s)))
     else if nr = SYS_GETPID then Some (\<lambda>a0 a1 a2 a3 s. quiet (map_option (\<lambda>r. (r, s)) (sys_getpid s)))
     else if nr = SYS_FORK then Some (\<lambda>a0 a1 a2 a3 s. quiet (sys_fork (e_lay e) (e_resume e) s))
     else if nr = SYS_PRINT_MSG
       then Some (\<lambda>a0 a1 a2 a3 s. do { fmt \<leftarrow> vstring a0 s; Some (sys_print_msg fmt a1, e_noret e, s) })
     else if nr = SYS_EXECVE
       then Some (\<lambda>a0 a1 a2 a3 s. do { name \<leftarrow> vstring a0 s; quiet (sys_execve (e_ops e) (e_view e) (e_lay e) name a1 s) })
     else if nr = SYS_YEILD then Some (\<lambda>a0 a1 a2 a3 s. quiet (sys_yeild s))
     else if nr = SYS_EXIT
       then Some (\<lambda>a0 a1 a2 a3 s. quiet (map_option (Pair (uint (e_noret e))) (sys_exit (e_ops e) (e_view e) (e_resume e) (sint a0) s)))
     else if nr = SYS_WAIT then Some (\<lambda>a0 a1 a2 a3 s. quiet (sys_wait (e_resume e) a0 s))
     else if nr = SYS_OPEN
       then Some (\<lambda>a0 a1 a2 a3 s. do { name \<leftarrow> vstring a0 s; quiet (with_user e (sys_open (e_ops e) name (sint a1)) s) })
     else if nr = SYS_READ
       then Some (\<lambda>a0 a1 a2 a3 s. quiet (with_user e (sys_read (e_ops e) (sint a0) a1 (sint a2)) s))
     else if nr = SYS_WRITE
       then Some (\<lambda>a0 a1 a2 a3 s. quiet (with_user e (sys_write (e_ops e) (sint a0) a1 (sint a2)) s))
     else if nr = SYS_CLOSE then Some (\<lambda>a0 a1 a2 a3 s. quiet (with_user e (sys_close (e_ops e) (sint a0)) s))
     else if nr = SYS_LSEEK then Some (\<lambda>a0 a1 a2 a3 s. quiet (with_user e (sys_lseek (e_ops e) (sint a0) (sint a1) (sint a2)) s))
     else if nr = SYS_IOCTL
       then Some (\<lambda>a0 a1 a2 a3 s. quiet (with_user e (sys_ioctl (e_ops e) (sint a0) (sint a1) (sint a2) (sint a3)) s))
     else if nr = SYS_ISATTY then Some (\<lambda>a0 a1 a2 a3 s. quiet (map_option (\<lambda>r. (r, s)) (sys_isatty (sint a0) s)))
     else if nr = SYS_FSTAT then Some (\<lambda>a0 a1 a2 a3 s. quiet (sys_fstat (sint a0) s))
     else if nr = SYS_SBRK then Some (\<lambda>a0 a1 a2 a3 s. map_option (Pair []) (sys_sbrk (sint a0) s))
     else if nr = SYS_DUP then Some (\<lambda>a0 a1 a2 a3 s. quiet (sys_dup (sint a0) s))
     else if nr = SYS_UNLINK
       then Some (\<lambda>a0 a1 a2 a3 s. do { path \<leftarrow> vstring a0 s; quiet (with_user e (sys_unlink (e_ops e) path) s) })
     else if nr = SYS_POWER then Some (\<lambda>a0 a1 a2 a3 s. quiet (Some (sys_power (e_io e) (sint a0) s)))
     else if nr \<in> {SYS_OPENDIR, SYS_READDIR, SYS_CLOSEDIR, SYS_GETTIMEOFDAY, SYS_GMTIME_R, SYS_SAVE_HISTORY, SYS_GET_HISTORY}
       then Some (\<lambda>a0 a1 a2 a3 s. map_option (Pair []) (e_rest e nr a0 a1 a2 a3 s))
     else None)"

text \<open>
  Reading the table: the positions the code does not list are null pointers, a position beyond
  the array is a fault.
\<close>

definition sys_table_entry ::
    "('h, 'w, ('h, 'w, 'm) os_scheme) sys_env \<Rightarrow> u32 \<Rightarrow> ('h, 'w, 'm) os_scheme handler option option" where
  "sys_table_entry e nr = (if nr < SYS_TABLE_SIZE then Some (sys_table e nr) else None)"

text \<open>
  The call number and the arguments are read from the frame on the kernel stack, and the
  result is written there.  A call that ended in another task's context writes its result
  when its caller runs again.
\<close>

definition set_eax :: "u32 \<Rightarrow> u32 \<Rightarrow> 'm mm_scheme \<Rightarrow> 'm mm_scheme" where
  "set_eax f v s = s\<lparr>mem := store32 (mem s) (f + 48) v\<rparr>"

definition frame_func :: "u32 \<Rightarrow> 'm mm_scheme \<Rightarrow> u32" where
  "frame_func f s = load32 (mem s) (f + 60)"

definition frame_arg :: "u32 \<Rightarrow> u32 \<Rightarrow> 'm mm_scheme \<Rightarrow> u32" where
  "frame_arg f i s = load32 (mem s) (f + 64 + 4 * i)"

definition handle_syscall ::
    "('h, 'w, ('h, 'w, 'm) os_scheme) sys_env \<Rightarrow> u32 \<Rightarrow> ('h, 'w, 'm) os_scheme
     \<Rightarrow> (log_line list \<times> ('h, 'w, 'm) os_scheme) option" where
  "handle_syscall e f s =
    (let me = curr_task s; func_id = frame_func f s
     in do {
          handler \<leftarrow> (if func_id < SYS_TABLE_SIZE then sys_table_entry e func_id else Some None);
          case handler of
            Some h \<Rightarrow> do {
              (lines, ret, s) \<leftarrow> h (frame_arg f 0 s) (frame_arg f 1 s) (frame_arg f 2 s) (frame_arg f 3 s) s;
              Some (lines, if curr_task s = me then set_eax f ret s else s)
            }
          | None \<Rightarrow> do {
              t \<leftarrow> task_current s;
              Some ([(''task: %s, Unknown syscall: %d'', [LName (tname (tasks s t)), LInt func_id])], set_eax f (- 1) s)
            }
        })"

section \<open>What a fault does\<close>

lemma do_handle_end: "snd (do_handle ops view resume e cr2 frame s) = fault_end ops view resume frame s"
  by (cases e) (simp_all add: do_handle_def do_default_handle_def do_handle_general_protection_def do_handle_page_fault_def)

text \<open>C13: A fault of a program ends that program and nothing else; a fault of the kernel halts.  Whatever
  the exception, when the saved code selector is that of a program the handler ends the running
  task with the error code, as its own exit would: its files are closed, the ready queue loses
  it and gains exactly those who waited for it.  With the kernel's code selector the handler
  never returns.  As for exit, the file systems meet the contract \<open>fs_closing\<close>.
\<close>

theorem fault_ends_program:
  assumes "fs_closing ops view A I" and "os_ok s c R S" and "closable view A I s" and "c \<in> set all_tasks"
    and "parent (tasks s c) = Some p" and "p \<noteq> c"
  shows "if ef_cs frame AND 3 \<noteq> 0
    then \<exists>s'. snd (do_handle ops view resume e cr2 frame s) = Some s'
      \<and> sched_rep s' (R @ exit_woken s (has_zombie [0..<TASK_NR] c s) p) S
      \<and> tstate (tasks s' c) = TASK_ZOMBIE \<and> status (tasks s' c) = sint (ef_error_code frame)
      \<and> (\<forall>fd < nat TASK_OFILE_NR. file_table (tasks s' c) ! fd = None)
    else snd (do_handle ops view resume e cr2 frame s) = None"
  unfolding do_handle_end fault_end_def
  using fs_closing.sys_exit_ok[OF assms, of resume "sint (ef_error_code frame)"] by auto

definition demo_frame :: exception_frame where
  "demo_frame = \<lparr>ef_gs = 0, ef_fs = 0, ef_es = 0, ef_ds = 0, ef_edi = 0, ef_esi = 0, ef_ebp = 0, ef_esp = 0, ef_ebx = 0,
     ef_edx = 0, ef_ecx = 0, ef_eax = 0, ef_num = 14, ef_error_code = 6, ef_eip = 0, ef_cs = 0x1B, ef_eflags = 0,
     ef_esp3 = 0, ef_ss3 = 0\<rparr>"

text \<open>The faulting program has a file of the FAT volume open.\<close>

lemma fat_closable: "closable fat_view (kdisk.kernel_file 1) (\<lambda>s. part.vol_ok 1 s \<and> devs_ok demo_descs s)
    (life_open demo_vol (fmem demo_vol) fat_file)"
proof -
  have "set_fmem (fmem demo_vol) demo_vol = demo_vol" by (simp add: set_fmem_def fmem_def)
  then have "set_mem fat_view (fmem demo_vol) demo_vol = demo_vol" by (simp add: fat_view_def)
  moreover have "files_in (kdisk.kernel_file 1) (life_open demo_vol (fmem demo_vol) fat_file)"
    by (simp add: files_in_def zero_file_def)
      (simp add: fat_file_def demo_fs_table_def kdisk.kernel_file_def zero_file_def)
  ultimately show ?thesis using demo_vol_ok demo_devs_table by (simp add: closable_def)
qed

lemma fat_file_facts: "fref fat_file = 1" "ffs fat_file \<noteq> None"
  by (simp_all add: fat_file_def)

theorem fault_ends_program_witness:
  "\<exists>s'. snd (do_handle (get_fs_op 0 7 0 demo_descs) fat_view (\<lambda>_. None) E_page_fault 0x1000 demo_frame
        (life_open demo_vol (fmem demo_vol) fat_file)) = Some s'
    \<and> tstate (tasks s' (Table_task 1)) = TASK_ZOMBIE \<and> status (tasks s' (Table_task 1)) = 6
    \<and> file_table (tasks s' (Table_task 1)) ! 3 = None"
proof -
  let ?s = "life_open demo_vol (fmem demo_vol) fat_file"
  have par: "parent (tasks ?s (Table_task 1)) = Some (Table_task 2)" by (simp add: life_open_tasks life_task_def)
  have cs: "ef_cs demo_frame AND 3 \<noteq> 0" "sint (ef_error_code demo_frame) = 6" "3 < nat TASK_OFILE_NR"
    by (simp_all add: demo_frame_def TASK_OFILE_NR_def)
  have "Table_task 2 \<noteq> Table_task 1" by simp
  from fault_ends_program[OF kernel_files.fs_closing_axioms life_open_ok[OF fat_file_facts] fat_closable life_in_all par this,
      where frame = demo_frame and e = E_page_fault]
  show ?thesis unfolding if_P[OF cs(1)] cs(2) using cs(3) by blast
qed

text \<open>After \<^verbatim>\<open>irq_init\<close> every vector of the table leads to the entry of its exception.\<close>

definition exception_of :: "nat \<Rightarrow> exception" where
  "exception_of v = (case map_of exception_table (int v) of Some e \<Rightarrow> e | None \<Rightarrow> E_unknown)"

lemma install_all_table:
  assumes "\<forall>(n, e) \<in> set tbl. 0 \<le> n \<and> n < IDT_TABLE_NR" and "length (idt_table s) = nat IDT_TABLE_NR"
  shows "\<exists>s'. irq_install_all entries tbl s = Some s'
    \<and> idt_table s' = fold (\<lambda>(n, e) t. t[nat n := int_gate (entries e)]) tbl (idt_table s)"
  using assms
proof (induction tbl arbitrary: s)
  case (Cons x tbl)
  obtain n e where x: "x = (n, e)" by fastforce
  let ?s = "s\<lparr>idt_table := (idt_table s)[nat n := int_gate (entries e)]\<rparr>"
  have "irq_install n (entries e) s = Some (0, ?s)"
    using Cons.prems x by (auto simp: irq_install_def)
  then show ?case using Cons.IH[of ?s] Cons.prems x by auto
qed simp

lemma idt_complete:
  assumes "length (idt_table s) = nat IDT_TABLE_NR" and "v < nat IDT_TABLE_NR"
  shows "\<exists>s'. irq_init io entries s = Some s' \<and> gate_offset (idt_table s' ! v) = entries (exception_of v)"
proof -
  let ?s = "s\<lparr>idt_table := map (\<lambda>_. int_gate (entries E_unknown)) (idt_table s)\<rparr>"
  have "\<forall>(n, e) \<in> set exception_table. 0 \<le> n \<and> n < IDT_TABLE_NR"
    by (simp add: exception_table_def IDT_TABLE_NR_def)
  from install_all_table[OF this, of ?s entries] assms(1) obtain s' where
    s': "irq_install_all entries exception_table ?s = Some s'"
    "idt_table s' = fold (\<lambda>(n, e) t. t[nat n := int_gate (entries e)]) exception_table (idt_table ?s)"
    by auto
  have "irq_init io entries s = Some (pic_init io s')" using s'(1) by (simp add: irq_init_def)
  moreover have "idt_table (pic_init io s') = idt_table s'" by (simp add: pic_init_def outb_def Let_def)
  moreover have "idt_table s' ! v = int_gate (entries (exception_of v))"
    unfolding s'(2) using assms by (simp add: exception_table_def exception_of_def nth_list_update)
  ultimately show ?thesis by (simp add: int_gate_def gate_offset_set)
qed

text \<open>
  The report of a page fault: a write (bit 1 of the error code) is reported as a read, and the
  line on the privilege repeats that bit instead of looking at its own.
\<close>

lemma page_fault_report_swapped:
  "ef_error_code frame AND 2 \<noteq> 0 \<Longrightarrow>
   page_fault_report cr2 frame ! 2 = (tab @ ''The access causing the fault was a read.'', [])
   \<and> page_fault_report cr2 frame ! 3 = (tab @ ''A supervisor-mode access caused the fault.'', [])"
  by (simp add: page_fault_report_def ERR_PAGE_WR_def ERR_PAGE_US_def)

section \<open>Unknown calls\<close>

definition syscall_ids :: "u32 list" where
  "syscall_ids = [SYS_SLEEP, SYS_GETPID, SYS_EXECVE, SYS_FORK, SYS_YEILD, SYS_EXIT, SYS_WAIT, SYS_OPEN, SYS_READ, SYS_WRITE,
     SYS_CLOSE, SYS_LSEEK, SYS_ISATTY, SYS_FSTAT, SYS_SBRK, SYS_DUP, SYS_IOCTL, SYS_OPENDIR, SYS_READDIR, SYS_CLOSEDIR,
     SYS_UNLINK, SYS_PRINT_MSG, SYS_GETTIMEOFDAY, SYS_GMTIME_R, SYS_POWER, SYS_SAVE_HISTORY, SYS_GET_HISTORY]"

lemma sys_table_unknown: "nr \<notin> set syscall_ids \<Longrightarrow> sys_table e nr = None"
  unfolding sys_table_def syscall_ids_def by (simp only: list.set insert_iff empty_iff de_Morgan_disj if_False simp_thms)

lemma store32_other: "a - p \<ge> 4 \<Longrightarrow> store32 m p v a = m a"
proof -
  assume "a - p \<ge> 4"
  then have "a \<noteq> p" "a \<noteq> p + 1" "a \<noteq> p + 2" "a \<noteq> p + 3"
    by (auto simp: word_le_nat_alt)
  then show ?thesis by (simp add: store32_def)
qed

text \<open>C14: An unknown call number is refused without harm.  For every number that is not one of the 27
  calls, beyond the table, negative or in one of its holes, the table is not read out of
  bounds: the call logs one line, puts -1 into the saved result register and changes nothing
  else.
\<close>

theorem unknown_syscall_refused:
  assumes "curr_task s = Some c" and "frame_func f s \<notin> set syscall_ids"
  shows "\<exists>l s'. handle_syscall e f s = Some ([l], s') \<and> load32 (mem s') (f + 48) = - 1 \<and> s' = s\<lparr>mem := mem s'\<rparr>
    \<and> (\<forall>a. 4 \<le> a - (f + 48) \<longrightarrow> mem s' a = mem s a)"
proof -
  have "(if frame_func f s < SYS_TABLE_SIZE then sys_table_entry e (frame_func f s) else Some None) = Some None"
    by (simp add: sys_table_entry_def sys_table_unknown[OF assms(2)])
  then show ?thesis using assms(1)
    by (simp add: handle_syscall_def task_current_def set_eax_def load32_store32_same store32_other Let_def)
qed

text \<open>An environment for calls that touch no file.\<close>

definition demo_ops :: "unit fs_ops" where
  "demo_ops = (\<lambda>_. \<lparr>op_mount = (\<lambda>_ fs _ _ w. Some (0, fs, w)), op_open = (\<lambda>_ _ x w. Some (0, x, w)),
     op_read = (\<lambda>_ _ x w. Some (0, x, w)), op_write = (\<lambda>_ _ x w. Some (0, x, w)),
     op_close = (\<lambda>x w. Some (x, w)), op_seek = (\<lambda>x _ _ w. Some (0, x, w)), op_ioctl = None,
     op_opendir = (\<lambda>_ _ d w. Some ((0, d), w)), op_readdir = (\<lambda>_ d e w. Some ((0, d, e), w)),
     op_closedir = (\<lambda>_ d w. Some ((0, d), w)), op_unlink = (\<lambda>_ _ w. Some (0, w))\<rparr>)"

definition demo_view :: "unit mem_view" where
  "demo_view = \<lparr>get_mem = (\<lambda>_ _. 0), set_mem = (\<lambda>_ _. ())\<rparr>"

definition demo_env :: "(unit, unit, (unit, unit) os) sys_env" where
  "demo_env = \<lparr>e_io = \<lparr>p_inb = (\<lambda>_ h. (0, h)), p_outb = (\<lambda>_ _ h. h), p_inw = (\<lambda>_ h. (0, h)), p_outw = (\<lambda>_ _ h. h)\<rparr>,
     e_ops = demo_ops, e_view = demo_view, e_lay = demo_layout, e_resume = (\<lambda>_. None), u_in = (\<lambda>_ _ w. w),
     u_out = (\<lambda>_ _ m. m), e_noret = 0, e_rest = (\<lambda>_ _ _ _ _ _. None)\<rparr>"

theorem unknown_syscall_refused_witness:
  "\<exists>l s'. handle_syscall demo_env 0x8000 (life_os\<lparr>mem := (\<lambda>_. 7)\<rparr>) = Some ([l], s') \<and> load32 (mem s') 0x8030 = - 1"
proof -
  have "frame_func 0x8000 (life_os\<lparr>mem := (\<lambda>_. 7)\<rparr>) = 0x07070707" by (simp add: frame_func_def load32_def)
  then have "frame_func 0x8000 (life_os\<lparr>mem := (\<lambda>_. 7)\<rparr>) \<notin> set syscall_ids"
    by (simp add: syscall_ids_def SYS_SLEEP_def SYS_GETPID_def SYS_EXECVE_def SYS_FORK_def SYS_YEILD_def SYS_EXIT_def
        SYS_WAIT_def SYS_OPEN_def SYS_READ_def SYS_WRITE_def SYS_CLOSE_def SYS_LSEEK_def SYS_ISATTY_def SYS_FSTAT_def
        SYS_SBRK_def SYS_DUP_def SYS_IOCTL_def SYS_OPENDIR_def SYS_READDIR_def SYS_CLOSEDIR_def SYS_UNLINK_def
        SYS_PRINT_MSG_def SYS_GETTIMEOFDAY_def SYS_GMTIME_R_def SYS_POWER_def SYS_SAVE_HISTORY_def SYS_GET_HISTORY_def)
  from unknown_syscall_refused[OF _ this, of "Table_task 1" demo_env] show ?thesis by auto
qed

section \<open>The clock drives the scheduler and the time\<close>

primrec clock_interrupts :: "'h ports \<Rightarrow> nat \<Rightarrow> ('h, 'w, 'm) kernel_scheme \<Rightarrow> ('h, 'w, 'm) kernel_scheme option" where
  "clock_interrupts io 0 s = Some s"
| "clock_interrupts io (Suc n) s = do { s \<leftarrow> do_handle_clock io s; clock_interrupts io n s }"

lemma kernel_more:
  fixes s s' :: "('h, 'w, 'm) kernel_scheme"
  assumes "sched.more s' = sched.more s"
  shows "sys_tick s' = sys_tick s"
  using assms by (cases s, cases s', simp)

lemma eoi_frame:
  fixes s :: "('h, 'w, 'm) kernel_scheme"
  shows "sched_rep (pic_send_eoi io n s) R S = sched_rep s R S" and "on_cpu (pic_send_eoi io n s) R = on_cpu s R"
    and "tasks (pic_send_eoi io n s) = tasks s" and "sys_tick (pic_send_eoi io n s) = sys_tick s"
  by (simp_all add: pic_send_eoi_def outb_def Let_def sched_rep_def on_cpu_def)

text \<open>
  The ready queue after \<open>n\<close> ticks, from the queues, the time slices and the remaining sleep of the
  tasks: the task at the head that has used up its slice goes to the end, and behind it those
  sleepers whose time has come, in the order of the sleep queue.
\<close>

primrec ready_after ::
    "nat \<Rightarrow> (task_ref \<Rightarrow> int) \<Rightarrow> task_ref list \<Rightarrow> task_ref list \<Rightarrow> (task_ref \<Rightarrow> int) \<Rightarrow> (task_ref \<Rightarrow> int) \<Rightarrow> task_ref list" where
  "ready_after 0 quantum R S sl left = R"
| "ready_after (Suc n) quantum R S sl left =
    (let c = runner R; over = (sl c = 1)
     in ready_after n quantum ((if over then rotate1 R else R) @ filter (\<lambda>t. left t = 1) S)
          (filter (\<lambda>t. left t \<noteq> 1) S) (sl(c := if over then quantum c else sl c - 1))
          (\<lambda>t. left t - (if t \<in> set S then 1 else 0)))"

text \<open>No task is lost on the way.\<close>

lemma ready_after_set:
  "set (ready_after n quantum R S sl left) = set R \<union> {t \<in> set S. left t \<le> int n \<and> 0 < left t}"
proof (induction n arbitrary: R S sl left)
  case (Suc n)
  show ?case by (auto simp: Suc Let_def)
qed auto

lemma clock_step:
  fixes s :: "('h, 'w, 'm) kernel_scheme"
  assumes "sched_rep s R S" and "on_cpu s R"
  defines "over \<equiv> slice_ticks (tasks s (runner R)) = 1"
  defines "R' \<equiv> (if over then rotate1 R else R) @ filter (\<lambda>t. sleep_ticks (tasks s t) = 1) S"
  shows "\<exists>s'. do_handle_clock io s = Some s'
    \<and> sched_rep s' R' (filter (\<lambda>t. sleep_ticks (tasks s t) \<noteq> 1) S) \<and> on_cpu s' R' \<and> sys_tick s' = sys_tick s + 1
    \<and> (\<lambda>t. sleep_ticks (tasks s' t)) = (\<lambda>t. sleep_ticks (tasks s t) - (if t \<in> set S then 1 else 0))
    \<and> (\<lambda>t. slice_ticks (tasks s' t)) = (\<lambda>t. slice_ticks (tasks s t))
        (runner R := if over then time_ticks (tasks s (runner R)) else slice_ticks (tasks s (runner R)) - 1)
    \<and> (\<lambda>t. time_ticks (tasks s' t)) = (\<lambda>t. time_ticks (tasks s t))"
proof -
  define s1 where "s1 = pic_send_eoi io IRQ0_TIMER (s\<lparr>sys_tick := sys_tick s + 1\<rparr>)"
  have "sched_rep (s\<lparr>sys_tick := sys_tick s + 1\<rparr>) R S" "on_cpu (s\<lparr>sys_tick := sys_tick s + 1\<rparr>) R"
    using assms(1,2) by (simp_all add: sched_rep_def on_cpu_def)
  then have r: "sched_rep s1 R S" "on_cpu s1 R" "tasks s1 = tasks s" "sys_tick s1 = sys_tick s + 1"
    unfolding s1_def eoi_frame by simp_all
  have due: "due (tasks s) = (\<lambda>t. sleep_ticks (tasks s t) = 1)" by (simp add: fun_eq_iff due_def)
  obtain s' where s': "task_time_tick s1 = Some s'"
    "sched_rep s' R' (filter (\<lambda>t. sleep_ticks (tasks s t) \<noteq> 1) S)" "on_cpu s' R'" "ctx_frame s1 s'"
    "\<forall>t. sleep_ticks (tasks s' t) = sleep_ticks (tasks s t) - (if t \<in> set S then 1 else 0)"
    "\<forall>t. slice_ticks (tasks s' t) = (if t \<noteq> runner R then slice_ticks (tasks s t)
           else if slice_ticks (tasks s t) = 1 then time_ticks (tasks s t) else slice_ticks (tasks s t) - 1)"
    "\<forall>t. time_ticks (tasks s' t) = time_ticks (tasks s t)"
    using time_tick_rep[OF r(1,2)] unfolding r(3) due R'_def over_def by blast
  have "sys_tick s' = sys_tick s1" by (rule kernel_more) (use s'(4) in \<open>simp add: ctx_frame_def\<close>)
  moreover have "do_handle_clock io s = Some s'" using s'(1) by (simp add: do_handle_clock_def s1_def Let_def)
  ultimately show ?thesis using s'(2,3,5-7) r(4) by (intro exI[of _ s']) (simp add: fun_eq_iff over_def)
qed

lemma clock_interrupts_ok:
  fixes s :: "('h, 'w, 'm) kernel_scheme"
  assumes "sched_rep s R S" and "on_cpu s R" and "\<forall>t \<in> set S. 0 < sleep_ticks (tasks s t)"
  defines "R' \<equiv> \<lambda>n (s :: ('h, 'w, 'm) kernel_scheme) R S. ready_after n (\<lambda>t. time_ticks (tasks s t)) R S
     (\<lambda>t. slice_ticks (tasks s t)) (\<lambda>t. sleep_ticks (tasks s t))"
  shows "\<exists>s'. clock_interrupts io n s = Some s'
    \<and> sched_rep s' (R' n s R S) (filter (\<lambda>t. int n < sleep_ticks (tasks s t)) S)
    \<and> on_cpu s' (R' n s R S) \<and> sys_tick s' = sys_tick s + of_nat n"
  using assms(1-3)
proof (induction n arbitrary: s R S)
  case 0
  then have "filter (\<lambda>t. int 0 < sleep_ticks (tasks s t)) S = S" by simp
  with 0 show ?case by (simp add: R'_def)
next
  case (Suc n)
  let ?S = "filter (\<lambda>t. sleep_ticks (tasks s t) \<noteq> 1) S"
  let ?R = "(if slice_ticks (tasks s (runner R)) = 1 then rotate1 R else R) @ filter (\<lambda>t. sleep_ticks (tasks s t) = 1) S"
  obtain s1 where s1: "do_handle_clock io s = Some s1" "sched_rep s1 ?R ?S" "on_cpu s1 ?R"
    "sys_tick s1 = sys_tick s + 1"
    "(\<lambda>t. sleep_ticks (tasks s1 t)) = (\<lambda>t. sleep_ticks (tasks s t) - (if t \<in> set S then 1 else 0))"
    "(\<lambda>t. slice_ticks (tasks s1 t)) = (\<lambda>t. slice_ticks (tasks s t)) (runner R :=
        if slice_ticks (tasks s (runner R)) = 1 then time_ticks (tasks s (runner R)) else slice_ticks (tasks s (runner R)) - 1)"
    "(\<lambda>t. time_ticks (tasks s1 t)) = (\<lambda>t. time_ticks (tasks s t))"
    using clock_step[OF Suc.prems(1,2), of io] by blast
  have sl: "sleep_ticks (tasks s1 t) = sleep_ticks (tasks s t) - (if t \<in> set S then 1 else 0)" for t
    using fun_cong[OF s1(5)] .
  have "\<forall>t \<in> set ?S. 0 < sleep_ticks (tasks s1 t)" using Suc.prems(3) sl by force
  from Suc.IH[OF s1(2,3) this] obtain s' where s': "clock_interrupts io n s1 = Some s'"
    "sched_rep s' (R' n s1 ?R ?S) (filter (\<lambda>t. int n < sleep_ticks (tasks s1 t)) ?S)" "on_cpu s' (R' n s1 ?R ?S)"
    "sys_tick s' = sys_tick s1 + of_nat n" by blast
  have "filter (\<lambda>t. int n < sleep_ticks (tasks s1 t)) ?S = filter (\<lambda>t. int (Suc n) < sleep_ticks (tasks s t)) S"
    using sl by (auto intro: filter_cong)
  moreover have "R' n s1 ?R ?S = R' (Suc n) s R S" unfolding R'_def s1(5-7) by (simp add: Let_def)
  ultimately show ?case using s1(1,4) s' by (auto simp: algebra_simps)
qed

text \<open>C15: The clock drives the sleepers and the time at the same pace.  After \<open>n\<close> clock interrupts exactly
  the sleepers with more than \<open>n\<close> ticks left still sleep.  The ready queue is \<open>ready_after\<close>: the
  tasks that were on it, rotated by the slices they have used up, and every sleeper whose time
  has come, each put at the end by the tick that woke it; none is lost.  The system time has
  moved from the start by \<open>n\<close> hundredths of a second, as long as the milliseconds fit in 32 bits.
\<close>

theorem clock_drives_time:
  fixes s :: "('h, 'w, 'm) kernel_scheme"
  assumes "sched_rep s R S" and "on_cpu s R" and "\<forall>t \<in> set S. 0 < sleep_ticks (tasks s t)"
    and "sys_tick s = 0" and "n < 429496730"
  shows "\<exists>s' R'. clock_interrupts io n s = Some s' \<and> sched_rep s' R' (filter (\<lambda>t. int n < sleep_ticks (tasks s t)) S)
    \<and> on_cpu s' R' \<and> sys_time st (get_sys_tick s') = st + int n div 100
    \<and> R' = ready_after n (\<lambda>t. time_ticks (tasks s t)) R S (\<lambda>t. slice_ticks (tasks s t)) (\<lambda>t. sleep_ticks (tasks s t))
    \<and> set R' = set R \<union> {t \<in> set S. sleep_ticks (tasks s t) \<le> int n}"
proof -
  have "unat (of_nat (n * 10) :: u32) = n * 10" using assms(5) by (simp only: unat_of_nat) (simp add: take_bit_eq_mod)
  then have "uint (of_nat (n * 10) :: u32) = int n * 10" by (simp only: uint_nat)
  then have "uint (of_nat n * 10 :: u32) = int n * 10" by simp
  then have t: "sys_time st (of_nat n) = st + int n div 100"
    by (simp add: sys_time_def CLOCK_TICK_MS_def uint_div)
  have "{t \<in> set S. sleep_ticks (tasks s t) \<le> int n \<and> 0 < sleep_ticks (tasks s t)} = {t \<in> set S. sleep_ticks (tasks s t) \<le> int n}"
    using assms(3) by auto
  with t clock_interrupts_ok[OF assms(1-3), of io n] assms(4) show ?thesis
    by (auto simp: get_sys_tick_def ready_after_set)
qed

definition clock_os :: "(unit, unit) kernel" where
  "clock_os = os.extend (life_os\<lparr>tasks := life_task(Table_task 0 := blank_task\<lparr>sleep_ticks := 150\<rparr>),
     sleep_list := \<lparr>lfirst = Some (Table_task 0), llast = Some (Table_task 0), lcount = 1\<rparr>\<rparr>) \<lparr>sys_tick = 0\<rparr>"

theorem clock_drives_time_witness:
  "\<exists>s' R'. clock_interrupts (e_io demo_env) 200 clock_os = Some s' \<and> sched_rep s' R' []
    \<and> Table_task 0 \<in> set R' \<and> sys_time 1000 (get_sys_tick s') = 1002"
proof -
  have rep: "sched_rep clock_os [Table_task 1, Table_task 2] [Table_task 0]"
    by (simp add: sched_rep_def dll_def clock_os_def life_os_def os.defs vfs.defs life_task_def blank_task_def demo_files_def)
  have cpu: "on_cpu clock_os [Table_task 1, Table_task 2]"
    by (simp add: on_cpu_def clock_os_def os.defs life_defs life_task_def blank_task_def)
  have tk: "sys_tick clock_os = 0" "sleep_ticks (tasks clock_os (Table_task 0)) = 150"
    by (simp_all add: clock_os_def os.defs)
  obtain s' R' where "clock_interrupts (e_io demo_env) 200 clock_os = Some s'"
    "sched_rep s' R' (filter (\<lambda>t. int 200 < sleep_ticks (tasks clock_os t)) [Table_task 0])"
    "sys_time 1000 (get_sys_tick s') = 1000 + int 200 div 100"
    "set R' = set [Table_task 1, Table_task 2] \<union> {t \<in> set [Table_task 0]. sleep_ticks (tasks clock_os t) \<le> int 200}"
    using clock_drives_time[OF rep cpu _ tk(1), of 200 "e_io demo_env" 1000] tk by auto
  then show ?thesis using tk(2) by (intro exI[of _ s'] exI[of _ R']) simp
qed

end
