(* ===== verification/Loader.thy ===== *)
theory Loader
  imports Drive
begin

text \<open>
  The second stage of the boot: finding the memory with the BIOS and leaving real mode
  (\<^verbatim>\<open>loader/loader_16.c\<close>), reading the kernel from the disk, placing its segments and
  turning on paging (\<^verbatim>\<open>loader/loader_32.c\<close>).  The BIOS call and the address of the loader's page
  directory are arguments.  The lemmas end in what the whole stage promises: on a drive that
  keeps the ATA contract the memory holds the kernel's segments, zeroes included, and
  nothing else has changed.
\<close>

section \<open>Real mode\<close>

record smap_entry =
  BaseL :: u32
  BaseH :: u32
  LengthL :: u32
  LengthH :: u32
  SType :: u32
  ACPI :: u32

text \<open>The BIOS: signature, number of bytes, next continuation, and what the buffer then holds.\<close>

type_synonym bios = "u32 \<Rightarrow> u32 \<times> u32 \<times> u32 \<times> smap_entry"

definition BOOT_RAM_REGION_MAX :: nat where "BOOT_RAM_REGION_MAX = 10"
definition SMAP :: u32 where "SMAP = 0x534D4150"

text \<open>The regions found so far are the used part of the table; the flag says whether the message is \<open>ok\<close>.\<close>

primrec detect_regions :: "bios \<Rightarrow> nat \<Rightarrow> u32 \<Rightarrow> (u32 \<times> u32) list \<Rightarrow> bool \<times> (u32 \<times> u32) list" where
  "detect_regions bios 0 contID rs = (True, rs)"
| "detect_regions bios (Suc n) contID rs =
    (case bios contID of (signature, bytes, contID, entry) \<Rightarrow>
       if signature \<noteq> SMAP then (False, rs)
       else if bytes > 20 \<and> ACPI entry AND 1 = 0 then detect_regions bios n contID rs
       else let rs = (if SType entry = 1 then rs @ [(BaseL entry, LengthL entry)] else rs)
         in if contID = 0 then (True, rs) else detect_regions bios n contID rs)"

definition detect_memory :: "bios \<Rightarrow> string list \<times> (u32 \<times> u32) list" where
  "detect_memory bios =
    (case detect_regions bios BOOT_RAM_REGION_MAX 0 [] of (ok, rs) \<Rightarrow>
       ([''[wjos] - try to detect memory: '', (if ok then ''ok.'' @ [CHR 0x0A, CHR 0x0D] else ''failed.'' @ [CHR 0x0D, CHR 0x0A])], rs))"

record 'h ldr = "'h cpu" +
  gdtr :: "(u16 \<times> u16 \<times> u16 \<times> u16) list"
  cr0 :: u32
  cr4 :: u32

definition loader_gdt :: "(u16 \<times> u16 \<times> u16 \<times> u16) list" where
  "loader_gdt = [(0, 0, 0, 0), (0xFFFF, 0x0000, 0x9a00, 0x00cf), (0xFFFF, 0x0000, 0x9200, 0x00cf)]"

definition enter_protect_mode :: "'h ports \<Rightarrow> ('h, 'm) ldr_scheme \<Rightarrow> ('h, 'm) ldr_scheme" where
  "enter_protect_mode io s =
    (case inb io 0x92 (s\<lparr>eflags := (eflags s)(curr_task s := eflags s (curr_task s) AND NOT EFLAGS_IF)\<rparr>) of (v, s) \<Rightarrow>
      let s = outb io 0x92 (v OR 2) s;
          s = s\<lparr>gdtr := loader_gdt\<rparr>
      in s\<lparr>cr0 := cr0 s OR 1\<rparr>)"

section \<open>Reading the disk\<close>

definition BOOT_SECTOR_SIZE :: nat where "BOOT_SECTOR_SIZE = 512"
definition SYS_KERNEL_LOAD_ADDR :: u32 where "SYS_KERNEL_LOAD_ADDR = 1024 * 1024"

partial_function (option) wait_ready :: "'h ports \<Rightarrow> ('h, 'm) cpu_scheme \<Rightarrow> ('h, 'm) cpu_scheme option" where
  "wait_ready io s = (case inb io 0x1F7 s of (v, s) \<Rightarrow> if v AND 0x88 \<noteq> 8 then wait_ready io s else Some s)"

primrec read_halves :: "'h ports \<Rightarrow> nat \<Rightarrow> u32 \<Rightarrow> ('h, 'm) cpu_scheme \<Rightarrow> u32 \<times> ('h, 'm) cpu_scheme" where
  "read_halves io 0 p s = (p, s)"
| "read_halves io (Suc n) p s =
    (case inw io 0x1F0 s of (w, s) \<Rightarrow> read_halves io n (p + 2) (s\<lparr>mem := store16 (mem s) p w\<rparr>))"

primrec read_all :: "'h ports \<Rightarrow> nat \<Rightarrow> u32 \<Rightarrow> ('h, 'm) cpu_scheme \<Rightarrow> ('h, 'm) cpu_scheme option" where
  "read_all io 0 p s = Some s"
| "read_all io (Suc n) p s =
    do {
      s \<leftarrow> wait_ready io s;
      let (p, s) = read_halves io (BOOT_SECTOR_SIZE div 2) p s;
      read_all io n p s
    }"

definition read_disk :: "'h ports \<Rightarrow> int \<Rightarrow> int \<Rightarrow> u32 \<Rightarrow> ('h, 'm) cpu_scheme \<Rightarrow> ('h, 'm) cpu_scheme option" where
  "read_disk io sector cnt buf s =
    (let s = outb io 0x1F6 0xE0 s;
         s = outb io 0x1F2 (word_of_int (drop_bit 8 cnt)) s;
         s = outb io 0x1F3 (word_of_int (drop_bit 24 sector)) s;
         s = outb io 0x1F4 0 s;
         s = outb io 0x1F5 0 s;
         s = outb io 0x1F2 (word_of_int cnt) s;
         s = outb io 0x1F3 (word_of_int sector) s;
         s = outb io 0x1F4 (word_of_int (drop_bit 8 sector)) s;
         s = outb io 0x1F5 (word_of_int (drop_bit 16 sector)) s;
         s = outb io 0x1F7 0x24 s
     in if cnt < 0 then None else read_all io (nat cnt) buf s)"

section \<open>Placing the kernel\<close>

text \<open>
  The counters are signed: a segment of 2 GiB or more overflows them (\<open>None\<close>).  The program
  header is read again in every round, as the code does, for the loop may overwrite it.
\<close>

function copy_seg :: "u32 \<Rightarrow> nat \<Rightarrow> u32 \<Rightarrow> u32 \<Rightarrow> memory \<Rightarrow> memory option" where
  "copy_seg ph j src dest m =
    (if j < unat (load32 m (ph + 16))
     then if j + 1 < 2 ^ 31 then copy_seg ph (j + 1) (src + 1) (dest + 1) (m(dest := m src)) else None
     else Some m)"
  by pat_completeness auto
termination by (relation "measure (\<lambda>(ph, j, src, dest, m). 2 ^ 31 - j)") auto

function zero_seg :: "u32 \<Rightarrow> nat \<Rightarrow> u32 \<Rightarrow> memory \<Rightarrow> memory option" where
  "zero_seg ph j dest m =
    (if j < unat (load32 m (ph + 20) - load32 m (ph + 16))
     then if j + 1 < 2 ^ 31 then zero_seg ph (j + 1) (dest + 1) (m(dest := 0)) else None
     else Some m)"
  by pat_completeness auto
termination by (relation "measure (\<lambda>(ph, j, dest, m). 2 ^ 31 - j)") auto

declare copy_seg.simps [simp del] zero_seg.simps [simp del]

function load_segs :: "u32 \<Rightarrow> nat \<Rightarrow> memory \<Rightarrow> memory option" where
  "load_segs buf i m =
    (if i < unat (load16 m (buf + 44))
     then let ph = buf + load32 m (buf + 28) + 32 * of_nat i
       in if load32 m ph \<noteq> 1 then load_segs buf (i + 1) m
          else do {
            m \<leftarrow> copy_seg ph 0 (buf + load32 m (ph + 4)) (load32 m (ph + 12)) m;
            m \<leftarrow> zero_seg ph 0 (load32 m (ph + 12) + load32 m (ph + 16)) m;
            load_segs buf (i + 1) m
          }
     else Some m)"
  by pat_completeness auto
termination
proof (relation "measure (\<lambda>(buf, i, m). 2 ^ 16 - i)", goal_cases)
  case (2 buf i m)
  then show ?case using unsigned_less[of "load16 m (buf + 44)", where ?'a = nat] by simp
next
  case (3 buf i m)
  then show ?case using unsigned_less[of "load16 m (buf + 44)", where ?'a = nat] by simp
qed simp

declare load_segs.simps [simp del]

definition reload_elf_file :: "u32 \<Rightarrow> memory \<Rightarrow> (u32 \<times> memory) option" where
  "reload_elf_file buf m =
    (if m buf \<noteq> 0x7F \<or> m (buf + 1) \<noteq> 0x45 \<or> m (buf + 2) \<noteq> 0x4C \<or> m (buf + 3) \<noteq> 0x46 then Some (0, m)
     else do { m \<leftarrow> load_segs buf 0 m; Some (load32 m (buf + 24), m) })"

definition CR4_PSE :: u32 where "CR4_PSE = push_bit 4 1"
definition CR0_PG :: u32 where "CR0_PG = push_bit 31 1"

definition enable_page_mode :: "u32 \<Rightarrow> ('h, 'm) ldr_scheme \<Rightarrow> ('h, 'm) ldr_scheme" where
  "enable_page_mode page_dir s =
    (let s = s\<lparr>cr4 := cr4 s OR CR4_PSE\<rparr>;
         s = s\<lparr>cr3 := page_dir\<rparr>
     in s\<lparr>cr0 := cr0 s OR CR0_PG\<rparr>)"

text \<open>The result is the address jumped to; \<^verbatim>\<open>die\<close> never returns.\<close>

definition load_kernel :: "'h ports \<Rightarrow> u32 \<Rightarrow> ('h, 'm) ldr_scheme \<Rightarrow> (u32 \<times> ('h, 'm) ldr_scheme) option" where
  "load_kernel io page_dir s =
    do {
      s \<leftarrow> read_disk io 100 500 SYS_KERNEL_LOAD_ADDR s;
      (kernel_entry, m) \<leftarrow> reload_elf_file SYS_KERNEL_LOAD_ADDR (mem s);
      let s = s\<lparr>mem := m\<rparr>;
      if kernel_entry = 0 then None else Some (kernel_entry, enable_page_mode page_dir s)
    }"

text \<open>
  What the BIOS lists: entries with the bytes they fill, each call giving the continuation of
  the next one and the last one 0.
\<close>

primrec bios_lists :: "bios \<Rightarrow> u32 \<Rightarrow> (u32 \<times> smap_entry) list \<Rightarrow> bool" where
  "bios_lists bios c [] \<longleftrightarrow> False"
| "bios_lists bios c (x # xs) \<longleftrightarrow> (case bios c of (signature, bytes, c', e) \<Rightarrow>
     signature = SMAP \<and> (bytes, e) = x \<and> (if xs = [] then c' = 0 else c' \<noteq> 0 \<and> bios_lists bios c' xs))"

definition ignored :: "u32 \<times> smap_entry \<Rightarrow> bool" where
  "ignored x \<longleftrightarrow> 20 < fst x \<and> ACPI (snd x) AND 1 = 0"

definition regions_of :: "(u32 \<times> smap_entry) list \<Rightarrow> (u32 \<times> u32) list" where
  "regions_of es = map (\<lambda>(_, e). (BaseL e, LengthL e)) (filter (\<lambda>x. \<not> ignored x \<and> SType (snd x) = 1) es)"

lemma detect_regions_list:
  "bios_lists bios c es \<Longrightarrow> length es \<le> n \<Longrightarrow> \<not> ignored (last es)
    \<Longrightarrow> detect_regions bios n c rs = (True, rs @ regions_of es)"
proof (induction es arbitrary: c n rs)
  case (Cons x xs)
  obtain bytes c' e where b: "bios c = (SMAP, bytes, c', e)" "(bytes, e) = x"
    and c': "if xs = [] then c' = 0 else c' \<noteq> 0 \<and> bios_lists bios c' xs"
    using Cons.prems(1) by (cases "bios c") auto
  obtain k where n: "n = Suc k" "length xs \<le> k" using Cons.prems(2) by (cases n) auto
  show ?case
  proof (cases "xs = []")
    case True
    then show ?thesis using Cons.prems(3) b c' n by (auto simp: ignored_def regions_of_def)
  next
    case False
    then have IH: "detect_regions bios k c' rs' = (True, rs' @ regions_of xs)" for rs'
      using Cons.IH[of c' k rs'] Cons.prems(3) c' n(2) by simp
    show ?thesis using b False c' n(1) by (auto simp: ignored_def regions_of_def IH)
  qed
qed simp

text \<open>
  The memory regions handed to the kernel are the usable entries of the BIOS in its order,
  when there are at most ten and the last one is not to be ignored.
\<close>

lemma detect_memory_regions:
  "bios_lists bios 0 es \<Longrightarrow> length es \<le> BOOT_RAM_REGION_MAX \<Longrightarrow> \<not> ignored (last es)
    \<Longrightarrow> snd (detect_memory bios) = regions_of es"
  using detect_regions_list[of bios 0 es BOOT_RAM_REGION_MAX "[]"] by (simp add: detect_memory_def)

text \<open>
  When the last entry is to be ignored the scan does not look at the continuation and starts
  again at the first entry: one region of memory is reported five times.
\<close>

lemma detect_memory_repeats:
  fixes e :: smap_entry
  defines "bios \<equiv> (\<lambda>c. if c = 0 then (SMAP, 20, 1, e\<lparr>SType := 1\<rparr>) else (SMAP, 24, 0, e\<lparr>ACPI := 0\<rparr>))"
  shows "snd (detect_memory bios) = replicate 5 (BaseL e, LengthL e)"
proof -
  have "detect_regions bios (2 * k) 0 rs = (True, rs @ replicate k (BaseL e, LengthL e))" for k rs
    by (induction k arbitrary: rs) (simp_all add: bios_def replicate_append_same)
  from this[of 5 "[]"] show ?thesis by (simp add: detect_memory_def BOOT_RAM_REGION_MAX_def)
qed

section \<open>Where the segments end up\<close>

text \<open>
  The image as a list of bytes: the \<open>i\<close>th program header, the memory with its segment in
  place, and the memory with all of them.
\<close>

definition ph_at :: "u8 list \<Rightarrow> nat \<Rightarrow> nat" where
  "ph_at img i = unat (le32 img 28) + 32 * i"

definition place_seg :: "u8 list \<Rightarrow> nat \<Rightarrow> memory \<Rightarrow> memory" where
  "place_seg img ph m = (\<lambda>a.
     let k = unat (a - le32 img (ph + 12))
     in if k < unat (le32 img (ph + 16)) then img ! (unat (le32 img (ph + 4)) + k)
        else if k < unat (le32 img (ph + 20)) then 0 else m a)"

definition place_image :: "u8 list \<Rightarrow> memory \<Rightarrow> memory" where
  "place_image img = fold (\<lambda>i m. if le32 img (ph_at img i) = 1 then place_seg img (ph_at img i) m else m)
     [0..<unat (le16 img 44)]"

definition seg_ok :: "u32 \<Rightarrow> u8 list \<Rightarrow> nat \<Rightarrow> bool" where
  "seg_ok buf img ph \<longleftrightarrow> ph + 32 \<le> length img \<and> (le32 img ph = 1 \<longrightarrow>
     unat (le32 img (ph + 16)) \<le> unat (le32 img (ph + 20)) \<and> unat (le32 img (ph + 20)) < 2 ^ 31
     \<and> unat (le32 img (ph + 4)) + unat (le32 img (ph + 16)) \<le> length img
     \<and> (\<forall>a. unat (a - le32 img (ph + 12)) < unat (le32 img (ph + 20)) \<longrightarrow> length img \<le> unat (a - buf)))"

definition elf_ok :: "u32 \<Rightarrow> u8 list \<Rightarrow> bool" where
  "elf_ok buf img \<longleftrightarrow> 52 \<le> length img \<and> take 4 img = [0x7F, 0x45, 0x4C, 0x46]
     \<and> (\<forall>i < unat (le16 img 44). seg_ok buf img (ph_at img i))"

lemma mem_has_far:
  "mem_has m buf img \<Longrightarrow> length img \<le> 2 ^ 32 \<Longrightarrow> length img \<le> unat (x - buf) \<Longrightarrow> mem_has (m(x := v)) buf img"
  using mem_has_frame[of m buf img "m(x := v)"] by fastforce

lemma offset_addr:
  fixes a dest :: u32
  assumes "unat (a - dest) = j"
  shows "a = dest + of_nat j"
proof -
  have "of_nat (unat (a - dest)) = a - dest" by simp
  then show ?thesis using assms by (simp add: algebra_simps)
qed

lemma copy_seg_ok:
  fixes n :: nat
  assumes "length img \<le> 2 ^ 32" and "ph + 20 \<le> length img" and "n = unat (le32 img (ph + 16))" and "n < 2 ^ 31"
    and "off + n \<le> length img" and far: "\<And>k. k < n \<Longrightarrow> length img \<le> unat (dest + of_nat k - buf)"
  shows "mem_has m buf img \<Longrightarrow> j \<le> n \<Longrightarrow>
    \<exists>m'. copy_seg (buf + of_nat ph) j (buf + of_nat off + of_nat j) (dest + of_nat j) m = Some m' \<and> mem_has m' buf img
      \<and> (\<forall>a. m' a = (if j \<le> unat (a - dest) \<and> unat (a - dest) < n then img ! (off + unat (a - dest)) else m a))"
proof (induction "n - j" arbitrary: j m)
  case 0
  have "load32 m (buf + of_nat (ph + 16)) = le32 img (ph + 16)"
    by (rule load32_le32[OF 0(2)]) (use assms(2) in simp)
  then show ?case using 0 assms(3) by (subst copy_seg.simps) (auto simp: add_ac)
next
  case (Suc d)
  have l: "load32 m (buf + of_nat (ph + 16)) = le32 img (ph + 16)"
    by (rule load32_le32[OF Suc(3)]) (use assms(2) in simp)
  have j: "j < n" "j + 1 < 2 ^ 31" using Suc(2) assms(4) by auto
  have src: "m (buf + of_nat off + of_nat j) = img ! (off + j)"
    using mem_hasD[OF Suc(3), of "off + j"] j assms(5) by (simp add: add.assoc)
  let ?m = "m(dest + of_nat j := img ! (off + j))"
  have "mem_has ?m buf img" by (rule mem_has_far[OF Suc(3) assms(1) far[OF j(1)]])
  moreover have "d = n - (j + 1)" "j + 1 \<le> n" using Suc(2) j(1) by simp_all
  ultimately obtain m' where m':
    "copy_seg (buf + of_nat ph) (j + 1) (buf + of_nat off + of_nat (j + 1)) (dest + of_nat (j + 1)) ?m = Some m'"
    "mem_has m' buf img"
    "\<And>a. m' a = (if j + 1 \<le> unat (a - dest) \<and> unat (a - dest) < n then img ! (off + unat (a - dest)) else ?m a)"
    using Suc(1)[of "j + 1"] by blast
  have "copy_seg (buf + of_nat ph) j (buf + of_nat off + of_nat j) (dest + of_nat j) m = Some m'"
    using m'(1) j l src assms(3) by (subst copy_seg.simps) (simp add: add_ac)
  moreover have "m' a = (if j \<le> unat (a - dest) \<and> unat (a - dest) < n then img ! (off + unat (a - dest)) else m a)" for a
  proof (cases "a = dest + of_nat j")
    case True
    then have "unat (a - dest) = j" using j(2) by (simp add: unat_of_nat32)
    then show ?thesis using m'(3)[of a] True j by simp
  next
    case False
    then have "unat (a - dest) \<noteq> j" using offset_addr[of a dest j] by auto
    then show ?thesis using m'(3)[of a] False by auto
  qed
  ultimately show ?case using m'(2) by blast
qed

lemma zero_seg_ok:
  fixes n :: nat
  assumes "length img \<le> 2 ^ 32" and "ph + 24 \<le> length img"
    and "n = unat (le32 img (ph + 20) - le32 img (ph + 16))" and "n < 2 ^ 31"
    and far: "\<And>k. k < n \<Longrightarrow> length img \<le> unat (dest + of_nat k - buf)"
  shows "mem_has m buf img \<Longrightarrow> j \<le> n \<Longrightarrow>
    \<exists>m'. zero_seg (buf + of_nat ph) j (dest + of_nat j) m = Some m' \<and> mem_has m' buf img
      \<and> (\<forall>a. m' a = (if j \<le> unat (a - dest) \<and> unat (a - dest) < n then 0 else m a))"
proof (induction "n - j" arbitrary: j m)
  case 0
  have "load32 m (buf + of_nat (ph + 16)) = le32 img (ph + 16)" "load32 m (buf + of_nat (ph + 20)) = le32 img (ph + 20)"
    by (rule load32_le32[OF 0(2)], use assms(2) in simp)+
  then show ?case using 0 assms(3) by (subst zero_seg.simps) (auto simp: add_ac)
next
  case (Suc d)
  have l: "load32 m (buf + of_nat (ph + 16)) = le32 img (ph + 16)" "load32 m (buf + of_nat (ph + 20)) = le32 img (ph + 20)"
    by (rule load32_le32[OF Suc(3)], use assms(2) in simp)+
  have j: "j < n" "j + 1 < 2 ^ 31" using Suc(2) assms(4) by auto
  let ?m = "m(dest + of_nat j := 0)"
  have "mem_has ?m buf img" by (rule mem_has_far[OF Suc(3) assms(1) far[OF j(1)]])
  moreover have "d = n - (j + 1)" "j + 1 \<le> n" using Suc(2) j(1) by simp_all
  ultimately obtain m' where m':
    "zero_seg (buf + of_nat ph) (j + 1) (dest + of_nat (j + 1)) ?m = Some m'" "mem_has m' buf img"
    "\<And>a. m' a = (if j + 1 \<le> unat (a - dest) \<and> unat (a - dest) < n then 0 else ?m a)"
    using Suc(1)[of "j + 1"] by blast
  have "zero_seg (buf + of_nat ph) j (dest + of_nat j) m = Some m'"
    using m'(1) j l assms(3) by (subst zero_seg.simps) (simp add: add_ac)
  moreover have "m' a = (if j \<le> unat (a - dest) \<and> unat (a - dest) < n then 0 else m a)" for a
  proof (cases "a = dest + of_nat j")
    case True
    then have "unat (a - dest) = j" using j(2) by (simp add: unat_of_nat32)
    then show ?thesis using m'(3)[of a] True j by simp
  next
    case False
    then have "unat (a - dest) \<noteq> j" using offset_addr[of a dest j] by auto
    then show ?thesis using m'(3)[of a] False by auto
  qed
  ultimately show ?case using m'(2) by blast
qed

lemma place_steps:
  fixes P :: u32
  assumes "F \<le> M" and "M < 2 ^ 31"
  shows "(if unat (a - (P + of_nat F)) < M - F then 0 else if unat (a - P) < F then x else y)
    = (if unat (a - P) < F then x else if unat (a - P) < M then 0 else y)"
proof (cases "unat (a - P) < F")
  case True
  have "(2 ^ 32 - F) \<le> unat (P + of_nat (unat (a - P)) - (P + of_nat F))"
    using True assms by (intro before_stretch) simp_all
  moreover have "P + of_nat (unat (a - P)) = a" using offset_addr[of a P "unat (a - P)"] by simp
  ultimately have "2 ^ 32 - F \<le> unat (a - (P + of_nat F))" by (simp only:)
  moreover have "M - F \<le> 2 ^ 32 - F" using assms(2) by simp
  ultimately have "\<not> unat (a - (P + of_nat F)) < M - F" by (simp only: not_less)
  then show ?thesis using True by simp
next
  case False
  then show ?thesis using stretch_offset[of F a P] assms(1) by auto
qed

lemma load_seg_ok:
  assumes "length img \<le> 2 ^ 32" and "mem_has m buf img" and "seg_ok buf img ph" and "le32 img ph = 1"
  shows "\<exists>m'. copy_seg (buf + of_nat ph) 0 (buf + le32 img (ph + 4)) (le32 img (ph + 12)) m = Some m'
    \<and> zero_seg (buf + of_nat ph) 0 (le32 img (ph + 12) + le32 img (ph + 16)) m' = Some (place_seg img ph m)
    \<and> mem_has m' buf img \<and> mem_has (place_seg img ph m) buf img"
proof -
  let ?O = "unat (le32 img (ph + 4))" and ?P = "le32 img (ph + 12)"
  let ?F = "unat (le32 img (ph + 16))" and ?M = "unat (le32 img (ph + 20))"
  have ok: "ph + 32 \<le> length img" "?F \<le> ?M" "?M < 2 ^ 31" "?O + ?F \<le> length img"
    and far: "\<And>a. unat (a - ?P) < ?M \<Longrightarrow> length img \<le> unat (a - buf)"
    using assms(3,4) by (auto simp: seg_ok_def)
  have far_at: "length img \<le> unat (?P + of_nat k - buf)" if "k < ?M" for k
    using far[of "?P + of_nat k"] that ok(3) by (simp add: unat_of_nat32)
  obtain m1 where m1: "copy_seg (buf + of_nat ph) 0 (buf + le32 img (ph + 4)) ?P m = Some m1" "mem_has m1 buf img"
    "\<And>a. m1 a = (if unat (a - ?P) < ?F then img ! (?O + unat (a - ?P)) else m a)"
    using copy_seg_ok[OF assms(1) _ refl _ ok(4), where dest = ?P and buf = buf and m = m and j = 0] ok far_at assms(2) by auto
  have n: "unat (le32 img (ph + 20) - le32 img (ph + 16)) = ?M - ?F"
    using ok(2) by (simp add: unat_sub word_le_nat_alt)
  have far2: "length img \<le> unat (?P + of_nat ?F + of_nat k - buf)" if "k < ?M - ?F" for k
    using far_at[of "?F + k"] that by (simp add: add.assoc)
  have z: "ph + 24 \<le> length img" "?M - ?F < 2 ^ 31" using ok by linarith+
  obtain m2 where m2: "zero_seg (buf + of_nat ph) 0 (?P + le32 img (ph + 16)) m1 = Some m2" "mem_has m2 buf img"
    "\<And>a. m2 a = (if unat (a - (?P + of_nat ?F)) < ?M - ?F then 0 else m1 a)"
    using zero_seg_ok[OF assms(1) z(1) n[symmetric] z(2) far2 m1(2), of 0] by auto
  have "m2 a = place_seg img ph m a" for a
    unfolding m2(3) m1(3) place_steps[OF ok(2,3)] place_seg_def Let_def ..
  then have "m2 = place_seg img ph m" by (rule ext)
  with m1 m2 show ?thesis by auto
qed

lemma load_segs_ok:
  assumes "length img \<le> 2 ^ 32" and "elf_ok buf img"
  shows "mem_has m buf img \<Longrightarrow> i \<le> unat (le16 img 44) \<Longrightarrow>
    \<exists>m'. load_segs buf i m = Some m' \<and> mem_has m' buf img
      \<and> m' = fold (\<lambda>i m. if le32 img (ph_at img i) = 1 then place_seg img (ph_at img i) m else m) [i..<unat (le16 img 44)] m"
proof (induction "unat (le16 img 44) - i" arbitrary: i m)
  have l: "52 \<le> length img" using assms(2) by (simp add: elf_ok_def)
  case 0
  have "load16 m (buf + of_nat 44) = le16 img 44" by (rule load16_le16[OF 0(2)]) (use l in simp)
  then show ?case using 0 by (subst load_segs.simps) auto
next
  have l: "52 \<le> length img" using assms(2) by (simp add: elf_ok_def)
  case (Suc d)
  let ?ph = "ph_at img i"
  have h: "load16 m (buf + of_nat 44) = le16 img 44" "load32 m (buf + of_nat 28) = le32 img 28"
    by (rule load16_le16[OF Suc(3)] load32_le32[OF Suc(3)], use l in simp)+
  have i: "i < unat (le16 img 44)" using Suc(2) by simp
  then have ok: "seg_ok buf img ?ph" using assms(2) by (simp add: elf_ok_def)
  then have pl: "?ph + 32 \<le> length img" by (simp add: seg_ok_def)
  have p: "load32 m (buf + of_nat ?ph + of_nat k) = le32 img (?ph + k)" if "k \<le> 28" for k
    using load32_le32[OF Suc(3), of "?ph + k"] that pl by (simp add: add.assoc)
  have a: "buf + load32 m (buf + 28) + 32 * of_nat i = buf + of_nat ?ph" using h(2) by (simp add: ph_at_def)
  have d: "d = unat (le16 img 44) - (i + 1)" "i + 1 \<le> unat (le16 img 44)" using Suc(2) i by auto
  have up: "[i..<unat (le16 img 44)] = i # [i + 1..<unat (le16 img 44)]" using i by (simp add: upt_conv_Cons)
  show ?case
  proof (cases "le32 img ?ph = 1")
    case False
    have "load_segs buf i m = load_segs buf (i + 1) m"
      using h(1) i False p[of 0] by (subst load_segs.simps) (simp add: Let_def a)
    then show ?thesis using Suc(1)[OF d(1) Suc(3) d(2)] False by (simp add: up)
  next
    case True
    obtain m1 where m1: "copy_seg (buf + of_nat ?ph) 0 (buf + le32 img (?ph + 4)) (le32 img (?ph + 12)) m = Some m1"
      "zero_seg (buf + of_nat ?ph) 0 (le32 img (?ph + 12) + le32 img (?ph + 16)) m1 = Some (place_seg img ?ph m)"
      "mem_has m1 buf img" "mem_has (place_seg img ?ph m) buf img"
      using load_seg_ok[OF assms(1) Suc(3) ok True] by blast
    have p1: "load32 m1 (buf + of_nat ?ph + of_nat k) = le32 img (?ph + k)" if "k \<le> 28" for k
      using load32_le32[OF m1(3), of "?ph + k"] that pl by (simp add: add.assoc)
    have "load_segs buf i m = load_segs buf (i + 1) (place_seg img ?ph m)"
      using h(1) i True p[of 0] p[of 4] p[of 12] p1[of 12] p1[of 16] m1(1,2)
      by (subst load_segs.simps) (simp add: Let_def a)
    then show ?thesis using Suc(1)[OF d(1) m1(4) d(2)] True by (simp add: up)
  qed
qed

lemma reload_elf_ok:
  assumes "length img \<le> 2 ^ 32" and "elf_ok buf img" and "mem_has m buf img"
  shows "reload_elf_file buf m = Some (le32 img 24, place_image img m)"
proof -
  have l: "52 \<le> length img" "take 4 img = [0x7F, 0x45, 0x4C, 0x46]" using assms(2) by (simp_all add: elf_ok_def)
  have "img ! k = [0x7F, 0x45, 0x4C, 0x46] ! k" if "k < 4" for k using l(2) nth_take[OF that, of img] by simp
  then have e: "m (buf + of_nat k) = [0x7F, 0x45, 0x4C, 0x46] ! k" if "k < 4" for k
    using mem_hasD[OF assms(3), of k] that l(1) by simp
  obtain m' where m': "load_segs buf 0 m = Some m'" "mem_has m' buf img" "m' = place_image img m"
    using load_segs_ok[OF assms(1,2,3), of 0] by (auto simp: place_image_def)
  have "load32 m' (buf + of_nat 24) = le32 img 24" by (rule load32_le32[OF m'(2)]) (use l in simp)
  then show ?thesis using m'(1,3) e[of 0] e[of 1] e[of 2] e[of 3] by (simp add: reload_elf_file_def numeral_3_eq_3)
qed

section \<open>On an ATA drive\<close>

text \<open>
  The loader waits until the drive is not busy and offers data, so it also relies on the
  drive offering data as soon as it has left the busy state of a read command.
\<close>

locale ata_ready = ata io "0x1F0" 0 phase sects drq busy nlba
  for io :: "'h ports" and phase :: "'h \<Rightarrow> ata_phase" and sects :: "'h \<Rightarrow> int \<Rightarrow> u8 list"
    and drq :: "'h \<Rightarrow> bool" and busy :: "'h \<Rightarrow> nat" and nlba :: int +
  assumes ready: "phase h = Rd lba n k \<Longrightarrow> p_inb io 0x1F7 h = (v, h') \<Longrightarrow> v AND 0x89 \<noteq> 0x80 \<Longrightarrow> v AND 0x88 = 8"
begin

lemma wait_ready_ok:
  "phase (hw s) = Rd lba n k \<Longrightarrow>
    \<exists>h'. wait_ready io s = Some (s\<lparr>hw := h'\<rparr>) \<and> phase h' = phase (hw s) \<and> sects h' = sects (hw s) \<and> drq h'"
proof (induction "busy (hw s)" arbitrary: s rule: less_induct)
  case less
  obtain v h where p: "p_inb io 0x1F7 (hw s) = (v, h)" by fastforce
  have pl: "phase h = phase (hw s) \<and> sects h = sects (hw s)
      \<and> (if v AND 0x89 = 0x80 then busy h < busy (hw s) else drq h \<or> (\<forall>lba n k. phase (hw s) \<noteq> Rd lba n k))"
    using poll[of "hw s" v h] p by simp
  show ?case
  proof (cases "v AND 0x89 = 0x80")
    case True
    have "v AND 0x88 \<noteq> 8"
    proof
      assume "v AND 0x88 = 8"
      then have "(v AND 0x88) AND 0x89 = 8" by simp
      moreover have "(v AND 0x88) AND 0x89 = (v AND 0x89) AND 0x88" by (simp only: and.assoc and.commute and.left_commute)
      ultimately show False using True by simp
    qed
    then have "wait_ready io s = wait_ready io (s\<lparr>hw := h\<rparr>)"
      by (subst wait_ready.simps) (simp add: inb_def p)
    moreover have "busy (hw (s\<lparr>hw := h\<rparr>)) < busy (hw s)" "phase (hw (s\<lparr>hw := h\<rparr>)) = Rd lba n k"
      using pl True less.prems by simp_all
    note less.hyps[OF this]
    ultimately show ?thesis using pl by auto
  next
    case False
    with ready[OF less.prems p] have "wait_ready io s = Some (s\<lparr>hw := h\<rparr>)"
      by (subst wait_ready.simps) (simp add: inb_def p)
    then show ?thesis using pl False less.prems by auto
  qed
qed

lemma store16_bytes: "store16 m p w = store_bytes m p (word_bytes w)"
  by (simp add: store16_def word_bytes_def)

lemma read_halves_ok:
  assumes "phase (hw s) = Rd lba n k" and "drq (hw s)" and "0 < n" and "k + m \<le> 256" and "0 < m"
  shows "\<exists>h'. read_halves io m p s = (p + of_nat (2 * m), s\<lparr>hw := h',
      mem := store_bytes (mem s) p (concat (map (\<lambda>i. word_bytes (le16 (sects (hw s) lba) (2 * i))) [k..<k + m]))\<rparr>)
    \<and> sects h' = sects (hw s)
    \<and> phase h' = (if k + m < 256 then Rd lba n (k + m) else if n = 1 then Idle else Rd (lba + 1) (n - 1) 0)"
  using assms(1,2,4,5)
proof (induction m arbitrary: s k p)
  case (Suc m)
  obtain w h where w: "p_inw io 0x1F0 (hw s) = (w, h)" by fastforce
  have "k < 256" using Suc.prems by simp
  note r = recv[OF Suc.prems(1,2) this assms(3) w]
  define s1 where "s1 = s\<lparr>hw := h, mem := store_bytes (mem s) p (word_bytes w)\<rparr>"
  have i: "read_halves io (Suc m) p s = read_halves io m (p + 2) s1"
    by (simp add: inw_def w s1_def store16_bytes)
  have f: "hw s1 = h" "mem s1 = store_bytes (mem s) p (word_bytes w)" by (simp_all add: s1_def)
  have l: "length (word_bytes v) = 2" for v by (simp add: word_bytes_def)
  show ?case
  proof (cases "m = 0")
    case True
    then have "k + Suc m < 256 \<longleftrightarrow> k < 255" by simp
    then show ?thesis using r i True by (intro exI[of _ h]) (simp add: s1_def)
  next
    case False
    then have "phase (hw s1) = Rd lba n (k + 1)" "drq (hw s1)" using r Suc.prems f by auto
    from Suc.IH[OF this, of "p + 2"] False Suc.prems(3) obtain h' where
      "read_halves io m (p + 2) s1 = (p + 2 + of_nat (2 * m), s1\<lparr>hw := h',
        mem := store_bytes (mem s1) (p + 2) (concat (map (\<lambda>i. word_bytes (le16 (sects h lba) (2 * i))) [k + 1..<k + 1 + m]))\<rparr>)"
      "sects h' = sects h"
      "phase h' = (if k + 1 + m < 256 then Rd lba n (k + 1 + m) else if n = 1 then Idle else Rd (lba + 1) (n - 1) 0)"
      by (auto simp: f)
    then show ?thesis using r i
      by (intro exI[of _ h'])
        (simp add: upt_conv_Cons s1_def store_bytes_append l algebra_simps del: upt_Suc)
  qed
next
  case 0
  then show ?case by blast
qed

lemma read_all_ok:
  assumes "phase (hw s) = first_phase lba n (\<lambda>a m. Rd a m 0)"
  shows "\<exists>h'. read_all io n p s
        = Some (s\<lparr>hw := h', mem := store_bytes (mem s) p (concat (map (sects (hw s)) [lba..lba + int n - 1]))\<rparr>)
      \<and> phase h' = Idle \<and> sects h' = sects (hw s)"
  using assms
proof (induction n arbitrary: s lba p)
  case 0
  then show ?case by (intro exI[of _ "hw s"]) (simp add: first_phase_def)
next
  case (Suc n)
  then have ph: "phase (hw s) = Rd lba (Suc n) 0" by (simp add: first_phase_def)
  obtain h1 where h1: "wait_ready io s = Some (s\<lparr>hw := h1\<rparr>)" "phase h1 = phase (hw s)" "sects h1 = sects (hw s)" "drq h1"
    using wait_ready_ok[OF ph] by blast
  have c: "concat (map (\<lambda>i. word_bytes (le16 (sects h1 lba) (2 * i))) [0..<256]) = sects h1 lba"
    by (rule le16_words) (simp add: sects_length)
  have "phase (hw (s\<lparr>hw := h1\<rparr>)) = Rd lba (Suc n) 0" "drq (hw (s\<lparr>hw := h1\<rparr>))" using h1 ph by simp_all
  from read_halves_ok[OF this, of 256 p] obtain h2 where h2:
    "read_halves io 256 p (s\<lparr>hw := h1\<rparr>) = (p + 512, s\<lparr>hw := h2, mem := store_bytes (mem s) p (sects h1 lba)\<rparr>)"
    "sects h2 = sects h1" "phase h2 = (if Suc n = 1 then Idle else Rd (lba + 1) n 0)"
    using c by auto
  let ?s = "s\<lparr>hw := h2, mem := store_bytes (mem s) p (sects h1 lba)\<rparr>"
  have "phase (hw ?s) = first_phase (lba + 1) n (\<lambda>a m. Rd a m 0)" using h2(3) by (simp add: first_phase_def)
  from Suc.IH[OF this, of "p + 512"] obtain h3 where h3: "read_all io n (p + 512) ?s
      = Some (?s\<lparr>hw := h3, mem := store_bytes (mem ?s) (p + 512) (concat (map (sects h2) [lba + 1..lba + 1 + int n - 1]))\<rparr>)"
    "phase h3 = Idle" "sects h3 = sects h2" by auto
  have "read_all io (Suc n) p s = read_all io n (p + 512) ?s"
    using h1(1) h2(1) by (simp add: BOOT_SECTOR_SIZE_def)
  then show ?case using h3 h2(2) h1(3)
    by (intro exI[of _ h3]) (simp only: upto_Cons, simp add: store_bytes_append sects_length)
qed

lemma read_disk_ok:
  assumes "phase (hw s) = Idle" and "0 \<le> lba" and "0 < n" and "lba + int n \<le> nlba" and "n < 2 ^ 16"
  shows "\<exists>h'. read_disk io lba (int n) p s
        = Some (s\<lparr>hw := h', mem := store_bytes (mem s) p (concat (map (sects (hw s)) [lba..lba + int n - 1]))\<rparr>)
      \<and> phase h' = Idle \<and> sects h' = sects (hw s)"
proof -
  have b: "(word_of_int (drop_bit k a) :: u8) = ucast (drop_bit k (word_of_int a :: u32))" if "k \<le> 24" for k and a :: int
    using that by (intro bit_word_eqI) (auto simp: bit_simps)
  let ?h = "port_writes io (command_writes 0x1F0 0 (word_of_int lba) (of_nat n) DISK_CMD_READ) (hw s)"
  have "read_disk io lba (int n) p s = read_all io n p (s\<lparr>hw := ?h\<rparr>)"
    using b[of 0 lba] b[of 8 lba] b[of 16 lba] b[of 24 lba] b[of 0 "int n"] b[of 8 "int n"]
    by (simp add: read_disk_def outb_def port_writes_def command_writes_def Let_def DISK_CMD_READ_def)
  moreover have "phase ?h = Rd lba n 0" "sects ?h = sects (hw s)"
    using command[OF assms, of DISK_CMD_READ] by simp_all
  moreover from this have "phase (hw (s\<lparr>hw := ?h\<rparr>)) = first_phase lba n (\<lambda>a m. Rd a m 0)"
    using assms(3) by (simp add: first_phase_def)
  note read_all_ok[OF this, of p]
  ultimately show ?thesis by auto
qed

end

section \<open>The boot\<close>

text \<open>The image on the disk: the 500 sectors from sector 100 on.\<close>

definition kernel_image :: "(int \<Rightarrow> u8 list) \<Rightarrow> u8 list" where
  "kernel_image sects = concat (map sects [100..599])"

lemma kernel_image_length:
  assumes "\<And>a. length (sects a) = 512"
  shows "length (kernel_image sects) = 256000"
proof -
  have "length (concat (map sects xs)) = 512 * length xs" for xs
    by (induction xs) (simp_all add: assms)
  from this[of "[100..599]"] show ?thesis unfolding kernel_image_def by (simp only: length_upto)
qed

lemma kernel_image_head:
  assumes "i < length (sects 100)"
  shows "kernel_image sects ! i = sects 100 ! i"
proof -
  have "[100..599] = 100 # [101..599 :: int]" using upto_rec1[of 100 "599 :: int"] by simp
  then have "kernel_image sects = sects 100 @ concat (map sects [101..599])"
    unfolding kernel_image_def by (simp only: list.map concat.simps)
  then show ?thesis using assms by (simp only: nth_append if_True)
qed

text \<open>C16: The boot loader places the kernel.  On a drive that keeps the ATA contract, when the 500 sectors
  from sector 100 on hold an ELF file whose segments lie inside it and are placed away from the
  buffer, the loader returns its entry point with paging on; the memory is the one before with
  the file in the buffer and every loadable segment at its physical address, the rest of it
  filled with zeros, and the drive is unchanged.
\<close>

theorem boot_loads_kernel:
  assumes "ata_ready io phase sects drq busy nlba" and "phase (hw s) = Idle" and "600 \<le> nlba"
    and "elf_ok SYS_KERNEL_LOAD_ADDR (kernel_image (sects (hw s)))" and "le32 (kernel_image (sects (hw s))) 24 \<noteq> 0"
  shows "\<exists>h. load_kernel io page_dir s = Some (le32 (kernel_image (sects (hw s))) 24,
      s\<lparr>hw := h, mem := place_image (kernel_image (sects (hw s)))
          (store_bytes (mem s) SYS_KERNEL_LOAD_ADDR (kernel_image (sects (hw s)))),
        cr4 := cr4 s OR CR4_PSE, cr3 := page_dir, cr0 := cr0 s OR CR0_PG\<rparr>)
    \<and> phase h = Idle \<and> sects h = sects (hw s)"
proof -
  define img where "img = kernel_image (sects (hw s))"
  have ata: "ata io 0x1F0 0 phase sects drq busy nlba" using assms(1) by (rule ata_ready.axioms(1))
  have l: "length img \<le> 2 ^ 32"
    unfolding img_def kernel_image_length[OF ata.sects_length[OF ata]] by simp
  have e: "int 500 = 500" "100 + (500 :: int) - 1 = 599" by simp_all
  have rd: "\<exists>h. read_disk io 100 (int 500) SYS_KERNEL_LOAD_ADDR s
      = Some (s\<lparr>hw := h, mem := store_bytes (mem s) SYS_KERNEL_LOAD_ADDR (concat (map (sects (hw s)) [100..100 + int 500 - 1]))\<rparr>)
      \<and> phase h = Idle \<and> sects h = sects (hw s)"
    by (rule ata_ready.read_disk_ok[OF assms(1,2)]) (use assms(3) in simp_all)
  obtain h where h: "read_disk io 100 500 SYS_KERNEL_LOAD_ADDR s
      = Some (s\<lparr>hw := h, mem := store_bytes (mem s) SYS_KERNEL_LOAD_ADDR img\<rparr>)" "phase h = Idle" "sects h = sects (hw s)"
    using rd unfolding e img_def kernel_image_def by blast
  have "elf_ok SYS_KERNEL_LOAD_ADDR img" using assms(4) by (simp add: img_def)
  from reload_elf_ok[OF l this mem_has_store[OF l]] h assms(5) show ?thesis
    by (intro exI[of _ h]) (simp add: load_kernel_def enable_page_mode_def Let_def img_def[symmetric])
qed

text \<open>A kernel of one segment of four bytes and four zeros, linked at 64 KiB.\<close>

definition demo_kernel :: "u8 list" where
  "demo_kernel =
    [127, 69, 76, 70, 0, 0, 0, 0, 0, 0, 0, 0, 0, 0, 0, 0, 0, 0, 0, 0, 0, 0,
     0, 0, 0, 0, 1, 0, 52, 0, 0, 0, 0, 0, 0, 0, 0, 0, 0, 0, 0, 0, 0, 0,
     1, 0, 0, 0, 0, 0, 0, 0, 1, 0, 0, 0, 84, 0, 0, 0, 0, 0, 1, 0, 0, 0,
     1, 0, 4, 0, 0, 0, 8, 0, 0, 0, 0, 0, 0, 0, 0, 0, 0, 0, 235, 254, 144, 244]"

lemma demo_kernel_length: "length demo_kernel = 88"
  by (simp add: demo_kernel_def)

definition demo_ldr :: "sim ldr" where
  "demo_ldr = cpu.extend (demo_cpu (demo_sim (\<lambda>_. demo_kernel))) \<lparr>gdtr = loader_gdt, cr0 = 1, cr4 = 0\<rparr>"

interpretation boot: ata_ready sim_io sim_phase sim_sects "\<lambda>h. sim_busy h = 0" sim_busy "2 ^ 31"
  by unfold_locales (auto simp: sim_io_def sim_inb_def split: if_splits)

lemma demo_image_nth:
  assumes "i < 88"
  shows "kernel_image (sim_sects (demo_sim (\<lambda>_. demo_kernel))) ! i = demo_kernel ! i"
  using assms by (subst kernel_image_head) (simp_all add: sim_sects_def demo_sim_def nth_append demo_kernel_length)

lemma demo_image_length: "length (kernel_image (sim_sects h)) = 256000"
  by (rule kernel_image_length) (simp add: sim_sects_def)

lemma demo_image_fields:
  defines "img \<equiv> kernel_image (sim_sects (demo_sim (\<lambda>_. demo_kernel)))"
  shows "le32 img 24 = 0x10000" and "le32 img 28 = 52" and "le16 img 44 = 1" and "le32 img 52 = 1"
    and "le32 img 56 = 84" and "le32 img 64 = 0x10000" and "le32 img 68 = 4" and "le32 img 72 = 8"
    and "take 4 img = [0x7F, 0x45, 0x4C, 0x46]" and "img ! 85 = 0xFE"
proof -
  note n = demo_image_nth[folded img_def]
  show "le32 img 24 = 0x10000" "le32 img 28 = 52" "le16 img 44 = 1" "le32 img 52 = 1" "le32 img 56 = 84"
    "le32 img 64 = 0x10000" "le32 img 68 = 4" "le32 img 72 = 8"
    by (simp_all add: le32_def le16_def n) (simp_all add: demo_kernel_def)
  show "img ! 85 = 0xFE" by (simp add: n) (simp add: demo_kernel_def)
  have "take 4 img = map ((!) img) [0..<4]" using demo_image_length[of "demo_sim (\<lambda>_. demo_kernel)"]
    by (simp add: list_eq_iff_nth_eq img_def)
  also have "\<dots> = [0x7F, 0x45, 0x4C, 0x46]" by (simp add: upt_rec n) (simp add: demo_kernel_def)
  finally show "take 4 img = [0x7F, 0x45, 0x4C, 0x46]" .
qed

lemma demo_image_ok: "elf_ok SYS_KERNEL_LOAD_ADDR (kernel_image (sim_sects (demo_sim (\<lambda>_. demo_kernel))))"
proof -
  note f = demo_image_fields
  have "256000 \<le> unat (a - SYS_KERNEL_LOAD_ADDR)" if "unat (a - 0x10000) < 8" for a :: u32
  proof -
    have a: "a = 0x10000 + of_nat (unat (a - 0x10000))" using offset_addr[of a "0x10000"] by simp
    have "a - SYS_KERNEL_LOAD_ADDR = of_nat (unat (a - 0x10000) + 4293984256)"
      by (subst a) (simp add: SYS_KERNEL_LOAD_ADDR_def)
    moreover have "unat (of_nat (unat (a - 0x10000) + 4293984256) :: u32) = unat (a - 0x10000) + 4293984256"
      by (rule unat_of_nat32) (use that in simp)
    ultimately have "unat (a - SYS_KERNEL_LOAD_ADDR) = unat (a - 0x10000) + 4293984256" by (simp only:)
    then show ?thesis by simp
  qed
  then show ?thesis
    by (simp add: elf_ok_def seg_ok_def ph_at_def f demo_image_length)
qed

theorem boot_loads_kernel_witness:
  "\<exists>s'. load_kernel sim_io 0x5000 demo_ldr = Some (0x10000, s') \<and> mem s' 0x10001 = 0xFE \<and> mem s' 0x10006 = 0"
proof -
  let ?sim = "demo_sim (\<lambda>_. demo_kernel)"
  have hw: "hw demo_ldr = ?sim" by (simp add: demo_ldr_def demo_cpu_def cpu.defs mm.defs)
  have i: "sim_phase (hw demo_ldr) = Idle" "elf_ok SYS_KERNEL_LOAD_ADDR (kernel_image (sim_sects (hw demo_ldr)))"
    "le32 (kernel_image (sim_sects (hw demo_ldr))) 24 \<noteq> 0"
    by (simp_all add: hw demo_image_ok demo_image_fields) (simp add: demo_sim_def)
  show ?thesis
    using boot_loads_kernel[OF boot.ata_ready_axioms i(1) _ i(2,3), of "0x5000"]
    by (auto simp: hw demo_image_fields place_image_def ph_at_def place_seg_def)
qed

end
