(* ===== verification/Applib.thy ===== *)
theory Applib
  imports Trap
begin

text \<open>
  The programs' side of the system calls (\<^verbatim>\<open>applib/lib_syscall.c\<close>): every stub fills in the
  call number and the arguments and enters the kernel through the call gate, which puts them
  on the kernel stack of the task under the saved registers.  The result of a stub is what
  the call logs, its value once the caller runs again (\<open>None\<close> while another task runs
  instead) and the state.

  \<open>regs\<close> and \<open>stk\<close> are the saved registers and stack pointer, \<open>uninit\<close> the argument structure
  as the stack holds it, \<open>no_return\<close> what a caller finds in the result register of a function
  that ends without a return statement, and \<open>malloc_at\<close>, \<open>free_at\<close> the C library's allocator.
\<close>

record syscall_args =
  sa_id :: u32
  sa_arg0 :: u32
  sa_arg1 :: u32
  sa_arg2 :: u32
  sa_arg3 :: u32

record ('h, 'w, 's) app =
  env :: "('h, 'w, 's) sys_env"
  regs :: "u32 list"
  stk :: "u32 list"
  uninit :: syscall_args
  no_return :: "u32 \<Rightarrow> int"
  malloc_at :: "u32 \<Rightarrow> 's \<Rightarrow> (u32 \<times> 's) option"
  free_at :: "u32 \<Rightarrow> 's \<Rightarrow> 's option"

type_synonym ('r, 's) app_result = "(log_line list \<times> 'r option \<times> 's) option"

type_synonym ('h, 'w, 'm) app_ctx = "('h, 'w, ('h, 'w, 'm) os_scheme) app"

type_synonym ('r, 'h, 'w, 'm) call = "('h, 'w, 'm) os_scheme \<Rightarrow> ('r, ('h, 'w, 'm) os_scheme) app_result"

section \<open>The gate\<close>

primrec store_words :: "memory \<Rightarrow> u32 \<Rightarrow> u32 list \<Rightarrow> memory" where
  "store_words m a [] = m"
| "store_words m a (w # ws) = store_words (store32 m a w) (a + 4) ws"

definition push_frame :: "u32 list \<Rightarrow> u32 list \<Rightarrow> syscall_args \<Rightarrow> u32 \<Rightarrow> 'm mm_scheme \<Rightarrow> 'm mm_scheme" where
  "push_frame rs sp args f s = s\<lparr>mem := store_words (mem s) f
     (rs @ [sa_id args, sa_arg0 args, sa_arg1 args, sa_arg2 args, sa_arg3 args] @ sp)\<rparr>"

definition sys_call :: "('h, 'w, 'm) app_ctx \<Rightarrow> syscall_args \<Rightarrow> (u32, 'h, 'w, 'm) call" where
  "sys_call a args s =
    do {
      c \<leftarrow> curr_task s;
      let f = syscall_frame_at (tss (tasks s c));
      (lines, s) \<leftarrow> handle_syscall (env a) f (push_frame (regs a) (stk a) args f s);
      Some (lines, if curr_task s = Some c then Some (load32 (mem s) (f + 48)) else None, s)
    }"

definition value_of :: "('a \<Rightarrow> 'b) \<Rightarrow> ('a, 's) app_result \<Rightarrow> ('b, 's) app_result" where
  "value_of g r = map_option (\<lambda>(lines, v, s). (lines, map_option g v, s)) r"

abbreviation int_of :: "(u32, 's) app_result \<Rightarrow> (int, 's) app_result" where
  "int_of r \<equiv> value_of sint r"

abbreviation done_of :: "(u32, 's) app_result \<Rightarrow> (unit, 's) app_result" where
  "done_of r \<equiv> value_of (\<lambda>_. ()) r"

section \<open>The stubs\<close>

definition app_sleep :: "('h, 'w, 'm) app_ctx \<Rightarrow> int \<Rightarrow> (unit, 'h, 'w, 'm) call" where
  "app_sleep a ms s =
    (if ms \<le> 0 then Some ([], Some (), s)
     else done_of (sys_call a ((uninit a)\<lparr>sa_id := SYS_SLEEP, sa_arg0 := word_of_int ms\<rparr>) s))"

definition app_getpid :: "('h, 'w, 'm) app_ctx \<Rightarrow> (int, 'h, 'w, 'm) call" where
  "app_getpid a s = int_of (sys_call a ((uninit a)\<lparr>sa_id := SYS_GETPID\<rparr>) s)"

definition print_msg :: "('h, 'w, 'm) app_ctx \<Rightarrow> u32 \<Rightarrow> int \<Rightarrow> (unit, 'h, 'w, 'm) call" where
  "print_msg a fmt arg s =
    done_of (sys_call a ((uninit a)\<lparr>sa_id := SYS_PRINT_MSG, sa_arg0 := fmt, sa_arg1 := word_of_int arg\<rparr>) s)"

definition app_fork :: "('h, 'w, 'm) app_ctx \<Rightarrow> (int, 'h, 'w, 'm) call" where
  "app_fork a s = value_of (no_return a) (sys_call a ((uninit a)\<lparr>sa_id := SYS_FORK\<rparr>) s)"

definition app_execve :: "('h, 'w, 'm) app_ctx \<Rightarrow> u32 \<Rightarrow> u32 \<Rightarrow> u32 \<Rightarrow> (int, 'h, 'w, 'm) call" where
  "app_execve a name argv envp s =
    int_of (sys_call a ((uninit a)\<lparr>sa_id := SYS_EXECVE, sa_arg0 := name, sa_arg1 := argv, sa_arg2 := envp\<rparr>) s)"

definition app_yeild :: "('h, 'w, 'm) app_ctx \<Rightarrow> (int, 'h, 'w, 'm) call" where
  "app_yeild a s = value_of (no_return a) (sys_call a ((uninit a)\<lparr>sa_id := SYS_YEILD\<rparr>) s)"

definition app_open :: "('h, 'w, 'm) app_ctx \<Rightarrow> u32 \<Rightarrow> int \<Rightarrow> (int, 'h, 'w, 'm) call" where
  "app_open a name flags s =
    int_of (sys_call a ((uninit a)\<lparr>sa_id := SYS_OPEN, sa_arg0 := name, sa_arg1 := word_of_int flags\<rparr>) s)"

definition app_read :: "('h, 'w, 'm) app_ctx \<Rightarrow> int \<Rightarrow> u32 \<Rightarrow> int \<Rightarrow> (int, 'h, 'w, 'm) call" where
  "app_read a fl ptr len s =
    int_of (sys_call a ((uninit a)\<lparr>sa_id := SYS_READ, sa_arg0 := word_of_int fl, sa_arg1 := ptr, sa_arg2 := word_of_int len\<rparr>) s)"

definition app_write :: "('h, 'w, 'm) app_ctx \<Rightarrow> int \<Rightarrow> u32 \<Rightarrow> int \<Rightarrow> (int, 'h, 'w, 'm) call" where
  "app_write a fl ptr len s =
    int_of (sys_call a ((uninit a)\<lparr>sa_id := SYS_WRITE, sa_arg0 := word_of_int fl, sa_arg1 := ptr, sa_arg2 := word_of_int len\<rparr>) s)"

definition app_close :: "('h, 'w, 'm) app_ctx \<Rightarrow> int \<Rightarrow> (int, 'h, 'w, 'm) call" where
  "app_close a fl s = int_of (sys_call a ((uninit a)\<lparr>sa_id := SYS_CLOSE, sa_arg0 := word_of_int fl\<rparr>) s)"

definition app_lseek :: "('h, 'w, 'm) app_ctx \<Rightarrow> int \<Rightarrow> int \<Rightarrow> int \<Rightarrow> (int, 'h, 'w, 'm) call" where
  "app_lseek a fl ptr dir s =
    int_of (sys_call a ((uninit a)\<lparr>sa_id := SYS_LSEEK, sa_arg0 := word_of_int fl, sa_arg1 := word_of_int ptr,
      sa_arg2 := word_of_int dir\<rparr>) s)"

definition app_isatty :: "('h, 'w, 'm) app_ctx \<Rightarrow> int \<Rightarrow> (int, 'h, 'w, 'm) call" where
  "app_isatty a fl s = int_of (sys_call a ((uninit a)\<lparr>sa_id := SYS_ISATTY, sa_arg0 := word_of_int fl\<rparr>) s)"

definition app_ioctl :: "('h, 'w, 'm) app_ctx \<Rightarrow> int \<Rightarrow> int \<Rightarrow> int \<Rightarrow> int \<Rightarrow> (int, 'h, 'w, 'm) call" where
  "app_ioctl a fl cmd arg0 arg1 s =
    int_of (sys_call a ((uninit a)\<lparr>sa_id := SYS_IOCTL, sa_arg0 := word_of_int fl, sa_arg1 := word_of_int cmd,
      sa_arg2 := word_of_int arg0, sa_arg3 := word_of_int arg1\<rparr>) s)"

definition app_fstat :: "('h, 'w, 'm) app_ctx \<Rightarrow> int \<Rightarrow> u32 \<Rightarrow> (int, 'h, 'w, 'm) call" where
  "app_fstat a fl st s =
    int_of (sys_call a ((uninit a)\<lparr>sa_id := SYS_FSTAT, sa_arg0 := word_of_int fl, sa_arg1 := st\<rparr>) s)"

definition app_sbrk :: "('h, 'w, 'm) app_ctx \<Rightarrow> int \<Rightarrow> (u32, 'h, 'w, 'm) call" where
  "app_sbrk a incr s = sys_call a ((uninit a)\<lparr>sa_id := SYS_SBRK, sa_arg0 := word_of_int incr\<rparr>) s"

definition app_dup :: "('h, 'w, 'm) app_ctx \<Rightarrow> int \<Rightarrow> (int, 'h, 'w, 'm) call" where
  "app_dup a fl s = int_of (sys_call a ((uninit a)\<lparr>sa_id := SYS_DUP, sa_arg0 := word_of_int fl\<rparr>) s)"

text \<open>A call that comes back spins for ever.\<close>

definition app_exit :: "('h, 'w, 'm) app_ctx \<Rightarrow> int \<Rightarrow> ('h, 'w, 'm) os_scheme \<Rightarrow> (log_line list \<times> ('h, 'w, 'm) os_scheme) option" where
  "app_exit a st s =
    do {
      (lines, v, s) \<leftarrow> sys_call a ((uninit a)\<lparr>sa_id := SYS_EXIT, sa_arg0 := word_of_int st\<rparr>) s;
      if v = None then Some (lines, s) else None
    }"

definition app_wait :: "('h, 'w, 'm) app_ctx \<Rightarrow> u32 \<Rightarrow> (int, 'h, 'w, 'm) call" where
  "app_wait a st s = int_of (sys_call a ((uninit a)\<lparr>sa_id := SYS_WAIT, sa_arg0 := st\<rparr>) s)"

text \<open>A directory handle is 272 bytes: its index and, from byte 4 on, the entry last read.\<close>

definition app_opendir :: "('h, 'w, 'm) app_ctx \<Rightarrow> u32 \<Rightarrow> (u32, 'h, 'w, 'm) call" where
  "app_opendir a path s =
    do {
      (dir, s) \<leftarrow> malloc_at a 272 s;
      if dir = 0 then Some ([], Some dir, s)
      else do {
        (lines, err, s) \<leftarrow> int_of (sys_call a ((uninit a)\<lparr>sa_id := SYS_OPENDIR, sa_arg0 := path, sa_arg1 := dir\<rparr>) s);
        case err of
          None \<Rightarrow> Some (lines, None, s)
        | Some e \<Rightarrow>
            if e < 0 then do { s \<leftarrow> free_at a dir s; Some (lines, Some 0, s) }
            else Some (lines, Some dir, s)
      }
    }"

definition app_readdir :: "('h, 'w, 'm) app_ctx \<Rightarrow> u32 \<Rightarrow> (u32, 'h, 'w, 'm) call" where
  "app_readdir a dir s =
    value_of (\<lambda>err. if sint err < 0 then 0 else dir + 4)
      (sys_call a ((uninit a)\<lparr>sa_id := SYS_READDIR, sa_arg0 := dir, sa_arg1 := dir + 4\<rparr>) s)"

definition app_closedir :: "('h, 'w, 'm) app_ctx \<Rightarrow> u32 \<Rightarrow> (int, 'h, 'w, 'm) call" where
  "app_closedir a dir s =
    do {
      (lines, v, s) \<leftarrow> sys_call a ((uninit a)\<lparr>sa_id := SYS_CLOSEDIR, sa_arg0 := dir\<rparr>) s;
      if v = None then Some (lines, None, s)
      else do { s \<leftarrow> free_at a dir s; Some (lines, Some 0, s) }
    }"

definition app_unlink :: "('h, 'w, 'm) app_ctx \<Rightarrow> u32 \<Rightarrow> (int, 'h, 'w, 'm) call" where
  "app_unlink a pathname s = int_of (sys_call a ((uninit a)\<lparr>sa_id := SYS_UNLINK, sa_arg0 := pathname\<rparr>) s)"

definition app_gettimeofday :: "('h, 'w, 'm) app_ctx \<Rightarrow> u32 \<Rightarrow> u32 \<Rightarrow> (int, 'h, 'w, 'm) call" where
  "app_gettimeofday a tv tz s =
    int_of (sys_call a ((uninit a)\<lparr>sa_id := SYS_GETTIMEOFDAY, sa_arg0 := tv, sa_arg1 := tz\<rparr>) s)"

definition app_gmtime_r :: "('h, 'w, 'm) app_ctx \<Rightarrow> u32 \<Rightarrow> u32 \<Rightarrow> (u32, 'h, 'w, 'm) call" where
  "app_gmtime_r a timep result s =
    sys_call a ((uninit a)\<lparr>sa_id := SYS_GMTIME_R, sa_arg0 := timep, sa_arg1 := result\<rparr>) s"

definition app_power :: "('h, 'w, 'm) app_ctx \<Rightarrow> int \<Rightarrow> (int, 'h, 'w, 'm) call" where
  "app_power a st s = int_of (sys_call a ((uninit a)\<lparr>sa_id := SYS_POWER, sa_arg0 := word_of_int st\<rparr>) s)"

definition app_save_history :: "('h, 'w, 'm) app_ctx \<Rightarrow> int \<Rightarrow> u32 \<Rightarrow> (int, 'h, 'w, 'm) call" where
  "app_save_history a console_num cmd s =
    int_of (sys_call a ((uninit a)\<lparr>sa_id := SYS_SAVE_HISTORY, sa_arg0 := word_of_int console_num, sa_arg1 := cmd\<rparr>) s)"

definition app_get_history :: "('h, 'w, 'm) app_ctx \<Rightarrow> int \<Rightarrow> u32 \<Rightarrow> (unit, 'h, 'w, 'm) call" where
  "app_get_history a console_num arr s =
    done_of (sys_call a ((uninit a)\<lparr>sa_id := SYS_GET_HISTORY, sa_arg0 := word_of_int console_num, sa_arg1 := arr\<rparr>) s)"

section \<open>What crosses the gate\<close>

lemma store_words_other:
  "4 * length ws \<le> unat (x - f) \<Longrightarrow> store_words m f ws x = m x"
proof (induction ws arbitrary: m f)
  case (Cons w ws)
  then have "unat (x - (f + 4)) = unat (x - f) - 4" using stretch_offset[of 4 x f] by simp
  moreover have "4 \<le> x - f" using Cons.prems by (simp add: word_le_nat_alt)
  ultimately show ?case using Cons by (simp add: store32_other)
qed simp

lemma load32_store_words:
  "i < length ws \<Longrightarrow> 4 * length ws \<le> 2 ^ 32 \<Longrightarrow> load32 (store_words m f ws) (f + 4 * of_nat i) = ws ! i"
proof (induction ws arbitrary: m f i)
  case (Cons w ws)
  show ?case
  proof (cases i)
    case 0
    have "store_words (store32 m f w) (f + 4) ws (f + of_nat k) = store32 m f w (f + of_nat k)" if "k < 4" for k
    proof (rule store_words_other)
      show "4 * length ws \<le> unat (f + of_nat k - (f + 4))"
        using before_stretch[of k 4 "2 ^ 32" f] that Cons.prems(2) by simp
    qed
    from this[of 0] this[of 1] this[of 2] this[of 3] show ?thesis
      using load32_store32_same[of m f w] 0 by (simp add: load32_def)
  next
    case (Suc j)
    then show ?thesis using Cons.IH[of j "store32 m f w" "f + 4"] Cons.prems by (simp add: algebra_simps)
  qed
qed simp

lemma frame_at_gate:
  fixes s :: "'m mm_scheme"
  assumes "length rs = 15" and "length sp = 2"
  shows "frame_func f (push_frame rs sp args f s) = sa_id args"
    and "frame_arg f 0 (push_frame rs sp args f s) = sa_arg0 args" and "frame_arg f 1 (push_frame rs sp args f s) = sa_arg1 args"
    and "frame_arg f 2 (push_frame rs sp args f s) = sa_arg2 args" and "frame_arg f 3 (push_frame rs sp args f s) = sa_arg3 args"
proof -
  let ?ws = "rs @ [sa_id args, sa_arg0 args, sa_arg1 args, sa_arg2 args, sa_arg3 args] @ sp"
  let ?s = "push_frame rs sp args f s"
  have w: "load32 (mem ?s) (f + 4 * of_nat i) = ?ws ! i" if "i < 22" for i
    using load32_store_words[of i ?ws "mem s" f] that assms by (simp add: push_frame_def)
  show "frame_func f ?s = sa_id args" "frame_arg f 0 ?s = sa_arg0 args" "frame_arg f 1 ?s = sa_arg1 args"
    "frame_arg f 2 ?s = sa_arg2 args" "frame_arg f 3 ?s = sa_arg3 args"
    using w[of 15] w[of 16] w[of 17] w[of 18] w[of 19] assms(1)
    by (simp_all add: frame_func_def frame_arg_def nth_append add.assoc)
qed

lemma sys_table_bound: "sys_table e nr = Some h \<Longrightarrow> nr < SYS_TABLE_SIZE"
proof -
  assume "sys_table e nr = Some h"
  then have "nr \<in> set syscall_ids" using sys_table_unknown[of nr e] by fastforce
  moreover have "\<forall>x \<in> set syscall_ids. x < SYS_TABLE_SIZE"
    by (simp add: syscall_ids_def SYS_TABLE_SIZE_def SYS_SLEEP_def SYS_GETPID_def SYS_EXECVE_def SYS_FORK_def SYS_YEILD_def
        SYS_EXIT_def SYS_WAIT_def SYS_OPEN_def SYS_READ_def SYS_WRITE_def SYS_CLOSE_def SYS_LSEEK_def SYS_ISATTY_def
        SYS_FSTAT_def SYS_SBRK_def SYS_DUP_def SYS_IOCTL_def SYS_OPENDIR_def SYS_READDIR_def SYS_CLOSEDIR_def
        SYS_UNLINK_def SYS_PRINT_MSG_def SYS_GETTIMEOFDAY_def SYS_GMTIME_R_def SYS_POWER_def SYS_SAVE_HISTORY_def
        SYS_GET_HISTORY_def)
  ultimately show ?thesis by blast
qed

lemma sys_call_ok:
  assumes "curr_task s = Some c" and "length (regs a) = 15" and "length (stk a) = 2"
    and "f = syscall_frame_at (tss (tasks s c))" and "sys_table (env a) (sa_id args) = Some h"
    and "h (sa_arg0 args) (sa_arg1 args) (sa_arg2 args) (sa_arg3 args) (push_frame (regs a) (stk a) args f s) = Some (lines, ret, s')"
    and "curr_task s' = Some c"
  shows "sys_call a args s = Some (lines, Some ret, set_eax f ret s')"
  using assms sys_table_bound[OF assms(5)]
  by (simp add: sys_call_def handle_syscall_def sys_table_entry_def frame_at_gate[OF assms(2,3)] Let_def set_eax_def load32_store32_same)
    (simp add: push_frame_def load32_store32_same)

text \<open>C17: A system call reaches its handler with the arguments the program gave, and the handler's result
  reaches the program.  For a known call that returns to its caller, what the program sees is
  exactly the handler of the table applied to the four arguments, in the state in which the
  frame has been pushed on the caller's kernel stack.
\<close>

theorem syscall_delivers:
  assumes "curr_task s = Some c" and "length (regs a) = 15" and "length (stk a) = 2"
    and "f = syscall_frame_at (tss (tasks s c))" and "sys_table (env a) (sa_id args) = Some h"
    and "h (sa_arg0 args) (sa_arg1 args) (sa_arg2 args) (sa_arg3 args) (push_frame (regs a) (stk a) args f s) = Some (lines, ret, s')"
    and "curr_task s' = Some c"
  shows "sys_call a args s = Some (lines, Some ret, set_eax f ret s')"
  by (rule sys_call_ok[OF assms])

definition demo_app :: "(unit, unit, unit) app_ctx" where
  "demo_app = \<lparr>env = demo_env, regs = replicate 15 0, stk = [0, 0],
     uninit = \<lparr>sa_id = 0, sa_arg0 = 0, sa_arg1 = 0, sa_arg2 = 0, sa_arg3 = 0\<rparr>, no_return = uint,
     malloc_at = (\<lambda>_ _. None), free_at = (\<lambda>_ _. None)\<rparr>"

theorem syscall_delivers_witness:
  "\<exists>s'. sys_call demo_app ((uninit demo_app)\<lparr>sa_id := SYS_GETPID\<rparr>) life_os
    = Some ([], Some (word_of_int (tid (life_task (Table_task 1)))), s')"
proof -
  let ?args = "(uninit demo_app)\<lparr>sa_id := SYS_GETPID\<rparr>" and ?f = "syscall_frame_at (tss (life_task (Table_task 1)))"
  let ?h = "\<lambda>a0 a1 a2 a3 s. quiet (map_option (\<lambda>r. (r, s)) (sys_getpid s))"
  have h: "sys_table (env demo_app) (sa_id ?args) = Some ?h"
    by (simp add: sys_table_def SYS_GETPID_def SYS_SLEEP_def)
  show ?thesis
    using syscall_delivers[OF life_facts(2)[of "()"] _ _ _ h, of ?f "[]" "word_of_int (tid (life_task (Table_task 1)))"]
    by (simp add: demo_app_def sys_getpid_def task_current_def push_frame_def quiet_def)
qed

text \<open>The number of the running task, as its program sees it.\<close>

lemma app_getpid_ok:
  assumes "curr_task s = Some c" and "length (regs a) = 15" and "length (stk a) = 2"
  shows "\<exists>s'. app_getpid a s = Some ([], Some (sint (word_of_int (tid (tasks s c)) :: u32)), s')
    \<and> curr_task s' = Some c \<and> tasks s' = tasks s"
proof -
  let ?args = "(uninit a)\<lparr>sa_id := SYS_GETPID\<rparr>" and ?f = "syscall_frame_at (tss (tasks s c))"
  let ?h = "\<lambda>a0 a1 a2 a3 s. quiet (map_option (\<lambda>r. (r, s)) (sys_getpid s))"
  let ?v = "word_of_int (tid (tasks s c)) :: u32" and ?s = "push_frame (regs a) (stk a) ?args ?f s"
  have h: "sys_table (env a) (sa_id ?args) = Some ?h"
    by (simp add: sys_table_def SYS_GETPID_def SYS_SLEEP_def)
  have "sys_call a ?args s = Some ([], Some ?v, set_eax ?f ?v ?s)"
    by (rule sys_call_ok[OF assms refl h])
      (use assms(1) in \<open>simp_all add: push_frame_def quiet_def sys_getpid_def task_current_def\<close>)
  then show ?thesis using assms(1) by (simp add: app_getpid_def value_of_def set_eax_def push_frame_def)
qed

end
