(* ===== verification/Shell.thy ===== *)
theory Shell
  imports Prelude
begin

text \<open>
  The command shell (\<^verbatim>\<open>shell/main.c\<close>, \<^verbatim>\<open>shell/cmd_executor.c\<close>, \<^verbatim>\<open>shell/cmd\<close>): splitting the
  input line, finding and running built-in commands and programs, and the history line.  The
  input buffer is a list of characters ended by a null character; the words of the command
  are offsets into it, for the code splits the line in place.

  The system calls and the C library are the argument \<open>lib\<close> of the definitions, functions on
  the state \<open>ext\<close> they share; formatted output is a format with its arguments.  \<open>None\<close> means
  that the shell does not go on: it has been replaced, has exited or has run into undefined
  behaviour.
\<close>

section \<open>The C library and the system calls\<close>

datatype argp = At nat | Junk u32
datatype stream = Stdout | Stderr
datatype handle = Stdin | Opened nat
datatype parg = PStr string | PInt int | PChar char

record tm_fields =
  f_year :: int
  f_mon :: int
  f_mday :: int
  f_hour :: int
  f_min :: int
  f_sec :: int

record 's libc =
  c_open :: "string \<Rightarrow> int \<Rightarrow> 's \<Rightarrow> int \<times> 's"
  c_close :: "int \<Rightarrow> 's \<Rightarrow> 's"
  c_dup :: "int \<Rightarrow> 's \<Rightarrow> 's"
  c_fork :: "'s \<Rightarrow> (int \<times> 's) option"
  c_execve :: "string \<Rightarrow> string \<Rightarrow> argp list \<Rightarrow> 's \<Rightarrow> (int \<times> 's) option"
  c_wait :: "'s \<Rightarrow> (int \<times> int \<times> 's) option"
  c_unlink :: "string \<Rightarrow> 's \<Rightarrow> int \<times> 's"
  c_power :: "int \<Rightarrow> 's \<Rightarrow> int \<times> 's"
  c_ioctl :: "int \<Rightarrow> int \<Rightarrow> int \<Rightarrow> int \<Rightarrow> 's \<Rightarrow> 's"
  c_save_history :: "int \<Rightarrow> string \<Rightarrow> 's \<Rightarrow> 's"
  c_get_history :: "int \<Rightarrow> 's \<Rightarrow> 's"
  c_opendir :: "string \<Rightarrow> 's \<Rightarrow> nat option \<times> 's"
  c_readdir :: "nat \<Rightarrow> 's \<Rightarrow> (int \<times> string \<times> int) option \<times> 's"
  c_closedir :: "nat \<Rightarrow> 's \<Rightarrow> 's"
  c_printf :: "stream \<Rightarrow> string \<Rightarrow> parg list \<Rightarrow> 's \<Rightarrow> 's"
  c_puts :: "string \<Rightarrow> 's \<Rightarrow> 's"
  c_fputs :: "string \<Rightarrow> 's \<Rightarrow> 's"
  c_flush :: "'s \<Rightarrow> 's"
  c_setvbuf :: "bool \<Rightarrow> 's \<Rightarrow> 's"
  c_fopen :: "string \<Rightarrow> string \<Rightarrow> 's \<Rightarrow> nat option \<times> 's"
  c_fclose :: "nat \<Rightarrow> 's \<Rightarrow> 's"
  c_fgets :: "nat \<Rightarrow> handle \<Rightarrow> 's \<Rightarrow> (string option \<times> 's) option"
  c_fgetc :: "'s \<Rightarrow> (int \<times> 's) option"
  c_fread :: "nat \<Rightarrow> nat \<Rightarrow> 's \<Rightarrow> string \<times> 's"
  c_fwrite :: "string \<Rightarrow> nat \<Rightarrow> 's \<Rightarrow> 's"
  c_getopt :: "string \<Rightarrow> nat \<Rightarrow> argp list \<Rightarrow> string \<Rightarrow> 's \<Rightarrow> int \<times> argp list \<times> 's"
  c_optarg :: "'s \<Rightarrow> string option"
  c_optind :: "'s \<Rightarrow> nat"
  c_set_optind :: "nat \<Rightarrow> 's \<Rightarrow> 's"
  c_atoi :: "string \<Rightarrow> int"
  c_scan_tty :: "string \<Rightarrow> int option"
  c_localtime :: "'s \<Rightarrow> tm_fields \<times> 's"

section \<open>The shell's state\<close>

definition SHELL_INPUT_SIZE :: nat where "SHELL_INPUT_SIZE = 128"
definition CLI_MAX_ARG_COUNT :: nat where "CLI_MAX_ARG_COUNT = 10"
definition prompt :: string where "prompt = ''[root@localhost ~] # ''"

abbreviation NUL :: char where "NUL \<equiv> CHR 0x00"
abbreviation LF :: char where "LF \<equiv> CHR 0x0A"
abbreviation CR :: char where "CR \<equiv> CHR 0x0D"
abbreviation SP :: char where "SP \<equiv> CHR 0x20"
abbreviation ESC :: char where "ESC \<equiv> CHR 0x1B"

definition ESC_COLOR_ERROR :: string where "ESC_COLOR_ERROR = ESC # ''[31m''"
definition ESC_COLOR_DEFAULT :: string where "ESC_COLOR_DEFAULT = ESC # ''[39m''"
definition ESC_CLEAR_SCREEN :: string where "ESC_CLEAR_SCREEN = ESC # ''[2J''"
definition ESC_MOVE_CURSOR :: string where "ESC_MOVE_CURSOR = ESC # ''[0;0H''"

datatype command = Help | Clear | Echo | Exit | Ls | Less | Cp | Rm | Cat | Date | Reboot | Touch | History

record cli_cmd_t =
  cname :: string
  usage :: string
  do_func :: command

definition cmd_list :: "cli_cmd_t list" where
  "cmd_list =
    [\<lparr>cname = ''help'', usage = ''help -- list supported command'', do_func = Help\<rparr>,
     \<lparr>cname = ''clear'', usage = ''clear: clear screen'', do_func = Clear\<rparr>,
     \<lparr>cname = ''echo'', usage = ''echo [-n count] msg'', do_func = Echo\<rparr>,
     \<lparr>cname = ''exit'', usage = ''exit from shell'', do_func = Exit\<rparr>,
     \<lparr>cname = ''ls'', usage = ''list directory'', do_func = Ls\<rparr>,
     \<lparr>cname = ''ll'', usage = ''list directory'', do_func = Ls\<rparr>,
     \<lparr>cname = ''less'', usage = ''less file'', do_func = Less\<rparr>,
     \<lparr>cname = ''cp'', usage = ''cp src dest'', do_func = Cp\<rparr>,
     \<lparr>cname = ''rm'', usage = ''rm file'', do_func = Rm\<rparr>,
     \<lparr>cname = ''cat'', usage = ''cat file'', do_func = Cat\<rparr>,
     \<lparr>cname = ''date'', usage = ''show current date'', do_func = Date\<rparr>,
     \<lparr>cname = ''reboot'', usage = ''reboot kernel'', do_func = Reboot\<rparr>,
     \<lparr>cname = ''touch'', usage = ''touch [file]'', do_func = Touch\<rparr>,
     \<lparr>cname = ''history'', usage = ''show history command'', do_func = History\<rparr>]"

text \<open>\<open>path\<close> is the static buffer of \<^verbatim>\<open>find_exec_path\<close>, empty at first.\<close>

record 's cli_t =
  curr_input :: string
  console_num :: int
  path :: string
  ext :: 's

definition on_ext :: "('s \<Rightarrow> 's) \<Rightarrow> 's cli_t \<Rightarrow> 's cli_t" where
  "on_ext f s = s\<lparr>ext := f (ext s)\<rparr>"

definition result_ext :: "('s \<Rightarrow> 'a \<times> 's) \<Rightarrow> 's cli_t \<Rightarrow> 'a \<times> 's cli_t" where
  "result_ext f s = (case f (ext s) of (r, e) \<Rightarrow> (r, s\<lparr>ext := e\<rparr>))"

definition may_ext :: "('s \<Rightarrow> ('a \<times> 's) option) \<Rightarrow> 's cli_t \<Rightarrow> ('a \<times> 's cli_t) option" where
  "may_ext f s = map_option (\<lambda>(r, e). (r, s\<lparr>ext := e\<rparr>)) (f (ext s))"

section \<open>Splitting the line\<close>

definition cstr :: "string \<Rightarrow> nat \<Rightarrow> string" where
  "cstr buf i = takeWhile (\<lambda>c. c \<noteq> NUL) (drop i buf)"

definition cut_at :: "char \<Rightarrow> string \<Rightarrow> string" where
  "cut_at c buf =
    (let line = cstr buf 0
     in if c \<in> set line then buf[length (takeWhile (\<lambda>x. x \<noteq> c) line) := NUL] else buf)"

text \<open>
  \<^verbatim>\<open>strtok\<close>: skip the blanks, and end the word at the next blank or at the end of the line;
  the results are the word and where the next call starts.  A buffer without a null
  character is read past its end.
\<close>

definition strtok :: "nat option \<Rightarrow> string \<Rightarrow> (nat option \<times> nat option \<times> string) option" where
  "strtok lasts buf =
    (case lasts of
       None \<Rightarrow> Some (None, None, buf)
     | Some i \<Rightarrow>
         if NUL \<notin> set (drop i buf) then None
         else let j = i + length (takeWhile (\<lambda>c. c = SP) (drop i buf))
           in if buf ! j = NUL then Some (None, None, buf)
              else let e = j + length (takeWhile (\<lambda>c. c \<noteq> SP \<and> c \<noteq> NUL) (drop j buf))
                in if buf ! e = NUL then Some (Some j, None, buf)
                   else Some (Some j, Some (e + 1), buf[e := NUL]))"

text \<open>The array of the words has ten entries; the loop stores up to eleven.\<close>

function parse_loop :: "nat \<Rightarrow> argp list \<Rightarrow> nat option \<Rightarrow> nat option \<Rightarrow> string \<Rightarrow> (nat \<times> argp list \<times> string) option" where
  "parse_loop argc argv token lasts buf =
    (case token of
       Some t \<Rightarrow>
         if argc \<le> CLI_MAX_ARG_COUNT
         then if length argv \<le> argc then None
              else do {
                (token, lasts, buf) \<leftarrow> strtok lasts buf;
                parse_loop (argc + 1) (argv[argc := At t]) token lasts buf
              }
         else Some (argc, argv, buf)
     | None \<Rightarrow> Some (argc, argv, buf))"
  by pat_completeness auto
termination by (relation "measure (\<lambda>(argc, argv, token, lasts, buf). 11 - argc)") (auto simp: CLI_MAX_ARG_COUNT_def)

declare parse_loop.simps [simp del]

definition parse_arg :: "argp list \<Rightarrow> 's cli_t \<Rightarrow> (nat \<times> argp list \<times> 's cli_t) option" where
  "parse_arg argv s =
    do {
      let buf = cut_at CR (cut_at LF (curr_input s));
      (token, lasts, buf) \<leftarrow> strtok (Some 0) buf;
      (argc, argv, buf) \<leftarrow> parse_loop 0 argv token lasts buf;
      Some (argc, argv, s\<lparr>curr_input := buf\<rparr>)
    }"

definition arg :: "argp list \<Rightarrow> nat \<Rightarrow> 's cli_t \<Rightarrow> string option" where
  "arg argv i s =
    (if i < length argv then (case argv ! i of At k \<Rightarrow> Some (cstr (curr_input s) k) | Junk w \<Rightarrow> None) else None)"

section \<open>The commands\<close>

type_synonym 's cmd = "'s libc \<Rightarrow> nat \<Rightarrow> argp list \<Rightarrow> 's cli_t \<Rightarrow> (int \<times> 's cli_t) option"

definition out :: "'s libc \<Rightarrow> string \<Rightarrow> parg list \<Rightarrow> 's cli_t \<Rightarrow> 's cli_t" where
  "out lib fmt args s = on_ext (c_printf lib Stdout fmt args) s"

definition err :: "'s libc \<Rightarrow> string \<Rightarrow> parg list \<Rightarrow> 's cli_t \<Rightarrow> 's cli_t" where
  "err lib fmt args s = on_ext (c_printf lib Stderr fmt args) s"

definition do_help :: "'s cmd" where
  "do_help lib argc argv s =
    Some (0, foldl (\<lambda>s c. out lib (''%s %s'' @ [LF]) [PStr (cname c), PStr (usage c)] s) s cmd_list)"

definition do_clear :: "'s cmd" where
  "do_clear lib argc argv s =
    (let s = out lib ''%s'' [PStr ESC_CLEAR_SCREEN] s
     in Some (0, out lib ''%s'' [PStr ESC_MOVE_CURSOR] s))"

definition do_exit :: "'s cmd" where
  "do_exit lib argc argv s = None"

definition do_reboot :: "'s cmd" where
  "do_reboot lib argc argv s = Some (result_ext (c_power lib 1) s)"

definition do_history :: "'s cmd" where
  "do_history lib argc argv s = Some (0, on_ext (c_get_history lib (console_num s)) s)"

definition do_rm :: "'s cmd" where
  "do_rm lib argc argv s =
    (if argc < 2 then Some (- 1, err lib ''no file'' [] s)
     else do {
       name \<leftarrow> arg argv 1 s;
       case result_ext (c_unlink lib name) s of (r, s) \<Rightarrow>
         if r < 0 then Some (r, err lib ''rm file failed: %s'' [PStr name] s) else Some (0, s)
     })"

definition do_touch :: "'s cmd" where
  "do_touch lib argc argv s =
    (if argc \<noteq> 2 then Some (- 1, err lib ''no [file]'' [] s)
     else do {
       name \<leftarrow> arg argv 1 s;
       case result_ext (c_fopen lib name ''wb'') s of
         (None, s) \<Rightarrow> Some (0, err lib ''touch failed: %s'' [PStr name] s)
       | (Some f, s) \<Rightarrow> Some (0, on_ext (c_fclose lib f) s)
     })"

text \<open>Reading lines to the end of a file, and blocks of 255 bytes.\<close>

partial_function (option) print_lines :: "'s libc \<Rightarrow> nat \<Rightarrow> 's cli_t \<Rightarrow> 's cli_t option" where
  "print_lines lib f s =
    do {
      (line, s) \<leftarrow> may_ext (c_fgets lib 255 (Opened f)) s;
      case line of None \<Rightarrow> Some s | Some l \<Rightarrow> print_lines lib f (on_ext (c_fputs lib l) s)
    }"

text \<open>A file that cannot be opened is the null pointer, and \<^verbatim>\<open>fgets\<close> follows it.\<close>

definition do_cat :: "'s cmd" where
  "do_cat lib argc argv s =
    (if argc \<noteq> 2 then Some (- 1, err lib ''cat invalid param'' [] s)
     else do {
       name \<leftarrow> arg argv (argc - 1) s;
       case result_ext (c_fopen lib name ''r'') s of
         (None, s) \<Rightarrow> None
       | (Some f, s) \<Rightarrow> do { s \<leftarrow> print_lines lib f s; Some (0, on_ext (c_fclose lib f) s) }
     })"

partial_function (option) copy_blocks :: "'s libc \<Rightarrow> nat \<Rightarrow> nat \<Rightarrow> 's cli_t \<Rightarrow> 's cli_t option" where
  "copy_blocks lib from to s =
    (case result_ext (c_fread lib 255 from) s of (block, s) \<Rightarrow>
      if 0 < length block then copy_blocks lib from to (on_ext (c_fwrite lib block to) s) else Some s)"

definition close_opt :: "'s libc \<Rightarrow> nat option \<Rightarrow> 's cli_t \<Rightarrow> 's cli_t" where
  "close_opt lib f s = (case f of None \<Rightarrow> s | Some f \<Rightarrow> on_ext (c_fclose lib f) s)"

definition do_cp :: "'s cmd" where
  "do_cp lib argc argv s =
    (if argc < 3 then Some (- 1, err lib ''no [src] or no [dest]'' [] s)
     else do {
       src \<leftarrow> arg argv 1 s;
       dest \<leftarrow> arg argv 2 s;
       let (from, s) = result_ext (c_fopen lib src ''rb'') s;
       let (to, s) = result_ext (c_fopen lib dest ''wb'') s;
       s \<leftarrow> (case (from, to) of
               (Some f, Some t) \<Rightarrow> copy_blocks lib f t s
             | _ \<Rightarrow> Some (err lib ''open file failed'' [] s));
       Some (0, close_opt lib to (close_opt lib from s))
     })"

definition do_date :: "'s cmd" where
  "do_date lib argc argv s =
    (case result_ext (c_localtime lib) s of (p, s) \<Rightarrow>
      Some (0, out lib (''%d/%d/%d %02d:%02d:%02d'' @ [LF])
        [PInt (1900 + f_year p), PInt (1 + f_mon p), PInt (f_mday p), PInt (f_hour p), PInt (f_min p), PInt (f_sec p)] s))"

definition lower :: "char \<Rightarrow> char" where
  "lower c = (if 65 \<le> (of_char c :: nat) \<and> (of_char c :: nat) \<le> 90 then char_of (of_char c + 32 :: nat) else c)"

partial_function (option) list_entries :: "'s libc \<Rightarrow> nat \<Rightarrow> 's cli_t \<Rightarrow> 's cli_t option" where
  "list_entries lib dir s =
    (case result_ext (c_readdir lib dir) s of
       (None, s) \<Rightarrow> Some s
     | (Some (type, name, sz), s) \<Rightarrow>
         list_entries lib dir (out lib (''%c %s %d'' @ [LF])
           [PChar (if type = 2 then CHR ''d'' else CHR ''f''), PStr (map lower name), PInt sz] s))"

definition do_ls :: "'s cmd" where
  "do_ls lib argc argv s =
    (case result_ext (c_opendir lib ''temp'') s of
       (None, s) \<Rightarrow> Some (- 1, out lib (''open dir failed.'' @ [LF]) [] s)
     | (Some dir, s) \<Rightarrow> do { s \<leftarrow> list_entries lib dir s; Some (0, on_ext (c_closedir lib dir) s) })"

text \<open>Options: the library may reorder the words, and the loop ends in a return or goes on.\<close>

datatype ('a, 's) opts = Return int "'s cli_t" | Parsed "argp list" 'a "'s cli_t"

definition getopt :: "'s libc \<Rightarrow> nat \<Rightarrow> argp list \<Rightarrow> string \<Rightarrow> 's cli_t \<Rightarrow> int \<times> argp list \<times> 's cli_t" where
  "getopt lib argc argv options s =
    (case c_getopt lib (curr_input s) argc argv options (ext s) of (ch, argv, e) \<Rightarrow> (ch, argv, s\<lparr>ext := e\<rparr>))"

definition reset_optind :: "'s libc \<Rightarrow> 's cli_t \<Rightarrow> 's cli_t" where
  "reset_optind lib s = on_ext (c_set_optind lib 1) s"

definition unknown_option :: "'s libc \<Rightarrow> string \<Rightarrow> 's cli_t \<Rightarrow> 's cli_t" where
  "unknown_option lib fmt s =
    reset_optind lib (case c_optarg lib (ext s) of Some a \<Rightarrow> err lib fmt [PStr a] s | None \<Rightarrow> s)"

partial_function (option) echo_opts :: "'s libc \<Rightarrow> nat \<Rightarrow> argp list \<Rightarrow> int \<Rightarrow> bool \<Rightarrow> 's cli_t
    \<Rightarrow> (int \<times> bool, 's) opts option" where
  "echo_opts lib argc argv count n s =
    (case getopt lib argc argv ''n:h'' s of (ch, argv, s) \<Rightarrow>
       if ch = - 1 then Some (Parsed argv (count, n) s)
       else if ch = int (of_char CHR ''h'') then
         Some (Return 0 (reset_optind lib
           (on_ext (c_puts lib ''Usage: echo [-n count] message'') (on_ext (c_puts lib ''echo any message'') s))))
       else if ch = int (of_char CHR ''n'') then
         (case c_optarg lib (ext s) of None \<Rightarrow> None | Some a \<Rightarrow> echo_opts lib argc argv (c_atoi lib a) True s)
       else if ch = int (of_char CHR 0x3F) then Some (Return (- 1) (unknown_option lib ''Unknown option: -%s'' s))
       else echo_opts lib argc argv count n s)"

primrec puts_times :: "'s libc \<Rightarrow> string \<Rightarrow> nat \<Rightarrow> 's cli_t \<Rightarrow> 's cli_t" where
  "puts_times lib msg 0 s = s"
| "puts_times lib msg (Suc n) s = puts_times lib msg n (on_ext (c_puts lib msg) s)"

text \<open>The words are printed as formats, each with one empty string to print.\<close>

fun echo_words :: "'s libc \<Rightarrow> argp list \<Rightarrow> nat list \<Rightarrow> 's cli_t \<Rightarrow> 's cli_t option" where
  "echo_words lib argv [] s = Some s"
| "echo_words lib argv (i # is) s =
    do { w \<leftarrow> arg argv i s; echo_words lib argv is (out lib '' '' [] (out lib w [PStr []] s)) }"

definition do_echo :: "'s cmd" where
  "do_echo lib argc argv s =
    (if argc = 1 then do {
       (line, s) \<leftarrow> may_ext (c_fgets lib 128 Stdin) s;
       msg \<leftarrow> line;
       Some (0, on_ext (c_puts lib msg) s)
     }
     else do {
       r \<leftarrow> echo_opts lib argc argv 1 False s;
       case r of
         Return v s \<Rightarrow> Some (v, s)
       | Parsed argv (count, n) s \<Rightarrow>
           if argc \<le> c_optind lib (ext s)
           then Some (- 1, reset_optind lib (err lib (''Message is empty '' @ [LF]) [] s))
           else if n then do {
             msg \<leftarrow> arg argv (c_optind lib (ext s)) s;
             Some (0, reset_optind lib (puts_times lib msg (nat count) s))
           }
           else do {
             s \<leftarrow> echo_words lib argv [1..<argc] s;
             Some (0, reset_optind lib (out lib [LF] [] s))
           }
     })"

partial_function (option) less_opts :: "'s libc \<Rightarrow> nat \<Rightarrow> argp list \<Rightarrow> bool \<Rightarrow> 's cli_t \<Rightarrow> (bool, 's) opts option" where
  "less_opts lib argc argv line_mode s =
    (case getopt lib argc argv ''lh'' s of (ch, argv, s) \<Rightarrow>
       if ch = - 1 then Some (Parsed argv line_mode s)
       else if ch = int (of_char CHR ''h'') then
         less_opts lib argc argv line_mode
           (on_ext (c_puts lib ''-l show file line by line.'') (on_ext (c_puts lib ''less [-l] file'')
             (on_ext (c_puts lib ''show file content'') s)))
       else if ch = int (of_char CHR ''l'') then less_opts lib argc argv True s
       else if ch = int (of_char CHR 0x3F) then Some (Return (- 1) (unknown_option lib (''Unknown option: -%s'' @ [LF]) s))
       else less_opts lib argc argv line_mode s)"

text \<open>Wait for the key \<open>n\<close>; \<open>q\<close> leaves.\<close>

partial_function (option) wait_key :: "'s libc \<Rightarrow> 's cli_t \<Rightarrow> (bool \<times> 's cli_t) option" where
  "wait_key lib s =
    do {
      (ch, s) \<leftarrow> may_ext (c_fgetc lib) s;
      if ch = int (of_char CHR ''n'') then Some (False, s)
      else if ch = int (of_char CHR ''q'') then Some (True, s)
      else wait_key lib s
    }"

partial_function (option) page_lines :: "'s libc \<Rightarrow> nat \<Rightarrow> 's cli_t \<Rightarrow> 's cli_t option" where
  "page_lines lib f s =
    do {
      (line, s) \<leftarrow> may_ext (c_fgets lib 255 (Opened f)) s;
      case line of
        None \<Rightarrow> Some s
      | Some l \<Rightarrow> do {
          (quit, s) \<leftarrow> wait_key lib (on_ext (c_fputs lib l) s);
          if quit then Some s else page_lines lib f s
        }
    }"

definition do_less :: "'s cmd" where
  "do_less lib argc argv s =
    do {
      r \<leftarrow> less_opts lib argc argv False s;
      case r of
        Return v s \<Rightarrow> Some (v, s)
      | Parsed argv line_mode s \<Rightarrow>
          if argc \<le> c_optind lib (ext s) then Some (- 1, reset_optind lib (err lib (''no file'' @ [LF]) [] s))
          else do {
            name \<leftarrow> arg argv (c_optind lib (ext s)) s;
            case result_ext (c_fopen lib name ''r'') s of
              (None, s) \<Rightarrow> Some (- 1, reset_optind lib (err lib ''open file failed. %s'' [PStr name] s))
            | (Some f, s) \<Rightarrow> do {
                s \<leftarrow> (if \<not> line_mode then print_lines lib f s
                     else do {
                       s \<leftarrow> page_lines lib f (on_ext (c_ioctl lib 0 1 0 0) (on_ext (c_setvbuf lib False) s));
                       Some (on_ext (c_ioctl lib 0 1 1 0) (on_ext (c_setvbuf lib True) s))
                     });
                Some (0, reset_optind lib (on_ext (c_fclose lib f) s))
              }
          }
    }"

fun run_command :: "command \<Rightarrow> 's cmd" where
  "run_command Help = do_help"
| "run_command Clear = do_clear"
| "run_command Echo = do_echo"
| "run_command Exit = do_exit"
| "run_command Ls = do_ls"
| "run_command Less = do_less"
| "run_command Cp = do_cp"
| "run_command Rm = do_rm"
| "run_command Cat = do_cat"
| "run_command Date = do_date"
| "run_command Reboot = do_reboot"
| "run_command Touch = do_touch"
| "run_command History = do_history"

section \<open>Running a line\<close>

definition find_builtin :: "string \<Rightarrow> cli_cmd_t option" where
  "find_builtin name = find (\<lambda>c. cname c = name) cmd_list"

definition run_builtin :: "'s libc \<Rightarrow> cli_cmd_t \<Rightarrow> nat \<Rightarrow> argp list \<Rightarrow> 's cli_t \<Rightarrow> 's cli_t option" where
  "run_builtin lib c argc argv s =
    do {
      (ret, s) \<leftarrow> run_command (do_func c) lib argc argv s;
      Some (if ret < 0 then err lib (ESC_COLOR_ERROR @ ''error: %d'' @ [LF] @ ESC_COLOR_DEFAULT) [PInt ret] s else s)
    }"

definition find_exec_path :: "'s libc \<Rightarrow> string \<Rightarrow> 's cli_t \<Rightarrow> string option \<times> 's cli_t" where
  "find_exec_path lib filename s =
    (case result_ext (c_open lib filename 0) s of (fd, s) \<Rightarrow>
       let (fd, s) = (if fd < 0 then let s = s\<lparr>path := filename @ ''.elf''\<rparr> in result_ext (c_open lib (path s) 0) s
                      else (fd, s))
       in if fd < 0 then (None, s) else (Some (path s), on_ext (c_close lib fd) s))"

definition run_exec_file :: "'s libc \<Rightarrow> string \<Rightarrow> nat \<Rightarrow> argp list \<Rightarrow> 's cli_t \<Rightarrow> 's cli_t option" where
  "run_exec_file lib file_path argc argv s =
    do {
      (pid, s) \<leftarrow> may_ext (c_fork lib) s;
      if pid < 0 then Some (err lib ''fork failed %s'' [PStr file_path] s)
      else if pid = 0 then do {
        (e, s) \<leftarrow> may_ext (c_execve lib file_path (curr_input s) argv) s;
        None
      }
      else do {
        (pid, status, s) \<leftarrow> map_option (\<lambda>(p, st, e). (p, st, s\<lparr>ext := e\<rparr>)) (c_wait lib (ext s));
        Some (err lib (''cmd %s result = %d, pid = %d'' @ [LF]) [PStr file_path, PInt status, PInt pid] s)
      }
    }"

fun join_args :: "argp list \<Rightarrow> nat \<Rightarrow> nat list \<Rightarrow> string \<Rightarrow> 's cli_t \<Rightarrow> string option" where
  "join_args argv argc [] acc s = Some acc"
| "join_args argv argc (i # is) acc s =
    do {
      w \<leftarrow> arg argv i s;
      let acc = acc @ w;
      let acc = (if int i < int argc - 1 then acc @ [SP] else acc);
      if SHELL_INPUT_SIZE \<le> length acc then None else join_args argv argc is acc s
    }"

definition pre_exec :: "'s libc \<Rightarrow> nat \<Rightarrow> argp list \<Rightarrow> 's cli_t \<Rightarrow> 's cli_t option" where
  "pre_exec lib argc argv s =
    do {
      arg_string \<leftarrow> join_args argv argc [0..<argc] [] s;
      Some (on_ext (c_save_history lib (console_num s) arg_string) s)
    }"

definition exec :: "'s libc \<Rightarrow> nat \<Rightarrow> argp list \<Rightarrow> 's cli_t \<Rightarrow> 's cli_t option" where
  "exec lib argc argv s =
    do {
      name \<leftarrow> arg argv 0 s;
      case find_builtin name of
        Some c \<Rightarrow> do { s \<leftarrow> pre_exec lib argc argv s; run_builtin lib c argc argv s }
      | None \<Rightarrow>
          (case find_exec_path lib name s of
             (Some p, s) \<Rightarrow> do { s \<leftarrow> pre_exec lib argc argv s; run_exec_file lib p argc argv s }
           | (None, s) \<Rightarrow>
               Some (err lib (ESC_COLOR_ERROR @ ''%s: command not found'' @ [LF] @ ESC_COLOR_DEFAULT)
                 [PStr (cstr (curr_input s) 0)] s))
    }"

text \<open>One round of \<^verbatim>\<open>hang\<close>; the array of the words is what the stack holds.\<close>

definition hang_round :: "'s libc \<Rightarrow> u32 list \<Rightarrow> 's cli_t \<Rightarrow> 's cli_t option" where
  "hang_round lib junk s =
    do {
      let s = on_ext (c_flush lib) (out lib ''%s'' [PStr prompt] s);
      (str, s) \<leftarrow> may_ext (c_fgets lib SHELL_INPUT_SIZE Stdin) s;
      case str of
        None \<Rightarrow> Some s
      | Some line \<Rightarrow> do {
          let s = s\<lparr>curr_input := line @ NUL # drop (length line + 1) (curr_input s)\<rparr>;
          (argc, argv, s) \<leftarrow> parse_arg (map Junk (take CLI_MAX_ARG_COUNT junk)) s;
          if argc \<noteq> 0 then exec lib argc argv s else Some s
        }
    }"

definition cli_init :: "'s libc \<Rightarrow> int \<Rightarrow> string \<Rightarrow> 's cli_t \<Rightarrow> 's cli_t" where
  "cli_init lib unset argv0 s =
    s\<lparr>curr_input := replicate SHELL_INPUT_SIZE NUL,
      console_num := (case c_scan_tty lib argv0 of Some n \<Rightarrow> n | None \<Rightarrow> unset)\<rparr>"

text \<open>\<^verbatim>\<open>main\<close> up to its endless loop: the terminal becomes input, output and error output.\<close>

definition shell_start :: "'s libc \<Rightarrow> int \<Rightarrow> string \<Rightarrow> 's cli_t \<Rightarrow> 's cli_t" where
  "shell_start lib unset argv0 s =
    (case result_ext (c_open lib argv0 2) s of (fd, s) \<Rightarrow>
      cli_init lib unset argv0 (on_ext (c_dup lib fd) (on_ext (c_dup lib fd) s)))"

section \<open>Words\<close>

text \<open>The words of a line, and a line made of words.\<close>

function words :: "string \<Rightarrow> string list" where
  "words xs = (let ys = dropWhile (\<lambda>c. c = SP) xs
     in if ys = [] then [] else takeWhile (\<lambda>c. c \<noteq> SP) ys # words (dropWhile (\<lambda>c. c \<noteq> SP) ys))"
  by pat_completeness auto
termination
proof (relation "measure length", goal_cases)
  case (2 xs ys)
  obtain y zs where ys: "ys = y # zs" using 2(2) by (cases ys) simp_all
  then have "y \<noteq> SP" using 2(1) hd_dropWhile[of "\<lambda>c. c = SP" xs] by simp
  then have "length (dropWhile (\<lambda>c. c \<noteq> SP) ys) \<le> length zs" using ys by (simp add: length_dropWhile_le)
  also have "\<dots> < length ys" by (simp add: ys)
  also have "\<dots> \<le> length xs" using 2(1) by (simp add: length_dropWhile_le)
  finally show ?case by simp
qed simp

declare words.simps [simp del]

primrec unwords :: "string list \<Rightarrow> string" where
  "unwords [] = []"
| "unwords (w # ws) = w @ (if ws = [] then [] else SP # unwords ws)"

definition word :: "string \<Rightarrow> bool" where
  "word w \<longleftrightarrow> w \<noteq> [] \<and> SP \<notin> set w"

lemma words_blank: "words (SP # xs) = words xs"
  by (subst (1 2) words.simps) simp

lemma words_Nil: "words [] = []"
  by (subst words.simps) simp

lemma words_blanks: "set sp \<subseteq> {SP} \<Longrightarrow> words (sp @ xs) = words xs"
  by (induction sp) (auto simp: words_blank)

lemma words_cons:
  assumes "word w"
  shows "words (w @ xs) = (if xs = [] \<or> hd xs = SP then w # words xs else words (w @ xs))"
proof (cases "xs = [] \<or> hd xs = SP")
  case True
  obtain c cs where w: "w = c # cs" "c \<noteq> SP" "SP \<notin> set cs" using assms by (cases w) (auto simp: word_def)
  have d: "dropWhile (\<lambda>c. c \<noteq> SP) xs = xs" "takeWhile (\<lambda>c. c \<noteq> SP) xs = []" using True by (cases xs; simp)+
  have "dropWhile (\<lambda>c. c \<noteq> SP) (w @ xs) = xs" "takeWhile (\<lambda>c. c \<noteq> SP) (w @ xs) = w"
    using w d by (auto simp: dropWhile_append takeWhile_append)
  moreover have "dropWhile (\<lambda>c. c = SP) (w @ xs) = w @ xs" using w by simp
  ultimately have "words (w @ xs) = w # words xs" using w(1) by (subst words.simps) (simp add: Let_def)
  then show ?thesis using True by simp
qed simp

text \<open>Every line is blanks, or blanks, a word, and the end or a blank and the rest.\<close>

lemma line_cases:
  obtains (blank) "set xs \<subseteq> {SP}" | (last) sp w where "xs = sp @ w" "set sp \<subseteq> {SP}" "word w"
  | (more) sp w ys where "xs = sp @ w @ SP # ys" "set sp \<subseteq> {SP}" "word w"
proof -
  define sp where "sp = takeWhile (\<lambda>c. c = SP) xs"
  define ys where "ys = dropWhile (\<lambda>c. c = SP) xs"
  define w where "w = takeWhile (\<lambda>c. c \<noteq> SP) ys"
  define zs where "zs = dropWhile (\<lambda>c. c \<noteq> SP) ys"
  have sp: "set sp \<subseteq> {SP}" by (auto simp: sp_def dest: set_takeWhileD)
  have xs: "xs = sp @ ys" "ys = w @ zs" by (simp_all add: sp_def ys_def w_def zs_def)
  have nSP: "SP \<notin> set w" by (auto simp: w_def dest: set_takeWhileD)
  show ?thesis
  proof (cases "ys = []")
    case True
    then show ?thesis using sp xs(1) blank by simp
  next
    case False
    then have "hd ys \<noteq> SP" using hd_dropWhile unfolding ys_def by blast
    then have "w \<noteq> []" using False unfolding w_def by (cases ys) auto
    with nSP have w: "word w" by (simp add: word_def)
    show ?thesis
    proof (cases zs)
      case Nil
      then show ?thesis using last[of sp w] xs sp w by simp
    next
      case (Cons c cs)
      then have "c = SP" using hd_dropWhile[of "\<lambda>c. c \<noteq> SP" ys] unfolding zs_def by fastforce
      then show ?thesis using more[of sp w cs] xs sp w Cons by simp
    qed
  qed
qed

lemma words_ok: "w \<in> set (words xs) \<Longrightarrow> word w \<and> set w \<subseteq> set xs"
proof (induction "length xs" arbitrary: xs rule: less_induct)
  case less
  show ?case
  proof (cases rule: line_cases[of xs])
    case blank
    then show ?thesis using less.prems words_blanks[of xs "[]"] by (simp add: words_Nil)
  next
    case (last sp v)
    then show ?thesis using less.prems words_cons[OF last(3), of "[]"] by (auto simp: words_blanks words_Nil)
  next
    case (more sp v ys)
    then have "words xs = v # words ys"
      using words_cons[OF more(3), of "SP # ys"] by (simp add: words_blanks words_blank)
    then show ?thesis using less.prems less.hyps[of ys] more by auto
  qed
qed

lemma words_unwords: "\<forall>w \<in> set ws. word w \<Longrightarrow> words (unwords ws) = ws"
proof (induction ws)
  case (Cons w ws)
  then show ?case using words_cons[of w "if ws = [] then [] else SP # unwords ws"]
    by (cases "ws = []") (simp_all add: words_Nil words_blank)
qed (simp add: words_Nil)

lemma unwords_length: "length (unwords (words xs)) \<le> length xs"
proof (induction "length xs" arbitrary: xs rule: less_induct)
  case less
  show ?case
  proof (cases rule: line_cases[of xs])
    case blank
    then show ?thesis using words_blanks[of xs "[]"] by (simp add: words_Nil)
  next
    case (last sp v)
    then show ?thesis using words_cons[OF last(3), of "[]"] by (simp add: words_blanks words_Nil)
  next
    case (more sp v ys)
    then have "words xs = v # words ys"
      using words_cons[OF more(3), of "SP # ys"] by (simp add: words_blanks words_blank)
    then show ?thesis using less.hyps[of ys] more by simp
  qed
qed

section \<open>The line in place\<close>

lemma takeWhile_stop: "\<forall>x \<in> set xs. P x \<Longrightarrow> \<not> P y \<Longrightarrow> takeWhile P (xs @ y # zs) = xs"
  by (induction xs) auto

lemma blanks_stop: "set sp \<subseteq> {SP} \<Longrightarrow> y \<noteq> SP \<Longrightarrow> takeWhile (\<lambda>c. c = SP) (sp @ y # zs) = sp"
  by (rule takeWhile_stop) auto

lemma strtok_blank:
  "set sp \<subseteq> {SP} \<Longrightarrow> strtok (Some (length pre)) (pre @ sp @ NUL # post) = Some (None, None, pre @ sp @ NUL # post)"
  by (simp add: strtok_def blanks_stop Let_def nth_append)

lemma strtok_last:
  assumes "set sp \<subseteq> {SP}" and "word w" and "NUL \<notin> set w"
  shows "strtok (Some (length pre)) (pre @ sp @ w @ NUL # post)
    = Some (Some (length pre + length sp), None, pre @ sp @ w @ NUL # post)"
proof -
  obtain c cs where w: "w = c # cs" "c \<noteq> SP" "c \<noteq> NUL" using assms(2,3) by (cases w) (auto simp: word_def)
  have "takeWhile (\<lambda>c. c = SP) (sp @ w @ NUL # post) = sp" using assms(1) w by (simp add: blanks_stop)
  moreover have "takeWhile (\<lambda>c. c \<noteq> SP \<and> c \<noteq> NUL) (w @ NUL # post) = w"
    using assms(2,3) by (intro takeWhile_stop) (auto simp: word_def)
  ultimately show ?thesis using w by (simp add: strtok_def Let_def nth_append)
qed

lemma strtok_more:
  assumes "set sp \<subseteq> {SP}" and "word w" and "NUL \<notin> set w"
  shows "strtok (Some (length pre)) (pre @ sp @ w @ SP # ys @ NUL # post)
    = Some (Some (length pre + length sp), Some (length (pre @ sp @ w @ [NUL])), pre @ sp @ w @ NUL # ys @ NUL # post)"
proof -
  obtain c cs where w: "w = c # cs" "c \<noteq> SP" "c \<noteq> NUL" using assms(2,3) by (cases w) (auto simp: word_def)
  have "takeWhile (\<lambda>c. c = SP) (sp @ w @ SP # ys @ NUL # post) = sp" using assms(1) w by (simp add: blanks_stop)
  moreover have "takeWhile (\<lambda>c. c \<noteq> SP \<and> c \<noteq> NUL) (w @ SP # ys @ NUL # post) = w"
    using assms(2,3) by (intro takeWhile_stop) (auto simp: word_def)
  ultimately show ?thesis using w by (simp add: strtok_def Let_def nth_append list_update_append)
qed

lemma cstr_at: "NUL \<notin> set w \<Longrightarrow> cstr (pre @ w @ NUL # post) (length pre) = w"
  unfolding cstr_def by (simp, rule takeWhile_stop) auto

lemma parse_end: "parse_loop argc argv None lasts buf = Some (argc, argv, buf)"
  by (subst parse_loop.simps) simp

lemma parse_last:
  "length argv = 10 \<Longrightarrow> parse_loop argc argv (Some t) None buf
    = (if argc < 10 then Some (argc + 1, argv[argc := At t], buf) else if argc = 10 then None else Some (argc, argv, buf))"
  by (subst parse_loop.simps) (auto simp: strtok_def parse_end CLI_MAX_ARG_COUNT_def)

definition args_hold :: "argp list \<Rightarrow> nat \<Rightarrow> string list \<Rightarrow> string \<Rightarrow> bool" where
  "args_hold argv n ws buf \<longleftrightarrow> (\<forall>k < length ws. \<exists>j. argv ! (n + k) = At j \<and> cstr buf j = ws ! k)"

lemma args_hold_Cons:
  "argv ! n = At j \<Longrightarrow> cstr buf j = w \<Longrightarrow> args_hold argv (n + 1) ws buf \<Longrightarrow> args_hold argv n (w # ws) buf"
  unfolding args_hold_def by (auto simp: less_Suc_eq_0_disj)

lemma parse_words:
  assumes "length argv = 10" and "argc \<le> 10" and "NUL \<notin> set line"
  shows "if argc + 1 + length (words line) \<le> 10
    then \<exists>argv' b. parse_loop argc argv (Some t) (Some (length pre)) (pre @ line @ NUL # post)
        = Some (argc + 1 + length (words line), argv', pre @ b) \<and> length argv' = 10
      \<and> length b = length (line @ NUL # post)
      \<and> (\<forall>k < argc. argv' ! k = argv ! k) \<and> argv' ! argc = At t \<and> args_hold argv' (argc + 1) (words line) (pre @ b)
    else parse_loop argc argv (Some t) (Some (length pre)) (pre @ line @ NUL # post) = None"
  using assms
proof (induction "length line" arbitrary: argc argv t pre line rule: less_induct)
  case less
  show ?case
  proof (cases "argc = 10")
    case True
    then show ?thesis using less.prems by (subst (2) parse_loop.simps) (simp add: CLI_MAX_ARG_COUNT_def)
  next
    case False
    then have n: "argc < 10" using less.prems by simp
    have step: "strtok (Some (length pre)) (pre @ line @ NUL # post) = Some (tok, la, buf) \<Longrightarrow>
        parse_loop argc argv (Some t) (Some (length pre)) (pre @ line @ NUL # post)
        = parse_loop (argc + 1) (argv[argc := At t]) tok la buf" for tok la buf
      using n less.prems(1) by (subst parse_loop.simps) (simp add: CLI_MAX_ARG_COUNT_def)
    have l: "length (argv[argc := At t]) = 10" using less.prems(1) by simp
    have keep: "\<forall>k < argc. argv[argc := At t] ! k = argv ! k" "argv[argc := At t] ! argc = At t"
      using n less.prems(1) by auto
    show ?thesis
    proof (cases rule: line_cases[of line])
      case blank
      then have "words line = []" using words_blanks[of line "[]"] by (simp add: words_Nil)
      then show ?thesis using step[OF strtok_blank[OF blank]] n keep l
        by (intro if_P[THEN iffD2] exI[of _ "argv[argc := At t]"] exI[of _ "line @ NUL # post"])
          (simp_all add: parse_end args_hold_def)
    next
      case (last sp w)
      have w: "NUL \<notin> set w" using last(1) less.prems(3) by simp
      have ws: "words line = [w]" using words_cons[OF last(3), of "[]"] last by (simp add: words_blanks words_Nil)
      have st: "parse_loop argc argv (Some t) (Some (length pre)) (pre @ line @ NUL # post)
        = parse_loop (argc + 1) (argv[argc := At t]) (Some (length pre + length sp)) None (pre @ line @ NUL # post)"
        using step[of "Some (length pre + length sp)" None "pre @ line @ NUL # post"] strtok_last[OF last(2,3) w] last(1) by simp
      have c: "cstr (pre @ line @ NUL # post) (length pre + length sp) = w"
        using cstr_at[OF w, of "pre @ sp" post] last(1) by simp
      show ?thesis
      proof (cases "argc + 1 < 10")
        case True
        define av where "av = argv[argc := At t, argc + 1 := At (length pre + length sp)]"
        have "av ! (argc + 1) = At (length pre + length sp)" "av ! argc = At t" "\<forall>k < argc. av ! k = argv ! k" "length av = 10"
          using True less.prems(1) by (simp_all add: av_def)
        moreover have "parse_loop argc argv (Some t) (Some (length pre)) (pre @ line @ NUL # post)
          = Some (argc + 2, av, pre @ line @ NUL # post)"
          unfolding st parse_last[OF l] using True by (simp add: av_def)
        ultimately show ?thesis using True c by (auto simp: ws args_hold_def)
      next
        case nlt: False
        then show ?thesis unfolding st parse_last[OF l] ws using n by auto
      qed
    next
      case (more sp w ys)
      have w: "NUL \<notin> set w" "NUL \<notin> set ys" using more(1) less.prems(3) by simp_all
      have ws: "words line = w # words ys"
        using words_cons[OF more(3), of "SP # ys"] more by (simp add: words_blanks words_blank)
      let ?pre = "pre @ sp @ w @ [NUL]"
      have st: "parse_loop argc argv (Some t) (Some (length pre)) (pre @ line @ NUL # post)
        = parse_loop (argc + 1) (argv[argc := At t]) (Some (length pre + length sp)) (Some (length ?pre)) (?pre @ ys @ NUL # post)"
        using step strtok_more[OF more(2,3) w(1), of pre ys post] more(1) by simp
      have c: "cstr (?pre @ b) (length pre + length sp) = w" for b
        using cstr_at[OF w(1), of "pre @ sp" b] by simp
      have ih: "length ys < length line" "argc + 1 \<le> 10" using more(1) n by simp_all
      note IH = less.hyps[OF ih(1) l ih(2) w(2), of "length pre + length sp" ?pre]
      show ?thesis
      proof (cases "argc + 1 + 1 + length (words ys) \<le> 10")
        case True
        then obtain av b where av: "parse_loop (argc + 1) (argv[argc := At t]) (Some (length pre + length sp)) (Some (length ?pre))
            (?pre @ ys @ NUL # post) = Some (argc + 1 + 1 + length (words ys), av, ?pre @ b)" "length av = 10"
          "length b = length (ys @ NUL # post)"
          "\<forall>k < argc + 1. av ! k = argv[argc := At t] ! k" "av ! (argc + 1) = At (length pre + length sp)"
          "args_hold av (argc + 1 + 1) (words ys) (?pre @ b)"
          using IH by auto
        have "args_hold av (argc + 1) (words line) (?pre @ b)"
          unfolding ws by (rule args_hold_Cons[OF av(5) c av(6)])
        moreover have "\<forall>k < argc. av ! k = argv ! k" "av ! argc = At t" using av(4) keep by auto
        moreover have "length (sp @ w @ [NUL] @ b) = length (line @ NUL # post)" using av(3) more(1) by simp
        moreover have "parse_loop argc argv (Some t) (Some (length pre)) (pre @ line @ NUL # post)
          = Some (argc + 1 + length (words line), av, pre @ (sp @ w @ [NUL] @ b))"
          using av(1) st ws by simp
        moreover have "argc + 1 + length (words line) \<le> 10" using True ws by simp
        ultimately show ?thesis using av(2)
          by (simp only: if_True) (intro exI[of _ av] exI[of _ "sp @ w @ [NUL] @ b"] conjI; simp)
      next
        case nle: False
        then show ?thesis using IH st ws by simp
      qed
    qed
  qed
qed

definition line_of :: "string \<Rightarrow> string" where
  "line_of buf = takeWhile (\<lambda>c. c \<noteq> CR) (takeWhile (\<lambda>c. c \<noteq> LF) (cstr buf 0))"

lemma cut_at_form:
  assumes "NUL \<notin> set l"
  shows "\<exists>p'. cut_at c (l @ NUL # p) = takeWhile (\<lambda>x. x \<noteq> c) l @ NUL # p'"
proof (cases "c \<in> set l")
  case True
  have c: "cstr (l @ NUL # p) 0 = l" using cstr_at[OF assms, of "[]" p] by simp
  obtain k r where l: "l = k @ c # r" "c \<notin> set k" using True by (meson split_list_first)
  then have k: "takeWhile (\<lambda>x. x \<noteq> c) l = k" unfolding l(1) by (intro takeWhile_stop) auto
  have "cut_at c (l @ NUL # p) = (l @ NUL # p)[length k := NUL]" using True k by (simp add: cut_at_def c)
  then show ?thesis using l(1) k by (simp add: list_update_append)
next
  case False
  have "cstr (l @ NUL # p) 0 = l" using cstr_at[OF assms, of "[]" p] by simp
  then have cut: "cut_at c (l @ NUL # p) = l @ NUL # p" using False by (simp add: cut_at_def)
  have tw: "takeWhile (\<lambda>x. x \<noteq> c) l = l" using False by (auto simp: takeWhile_eq_all_conv)
  show ?thesis unfolding cut tw by blast
qed

lemma cut_line:
  assumes "NUL \<in> set buf"
  obtains p where "cut_at CR (cut_at LF buf) = line_of buf @ NUL # p" and "NUL \<notin> set (line_of buf)"
proof -
  obtain l p where l: "buf = l @ NUL # p" "NUL \<notin> set l" using assms by (meson split_list_first)
  have c: "cstr buf 0 = l" using cstr_at[OF l(2), of "[]" p] l(1) by simp
  obtain p1 where p1: "cut_at LF buf = takeWhile (\<lambda>x. x \<noteq> LF) l @ NUL # p1"
    using cut_at_form[OF l(2)] l(1) by blast
  have "NUL \<notin> set (takeWhile (\<lambda>x. x \<noteq> LF) l)" using l(2) set_takeWhileD by metis
  from cut_at_form[OF this, of CR p1] show ?thesis
    using that p1 l(2) c unfolding line_of_def by (metis set_takeWhileD)
qed

lemma args_hold_arg:
  "args_hold argv 0 ws buf \<Longrightarrow> length argv = 10 \<Longrightarrow> length ws \<le> 10 \<Longrightarrow> curr_input s = buf \<Longrightarrow> k < length ws
    \<Longrightarrow> arg argv k s = Some (ws ! k)"
  unfolding args_hold_def arg_def by fastforce

lemma parse_arg_ok:
  assumes "length argv = 10" and "NUL \<in> set (curr_input s)"
  shows "if length (words (line_of (curr_input s))) \<le> 10
    then \<exists>argv' buf. parse_arg argv s = Some (length (words (line_of (curr_input s))), argv', s\<lparr>curr_input := buf\<rparr>)
      \<and> length argv' = 10
      \<and> (\<forall>k < length (words (line_of (curr_input s))).
           arg argv' k (s\<lparr>curr_input := buf\<rparr>) = Some (words (line_of (curr_input s)) ! k))
    else parse_arg argv s = None"
proof -
  let ?line = "line_of (curr_input s)"
  obtain p where p: "cut_at CR (cut_at LF (curr_input s)) = ?line @ NUL # p" "NUL \<notin> set ?line"
    using cut_line[OF assms(2)] by blast
  show ?thesis
  proof (cases rule: line_cases[of ?line])
    case blank
    then have "words ?line = []" using words_blanks[of ?line "[]"] by (simp add: words_Nil)
    then show ?thesis using strtok_blank[OF blank, of "[]" p] assms(1)
      by (auto simp: parse_arg_def p parse_end)
  next
    case (last sp w)
    have w: "NUL \<notin> set w" using last(1) p(2) by simp
    have ws: "words ?line = [w]" using words_cons[OF last(3), of "[]"] last by (simp add: words_blanks words_Nil)
    have "parse_arg argv s = Some (1, argv[0 := At (length sp)], s\<lparr>curr_input := ?line @ NUL # p\<rparr>)"
      using strtok_last[OF last(2,3) w, of "[]" p] last(1) assms(1) by (simp add: parse_arg_def p parse_last)
    moreover have "cstr (?line @ NUL # p) (length sp) = w" using cstr_at[OF w, of sp p] last(1) by simp
    moreover have "argv \<noteq> []" using assms(1) by auto
    ultimately show ?thesis using assms(1)
      by (simp add: ws arg_def) (intro exI[of _ "?line @ NUL # p"] conjI; simp)
  next
    case (more sp w ys)
    have w: "NUL \<notin> set w" "NUL \<notin> set ys" using more(1) p(2) by simp_all
    have ws: "words ?line = w # words ys"
      using words_cons[OF more(3), of "SP # ys"] more by (simp add: words_blanks words_blank)
    let ?pre = "sp @ w @ [NUL]"
    have st: "parse_arg argv s = map_option (\<lambda>(n, av, b). (n, av, s\<lparr>curr_input := b\<rparr>))
        (parse_loop 0 argv (Some (length sp)) (Some (length ?pre)) (?pre @ ys @ NUL # p))"
      using strtok_more[OF more(2,3) w(1), of "[]" ys p] more(1)
      by (simp add: parse_arg_def p map_option_case split: option.splits prod.splits)
    have c: "cstr (?pre @ b) (length sp) = w" for b using cstr_at[OF w(1), of sp b] by simp
    note P = parse_words[OF assms(1) _ w(2), of 0 "length sp" ?pre p]
    show ?thesis
    proof (cases "length (words ?line) \<le> 10")
      case True
      then obtain av b where av: "parse_loop 0 argv (Some (length sp)) (Some (length ?pre)) (?pre @ ys @ NUL # p)
          = Some (1 + length (words ys), av, ?pre @ b)" "length av = 10" "av ! 0 = At (length sp)"
        "args_hold av 1 (words ys) (?pre @ b)"
        using P ws by auto
      have "args_hold av 0 (words ?line) (?pre @ b)"
        unfolding ws by (rule args_hold_Cons[OF av(3) c]) (use av(4) in simp)
      then have "\<forall>k < length (words ?line). arg av k (s\<lparr>curr_input := ?pre @ b\<rparr>) = Some (words ?line ! k)"
        by (auto intro: args_hold_arg[OF _ av(2) True])
      moreover have "parse_arg argv s = Some (length (words ?line), av, s\<lparr>curr_input := ?pre @ b\<rparr>)"
        using st av(1) ws by simp
      ultimately show ?thesis using True av(2) by (simp only: if_True) blast
    next
      case False
      then show ?thesis using P ws st by simp
    qed
  qed
qed

section \<open>Running a line\<close>

lemma drop_unwords: "i < length ws \<Longrightarrow> unwords (drop i ws) = ws ! i @ (if i + 1 = length ws then [] else SP # unwords (drop (i + 1) ws))"
  by (simp add: Cons_nth_drop_Suc[symmetric])

lemma join_args_ok:
  assumes "\<forall>k < length ws. arg argv k s = Some (ws ! k)"
  shows "i \<le> length ws \<Longrightarrow> length (acc @ unwords (drop i ws)) < SHELL_INPUT_SIZE \<Longrightarrow>
    join_args argv (length ws) [i..<length ws] acc s = Some (acc @ unwords (drop i ws))"
proof (induction "length ws - i" arbitrary: i acc)
  case (Suc d)
  then have i: "i < length ws" by simp
  have up: "[i..<length ws] = i # [i + 1..<length ws]" using i by (simp add: upt_conv_Cons)
  define acc1 where "acc1 = acc @ ws ! i @ (if i + 1 = length ws then [] else [SP])"
  have e: "acc @ unwords (drop i ws) = acc1 @ unwords (drop (i + 1) ws)"
    using i by (auto simp: drop_unwords acc1_def)
  have "join_args argv (length ws) [i..<length ws] acc s
    = (if SHELL_INPUT_SIZE \<le> length acc1 then None else join_args argv (length ws) [i + 1..<length ws] acc1 s)"
    using i assms by (auto simp: up acc1_def Let_def)
  moreover have "join_args argv (length ws) [i + 1..<length ws] acc1 s = Some (acc1 @ unwords (drop (i + 1) ws))"
    using Suc(1)[of "i + 1" acc1] Suc(2,4) i e by simp
  moreover have "\<not> SHELL_INPUT_SIZE \<le> length acc1" using Suc(4) unfolding e by simp
  ultimately show ?case using e by simp
qed simp

lemma line_of_length: "length (line_of buf) \<le> length (cstr buf 0)"
  unfolding line_of_def by (meson length_takeWhile_le order_trans)

lemma unwords_line: "words (unwords (words xs)) = words xs"
  using words_ok by (intro words_unwords) blast

lemma unwords_fits:
  assumes "length (cstr buf 0) < SHELL_INPUT_SIZE"
  shows "length (unwords (words (line_of buf))) < SHELL_INPUT_SIZE"
  using unwords_length[of "line_of buf"] line_of_length[of buf] assms by linarith

text \<open>C19: The shell's words are the words of the line.  Splitting a line in place yields, for at most ten
  words, exactly the words between the blanks of the text before the first line feed and carriage
  return, in order; an eleventh word is written beyond the array.
\<close>

theorem parse_arg_words:
  assumes "length argv = 10" and "NUL \<in> set (curr_input s)"
  shows "if length (words (line_of (curr_input s))) \<le> 10
    then \<exists>argv' buf. parse_arg argv s = Some (length (words (line_of (curr_input s))), argv', s\<lparr>curr_input := buf\<rparr>)
      \<and> length argv' = 10
      \<and> (\<forall>k < length (words (line_of (curr_input s))).
           arg argv' k (s\<lparr>curr_input := buf\<rparr>) = Some (words (line_of (curr_input s)) ! k))
    else parse_arg argv s = None"
  by (rule parse_arg_ok[OF assms])

definition demo_cli :: "string \<Rightarrow> unit cli_t" where
  "demo_cli line = \<lparr>curr_input = line @ [LF, NUL], console_num = 1, path = [], ext = ()\<rparr>"

lemma demo_words: "words ''rm  a.txt'' = [''rm'', ''a.txt'']"
  by (simp add: words.simps Let_def)

lemma demo_many_words: "words ''a b c d e f g h i j k'' = [''a'', ''b'', ''c'', ''d'', ''e'', ''f'', ''g'', ''h'', ''i'', ''j'', ''k'']"
  by (simp add: words.simps Let_def)

theorem parse_arg_words_witness:
  "(\<exists>argv' s'. parse_arg (replicate 10 (Junk 0)) (demo_cli ''rm  a.txt'') = Some (2, argv', s')
      \<and> arg argv' 0 s' = Some ''rm'' \<and> arg argv' 1 s' = Some ''a.txt'')
   \<and> parse_arg (replicate 10 (Junk 0)) (demo_cli ''a b c d e f g h i j k'') = None"
proof
  have l: "line_of (curr_input (demo_cli ''rm  a.txt'')) = ''rm  a.txt''"
    "line_of (curr_input (demo_cli ''a b c d e f g h i j k'')) = ''a b c d e f g h i j k''"
    by (simp_all add: line_of_def cstr_def demo_cli_def)
  have n: "NUL \<in> set (curr_input (demo_cli line))" for line by (simp add: demo_cli_def)
  show "\<exists>argv' s'. parse_arg (replicate 10 (Junk 0)) (demo_cli ''rm  a.txt'') = Some (2, argv', s')
      \<and> arg argv' 0 s' = Some ''rm'' \<and> arg argv' 1 s' = Some ''a.txt''"
    using parse_arg_words[OF _ n, of "replicate 10 (Junk 0)" "''rm  a.txt''"]
    unfolding l demo_words by (fastforce simp: less_Suc_eq numeral_2_eq_2)
  show "parse_arg (replicate 10 (Junk 0)) (demo_cli ''a b c d e f g h i j k'') = None"
    using parse_arg_words[OF _ n, of "replicate 10 (Junk 0)" "''a b c d e f g h i j k''"]
    unfolding l demo_many_words by simp
qed

text \<open>C18: A line of at most ten words that starts with a built-in command runs that command with these
  words, after the words, joined by single blanks, have gone to the history; that entry always
  fits its buffer, and typed again it gives the same command.
\<close>

theorem line_runs_builtin:
  assumes "c_fgets lib SHELL_INPUT_SIZE Stdin (ext (on_ext (c_flush lib) (out lib ''%s'' [PStr prompt] s))) = Some (Some line, e)"
    and "NUL \<notin> set line" and "length line < SHELL_INPUT_SIZE" and "10 \<le> length junk"
    and "words (line_of (line @ [NUL])) = ws" and "ws \<noteq> []" and "length ws \<le> 10" and "find_builtin (ws ! 0) = Some c"
  shows "\<exists>argv s'. hang_round lib junk s = run_builtin lib c (length ws) argv s'
    \<and> (\<forall>k < length ws. arg argv k s' = Some (ws ! k))
    \<and> ext s' = c_save_history lib (console_num s) (unwords ws) e \<and> words (unwords ws) = ws"
proof -
  define s0 where "s0 = on_ext (c_flush lib) (out lib ''%s'' [PStr prompt] s)"
  define s1 where "s1 = s0\<lparr>ext := e, curr_input := line @ NUL # drop (Suc (length line)) (curr_input s0)\<rparr>"
  have cs: "cstr (curr_input s1) 0 = line" using cstr_at[OF assms(2), of "[]"] by (simp add: s1_def)
  have "cstr (line @ [NUL]) 0 = line" using cstr_at[OF assms(2), of "[]" "[]"] by simp
  then have lo: "words (line_of (curr_input s1)) = ws" using cs assms(5) by (simp add: line_of_def)
  have junk: "length (map Junk (take CLI_MAX_ARG_COUNT junk)) = 10" using assms(4) by (simp add: CLI_MAX_ARG_COUNT_def)
  have "NUL \<in> set (curr_input s1)" by (simp add: s1_def)
  from parse_arg_ok[OF junk this] lo assms(7) obtain argv buf where
    p: "parse_arg (map Junk (take CLI_MAX_ARG_COUNT junk)) s1 = Some (length ws, argv, s1\<lparr>curr_input := buf\<rparr>)"
    and av: "\<forall>k < length ws. arg argv k (s1\<lparr>curr_input := buf\<rparr>) = Some (ws ! k)"
    by auto
  define s2 where "s2 = s1\<lparr>curr_input := buf\<rparr>"
  define s3 where "s3 = on_ext (c_save_history lib (console_num s2) (unwords ws)) s2"
  have "length (unwords ws) < SHELL_INPUT_SIZE"
    using unwords_fits[of "curr_input s1"] cs assms(3) lo by simp
  then have "pre_exec lib (length ws) argv s2 = Some s3"
    using join_args_ok[of ws argv s2 0 "[]"] av by (simp add: pre_exec_def s2_def s3_def)
  moreover have "arg argv 0 s2 = Some (ws ! 0)" using av assms(6) by (simp add: s2_def)
  ultimately have "exec lib (length ws) argv s2 = run_builtin lib c (length ws) argv s3"
    using assms(8) by (simp add: exec_def)
  moreover have "hang_round lib junk s = exec lib (length ws) argv s2"
    using assms(1,6) p unfolding s0_def[symmetric]
    by (simp add: hang_round_def may_ext_def s0_def[symmetric] s1_def[symmetric] s2_def[symmetric] Let_def)
  moreover have "arg argv k s3 = arg argv k s2" for k
    by (simp add: arg_def s3_def on_ext_def split: argp.splits)
  moreover have "ext s3 = c_save_history lib (console_num s) (unwords ws) e"
    by (simp add: s3_def s2_def s1_def s0_def on_ext_def out_def)
  moreover have "words (unwords ws) = ws" using unwords_line[of "line_of (curr_input s1)"] lo by simp
  moreover have "\<forall>k < length ws. arg argv k s2 = Some (ws ! k)" using av by (simp add: s2_def)
  ultimately show ?thesis by (intro exI[of _ argv] exI[of _ s3] conjI) simp_all
qed

definition demo_lib :: "string list libc" where
  "demo_lib = \<lparr>c_open = (\<lambda>_ _ e. (- 1, e)), c_close = (\<lambda>_ e. e), c_dup = (\<lambda>_ e. e), c_fork = (\<lambda>e. Some (1, e)),
     c_execve = (\<lambda>_ _ _ _. None), c_wait = (\<lambda>e. Some (1, 0, e)), c_unlink = (\<lambda>n e. (0, e @ [n])),
     c_power = (\<lambda>_ e. (0, e)), c_ioctl = (\<lambda>_ _ _ _ e. e), c_save_history = (\<lambda>_ l e. e @ [l]),
     c_get_history = (\<lambda>_ e. e), c_opendir = (\<lambda>_ e. (None, e)), c_readdir = (\<lambda>_ e. (None, e)), c_closedir = (\<lambda>_ e. e),
     c_printf = (\<lambda>_ _ _ e. e), c_puts = (\<lambda>_ e. e), c_fputs = (\<lambda>_ e. e), c_flush = (\<lambda>e. e), c_setvbuf = (\<lambda>_ e. e),
     c_fopen = (\<lambda>_ _ e. (None, e)), c_fclose = (\<lambda>_ e. e), c_fgets = (\<lambda>_ _ e. Some (Some (''rm  a.txt'' @ [LF]), e)),
     c_fgetc = (\<lambda>_. None), c_fread = (\<lambda>_ _ e. ([], e)), c_fwrite = (\<lambda>_ _ e. e),
     c_getopt = (\<lambda>_ _ argv _ e. (- 1, argv, e)), c_optarg = (\<lambda>_. None), c_optind = (\<lambda>_. 1), c_set_optind = (\<lambda>_ e. e),
     c_atoi = (\<lambda>_. 0), c_scan_tty = (\<lambda>_. Some 1), c_localtime = (\<lambda>e. (\<lparr>f_year = 0, f_mon = 0, f_mday = 0,
       f_hour = 0, f_min = 0, f_sec = 0\<rparr>, e))\<rparr>"

definition demo_shell :: "string list cli_t" where
  "demo_shell = \<lparr>curr_input = replicate 128 NUL, console_num = 1, path = [], ext = []\<rparr>"

text \<open>The line removes the file and is in the history with one blank.\<close>

theorem line_runs_builtin_witness:
  "\<exists>s'. hang_round demo_lib (replicate 10 0) demo_shell = Some s' \<and> ext s' = [''rm a.txt'', ''a.txt'']"
proof -
  have g: "c_fgets demo_lib SHELL_INPUT_SIZE Stdin (ext (on_ext (c_flush demo_lib) (out demo_lib ''%s'' [PStr prompt] demo_shell)))
    = Some (Some (''rm  a.txt'' @ [LF]), [])"
    by (simp add: demo_lib_def demo_shell_def on_ext_def out_def)
  have w: "words (line_of ((''rm  a.txt'' @ [LF]) @ [NUL])) = [''rm'', ''a.txt'']"
    using demo_words by (simp add: line_of_def cstr_def)
  have b: "find_builtin ([''rm'', ''a.txt''] ! 0) = Some \<lparr>cname = ''rm'', usage = ''rm file'', do_func = Rm\<rparr>"
    by (simp add: find_builtin_def cmd_list_def)
  obtain argv s' where r: "hang_round demo_lib (replicate 10 0) demo_shell
      = run_builtin demo_lib \<lparr>cname = ''rm'', usage = ''rm file'', do_func = Rm\<rparr> (length [''rm'', ''a.txt'']) argv s'"
    "\<forall>k < length [''rm'', ''a.txt'']. arg argv k s' = Some ([''rm'', ''a.txt''] ! k)" "ext s' = [unwords [''rm'', ''a.txt'']]"
    using line_runs_builtin[OF g _ _ _ w _ _ b, of "replicate 10 0"]
    by (auto simp: SHELL_INPUT_SIZE_def demo_lib_def)
  have "arg argv 1 s' = Some ''a.txt''" using r(2) by auto
  then show ?thesis unfolding r(1) using r(3)
    by (simp add: run_builtin_def do_rm_def result_ext_def demo_lib_def)
qed

text \<open>
  A program that opens under its own name: the result is whatever the buffer holds from an
  earlier search, not the name.
\<close>

lemma find_exec_path_stale:
  "c_open lib filename 0 (ext s) = (fd, e) \<Longrightarrow> 0 \<le> fd \<Longrightarrow> fst (find_exec_path lib filename s) = Some (path s)"
  by (simp add: find_exec_path_def result_ext_def on_ext_def)

lemma find_exec_path_elf:
  "c_open lib filename 0 (ext s) = (fd, e) \<Longrightarrow> fd < 0 \<Longrightarrow> c_open lib (filename @ ''.elf'') 0 e = (fd', e') \<Longrightarrow>
    fst (find_exec_path lib filename s) = (if fd' < 0 then None else Some (filename @ ''.elf''))"
  by (simp add: find_exec_path_def result_ext_def on_ext_def)

end
