(* ===== verification/Log.thy ===== *)
theory Log
  imports Trap Tty Dev
begin

text \<open>
  The kernel log (\<^verbatim>\<open>kernel/tools/log.c\<close>): a line is formatted into a buffer on the stack and
  written to the first terminal through the device table, then a line feed.  \<open>frame\<close> is the
  address of the buffer; the buffer and the byte after it are the function's locals.
\<close>

record 's log_sys = "'s dev_state" +
  log_dev_id :: int
  log_mutex :: mutex_t

definition LOG_BUF_SIZE :: nat where "LOG_BUF_SIZE = 128"

definition log_init :: "ttys dev_desc_t list \<Rightarrow> ttys log_sys \<Rightarrow> ttys log_sys option" where
  "log_init descs s =
    do {
      let s = s\<lparr>log_mutex := mutex_init (log_mutex s)\<rparr>;
      (i, s) \<leftarrow> dev_open descs DEV_TTY 0 0 s;
      Some (s\<lparr>log_dev_id := i\<rparr>)
    }"

definition put_local :: "u32 \<Rightarrow> u8 list \<Rightarrow> ttys log_sys \<Rightarrow> ttys log_sys" where
  "put_local a bs s = s\<lparr>drv := (drv s)\<lparr>umem := store_bytes (umem (drv s)) a bs\<rparr>\<rparr>"

text \<open>
  A line of 128 characters or more leaves no terminator in the buffer or runs over it.  A task
  that waits for the log goes on in \<open>resume\<close>.
\<close>

definition log_printf :: "ttys dev_desc_t list \<Rightarrow> u32 \<Rightarrow> ttys log_sys resume \<Rightarrow> u8 list \<Rightarrow> va_arg list
    \<Rightarrow> ttys log_sys \<Rightarrow> ttys log_sys option" where
  "log_printf descs frame resume fmt args s =
    do {
      text \<leftarrow> kernel_vsprintf fmt_state.NORMAL fmt args;
      if LOG_BUF_SIZE \<le> length text then None
      else do {
        let s = put_local frame (text @ replicate (LOG_BUF_SIZE - length text) 0) s;
        (m, w) \<leftarrow> mutex_lock (log_mutex s) (drv s);
        let me = curr_task (drv s);
        let s = s\<lparr>drv := w, log_mutex := m\<rparr>;
        s \<leftarrow> (if curr_task (drv s) = me then Some s else resume s);
        n \<leftarrow> kernel_strlen (umem (drv s)) frame;
        (_, s) \<leftarrow> dev_write descs (log_dev_id s) 0 frame n s;
        let s = put_local (frame + of_nat LOG_BUF_SIZE) [10] s;
        (_, s) \<leftarrow> dev_write descs (log_dev_id s) 0 (frame + of_nat LOG_BUF_SIZE) 1 s;
        (m, w) \<leftarrow> mutex_unlock (log_mutex s) (drv s);
        Some (s\<lparr>drv := w, log_mutex := m\<rparr>)
      }
    }"

text \<open>The lines of the handlers.\<close>

fun va_of :: "log_arg \<Rightarrow> va_arg" where
  "va_of (LInt w) = Arg_int (sint w)"
| "va_of (LStr s) = Arg_str (map of_char s)"
| "va_of (LName bs) = Arg_str bs"

definition log_out :: "ttys dev_desc_t list \<Rightarrow> u32 \<Rightarrow> ttys log_sys resume \<Rightarrow> log_line \<Rightarrow> ttys log_sys \<Rightarrow> ttys log_sys option" where
  "log_out descs frame resume l s = (case l of (fmt, args) \<Rightarrow> log_printf descs frame resume (map of_char fmt) (map va_of args) s)"

section \<open>A line on the screen\<close>

definition with_umem :: "memory \<Rightarrow> ttys \<Rightarrow> ttys" where
  "with_umem m w = w\<lparr>umem := m\<rparr>"

lemma with_umem_simps [simp]:
  "tty_devs (with_umem m w) = tty_devs w" "consoles (with_umem m w) = consoles w" "video (with_umem m w) = video w"
  "umem (with_umem m w) = m" "wait_links (with_umem m w) = wait_links w" "curr_task (with_umem m w) = curr_task w"
  by (simp_all add: with_umem_def)

lemma umem_twice: "(with_umem m w)\<lparr>umem := m'\<rparr> = with_umem m' w"
  by (simp add: with_umem_def)

lemma umem_view: "(out_view (with_umem m w) i k q n c v)\<lparr>umem := m'\<rparr> = out_view (with_umem m' w) i k q n c v"
  by (simp add: out_view_def with_umem_def)

lemma idle_umem [simp]: "out_idle (with_umem m w) i k = out_idle w i k"
  by (simp add: out_idle_def mutex_free_def)

text \<open>Writing to an idle terminal from any view of it.\<close>

lemma tty_write_view:
  assumes "get_tty dev = Some i" and "out_idle w i k" and "fifo_ok q" and "fifo_contents q = []" and "2 \<le> fsz q" and "2 \<le> n"
    and "mem_has (umem w) buf bs" and "7 \<notin> set bs" and "mutex_free (cmutex c) w"
    and "console_run (concat (map (expand_nl (oflags (tty_devs w ! i))) bs)) c v = Some (c', v')"
  shows "\<exists>q' m'. tty_write resume dev addr buf (int (length bs)) (out_view w i k q n c v)
      = Some (int (length bs), out_view w i k q' n (with_mutex m' c') v')
    \<and> fifo_ok q' \<and> fifo_contents q' = [] \<and> fsz q' = fsz q \<and> mutex_free m' w"
proof -
  have src: "umem s' (buf + of_nat (0 + j)) = bs ! j" if "j < length bs" "umem s' = umem w" for j and s' :: ttys
    using that assms(7) by (simp add: mem_has_def)
  show ?thesis
    using tty_write_loop_run[OF assms(2,8) src assms(3-6,10,9), of "\<lambda>_ s. s" resume 0]
    by (auto simp: tty_write_def tty_write_from_def assms(1))
qed

lemma kernel_strlen_text:
  assumes "mem_has m p (xs @ 0 # ys)" and "0 \<notin> set xs" and "p \<noteq> 0"
  shows "kernel_strlen m p = Some (int (length xs))"
proof -
  have "cstr m p xs"
    using assms(1,2) unfolding cstr_nth mem_has_def by (auto simp: nth_append) (metis nth_mem)
  then show ?thesis using assms(3) strlen_loop_ok[of m p xs 0] by (simp add: kernel_strlen_def)
qed

lemma log_printf_ok:
  assumes dev: "\<not> is_devid_bad (log_dev_id s) s" "get_tty (dev_tbl s ! nat (log_dev_id s)) = Some i"
      "d_write (dev_desc descs (dev_tbl s ! nat (log_dev_id s))) = tty_write resume'"
    and idle: "out_idle (drv s) i k" "fifo_ok (ofifo (tty_devs (drv s) ! i))" "fifo_contents (ofifo (tty_devs (drv s) ! i)) = []"
      "2 \<le> fsz (ofifo (tty_devs (drv s) ! i))" "2 \<le> sem_value (osem (tty_devs (drv s) ! i))"
    and log: "mutex_free (log_mutex s) (drv s)" "frame \<noteq> 0"
    and fmtd: "kernel_vsprintf fmt_state.NORMAL fmt args = Some line" "length line < LOG_BUF_SIZE" "0 \<notin> set line" "7 \<notin> set line"
    and run: "console_run (concat (map (expand_nl (oflags (tty_devs (drv s) ! i))) (line @ [10]))) (consoles (drv s) ! k)
        (video (drv s)) = Some (c', v')"
  shows "\<exists>s' m'. log_printf descs frame resume fmt args s = Some s' \<and> video (drv s') = v'
    \<and> consoles (drv s') ! k = with_mutex m' c' \<and> mutex_free m' (drv s') \<and> mutex_free (log_mutex s') (drv s')
    \<and> fifo_contents (ofifo (tty_devs (drv s') ! i)) = []"
proof -
  define w where "w = drv s"
  let ?e = "\<lambda>bs. concat (map (expand_nl (oflags (tty_devs w ! i))) bs)"
  obtain c1 v1 where r1: "console_run (?e line) (consoles w ! k) (video w) = Some (c1, v1)"
    and r2: "console_run (?e [10]) c1 v1 = Some (c', v')"
    using run by (auto simp: console_run_append w_def[symmetric] split: Option.bind_splits)
  define m0 where "m0 = store_bytes (umem w) frame (line @ replicate (LOG_BUF_SIZE - length line) 0)"
  define m1 where "m1 = store_bytes m0 (frame + of_nat LOG_BUF_SIZE) [10]"
  define n where "n = sem_value (osem (tty_devs w ! i))"
  have "line @ replicate (LOG_BUF_SIZE - length line) 0 = line @ 0 # replicate (LOG_BUF_SIZE - length line - 1) (0 :: u8)"
    using fmtd(2) by (cases "LOG_BUF_SIZE - length line") auto
  moreover have "mem_has m0 frame (line @ replicate (LOG_BUF_SIZE - length line) 0)"
    unfolding m0_def by (rule mem_has_store) (use fmtd(2) in \<open>simp add: LOG_BUF_SIZE_def\<close>)
  ultimately have h0: "mem_has m0 frame (line @ 0 # replicate (LOG_BUF_SIZE - length line - 1) 0)" by simp
  have h1: "mem_has m1 (frame + of_nat LOG_BUF_SIZE) [10]" unfolding m1_def by (rule mem_has_store) simp
  have i0: "out_idle (with_umem m w) i k" for m using idle(1) by (simp add: w_def)
  have self: "with_umem m0 w = out_view (with_umem m0 w) i k (ofifo (tty_devs w ! i)) n (consoles w ! k) (video w)"
    using out_view_self[OF i0[of m0]] by (simp add: n_def)
  have cm: "mutex_free (cmutex (consoles w ! k)) (with_umem m0 w)" using i0[of m0] by (simp add: out_idle_def)
  obtain q1 x1 where w1: "tty_write resume' (dev_tbl s ! nat (log_dev_id s)) 0 frame (int (length line)) (with_umem m0 w)
      = Some (int (length line), out_view (with_umem m0 w) i k q1 n (with_mutex x1 c1) v1)"
    "fifo_ok q1" "fifo_contents q1 = []" "fsz q1 = fsz (ofifo (tty_devs w ! i))" "mutex_free x1 w"
    using tty_write_view[OF dev(2) i0[of m0] idle(2-5)[folded w_def, folded n_def] _ fmtd(4) cm, where buf = frame and resume = resume' and addr = 0 and v = "video w"]
      h0[unfolded mem_has_append] r1 unfolding self[symmetric] by (auto simp: mutex_free_def)
  have p2: "2 \<le> fsz q1" "2 \<le> n" "mem_has (umem (with_umem m1 w)) (frame + of_nat LOG_BUF_SIZE) [10]" "7 \<notin> set [10 :: u8]"
    "mutex_free (cmutex (with_mutex x1 c1)) (with_umem m1 w)"
    "console_run (concat (map (expand_nl (oflags (tty_devs (with_umem m1 w) ! i))) [10])) (with_mutex x1 c1) v1
      = Some (with_mutex x1 c', v')"
    using w1(4,5) idle(4,5) h1 r2
    by (simp_all add: w_def[symmetric] n_def[symmetric] console_run_mutex) (simp_all add: mutex_free_def with_mutex_def)
  obtain q2 x2 where w2: "tty_write resume' (dev_tbl s ! nat (log_dev_id s)) 0 (frame + of_nat LOG_BUF_SIZE) (int (length [10 :: u8]))
      (out_view (with_umem m1 w) i k q1 n (with_mutex x1 c1) v1)
      = Some (int (length [10 :: u8]), out_view (with_umem m1 w) i k q2 n (with_mutex x2 (with_mutex x1 c')) v')"
    "fifo_contents q2 = []" "mutex_free x2 (with_umem m1 w)"
    using tty_write_view[OF dev(2) i0[of m1] w1(2,3) p2, of resume' 0] by blast
  define held where "held = (log_mutex s)\<lparr>locked_count := 1, owner := curr_task w\<rparr>"
  define rel where "rel = (log_mutex s)\<lparr>locked_count := 0, owner := None\<rparr>"
  define w9 where "w9 = out_view (with_umem m1 w) i k q2 n (with_mutex x2 (with_mutex x1 c')) v'"
  have lock: "mutex_lock (log_mutex s) (with_umem m0 w) = Some (held, with_umem m0 w)"
    using log(1) by (simp add: mutex_free_def mutex_lock_free held_def)
  have f9: "curr_task w9 = curr_task w" "wait_links w9 = wait_links w"
    using i0[of m1] by (simp_all add: w9_def)
  have unlock: "mutex_unlock held w9 = Some (rel, w9)" "mutex_free rel w9"
    using mutex_section[OF log(1)[folded w_def] f9] by (simp_all add: held_def rel_def)
  have len: "kernel_strlen m0 frame = Some (int (length line))"
    by (rule kernel_strlen_text[OF h0 fmtd(3) log(2)])
  have um: "umem (out_view (with_umem m0 w) i k q1 n (with_mutex x1 c1) v1) = m0" using i0[of m0] by simp
  have s0: "put_local frame (line @ replicate (LOG_BUF_SIZE - length line) 0) s = s\<lparr>drv := with_umem m0 w\<rparr>"
    by (simp add: put_local_def m0_def w_def with_umem_def)
  have s1: "put_local (frame + of_nat LOG_BUF_SIZE) [10]
      (s\<lparr>log_mutex := held, drv := out_view (with_umem m0 w) i k q1 n (with_mutex x1 c1) v1\<rparr>)
    = s\<lparr>log_mutex := held, drv := out_view (with_umem m1 w) i k q1 n (with_mutex x1 c1) v1\<rparr>"
    unfolding put_local_def by (simp add: um umem_view m1_def)
  have bad: "\<not> is_devid_bad (log_dev_id s) (s\<lparr>log_mutex := m, drv := d\<rparr>)" for m d
    using dev(1) by (simp add: is_devid_bad_def)
  have bad': "\<not> is_devid_bad (log_dev_id s) (s\<lparr>drv := d, log_mutex := m\<rparr>)" for m d
    using dev(1) by (simp add: is_devid_bad_def)
  have "log_printf descs frame resume fmt args s = Some (s\<lparr>log_mutex := rel, drv := w9\<rparr>)"
    using fmtd(1,2) lock len w1(1) w2(1) unlock(1) s1 bad bad'
    by (simp add: log_printf_def s0 dev_write_def dev(3) w9_def Let_def)
  then show ?thesis using i0[of m1] w2(2,3) unlock(2) log(1)
    by (intro exI[of _ "s\<lparr>log_mutex := rel, drv := w9\<rparr>"] exI[of _ x2])
      (simp add: w9_def with_mutex_def mutex_free_def)
qed

text \<open>C27: A line of the kernel log is on the screen when the call returns.  With the log mutex free and the
  log's device an idle terminal with an empty output queue, \<^verbatim>\<open>log_printf\<close> of any format whose
  text has fewer than 128 characters and no bell does not wait; the console and the video
  memory are those after the escape automaton has run on the text and a line feed, and the
  log, the console and the queue are free again.
\<close>

theorem log_line_drawn:
  assumes "\<not> is_devid_bad (log_dev_id s) s" and "get_tty (dev_tbl s ! nat (log_dev_id s)) = Some i"
    and "d_write (dev_desc descs (dev_tbl s ! nat (log_dev_id s))) = tty_write resume'"
    and "out_idle (drv s) i k" and "fifo_ok (ofifo (tty_devs (drv s) ! i))" and "fifo_contents (ofifo (tty_devs (drv s) ! i)) = []"
    and "2 \<le> fsz (ofifo (tty_devs (drv s) ! i))" and "2 \<le> sem_value (osem (tty_devs (drv s) ! i))"
    and "mutex_free (log_mutex s) (drv s)" and "frame \<noteq> 0"
    and "kernel_vsprintf fmt_state.NORMAL fmt args = Some line" and "length line < LOG_BUF_SIZE"
    and "0 \<notin> set line" and "7 \<notin> set line"
    and "console_run (concat (map (expand_nl (oflags (tty_devs (drv s) ! i))) (line @ [10]))) (consoles (drv s) ! k)
        (video (drv s)) = Some (c', v')"
  shows "\<exists>s' m'. log_printf descs frame resume fmt args s = Some s' \<and> video (drv s') = v'
    \<and> consoles (drv s') ! k = with_mutex m' c' \<and> mutex_free m' (drv s') \<and> mutex_free (log_mutex s') (drv s')
    \<and> fifo_contents (ofifo (tty_devs (drv s') ! i)) = []"
  by (rule log_printf_ok[OF assms])

definition demo_log :: "ttys log_sys" where
  "demo_log = \<lparr>dev_tbl = [demo_dev], drv = demo_ttys, log_dev_id = 0,
     log_mutex = \<lparr>locked_count = 0, owner = None, wait_list = blank_list\<rparr>\<rparr>"

lemma line_end_runs: "\<exists>c' v'. console_run [13, 10] c v = Some (c', v')"
proof -
  have "console_char x c v \<noteq> None" if "x = 13 \<or> x = 10" for x c v
    using that by (cases "wstate c") (auto simp: console_char_def write_esc_square_def Let_def)
  then have "\<exists>b c' v'. console_char x c v = Some (b, c', v')" if "x = 13 \<or> x = 10" for x c v
    using that by fastforce
  then obtain b1 c1 v1 b2 c2 v2 where "console_char 13 c v = Some (b1, c1, v1)" "console_char 10 c1 v1 = Some (b2, c2, v2)"
    by metis
  then show ?thesis by simp
qed

lemma demo_run: "\<exists>c' v'. console_run [104, 105, 13, 10] demo_console (\<lambda>_. demo_cell) = Some (c', v')"
proof -
  have "\<forall>x \<in> set [104, 105]. printable x" by (simp add: printable_def)
  from print_roll[OF demo_console_ok(1,2) this, of "\<lambda>_. demo_cell"] obtain c1 v1
    where "console_run [104, 105] demo_console (\<lambda>_. demo_cell) = Some (c1, v1)" by blast
  moreover obtain c2 v2 where "console_run [13, 10] c1 v1 = Some (c2, v2)" using line_end_runs by blast
  ultimately have "console_run ([104, 105] @ [13, 10]) demo_console (\<lambda>_. demo_cell) = Some (c2, v2)"
    by (simp only: console_run_append) simp
  then show ?thesis by (simp only: append.simps) blast
qed

theorem log_line_drawn_witness:
  "\<exists>s'. log_printf [dev_tty_desc (\<lambda>_. None) 0 0] 0x7000 (\<lambda>_. None) [104, 37, 99] [Arg_int 105] demo_log = Some s'
    \<and> mutex_free (log_mutex s') (drv s') \<and> (\<exists>c'. console_run [104, 105, 13, 10] demo_console (\<lambda>_. demo_cell) = Some (c', video (drv s')))"
proof -
  obtain c' v' where r: "console_run [104, 105, 13, 10] demo_console (\<lambda>_. demo_cell) = Some (c', v')"
    using demo_run by blast
  have d: "dev_tbl demo_log = [demo_dev]" "drv demo_log = demo_ttys" "log_dev_id demo_log = 0"
    by (simp_all add: demo_log_def)
  have "fifo_ok (ofifo demo_tty)" "fifo_contents (ofifo demo_tty) = []" "2 \<le> fsz (ofifo demo_tty)"
    using fifo_init_ok[of "replicate 512 0" 512] by (simp_all add: demo_tty_def tty_fifo_init_def)
  moreover have "\<not> is_devid_bad 0 demo_log" by (simp add: is_devid_bad_def demo_log_def demo_dev_def)
  moreover have "kernel_vsprintf fmt_state.NORMAL [104, 37, 99] [Arg_int 105] = Some [104, 105]" by simp
  moreover have "mutex_free (log_mutex demo_log) demo_ttys"
    by (simp add: mutex_free_def demo_log_def dll_def blank_list_def)
  moreover have "console_run (concat (map (expand_nl (oflags demo_tty)) ([104, 105] @ [10]))) demo_console (\<lambda>_. demo_cell) = Some (c', v')"
    using r by (simp add: expand_nl_def demo_tty_def TTY_OCRLF_def)
  ultimately show ?thesis
    using log_line_drawn[of demo_log 0 "[dev_tty_desc (\<lambda>_. None) 0 0]" "\<lambda>_. None" 0 "0x7000" "[104, 37, 99]" "[Arg_int 105]"
        "[104, 105]" c' v' "\<lambda>_. None"] r demo_idle demo_dev_tty
    by (auto simp: d dev_desc_def demo_dev_def dev_tty_desc_def LOG_BUF_SIZE_def demo_tty_def)
qed

end
