(* ===== verification/Crt.thy ===== *)
theory Crt
  imports Log
begin

text \<open>
  Small pieces next to the hardware: the cursor registers of the display
  (\<^verbatim>\<open>kernel/dev/console.c\<close>), the real-time clock's memory (\<^verbatim>\<open>kernel/dev/time.c\<close>), the interrupt
  flag, and what the kernel prints when it gives up or describes its memory.  The locale \<open>crt\<close> is the contract
  of the display controller: an index register, and the cursor position in the registers 14
  and 15.
\<close>

section \<open>The cursor\<close>

definition cursor_pos :: "nat \<Rightarrow> console_t \<Rightarrow> u16" where
  "cursor_pos idx console =
    word_of_int (int idx * display_rows console * display_cols console)
    + word_of_int (cursor_row console * display_cols console + cursor_col console)"

definition read_cursor_pos :: "'h ports \<Rightarrow> ('h, 'm) cpu_scheme \<Rightarrow> int \<times> ('h, 'm) cpu_scheme" where
  "read_cursor_pos io s =
    (let me = curr_task s; (st, s) = irq_enter_protection s;
         s = outb io 0x3D4 0x0F s;
         (lo, s) = inb io 0x3D5 s;
         s = outb io 0x3D4 0x0E s;
         (hi, s) = inb io 0x3D5 s;
         pos = uint lo OR push_bit 8 (uint hi)
     in (pos, irq_leave_protection me st s))"

definition update_cursor_pos :: "'h ports \<Rightarrow> nat \<Rightarrow> console_t \<Rightarrow> ('h, 'm) cpu_scheme \<Rightarrow> ('h, 'm) cpu_scheme" where
  "update_cursor_pos io idx console s =
    (let pos = cursor_pos idx console;
         me = curr_task s; (st, s) = irq_enter_protection s;
         s = outb io 0x3D4 0x0F s;
         s = outb io 0x3D5 (ucast (pos AND 0xFF)) s;
         s = outb io 0x3D4 0x0E s;
         s = outb io 0x3D5 (ucast (drop_bit 8 pos AND 0xFF)) s
     in irq_leave_protection me st s)"

section \<open>The real-time clock\<close>

definition CMOS_ADDR :: u16 where "CMOS_ADDR = 0x70"
definition CMOS_DATA :: u16 where "CMOS_DATA = 0x71"
definition CMOS_NMI :: u8 where "CMOS_NMI = 0x80"

definition cmos_read :: "'h ports \<Rightarrow> u8 \<Rightarrow> ('h, 'm) cpu_scheme \<Rightarrow> u8 \<times> ('h, 'm) cpu_scheme" where
  "cmos_read io addr s = inb io CMOS_DATA (outb io CMOS_ADDR (CMOS_NMI OR addr) s)"

definition cmos_write :: "'h ports \<Rightarrow> u8 \<Rightarrow> u8 \<Rightarrow> ('h, 'm) cpu_scheme \<Rightarrow> ('h, 'm) cpu_scheme" where
  "cmos_write io addr v s = outb io CMOS_DATA v (outb io CMOS_ADDR (CMOS_NMI OR addr) s)"

section \<open>Interrupts of the running task\<close>

definition irq_disable_global :: "'m sched_scheme \<Rightarrow> 'm sched_scheme" where
  "irq_disable_global s = s\<lparr>eflags := (eflags s)(curr_task s := eflags s (curr_task s) AND NOT EFLAGS_IF)\<rparr>"

definition irq_enable_global :: "'m sched_scheme \<Rightarrow> 'm sched_scheme" where
  "irq_enable_global s = s\<lparr>eflags := (eflags s)(curr_task s := eflags s (curr_task s) OR EFLAGS_IF)\<rparr>"

section \<open>Messages\<close>

definition show_mem_info :: "(u32 \<times> u32) list \<Rightarrow> log_line list" where
  "show_mem_info regions =
    (''memory region:'', []) # map (\<lambda>i. (''[%d]: 0x%x - 0x%x'', [LInt (of_nat i), LInt (fst (regions ! i)), LInt (snd (regions ! i))]))
      [0..<length regions]"

text \<open>The lines of a failed assertion; after them the processor halts for ever.\<close>

definition pannic :: "string \<Rightarrow> u32 \<Rightarrow> string \<Rightarrow> string \<Rightarrow> log_line list \<times> 's option" where
  "pannic src line func cond =
    ([(''assert failed! cond ==> [%s]'', [LStr cond]),
      (''file: %s, line: %d. func: %s'', [LStr src, LInt line, LStr func])], None)"

definition kernel_sprintf :: "u8 list \<Rightarrow> va_arg list \<Rightarrow> u8 list option" where
  "kernel_sprintf fmt args = kernel_vsprintf fmt_state.NORMAL fmt args"

section \<open>The display controller\<close>

locale crt =
  fixes io :: "'h ports" and sel :: "'h \<Rightarrow> u8" and crt_pos :: "'h \<Rightarrow> u16"
  assumes select: "sel (p_outb io 0x3D4 v h) = v \<and> crt_pos (p_outb io 0x3D4 v h) = crt_pos h"
    and set_low: "sel h = 0x0F \<Longrightarrow> sel (p_outb io 0x3D5 v h) = 0x0F
      \<and> crt_pos (p_outb io 0x3D5 v h) = (crt_pos h AND 0xFF00) OR ucast v"
    and set_high: "sel h = 0x0E \<Longrightarrow> sel (p_outb io 0x3D5 v h) = 0x0E
      \<and> crt_pos (p_outb io 0x3D5 v h) = (crt_pos h AND 0xFF) OR push_bit 8 (ucast v)"
    and get_low: "sel h = 0x0F \<Longrightarrow> fst (p_inb io 0x3D5 h) = ucast (crt_pos h) \<and> crt_pos (snd (p_inb io 0x3D5 h)) = crt_pos h"
    and get_high: "sel h = 0x0E \<Longrightarrow> fst (p_inb io 0x3D5 h) = ucast (drop_bit 8 (crt_pos h)) \<and> crt_pos (snd (p_inb io 0x3D5 h)) = crt_pos h"
begin

lemma update_ok: "crt_pos (hw (update_cursor_pos io idx c s)) = cursor_pos idx c"
proof -
  define p where "p = cursor_pos idx c"
  have b: "((x AND 0xFF00 OR ucast (ucast (p AND 0xFF) :: u8)) AND 0xFF) OR push_bit 8 (ucast (ucast (drop_bit 8 p AND 0xFF) :: u8)) = p"
    for x :: u16
  proof -
    have m: "(0xFF :: u16) = mask 8" "(0xFF00 :: u16) = push_bit 8 (mask 8)"
      by (simp_all add: mask_eq_exp_minus_1 push_bit_eq_mult)
    show ?thesis unfolding m by (rule bit_word_eqI) (auto simp: bit_simps)
  qed
  show ?thesis
    unfolding update_cursor_pos_def p_def[symmetric]
    using b by (simp add: Let_def irq_enter_protection_def irq_leave_protection_def outb_def select set_low set_high)
qed

lemma read_ok: "fst (read_cursor_pos io s) = uint (crt_pos (hw s))"
proof -
  have b: "uint (ucast w :: u8) OR push_bit 8 (uint (ucast (drop_bit 8 w) :: u8)) = uint w" for w :: u16
    by (rule bit_eqI) (auto simp: bit_simps dest: bit_imp_le_length)
  obtain lo h1 where h1: "p_inb io 0x3D5 (p_outb io 0x3D4 0x0F (hw s)) = (lo, h1)" by fastforce
  obtain hi h2 where h2: "p_inb io 0x3D5 (p_outb io 0x3D4 0x0E h1) = (hi, h2)" by fastforce
  have "lo = ucast (crt_pos (hw s))" "crt_pos h1 = crt_pos (hw s)"
    using get_low[of "p_outb io 0x3D4 0x0F (hw s)"] select h1 by simp_all
  moreover from this have "hi = ucast (drop_bit 8 (crt_pos (hw s)))"
    using get_high[of "p_outb io 0x3D4 0x0E h1"] select h2 by simp
  ultimately show ?thesis
    by (simp add: read_cursor_pos_def Let_def irq_enter_protection_def irq_leave_protection_def outb_def inb_def h1 h2 b)
qed

end

text \<open>The cursor on the screen is where the console writes next.  On a display controller that keeps
  its contract, after \<^verbatim>\<open>update_cursor_pos\<close> of one of the eight consoles with its cursor inside
  the screen, reading the position back gives the cell of that cursor in the video memory, with
  no wrap-around; the next console drawn over it starts from there.
\<close>

theorem cursor_roundtrip:
  assumes "crt io sel crt_pos" and "console_ok c" and "idx < CONSOLE_NR"
  shows "fst (read_cursor_pos io (update_cursor_pos io idx c s))
    = 2000 * int idx + 80 * cursor_row c + cursor_col c"
proof -
  have c: "display_cols c = 80" "display_rows c = 25" "0 \<le> cursor_row c" "cursor_row c < 25" "0 \<le> cursor_col c" "cursor_col c < 80"
    and i: "idx < 8"
    using assms(2,3) by (simp_all add: console_ok_def geom_def CONSOLE_NR_def)
  have "cursor_pos idx c = word_of_int (2000 * int idx + 80 * cursor_row c + cursor_col c)"
    by (simp add: cursor_pos_def c(1,2) algebra_simps)
  moreover have "2000 * int idx + 80 * cursor_row c + cursor_col c < 2 ^ 16" using c i by simp
  moreover have "uint (word_of_int k :: u16) = k" if "0 \<le> k" "k < 2 ^ 16" for k
    using that by (simp add: uint_word_of_int)
  ultimately have "uint (cursor_pos idx c) = 2000 * int idx + 80 * cursor_row c + cursor_col c"
    using c(3,5) by (simp only:)
  then show ?thesis by (simp add: crt.read_ok[OF assms(1)] crt.update_ok[OF assms(1)])
qed

text \<open>A controller to run it on: the index register and the position.\<close>

definition sim_crt :: "(u8 \<times> u16) ports" where
  "sim_crt = \<lparr>p_inb = (\<lambda>p (r, v). (if r = 0x0F then ucast v else ucast (drop_bit 8 v), (r, v))),
     p_outb = (\<lambda>p x (r, v). if p = 0x3D4 then (x, v)
       else if r = 0x0F then (r, (v AND 0xFF00) OR ucast x) else (r, (v AND 0xFF) OR push_bit 8 (ucast x))),
     p_inw = (\<lambda>_ h. (0, h)), p_outw = (\<lambda>_ _ h. h)\<rparr>"

interpretation sim: crt sim_crt fst snd
  by unfold_locales (auto simp: sim_crt_def split: prod.splits)

theorem cursor_roundtrip_witness:
  "fst (read_cursor_pos sim_crt (update_cursor_pos sim_crt 3 demo_console (demo_cpu (0, 0)))) = 6000"
  using cursor_roundtrip[OF sim.crt_axioms demo_console_ok(1), of 3 "demo_cpu (0, 0)"]
  by (simp add: CONSOLE_NR_def demo_console_def console_init_def blank_console_def Let_def)

end
