(* ===== verification/Spec2Isabelle.thy ===== *)
theory Spec2Isabelle
  imports Ksync Keyboard Time Fatname Fatprops Fileprops Taskprops Create Fork Trap Loader Applib Shell Crt
begin

text \<open>
  A model of wjos, a small x86 operating system with preemptive processes, paging, terminals, an
  IDE disk and a FAT16 file system, from its boot loader to its shell, and of the properties
  that make its parts correct.

  \<^bold>\<open>How the kernel hangs together.\<close>  Everything runs on three shared structures.  The
  scheduler (\<^verbatim>\<open>kernel/core/task.c\<close>) keeps the tasks on intrusive lists
  (\<^verbatim>\<open>kernel/tools/list.c\<close>) and is driven by the clock interrupt and by calls of the running
  task.  Mutexes and semaphores (\<^verbatim>\<open>kernel/ipc\<close>) take tasks off its ready queue and put them
  back; every other component blocks through them alone.  Physical pages
  (\<^verbatim>\<open>kernel/core/memory.c\<close>, over the bitmap of \<^verbatim>\<open>kernel/tools/bitmap.c\<close>) back the page tables
  of the address spaces.  Above these, a system call on an open file goes through the
  descriptor table of the task and the system file table (\<^verbatim>\<open>kernel/fs/fs.c\<close>,
  \<^verbatim>\<open>kernel/fs/file.c\<close>) to a file system type (\<^verbatim>\<open>devfs.c\<close>, \<^verbatim>\<open>fatfs.c\<close>), from there through
  the device table (\<^verbatim>\<open>kernel/dev/dev.c\<close>) to a driver: a terminal (\<^verbatim>\<open>tty.c\<close>, \<^verbatim>\<open>console.c\<close>,
  \<^verbatim>\<open>keyboard.c\<close>) or the disk (\<^verbatim>\<open>disk.c\<close>), which waits on a semaphore its interrupt handler
  notifies.  Processes (fork, exec, exit, wait) tie all of them together.  The kernel is
  entered by the clock (\<^verbatim>\<open>clock.c\<close>), by an exception (\<^verbatim>\<open>irq.c\<close>) or through the call gate
  (\<^verbatim>\<open>syscall.c\<close>), which programs reach from the stubs of \<^verbatim>\<open>applib/lib_syscall.c\<close>; the shell
  (\<^verbatim>\<open>shell\<close>) is such a program.  The boot loader (\<^verbatim>\<open>loader\<close>) finds the memory, reads the
  kernel from the disk and places it.

  \<^bold>\<open>Conventions.\<close>  The state of a component is a record, an operation a function from the state
  to a result and the next state.  Records extend each other the way the code's layers use
  each other (\<^verbatim>\<open>sched\<close>, \<^verbatim>\<open>mm\<close>, \<^verbatim>\<open>cpu\<close>, \<^verbatim>\<open>vfs\<close>, \<^verbatim>\<open>os\<close>, \<^verbatim>\<open>kernel\<close>), and an operation of a lower
  layer is polymorphic in the rest.  A result \<open>None\<close> stands for \<open>does not return\<close>: a null
  dereference, an access outside an array, a failed \<^verbatim>\<open>ASSERT\<close>, a page fault in the kernel, or
  a loop that never ends; that an operation returns is therefore always part of what is
  proved.  Error codes are values.  Machine integers are words where the code relies on
  their width (addresses, page-table entries, FAT entries, tick counters, port values) and
  \<open>int\<close> otherwise, wrapped explicitly where a product or sum can leave 32 bits.  Loops are
  structural recursion where a counter bounds them, functions with a termination measure
  otherwise, and \<open>partial_function (option)\<close> where they need not end (walks along strings,
  page-allocation scans, cluster chains); no fuel is used anywhere.

  What is not in the repository, or not visible to it, is an argument of the definitions:
  \<open>io\<close>, the effect of port instructions on the devices; \<open>lay\<close>, the addresses the linker and
  compiler choose; \<open>ops\<close> and \<open>descs\<close>, the tables of file-system types and drivers, which are
  instantiated by the tables of the code; \<open>noret\<close> and \<open>uninit\<close>, the values of a missing return
  statement and of an unassigned local; \<open>intr\<close>, interrupts that arrive before a wait; and
  \<open>resume\<close>, the state in which a task that blocked runs again.  A blocking call is followed
  to the point where another task is dispatched; what the others do meanwhile is \<open>resume\<close>.

  \<^bold>\<open>The theories.\<close>
  \<^item> \<^theory_text>\<open>Prelude\<close>: machine types (\<^verbatim>\<open>comm/types.h\<close>), C's division, lemmas on lists and maps.
  \<^item> \<^theory_text>\<open>Klist\<close>: \<^verbatim>\<open>list.c\<close>.  \<open>dll h l xs\<close> relates a list head and a link memory to a sequence;
    the locale \<open>node_queue\<close> is the contract the scheduler and the IPC objects use, interpreted
    on the code's lists.
  \<^item> \<^theory_text>\<open>Sched\<close>: queues, dispatch, time slices, sleeping.  \<open>sched_rep s R S\<close> says the ready queue
    holds \<open>R\<close> and the sleep queue \<open>S\<close>; one lemma per operation gives its effect on \<open>R\<close> and \<open>S\<close>.
  \<^item> \<^theory_text>\<open>Ipc\<close>: mutexes and semaphores, one lemma per outcome (free, nested, contended, handed over).
  \<^item> \<^theory_text>\<open>Ksync\<close>: scheduler, mutexes and semaphores as one transition system with interleaved clock
    ticks; its invariant, its refinement of an abstract machine on plain lists, progress, no
    lost wake-up, ownership, exact wake-up times and round robin.
  \<^item> \<^theory_text>\<open>Bitmap\<close>: \<^verbatim>\<open>bitmap.c\<close>.  \<^theory_text>\<open>Klib\<close>: \<^verbatim>\<open>klib.c\<close> on byte memory.  \<^theory_text>\<open>Blocks\<close>: byte blocks and little-endian
    fields of packed structures.
  \<^item> \<^theory_text>\<open>Memory\<close>: page allocator (locale \<open>page_pool\<close>: a set of free pages), two-level page tables
    in byte-addressed memory, address spaces.  \<^theory_text>\<open>Pages\<close>: which pages an operation keeps.
    \<^theory_text>\<open>Space\<close>: creating and destroying address spaces.  \<^theory_text>\<open>Copy\<close>: the invariant of the two nested
    scans of \<^verbatim>\<open>memory_copy_uvm\<close> and what the copy reads.
  \<^item> \<^theory_text>\<open>Cpu\<close>: \<^verbatim>\<open>cpu.c\<close>, \<^verbatim>\<open>irq.c\<close>: descriptors, gates, interrupt controller, ports.
  \<^item> \<^theory_text>\<open>Vfs\<close>: descriptors, reference counts (\<open>refs_ok\<close>: every count is the number of descriptors),
    path routing, mounting.  \<^theory_text>\<open>Dev\<close>: device table and \<^verbatim>\<open>devfs.c\<close>.  \<^theory_text>\<open>Fileprops\<close>: opening and
    closing on top of the file systems.  A property of a single call takes what the file system
    answers to that call; closing all files of a task rests on the locale \<open>fs_closing\<close> (a close
    returns and keeps the world below in order), which is interpreted on \<^verbatim>\<open>devfs\<close> with the
    terminal driver and, through the locale \<open>shared_disk\<close>, on both file systems over a disk.
  \<^item> \<^theory_text>\<open>Fifo\<close> (locale \<open>bounded_queue\<close>), \<^theory_text>\<open>Console\<close>, \<^theory_text>\<open>History\<close>, \<^theory_text>\<open>Tty\<close>, \<^theory_text>\<open>Keyboard\<close>: the terminals, from key
    codes to line editing, and from bytes through the escape automaton to screen cells.
  \<^item> \<^theory_text>\<open>Time\<close>: \<^verbatim>\<open>time.c\<close> against the Gregorian calendar.
  \<^item> \<^theory_text>\<open>Fatfs\<close>, \<^theory_text>\<open>Fatname\<close>: all of \<^verbatim>\<open>fatfs.c\<close>.  \<^theory_text>\<open>Fatvol\<close>, \<^theory_text>\<open>Fatfile\<close>, \<^theory_text>\<open>Fatdir\<close>: inside the locale
    \<open>block_dev\<close> (a disk that reads and writes whole sectors) the allocation table is a map from
    clusters to entries, a file the bytes of its chain, the root directory a list of items.
    \<^theory_text>\<open>Fatprops\<close> states the results for any such disk.
  \<^item> \<^theory_text>\<open>Disk\<close>: all of \<^verbatim>\<open>disk.c\<close>.  \<^theory_text>\<open>Ata\<close>: what reading needs of an ATA drive that reports no error
    (locale \<open>ata\<close>), and that the driver then reads whole sectors.  The driver sends the first
    sector of a write without waiting for the drive's request, which ATA does not allow; writing
    is shown under the extra assumption \<open>takes_at_once\<close> (locale \<open>ata_eager_part\<close>), under which
    the driver is a \<open>block_dev\<close> (sublocale).  The file-system results for a \<open>block_dev\<close> thus hold
    for this driver on such drives only.  \<^theory_text>\<open>Drive\<close>: a simulated drive that meets both, on which
    the witnesses of the disk and file-system properties run.
  \<^item> \<^theory_text>\<open>Task\<close>: creation, fork, loading of programs, exit, wait.  \<^theory_text>\<open>Create\<close>: what creation gives a
    task.  \<^theory_text>\<open>Fork\<close>: fork, composed from creation, files, address space and ready queue.
    \<^theory_text>\<open>Taskprops\<close>: what exit and wait do to queues, process tree, files and pages.
  \<^item> \<^theory_text>\<open>Trap\<close>: the clock interrupt and the timer chip (\<^verbatim>\<open>clock.c\<close>), the exception handlers with
    the lines they log (\<^verbatim>\<open>irq.c\<close>), and the dispatcher of the system calls (\<^verbatim>\<open>syscall.c\<close>).
    \<^theory_text>\<open>Applib\<close>: the stubs of the programs and the frame they leave on the kernel stack.
  \<^item> \<^theory_text>\<open>Log\<close>: \<^verbatim>\<open>log.c\<close> over the formatter, the device table and the terminal.  \<^theory_text>\<open>Crt\<close>: cursor
    registers (locale \<open>crt\<close>), real-time clock, assertion messages.
  \<^item> \<^theory_text>\<open>Loader\<close>: \<^verbatim>\<open>loader_16.c\<close>, \<^verbatim>\<open>loader_32.c\<close>.  The locale \<open>ata_ready\<close> extends the contract of
    the drive by what the loader's polling needs; it is met by the simulated drive too.
  \<^item> \<^theory_text>\<open>Shell\<close>: the command line.  \<open>words\<close> is the specification of its splitting in place.

  \<^bold>\<open>What is shown.\<close>  The properties are the theorems that follow a text block with their number.
  They hold for every state that satisfies the stated invariant, not for one run; the
  theorem named after each (\<open>_witness\<close>) applies it to a concrete state.  Several state what
  the code does where that is not what it means to do (descriptors that leak, a page every fork
  loses, characters that send the cursor off the screen, files hidden by a removal); others
  that are not among the properties are lemmas (a parent that misses the exit of its child
  between scan and block, a search that never ends on a full volume).

  \<^bold>\<open>Not modelled.\<close>  The boot sector (real-mode assembly), the assembly entry points apart from
  the frames they build, the register half of the task switch (its effect, the change of the
  running task, is), and \<^verbatim>\<open>kernel/init\<close>, which calls the initialisation of the parts in turn
  and starts the shells: the parts keep their states in records of their own, which that
  code would need in one.  The lines logged inside the file system, the drivers (the error paths of
  \<^verbatim>\<open>get_tty\<close> and \<^verbatim>\<open>tty_open\<close> among them), the clock and the processes are left out (those of the
  handlers are results).  Kernel code is taken to reach every page of the pool, which
  \<open>create_kernel_table\<close> maps only up to 127 MB: on a larger machine the theorems about address
  spaces speak of runs that hand out no page above that limit.  The system calls that pass
  structures through user pointers are an argument of the dispatcher, with their kernel side
  in \<^theory_text>\<open>Vfs\<close>, \<^theory_text>\<open>Time\<close> and \<^theory_text>\<open>History\<close>.  The C library of the programs is vendored (only its
  headers are in the repository) and an argument of \<^theory_text>\<open>Shell\<close>.  \<^verbatim>\<open>utils/list.c\<close> and
  \<^verbatim>\<open>kernel/init/lib_syscall.c\<close> are copies of modelled files.
\<close>

end
